(* ===== verification/Ndash_Prelude.thy ===== *)
theory Ndash_Prelude
  imports Main "HOL-Library.Word" "HOL-Library.Signed_Division" "HOL-Library.Multiset"
begin

text \<open>
  Shared vocabulary of the development: machine types, the faults of the source, arrays indexed by
  machine integers, the sample flags, and the generic lemmas the components use.

  Integers. A signed machine integer is an \<^typ>\<open>int\<close>: signed overflow is undefined in C++, so
  the mathematical value is the only one a defined execution can have. Every narrowing conversion
  the source performs is written out with \<open>narrow32\<close> (a conversion to \<open>int32_t\<close>), and unsigned
  wrap-around with \<open>wrap64\<close>. Division and remainder of the source truncate towards zero and are
  \<open>sdiv\<close> and \<open>smod\<close>. Bytes are \<open>8 word\<close>.

  Faults. A failed \<open>CHECK\<close> and an access that C++ leaves undefined are values of type
  \<open>fault\<close>; a \<open>DCHECK\<close> is compiled out of release builds, so its condition is a
  hypothesis of the theorems that need it and never a branch of the model.
\<close>

unbundle bit_operations_syntax

type_synonym byte = "8 word"

text \<open>Rules on ring indices, in one collection for the queue proofs.\<close>

named_theorems ring_simps

section \<open>Machine integers\<close>

definition narrow32 :: "int \<Rightarrow> int" where
  "narrow32 x = signed_take_bit 31 x"

definition wrap64 :: "int \<Rightarrow> int" where
  "wrap64 x = take_bit 64 x"

definition in_int32 :: "int \<Rightarrow> bool" where
  "in_int32 x \<longleftrightarrow> - (2 ^ 31) \<le> x \<and> x < 2 ^ 31"

lemma narrow32_id [simp]: "in_int32 x \<Longrightarrow> narrow32 x = x"
  by (simp add: narrow32_def in_int32_def signed_take_bit_int_eq_self)

lemma narrow32_bounds: "in_int32 (narrow32 x)"
  using signed_take_bit_int_greater_eq_minus_exp [of 31 x] signed_take_bit_int_less_exp [of 31 x]
  by (simp add: narrow32_def in_int32_def)

lemma wrap64_id [simp]: "0 \<le> x \<Longrightarrow> x < 2 ^ 64 \<Longrightarrow> wrap64 x = x"
  by (simp add: wrap64_def take_bit_int_eq_self)

lemma sdiv_nonneg [simp]: "0 \<le> a \<Longrightarrow> 0 < b \<Longrightarrow> (a::int) sdiv b = a div b"
  by (simp add: signed_divide_int_def sgn_if)

lemma smod_nonneg [simp]: "0 \<le> a \<Longrightarrow> 0 < b \<Longrightarrow> (a::int) smod b = a mod b"
  by (cases "a = 0") (simp_all add: signed_modulo_int_def)

lemma int_div_bounds:
  assumes "0 < (b::int)"
  shows "a div b * b \<le> a" "a < a div b * b + b"
  using div_mult_mod_eq [of a b] pos_mod_bound [OF assms, of a] pos_mod_sign [OF assms, of a]
  by linarith+

lemma int_le_div: "0 < (b::int) \<Longrightarrow> n * b \<le> a \<Longrightarrow> n \<le> a div b"
  using zdiv_mono1 [of "n * b" a b] by simp

lemma int_div_less: "0 < (b::int) \<Longrightarrow> a < n * b \<Longrightarrow> a div b < n"
  using int_div_bounds(1) [of b a] by (meson le_less_trans mult_less_cancel_right_pos)

section \<open>Faults\<close>

datatype fault = Check_failed | Undefined_access

type_synonym 'a result = "fault + 'a"

text \<open>Sequencing: the first fault ends the operation.\<close>

definition and_then :: "'a result \<Rightarrow> ('a \<Rightarrow> 'b result) \<Rightarrow> 'b result" where
  "and_then m f = (case m of Inl e \<Rightarrow> Inl e | Inr x \<Rightarrow> f x)"

lemma and_then_simps [simp]: "and_then (Inl e) f = Inl e" "and_then (Inr x) f = f x"
  by (simp_all add: and_then_def)

lemma and_then_Inr: "and_then m f = Inr y \<longleftrightarrow> (\<exists>x. m = Inr x \<and> f x = Inr y)"
  by (cases m) auto

lemma and_then_cong [fundef_cong]:
  "m = m' \<Longrightarrow> (\<And>x. m' = Inr x \<Longrightarrow> f x = g x) \<Longrightarrow> and_then m f = and_then m' g"
  by (cases m') auto

text \<open>Sequencing of operations that contain a loop which may not end (\<open>None\<close>).\<close>

definition and_then_opt :: "'a result option \<Rightarrow> ('a \<Rightarrow> 'b result option) \<Rightarrow> 'b result option" where
  "and_then_opt m f = (case m of None \<Rightarrow> None | Some (Inl e) \<Rightarrow> Some (Inl e) | Some (Inr x) \<Rightarrow> f x)"

lemma and_then_opt_simps [simp]:
  "and_then_opt None f = None" "and_then_opt (Some (Inl e)) f = Some (Inl e)" "and_then_opt (Some (Inr x)) f = f x"
  by (simp_all add: and_then_opt_def)

lemma and_then_opt_Inr: "and_then_opt m f = Some (Inr y) \<longleftrightarrow> (\<exists>x. m = Some (Inr x) \<and> f x = Some (Inr y))"
  by (auto simp: and_then_opt_def split: option.splits sum.splits)

section \<open>Arrays indexed by machine integers\<close>

definition arr_get :: "'a list \<Rightarrow> int \<Rightarrow> 'a" where
  "arr_get xs i = xs ! nat i"

definition arr_set :: "'a list \<Rightarrow> int \<Rightarrow> 'a \<Rightarrow> 'a list" where
  "arr_set xs i v = xs[nat i := v]"

lemma length_arr_set [simp]: "length (arr_set xs i v) = length xs"
  by (simp add: arr_set_def)

lemma arr_get_set [simp]:
  assumes "0 \<le> i" "i < int (length xs)" "0 \<le> j"
  shows "arr_get (arr_set xs i v) j = (if j = i then v else arr_get xs j)"
  using assms by (auto simp: arr_get_def arr_set_def nth_list_update)

lemma arr_get_append1 [simp]: "0 \<le> i \<Longrightarrow> i < int (length xs) \<Longrightarrow> arr_get (xs @ ys) i = arr_get xs i"
  by (simp add: arr_get_def nth_append nat_less_iff)

text \<open>
  Fresh memory. The contents of \<open>new T[n]\<close> for a scalar type are unspecified. They are the
  constants below, which no proof about the contents of a component unfolds: a theorem that
  mentions neither constant holds for every value they could have.
\<close>

definition uninit64 :: int where
  "uninit64 = 0"

definition uninit32 :: int where
  "uninit32 = 0"

definition uninit_byte :: byte where
  "uninit_byte = 0"

section \<open>Ring indices\<close>

text \<open>
  A position \<open>k\<close> steps after \<open>r\<close> in an array of \<open>c\<close> slots used as a ring.
\<close>

definition ring_pos :: "int \<Rightarrow> int \<Rightarrow> int \<Rightarrow> int" where
  "ring_pos c r k = (r + k) mod c"

lemma ring_pos_bounds [ring_simps]: "0 < c \<Longrightarrow> 0 \<le> ring_pos c r k \<and> ring_pos c r k < c"
  by (simp add: ring_pos_def)

lemma ring_pos_inj:
  assumes "0 < c" "0 \<le> j" "j < c" "0 \<le> k" "k < c" "ring_pos c r j = ring_pos c r k"
  shows "j = k"
proof -
  have "(r + j - r) mod c = (r + k - r) mod c"
    using assms(6) unfolding ring_pos_def by (rule mod_diff_cong) simp
  with assms(2-5) show ?thesis by simp
qed

lemma ring_pos_shift [ring_simps]: "ring_pos c (ring_pos c r j) k = ring_pos c r (j + k)"
  by (simp add: ring_pos_def mod_add_left_eq add.assoc)

lemma ring_pos_0 [ring_simps]: "0 \<le> r \<Longrightarrow> r < c \<Longrightarrow> ring_pos c r 0 = r"
  by (simp add: ring_pos_def)

lemma ring_succ: "0 \<le> r \<Longrightarrow> r < c \<Longrightarrow> (if r + 1 = c then 0 else r + 1) = ring_pos c r 1"
  by (auto simp: ring_pos_def)

lemma ring_pred: "0 \<le> r \<Longrightarrow> r < c \<Longrightarrow> (if r = 0 then c else r) - 1 = ring_pos c r (- 1)"
  by (auto simp: ring_pos_def zmod_minus1)

section \<open>Sample flags (util/util.h)\<close>

definition kSampleFlagSync :: int where
  "kSampleFlagSync = 1"

definition kSampleFlagEncrypted :: int where
  "kSampleFlagEncrypted = 2"

definition kSampleFlagDecodeOnly :: int where
  "kSampleFlagDecodeOnly = 0x8000000"

definition kResultEndOfInput :: int where
  "kResultEndOfInput = -1"

definition kMicrosPerSecond :: int where
  "kMicrosPerSecond = 1000000"

section \<open>Generic list lemmas\<close>

lemma map_upt_nth_tl: "map f [0..<n] \<noteq> [] \<Longrightarrow> tl (map f [0..<n]) = map (\<lambda>k. f (Suc k)) [0..<n - 1]"
  by (cases n) (simp_all add: upt_conv_Cons map_Suc_upt [symmetric] del: upt_Suc)

lemma drop_map_upt: "drop k (map f [0..<n]) = map (\<lambda>i. f (k + i)) [0..<n - k]"
  by (rule nth_equalityI) auto

lemma take_map_upt: "take k (map f [0..<n]) = map f [0..<min k n]"
  by (rule nth_equalityI) auto

lemma map_upt_snoc: "map f [0..<Suc n] = map f [0..<n] @ [f n]"
  by simp

section \<open>Extreme elements\<close>

text \<open>
  \<open>std::min_element\<close> and \<open>std::max_element\<close> of a range with a first element: the comparator decides
  whether its first argument goes before the second, and of equal elements the first is returned.
\<close>

fun min_element :: "('a \<Rightarrow> 'a \<Rightarrow> bool) \<Rightarrow> 'a \<Rightarrow> 'a list \<Rightarrow> 'a" where
  "min_element before smallest [] = smallest"
| "min_element before smallest (x # xs) = min_element before (if before x smallest then x else smallest) xs"

definition max_element :: "('a \<Rightarrow> 'a \<Rightarrow> bool) \<Rightarrow> 'a \<Rightarrow> 'a list \<Rightarrow> 'a" where
  "max_element before largest xs = min_element (\<lambda>x y. before y x) largest xs"

lemma min_element_split:
  assumes trans: "\<And>x y z. before x y \<Longrightarrow> before y z \<Longrightarrow> before x z"
    and weak: "\<And>x y z. before x y \<Longrightarrow> \<not> before z y \<Longrightarrow> before x z"
  shows "\<exists>pre post. b # xs = pre @ min_element before b xs # post \<and>
    (\<forall>t \<in> set pre. before (min_element before b xs) t) \<and> (\<forall>t \<in> set post. \<not> before t (min_element before b xs))"
proof (induction xs arbitrary: b rule: rev_induct)
  case (snoc x xs)
  let ?m = "min_element before b xs"
  have m: "min_element before b (xs @ [x]) = (if before x ?m then x else ?m)"
    by (induction xs arbitrary: b) auto
  obtain pre post where pp: "b # xs = pre @ ?m # post" "\<forall>t \<in> set pre. before ?m t" "\<forall>t \<in> set post. \<not> before t ?m"
    using snoc.IH [of b] by blast
  show ?case
  proof (cases "before x ?m")
    case True
    have "before x t" if "t \<in> set (b # xs)" for t
    proof -
      have "t \<in> set pre \<or> t = ?m \<or> t \<in> set post" using that unfolding pp(1) by auto
      then show ?thesis using True pp(2,3) trans weak by blast
    qed
    then show ?thesis using True m by (intro exI [of _ "b # xs"] exI [of _ "[]"]) auto
  next
    case False
    then show ?thesis using pp m by (intro exI [of _ pre] exI [of _ "post @ [x]"]) auto
  qed
qed (simp add: exI [of _ "[]"])

lemma min_element_in: "min_element before b xs \<in> set (b # xs)"
proof (induction xs arbitrary: b)
  case (Cons x xs)
  from this [of "if before x b then x else b"] show ?case by (auto split: if_splits)
qed simp

end
