(* ===== verification/Time_Scaling.thy ===== *)
theory Time_Scaling
  imports Ndash_Prelude "HOL-Library.Log_Nat"
begin

text \<open>
  Time arithmetic (\<open>util/util.cc\<close>): \<open>ScaleLargeTimestamp\<close>, whose last branch computes in \<open>double\<close>,
  and \<open>CeilDivide\<close>. A floating-point value is the rational number it denotes; every operation of
  the source rounds its exact result to the nearest value with \<open>p\<close> significant bits, ties to even
  (\<open>fp_round p\<close>, with \<open>p\<close> 53 for \<open>double\<close> and 24 for \<open>float\<close>). The times and scales of a
  presentation are far from the limits of the exponent, so overflow and subnormal numbers are left
  out. The main lemma is that rounding is monotone, which makes segment start times monotone in the
  segment number.
\<close>

section \<open>Floating-point rounding\<close>

definition pow2 :: "int \<Rightarrow> rat" where
  "pow2 k = (if 0 \<le> k then 2 ^ nat k else 1 / 2 ^ nat (- k))"

text \<open>The binary exponent of a positive rational.\<close>

definition fp_exponent :: "rat \<Rightarrow> int" where
  "fp_exponent x =
     (let (n, d) = quotient_of x; k = bitlen n - bitlen d in if pow2 k \<le> x then k else k - 1)"

definition round_half_even :: "rat \<Rightarrow> int" where
  "round_half_even x =
     (let f = \<lfloor>x\<rfloor>; r = x - of_int f
      in if r < 1 / 2 then f else if 1 / 2 < r then f + 1 else if even f then f else f + 1)"

definition fp_pos :: "nat \<Rightarrow> rat \<Rightarrow> rat" where
  "fp_pos p x = (let u = pow2 (fp_exponent x - int p + 1) in of_int (round_half_even (x / u)) * u)"

definition fp_round :: "nat \<Rightarrow> rat \<Rightarrow> rat" where
  "fp_round p x = (if x < 0 then - fp_pos p (- x) else if x = 0 then 0 else fp_pos p x)"

definition double :: "rat \<Rightarrow> rat" where
  "double x = fp_round 53 x"

text \<open>
  A floating-point value with the results of a division by zero, and its narrowing to single precision.
\<close>

datatype ieee = Finite rat | Infinite bool | Not_A_Number

definition ieee_divide :: "int \<Rightarrow> int \<Rightarrow> ieee" where
  "ieee_divide n d =
     (if d \<noteq> 0 then Finite (double (double (of_int n) / double (of_int d)))
      else if n = 0 then Not_A_Number else Infinite (n < 0))"

fun to_single :: "ieee \<Rightarrow> ieee" where
  "to_single (Finite x) = Finite (fp_round 24 x)"
| "to_single x = x"

text \<open>Conversion of a floating-point value to an integer cuts off its fraction.\<close>

definition fp_trunc :: "rat \<Rightarrow> int" where
  "fp_trunc x = (if 0 \<le> x then \<lfloor>x\<rfloor> else - \<lfloor>- x\<rfloor>)"

section \<open>Operations\<close>

definition ScaleLargeTimestamp :: "int \<Rightarrow> int \<Rightarrow> int \<Rightarrow> int" where
  "ScaleLargeTimestamp timestamp multiplier divisor =
     (if divisor \<ge> multiplier \<and> divisor smod multiplier = 0
      then (let division_factor = divisor sdiv multiplier in timestamp sdiv division_factor)
      else if divisor < multiplier \<and> multiplier smod divisor = 0
      then (let multiplication_factor = multiplier sdiv divisor in timestamp * multiplication_factor)
      else (let multiplication_factor = double (double (of_int multiplier) / double (of_int divisor))
            in fp_trunc (double (double (of_int timestamp) * multiplication_factor))))"

definition CeilDivide :: "int \<Rightarrow> int \<Rightarrow> int" where
  "CeilDivide numerator denominator = (numerator + denominator - 1) sdiv denominator"

section \<open>Rounding is monotone\<close>

lemma pow2_pos [simp]: "0 < pow2 k"
  by (simp add: pow2_def)

lemma pow2_Suc: "pow2 (k + 1) = 2 * pow2 k"
proof (cases "0 \<le> k")
  case True
  then show ?thesis by (simp add: pow2_def nat_add_distrib)
next
  case False
  then have "nat (- k) = Suc (nat (- (k + 1)))" by simp
  with False show ?thesis by (cases "k = -1") (auto simp: pow2_def)
qed

lemma pow2_add_nat: "pow2 (k + int n) = pow2 k * 2 ^ n"
proof (induction n)
  case (Suc n)
  have "pow2 (k + int (Suc n)) = pow2 ((k + int n) + 1)" by (simp add: algebra_simps)
  with Suc show ?case by (simp add: pow2_Suc)
qed simp

lemma pow2_mono: "j \<le> k \<Longrightarrow> pow2 j \<le> pow2 k"
  using pow2_add_nat [of j "nat (k - j)"] mult_left_mono [of 1 "2 ^ nat (k - j)" "pow2 j"]
  by (simp add: less_imp_le)

lemma fp_exponent_bounds:
  assumes "0 < x"
  shows "pow2 (fp_exponent x) \<le> x" "x < pow2 (fp_exponent x + 1)"
proof -
  obtain n d where q: "quotient_of x = (n, d)" by (cases "quotient_of x")
  have d: "0 < d" using quotient_of_denom_pos [OF q] .
  have x: "x = of_int n / of_int d" using quotient_of_div [OF q] .
  have n: "0 < n" using assms d by (simp add: x zero_less_divide_iff)
  define a where "a = bitlen n"
  define c where "c = bitlen d"
  have nb: "2 ^ nat (a - 1) \<le> n" "n < 2 ^ nat a" "1 \<le> a"
    using bitlen_bounds [OF n] bitlen_ge_iff_power n by (auto simp: a_def bitlen_def floorlog_def)
  have db: "2 ^ nat (c - 1) \<le> d" "d < 2 ^ nat c" "1 \<le> c"
    using bitlen_bounds [OF d] d by (auto simp: c_def bitlen_def floorlog_def)
  have p: "pow2 a = of_int (2 ^ nat a)" "pow2 (a - 1) = of_int (2 ^ nat (a - 1))"
      "pow2 c = of_int (2 ^ nat c)" "pow2 (c - 1) = of_int (2 ^ nat (c - 1))"
    using nb(3) db(3) by (simp_all add: pow2_def)
  have nr: "pow2 (a - 1) \<le> of_int n" "of_int n < pow2 a"
    and dr: "pow2 (c - 1) \<le> of_int d" "of_int d < pow2 c"
    unfolding p of_int_le_iff of_int_less_iff using nb db by auto
  have dp: "(0::rat) < of_int d" using d by simp
  have split: "pow2 (i + j) = pow2 i * pow2 j" if "0 \<le> j" for i j
    using pow2_add_nat [of i "nat j"] that by (simp add: pow2_def)
  have up: "x < pow2 (a - c + 1)"
  proof -
    have "pow2 a = pow2 ((a - c + 1) + (c - 1))" by simp
    also have "\<dots> = pow2 (a - c + 1) * pow2 (c - 1)" using db(3) by (intro split) simp
    also have "\<dots> \<le> pow2 (a - c + 1) * of_int d" using dr(1) by (simp add: mult_left_mono)
    finally show ?thesis using nr(2) dp by (simp add: x divide_less_eq)
  qed
  have lo: "pow2 (a - c - 1) \<le> x"
  proof -
    have "pow2 (a - c - 1) * of_int d \<le> pow2 (a - c - 1) * pow2 c" using dr(2) by (simp add: mult_left_mono)
    also have "\<dots> = pow2 ((a - c - 1) + c)" using db(3) by (intro split [symmetric]) simp
    also have "\<dots> \<le> of_int n" using nr(1) by simp
    finally show ?thesis using dp by (simp add: x le_divide_eq)
  qed
  have e: "fp_exponent x = (if pow2 (a - c) \<le> x then a - c else a - c - 1)"
    by (simp add: fp_exponent_def q a_def c_def Let_def)
  show "pow2 (fp_exponent x) \<le> x" "x < pow2 (fp_exponent x + 1)"
    using up lo by (auto simp: e)
qed

lemma round_half_even_near: "\<lfloor>x\<rfloor> \<le> round_half_even x" "round_half_even x \<le> \<lfloor>x\<rfloor> + 1"
  by (simp_all add: round_half_even_def Let_def)

lemma round_half_even_mono:
  assumes "x \<le> y"
  shows "round_half_even x \<le> round_half_even y"
proof (cases "\<lfloor>x\<rfloor> = \<lfloor>y\<rfloor>")
  case True
  with assms show ?thesis by (auto simp: round_half_even_def Let_def)
next
  case False
  then have "\<lfloor>x\<rfloor> + 1 \<le> \<lfloor>y\<rfloor>" using floor_mono [OF assms] by simp
  with round_half_even_near [of x] round_half_even_near [of y] show ?thesis by linarith
qed

lemma round_half_even_int [simp]: "round_half_even (of_int n) = n"
  by (simp add: round_half_even_def)

lemma round_half_even_le: "x \<le> of_int n \<Longrightarrow> round_half_even x \<le> n"
  using round_half_even_mono [of x "of_int n"] by simp

lemma round_half_even_ge: "of_int n \<le> x \<Longrightarrow> n \<le> round_half_even x"
  using round_half_even_mono [of "of_int n" x] by simp

text \<open>Rounding stays within the binade: between the powers of two around the number.\<close>

lemma fp_pos_bounds:
  assumes "0 < x" "0 < p"
  shows "pow2 (fp_exponent x) \<le> fp_pos p x" "fp_pos p x \<le> pow2 (fp_exponent x + 1)"
proof -
  let ?e = "fp_exponent x"
  let ?u = "pow2 (?e - int p + 1)"
  have u: "0 < ?u" by simp
  have hi: "pow2 (?e + 1) = ?u * 2 ^ p"
    using pow2_add_nat [of "?e - int p + 1" p] by (simp add: add.commute)
  have lo: "pow2 ?e = ?u * 2 ^ (p - 1)"
    using pow2_add_nat [of "?e - int p + 1" "p - 1"] assms(2) by (simp add: of_nat_diff)
  have "x / ?u \<le> of_int (2 ^ p)"
    using fp_exponent_bounds(2) [OF assms(1)] u by (simp add: hi divide_le_eq mult.commute)
  then have 1: "round_half_even (x / ?u) \<le> 2 ^ p" by (rule round_half_even_le)
  have "of_int (2 ^ (p - 1)) \<le> x / ?u"
    using fp_exponent_bounds(1) [OF assms(1)] u by (simp add: lo le_divide_eq mult.commute)
  then have 2: "2 ^ (p - 1) \<le> round_half_even (x / ?u)" by (rule round_half_even_ge)
  have "of_int (round_half_even (x / ?u)) \<le> (2 ^ p :: rat)" "(2 ^ (p - 1) :: rat) \<le> of_int (round_half_even (x / ?u))"
    using 1 2 by (metis of_int_le_iff of_int_numeral of_int_power)+
  then show "pow2 ?e \<le> fp_pos p x" "fp_pos p x \<le> pow2 (?e + 1)"
    using u by (simp_all add: fp_pos_def Let_def hi lo mult.commute mult_left_mono less_imp_le)
qed

lemma fp_pos_mono:
  assumes x: "0 < x" and xy: "x \<le> y" and p: "0 < p"
  shows "fp_pos p x \<le> fp_pos p y"
proof -
  have y: "0 < y" using x xy by simp
  let ?ex = "fp_exponent x" and ?ey = "fp_exponent y"
  have le: "?ex \<le> ?ey"
  proof (rule ccontr)
    assume "\<not> ?ex \<le> ?ey"
    then have "pow2 (?ey + 1) \<le> pow2 ?ex" by (intro pow2_mono) simp
    with fp_exponent_bounds(1) [OF x] fp_exponent_bounds(2) [OF y] xy show False by simp
  qed
  show ?thesis
  proof (cases "?ex = ?ey")
    case True
    then have "x / pow2 (?ex - int p + 1) \<le> y / pow2 (?ey - int p + 1)"
      using xy by (simp add: divide_right_mono less_imp_le)
    from round_half_even_mono [OF this] True show ?thesis
      by (simp add: fp_pos_def Let_def)
  next
    case False
    with le have "pow2 (?ex + 1) \<le> pow2 ?ey" by (intro pow2_mono) simp
    with fp_pos_bounds(2) [OF x p] fp_pos_bounds(1) [OF y p] show ?thesis by simp
  qed
qed

lemma fp_pos_positive: "0 < x \<Longrightarrow> 0 < p \<Longrightarrow> 0 < fp_pos p x"
  using fp_pos_bounds(1) [of x p] pow2_pos [of "fp_exponent x"] by (rule less_le_trans [rotated])

lemma fp_round_mono: "x \<le> y \<Longrightarrow> 0 < p \<Longrightarrow> fp_round p x \<le> fp_round p y"
  using fp_pos_mono [of x y p] fp_pos_mono [of "- y" "- x" p] fp_pos_positive [of "- x" p] fp_pos_positive [of y p]
  by (auto simp: fp_round_def not_less le_less)

lemma fp_round_nonneg: "0 \<le> x \<Longrightarrow> 0 < p \<Longrightarrow> 0 \<le> fp_round p x"
  using fp_pos_positive [of x p] by (auto simp: fp_round_def)

lemma fp_trunc_mono: "x \<le> y \<Longrightarrow> fp_trunc x \<le> fp_trunc y"
proof -
  assume xy: "x \<le> y"
  show ?thesis
  proof (cases "0 \<le> x")
    case True
    with xy show ?thesis by (simp add: fp_trunc_def floor_mono)
  next
    case False
    then have nn: "0 \<le> \<lfloor>- x\<rfloor>" by simp
    show ?thesis
    proof (cases "0 \<le> y")
      case True
      then have "0 \<le> \<lfloor>y\<rfloor>" by simp
      with nn True False show ?thesis by (simp only: fp_trunc_def if_True if_False)
    next
      case False
      with \<open>\<not> 0 \<le> x\<close> floor_mono [of "- y" "- x"] xy show ?thesis by (simp add: fp_trunc_def)
    qed
  qed
qed

lemma sdiv_mono: "0 < (b::int) \<Longrightarrow> x \<le> y \<Longrightarrow> x sdiv b \<le> y sdiv b"
proof -
  assume b: "0 < b" and xy: "x \<le> y"
  have neg: "z sdiv b = - ((- z) div b)" if "z < 0" for z
    using that b by (simp add: signed_divide_int_def sgn_if)
  show ?thesis
  proof (cases "x < 0")
    case False
    with b xy show ?thesis by (simp add: zdiv_mono1)
  next
    case True
    have nn: "0 \<le> (- x) div b" using True b by (simp add: pos_imp_zdiv_nonneg_iff)
    show ?thesis
    proof (cases "y < 0")
      case True
      with \<open>x < 0\<close> neg b xy zdiv_mono1 [of "- y" "- x" b] show ?thesis by simp
    next
      case False
      then have "0 \<le> y div b" using b by (simp add: pos_imp_zdiv_nonneg_iff)
      with False \<open>x < 0\<close> neg [of x] b nn show ?thesis by simp
    qed
  qed
qed

text \<open>Scaling by positive factors is monotone, also where it goes through \<open>double\<close>.\<close>

lemma ScaleLargeTimestamp_mono:
  assumes "x \<le> y" "0 < m" "0 < d"
  shows "ScaleLargeTimestamp x m d \<le> ScaleLargeTimestamp y m d"
proof -
  let ?f = "double (double (of_int m) / double (of_int d))"
  have f: "0 \<le> ?f"
    using assms by (auto simp: double_def intro!: fp_round_nonneg divide_nonneg_nonneg)
  have xy: "double (of_int x) \<le> double (of_int y)"
    unfolding double_def by (rule fp_round_mono) (use assms in simp_all)
  have "double (double (of_int x) * ?f) \<le> double (double (of_int y) * ?f)"
    unfolding double_def [of "_ * _"]
    by (rule fp_round_mono) (use mult_right_mono [OF xy f] in simp_all)
  then have 3: "fp_trunc (double (double (of_int x) * ?f)) \<le> fp_trunc (double (double (of_int y) * ?f))"
    by (rule fp_trunc_mono)
  have 1: "x sdiv (d sdiv m) \<le> y sdiv (d sdiv m)" if "m \<le> d"
    by (rule sdiv_mono) (use assms that in \<open>simp_all add: pos_imp_zdiv_pos_iff\<close>)
  have 2: "x * (m sdiv d) \<le> y * (m sdiv d)"
    using assms by (simp add: mult_right_mono pos_imp_zdiv_nonneg_iff)
  show ?thesis
    using 1 2 3 by (simp add: ScaleLargeTimestamp_def Let_def)
qed

lemma ScaleLargeTimestamp_0 [simp]: "ScaleLargeTimestamp 0 m d = 0"
  by (simp add: ScaleLargeTimestamp_def double_def fp_round_def fp_trunc_def Let_def signed_divide_int_def)

text \<open>\<open>CeilDivide\<close> is the ceiling: the least multiple of the denominator not below the numerator.\<close>

lemma CeilDivide_bounds:
  assumes "0 \<le> n" "0 < d"
  shows "n \<le> CeilDivide n d * d" "(CeilDivide n d - 1) * d < n" "0 \<le> CeilDivide n d"
proof -
  have c: "CeilDivide n d = (n + d - 1) div d" using assms by (simp add: CeilDivide_def)
  note b = int_div_bounds [OF assms(2), of "n + d - 1"]
  show "n \<le> CeilDivide n d * d" using b(2) unfolding c by linarith
  show "(CeilDivide n d - 1) * d < n" using b(1) unfolding c left_diff_distrib by linarith
  show "0 \<le> CeilDivide n d" unfolding c using assms by (simp add: pos_imp_zdiv_nonneg_iff)
qed

end
