(* ===== verification/Uri_Util.thy ===== *)
theory Uri_Util
  imports Ndash_Prelude
begin

text \<open>
  URI handling (\<open>util/uri_util.cc\<close>): the part indices of a URI, reference resolution with the
  removal of dot segments, and query parameters. Strings are character lists. The search functions
  of the standard library are defined first, with \<open>npos\<close> as it looks after the conversion to
  \<open>int\<close> that the source makes, that is, -1; a negative count passed to \<open>substr\<close> or \<open>erase\<close> is a huge
  \<open>size_t\<close> and reaches to the end.

  \<open>DecodeQueryComponent\<close> only calls curl and is not modelled.
\<close>

section \<open>String searches\<close>

definition find_char :: "char \<Rightarrow> string \<Rightarrow> int" where
  "find_char c s = (let k = length (takeWhile (\<lambda>x. x \<noteq> c) s) in if k < length s then int k else -1)"

definition find_char_from :: "char \<Rightarrow> int \<Rightarrow> string \<Rightarrow> int" where
  "find_char_from c start s =
     (let k = find_char c (drop (nat start) s) in if k = -1 then -1 else start + k)"

definition find_last :: "char \<Rightarrow> string \<Rightarrow> int" where
  "find_last c s =
     (let k = length (takeWhile (\<lambda>x. x \<noteq> c) (rev s))
      in if k < length s then int (length s) - 1 - int k else -1)"

definition take_count :: "int \<Rightarrow> 'a list \<Rightarrow> 'a list" where
  "take_count n s = (if n < 0 then s else take (nat n) s)"

text \<open>\<open>s[i]\<close>: the terminating zero may be read, nothing beyond it.\<close>

definition char_at :: "string \<Rightarrow> int \<Rightarrow> char result" where
  "char_at s i =
     (if i < 0 \<or> int (length s) < i then Inl Undefined_access
      else if i = int (length s) then Inr CHR 0x00 else Inr (s ! nat i))"

text \<open>\<open>s.erase(pos, count)\<close>: throws when \<open>pos\<close> is past the end.\<close>

definition erase :: "string \<Rightarrow> int \<Rightarrow> int \<Rightarrow> string result" where
  "erase s pos cnt =
     (if pos < 0 \<or> int (length s) < pos then Inl Check_failed
      else Inr (take (nat pos) s @ (if cnt < 0 then [] else drop (nat (pos + cnt)) s)))"

section \<open>The parts of a URI\<close>

record uri_indices =
  SCHEME_COLON :: int
  PATH :: int
  QUERY :: int
  FRAGMENT :: int

text \<open>The local variables of \<open>GetUriIndices\<close>, for a string that is not empty.\<close>

definition fragment_index :: "string \<Rightarrow> int" where
  "fragment_index uri =
     (let f = find_char CHR ''#'' uri in if f = -1 then int (length uri) else f)"

definition query_index :: "string \<Rightarrow> int" where
  "query_index uri =
     (let q = find_char CHR ''?'' uri
      in if q = -1 \<or> q > fragment_index uri then fragment_index uri else q)"

definition scheme_index :: "string \<Rightarrow> int" where
  "scheme_index uri =
     (let l = find_char CHR ''/'' uri;
          scheme_index_limit = (if l = -1 \<or> l > query_index uri then query_index uri else l);
          c = find_char CHR '':'' uri
      in if c > scheme_index_limit then -1 else c)"

definition has_authority :: "string \<Rightarrow> bool" where
  "has_authority uri \<longleftrightarrow>
     scheme_index uri + 2 < query_index uri \<and> uri ! nat (scheme_index uri + 1) = CHR ''/'' \<and>
     uri ! nat (scheme_index uri + 2) = CHR ''/''"

definition path_index :: "string \<Rightarrow> int" where
  "path_index uri =
     (if has_authority uri
      then (let p = find_char_from CHR ''/'' (scheme_index uri + 3) uri
            in if p = -1 \<or> p > query_index uri then query_index uri else p)
      else scheme_index uri + 1)"

definition GetUriIndices :: "string \<Rightarrow> uri_indices" where
  "GetUriIndices uri_string =
     (if uri_string = [] then \<lparr>SCHEME_COLON = -1, PATH = 0, QUERY = 0, FRAGMENT = 0\<rparr>
      else \<lparr>SCHEME_COLON = scheme_index uri_string, PATH = path_index uri_string,
            QUERY = query_index uri_string, FRAGMENT = fragment_index uri_string\<rparr>)"

section \<open>Dot segments\<close>

text \<open>
  The loop of \<open>RemoveDotSegments\<close>. It moves backwards as well as forwards, so it is a partial
  function; \<open>None\<close> is a loop that does not end.
\<close>

definition at_segment_end :: "string \<Rightarrow> int \<Rightarrow> int \<Rightarrow> bool result" where
  "at_segment_end uri limit i =
     (if i = limit then Inr True else and_then (char_at uri i) (\<lambda>c. Inr (c = CHR ''/'')))"

partial_function (option) remove_dot_loop ::
  "string \<Rightarrow> int \<Rightarrow> int \<Rightarrow> int \<Rightarrow> int \<Rightarrow> string result option" where
  "remove_dot_loop uri offset limit segment_start i =
     (if i \<le> limit
      then (case at_segment_end uri limit i of
              Inl e \<Rightarrow> Some (Inl e)
            | Inr segment_end \<Rightarrow>
                if \<not> segment_end
                then remove_dot_loop uri offset limit segment_start (i + 1)
                else
                  (let next_segment_start = (if i = limit then i else i + 1)
                   in if i = segment_start + 1 \<and> uri ! nat segment_start = CHR ''.''
                      then (case erase uri segment_start (next_segment_start - segment_start) of
                              Inl e \<Rightarrow> Some (Inl e)
                            | Inr uri' \<Rightarrow>
                                remove_dot_loop uri' offset
                                  (limit - (next_segment_start - segment_start))
                                  segment_start segment_start)
                      else if i = segment_start + 2 \<and> uri ! nat segment_start = CHR ''.'' \<and>
                              uri ! nat (segment_start + 1) = CHR ''.''
                      then (let prev = take_count (segment_start - 2) uri;
                                prev_segment_start = find_last CHR ''/'' prev + 1;
                                remove_from = (if prev_segment_start > offset then prev_segment_start
                                               else offset)
                            in case erase uri remove_from (next_segment_start - remove_from) of
                                 Inl e \<Rightarrow> Some (Inl e)
                               | Inr uri' \<Rightarrow>
                                   remove_dot_loop uri' offset
                                     (limit - (next_segment_start - remove_from))
                                     prev_segment_start prev_segment_start)
                      else remove_dot_loop uri offset limit (i + 1) (i + 1)))
      else Some (Inr uri))"

declare remove_dot_loop.simps [code]

definition RemoveDotSegments :: "string \<Rightarrow> int \<Rightarrow> int \<Rightarrow> string result option" where
  "RemoveDotSegments uri offset limit =
     (if offset \<ge> limit then Some (Inr uri)
      else (case char_at uri offset of
              Inl e \<Rightarrow> Some (Inl e)
            | Inr c \<Rightarrow>
                (let offset' = (if c = CHR ''/'' then offset + 1 else offset)
                 in remove_dot_loop uri offset' limit offset' offset')))"

text \<open>
  Resolution. The result of \<open>RemoveDotSegments\<close> is discarded for an absolute reference, as in the
  source: the call can only fail or not end.
\<close>

definition Resolve :: "string \<Rightarrow> string \<Rightarrow> string result option" where
  "Resolve base_uri reference_uri =
     (let ref = GetUriIndices reference_uri; bas = GetUriIndices base_uri
      in if SCHEME_COLON ref \<noteq> -1
         then (case RemoveDotSegments reference_uri (PATH ref) (QUERY ref) of
                 None \<Rightarrow> None
               | Some (Inl e) \<Rightarrow> Some (Inl e)
               | Some (Inr _) \<Rightarrow> Some (Inr reference_uri))
         else if FRAGMENT ref = 0
         then Some (Inr (take_count (FRAGMENT bas) base_uri @ reference_uri))
         else if QUERY ref = 0
         then Some (Inr (take_count (QUERY bas) base_uri @ reference_uri))
         else if PATH ref \<noteq> 0
         then (let base_limit = SCHEME_COLON bas + 1
               in RemoveDotSegments (take_count base_limit base_uri @ reference_uri)
                    (base_limit + PATH ref) (base_limit + QUERY ref))
         else if PATH ref \<noteq> QUERY ref \<and> reference_uri ! nat (PATH ref) = CHR ''/''
         then RemoveDotSegments (take_count (PATH bas) base_uri @ reference_uri) (PATH bas)
                (PATH bas + QUERY ref)
         else if SCHEME_COLON bas + 2 < PATH bas \<and> PATH bas = QUERY bas
         then RemoveDotSegments (take_count (PATH bas) base_uri @ ''/'' @ reference_uri) (PATH bas)
                (PATH bas + QUERY ref + 1)
         else (let last_slash_index = find_last CHR ''/'' (take_count (QUERY bas) base_uri);
                   base_limit = (if last_slash_index = -1 then PATH bas else last_slash_index + 1)
               in RemoveDotSegments (take_count base_limit base_uri @ reference_uri) (PATH bas)
                    (base_limit + QUERY ref)))"

section \<open>Query parameters\<close>

text \<open>
  \<open>StringPiece::substr\<close> clips its position to the size. \<open>FindPieces\<close> returns the query, the part up
  to and including the question mark, and the fragment.
\<close>

definition FindPieces :: "string \<Rightarrow> string \<times> string \<times> string" where
  "FindPieces uri_string =
     (let ix = GetUriIndices uri_string
      in if QUERY ix = 0 then ([], [], [])
         else (let query_start = QUERY ix + 1; query_end = FRAGMENT ix
               in (take_count (query_end - query_start) (drop (nat query_start) uri_string),
                   take_count query_start uri_string, drop (nat query_end) uri_string)))"

text \<open>The loops work on what is left of the query, \<open>query.substr(start)\<close>.\<close>

function get_param_loop :: "string \<Rightarrow> string \<Rightarrow> string" where
  "get_param_loop param_name query =
     (let e = find_char CHR ''&'' query;
          param = take_count e query;
          eq = find_char CHR ''='' param
      in if eq \<noteq> -1 \<and> take_count eq param = param_name then drop (nat (eq + 1)) param
         else if e = -1 then []
         else get_param_loop param_name (drop (nat (e + 1)) query))"
  by pat_completeness auto
termination
  by (relation "measure (\<lambda>(p, q). length q)") (auto simp: find_char_def Let_def split: if_splits)

declare get_param_loop.simps [simp del]

definition GetQueryParam :: "string \<Rightarrow> string \<Rightarrow> string" where
  "GetQueryParam uri_string param_name = get_param_loop param_name (fst (FindPieces uri_string))"

function remove_param_loop :: "string \<Rightarrow> string \<Rightarrow> bool \<Rightarrow> string \<Rightarrow> string" where
  "remove_param_loop param_name query need_ampersand out =
     (let e = find_char CHR ''&'' query;
          param = take_count e query;
          eq = find_char CHR ''='' param;
          keep = take_count eq param \<noteq> param_name;
          out' = (if keep then out @ (if need_ampersand then ''&'' else []) @ param else out)
      in if e = -1 then out'
         else remove_param_loop param_name (drop (nat (e + 1)) query) (need_ampersand \<or> keep) out')"
  by pat_completeness auto
termination
  by (relation "measure (\<lambda>(p, q, b, s). length q)") (auto simp: find_char_def Let_def split: if_splits)

declare remove_param_loop.simps [simp del]

definition RemoveQueryParam :: "string \<Rightarrow> string \<Rightarrow> string" where
  "RemoveQueryParam uri_string param_name =
     (let (query, scheme_and_path, fragment) = FindPieces uri_string
      in remove_param_loop param_name query False scheme_and_path @ fragment)"

section \<open>Searches\<close>

lemma find_char_none: "find_char c s = -1 \<longleftrightarrow> c \<notin> set s"
  by (induction s) (auto simp: find_char_def Let_def split: if_splits)

lemma find_char_some:
  assumes "find_char c s \<noteq> -1"
  shows "0 \<le> find_char c s" "find_char c s < int (length s)" "s ! nat (find_char c s) = c"
    "\<And>j. j < nat (find_char c s) \<Longrightarrow> s ! j \<noteq> c"
    "take (nat (find_char c s)) s = takeWhile (\<lambda>x. x \<noteq> c) s"
    "drop (nat (find_char c s)) s = dropWhile (\<lambda>x. x \<noteq> c) s"
proof -
  let ?k = "length (takeWhile (\<lambda>x. x \<noteq> c) s)"
  have k: "?k < length s" and f: "find_char c s = int ?k"
    using assms by (auto simp: find_char_def Let_def split: if_splits)
  show "0 \<le> find_char c s" "find_char c s < int (length s)" using k by (simp_all add: f)
  show "s ! nat (find_char c s) = c" using nth_length_takeWhile [OF k] by (simp add: f)
  show "s ! j \<noteq> c" if "j < nat (find_char c s)" for j
    using that nth_mem [of j "takeWhile (\<lambda>x. x \<noteq> c) s"] set_takeWhileD [of "s ! j" "\<lambda>x. x \<noteq> c" s]
    by (simp add: f takeWhile_nth)
  show "take (nat (find_char c s)) s = takeWhile (\<lambda>x. x \<noteq> c) s" by (simp add: f takeWhile_eq_take [symmetric])
  show "drop (nat (find_char c s)) s = dropWhile (\<lambda>x. x \<noteq> c) s" by (simp add: f dropWhile_eq_drop [symmetric])
qed

lemma find_char_ge: "-1 \<le> find_char c s"
  by (simp add: find_char_def Let_def)

lemma find_char_from_ge: "0 \<le> start \<Longrightarrow> find_char_from c start s = -1 \<or> start \<le> find_char_from c start s"
  using find_char_some(1) [of c "drop (nat start) s"] by (auto simp: find_char_from_def Let_def)

section \<open>Properties of the part indices\<close>

lemma fragment_index_bounds: "0 \<le> fragment_index u" "fragment_index u \<le> int (length u)"
  using find_char_some(1,2) [of "CHR ''#''" u] by (auto simp: fragment_index_def Let_def)

lemma query_index_bounds: "0 \<le> query_index u" "query_index u \<le> fragment_index u"
  using find_char_some(1) [of "CHR ''?''" u] fragment_index_bounds [of u] by (auto simp: query_index_def Let_def)

lemma query_index_char: "query_index u < int (length u) \<Longrightarrow> u ! nat (query_index u) \<in> {CHR ''?'', CHR ''#''}"
  using find_char_some(3) [of "CHR ''?''" u] find_char_some(3) [of "CHR ''#''" u]
  by (auto simp: query_index_def fragment_index_def Let_def split: if_splits)

lemma scheme_index_bounds: "-1 \<le> scheme_index u" "scheme_index u < query_index u \<or> scheme_index u = -1"
proof -
  show "-1 \<le> scheme_index u" using find_char_ge [of "CHR '':''" u] by (simp add: scheme_index_def Let_def)
  show "scheme_index u < query_index u \<or> scheme_index u = -1"
  proof (cases "scheme_index u = -1")
    case False
    then have c: "find_char CHR '':'' u \<noteq> -1" "scheme_index u = find_char CHR '':'' u" "scheme_index u \<le> query_index u"
      by (auto simp: scheme_index_def Let_def split: if_splits)
    have "scheme_index u \<noteq> query_index u"
    proof
      assume "scheme_index u = query_index u"
      with query_index_char [of u] find_char_some(2,3) [OF c(1)] c(2) show False by auto
    qed
    with c show ?thesis by simp
  qed simp
qed

lemma path_index_bounds:
  assumes "u \<noteq> []"
  shows "scheme_index u < path_index u" "path_index u \<le> query_index u"
  using scheme_index_bounds [of u] query_index_bounds [of u]
    find_char_from_ge [of "scheme_index u + 3" "CHR ''/''" u]
  by (auto simp: path_index_def has_authority_def Let_def)

text \<open>
  The part indices of any string are in order and within it: scheme colon before path, path not
  after query, query not after fragment, fragment within the string; and the characters at the
  scheme, query and fragment positions are the separators.
\<close>

theorem uri_indices_in_order:
  "let ix = GetUriIndices u
   in -1 \<le> SCHEME_COLON ix \<and> SCHEME_COLON ix < PATH ix \<and> PATH ix \<le> QUERY ix \<and> QUERY ix \<le> FRAGMENT ix \<and>
      FRAGMENT ix \<le> int (length u) \<and>
      (SCHEME_COLON ix = -1 \<or> u ! nat (SCHEME_COLON ix) = CHR '':'') \<and>
      (QUERY ix = FRAGMENT ix \<or> u ! nat (QUERY ix) = CHR ''?'') \<and>
      (FRAGMENT ix = int (length u) \<or> u ! nat (FRAGMENT ix) = CHR ''#'')"
proof (cases "u = []")
  case True
  then show ?thesis by (simp add: GetUriIndices_def Let_def)
next
  case False
  have "scheme_index u = -1 \<or> u ! nat (scheme_index u) = CHR '':''"
    using find_char_some(3) [of "CHR '':''" u] by (auto simp: scheme_index_def Let_def)
  moreover have "query_index u = fragment_index u \<or> u ! nat (query_index u) = CHR ''?''"
    using find_char_some(3) [of "CHR ''?''" u] by (auto simp: query_index_def Let_def)
  moreover have "fragment_index u = int (length u) \<or> u ! nat (fragment_index u) = CHR ''#''"
    using find_char_some(3) [of "CHR ''#''" u] by (auto simp: fragment_index_def Let_def)
  ultimately show ?thesis
    using False path_index_bounds [OF False] scheme_index_bounds(1) [of u] query_index_bounds(2) [of u]
      fragment_index_bounds(2) [of u]
    by (simp add: GetUriIndices_def Let_def)
qed

section \<open>Resolution of a relative path\<close>

text \<open>No path segment between two positions starts with a dot.\<close>

definition no_dot_start :: "string \<Rightarrow> int \<Rightarrow> int \<Rightarrow> bool" where
  "no_dot_start uri lo hi \<longleftrightarrow>
     (\<forall>k. lo \<le> k \<and> k < hi \<and> uri ! nat k = CHR ''.'' \<longrightarrow> lo < k \<and> uri ! nat (k - 1) \<noteq> CHR ''/'')"

lemma remove_dot_loop_id:
  assumes "0 \<le> off" "limit \<le> int (length uri)" "no_dot_start uri off limit"
    "off \<le> ss" "ss \<le> i" "i \<le> limit + 1" "ss = off \<or> ss = limit + 1 \<or> uri ! nat (ss - 1) = CHR ''/''"
  shows "remove_dot_loop uri off limit ss i = Some (Inr uri)"
  using assms
proof (induction "nat (limit + 1 - i)" arbitrary: i ss)
  case 0
  then show ?case by (subst remove_dot_loop.simps) simp
next
  case (Suc n)
  then have i: "0 \<le> i" "i \<le> limit" by auto
  define b where "b = (i = limit \<or> uri ! nat i = CHR ''/'')"
  have se: "at_segment_end uri limit i = Inr b"
    using i Suc.prems(2) by (auto simp: at_segment_end_def char_at_def b_def)
  show ?case
  proof (cases b)
    case False
    have "remove_dot_loop uri off limit ss i = remove_dot_loop uri off limit ss (i + 1)"
      using i False by (subst remove_dot_loop.simps) (simp add: se)
    also have "\<dots> = Some (Inr uri)"
      by (rule Suc.hyps(1)) (use Suc i in auto)
    finally show ?thesis .
  next
    case True
    have nd: "uri ! nat ss \<noteq> CHR ''.''" if "ss < limit"
      using Suc.prems(3,4,7) that unfolding no_dot_start_def by (auto dest!: spec [of _ ss])
    then have "\<not> (i = ss + 1 \<and> uri ! nat ss = CHR ''.'')"
        "\<not> (i = ss + 2 \<and> uri ! nat ss = CHR ''.'' \<and> uri ! nat (ss + 1) = CHR ''.'')"
      using i by auto
    then have "remove_dot_loop uri off limit ss i = remove_dot_loop uri off limit (i + 1) (i + 1)"
      using i True by (subst remove_dot_loop.simps) (auto simp: se Let_def)
    also have "\<dots> = Some (Inr uri)"
      by (rule Suc.hyps(1)) (use Suc i True in \<open>auto simp: b_def\<close>)
    finally show ?thesis .
  qed
qed

lemma RemoveDotSegments_id:
  assumes "0 \<le> off" "limit \<le> int (length uri)" "no_dot_start uri off limit"
  shows "RemoveDotSegments uri off limit = Some (Inr uri)"
proof (cases "off < limit")
  case True
  then have c: "char_at uri off = Inr (uri ! nat off)" using assms by (simp add: char_at_def)
  have nd: "no_dot_start uri (off + 1) limit" if "uri ! nat off = CHR ''/''"
    using assms(3) that unfolding no_dot_start_def by (metis add.commute add_diff_cancel_left' less_add_one
        linorder_not_le order_le_less zle_add1_eq_le)
  show ?thesis
    using True assms nd remove_dot_loop_id [of off limit uri off off] remove_dot_loop_id [of "off + 1" limit uri "off + 1" "off + 1"]
    by (simp add: RemoveDotSegments_def c Let_def)
qed (simp add: RemoveDotSegments_def)

text \<open>A reference that is a plain relative path.\<close>

definition relative_path :: "string \<Rightarrow> bool" where
  "relative_path r \<longleftrightarrow> r \<noteq> [] \<and> hd r \<noteq> CHR ''/'' \<and> set r \<inter> {CHR '':'', CHR ''?'', CHR ''#''} = {} \<and>
     no_dot_start r 0 (int (length r))"

lemma relative_path_indices:
  assumes "relative_path r"
  shows "GetUriIndices r = \<lparr>SCHEME_COLON = -1, PATH = 0, QUERY = int (length r), FRAGMENT = int (length r)\<rparr>"
proof -
  have n: "find_char CHR '':'' r = -1" "find_char CHR ''?'' r = -1" "find_char CHR ''#'' r = -1"
    using assms by (auto simp: relative_path_def find_char_none)
  have f: "fragment_index r = int (length r)" by (simp add: fragment_index_def n)
  have q: "query_index r = int (length r)" by (simp add: query_index_def n f)
  have s: "scheme_index r = -1" by (simp add: scheme_index_def n Let_def)
  have "\<not> has_authority r" using assms by (auto simp: has_authority_def s relative_path_def hd_conv_nth)
  then have "path_index r = 0" by (simp add: path_index_def s)
  with f q s assms show ?thesis by (simp add: GetUriIndices_def relative_path_def)
qed

lemma find_last_some:
  assumes "find_last c s \<noteq> -1"
  shows "0 \<le> find_last c s" "find_last c s < int (length s)" "s ! nat (find_last c s) = c"
proof -
  let ?k = "length (takeWhile (\<lambda>x. x \<noteq> c) (rev s))"
  have k: "?k < length (rev s)" and f: "find_last c s = int (length s) - 1 - int ?k"
    using assms by (auto simp: find_last_def Let_def split: if_splits)
  show "0 \<le> find_last c s" "find_last c s < int (length s)" using k by (simp_all add: f)
  have "nat (find_last c s) = length s - Suc ?k" using k by (simp add: f)
  then show "s ! nat (find_last c s) = c" using nth_length_takeWhile [OF k] k by (simp add: rev_nth)
qed

lemma find_last_none: "find_last c s = -1 \<longleftrightarrow> c \<notin> set s"
  using find_char_none [of c "rev s"] by (auto simp: find_last_def find_char_def Let_def split: if_splits)

text \<open>
  Resolving a plain relative path against a base whose path starts with a slash and has no
  dot-started segment (the way segment URLs are formed): the result is the base up to and including
  the last slash of its path, followed by the reference. In particular the call ends and does not
  fail.
\<close>

theorem resolve_relative_path:
  assumes "relative_path r" "b = GetUriIndices base"
    and "PATH b < QUERY b" "base ! nat (PATH b) = CHR ''/''" "no_dot_start base (PATH b) (QUERY b)"
    and "l = find_last CHR ''/'' (take (nat (QUERY b)) base)"
  shows "PATH b \<le> l \<and> l < QUERY b \<and> Resolve base r = Some (Inr (take (nat l + 1) base @ r))"
proof -
  have ne: "base \<noteq> []" using assms(2,3) by (auto simp: GetUriIndices_def)
  have ix: "SCHEME_COLON b = scheme_index base" "PATH b = path_index base" "QUERY b = query_index base"
    using ne by (simp_all add: assms(2) GetUriIndices_def)
  have p0: "0 \<le> PATH b" "QUERY b \<le> int (length base)"
    using path_index_bounds(1) [OF ne] scheme_index_bounds(1) [of base] query_index_bounds(2) [of base]
      fragment_index_bounds(2) [of base] by (simp_all add: ix)
  let ?q = "take (nat (QUERY b)) base"
  have mem: "CHR ''/'' \<in> set ?q"
    using assms(3,4) p0 by (auto simp: in_set_conv_nth intro!: exI [of _ "nat (PATH b)"])
  then have "l \<noteq> -1" using find_last_none by (simp add: assms(6))
  note l = find_last_some [OF this [unfolded assms(6)], folded assms(6)]
  have lq: "l < QUERY b" using l p0 by (auto split: if_splits)
  have pl: "PATH b \<le> l"
  proof -
    let ?k = "length (takeWhile (\<lambda>x. x \<noteq> CHR ''/'') (rev ?q))"
    have lk: "l = int (length ?q) - 1 - int ?k"
      using \<open>l \<noteq> -1\<close> by (simp add: assms(6) find_last_def Let_def split: if_splits)
    have "\<not> length ?q - 1 - nat (PATH b) < ?k"
    proof
      assume a: "length ?q - 1 - nat (PATH b) < ?k"
      then have "takeWhile (\<lambda>x. x \<noteq> CHR ''/'') (rev ?q) ! (length ?q - 1 - nat (PATH b)) \<noteq> CHR ''/''"
        using nth_mem [OF a] set_takeWhileD by fastforce
      moreover have "takeWhile (\<lambda>x. x \<noteq> CHR ''/'') (rev ?q) ! (length ?q - 1 - nat (PATH b)) = base ! nat (PATH b)"
        using a assms(3) p0 by (simp add: takeWhile_nth rev_nth)
      ultimately show False using assms(4) by simp
    qed
    moreover have "int (length ?q) = QUERY b" using assms(3) p0 by simp
    ultimately show ?thesis using lk assms(3) p0 by linarith
  qed
  let ?u = "take (nat l + 1) base @ r"
  have len: "length (take (nat l + 1) base) = nat l + 1" using l p0 lq by simp
  have ub: "?u ! j = base ! j" if "j \<le> nat l" for j using that len by (simp add: nth_append)
  have ur: "?u ! (nat l + 1 + j) = r ! j" for j using len nth_append_length_plus [of "take (nat l + 1) base" r j] by simp
  have nd: "no_dot_start ?u (PATH b) (l + 1 + int (length r))"
    unfolding no_dot_start_def
  proof (intro allI impI)
    fix k assume k: "PATH b \<le> k \<and> k < l + 1 + int (length r) \<and> ?u ! nat k = CHR ''.''"
    show "PATH b < k \<and> ?u ! nat (k - 1) \<noteq> CHR ''/''"
    proof (cases "k \<le> l")
      case True
      then have "?u ! nat k = base ! nat k" "?u ! nat (k - 1) = base ! nat (k - 1)"
        using ub [of "nat k"] ub [of "nat (k - 1)"] by (simp_all add: nat_mono)
      with assms(5) k True lq show ?thesis by (simp add: no_dot_start_def)
    next
      case False
      have u: "?u ! nat k = r ! nat (k - (l + 1))"
        using False l ur [of "nat (k - (l + 1))"] by (simp add: nat_diff_distrib nat_add_distrib)
      have r: "no_dot_start r 0 (int (length r))" using assms(1) by (simp add: relative_path_def)
      have d: "0 < k - (l + 1) \<and> r ! nat (k - (l + 1) - 1) \<noteq> CHR ''/''"
        using r k False u unfolding no_dot_start_def by (auto dest!: spec [of _ "k - (l + 1)"])
      have "nat (k - 1) = nat l + 1 + nat (k - (l + 1) - 1)" using d l(1) by arith
      then have "?u ! nat (k - 1) = r ! nat (k - (l + 1) - 1)" by (simp only: ur)
      with d pl show ?thesis by simp
    qed
  qed
  have lim: "(if l = -1 then PATH b else l + 1) = l + 1" using l(1) by simp
  have "Resolve base r = RemoveDotSegments ?u (PATH b) (l + 1 + int (length r))"
    using assms(1,3) l(1) p0 relative_path_indices [OF assms(1)]
    by (simp add: Resolve_def Let_def assms(2) [symmetric] take_count_def assms(6) [symmetric] lim
        nat_add_distrib relative_path_def hd_conv_nth [symmetric])
  also have "\<dots> = Some (Inr ?u)"
    by (rule RemoveDotSegments_id [OF p0(1) _ nd]) (use len l in simp)
  finally show ?thesis using pl lq by simp
qed

theorem resolve_relative_path_witness:
  "Resolve ''http://h/v/m.mpd?x=1'' ''s/1.mp4'' = Some (Inr ''http://h/v/s/1.mp4'')"
proof -
  let ?base = "''http://h/v/m.mpd?x=1''" and ?r = "''s/1.mp4''"
  have nd: "no_dot_start s lo (lo + int n)" if "\<forall>k \<in> set [0..<n]. s ! nat (lo + int k) = CHR ''.'' \<longrightarrow>
      0 < k \<and> s ! nat (lo + int k - 1) \<noteq> CHR ''/''" for s lo n
    unfolding no_dot_start_def
  proof (intro allI impI)
    fix k assume k: "lo \<le> k \<and> k < lo + int n \<and> s ! nat k = CHR ''.''"
    then have "nat (k - lo) \<in> set [0..<n]" by auto
    with that k show "lo < k \<and> s ! nat (k - 1) \<noteq> CHR ''/''" by fastforce
  qed
  have ix: "GetUriIndices ?base = \<lparr>SCHEME_COLON = 4, PATH = 8, QUERY = 16, FRAGMENT = 20\<rparr>" by code_simp
  have r: "relative_path ?r" using nd [of 7 ?r 0] by (simp add: relative_path_def upt_rec)
  have b: "no_dot_start ?base 8 16" using nd [of 8 ?base 8] by (simp add: upt_rec)
  have l: "find_last CHR ''/'' ''http://h/v/m.mpd'' = 10" by code_simp
  from resolve_relative_path [OF r refl, of ?base 10] show ?thesis
    by (simp add: ix b l)
qed

text \<open>
  Two deviations from RFC 3986, section 5.2.4: an absolute reference is returned with its dot
  segments (the result of their removal is dropped), and a parent segment at the very start of a
  path is kept.
\<close>

theorem dot_segments_kept:
  "Resolve ''http://h/'' ''http://h/a/../b'' = Some (Inr ''http://h/a/../b'') \<and>
   RemoveDotSegments ''/../b'' 0 5 = Some (Inr ''/../b'') \<and>
   RemoveDotSegments ''http://h/a/../b'' 8 15 = Some (Inr ''http://h/b'')"
  by code_simp

section \<open>Query parameters\<close>

abbreviation amp :: char where "amp \<equiv> CHR ''&''"

text \<open>The query as the list of its parameters.\<close>

function split_amp :: "string \<Rightarrow> string list" where
  "split_amp q = (if amp \<in> set q
     then takeWhile (\<lambda>x. x \<noteq> amp) q # split_amp (tl (dropWhile (\<lambda>x. x \<noteq> amp) q)) else [q])"
  by pat_completeness auto
termination
proof (relation "measure length", simp, goal_cases)
  case (1 q)
  then have "dropWhile (\<lambda>x. x \<noteq> amp) q \<noteq> []" by (auto simp: dropWhile_eq_Nil_conv)
  then have "length (tl (dropWhile (\<lambda>x. x \<noteq> amp) q)) < length (dropWhile (\<lambda>x. x \<noteq> amp) q)" by simp
  with length_dropWhile_le [of "\<lambda>x. x \<noteq> amp" q] show ?case by simp
qed

declare split_amp.simps [simp del]

fun join_amp :: "string list \<Rightarrow> string" where
  "join_amp [] = []"
| "join_amp [x] = x"
| "join_amp (x # y # ys) = x @ amp # join_amp (y # ys)"

definition param_name :: "string \<Rightarrow> string" where
  "param_name p = takeWhile (\<lambda>x. x \<noteq> CHR ''='') p"

definition param_lookup :: "string \<Rightarrow> string list \<Rightarrow> string" where
  "param_lookup n ps =
     (case find (\<lambda>p. CHR ''='' \<in> set p \<and> param_name p = n) ps of
        None \<Rightarrow> [] | Some p \<Rightarrow> tl (dropWhile (\<lambda>x. x \<noteq> CHR ''='') p))"

lemma takeWhile_absent: "c \<notin> set s \<Longrightarrow> takeWhile (\<lambda>x. x \<noteq> c) s = s"
  by (induction s) auto

lemma takeWhile_first: "c \<notin> set s \<Longrightarrow> takeWhile (\<lambda>x. x \<noteq> c) (s @ c # t) = s"
    "c \<notin> set s \<Longrightarrow> dropWhile (\<lambda>x. x \<noteq> c) (s @ c # t) = c # t"
  by (induction s) auto

lemma take_count_find: "take_count (find_char c s) s = takeWhile (\<lambda>x. x \<noteq> c) s"
proof (cases "find_char c s = -1")
  case True
  then have "takeWhile (\<lambda>x. x \<noteq> c) s = s" by (simp add: find_char_none takeWhile_absent)
  with True show ?thesis by (simp only: take_count_def) simp
next
  case False
  with find_char_some [OF False] show ?thesis by (simp add: take_count_def)
qed

lemma drop_find: "find_char c s \<noteq> -1 \<Longrightarrow>
    drop (nat (find_char c s + 1)) s = tl (dropWhile (\<lambda>x. x \<noteq> c) s)"
  using find_char_some(1,6) [of c s] by (simp add: nat_add_distrib drop_Suc [symmetric] tl_drop)
    (metis drop_Suc tl_drop)

lemma get_param_loop_lookup: "get_param_loop n q = param_lookup n (split_amp q)"
proof (induction q rule: split_amp.induct)
  case (1 q)
  let ?p = "takeWhile (\<lambda>x. x \<noteq> amp) q"
  have e: "find_char amp q = -1 \<longleftrightarrow> amp \<notin> set q" by (rule find_char_none)
  have m: "find_char CHR ''='' ?p \<noteq> -1 \<longleftrightarrow> CHR ''='' \<in> set ?p" by (simp add: find_char_none)
  have step: "get_param_loop n q =
      (if CHR ''='' \<in> set ?p \<and> param_name ?p = n then tl (dropWhile (\<lambda>x. x \<noteq> CHR ''='') ?p)
       else if amp \<notin> set q then [] else get_param_loop n (tl (dropWhile (\<lambda>x. x \<noteq> amp) q)))"
    using drop_find [of amp q] drop_find [of "CHR ''=''" ?p] e m
    by (subst get_param_loop.simps) (auto simp: Let_def take_count_find param_name_def)
  show ?case
  proof (cases "amp \<in> set q")
    case True
    with 1 show ?thesis by (simp add: step split_amp.simps [of q] param_lookup_def)
  next
    case False
    then have p: "?p = q" by (rule takeWhile_absent)
    from False show ?thesis unfolding step p by (simp add: split_amp.simps [of q] param_lookup_def)
  qed
qed

lemma remove_param_loop_filter:
  "remove_param_loop n q b out =
     (let kept = filter (\<lambda>p. param_name p \<noteq> n) (split_amp q)
      in out @ (if kept = [] then [] else (if b then ''&'' else []) @ join_amp kept))"
proof (induction q arbitrary: b out rule: split_amp.induct)
  case (1 q)
  let ?p = "takeWhile (\<lambda>x. x \<noteq> amp) q" and ?rest = "tl (dropWhile (\<lambda>x. x \<noteq> amp) q)"
  let ?out = "if param_name ?p \<noteq> n then out @ (if b then ''&'' else []) @ ?p else out"
  have step: "remove_param_loop n q b out =
      (if amp \<notin> set q then ?out else remove_param_loop n ?rest (b \<or> param_name ?p \<noteq> n) ?out)"
    using drop_find [of amp q] find_char_none [of amp q]
    by (subst remove_param_loop.simps) (simp add: Let_def take_count_find param_name_def)
  show ?case
  proof (cases "amp \<in> set q")
    case True
    have cons: "join_amp (x # ys) = x @ (if ys = [] then [] else amp # join_amp ys)" for x ys
      by (cases ys) auto
    from True 1 show ?thesis
      by (simp add: step split_amp.simps [of q] Let_def cons)
  next
    case False
    then have p: "?p = q" by (rule takeWhile_absent)
    from False show ?thesis unfolding step p by (simp add: split_amp.simps [of q] Let_def)
  qed
qed

lemma split_amp_no_amp: "p \<in> set (split_amp q) \<Longrightarrow> amp \<notin> set p"
proof (induction q rule: split_amp.induct)
  case (1 q)
  then show ?case by (subst (asm) (2) split_amp.simps) (auto split: if_splits dest: set_takeWhileD)
qed

lemma split_join: "ps \<noteq> [] \<Longrightarrow> \<forall>p \<in> set ps. amp \<notin> set p \<Longrightarrow> split_amp (join_amp ps) = ps"
proof (induction ps rule: join_amp.induct)
  case (3 x y ys)
  have "takeWhile (\<lambda>c. c \<noteq> amp) (x @ amp # join_amp (y # ys)) = x"
       "dropWhile (\<lambda>c. c \<noteq> amp) (x @ amp # join_amp (y # ys)) = amp # join_amp (y # ys)"
    using 3(3) by (simp_all add: takeWhile_first)
  with 3 show ?case by (subst split_amp.simps) simp
qed (auto simp: split_amp.simps)

lemma param_lookup_filter:
  "n' \<noteq> n \<Longrightarrow> param_lookup n' (filter (\<lambda>p. param_name p \<noteq> n) ps) = param_lookup n' ps"
  by (induction ps) (auto simp: param_lookup_def)

lemma param_lookup_removed: "param_lookup n (filter (\<lambda>p. param_name p \<noteq> n) ps) = []"
  by (induction ps) (auto simp: param_lookup_def)

text \<open>A URI with a query and no fragment.\<close>

lemma FindPieces_query:
  assumes "sp \<noteq> []" "set sp \<inter> {CHR ''?'', CHR ''#''} = {}" "CHR ''#'' \<notin> set q"
  shows "FindPieces (sp @ CHR ''?'' # q) = (q, sp @ ''?'', [])"
proof -
  let ?u = "sp @ CHR ''?'' # q"
  have h: "find_char CHR ''#'' ?u = -1" using assms by (simp add: find_char_none)
  have qm: "find_char CHR ''?'' ?u = int (length sp)"
    using assms(2) by (simp add: find_char_def Let_def takeWhile_first)
  have f: "fragment_index ?u = int (length ?u)" by (simp add: fragment_index_def h)
  have qi: "query_index ?u = int (length sp)" by (simp add: query_index_def qm f Let_def)
  have n: "nat (int (length sp) + 1) = Suc (length sp)" "nat (1 + int (length sp)) = Suc (length sp)"
      "nat (2 + (int (length sp) + int (length q))) = Suc (Suc (length sp + length q))" by simp_all
  show ?thesis
    using assms(1) by (simp add: FindPieces_def GetUriIndices_def f qi Let_def take_count_def n)
qed

text \<open>
  Removing a query parameter from a URI with a query and no fragment: afterwards the parameter is
  not found, and every other parameter is found with the value it had.
\<close>

theorem remove_query_param_removes:
  assumes "sp \<noteq> []" "set sp \<inter> {CHR ''?'', CHR ''#''} = {}" "CHR ''#'' \<notin> set q"
    and "u = sp @ CHR ''?'' # q"
  shows "GetQueryParam (RemoveQueryParam u n) n = [] \<and>
    (n' = n \<or> GetQueryParam (RemoveQueryParam u n) n' = GetQueryParam u n')"
proof -
  let ?kept = "filter (\<lambda>p. param_name p \<noteq> n) (split_amp q)"
  have r: "RemoveQueryParam u n = sp @ CHR ''?'' # (if ?kept = [] then [] else join_amp ?kept)"
    using FindPieces_query [OF assms(1-3)]
    by (simp add: RemoveQueryParam_def assms(4) remove_param_loop_filter Let_def)
  have na: "\<forall>p \<in> set ?kept. amp \<notin> set p" using split_amp_no_amp by auto
  have sub: "set (join_amp ps) \<subseteq> insert amp (\<Union>p \<in> set ps. set p)" for ps by (induction ps rule: join_amp.induct) auto
  have pset: "p \<in> set (split_amp q) \<Longrightarrow> set p \<subseteq> set q" for p
  proof (induction q rule: split_amp.induct)
    case (1 q)
    have tl: "set (tl (dropWhile (\<lambda>x. x \<noteq> amp) q)) \<subseteq> set q"
    proof
      fix x assume "x \<in> set (tl (dropWhile (\<lambda>x. x \<noteq> amp) q))"
      then have "x \<in> set (dropWhile (\<lambda>x. x \<noteq> amp) q)" by (cases "dropWhile (\<lambda>x. x \<noteq> amp) q") auto
      then show "x \<in> set q" by (rule set_dropWhileD)
    qed
    show ?case
    proof (cases "amp \<in> set q \<and> p \<noteq> takeWhile (\<lambda>x. x \<noteq> amp) q")
      case True
      with 1(2) have "p \<in> set (split_amp (tl (dropWhile (\<lambda>x. x \<noteq> amp) q)))" by (subst (asm) split_amp.simps) simp
      with 1(1) True tl show ?thesis by blast
    next
      case False
      with 1(2) have "p = q \<or> p = takeWhile (\<lambda>x. x \<noteq> amp) q" by (subst (asm) split_amp.simps) (auto split: if_splits)
      then show ?thesis by (auto dest: set_takeWhileD)
    qed
  qed
  have hash: "CHR ''#'' \<notin> set (join_amp ?kept)" using sub [of ?kept] pset assms(3) by fastforce
  have lk: "GetQueryParam (RemoveQueryParam u n) m = param_lookup m ?kept" for m
  proof (cases "?kept = []")
    case True
    then show ?thesis
      using FindPieces_query [OF assms(1,2), of "[]"]
      by (simp add: r GetQueryParam_def get_param_loop_lookup split_amp.simps [of "[]"] param_lookup_def)
  next
    case False
    with FindPieces_query [OF assms(1,2) hash] split_join [OF False na] show ?thesis
      by (simp add: r GetQueryParam_def get_param_loop_lookup)
  qed
  have u: "GetQueryParam u m = param_lookup m (split_amp q)" for m
    using FindPieces_query [OF assms(1-3)] by (simp add: assms(4) GetQueryParam_def get_param_loop_lookup)
  show ?thesis by (simp add: lk u param_lookup_removed) (metis param_lookup_filter)
qed

theorem remove_query_param_removes_witness:
  "GetQueryParam (RemoveQueryParam ''http://h/m?a=1&b=2'' ''a'') ''a'' = [] \<and>
   GetQueryParam (RemoveQueryParam ''http://h/m?a=1&b=2'' ''a'') ''b'' = ''2''"
proof -
  have "GetQueryParam ''http://h/m?a=1&b=2'' ''b'' = ''2''" by code_simp
  with remove_query_param_removes [of "''http://h/m''" "''a=1&b=2''" "''http://h/m?a=1&b=2''" "''a''" "''b''"]
  show ?thesis by simp
qed

text \<open>
  A defect of \<open>FindPieces\<close>: in a URI that has a fragment and no query, the fragment is taken for
  the query, so that removing a parameter that is not there duplicates the fragment, and a
  parameter is found in it.
\<close>

theorem fragment_taken_for_query:
  "RemoveQueryParam ''http://h/m#t=5'' ''x'' = ''http://h/m#t=5#t=5'' \<and>
   GetQueryParam ''http://h/m#t=5'' ''t'' = ''5''"
  by code_simp

section \<open>A resolution that does not end\<close>

text \<open>
  The states of the loop on \<open>http://../a\<close> from which it comes back to itself: the host is taken for a
  segment that leads up, but nothing before the offset may be removed.
\<close>

definition dot_cycle :: "(int \<times> int) list" where
  "dot_cycle = [(0, 0), (0, 1), (0, 2), (0, 3), (0, 4), (0, 5), (6, 6), (7, 7), (7, 8), (7, 9)]"

lemma dot_loop_never_returns:
  assumes "(segment_start, i) \<in> set dot_cycle"
  shows "remove_dot_loop ''http://../a'' 10 11 segment_start i = None"
proof (rule ccontr)
  define P where "P uri offset limit ss j y \<longleftrightarrow> \<not> (uri = ''http://../a'' \<and> offset = 10 \<and> limit = 11 \<and> (ss, j) \<in> set dot_cycle)"
    for uri :: string and offset limit ss j :: int and y :: "string result"
  assume "remove_dot_loop ''http://../a'' 10 11 segment_start i \<noteq> None"
  then obtain y where y: "remove_dot_loop ''http://../a'' 10 11 segment_start i = Some y" by blast
  have "P ''http://../a'' 10 11 segment_start i y"
  proof (rule remove_dot_loop.raw_induct [where P = P, OF _ y], goal_cases)
    case (1 loop uri offset limit ss j y)
    show ?case
    proof (unfold P_def, rule notI)
      assume at_cycle: "uri = ''http://../a'' \<and> offset = 10 \<and> limit = 11 \<and> (ss, j) \<in> set dot_cycle"
      have returns: "loop ''http://../a'' 10 11 a b \<noteq> Some y" if "(a, b) \<in> set dot_cycle" for a b :: int
        using 1(1) [of "''http://../a''" 10 11 a b y] that by (auto simp: P_def)
      have "loop ''http://../a'' 10 11 0 0 \<noteq> Some y" "loop ''http://../a'' 10 11 0 1 \<noteq> Some y" "loop ''http://../a'' 10 11 0 2 \<noteq> Some y"
        "loop ''http://../a'' 10 11 0 3 \<noteq> Some y" "loop ''http://../a'' 10 11 0 4 \<noteq> Some y" "loop ''http://../a'' 10 11 0 5 \<noteq> Some y"
        "loop ''http://../a'' 10 11 6 6 \<noteq> Some y" "loop ''http://../a'' 10 11 7 7 \<noteq> Some y" "loop ''http://../a'' 10 11 7 8 \<noteq> Some y"
        "loop ''http://../a'' 10 11 7 9 \<noteq> Some y"
        by (intro returns; simp add: dot_cycle_def)+
      then show False using 1(2) at_cycle
        by (auto simp: dot_cycle_def at_segment_end_def char_at_def erase_def find_last_def take_count_def Let_def nth_Cons')
    qed
  qed
  then show False using assms by (simp add: P_def)
qed

text \<open>
  A defect: resolving a relative reference that leads up against an address whose host is two dots
  never ends. The host is taken for a path segment that leads up as well, nothing can be removed for it,
  and the loop starts over.
\<close>

theorem resolve_never_returns: "Resolve ''http://../b'' ''../a'' = None"
proof -
  have i: "GetUriIndices ''../a'' = \<lparr>SCHEME_COLON = -1, PATH = 0, QUERY = 4, FRAGMENT = 4\<rparr>"
    "GetUriIndices ''http://../b'' = \<lparr>SCHEME_COLON = 4, PATH = 9, QUERY = 11, FRAGMENT = 11\<rparr>" by code_simp+
  have l: "find_last CHR ''/'' (take_count 11 ''http://../b'') = 9" "take_count 10 ''http://../b'' @ ''../a'' = ''http://../../a''" by code_simp+
  have "remove_dot_loop ''http://../../a'' 10 14 10 10 = remove_dot_loop ''http://../a'' 10 11 7 7"
    by (subst remove_dot_loop.simps, subst remove_dot_loop.simps, subst remove_dot_loop.simps)
      (simp add: at_segment_end_def char_at_def erase_def find_last_def take_count_def Let_def)
  moreover have "remove_dot_loop ''http://../a'' 10 11 7 7 = None" by (rule dot_loop_never_returns) (simp add: dot_cycle_def)
  ultimately show ?thesis by (simp add: Resolve_def i l RemoveDotSegments_def char_at_def Let_def)
qed

end
