(* ===== verification/Ranged_Uri.thy ===== *)
theory Ranged_Uri
  imports Uri_Util
begin

text \<open>
  Byte ranges of a URI (\<open>mpd/ranged_uri.cc\<close>). The base URI, a pointer to a string that outlives the
  object, is the string itself. The length parameter is an \<open>int32_t\<close>: callers that pass an \<open>int64_t\<close>
  have it narrowed.
\<close>

record ranged_uri =
  ru_base_uri :: string
  ru_reference_uri :: string
  ru_start :: int
  ru_length :: int

definition RangedUri_new :: "string \<Rightarrow> string \<Rightarrow> int \<Rightarrow> int \<Rightarrow> ranged_uri" where
  "RangedUri_new base_uri reference_uri start len =
     \<lparr>ru_base_uri = base_uri, ru_reference_uri = reference_uri, ru_start = start, ru_length = narrow32 len\<rparr>"

definition GetUriString :: "ranged_uri \<Rightarrow> string result option" where
  "GetUriString r = Resolve (ru_base_uri r) (ru_reference_uri r)"

text \<open>The comparison of two URI strings; a resolution that fails or does not end decides the outcome.\<close>

definition same_uri :: "ranged_uri \<Rightarrow> ranged_uri \<Rightarrow> bool result option" where
  "same_uri r other =
     (case GetUriString r of
        None \<Rightarrow> None
      | Some (Inl e) \<Rightarrow> Some (Inl e)
      | Some (Inr u) \<Rightarrow>
          (case GetUriString other of
             None \<Rightarrow> None | Some (Inl e) \<Rightarrow> Some (Inl e) | Some (Inr v) \<Rightarrow> Some (Inr (u = v))))"

definition merged :: "ranged_uri \<Rightarrow> ranged_uri \<Rightarrow> ranged_uri option" where
  "merged r other =
     (if ru_length r \<noteq> -1 \<and> ru_start r + ru_length r = ru_start other
      then Some (RangedUri_new (ru_base_uri r) (ru_reference_uri r) (ru_start r)
             (if ru_length other = -1 then -1 else ru_length r + ru_length other))
      else if ru_length other \<noteq> -1 \<and> ru_start other + ru_length other = ru_start r
      then Some (RangedUri_new (ru_base_uri r) (ru_reference_uri r) (ru_start other)
             (if ru_length r = -1 then -1 else ru_length other + ru_length r))
      else None)"

definition AttemptMerge :: "ranged_uri \<Rightarrow> ranged_uri option \<Rightarrow> ranged_uri option result option" where
  "AttemptMerge r other =
     (case other of
        None \<Rightarrow> Some (Inr None)
      | Some ot \<Rightarrow>
          (case same_uri r ot of
             None \<Rightarrow> None
           | Some (Inl e) \<Rightarrow> Some (Inl e)
           | Some (Inr same) \<Rightarrow> Some (Inr (if same then merged r ot else None))))"

definition RangedUri_eq :: "ranged_uri \<Rightarrow> ranged_uri \<Rightarrow> bool result option" where
  "RangedUri_eq r other =
     (if ru_start r = ru_start other \<and> ru_length r = ru_length other then same_uri r other
      else Some (Inr False))"

section \<open>Merging\<close>

text \<open>The bytes a range covers.\<close>

definition covers :: "ranged_uri \<Rightarrow> int set" where
  "covers r = (if ru_length r = -1 then {ru_start r..} else {ru_start r ..< ru_start r + ru_length r})"

definition range_ok :: "ranged_uri \<Rightarrow> bool" where
  "range_ok r \<longleftrightarrow> 0 \<le> ru_start r \<and> (0 \<le> ru_length r \<or> ru_length r = -1)"

lemma merged_covers:
  assumes "range_ok r" "range_ok ot" "merged r ot = Some m"
    and "ru_length r + ru_length ot < 2 ^ 31"
  shows "covers m = covers r \<union> covers ot \<and> covers r \<inter> covers ot = {} \<and> range_ok m"
proof -
  have n: "narrow32 (-1) = -1" "0 \<le> x \<Longrightarrow> x < 2 ^ 31 \<Longrightarrow> narrow32 x = x" for x
    by (simp_all add: in_int32_def)
  from assms show ?thesis
    by (auto simp: merged_def RangedUri_new_def covers_def range_ok_def n split: if_splits)
qed

text \<open>
  When \<open>AttemptMerge\<close> merges two ranges, both have the same URI, the merged range covers exactly
  the bytes of the two, which do not overlap, and it keeps the URI; when the URIs differ or the
  ranges are not adjacent, nothing is merged. (The sum of the lengths fits \<open>int32_t\<close>, in which the
  source adds them.)
\<close>

theorem attempt_merge_union:
  assumes "range_ok r" "range_ok ot" "ru_length r + ru_length ot < 2 ^ 31"
    and "GetUriString r = Some (Inr u)" "GetUriString ot = Some (Inr v)"
  shows "case AttemptMerge r (Some ot) of
      Some (Inr (Some m)) \<Rightarrow> u = v \<and> covers m = covers r \<union> covers ot \<and> covers r \<inter> covers ot = {} \<and>
        GetUriString m = Some (Inr u) \<and> range_ok m
    | Some (Inr None) \<Rightarrow> u \<noteq> v \<or>
        (ru_length r = -1 \<or> ru_start r + ru_length r \<noteq> ru_start ot) \<and>
        (ru_length ot = -1 \<or> ru_start ot + ru_length ot \<noteq> ru_start r)
    | _ \<Rightarrow> False"
proof -
  have am: "AttemptMerge r (Some ot) = Some (Inr (if u = v then merged r ot else None))"
    using assms(4,5) by (simp add: AttemptMerge_def same_uri_def)
  show ?thesis
  proof (cases "u = v \<and> merged r ot \<noteq> None")
    case True
    then obtain m where m: "merged r ot = Some m" by auto
    have "GetUriString m = GetUriString r"
      using m by (auto simp: merged_def RangedUri_new_def GetUriString_def split: if_splits)
    with True m am assms(4) merged_covers [OF assms(1,2) m assms(3)] show ?thesis by auto
  next
    case False
    then show ?thesis by (auto simp: am merged_def split: if_splits)
  qed
qed

theorem attempt_merge_union_witness:
  "\<exists>m. AttemptMerge (RangedUri_new ''http://h/a'' [] 0 100) (Some (RangedUri_new ''http://h/a'' [] 100 50))
     = Some (Inr (Some m)) \<and> covers m = {0 ..< 100} \<union> {100 ..< 150} \<and> ru_length m = 150"
proof -
  let ?r = "RangedUri_new ''http://h/a'' [] 0 100" and ?o = "RangedUri_new ''http://h/a'' [] 100 50"
  have n: "narrow32 100 = 100" "narrow32 50 = 50" "narrow32 150 = 150" by (simp_all add: in_int32_def)
  have u: "Resolve ''http://h/a'' [] = Some (Inr ''http://h/a'')" by code_simp
  have am: "AttemptMerge ?r (Some ?o) = Some (Inr (Some (RangedUri_new ''http://h/a'' [] 0 150)))"
    by (simp add: AttemptMerge_def same_uri_def GetUriString_def RangedUri_new_def u merged_def n)
  have "range_ok ?r" "range_ok ?o" "ru_length ?r + ru_length ?o < 2 ^ 31"
      "GetUriString ?r = Some (Inr ''http://h/a'')" "GetUriString ?o = Some (Inr ''http://h/a'')"
    by (simp_all add: range_ok_def RangedUri_new_def n GetUriString_def u)
  from attempt_merge_union [OF this]
  have "covers (RangedUri_new ''http://h/a'' [] 0 150) = covers ?r \<union> covers ?o" unfolding am by simp
  moreover have "covers ?r = {0 ..< 100}" "covers ?o = {100 ..< 150}"
    by (simp_all add: covers_def RangedUri_new_def n)
  moreover have "ru_length (RangedUri_new ''http://h/a'' [] 0 150) = 150" by (simp add: RangedUri_new_def n)
  ultimately show ?thesis using am by auto
qed

end
