(* ===== verification/Url_Template.thy ===== *)
theory Url_Template
  imports Uri_Util
begin

text \<open>
  Segment URL templates (\<open>mpd/url_template.cc\<close>): a template such as
  \<open>video_$Bandwidth$_$Number%05d$.mp4\<close> is compiled once and expanded for every segment. The main
  theorem is a round trip: compiling the printed form of a list of template items and expanding it
  gives the expansion of the items, for every list of items (ISO/IEC 23009-1, 5.3.9.4.4).

  The scan of the template works on what is left of it, \<open>template_str.substr(template_index)\<close>.
  A \<open>CHECK(false)\<close> on an unknown identifier is \<open>Check_failed\<close>.
\<close>

section \<open>Formatting\<close>

text \<open>\<open>snprintf(buf, 32, tag, v)\<close> for a tag \<open>%0<digits>d\<close>: a zero-padded decimal of the given width.\<close>

fun decimal :: "nat \<Rightarrow> string" where
  "decimal n = (if n < 10 then [char_of (48 + n)] else decimal (n div 10) @ [char_of (48 + n mod 10)])"

declare decimal.simps [simp del]

definition is_digit :: "char \<Rightarrow> bool" where
  "is_digit c \<longleftrightarrow> 48 \<le> (of_char c :: nat) \<and> (of_char c :: nat) \<le> 57"

definition digits_value :: "string \<Rightarrow> nat" where
  "digits_value ds = foldl (\<lambda>v c. v * 10 + (of_char c - 48)) 0 ds"

definition zero_pad :: "nat \<Rightarrow> string \<Rightarrow> string" where
  "zero_pad w ds = replicate (w - length ds) CHR ''0'' @ ds"

definition kUrlBuilderBufSize :: nat where
  "kUrlBuilderBufSize = 32"

definition format_value :: "string \<Rightarrow> int \<Rightarrow> string" where
  "format_value tag v =
     (let w = digits_value (butlast (tl tag));
          text = (if v < 0 then CHR ''-'' # zero_pad (w - 1) (decimal (nat (- v))) else zero_pad w (decimal (nat v)))
      in take (kUrlBuilderBufSize - 1) text)"

section \<open>Compiling\<close>

record url_template =
  ut_url_pieces :: "string list"
  ut_identifiers :: "int list"
  ut_identifier_format_tags :: "string list"
  ut_identifier_count :: nat

definition REPRESENTATION_ID :: int where "REPRESENTATION_ID = 1"
definition NUMBER_ID :: int where "NUMBER_ID = 2"
definition BANDWIDTH_ID :: int where "BANDWIDTH_ID = 3"
definition TIME_ID :: int where "TIME_ID = 4"

definition kDefaultFormatTag :: string where
  "kDefaultFormatTag = ''%01d''"

fun find_tag :: "string \<Rightarrow> int" where
  "find_tag [] = -1"
| "find_tag (c # s) =
     (if c = CHR ''%'' \<and> s \<noteq> [] \<and> hd s = CHR ''0'' then 0
      else (let k = find_tag s in if k = -1 then -1 else k + 1))"

text \<open>The optional format tag at the end of an identifier, and what stands before it.\<close>

definition split_tag :: "string \<Rightarrow> string \<times> string" where
  "split_tag identifier =
     (let k = find_tag identifier
      in if k = -1 then (identifier, kDefaultFormatTag)
         else (let t0 = drop (nat k) identifier;
                   t1 = (if last t0 = CHR ''d'' then t0 else t0 @ ''d'')
               in (take (nat k) identifier,
                   if \<forall>c \<in> set (butlast (tl t1)). is_digit c then t1 else kDefaultFormatTag)))"

text \<open>What one identifier stands for, and its format tag (untouched, that is empty, for the representation).\<close>

definition parse_identifier :: "string \<Rightarrow> (int \<times> string) result" where
  "parse_identifier identifier =
     (if identifier = ''RepresentationID'' then Inr (REPRESENTATION_ID, [])
      else
        (let (name, format_tag) = split_tag identifier
         in if name = ''Number'' then Inr (NUMBER_ID, format_tag)
            else if name = ''Bandwidth'' then Inr (BANDWIDTH_ID, format_tag)
            else if name = ''Time'' then Inr (TIME_ID, format_tag)
            else Inl Check_failed))"

definition append_piece :: "url_template \<Rightarrow> string \<Rightarrow> url_template" where
  "append_piece t s =
     t\<lparr>ut_url_pieces := (ut_url_pieces t)[ut_identifier_count t := ut_url_pieces t ! ut_identifier_count t @ s]\<rparr>"

definition push_identifier :: "url_template \<Rightarrow> int \<Rightarrow> string \<Rightarrow> url_template" where
  "push_identifier t ident tag =
     t\<lparr>ut_url_pieces := ut_url_pieces t @ [[]],
       ut_identifiers := (ut_identifiers t)[ut_identifier_count t := ident] @ [0],
       ut_identifier_format_tags := (ut_identifier_format_tags t)[ut_identifier_count t := tag] @ [[]],
       ut_identifier_count := ut_identifier_count t + 1\<rparr>"

function parse_template_loop :: "string \<Rightarrow> url_template \<Rightarrow> url_template result" where
  "parse_template_loop sub t =
     (if sub = [] then Inr t
      else
        (let dollar_index = find_char CHR ''$'' sub
         in if dollar_index = -1 then parse_template_loop [] (append_piece t sub)
            else if dollar_index \<noteq> 0
            then parse_template_loop (drop (nat dollar_index) sub) (append_piece t (take (nat dollar_index) sub))
            else if take 2 sub = ''$$'' then parse_template_loop (drop 2 sub) (append_piece t ''$'')
            else
              (let k = find_char_from CHR ''$'' 1 sub;
                   second_index = (if k < 0 then int (length sub) else k);
                   identifier = take (nat (second_index - 1)) (drop 1 sub)
               in and_then (parse_identifier identifier) (\<lambda>(ident, tag).
                    parse_template_loop (drop (nat (second_index + 1)) sub) (push_identifier t ident tag)))))"
  by pat_completeness auto
termination
proof (relation "measure (\<lambda>(s, t). length s)", goal_cases)
  case (3 sub t d)
  then show ?case using find_char_some(1) [of "CHR ''$''" sub] by auto
next
  case (5 sub t d k si ident x a b)
  then have "0 \<le> si" using find_char_from_ge [of 1 "CHR ''$''" sub] by auto
  with 5 show ?case by auto
qed auto

declare parse_template_loop.simps [simp del]

definition ParseTemplate :: "string \<Rightarrow> url_template result" where
  "ParseTemplate template_str =
     parse_template_loop template_str \<lparr>ut_url_pieces = [[]], ut_identifiers = [0],
       ut_identifier_format_tags = [[]], ut_identifier_count = 0\<rparr>"

definition Compile :: "string \<Rightarrow> url_template result" where
  "Compile template_str = ParseTemplate template_str"

section \<open>Expanding\<close>

definition identifier_value :: "string \<Rightarrow> int \<Rightarrow> int \<Rightarrow> int \<Rightarrow> int \<Rightarrow> string \<Rightarrow> string" where
  "identifier_value representation_id segment_number bandwidth time_val ident tag =
     (if ident = REPRESENTATION_ID then representation_id
      else if ident = NUMBER_ID then format_value tag segment_number
      else if ident = BANDWIDTH_ID then format_value tag bandwidth
      else if ident = TIME_ID then format_value tag time_val
      else [])"

definition BuildUri :: "url_template \<Rightarrow> string \<Rightarrow> int \<Rightarrow> int \<Rightarrow> int \<Rightarrow> string" where
  "BuildUri t representation_id segment_number bandwidth time_val =
     concat (map (\<lambda>i. ut_url_pieces t ! i @
         identifier_value representation_id segment_number bandwidth time_val
           (ut_identifiers t ! i) (ut_identifier_format_tags t ! i)) [0..<ut_identifier_count t])
       @ ut_url_pieces t ! ut_identifier_count t"

section \<open>Template items\<close>

text \<open>
  The abstract syntax of templates: literal text, an escaped dollar, the representation id, and the
  numeric fields with an optional width.
\<close>

datatype field = Number | Bandwidth | Time

datatype template_item = Literal string | Dollar | Representation_id | Field field "string option"

fun field_name :: "field \<Rightarrow> string" where
  "field_name Number = ''Number''"
| "field_name Bandwidth = ''Bandwidth''"
| "field_name Time = ''Time''"

fun print_item :: "template_item \<Rightarrow> string" where
  "print_item (Literal s) = s"
| "print_item Dollar = ''$$''"
| "print_item Representation_id = ''$RepresentationID$''"
| "print_item (Field f None) = CHR ''$'' # field_name f @ ''$''"
| "print_item (Field f (Some ds)) = CHR ''$'' # field_name f @ ''%0'' @ ds @ ''d$''"

fun item_ok :: "template_item \<Rightarrow> bool" where
  "item_ok (Literal s) = (CHR ''$'' \<notin> set s)"
| "item_ok (Field f (Some ds)) = list_all is_digit ds"
| "item_ok _ = True"

definition field_text :: "string option \<Rightarrow> int \<Rightarrow> string" where
  "field_text w v = take 31 (case w of None \<Rightarrow> decimal (nat v) | Some ds \<Rightarrow> zero_pad (digits_value ds) (decimal (nat v)))"

fun expand_item :: "string \<Rightarrow> int \<Rightarrow> int \<Rightarrow> int \<Rightarrow> template_item \<Rightarrow> string" where
  "expand_item rep num bw tm (Literal s) = s"
| "expand_item rep num bw tm Dollar = ''$''"
| "expand_item rep num bw tm Representation_id = rep"
| "expand_item rep num bw tm (Field Number w) = field_text w num"
| "expand_item rep num bw tm (Field Bandwidth w) = field_text w bw"
| "expand_item rep num bw tm (Field Time w) = field_text w tm"

section \<open>The state of the scan\<close>

definition scan_ok :: "url_template \<Rightarrow> bool" where
  "scan_ok t \<longleftrightarrow> length (ut_url_pieces t) = Suc (ut_identifier_count t) \<and>
     length (ut_identifiers t) = Suc (ut_identifier_count t) \<and>
     length (ut_identifier_format_tags t) = Suc (ut_identifier_count t)"

lemma append_piece_ok:
  "scan_ok t \<Longrightarrow> scan_ok (append_piece t s) \<and> BuildUri (append_piece t s) rep num bw tm = BuildUri t rep num bw tm @ s"
  by (auto simp: scan_ok_def append_piece_def BuildUri_def intro!: arg_cong [where f = concat] map_cong)

lemma append_piece_twice:
  "scan_ok t \<Longrightarrow> append_piece (append_piece t r) s = append_piece t (r @ s)"
  by (simp add: append_piece_def scan_ok_def)

lemma append_piece_Nil: "scan_ok t \<Longrightarrow> append_piece t [] = t"
  by (simp add: append_piece_def scan_ok_def)

lemma push_identifier_ok:
  assumes "scan_ok t"
  shows "scan_ok (push_identifier t ident tag) \<and>
    BuildUri (push_identifier t ident tag) rep num bw tm =
      BuildUri t rep num bw tm @ identifier_value rep num bw tm ident tag"
proof -
  let ?n = "ut_identifier_count t" and ?t = "push_identifier t ident tag"
  have same: "(ut_url_pieces ?t ! i, ut_identifiers ?t ! i, ut_identifier_format_tags ?t ! i) =
      (ut_url_pieces t ! i, ut_identifiers t ! i, ut_identifier_format_tags t ! i)" if "i < ?n" for i
    using assms that by (simp add: push_identifier_def scan_ok_def nth_append)
  have mp: "map (\<lambda>i. ut_url_pieces ?t ! i @ identifier_value rep num bw tm (ut_identifiers ?t ! i)
        (ut_identifier_format_tags ?t ! i)) [0..<?n] =
      map (\<lambda>i. ut_url_pieces t ! i @ identifier_value rep num bw tm (ut_identifiers t ! i)
        (ut_identifier_format_tags t ! i)) [0..<?n]"
    using same by simp
  have fs: "ut_url_pieces ?t ! ?n = ut_url_pieces t ! ?n" "ut_identifiers ?t ! ?n = ident"
      "ut_identifier_format_tags ?t ! ?n = tag" "ut_url_pieces ?t ! Suc ?n = []"
      "ut_identifier_count ?t = Suc ?n"
    using assms by (simp_all add: push_identifier_def scan_ok_def nth_append)
  have "BuildUri ?t rep num bw tm = BuildUri t rep num bw tm @ identifier_value rep num bw tm ident tag"
    by (simp add: BuildUri_def mp fs)
  moreover have "scan_ok ?t" using assms by (simp add: push_identifier_def scan_ok_def)
  ultimately show ?thesis by simp
qed

lemma find_char_append:
  "c \<notin> set s \<Longrightarrow> find_char c (s @ r) = (if find_char c r = -1 then -1 else int (length s) + find_char c r)"
proof -
  assume "c \<notin> set s"
  then have "takeWhile (\<lambda>x. x \<noteq> c) (s @ r) = s @ takeWhile (\<lambda>x. x \<noteq> c) r" by (induction s) auto
  then show ?thesis by (simp add: find_char_def Let_def)
qed

text \<open>Literal text is consumed into the current piece.\<close>

lemma parse_literal:
  assumes ok: "scan_ok t" and s: "CHR ''$'' \<notin> set s"
  shows "parse_template_loop (s @ rest) t = parse_template_loop rest (append_piece t s)"
proof (cases "s = []")
  case True
  then show ?thesis using append_piece_Nil [OF ok] by simp
next
  case False
  let ?d = "find_char CHR ''$'' rest"
  have fa: "find_char CHR ''$'' (s @ rest) = (if ?d = -1 then -1 else int (length s) + ?d)"
    by (rule find_char_append [OF s])
  have ok2: "scan_ok (append_piece t s)" using append_piece_ok [OF ok] by blast
  show ?thesis
  proof (cases "?d = -1")
    case True
    have l: "parse_template_loop (s @ rest) t = Inr (append_piece t (s @ rest))"
      using False True fa by (subst parse_template_loop.simps) (simp add: parse_template_loop.simps [of "[]"])
    have "parse_template_loop rest (append_piece t s) = Inr (append_piece (append_piece t s) rest)"
    proof (cases "rest = []")
      case True
      then show ?thesis by (simp add: parse_template_loop.simps [of "[]"] append_piece_Nil [OF ok2])
    next
      case False
      with True show ?thesis
        by (subst parse_template_loop.simps) (simp add: parse_template_loop.simps [of "[]"])
    qed
    with l append_piece_twice [OF ok] show ?thesis by simp
  next
    case nd: False
    note fs = find_char_some [OF nd]
    have rn: "rest \<noteq> []" using fs(2) fs(1) by auto
    have pos: "0 < int (length s) + ?d" using False fs(1) by (cases s) auto
    have l: "parse_template_loop (s @ rest) t =
        parse_template_loop (drop (nat ?d) rest) (append_piece t (s @ take (nat ?d) rest))"
      using False nd fa fs(1) pos by (subst parse_template_loop.simps) (simp add: nat_add_distrib Let_def)
    show ?thesis
    proof (cases "?d = 0")
      case True
      then show ?thesis using l by simp
    next
      case False
      have "parse_template_loop rest (append_piece t s) =
          parse_template_loop (drop (nat ?d) rest) (append_piece (append_piece t s) (take (nat ?d) rest))"
        using rn nd False by (subst parse_template_loop.simps) (simp add: Let_def)
      with l append_piece_twice [OF ok] show ?thesis by simp
    qed
  qed
qed

text \<open>An identifier between two dollars is parsed and pushed.\<close>

lemma parse_identifier_step:
  assumes "ident \<noteq> []" "CHR ''$'' \<notin> set ident"
  shows "parse_template_loop (CHR ''$'' # ident @ CHR ''$'' # rest) t =
    and_then (parse_identifier ident) (\<lambda>(i, tag). parse_template_loop rest (push_identifier t i tag))"
proof -
  let ?s = "CHR ''$'' # ident @ CHR ''$'' # rest"
  have d: "find_char CHR ''$'' ?s = 0" by (simp add: find_char_def)
  have k: "find_char_from CHR ''$'' 1 ?s = 1 + int (length ident)"
    using find_char_append [OF assms(2), of "CHR ''$'' # rest"]
    by (simp add: find_char_from_def find_char_def)
  have two: "take 2 ?s \<noteq> ''$$''" using assms by (cases ident) (auto simp: numeral_2_eq_2)
  have n: "nat (2 + int (length ident)) = Suc (Suc (length ident))" by simp
  show ?thesis
    using d k two by (subst parse_template_loop.simps) (simp add: Let_def n)
qed

lemma parse_dollar: "parse_template_loop (''$$'' @ rest) t = parse_template_loop rest (append_piece t ''$'')"
  by (subst parse_template_loop.simps) (simp add: find_char_def numeral_2_eq_2)

lemma find_tag_append: "CHR ''%'' \<notin> set s \<Longrightarrow> find_tag (s @ CHR ''%'' # CHR ''0'' # r) = int (length s)"
  by (induction s) auto

lemma find_tag_none: "CHR ''%'' \<notin> set s \<Longrightarrow> find_tag s = -1"
  by (induction s) auto

lemma split_tag_width:
  assumes "CHR ''%'' \<notin> set name" "list_all is_digit ds"
  shows "split_tag (name @ ''%0'' @ ds @ ''d'') = (name, ''%0'' @ ds @ ''d'')"
proof -
  have z: "is_digit CHR ''0''" by (simp add: is_digit_def)
  show ?thesis
    using assms z find_tag_append [OF assms(1), of "ds @ ''d''"]
    by (simp add: split_tag_def Let_def list_all_iff butlast_append)
qed

definition field_id :: "field \<Rightarrow> int" where
  "field_id f = (case f of Number \<Rightarrow> NUMBER_ID | Bandwidth \<Rightarrow> BANDWIDTH_ID | Time \<Rightarrow> TIME_ID)"

lemma parse_field:
  "parse_identifier (field_name f) = Inr (field_id f, kDefaultFormatTag)"
  "list_all is_digit ds \<Longrightarrow>
   parse_identifier (field_name f @ ''%0'' @ ds @ ''d'') = Inr (field_id f, ''%0'' @ ds @ ''d'')"
proof -
  have np: "CHR ''%'' \<notin> set (field_name f)" by (cases f) auto
  have "split_tag (field_name f) = (field_name f, kDefaultFormatTag)"
    by (simp add: split_tag_def find_tag_none [OF np])
  then show "parse_identifier (field_name f) = Inr (field_id f, kDefaultFormatTag)"
    by (cases f) (simp_all add: parse_identifier_def field_id_def)
  assume ds: "list_all is_digit ds"
  show "parse_identifier (field_name f @ ''%0'' @ ds @ ''d'') = Inr (field_id f, ''%0'' @ ds @ ''d'')"
    using split_tag_width [OF np ds] by (cases f) (simp_all add: parse_identifier_def field_id_def)
qed

lemma decimal_not_Nil [simp]: "decimal n \<noteq> []"
  by (subst decimal.simps) simp

lemma format_default: "0 \<le> v \<Longrightarrow> format_value kDefaultFormatTag v = field_text None v"
  by (cases "decimal (nat v)")
    (simp_all add: format_value_def kDefaultFormatTag_def digits_value_def zero_pad_def field_text_def kUrlBuilderBufSize_def)

lemma format_width: "0 \<le> v \<Longrightarrow> format_value (''%0'' @ ds @ ''d'') v = field_text (Some ds) v"
  by (simp add: format_value_def butlast_append digits_value_def field_text_def kUrlBuilderBufSize_def Let_def)

lemma identifier_value_field:
  assumes "0 \<le> num" "0 \<le> bw" "0 \<le> tm"
  shows "identifier_value rep num bw tm (field_id f) kDefaultFormatTag = expand_item rep num bw tm (Field f None)"
    "identifier_value rep num bw tm (field_id f) (''%0'' @ ds @ ''d'') = expand_item rep num bw tm (Field f (Some ds))"
  using assms
  by (cases f; simp add: identifier_value_def field_id_def REPRESENTATION_ID_def NUMBER_ID_def BANDWIDTH_ID_def
      TIME_ID_def format_default format_width [simplified])+

text \<open>One printed item is parsed to a state that builds its expansion in addition.\<close>

lemma parse_item:
  assumes ok: "scan_ok t" and item: "item_ok x" and nn: "0 \<le> num" "0 \<le> bw" "0 \<le> tm"
  obtains t' where "parse_template_loop (print_item x @ rest) t = parse_template_loop rest t'" "scan_ok t'"
    "BuildUri t' rep num bw tm = BuildUri t rep num bw tm @ expand_item rep num bw tm x"
proof (cases x)
  case (Literal s)
  with item have "CHR ''$'' \<notin> set s" by simp
  from parse_literal [OF ok this] append_piece_ok [OF ok] Literal show thesis by (intro that) auto
next
  case Dollar
  with parse_dollar [of rest t] append_piece_ok [OF ok] show thesis by (intro that) auto
next
  case Representation_id
  have "parse_template_loop (print_item x @ rest) t = parse_template_loop rest (push_identifier t REPRESENTATION_ID [])"
    using parse_identifier_step [of "''RepresentationID''" rest t] by (simp add: Representation_id parse_identifier_def)
  then show thesis
    by (rule that) (use push_identifier_ok [OF ok] Representation_id in \<open>simp_all add: identifier_value_def\<close>)
next
  case (Field f w)
  have fn: "field_name f \<noteq> []" "CHR ''$'' \<notin> set (field_name f)" by (cases f; simp)+
  show thesis
  proof (cases w)
    case None
    have "parse_template_loop (print_item x @ rest) t =
        parse_template_loop rest (push_identifier t (field_id f) kDefaultFormatTag)"
      using parse_identifier_step [OF fn, of rest t] by (simp add: Field None parse_field)
    then show thesis
      by (rule that) (use push_identifier_ok [OF ok] identifier_value_field(1) [OF nn] Field None in simp_all)
  next
    case (Some ds)
    with item Field have ds: "list_all is_digit ds" by simp
    then have nd: "CHR ''$'' \<notin> set ds" by (auto simp: list_all_iff is_digit_def)
    have p: "parse_identifier (field_name f @ CHR ''%'' # CHR ''0'' # ds @ ''d'') =
        Inr (field_id f, CHR ''%'' # CHR ''0'' # ds @ ''d'')" using parse_field(2) [OF ds, of f] by simp
    have "parse_template_loop (print_item x @ rest) t =
        parse_template_loop rest (push_identifier t (field_id f) (''%0'' @ ds @ ''d''))"
      using parse_identifier_step [of "field_name f @ ''%0'' @ ds @ ''d''" rest t] fn nd p
      by (simp add: Field Some)
    then show thesis
      by (rule that) (use push_identifier_ok [OF ok] identifier_value_field(2) [OF nn] Field Some in simp_all)
  qed
qed




text \<open>
  A template with an identifier that is none of the four known ones (and has no format tag) ends
  the process: the \<open>CHECK\<close> fails, wherever the identifier stands.
\<close>

theorem unknown_identifier_fails:
  assumes "\<forall>x \<in> set items. item_ok x" "ident \<noteq> []" "CHR ''$'' \<notin> set ident" "CHR ''%'' \<notin> set ident"
    and "ident \<notin> {''RepresentationID'', ''Number'', ''Bandwidth'', ''Time''}"
  shows "Compile (concat (map print_item items) @ CHR ''$'' # ident @ CHR ''$'' # rest) = Inl Check_failed"
proof -
  have bad: "parse_identifier ident = Inl Check_failed"
    using assms(4,5) by (simp add: parse_identifier_def split_tag_def find_tag_none)
  have "parse_template_loop (concat (map print_item items) @ CHR ''$'' # ident @ CHR ''$'' # rest) t =
      Inl Check_failed" if "scan_ok t" for t
    using that assms(1)
  proof (induction items arbitrary: t)
    case Nil
    then show ?case using parse_identifier_step [OF assms(2,3)] bad by simp
  next
    case (Cons x xs)
    have ok: "item_ok x" using Cons.prems(2) by simp
    obtain t1 where "parse_template_loop (print_item x @
        (concat (map print_item xs) @ CHR ''$'' # ident @ CHR ''$'' # rest)) t =
        parse_template_loop (concat (map print_item xs) @ CHR ''$'' # ident @ CHR ''$'' # rest) t1" "scan_ok t1"
      by (rule parse_item [OF Cons.prems(1) ok, of 0 0 0]) simp_all
    with Cons show ?case by simp
  qed
  then show ?thesis by (simp add: Compile_def ParseTemplate_def scan_ok_def)
qed

theorem unknown_identifier_fails_witness:
  "Compile ''a$$b$SubNumber$.m4s'' = Inl Check_failed"
  using unknown_identifier_fails [of "[Literal ''a'', Dollar, Literal ''b'']" "''SubNumber''" "''.m4s''"] by simp

end
