(* ===== verification/Segment_Base.thy ===== *)
theory Segment_Base
  imports Time_Scaling Ranged_Uri Url_Template
begin

text \<open>
  The segment descriptions of a manifest (\<open>mpd/segment_base.cc\<close>, \<open>single_segment_base.cc\<close>,
  \<open>multi_segment_base.cc\<close>, \<open>segment_list.cc\<close>, \<open>segment_template.cc\<close>): where the segments of a
  representation lie in time and under which URIs. \<open>SegmentList\<close> and \<open>SegmentTemplate\<close> are the two
  constructors of \<open>multi_segment\<close>; a parent (from an enclosing manifest element) supplies a missing
  timeline or list. An integer division by zero is \<open>Undefined_access\<close>.
\<close>

section \<open>State\<close>

record segment_timeline_element =
  ste_start_time :: int
  ste_duration :: int

record segment_base =
  sb_base_url :: string
  sb_initialization :: "ranged_uri option"
  sb_timescale :: int
  sb_presentation_time_offset :: int

record single_segment_base = segment_base +
  ss_index_start :: int
  ss_index_length :: int

record multi_segment_base = segment_base +
  ms_start_number :: int
  ms_duration :: int
  ms_segment_timeline :: "segment_timeline_element list option"

datatype multi_segment =
    Segment_List multi_segment_base "ranged_uri list option" "multi_segment option"
  | Segment_Template multi_segment_base "url_template option" "url_template option" "multi_segment option"

definition kIndexUnbounded :: int where
  "kIndexUnbounded = -1"

definition kUnknownTimeUs :: int where
  "kUnknownTimeUs = -1"

definition quot :: "int \<Rightarrow> int \<Rightarrow> int result" where
  "quot a b = (if b = 0 then Inl Undefined_access else Inr (a sdiv b))"

section \<open>SegmentBase\<close>

definition GetInitializationUri :: "('a) segment_base_scheme \<Rightarrow> ranged_uri option" where
  "GetInitializationUri b = sb_initialization b"

definition scale_us :: "int \<Rightarrow> int \<Rightarrow> int result" where
  "scale_us t timescale =
     (if timescale = 0 then Inl Undefined_access
      else Inr (ScaleLargeTimestamp t kMicrosPerSecond timescale))"

definition GetPresentationTimeOffsetUs :: "('a) segment_base_scheme \<Rightarrow> int result" where
  "GetPresentationTimeOffsetUs b = scale_us (sb_presentation_time_offset b) (sb_timescale b)"

section \<open>SingleSegmentBase\<close>

definition SingleSegmentBase_new :: "string \<Rightarrow> single_segment_base" where
  "SingleSegmentBase_new uri =
     \<lparr>sb_base_url = uri, sb_initialization = None, sb_timescale = 1, sb_presentation_time_offset = 0,
      ss_index_start = 0, ss_index_length = -1\<rparr>"

definition SingleSegmentBase_GetIndex :: "single_segment_base \<Rightarrow> ranged_uri option" where
  "SingleSegmentBase_GetIndex b =
     (if ss_index_length b \<le> 0 then None
      else Some (RangedUri_new (sb_base_url b) [] (ss_index_start b) (ss_index_length b)))"

section \<open>MultiSegmentBase and its subclasses\<close>

fun multi_base :: "multi_segment \<Rightarrow> multi_segment_base" where
  "multi_base (Segment_List b m p) = b"
| "multi_base (Segment_Template b i m p) = b"

fun multi_parent :: "multi_segment \<Rightarrow> multi_segment option" where
  "multi_parent (Segment_List b m p) = p"
| "multi_parent (Segment_Template b i m p) = p"

lemma multi_parent_size [termination_simp]: "multi_parent s = Some q \<Longrightarrow> size q < size s"
  by (cases s) auto

function GetSegmentTimeLine :: "multi_segment \<Rightarrow> segment_timeline_element list option" where
  "GetSegmentTimeLine s =
     (case (ms_segment_timeline (multi_base s), multi_parent s) of
        (None, Some parent) \<Rightarrow> GetSegmentTimeLine parent
      | (timeline, _) \<Rightarrow> timeline)"
  by pat_completeness auto
termination by (relation "measure size") (auto simp: multi_parent_size)

declare GetSegmentTimeLine.simps [simp del]

definition SegmentList_new ::
  "multi_segment_base \<Rightarrow> ranged_uri list option \<Rightarrow> multi_segment option \<Rightarrow> multi_segment" where
  "SegmentList_new b media_segments parent =
     Segment_List b (if parent = None \<and> media_segments = None then Some [] else media_segments) parent"

fun GetMediaSegments :: "multi_segment \<Rightarrow> ranged_uri list option" where
  "GetMediaSegments (Segment_List b media_segments parent) =
     (case (media_segments, parent) of
        (None, Some q) \<Rightarrow> GetMediaSegments q
      | _ \<Rightarrow> media_segments)"
| "GetMediaSegments (Segment_Template b i m parent) = None"

definition GetFirstSegmentNum :: "multi_segment \<Rightarrow> int" where
  "GetFirstSegmentNum s = ms_start_number (multi_base s)"

definition unit_duration_us :: "multi_segment \<Rightarrow> int result" where
  "unit_duration_us s =
     quot (ms_duration (multi_base s) * kMicrosPerSecond) (sb_timescale (multi_base s))"

definition GetLastSegmentNum :: "multi_segment \<Rightarrow> int \<Rightarrow> int result" where
  "GetLastSegmentNum s period_duration_us =
     (case s of
        Segment_List b _ _ \<Rightarrow>
          (case GetMediaSegments s of
             None \<Rightarrow> Inl Undefined_access
           | Some ms \<Rightarrow> Inr (narrow32 (ms_start_number b + int (length ms) - 1)))
      | Segment_Template b _ _ _ \<Rightarrow>
          (case GetSegmentTimeLine s of
             Some elems \<Rightarrow> Inr (narrow32 (int (length elems) + ms_start_number b - 1))
           | None \<Rightarrow>
               if period_duration_us = 0 then Inr kIndexUnbounded
               else and_then (unit_duration_us s) (\<lambda>duration_us.
                      if duration_us = 0 then Inl Undefined_access
                      else Inr (ms_start_number b
                             + narrow32 (CeilDivide period_duration_us duration_us) - 1))))"

definition GetSegmentTimeUs :: "multi_segment \<Rightarrow> int \<Rightarrow> int result" where
  "GetSegmentTimeUs s sequence_number =
     (let b = multi_base s; index = sequence_number - ms_start_number b
      in case GetSegmentTimeLine s of
           Some elems \<Rightarrow>
             if index < 0 \<or> index \<ge> int (length elems) then Inr (-1)
             else scale_us (ste_start_time (elems ! nat index) - sb_presentation_time_offset b) (sb_timescale b)
         | None \<Rightarrow> scale_us (index * ms_duration b) (sb_timescale b))"

definition GetSegmentDurationUs :: "multi_segment \<Rightarrow> int \<Rightarrow> int \<Rightarrow> int result" where
  "GetSegmentDurationUs s sequence_number period_duration_us =
     (let b = multi_base s
      in case GetSegmentTimeLine s of
           Some elems \<Rightarrow>
             (let index = sequence_number - ms_start_number b
              in if index < 0 \<or> index \<ge> int (length elems) then Inr (-1)
                 else quot (ste_duration (elems ! nat index) * kMicrosPerSecond) (sb_timescale b))
         | None \<Rightarrow>
             and_then (GetLastSegmentNum s period_duration_us) (\<lambda>l.
               if sequence_number = l
               then and_then (GetSegmentTimeUs s sequence_number) (\<lambda>t. Inr (period_duration_us - t))
               else unit_duration_us s))"

text \<open>The binary search over the timeline: the segment found, or the final pair of indices.\<close>

lemma sdiv_mid:
  assumes "low \<le> (high::int)"
  shows "low \<le> (low + high) sdiv 2" "(low + high) sdiv 2 \<le> high"
proof -
  have "(low + high) sdiv 2 = (if low + high < 0 then - ((- (low + high)) div 2) else (low + high) div 2)"
    by (simp add: signed_divide_int_def sgn_if)
  then show "low \<le> (low + high) sdiv 2" "(low + high) sdiv 2 \<le> high" using assms by (auto split: if_splits)
qed

function search_segment ::
  "multi_segment \<Rightarrow> int \<Rightarrow> int \<Rightarrow> int \<Rightarrow> (int + int \<times> int) result" where
  "search_segment s time_us low_index high_index =
     (if low_index \<le> high_index
      then (let mid_index = (low_index + high_index) sdiv 2
            in and_then (GetSegmentTimeUs s mid_index) (\<lambda>mid_time_us.
                 if mid_time_us < time_us then search_segment s time_us (mid_index + 1) high_index
                 else if mid_time_us > time_us then search_segment s time_us low_index (mid_index - 1)
                 else Inr (Inl mid_index)))
      else Inr (Inr (low_index, high_index)))"
  by pat_completeness auto
termination
proof (relation "measure (\<lambda>(s, t, l, h). nat (h - l + 1))", goal_cases)
  case (2 s t l h mid x)
  then show ?case using sdiv_mid [of l h] by auto
next
  case (3 s t l h mid x)
  then show ?case using sdiv_mid [of l h] by auto
qed simp

declare search_segment.simps [simp del]

definition GetSegmentNum :: "multi_segment \<Rightarrow> int \<Rightarrow> int \<Rightarrow> int result" where
  "GetSegmentNum s time_us period_duration_us =
     (let first_segment_num = GetFirstSegmentNum s
      in and_then (GetLastSegmentNum s period_duration_us) (\<lambda>high_index.
           case GetSegmentTimeLine s of
             None \<Rightarrow>
               and_then (unit_duration_us s) (\<lambda>duration_us.
               and_then (quot time_us duration_us) (\<lambda>q.
                 (let segment_num = ms_start_number (multi_base s) + narrow32 q
                  in if segment_num < first_segment_num then Inr first_segment_num
                     else if high_index \<noteq> kIndexUnbounded \<and> segment_num > high_index then Inr high_index
                     else Inr segment_num)))
           | Some _ \<Rightarrow>
               and_then (search_segment s time_us first_segment_num high_index) (\<lambda>r.
                 case r of
                   Inl mid \<Rightarrow> Inr mid
                 | Inr (low, high) \<Rightarrow> Inr (if low = first_segment_num then low else high))))"

fun IsExplicit :: "multi_segment \<Rightarrow> bool" where
  "IsExplicit (Segment_List b m p) = True"
| "IsExplicit (Segment_Template b i m p) = (GetSegmentTimeLine (Segment_Template b i m p) \<noteq> None)"

section \<open>Segment URIs\<close>

text \<open>
  The identifier and the bitrate of the representation's format are arguments. A template without a
  media template is read through a null pointer. The time handed to
  the template is narrowed to the \<open>int32_t\<close> parameter of \<open>BuildUri\<close>.
\<close>

fun GetInitialization :: "multi_segment \<Rightarrow> string \<Rightarrow> int \<Rightarrow> ranged_uri option" where
  "GetInitialization (Segment_List b m p) rep_id bitrate = GetInitializationUri b"
| "GetInitialization (Segment_Template b init_template m p) rep_id bitrate =
     (case init_template of
        Some t \<Rightarrow> Some (RangedUri_new (sb_base_url b) (BuildUri t rep_id 0 bitrate 0) 0 (-1))
      | None \<Rightarrow> GetInitializationUri b)"

definition template_uri ::
  "multi_segment_base \<Rightarrow> url_template option \<Rightarrow> string \<Rightarrow> int \<Rightarrow> int \<Rightarrow> int \<Rightarrow> ranged_uri result" where
  "template_uri b media_template rep_id bitrate sequence_number time =
     (case media_template of
        None \<Rightarrow> Inl Undefined_access
      | Some t \<Rightarrow> Inr (RangedUri_new (sb_base_url b) (BuildUri t rep_id sequence_number bitrate (narrow32 time)) 0 (-1)))"

definition GetSegmentUri :: "multi_segment \<Rightarrow> string \<Rightarrow> int \<Rightarrow> int \<Rightarrow> ranged_uri option result" where
  "GetSegmentUri s rep_id bitrate sequence_number =
     (let b = multi_base s; index = sequence_number - ms_start_number b
      in case s of
           Segment_List _ _ _ \<Rightarrow>
             (case GetMediaSegments s of
                None \<Rightarrow> Inl Undefined_access
              | Some ms \<Rightarrow> Inr (if 0 \<le> index \<and> index < int (length ms) then Some (ms ! nat index) else None))
         | Segment_Template _ _ media_template _ \<Rightarrow>
             (case GetSegmentTimeLine s of
                Some elems \<Rightarrow>
                  if index < 0 \<or> index \<ge> int (length elems) then Inr None
                  else and_then (template_uri b media_template rep_id bitrate sequence_number
                         (ste_start_time (elems ! nat index))) (\<lambda>u. Inr (Some u))
              | None \<Rightarrow> and_then (template_uri b media_template rep_id bitrate sequence_number
                         (index * ms_duration b)) (\<lambda>u. Inr (Some u))))"

end
