(* ===== verification/Segment_Index.thy ===== *)
theory Segment_Index
  imports Segment_Base
begin

text \<open>
  Segment indices: the interface \<open>mpd/dash_segment_index.h\<close> as the locale \<open>segment_index\<close>, and its
  three implementations, a manifest's timeline (\<open>mpd/multi_segment_representation.cc\<close> over the
  segment bases), a single segment (\<open>mpd/dash_single_segment_index.cc\<close>) and an index read from the
  media itself (\<open>extractor/chunk_index.cc\<close>, \<open>dash/dash_wrapping_segment_index.cc\<close>).
\<close>

section \<open>The interface\<close>

text \<open>
  The documented contract: the segment number returned for a media time is that of the segment
  containing it, clamped to the first and the last segment. Start times increase with the number;
  two segments may start at the same time.
\<close>

locale segment_index =
  fixes num :: "'i \<Rightarrow> int \<Rightarrow> int \<Rightarrow> int result" and time_us :: "'i \<Rightarrow> int \<Rightarrow> int result"
    and first :: "'i \<Rightarrow> int" and last :: "'i \<Rightarrow> int \<Rightarrow> int result" and ok :: "'i \<Rightarrow> int \<Rightarrow> bool"
  assumes last_defined: "ok i p \<Longrightarrow> \<exists>l. last i p = Inr l \<and> first i \<le> l"
    and time_defined: "ok i p \<Longrightarrow> last i p = Inr l \<Longrightarrow> first i \<le> n \<Longrightarrow> n \<le> l \<Longrightarrow> \<exists>t. time_us i n = Inr t"
    and time_mono: "ok i p \<Longrightarrow> last i p = Inr l \<Longrightarrow> first i \<le> m \<Longrightarrow> m \<le> n \<Longrightarrow> n \<le> l \<Longrightarrow>
      time_us i m = Inr tm \<Longrightarrow> time_us i n = Inr tn \<Longrightarrow> tm \<le> tn"
    and num_contains: "ok i p \<Longrightarrow> last i p = Inr l \<Longrightarrow> \<exists>n. num i t p = Inr n \<and> first i \<le> n \<and> n \<le> l \<and>
      (n = first i \<or> (\<exists>tn. time_us i n = Inr tn \<and> tn \<le> t)) \<and>
      (n = l \<or> time_us i n = Inr t \<or> (\<exists>tn. time_us i (n + 1) = Inr tn \<and> t < tn))"
begin

text \<open>Later times never get a smaller segment number.\<close>

lemma num_mono:
  assumes "ok i p" "t \<le> t'" "num i t p = Inr n" "num i t' p = Inr n'"
  shows "n \<le> n'"
proof (rule ccontr)
  assume lt: "\<not> n \<le> n'"
  obtain l where l: "last i p = Inr l" using last_defined [OF assms(1)] by blast
  have a: "n \<le> l" "first i \<le> n'" "n = first i \<or> (\<exists>tn. time_us i n = Inr tn \<and> tn \<le> t)"
      "n' = l \<or> time_us i n' = Inr t' \<or> (\<exists>tn. time_us i (n' + 1) = Inr tn \<and> t' < tn)"
    using num_contains [OF assms(1) l, of t] num_contains [OF assms(1) l, of t'] assms(3,4) by auto
  from a lt obtain tn where tn: "time_us i n = Inr tn" "tn \<le> t" by auto
  from a(4) show False
  proof (elim disjE exE conjE)
    assume "n' = l"
    then show False using a(1) lt by simp
  next
    assume n': "time_us i n' = Inr t'"
    have "t' \<le> tn" using time_mono [OF assms(1) l a(2) _ a(1) n' tn(1)] lt by simp
    with tn(2) assms(2) have "t = t'" by simp
    with assms(3,4) lt show False by simp
  next
    fix tn' assume tn': "time_us i (n' + 1) = Inr tn'" "t' < tn'"
    have "tn' \<le> tn" using time_mono [OF assms(1) l _ _ a(1) tn'(1) tn(1)] a(2) lt by simp
    with tn(2) tn'(2) assms(2) show False by simp
  qed
qed

text \<open>The start time of a segment leads back to it, unless its neighbours start at the same time.\<close>

lemma num_of_start:
  assumes ok: "ok i p" and l: "last i p = Inr l" and n: "first i \<le> n" "n \<le> l" and t: "time_us i n = Inr t"
    and prev: "n = first i \<or> (\<exists>tp. time_us i (n - 1) = Inr tp \<and> tp < t)"
    and next_time: "n = l \<or> (\<exists>tn. time_us i (n + 1) = Inr tn \<and> t < tn)"
  shows "num i t p = Inr n"
proof -
  obtain m where m: "num i t p = Inr m" "first i \<le> m" "m \<le> l"
      "m = first i \<or> (\<exists>tm. time_us i m = Inr tm \<and> tm \<le> t)"
      "m = l \<or> time_us i m = Inr t \<or> (\<exists>tm. time_us i (m + 1) = Inr tm \<and> t < tm)"
    using num_contains [OF ok l, of t] by blast
  have "\<not> n < m"
  proof
    assume nm: "n < m"
    then obtain tn where tn: "time_us i (n + 1) = Inr tn" "t < tn" using next_time m(3) by auto
    from nm n m obtain tm where tm: "time_us i m = Inr tm" "tm \<le> t" by auto
    have "tn \<le> tm" using time_mono [OF ok l _ _ m(3) tn(1) tm(1)] nm n(1) by simp
    with tn tm show False by simp
  qed
  moreover have "\<not> m < n"
  proof
    assume mn: "m < n"
    then obtain tp where tp: "time_us i (n - 1) = Inr tp" "tp < t" using prev m(2) by auto
    from m(5) show False
    proof (elim disjE exE conjE)
      assume "m = l" then show False using mn n(2) by simp
    next
      assume "time_us i m = Inr t"
      from time_mono [OF ok l m(2) _ _ this tp(1)] mn n(2) tp(2) show False by simp
    next
      fix tm assume tm: "time_us i (m + 1) = Inr tm" "t < tm"
      have "tm \<le> t" using time_mono [OF ok l _ _ n(2) tm(1) t] mn m(2) by simp
      with tm(2) show False by simp
    qed
  qed
  ultimately show ?thesis using m(1) by simp
qed

end

section \<open>Chunk index\<close>

record chunk_index =
  ci_sizes :: "int list"
  ci_offsets :: "int list"
  ci_durations_us :: "int list"
  ci_times_us :: "int list"

text \<open>\<open>std::lower_bound\<close> on a sorted range: the first position whose element is not less.\<close>

definition lower_bound :: "int list \<Rightarrow> int \<Rightarrow> nat" where
  "lower_bound xs t = length (takeWhile (\<lambda>x. x < t) xs)"

definition GetChunkIndex :: "chunk_index \<Rightarrow> int \<Rightarrow> int" where
  "GetChunkIndex c time_us =
     (if time_us < 0 then 0
      else (let ii = lower_bound (ci_times_us c) time_us; index = int ii
            in if ii = length (ci_times_us c) then index - 1
               else if ci_times_us c ! ii = time_us then index else max 0 (index - 1)))"

definition GetChunkCount :: "chunk_index \<Rightarrow> int" where
  "GetChunkCount c = int (length (ci_sizes c))"

text \<open>\<open>vector::at\<close> throws out of range.\<close>

definition vector_at :: "'a list \<Rightarrow> int \<Rightarrow> 'a result" where
  "vector_at xs i = (if 0 \<le> i \<and> i < int (length xs) then Inr (xs ! nat i) else Inl Check_failed)"

definition GetPosition :: "chunk_index \<Rightarrow> int \<Rightarrow> int result" where
  "GetPosition c time_us = vector_at (ci_offsets c) (GetChunkIndex c time_us)"

section \<open>The implementations behind the interface\<close>

text \<open>
  The object behind a \<open>DashSegmentIndexInterface*\<close>: a multi-segment representation (with the format
  id and bitrate its URIs need), a single segment, or a wrapped chunk index.
\<close>

datatype dash_index =
    Multi_Index multi_segment string int
  | Single_Index ranged_uri
  | Wrapping_Index chunk_index string

fun Index_GetSegmentNum :: "dash_index \<Rightarrow> int \<Rightarrow> int \<Rightarrow> int result" where
  "Index_GetSegmentNum (Multi_Index s rep br) time_us period_duration_us = GetSegmentNum s time_us period_duration_us"
| "Index_GetSegmentNum (Single_Index u) time_us period_duration_us = Inr 0"
| "Index_GetSegmentNum (Wrapping_Index c uri) time_us period_duration_us = Inr (GetChunkIndex c time_us)"

fun Index_GetTimeUs :: "dash_index \<Rightarrow> int \<Rightarrow> int result" where
  "Index_GetTimeUs (Multi_Index s rep br) segment_num = GetSegmentTimeUs s segment_num"
| "Index_GetTimeUs (Single_Index u) segment_num = Inr 0"
| "Index_GetTimeUs (Wrapping_Index c uri) segment_num = vector_at (ci_times_us c) segment_num"

fun Index_GetDurationUs :: "dash_index \<Rightarrow> int \<Rightarrow> int \<Rightarrow> int result" where
  "Index_GetDurationUs (Multi_Index s rep br) segment_num period_duration_us =
     GetSegmentDurationUs s segment_num period_duration_us"
| "Index_GetDurationUs (Single_Index u) segment_num period_duration_us = Inr period_duration_us"
| "Index_GetDurationUs (Wrapping_Index c uri) segment_num period_duration_us =
     vector_at (ci_durations_us c) segment_num"

fun Index_GetSegmentUrl :: "dash_index \<Rightarrow> int \<Rightarrow> ranged_uri option result" where
  "Index_GetSegmentUrl (Multi_Index s rep br) segment_num = GetSegmentUri s rep br segment_num"
| "Index_GetSegmentUrl (Single_Index u) segment_num = Inr (Some u)"
| "Index_GetSegmentUrl (Wrapping_Index c uri) segment_num =
     and_then (vector_at (ci_offsets c) segment_num) (\<lambda>chunk_offset.
     and_then (vector_at (ci_sizes c) segment_num) (\<lambda>chunk_size.
       Inr (Some (RangedUri_new uri [] chunk_offset chunk_size))))"

fun Index_GetFirstSegmentNum :: "dash_index \<Rightarrow> int" where
  "Index_GetFirstSegmentNum (Multi_Index s rep br) = GetFirstSegmentNum s"
| "Index_GetFirstSegmentNum (Single_Index u) = 0"
| "Index_GetFirstSegmentNum (Wrapping_Index c uri) = 0"

fun Index_GetLastSegmentNum :: "dash_index \<Rightarrow> int \<Rightarrow> int result" where
  "Index_GetLastSegmentNum (Multi_Index s rep br) period_duration_us = GetLastSegmentNum s period_duration_us"
| "Index_GetLastSegmentNum (Single_Index u) period_duration_us = Inr 0"
| "Index_GetLastSegmentNum (Wrapping_Index c uri) period_duration_us = Inr (GetChunkCount c - 1)"

fun Index_IsExplicit :: "dash_index \<Rightarrow> bool" where
  "Index_IsExplicit (Multi_Index s rep br) = IsExplicit s"
| "Index_IsExplicit (Single_Index u) = True"
| "Index_IsExplicit (Wrapping_Index c uri) = True"

section \<open>The timeline satisfies the contract\<close>

definition segment_time :: "multi_segment \<Rightarrow> segment_timeline_element list \<Rightarrow> int \<Rightarrow> int" where
  "segment_time s elems n =
     ScaleLargeTimestamp (ste_start_time (elems ! nat (n - GetFirstSegmentNum s))
       - sb_presentation_time_offset (multi_base s)) kMicrosPerSecond (sb_timescale (multi_base s))"

text \<open>
  A usable timeline: not empty, start times in order, a positive timescale, and as many timeline
  entries as segments (for a template that is always so).
\<close>

definition timeline_ok :: "multi_segment \<Rightarrow> int \<Rightarrow> segment_timeline_element list \<Rightarrow> bool" where
  "timeline_ok s p elems \<longleftrightarrow> GetSegmentTimeLine s = Some elems \<and> elems \<noteq> [] \<and>
     sorted (map ste_start_time elems) \<and> 0 < sb_timescale (multi_base s) \<and>
     GetLastSegmentNum s p = Inr (GetFirstSegmentNum s + int (length elems) - 1)"

lemma timeline_time:
  assumes "timeline_ok s p elems" "GetFirstSegmentNum s \<le> n" "n \<le> GetFirstSegmentNum s + int (length elems) - 1"
  shows "GetSegmentTimeUs s n = Inr (segment_time s elems n)"
  using assms
  by (auto simp: timeline_ok_def GetSegmentTimeUs_def scale_us_def segment_time_def GetFirstSegmentNum_def Let_def)

lemma segment_time_mono:
  assumes ok: "timeline_ok s p elems"
    and n: "GetFirstSegmentNum s \<le> m" "m \<le> n" "n \<le> GetFirstSegmentNum s + int (length elems) - 1"
  shows "segment_time s elems m \<le> segment_time s elems n"
proof -
  let ?f = "GetFirstSegmentNum s"
  have "map ste_start_time elems ! nat (m - ?f) \<le> map ste_start_time elems ! nat (n - ?f)"
    by (rule sorted_nth_mono) (use ok n in \<open>auto simp: timeline_ok_def\<close>)
  then have "ste_start_time (elems ! nat (m - ?f)) \<le> ste_start_time (elems ! nat (n - ?f))" using n by simp
  then show ?thesis
    unfolding segment_time_def
    by (intro ScaleLargeTimestamp_mono) (use ok in \<open>simp_all add: timeline_ok_def kMicrosPerSecond_def\<close>)
qed

lemma search_segment_ok:
  assumes ok: "timeline_ok s p elems" and f: "f = GetFirstSegmentNum s" and l: "l = f + int (length elems) - 1"
    and rng: "f \<le> low" "high \<le> l" "low \<le> high + 1"
    and below: "\<And>n. f \<le> n \<Longrightarrow> n < low \<Longrightarrow> segment_time s elems n < t"
    and above: "\<And>n. high < n \<Longrightarrow> n \<le> l \<Longrightarrow> t < segment_time s elems n"
  shows "(\<exists>m. search_segment s t low high = Inr (Inl m) \<and> f \<le> m \<and> m \<le> l \<and> segment_time s elems m = t) \<or>
    (\<exists>h. search_segment s t low high = Inr (Inr (h + 1, h)) \<and> f \<le> h + 1 \<and> h \<le> l \<and>
       (\<forall>n. f \<le> n \<and> n \<le> h \<longrightarrow> segment_time s elems n < t) \<and> (\<forall>n. h < n \<and> n \<le> l \<longrightarrow> t < segment_time s elems n))"
  using rng below above
proof (induction "nat (high - low + 1)" arbitrary: low high rule: less_induct)
  case less
  show ?case
  proof (cases "low \<le> high")
    case False
    then have "low = high + 1" using less.prems by simp
    with less.prems show ?thesis by (subst (1 2) search_segment.simps) auto
  next
    case True
    define mid where "mid = (low + high) sdiv 2"
    have mid: "low \<le> mid" "mid \<le> high" using sdiv_mid [OF True] by (simp_all add: mid_def)
    have tm: "GetSegmentTimeUs s mid = Inr (segment_time s elems mid)"
      using timeline_time [OF ok, of mid] mid less.prems f l by simp
    have unf: "search_segment s t low high =
        (if segment_time s elems mid < t then search_segment s t (mid + 1) high
         else if segment_time s elems mid > t then search_segment s t low (mid - 1)
         else Inr (Inl mid))"
      using True by (subst search_segment.simps) (simp add: Let_def mid_def [symmetric] tm)
    have mono: "segment_time s elems a \<le> segment_time s elems b" if "f \<le> a" "a \<le> b" "b \<le> l" for a b
      using segment_time_mono [OF ok, of a b] that f l by simp
    consider "segment_time s elems mid < t" | "t < segment_time s elems mid" | "segment_time s elems mid = t"
      by linarith
    then show ?thesis
    proof cases
      case 1
      have "segment_time s elems n < t" if "f \<le> n" "n < mid + 1" for n
        using mono [of n mid] that mid less.prems 1 by force
      moreover have "search_segment s t low high = search_segment s t (mid + 1) high" using unf 1 by simp
      ultimately show ?thesis using less.hyps [of high "mid + 1"] less.prems mid True by simp
    next
      case 2
      have "t < segment_time s elems n" if "mid - 1 < n" "n \<le> l" for n
        using mono [of mid n] that mid less.prems 2 by force
      moreover have "search_segment s t low high = search_segment s t low (mid - 1)" using unf 2 by simp
      ultimately show ?thesis using less.hyps [of "mid - 1" low] less.prems mid True by simp
    next
      case 3
      with unf mid less.prems show ?thesis by auto
    qed
  qed
qed

lemma GetSegmentNum_timeline:
  assumes ok: "timeline_ok s p elems" and f: "f = GetFirstSegmentNum s" and l: "l = f + int (length elems) - 1"
  shows "\<exists>n. GetSegmentNum s t p = Inr n \<and> f \<le> n \<and> n \<le> l \<and> (n = f \<or> segment_time s elems n \<le> t) \<and>
    (n = l \<or> segment_time s elems n = t \<or> t < segment_time s elems (n + 1))"
proof -
  have line: "GetSegmentTimeLine s = Some elems" and last: "GetLastSegmentNum s p = Inr l" and ne: "f \<le> l"
    using ok f l by (auto simp: timeline_ok_def Suc_le_eq)
  have num: "GetSegmentNum s t p = and_then (search_segment s t f l) (\<lambda>r.
      case r of Inl mid \<Rightarrow> Inr mid | Inr (low, high) \<Rightarrow> Inr (if low = f then low else high))"
    by (simp add: GetSegmentNum_def last line f [symmetric])
  from search_segment_ok [OF ok f l, of f l t] ne
  have "(\<exists>m. search_segment s t f l = Inr (Inl m) \<and> f \<le> m \<and> m \<le> l \<and> segment_time s elems m = t) \<or>
    (\<exists>h. search_segment s t f l = Inr (Inr (h + 1, h)) \<and> f \<le> h + 1 \<and> h \<le> l \<and>
       (\<forall>n. f \<le> n \<and> n \<le> h \<longrightarrow> segment_time s elems n < t) \<and> (\<forall>n. h < n \<and> n \<le> l \<longrightarrow> t < segment_time s elems n))"
    by simp
  then show ?thesis
  proof (elim disjE exE conjE)
    fix m assume "search_segment s t f l = Inr (Inl m)" "f \<le> m" "m \<le> l" "segment_time s elems m = t"
    then show ?thesis by (auto simp: num)
  next
    fix h assume h: "search_segment s t f l = Inr (Inr (h + 1, h))" "f \<le> h + 1" "h \<le> l"
      "\<forall>n. f \<le> n \<and> n \<le> h \<longrightarrow> segment_time s elems n < t" "\<forall>n. h < n \<and> n \<le> l \<longrightarrow> t < segment_time s elems n"
    show ?thesis
    proof (cases "h + 1 = f")
      case True
      then show ?thesis using h ne by (intro exI [of _ f]) (auto simp: num)
    next
      case False
      then show ?thesis using h by (intro exI [of _ h]) (auto simp: num intro: less_imp_le)
    qed
  qed
qed

section \<open>The chunk index satisfies the contract\<close>

text \<open>What the constructor of \<open>ChunkIndex\<close> checks; the times are unsigned.\<close>

definition chunks_ok :: "chunk_index \<Rightarrow> bool" where
  "chunks_ok c \<longleftrightarrow> ci_times_us c \<noteq> [] \<and> length (ci_sizes c) = length (ci_times_us c) \<and>
     length (ci_offsets c) = length (ci_times_us c) \<and> length (ci_durations_us c) = length (ci_times_us c) \<and>
     sorted (ci_times_us c) \<and> 0 \<le> hd (ci_times_us c)"

lemma lower_bound_less: "k < lower_bound xs t \<Longrightarrow> xs ! k < t"
  unfolding lower_bound_def by (metis nth_mem set_takeWhileD takeWhile_nth)

lemma lower_bound_stop: "lower_bound xs t < length xs \<Longrightarrow> t \<le> xs ! lower_bound xs t"
  unfolding lower_bound_def using nth_length_takeWhile [of "\<lambda>x. x < t" xs] by simp

lemma lower_bound_le: "lower_bound xs t \<le> length xs"
  by (simp add: lower_bound_def length_takeWhile_le)

lemma GetChunkIndex_ok:
  assumes ok: "chunks_ok c" and n_def: "n = nat (GetChunkIndex c t)"
  shows "0 \<le> GetChunkIndex c t" "n < length (ci_times_us c)"
    "n = 0 \<or> ci_times_us c ! n \<le> t"
    "Suc n = length (ci_times_us c) \<or> ci_times_us c ! n = t \<or> t < ci_times_us c ! Suc n"
proof -
  let ?ts = "ci_times_us c" and ?b = "lower_bound (ci_times_us c) t"
  have ts: "?ts \<noteq> []" "sorted ?ts" "0 \<le> ?ts ! 0" using ok by (auto simp: chunks_ok_def hd_conv_nth)
  have mono: "?ts ! i \<le> ?ts ! j" if "i \<le> j" "j < length ?ts" for i j using sorted_nth_mono ts(2) that by blast
  have len: "0 < length ?ts" using ts(1) by simp
  have pos: "?b = 0 \<Longrightarrow> \<not> t < 0 \<Longrightarrow> ?b \<noteq> length ?ts" using len by simp
  have n: "n = (if t < 0 then 0 else if ?b = length ?ts then ?b - 1 else if ?ts ! ?b = t then ?b else ?b - 1)"
    unfolding n_def GetChunkIndex_def Let_def by auto
  show "0 \<le> GetChunkIndex c t"
    using pos len lower_bound_le [of ?ts t] unfolding GetChunkIndex_def Let_def by (cases ?b) auto
  show "n < length ?ts" using n len lower_bound_le [of ?ts t] by (auto split: if_splits)
  have prev: "?b = 0 \<or> ?ts ! (?b - 1) < t" using lower_bound_less [of "?b - 1" ?ts t] by (cases "?b = 0") simp_all
  show "n = 0 \<or> ?ts ! n \<le> t" using n prev by (auto split: if_splits)
  show "Suc n = length ?ts \<or> ?ts ! n = t \<or> t < ?ts ! Suc n"
  proof (cases "t < 0")
    case True
    then have "n = 0" using n by simp
    moreover have "0 \<le> ?ts ! 1" if "1 < length ?ts" using mono [of 0 1] that ts(3) by simp
    ultimately show ?thesis using True len by (cases "length ?ts = 1") (auto intro: less_le_trans)
  next
    case False
    consider "?b = length ?ts" | "?b < length ?ts" "?ts ! ?b = t" | "?b < length ?ts" "t < ?ts ! ?b"
      using lower_bound_le [of ?ts t] lower_bound_stop [of ?ts t] by linarith
    then show ?thesis
    proof cases
      case 1
      then show ?thesis using n False len by simp
    next
      case 2
      then show ?thesis using n False by simp
    next
      case 3
      then have m: "n = ?b - 1" using n False by auto
      show ?thesis
      proof (cases "Suc n < length ?ts")
        case True
        have "?ts ! ?b \<le> ?ts ! Suc n" using mono [of ?b "Suc n"] m True by simp
        then show ?thesis using 3 by simp
      next
        case False
        moreover have "n < length ?ts" using m 3 by simp
        ultimately show ?thesis by simp
      qed
    qed
  qed
qed

fun index_ok :: "dash_index \<Rightarrow> int \<Rightarrow> bool" where
  "index_ok (Multi_Index s rep br) period_duration_us =
     (case GetSegmentTimeLine s of None \<Rightarrow> False | Some elems \<Rightarrow> timeline_ok s period_duration_us elems)"
| "index_ok (Single_Index u) period_duration_us = True"
| "index_ok (Wrapping_Index c uri) period_duration_us = chunks_ok c"

lemma index_ok_Multi:
  assumes "index_ok (Multi_Index s rep br) p"
  shows "\<exists>elems. timeline_ok s p elems \<and> elems \<noteq> [] \<and>
    GetLastSegmentNum s p = Inr (GetFirstSegmentNum s + int (length elems) - 1)"
  using assms by (simp add: timeline_ok_def split: option.splits)

lemma index_last:
  assumes "index_ok i p"
  shows "\<exists>l. Index_GetLastSegmentNum i p = Inr l \<and> Index_GetFirstSegmentNum i \<le> l"
proof (cases i)
  case (Multi_Index s rep br)
  with assms obtain elems :: "segment_timeline_element list" where "GetLastSegmentNum s p = Inr (GetFirstSegmentNum s + int (length elems) - 1)" "elems \<noteq> []"
    using index_ok_Multi [of s rep br p] by blast
  then show ?thesis using Multi_Index by (cases elems) auto
next
  case (Wrapping_Index c u)
  with assms show ?thesis by (cases "ci_times_us c") (auto simp: chunks_ok_def GetChunkCount_def)
qed simp

lemma index_times:
  assumes "index_ok i p" "Index_GetLastSegmentNum i p = Inr l" "Index_GetFirstSegmentNum i \<le> m" "m \<le> n" "n \<le> l"
  shows "\<exists>tm tn. Index_GetTimeUs i m = Inr tm \<and> Index_GetTimeUs i n = Inr tn \<and> tm \<le> tn"
proof (cases i)
  case (Multi_Index s rep br)
  with assms(1) obtain elems where e: "timeline_ok s p elems"
      "GetLastSegmentNum s p = Inr (GetFirstSegmentNum s + int (length elems) - 1)"
    using index_ok_Multi [of s rep br p] by blast
  with assms Multi_Index show ?thesis
    using timeline_time [OF e(1), of m] timeline_time [OF e(1), of n] segment_time_mono [OF e(1), of m n] by simp
next
  case (Wrapping_Index c u)
  with assms show ?thesis
    using sorted_nth_mono [of "ci_times_us c" "nat m" "nat n"]
    by (auto simp: chunks_ok_def GetChunkCount_def vector_at_def)
qed simp

lemma index_num:
  assumes ok: "index_ok i p" and l: "Index_GetLastSegmentNum i p = Inr l"
  shows "\<exists>n. Index_GetSegmentNum i t p = Inr n \<and> Index_GetFirstSegmentNum i \<le> n \<and> n \<le> l \<and>
      (n = Index_GetFirstSegmentNum i \<or> (\<exists>tn. Index_GetTimeUs i n = Inr tn \<and> tn \<le> t)) \<and>
      (n = l \<or> Index_GetTimeUs i n = Inr t \<or> (\<exists>tn. Index_GetTimeUs i (n + 1) = Inr tn \<and> t < tn))"
proof (cases i)
  case (Multi_Index s rep br)
  with ok obtain elems where e: "timeline_ok s p elems"
      "GetLastSegmentNum s p = Inr (GetFirstSegmentNum s + int (length elems) - 1)"
    using index_ok_Multi [of s rep br p] by blast
  obtain n where n: "GetSegmentNum s t p = Inr n" "GetFirstSegmentNum s \<le> n" "n \<le> l"
      "n = GetFirstSegmentNum s \<or> segment_time s elems n \<le> t"
      "n = l \<or> segment_time s elems n = t \<or> t < segment_time s elems (n + 1)"
    using GetSegmentNum_timeline [OF e(1) refl, of l t] e(2) l Multi_Index by auto
  moreover have "GetSegmentTimeUs s n = Inr (segment_time s elems n)"
    using timeline_time [OF e(1), of n] n e(2) l Multi_Index by simp
  moreover have "n = l \<or> GetSegmentTimeUs s (n + 1) = Inr (segment_time s elems (n + 1))"
    using timeline_time [OF e(1), of "n + 1"] n(2,3) e(2) l Multi_Index by (cases "n = l") simp_all
  ultimately show ?thesis using Multi_Index by auto
next
  case (Wrapping_Index c u)
  then have c: "chunks_ok c" and l': "l = int (length (ci_times_us c)) - 1"
    using ok l by (auto simp: chunks_ok_def GetChunkCount_def)
  let ?n = "GetChunkIndex c t"
  note g = GetChunkIndex_ok [OF c refl, of t]
  have "?n = 0 \<or> (\<exists>tn. vector_at (ci_times_us c) ?n = Inr tn \<and> tn \<le> t)"
    using g(1-3) by (auto simp: vector_at_def)
  moreover have "?n = l \<or> vector_at (ci_times_us c) ?n = Inr t \<or>
      (\<exists>tn. vector_at (ci_times_us c) (?n + 1) = Inr tn \<and> t < tn)"
    using g(1,2,4) l' by (auto simp: vector_at_def nat_add_distrib)
  ultimately show ?thesis using Wrapping_Index g(1,2) l' by auto
qed (use l in simp)

interpretation dash_ix: segment_index Index_GetSegmentNum Index_GetTimeUs Index_GetFirstSegmentNum
  Index_GetLastSegmentNum index_ok
proof
  fix i p
  assume ok: "index_ok i p"
  show "\<exists>l. Index_GetLastSegmentNum i p = Inr l \<and> Index_GetFirstSegmentNum i \<le> l" using ok by (rule index_last)
  fix l
  assume l: "Index_GetLastSegmentNum i p = Inr l"
  show "\<exists>n. Index_GetSegmentNum i t p = Inr n \<and> Index_GetFirstSegmentNum i \<le> n \<and> n \<le> l \<and>
      (n = Index_GetFirstSegmentNum i \<or> (\<exists>tn. Index_GetTimeUs i n = Inr tn \<and> tn \<le> t)) \<and>
      (n = l \<or> Index_GetTimeUs i n = Inr t \<or> (\<exists>tn. Index_GetTimeUs i (n + 1) = Inr tn \<and> t < tn))" for t
    using ok l by (rule index_num)
  show "\<exists>t. Index_GetTimeUs i n = Inr t" if "Index_GetFirstSegmentNum i \<le> n" "n \<le> l" for n
    using index_times [OF ok l that(1) order_refl that(2)] by blast
  show "tm \<le> tn" if "Index_GetFirstSegmentNum i \<le> m" "m \<le> n" "n \<le> l"
      "Index_GetTimeUs i m = Inr tm" "Index_GetTimeUs i n = Inr tn" for m n tm tn
    using index_times [OF ok l that(1-3)] that(4,5) by auto
qed

section \<open>Properties\<close>

text \<open>
  A live timeline of three segments at a timescale of 90 kHz, the numbers starting at 10, and a
  template without a timeline.
\<close>

definition demo_base :: multi_segment_base where
  "demo_base =
     \<lparr>sb_base_url = ''http://h/'', sb_initialization = None, sb_timescale = 90000, sb_presentation_time_offset = 180000,
      ms_start_number = 10, ms_duration = 0,
      ms_segment_timeline = Some [\<lparr>ste_start_time = 180000, ste_duration = 180000\<rparr>,
        \<lparr>ste_start_time = 360000, ste_duration = 180180\<rparr>, \<lparr>ste_start_time = 540180, ste_duration = 180000\<rparr>]\<rparr>"

definition demo_template :: url_template where
  "demo_template = \<lparr>ut_url_pieces = [''seg-'', ''.mp4''], ut_identifiers = [NUMBER_ID],
     ut_identifier_format_tags = [kDefaultFormatTag], ut_identifier_count = 1\<rparr>"

definition demo_timeline :: dash_index where
  "demo_timeline = Multi_Index (Segment_Template demo_base None (Some demo_template) None) ''v1'' 500000"

definition fixed_template :: "int \<Rightarrow> int \<Rightarrow> multi_segment" where
  "fixed_template duration timescale =
     Segment_Template (demo_base\<lparr>ms_duration := duration, sb_timescale := timescale,
       sb_presentation_time_offset := 0, ms_start_number := 1, ms_segment_timeline := None\<rparr>) None (Some demo_template) None"

lemma demo_timeline_ok: "index_ok demo_timeline 0" by code_simp

text \<open>
  C7. For every usable index, whichever class implements it, the segment number returned for a media
  time lies between the first and the last segment, its segment starts no later than the time
  (unless the time precedes the whole index) and the next segment starts after it (unless the time
  is exactly the start, or lies beyond the last segment's start).
\<close>

theorem segment_num_contains_time:
  assumes "index_ok i p" "Index_GetLastSegmentNum i p = Inr l"
  shows "\<exists>n. Index_GetSegmentNum i t p = Inr n \<and> Index_GetFirstSegmentNum i \<le> n \<and> n \<le> l \<and>
      (n = Index_GetFirstSegmentNum i \<or> (\<exists>tn. Index_GetTimeUs i n = Inr tn \<and> tn \<le> t)) \<and>
      (n = l \<or> Index_GetTimeUs i n = Inr t \<or> (\<exists>tn. Index_GetTimeUs i (n + 1) = Inr tn \<and> t < tn))"
  using assms by (rule dash_ix.num_contains)

lemma demo_timeline_last: "Index_GetLastSegmentNum demo_timeline 0 = Inr 12" by code_simp

theorem segment_num_contains_time_witness:
  "index_ok demo_timeline 0 \<and> Index_GetLastSegmentNum demo_timeline 0 = Inr 12 \<and>
   Index_GetSegmentNum demo_timeline 2500000 0 = Inr 11 \<and>
   (\<exists>n. Index_GetSegmentNum demo_timeline 2500000 0 = Inr n \<and> n \<le> 12)"
proof -
  have "Index_GetSegmentNum demo_timeline 2500000 0 = Inr 11" by code_simp
  then show ?thesis
    using segment_num_contains_time [OF demo_timeline_ok demo_timeline_last, of 2500000]
      demo_timeline_ok demo_timeline_last by blast
qed

text \<open>
  Segment numbers are monotone in the media time for every usable index: a later position never
  maps to an earlier segment, so playback that advances through an index never goes back.
\<close>

theorem segment_num_monotone:
  assumes "index_ok i p" "t \<le> t'" "Index_GetSegmentNum i t p = Inr n" "Index_GetSegmentNum i t' p = Inr n'"
  shows "n \<le> n'"
  using assms by (rule dash_ix.num_mono)

theorem segment_num_monotone_witness:
  "index_ok demo_timeline 0 \<and> Index_GetSegmentNum demo_timeline 100 0 = Inr 10 \<and>
   Index_GetSegmentNum demo_timeline 9000000 0 = Inr 12 \<and> (10::int) \<le> 12"
proof -
  have "Index_GetSegmentNum demo_timeline 100 0 = Inr 10" by code_simp
  moreover have "Index_GetSegmentNum demo_timeline 9000000 0 = Inr 12" by code_simp
  moreover note segment_num_monotone [OF demo_timeline_ok _ calculation]
  ultimately show ?thesis using demo_timeline_ok by simp
qed

text \<open>
  Round trip between numbers and times: the start time of a segment, asked back of a usable
  index, gives the segment's own number, when no neighbour starts at the same time.
\<close>

theorem segment_start_round_trip:
  assumes "index_ok i p" "Index_GetLastSegmentNum i p = Inr l" "Index_GetFirstSegmentNum i \<le> n" "n \<le> l"
    "Index_GetTimeUs i n = Inr t"
    "n = Index_GetFirstSegmentNum i \<or> (\<exists>tp. Index_GetTimeUs i (n - 1) = Inr tp \<and> tp < t)"
    "n = l \<or> (\<exists>tn. Index_GetTimeUs i (n + 1) = Inr tn \<and> t < tn)"
  shows "Index_GetSegmentNum i t p = Inr n"
  using assms by (rule dash_ix.num_of_start)

theorem segment_start_round_trip_witness:
  "Index_GetTimeUs demo_timeline 11 = Inr 2000000 \<and> Index_GetSegmentNum demo_timeline 2000000 0 = Inr 11"
proof -
  have t: "Index_GetTimeUs demo_timeline 10 = Inr 0" "Index_GetTimeUs demo_timeline 11 = Inr 2000000"
      "Index_GetTimeUs demo_timeline 12 = Inr 4002000" "Index_GetFirstSegmentNum demo_timeline = 10"
    by code_simp+
  show ?thesis
    using segment_start_round_trip [OF demo_timeline_ok demo_timeline_last, of 11 2000000] t by simp
qed

text \<open>
  A template without a timeline divides the time by a unit duration already rounded down to
  microseconds, while the start times are scaled exactly: for 1001/30000 s segments the segment
  number returned for 2001.96 s is 60001, and that segment only starts at 2002 s.
\<close>

theorem fixed_duration_drifts:
  "GetSegmentNum (fixed_template 1001 30000) 2001960000 0 = Inr 60001 \<and>
   GetSegmentTimeUs (fixed_template 1001 30000) 60001 = Inr 2002000000"
  by code_simp

text \<open>
  The interface documents an unknown period duration as \<open>kUnknownTimeUs\<close>, but the template
  recognises only 0: handed \<open>kUnknownTimeUs\<close> it reports a last segment before the first one.
\<close>

theorem unknown_duration_not_recognised:
  "GetLastSegmentNum (fixed_template 4 2) kUnknownTimeUs = Inr (GetFirstSegmentNum (fixed_template 4 2) - 1) \<and>
   GetLastSegmentNum (fixed_template 4 2) 0 = Inr kIndexUnbounded"
  by code_simp

text \<open>
  \<open>BuildUri\<close> takes the segment's time as a 32-bit integer: a timeline whose start times differ
  by \<open>2 ^ 32\<close> gives both segments the same \<open>$Time$\<close> URI.
\<close>

theorem template_time_truncated:
  "template_uri b t rep_id bitrate n (time + 2 ^ 32) = template_uri b t rep_id bitrate n time"
proof -
  have "narrow32 (time + 2 ^ 32) = narrow32 time"
    unfolding narrow32_def signed_take_bit_eq_iff_take_bit_eq take_bit_eq_mod by simp
  then show ?thesis by (simp add: template_uri_def split: option.split)
qed

end
