(* ===== verification/Uuid.thy ===== *)
theory Uuid
  imports Ndash_Prelude
begin

text \<open>
  UUIDs (\<open>util/uuid.cc\<close>), which name the content-protection schemes: 16 bytes, the all-zero value
  standing for none. The main theorem is the printing and parsing round trip. The loop of \<open>Parse\<close>
  works on what is left of the string from index \<open>i\<close>: the length is 36, so \<open>i < 35\<close> says that two
  characters or more are left.
\<close>

type_synonym uuid = "byte list"

definition uuid_ok :: "uuid \<Rightarrow> bool" where
  "uuid_ok u \<longleftrightarrow> length u = 16"

definition Uuid_empty :: uuid where
  "Uuid_empty = replicate 16 0"

definition kValidStringLength :: nat where
  "kValidStringLength = 32 + 4"

definition uuid_is_empty :: "uuid \<Rightarrow> bool" where
  "uuid_is_empty u \<longleftrightarrow> (\<forall>b \<in> set u. b = 0)"

section \<open>Parsing\<close>

definition tolower :: "char \<Rightarrow> char" where
  "tolower c = (let n = of_char c :: nat in if 65 \<le> n \<and> n \<le> 90 then char_of (n + 32) else c)"

definition hex_value :: "char \<Rightarrow> byte option" where
  "hex_value c =
     (let n = of_char c :: nat
      in if 48 \<le> n \<and> n \<le> 57 then Some (of_nat (n - 48))
         else if 97 \<le> n \<and> n \<le> 102 then Some (of_nat (n - 97 + 10))
         else None)"

fun uuid_loop :: "string \<Rightarrow> byte list \<Rightarrow> byte list option" where
  "uuid_loop (c # d # rest) bytes =
     (if length bytes < 16
      then (let c1 = tolower c
            in if c1 = CHR ''-'' then uuid_loop (d # rest) bytes
               else if c1 = CHR 0x00 then Some bytes
               else (case hex_value c1 of
                       None \<Rightarrow> None
                     | Some hi \<Rightarrow>
                         (case hex_value (tolower d) of
                            None \<Rightarrow> None
                          | Some lo \<Rightarrow> uuid_loop rest (bytes @ [push_bit 4 hi OR lo]))))
      else Some bytes)"
| "uuid_loop s bytes = Some bytes"

definition Uuid_Parse :: "string \<Rightarrow> uuid" where
  "Uuid_Parse s =
     (if length s \<noteq> kValidStringLength then Uuid_empty
      else (case uuid_loop s [] of
              None \<Rightarrow> Uuid_empty
            | Some bytes \<Rightarrow> if length bytes \<noteq> 16 then Uuid_empty else bytes))"

section \<open>Printing\<close>

definition hex_digit :: "byte \<Rightarrow> char" where
  "hex_digit n = ''0123456789ABCDEF'' ! unat n"

definition hex_byte :: "byte \<Rightarrow> string" where
  "hex_byte b = [hex_digit (drop_bit 4 b), hex_digit (b AND 15)]"

definition hex_bytes :: "byte list \<Rightarrow> string" where
  "hex_bytes bs = concat (map hex_byte bs)"

definition Uuid_ToString :: "uuid \<Rightarrow> string" where
  "Uuid_ToString u =
     hex_bytes (take 4 u) @ ''-'' @ hex_bytes (take 2 (drop 4 u)) @ ''-'' @ hex_bytes (take 2 (drop 6 u)) @
     ''-'' @ hex_bytes (take 2 (drop 8 u)) @ ''-'' @ hex_bytes (drop 10 u)"

section \<open>The two 64-bit halves\<close>

definition PackBytes :: "byte list \<Rightarrow> 64 word" where
  "PackBytes bytes = foldl (\<lambda>v b. push_bit 8 v OR ucast b) 0 (take 8 bytes)"

definition UnpackBytes :: "64 word \<Rightarrow> byte list" where
  "UnpackBytes packed = map (\<lambda>i. ucast (drop_bit (8 * (7 - i)) packed)) [0..<8]"

definition most_significant_bits :: "uuid \<Rightarrow> 64 word" where
  "most_significant_bits u = PackBytes u"

definition set_most_significant_bits :: "uuid \<Rightarrow> 64 word \<Rightarrow> uuid" where
  "set_most_significant_bits u v = UnpackBytes v @ drop 8 u"

definition least_significant_bits :: "uuid \<Rightarrow> 64 word" where
  "least_significant_bits u = PackBytes (drop 8 u)"

definition set_least_significant_bits :: "uuid \<Rightarrow> 64 word \<Rightarrow> uuid" where
  "set_least_significant_bits u v = take 8 u @ UnpackBytes v"

section \<open>Round trips\<close>

lemma less_16_cases:
  "n < 16 \<Longrightarrow> n \<in> {0, 1, 2, 3, 4, 5, 6, 7, 8, 9, 10, 11, 12, 13, 14, 15::nat}"
  by (simp, arith)

lemma hex_digit_value:
  assumes "n < 16"
  shows "hex_value (tolower (''0123456789ABCDEF'' ! n)) = Some (of_nat n) \<and>
    tolower (''0123456789ABCDEF'' ! n) \<notin> {CHR ''-'', CHR 0x00}"
  using less_16_cases [OF assms] by (elim insertE emptyE) (simp_all add: hex_value_def tolower_def char_of_def bit_Suc_0_iff)

lemma nibbles:
  fixes b :: byte
  shows "unat (drop_bit 4 b) < 16" "unat (b AND 15) < 16" "push_bit 4 (drop_bit 4 b) OR (b AND 15) = b"
proof -
  have "unat b < 256" using unsigned_less [of b] by simp
  then show "unat (drop_bit 4 b) < 16" unfolding unsigned_drop_bit_eq by (simp add: drop_bit_eq_div take_bit_nat_eq_self)
  have m: "b AND 15 = take_bit 4 b" by (simp add: take_bit_eq_mask mask_eq_exp_minus_1)
  show "unat (b AND 15) < 16" unfolding m unsigned_take_bit_eq by (simp add: take_bit_eq_mod)
  show "push_bit 4 (drop_bit 4 b) OR (b AND 15) = b" unfolding m by (rule bit_word_eqI) (auto simp: bit_simps)
qed

lemma uuid_loop_byte:
  "length acc < 16 \<Longrightarrow> uuid_loop (hex_byte b @ rest) acc = uuid_loop rest (acc @ [b])"
  using nibbles(3) [of b] hex_digit_value [OF nibbles(1) [of b]] hex_digit_value [OF nibbles(2) [of b]]
  by (simp add: hex_byte_def hex_digit_def)

lemma uuid_loop_bytes:
  "length acc + length bs \<le> 16 \<Longrightarrow> uuid_loop (hex_bytes bs @ rest) acc = uuid_loop rest (acc @ bs)"
  by (induction bs arbitrary: acc) (simp_all add: hex_bytes_def uuid_loop_byte)

lemma uuid_loop_dash:
  assumes "length acc < 16" "bs \<noteq> []"
  shows "uuid_loop (CHR ''-'' # hex_bytes bs @ rest) acc = uuid_loop (hex_bytes bs @ rest) acc"
proof -
  from assms(2) obtain b bs' where "bs = b # bs'" by (cases bs) auto
  moreover have "tolower CHR ''-'' = CHR ''-''" by code_simp
  ultimately show ?thesis using assms(1) by (simp add: hex_bytes_def hex_byte_def)
qed

lemma length_hex_bytes [simp]: "length (hex_bytes bs) = 2 * length bs"
  by (induction bs) (simp_all add: hex_bytes_def hex_byte_def)

text \<open>
  Printing a UUID and parsing the text gives the UUID back, for all 16-byte values.
\<close>

theorem uuid_round_trip:
  assumes "uuid_ok u"
  shows "Uuid_Parse (Uuid_ToString u) = u"
proof -
  have len: "length u = 16" using assms by (simp add: uuid_ok_def)
  have ne: "drop 10 u \<noteq> []" "take 2 (drop 4 u) \<noteq> []" "take 2 (drop 6 u) \<noteq> []" "take 2 (drop 8 u) \<noteq> []"
    using len by (auto simp: take_eq_Nil)
  have parts: "take 4 u @ take 2 (drop 4 u) @ take 2 (drop 6 u) @ take 2 (drop 8 u) @ drop 10 u = u"
  proof -
    have "take 2 (drop 8 u) @ drop 10 u = drop 8 u" using append_take_drop_id [of 2 "drop 8 u"] by simp
    moreover have "take 2 (drop 6 u) @ drop 8 u = drop 6 u" using append_take_drop_id [of 2 "drop 6 u"] by simp
    moreover have "take 2 (drop 4 u) @ drop 6 u = drop 4 u" using append_take_drop_id [of 2 "drop 4 u"] by simp
    ultimately show ?thesis by simp
  qed
  have last: "uuid_loop (hex_bytes (drop 10 u)) acc = uuid_loop [] (acc @ drop 10 u)" if "length acc \<le> 10" for acc
    using uuid_loop_bytes [of acc "drop 10 u" "[]"] that len by simp
  have dash: "uuid_loop (CHR ''-'' # hex_bytes (drop 10 u)) acc = uuid_loop (hex_bytes (drop 10 u)) acc"
    if "length acc < 16" for acc using uuid_loop_dash [OF that ne(1), of "[]"] by simp
  have "uuid_loop (Uuid_ToString u) [] = Some u"
    using len ne by (simp add: Uuid_ToString_def uuid_loop_bytes uuid_loop_dash dash last parts)
  moreover have "length (Uuid_ToString u) = 36" using len by (simp add: Uuid_ToString_def)
  ultimately show ?thesis using len by (simp add: Uuid_Parse_def kValidStringLength_def)
qed

theorem uuid_round_trip_witness:
  "uuid_ok (map of_nat [0..<16]) \<and>
   Uuid_Parse ''00010203-0405-0607-0809-0A0B0C0D0E0F'' = map of_nat [0..<16]"
proof -
  have "Uuid_ToString (map of_nat [0..<16]) = ''00010203-0405-0607-0809-0A0B0C0D0E0F''" by code_simp
  moreover have "uuid_ok (map of_nat [0..<16])" by code_simp
  ultimately show ?thesis using uuid_round_trip [of "map of_nat [0..<16]"] by simp
qed

lemma bit_pack_step:
  fixes v :: "64 word" and b :: byte
  assumes "n < 64"
  shows "bit (push_bit 8 v OR ucast b) n \<longleftrightarrow> (if n < 8 then bit b n else bit v (n - 8))"
  using assms bit_imp_le_length [of b n] by (auto simp: bit_simps)

lemma bit_pack:
  "n < 64 \<Longrightarrow> bit (foldl (\<lambda>v b. push_bit 8 v OR ucast b) (0 :: 64 word) bs) n \<longleftrightarrow>
     n < 8 * length bs \<and> bit ((bs :: byte list) ! (length bs - 1 - n div 8)) (n mod 8)"
proof (induction bs arbitrary: n rule: rev_induct)
  case (snoc b bs)
  show ?case
  proof (cases "n < 8")
    case False
    then have "n mod 8 = (n - 8) mod 8" "n div 8 = Suc ((n - 8) div 8)" by (simp_all add: le_mod_geq le_div_geq)
    moreover have "n - 8 < 8 * length bs \<longleftrightarrow> n < 8 + 8 * length bs" using False by arith
    ultimately show ?thesis using False snoc by (auto simp: bit_pack_step nth_append)
  qed (use snoc.prems in \<open>simp add: bit_pack_step\<close>)
qed simp

lemma PackBytes_Unpack: "PackBytes (UnpackBytes v @ rest) = v"
proof (rule bit_word_eqI)
  fix n assume "n < LENGTH(64)"
  then have n: "n < 64" by simp
  then have d: "n div 8 < 8" "8 * (n div 8) + n mod 8 = n" by simp_all
  have "PackBytes (UnpackBytes v @ rest) = foldl (\<lambda>v b. push_bit 8 v OR ucast b) 0 (UnpackBytes v)"
    by (simp add: PackBytes_def UnpackBytes_def)
  moreover have "UnpackBytes v ! (7 - n div 8) = ucast (drop_bit (8 * (n div 8)) v)"
    using d by (simp add: UnpackBytes_def)
  moreover have "length (UnpackBytes v) = 8" by (simp add: UnpackBytes_def)
  ultimately show "bit (PackBytes (UnpackBytes v @ rest)) n = bit v n"
    using n d by (simp add: bit_pack bit_simps)
qed

text \<open>
  The two 64-bit halves of a UUID can be set and read back independently: each accessor returns
  what its setter stored, and setting one half leaves the other unchanged.
\<close>

theorem uuid_halves:
  assumes "uuid_ok u"
  shows "most_significant_bits (set_most_significant_bits u v) = v \<and>
    least_significant_bits (set_most_significant_bits u v) = least_significant_bits u \<and>
    least_significant_bits (set_least_significant_bits u v) = v \<and>
    most_significant_bits (set_least_significant_bits u v) = most_significant_bits u"
proof -
  have len: "length u = 16" "length (UnpackBytes v) = 8"
    using assms by (simp_all add: uuid_ok_def UnpackBytes_def)
  have p: "PackBytes (UnpackBytes v) = v" using PackBytes_Unpack [of v "[]"] by simp
  show ?thesis
    using len p
    by (simp add: most_significant_bits_def least_significant_bits_def set_most_significant_bits_def
        set_least_significant_bits_def PackBytes_Unpack) (simp add: PackBytes_def min_absorb1)
qed

theorem uuid_halves_witness:
  "uuid_ok Uuid_empty \<and> most_significant_bits (set_most_significant_bits Uuid_empty 0x1234) = 0x1234"
proof -
  have "uuid_ok Uuid_empty" by (simp add: uuid_ok_def Uuid_empty_def)
  then show ?thesis using uuid_halves [of Uuid_empty "0x1234"] by blast
qed

end
