(* ===== verification/Content_Protections.thy ===== *)
theory Content_Protections
  imports Uuid "HOL-Library.List_Lexorder" "HOL-Library.Char_ord"
begin

text \<open>
  Content protection (\<open>mpd/content_protection.cc\<close>, \<open>mpd/content_protections_builder.cc\<close>,
  \<open>drm/scheme_init_data.cc\<close>, \<open>drm/drm_init_data.cc\<close>): the DRM descriptors of an adaptation set and of
  its representations, and the builder that merges them. The lemmas show that no two descriptors of
  one list share a scheme, that the merged list holds exactly the descriptors of both levels, and
  what the comparison of two representations decides.

  The copies of \<open>SchemeInitData\<close> are values, so its copy constructor is the identity. \<open>std::sort\<close> by
  scheme is \<open>sort_key\<close>: the schemes of a list are distinct, so the sorted list is unique.
\<close>

section \<open>State\<close>

record scheme_init_data =
  sid_mime_type :: string
  sid_data :: "byte list"

record content_protection =
  cp_scheme_uri_id :: string
  cp_uuid :: uuid
  cp_data :: "scheme_init_data option"

record content_protections_builder =
  cpb_adaptation_set_protections :: "content_protection list option"
  cpb_representation_protections :: "content_protection list option"
  cpb_current_representation_protections :: "content_protection list option"

text \<open>Scheme data by UUID, \<open>std::map\<close>; or one value for every scheme.\<close>

datatype drm_init_data =
    Mapped_Init_Data "uuid \<rightharpoonup> scheme_init_data"
  | Universal_Init_Data "scheme_init_data option"

section \<open>DRM init data\<close>

fun DrmInitData_Get :: "drm_init_data \<Rightarrow> uuid \<Rightarrow> scheme_init_data option" where
  "DrmInitData_Get (Mapped_Init_Data m) scheme_uuid = m scheme_uuid"
| "DrmInitData_Get (Universal_Init_Data d) scheme_uuid = d"

definition MappedDrmInitData_Put ::
  "(uuid \<rightharpoonup> scheme_init_data) \<Rightarrow> uuid \<Rightarrow> scheme_init_data \<Rightarrow> (uuid \<rightharpoonup> scheme_init_data)" where
  "MappedDrmInitData_Put m scheme_uuid d = m(scheme_uuid \<mapsto> d)"

section \<open>Equality of descriptors\<close>

definition SchemeInitData_eq :: "scheme_init_data \<Rightarrow> scheme_init_data \<Rightarrow> bool" where
  "SchemeInitData_eq a b \<longleftrightarrow> sid_mime_type a = sid_mime_type b \<and>
     length (sid_data a) = length (sid_data b) \<and> sid_data a = sid_data b"

definition ContentProtection_eq :: "content_protection \<Rightarrow> content_protection \<Rightarrow> bool" where
  "ContentProtection_eq a b \<longleftrightarrow>
     (case (cp_data a, cp_data b) of
        (None, None) \<Rightarrow> True
      | (Some x, Some y) \<Rightarrow> SchemeInitData_eq x y
      | _ \<Rightarrow> False) \<and>
     cp_scheme_uri_id a = cp_scheme_uri_id b \<and> cp_uuid a = cp_uuid b"

lemma SchemeInitData_eq_iff [simp]: "SchemeInitData_eq a b \<longleftrightarrow> a = b"
  by (cases a; cases b) (auto simp: SchemeInitData_eq_def)

lemma ContentProtection_eq_iff [simp]: "ContentProtection_eq a b \<longleftrightarrow> a = b"
  by (cases a; cases b) (auto simp: ContentProtection_eq_def split: option.splits)

section \<open>The builder\<close>

definition ContentProtectionsBuilder_new :: content_protections_builder where
  "ContentProtectionsBuilder_new =
     \<lparr>cpb_adaptation_set_protections = None, cpb_representation_protections = None,
      cpb_current_representation_protections = None\<rparr>"

definition MaybeAddContentProtection ::
  "content_protection list \<Rightarrow> content_protection \<Rightarrow> content_protection list \<times> bool" where
  "MaybeAddContentProtection l content_protection =
     (if \<exists>cp \<in> set l. ContentProtection_eq cp content_protection then (l, True)
      else if \<exists>cp \<in> set l. cp_scheme_uri_id cp = cp_scheme_uri_id content_protection then (l, False)
      else (l @ [content_protection], True))"

definition list_or_new :: "content_protection list option \<Rightarrow> content_protection list" where
  "list_or_new x = (case x of None \<Rightarrow> [] | Some l \<Rightarrow> l)"

definition AddAdaptationSetProtection ::
  "content_protections_builder \<Rightarrow> content_protection \<Rightarrow> content_protections_builder \<times> bool" where
  "AddAdaptationSetProtection b content_protection =
     (let (l, r) = MaybeAddContentProtection (list_or_new (cpb_adaptation_set_protections b)) content_protection
      in (b\<lparr>cpb_adaptation_set_protections := Some l\<rparr>, r))"

definition AddRepresentationProtection ::
  "content_protections_builder \<Rightarrow> content_protection \<Rightarrow> content_protections_builder \<times> bool" where
  "AddRepresentationProtection b content_protection =
     (let (l, r) = MaybeAddContentProtection
                     (list_or_new (cpb_current_representation_protections b)) content_protection
      in (b\<lparr>cpb_current_representation_protections := Some l\<rparr>, r))"

text \<open>
  \<open>std::equal\<close> with one end: it reads the second list as far as the first one goes, past its end if
  need be.
\<close>

fun std_equal :: "content_protection list \<Rightarrow> content_protection list \<Rightarrow> bool result" where
  "std_equal [] ys = Inr True"
| "std_equal (x # xs) [] = Inl Undefined_access"
| "std_equal (x # xs) (y # ys) = (if ContentProtection_eq x y then std_equal xs ys else Inr False)"

definition sort_protections :: "content_protection list \<Rightarrow> content_protection list" where
  "sort_protections l = sort_key cp_scheme_uri_id l"

definition EndRepresentation ::
  "content_protections_builder \<Rightarrow> (content_protections_builder \<times> bool) result" where
  "EndRepresentation b =
     (let done = b\<lparr>cpb_current_representation_protections := None\<rparr>
      in case (cpb_representation_protections b, cpb_current_representation_protections b) of
           (Some reps, Some current) \<Rightarrow>
             and_then (std_equal (sort_protections current) reps) (\<lambda>is_consistent. Inr (done, is_consistent))
         | (None, Some current) \<Rightarrow>
             Inr (done\<lparr>cpb_representation_protections := Some (sort_protections current)\<rparr>, True)
         | (Some reps, None) \<Rightarrow> Inr (done, False)
         | (None, None) \<Rightarrow> Inr (done, True))"

fun bubble_up ::
  "content_protection list \<Rightarrow> content_protection list \<Rightarrow> bool \<Rightarrow> content_protection list \<times> bool" where
  "bubble_up l [] is_consistent = (l, is_consistent)"
| "bubble_up l (cp # cps) is_consistent =
     (let (l', r) = MaybeAddContentProtection l cp in bubble_up l' cps (is_consistent \<and> r))"

definition Build :: "content_protections_builder \<Rightarrow> content_protection list option" where
  "Build b =
     (case (cpb_adaptation_set_protections b, cpb_representation_protections b) of
        (None, reps) \<Rightarrow> reps
      | (sets, None) \<Rightarrow> sets
      | (Some sets, Some reps) \<Rightarrow>
          (let (l, is_consistent) = bubble_up sets reps True in if is_consistent then Some l else None))"

section \<open>Invariant\<close>

definition distinct_schemes :: "content_protection list \<Rightarrow> bool" where
  "distinct_schemes l \<longleftrightarrow> distinct (map cp_scheme_uri_id l)"

definition builder_ok :: "content_protections_builder \<Rightarrow> bool" where
  "builder_ok b \<longleftrightarrow> distinct_schemes (list_or_new (cpb_adaptation_set_protections b)) \<and>
     distinct_schemes (list_or_new (cpb_representation_protections b)) \<and>
     sorted (map cp_scheme_uri_id (list_or_new (cpb_representation_protections b))) \<and>
     distinct_schemes (list_or_new (cpb_current_representation_protections b))"

lemma distinct_schemes_inj:
  "distinct_schemes l \<Longrightarrow> a \<in> set l \<Longrightarrow> b \<in> set l \<Longrightarrow> cp_scheme_uri_id a = cp_scheme_uri_id b \<Longrightarrow> a = b"
  unfolding distinct_schemes_def distinct_map inj_on_def by blast

lemma MaybeAdd_distinct:
  "distinct_schemes l \<Longrightarrow> distinct_schemes (fst (MaybeAddContentProtection l cp))"
  by (auto simp: MaybeAddContentProtection_def distinct_schemes_def)

lemma MaybeAdd_true:
  "snd (MaybeAddContentProtection l cp) \<Longrightarrow> set (fst (MaybeAddContentProtection l cp)) = insert cp (set l)"
  by (auto simp: MaybeAddContentProtection_def split: if_splits)

lemma MaybeAdd_iff:
  "snd (MaybeAddContentProtection l cp) \<longleftrightarrow>
     cp \<in> set l \<or> (\<forall>a \<in> set l. cp_scheme_uri_id a \<noteq> cp_scheme_uri_id cp)"
  by (auto simp: MaybeAddContentProtection_def)

lemma list_or_new_simps [simp]: "list_or_new None = []" "list_or_new (Some l) = l"
  by (simp_all add: list_or_new_def)

lemma distinct_schemes_sort [simp]: "distinct_schemes (sort_protections l) \<longleftrightarrow> distinct_schemes l"
  by (simp add: distinct_schemes_def sort_protections_def distinct_map)

lemma builder_ok_new: "builder_ok ContentProtectionsBuilder_new"
  by (simp add: builder_ok_def ContentProtectionsBuilder_new_def distinct_schemes_def)

lemma builder_ok_add:
  "builder_ok b \<Longrightarrow> builder_ok (fst (AddAdaptationSetProtection b cp))"
  "builder_ok b \<Longrightarrow> builder_ok (fst (AddRepresentationProtection b cp))"
  using MaybeAdd_distinct
  by (auto simp: builder_ok_def AddAdaptationSetProtection_def AddRepresentationProtection_def
      distinct_schemes_def [of "[]"] split_beta)

lemma builder_ok_end: "builder_ok b \<Longrightarrow> EndRepresentation b = Inr (b', r) \<Longrightarrow> builder_ok b'"
  by (auto simp: builder_ok_def EndRepresentation_def and_then_Inr Let_def sort_protections_def [of "_ :: _ list"]
      distinct_schemes_def distinct_map split: option.splits)

lemma bubble_up_spec:
  assumes "distinct_schemes l" "bubble_up l cps c = (l', c')"
  shows "distinct_schemes l' \<and> set l \<subseteq> set l' \<and> (c' \<longrightarrow> set l' = set l \<union> set cps)"
  using assms
proof (induction cps arbitrary: l c)
  case (Cons cp cps)
  obtain m r where m: "MaybeAddContentProtection l cp = (m, r)" by (cases "MaybeAddContentProtection l cp")
  have d: "distinct_schemes m" using MaybeAdd_distinct [of l cp] Cons.prems(1) m by simp
  have step: "bubble_up m cps (c \<and> r) = (l', c')" using Cons.prems(2) m by simp
  have keep: "c' \<longrightarrow> c \<and> r" using step
    by (induction cps arbitrary: m c r) (auto simp: split_beta)
  have "set l \<subseteq> set m" using m by (auto simp: MaybeAddContentProtection_def split: if_splits)
  moreover have "r \<longrightarrow> set m = insert cp (set l)" using MaybeAdd_true [of l cp] m by simp
  ultimately show ?case using Cons.IH [OF d step] keep by auto
qed simp

lemma bubble_up_consistent:
  assumes "distinct_schemes l" "distinct_schemes cps"
  shows "snd (bubble_up l cps c) \<longleftrightarrow> c \<and> (\<forall>a \<in> set l. \<forall>b \<in> set cps. cp_scheme_uri_id a = cp_scheme_uri_id b \<longrightarrow> a = b)"
  using assms
proof (induction cps arbitrary: l c)
  case (Cons cp cps)
  let ?m = "MaybeAddContentProtection l cp"
  have d: "distinct_schemes (fst ?m)" "distinct_schemes cps"
    using MaybeAdd_distinct Cons.prems by (auto simp: distinct_schemes_def)
  have IH: "snd (bubble_up l (cp # cps) c) \<longleftrightarrow> (c \<and> snd ?m) \<and>
      (\<forall>a \<in> set (fst ?m). \<forall>b \<in> set cps. cp_scheme_uri_id a = cp_scheme_uri_id b \<longrightarrow> a = b)"
    using Cons.IH [OF d, of "c \<and> snd ?m"] by (simp add: split_beta)
  have new: "\<forall>b \<in> set cps. cp_scheme_uri_id cp \<noteq> cp_scheme_uri_id b"
    using Cons.prems(2) by (auto simp: distinct_schemes_def)
  have ok: "snd ?m \<longleftrightarrow> (\<forall>a \<in> set l. cp_scheme_uri_id a = cp_scheme_uri_id cp \<longrightarrow> a = cp)"
    unfolding MaybeAdd_iff using distinct_schemes_inj [OF Cons.prems(1)] by blast
  have set: "snd ?m \<Longrightarrow> set (fst ?m) = insert cp (set l)" by (rule MaybeAdd_true)
  show ?case
  proof (cases "snd ?m")
    case True
    then show ?thesis using IH ok set [OF True] new by auto
  next
    case False
    then show ?thesis using IH ok by auto
  qed
qed simp

section \<open>Comparing representations\<close>

lemma std_equal_same_length: "length xs = length ys \<Longrightarrow> std_equal xs ys = Inr (xs = ys)"
  by (induction xs ys rule: list_induct2) auto

lemma std_equal_append: "std_equal xs (xs @ ys) = Inr True" "std_equal (xs @ y # ys) xs = Inl Undefined_access"
  by (induction xs) auto

lemma sort_protections_unique:
  assumes "distinct_schemes a" "distinct_schemes b" "sorted (map cp_scheme_uri_id b)"
  shows "sort_protections a = b \<longleftrightarrow> set a = set b"
proof
  assume "set a = set b"
  have s: "sorted (map cp_scheme_uri_id (sort_protections a))" by (simp add: sort_protections_def)
  have "map cp_scheme_uri_id (sort_protections a) = map cp_scheme_uri_id b"
    by (rule sorted_distinct_set_unique)
      (use s assms \<open>set a = set b\<close> in \<open>auto simp: distinct_schemes_def sort_protections_def distinct_map\<close>)
  moreover have "set (sort_protections a) = set b" using \<open>set a = set b\<close> by (simp add: sort_protections_def)
  ultimately show "sort_protections a = b"
    using map_inj_on [of cp_scheme_uri_id "sort_protections a" b] assms(2)
    by (simp add: distinct_schemes_def distinct_map)
qed (auto simp: sort_protections_def)

section \<open>Properties\<close>

text \<open>The states the parser can bring a builder into.\<close>

inductive builder_reach :: "content_protections_builder \<Rightarrow> bool" where
  reach_new: "builder_reach ContentProtectionsBuilder_new"
| reach_set: "builder_reach b \<Longrightarrow> builder_reach (fst (AddAdaptationSetProtection b cp))"
| reach_rep: "builder_reach b \<Longrightarrow> builder_reach (fst (AddRepresentationProtection b cp))"
| reach_end: "builder_reach b \<Longrightarrow> EndRepresentation b = Inr (b', r) \<Longrightarrow> builder_reach b'"

lemma builder_reach_ok: "builder_reach b \<Longrightarrow> builder_ok b"
  by (induction rule: builder_reach.induct) (auto intro: builder_ok_new builder_ok_add builder_ok_end)

definition demo_protection :: "string \<Rightarrow> string \<Rightarrow> content_protection" where
  "demo_protection scheme mime =
     \<lparr>cp_scheme_uri_id = scheme, cp_uuid = Uuid_empty, cp_data = Some \<lparr>sid_mime_type = mime, sid_data = [1]\<rparr>\<rparr>"

definition demo_builder :: content_protections_builder where
  "demo_builder = fst (AddRepresentationProtection (fst (AddAdaptationSetProtection
     ContentProtectionsBuilder_new (demo_protection ''b'' ''m''))) (demo_protection ''a'' ''m''))"

lemma demo_builder_reach: "builder_reach demo_builder"
  unfolding demo_builder_def by (intro builder_reach.intros)

text \<open>
  Merging the two levels: from every state the parser can reach, \<open>Build\<close> returns a list exactly when
  some level has descriptors and the two levels do not give one scheme different data; the list then
  holds the descriptors of both levels and no scheme twice.
\<close>

theorem build_merges_levels:
  assumes "builder_reach b"
  defines "sets \<equiv> list_or_new (cpb_adaptation_set_protections b)"
    and "reps \<equiv> list_or_new (cpb_representation_protections b)"
  shows "(case Build b of
      Some l \<Rightarrow> set l = set sets \<union> set reps \<and> distinct_schemes l
    | None \<Rightarrow> cpb_adaptation_set_protections b = None \<and> cpb_representation_protections b = None \<or>
        (\<exists>x y. x \<in> set sets \<and> y \<in> set reps \<and> cp_scheme_uri_id x = cp_scheme_uri_id y \<and> x \<noteq> y))"
proof -
  have ok: "distinct_schemes sets" "distinct_schemes reps"
    using builder_reach_ok [OF assms(1)] by (simp_all add: builder_ok_def sets_def reps_def)
  obtain l c where bu: "bubble_up sets reps True = (l, c)" by (cases "bubble_up sets reps True")
  show ?thesis
  proof (cases "cpb_adaptation_set_protections b = None \<or> cpb_representation_protections b = None")
    case True
    then show ?thesis using ok by (auto simp: Build_def sets_def reps_def split: option.splits)
  next
    case False
    then have "Build b = (if c then Some l else None)"
      using bu by (auto simp: Build_def sets_def reps_def)
    then show ?thesis
      using bubble_up_spec [OF ok(1) bu] bubble_up_consistent [OF ok, of True] bu by auto
  qed
qed

theorem build_merges_levels_witness:
  "\<exists>b. EndRepresentation demo_builder = Inr (b, True) \<and>
     Build b = Some [demo_protection ''b'' ''m'', demo_protection ''a'' ''m''] \<and>
     distinct_schemes [demo_protection ''b'' ''m'', demo_protection ''a'' ''m'']"
proof -
  obtain b where b: "EndRepresentation demo_builder = Inr (b, True)"
    by (simp add: EndRepresentation_def demo_builder_def ContentProtectionsBuilder_new_def
        AddRepresentationProtection_def AddAdaptationSetProtection_def split_beta)
  then have "Build b = Some [demo_protection ''b'' ''m'', demo_protection ''a'' ''m'']"
    by (auto simp: EndRepresentation_def demo_builder_def ContentProtectionsBuilder_new_def Build_def
        AddRepresentationProtection_def AddAdaptationSetProtection_def MaybeAddContentProtection_def
        demo_protection_def sort_protections_def)
  then show ?thesis using build_merges_levels [OF reach_end [OF demo_builder_reach b]] b by auto
qed

text \<open>
  Comparing a further representation with the first protected one: when both list equally many
  descriptors, \<open>EndRepresentation\<close> returns true exactly when they are the same ones, in whichever
  order the manifest has them, and it keeps the first representation's list.
\<close>

theorem end_representation_compares:
  assumes "builder_reach b" "cpb_representation_protections b = Some reps"
    "cpb_current_representation_protections b = Some current" "length current = length reps"
  shows "EndRepresentation b =
    Inr (b\<lparr>cpb_current_representation_protections := None\<rparr>, set current = set reps)"
proof -
  have ok: "distinct_schemes current" "distinct_schemes reps" "sorted (map cp_scheme_uri_id reps)"
    using builder_reach_ok [OF assms(1)] assms(2,3) by (simp_all add: builder_ok_def)
  have "length (sort_protections current) = length reps" using assms(4) by (simp add: sort_protections_def)
  then show ?thesis
    using assms(2,3) sort_protections_unique [OF ok]
    by (simp add: EndRepresentation_def std_equal_same_length)
qed

definition demo_two :: "content_protections_builder result" where
  "demo_two = and_then (EndRepresentation demo_builder) (\<lambda>(b, r).
     Inr (fst (AddRepresentationProtection b (demo_protection ''a'' ''m''))))"

theorem end_representation_compares_witness:
  "\<exists>b. demo_two = Inr b \<and> builder_reach b \<and>
     EndRepresentation b = Inr (b\<lparr>cpb_current_representation_protections := None\<rparr>, True)"
proof -
  let ?p = "demo_protection ''a'' ''m''"
  obtain b where b: "EndRepresentation demo_builder = Inr (b, True)"
      "cpb_representation_protections b = Some [?p]" "cpb_current_representation_protections b = None"
    by (simp add: EndRepresentation_def demo_builder_def ContentProtectionsBuilder_new_def sort_protections_def
        AddRepresentationProtection_def AddAdaptationSetProtection_def MaybeAddContentProtection_def split_beta)
  let ?c = "fst (AddRepresentationProtection b ?p)"
  have c: "cpb_representation_protections ?c = Some [?p]" "cpb_current_representation_protections ?c = Some [?p]"
    using b by (simp_all add: AddRepresentationProtection_def MaybeAddContentProtection_def)
  have r: "builder_reach ?c" by (intro reach_rep reach_end [OF demo_builder_reach b(1)])
  from end_representation_compares [OF r c] b(1) r show ?thesis by (simp add: demo_two_def)
qed

text \<open>
  The comparison stops where the second representation's list stops, so one that lists only a
  leading part of the first one's descriptors counts as consistent, and one that lists the same
  descriptors and more reads past the end of the first list.
\<close>

theorem end_representation_prefix:
  assumes "builder_reach b" "cpb_representation_protections b = Some reps"
    "cpb_current_representation_protections b = Some current"
  shows "(sort_protections current = take n reps \<longrightarrow>
      EndRepresentation b = Inr (b\<lparr>cpb_current_representation_protections := None\<rparr>, True)) \<and>
    (sort_protections current = reps @ extra \<and> extra \<noteq> [] \<longrightarrow> EndRepresentation b = Inl Undefined_access)"
proof (intro conjI impI)
  assume "sort_protections current = take n reps"
  then show "EndRepresentation b = Inr (b\<lparr>cpb_current_representation_protections := None\<rparr>, True)"
    using assms(2,3) std_equal_append(1) [of "take n reps" "drop n reps"] by (simp add: EndRepresentation_def)
next
  assume "sort_protections current = reps @ extra \<and> extra \<noteq> []"
  then show "EndRepresentation b = Inl Undefined_access"
    using assms(2,3) std_equal_append(2) [of reps "hd extra" "tl extra"] by (simp add: EndRepresentation_def)
qed

theorem end_representation_prefix_witness:
  "\<exists>b. builder_reach b \<and> EndRepresentation b = Inl Undefined_access"
proof -
  let ?p = "demo_protection ''a'' ''m''" and ?q = "demo_protection ''b'' ''m''"
  obtain b where b: "EndRepresentation demo_builder = Inr (b, True)"
      "cpb_representation_protections b = Some [?p]" "cpb_current_representation_protections b = None"
    by (simp add: EndRepresentation_def demo_builder_def ContentProtectionsBuilder_new_def sort_protections_def
        AddRepresentationProtection_def AddAdaptationSetProtection_def MaybeAddContentProtection_def split_beta)
  let ?c = "fst (AddRepresentationProtection (fst (AddRepresentationProtection b ?p)) ?q)"
  have c: "cpb_representation_protections ?c = Some [?p]" "cpb_current_representation_protections ?c = Some [?p, ?q]"
    using b by (simp_all add: AddRepresentationProtection_def MaybeAddContentProtection_def demo_protection_def)
  have r: "builder_reach ?c" by (intro reach_rep reach_end [OF demo_builder_reach b(1)])
  have "sort_protections [?p, ?q] = [?p] @ [?q]" by (simp add: sort_protections_def demo_protection_def)
  with end_representation_prefix [OF r c, of 0 "[?q]"] r show ?thesis by blast
qed

end
