(* ===== verification/Presentation.thy ===== *)
theory Presentation
  imports Segment_Index Content_Protections
begin

text \<open>
  The parsed manifest (\<open>mpd/media_presentation_description.cc\<close>, \<open>period.cc\<close>, \<open>adaptation_set.cc\<close>,
  \<open>representation.cc\<close>, \<open>single_segment_representation.cc\<close>, \<open>multi_segment_representation.cc\<close>,
  \<open>descriptor_type.cc\<close>, \<open>util/format.cc\<close>): a presentation is a list of periods, a period a list of
  adaptation sets, an adaptation set a list of representations of one kind of media. The lemmas show
  how the periods divide the presentation and which representations bring their own segment index.

  \<open>GetIndex\<close> of a multi-segment representation is the representation itself; here it is the
  \<open>Multi_Index\<close> value that holds what the index operations read of it.
\<close>

section \<open>State\<close>

record format =
  fmt_id :: string
  fmt_mime_type :: string
  fmt_width :: int
  fmt_height :: int
  fmt_frame_rate :: ieee
  fmt_max_playout_rate :: int
  fmt_audio_channels :: int
  fmt_audio_sampling_rate :: int
  fmt_bitrate :: int
  fmt_language :: string
  fmt_codecs :: string

record descriptor_type =
  dt_scheme_id_uri :: string
  dt_value :: string
  dt_id :: string

datatype segment_base_ref = Single_Base single_segment_base | Multi_Base multi_segment

record representation =
  rep_format :: format
  rep_initialization_uri :: "ranged_uri option"
  rep_content_id :: string
  rep_revision_id :: int
  rep_cache_key :: string
  rep_presentation_timeoffset_us :: int
  rep_supplemental_properties :: "descriptor_type list"
  rep_essential_properties :: "descriptor_type list"
  rep_segment_base :: segment_base_ref
  rep_index_uri :: "ranged_uri option"
  rep_index :: "dash_index option"

datatype adaptation_type = UNKNOWN | VIDEO | AUDIO | TEXT

record adaptation_set =
  as_id :: int
  as_type :: adaptation_type
  as_representations :: "representation list"
  as_content_protections :: "content_protection list"
  as_supplemental_properties :: "descriptor_type list"
  as_essential_properties :: "descriptor_type list"

record period =
  pd_id :: string
  pd_start_ms :: int
  pd_supplemental_properties :: "descriptor_type list"
  pd_adaptation_sets :: "adaptation_set list"

record presentation =
  mpd_availability_start_time :: int
  mpd_duration :: int
  mpd_min_buffer_time :: int
  mpd_dynamic :: bool
  mpd_min_update_period :: int
  mpd_time_shift_buffer_depth :: int
  mpd_utc_timing :: "descriptor_type option"
  mpd_location :: string
  mpd_supplemental_properties :: "descriptor_type list"
  mpd_essential_properties :: "descriptor_type list"
  mpd_periods :: "period list"

section \<open>Formats and descriptors\<close>

text \<open>Formats compare by identifier only.\<close>

definition Format_eq :: "format \<Rightarrow> format \<Rightarrow> bool" where
  "Format_eq a b \<longleftrightarrow> fmt_id a = fmt_id b"

definition DecreasingBandwidthComparator :: "format \<Rightarrow> format \<Rightarrow> bool" where
  "DecreasingBandwidthComparator lhs rhs \<longleftrightarrow> fmt_bitrate lhs > fmt_bitrate rhs"

definition DescriptorType_ToString :: "descriptor_type \<Rightarrow> string" where
  "DescriptorType_ToString d = dt_scheme_id_uri d @ '', value='' @ dt_value d @ '', id='' @ dt_id d"

section \<open>Representations\<close>

definition segment_base_initialization :: "segment_base_ref \<Rightarrow> format \<Rightarrow> ranged_uri option" where
  "segment_base_initialization sb f =
     (case sb of
        Single_Base b \<Rightarrow> GetInitializationUri b
      | Multi_Base s \<Rightarrow> GetInitialization s (fmt_id f) (fmt_bitrate f))"

definition segment_base_offset_us :: "segment_base_ref \<Rightarrow> int result" where
  "segment_base_offset_us sb =
     (case sb of
        Single_Base b \<Rightarrow> GetPresentationTimeOffsetUs b
      | Multi_Base s \<Rightarrow> GetPresentationTimeOffsetUs (multi_base s))"

definition IsSingleSegment :: "segment_base_ref \<Rightarrow> bool" where
  "IsSingleSegment sb = (case sb of Single_Base _ \<Rightarrow> True | Multi_Base _ \<Rightarrow> False)"

definition cache_key :: "string \<Rightarrow> format \<Rightarrow> int \<Rightarrow> string \<Rightarrow> string" where
  "cache_key content_id f revision_id custom_cache_key =
     (if length custom_cache_key > 0 then custom_cache_key
      else content_id @ ''.'' @ fmt_id f @ ''.'' @ decimal (nat (wrap64 revision_id)))"

text \<open>The constructor of \<open>Representation\<close>; the subclasses fill in the index.\<close>

definition Representation_new ::
  "string \<Rightarrow> int \<Rightarrow> format \<Rightarrow> segment_base_ref \<Rightarrow> string \<Rightarrow> descriptor_type list option \<Rightarrow>
   descriptor_type list option \<Rightarrow> representation result" where
  "Representation_new content_id revision_id f segment_base custom_cache_key supplemental essential =
     and_then (segment_base_offset_us segment_base) (\<lambda>offset_us.
       Inr \<lparr>rep_format = f,
            rep_initialization_uri = segment_base_initialization segment_base f,
            rep_content_id = content_id,
            rep_revision_id = wrap64 revision_id,
            rep_cache_key = cache_key content_id f revision_id custom_cache_key,
            rep_presentation_timeoffset_us = offset_us,
            rep_supplemental_properties = (case supplemental of None \<Rightarrow> [] | Some ps \<Rightarrow> ps),
            rep_essential_properties = (case essential of None \<Rightarrow> [] | Some ps \<Rightarrow> ps),
            rep_segment_base = segment_base,
            rep_index_uri = None,
            rep_index = None\<rparr>)"

text \<open>
  A single-segment representation either points to an index in the media, or is one segment.
\<close>

definition SingleSegmentRepresentation_new ::
  "string \<Rightarrow> int \<Rightarrow> format \<Rightarrow> single_segment_base \<Rightarrow> string \<Rightarrow> int \<Rightarrow> descriptor_type list option \<Rightarrow>
   descriptor_type list option \<Rightarrow> representation result" where
  "SingleSegmentRepresentation_new content_id revision_id f b custom_cache_key content_length supplemental essential =
     and_then (Representation_new content_id revision_id f (Single_Base b) custom_cache_key supplemental essential)
       (\<lambda>r. let index_uri = SingleSegmentBase_GetIndex b
            in Inr (r\<lparr>rep_index_uri := index_uri,
                      rep_index := (if index_uri = None
                                    then Some (Single_Index (RangedUri_new (sb_base_url b) [] 0 content_length))
                                    else None)\<rparr>))"

definition MultiSegmentRepresentation_new ::
  "string \<Rightarrow> int \<Rightarrow> format \<Rightarrow> multi_segment \<Rightarrow> string \<Rightarrow> descriptor_type list option \<Rightarrow>
   descriptor_type list option \<Rightarrow> representation result" where
  "MultiSegmentRepresentation_new content_id revision_id f s custom_cache_key supplemental essential =
     and_then (Representation_new content_id revision_id f (Multi_Base s) custom_cache_key supplemental essential)
       (\<lambda>r. Inr (r\<lparr>rep_index := Some (Multi_Index s (fmt_id f) (fmt_bitrate f))\<rparr>))"

definition Representation_NewInstance ::
  "string \<Rightarrow> int \<Rightarrow> format \<Rightarrow> segment_base_ref \<Rightarrow> string \<Rightarrow> descriptor_type list option \<Rightarrow>
   descriptor_type list option \<Rightarrow> representation result" where
  "Representation_NewInstance content_id revision_id f segment_base custom_cache_key supplemental essential =
     (case segment_base of
        Single_Base b \<Rightarrow>
          SingleSegmentRepresentation_new content_id revision_id f b custom_cache_key (-1) supplemental essential
      | Multi_Base s \<Rightarrow>
          MultiSegmentRepresentation_new content_id revision_id f s custom_cache_key supplemental essential)"

definition SingleSegmentRepresentation_NewInstance ::
  "string \<Rightarrow> int \<Rightarrow> format \<Rightarrow> string \<Rightarrow> int \<Rightarrow> int \<Rightarrow> int \<Rightarrow> int \<Rightarrow> string \<Rightarrow> int \<Rightarrow>
   descriptor_type list option \<Rightarrow> descriptor_type list option \<Rightarrow> representation result" where
  "SingleSegmentRepresentation_NewInstance content_id revision_id f uri initialization_start initialization_end
       index_start index_end custom_cache_key content_length supplemental essential =
     SingleSegmentRepresentation_new content_id revision_id f
       \<lparr>sb_base_url = uri,
        sb_initialization = Some (RangedUri_new uri [] initialization_start
                                    (initialization_end - initialization_start + 1)),
        sb_timescale = 1, sb_presentation_time_offset = 0,
        ss_index_start = index_start, ss_index_length = index_end - index_start + 1\<rparr>
       custom_cache_key content_length supplemental essential"

section \<open>Adaptation sets, periods and the presentation\<close>

definition NumRepresentations :: "adaptation_set \<Rightarrow> int" where
  "NumRepresentations s = int (length (as_representations s))"

definition GetRepresentation :: "adaptation_set \<Rightarrow> int \<Rightarrow> representation result" where
  "GetRepresentation s index = vector_at (as_representations s) index"

definition HasContentProtections :: "adaptation_set \<Rightarrow> bool" where
  "HasContentProtections s \<longleftrightarrow> as_content_protections s \<noteq> []"

fun first_of_type :: "adaptation_set list \<Rightarrow> adaptation_type \<Rightarrow> int \<Rightarrow> int" where
  "first_of_type [] t i = -1"
| "first_of_type (s # ss) t i = (if as_type s = t then i else first_of_type ss t (i + 1))"

definition GetAdaptationSetIndex :: "period \<Rightarrow> adaptation_type \<Rightarrow> int" where
  "GetAdaptationSetIndex p t = first_of_type (pd_adaptation_sets p) t 0"

definition GetPeriodCount :: "presentation \<Rightarrow> int" where
  "GetPeriodCount m = int (length (mpd_periods m))"

definition GetPeriod :: "presentation \<Rightarrow> int \<Rightarrow> period result" where
  "GetPeriod m index = vector_at (mpd_periods m) index"

text \<open>Start times are unsigned; their difference is stored in an \<open>int64_t\<close>.\<close>

definition narrow64 :: "int \<Rightarrow> int" where
  "narrow64 x = signed_take_bit 63 x"

definition MPD_GetPeriodDuration :: "presentation \<Rightarrow> int \<Rightarrow> int" where
  "MPD_GetPeriodDuration m index =
     (let ps = mpd_periods m; start = (\<lambda>i. pd_start_ms (ps ! nat i))
      in if index < 0 \<or> index \<ge> int (length ps) then -1
         else if index = int (length ps) - 1
         then (if mpd_duration m = -1 then -1
               else (let period_end = narrow64 (start 0 + mpd_duration m)
                     in narrow64 (period_end - start index)))
         else narrow64 (start (index + 1) - start index))"

section \<open>Properties\<close>

lemma narrow64_id: "- (2 ^ 63) \<le> x \<Longrightarrow> x < 2 ^ 63 \<Longrightarrow> narrow64 x = x"
  by (simp add: narrow64_def signed_take_bit_int_eq_self)

text \<open>Start times a presentation can have: milliseconds that fit a signed 64-bit integer.\<close>

definition starts_ok :: "presentation \<Rightarrow> bool" where
  "starts_ok m \<longleftrightarrow> (\<forall>p \<in> set (mpd_periods m). 0 \<le> pd_start_ms p \<and> pd_start_ms p < 2 ^ 62) \<and>
     -1 \<le> mpd_duration m \<and> mpd_duration m < 2 ^ 62"

lemma starts_okD: "starts_ok m \<Longrightarrow> i < length (mpd_periods m) \<Longrightarrow>
    0 \<le> pd_start_ms (mpd_periods m ! i) \<and> pd_start_ms (mpd_periods m ! i) < 2 ^ 62"
  by (auto simp: starts_ok_def)

lemma period_duration_step:
  assumes "starts_ok m" "Suc i < length (mpd_periods m)"
  shows "MPD_GetPeriodDuration m (int i) = pd_start_ms (mpd_periods m ! Suc i) - pd_start_ms (mpd_periods m ! i)"
  using assms starts_okD [OF assms(1), of i] starts_okD [OF assms(1), of "Suc i"]
  by (simp add: MPD_GetPeriodDuration_def Let_def nat_add_distrib narrow64_id)

lemma period_duration_last:
  assumes "starts_ok m" "length (mpd_periods m) = Suc i" "mpd_duration m \<noteq> -1"
  shows "MPD_GetPeriodDuration m (int i) =
    pd_start_ms (mpd_periods m ! 0) + mpd_duration m - pd_start_ms (mpd_periods m ! i)"
proof -
  have r: "0 \<le> pd_start_ms (mpd_periods m ! i)" "pd_start_ms (mpd_periods m ! i) < 2 ^ 62"
      "0 \<le> pd_start_ms (mpd_periods m ! 0)" "pd_start_ms (mpd_periods m ! 0) < 2 ^ 62"
      "-1 \<le> mpd_duration m" "mpd_duration m < 2 ^ 62"
    using starts_okD [OF assms(1), of i] starts_okD [OF assms(1), of 0] assms by (auto simp: starts_ok_def)
  then have "narrow64 (pd_start_ms (mpd_periods m ! 0) + mpd_duration m) = pd_start_ms (mpd_periods m ! 0) + mpd_duration m"
    by (intro narrow64_id) simp_all
  then show ?thesis using r assms(2,3) by (simp add: MPD_GetPeriodDuration_def Let_def narrow64_id)
qed

definition demo_period :: "int \<Rightarrow> period" where
  "demo_period start = \<lparr>pd_id = ''p'', pd_start_ms = start, pd_supplemental_properties = [], pd_adaptation_sets = []\<rparr>"

definition demo_presentation :: presentation where
  "demo_presentation = \<lparr>mpd_availability_start_time = -1, mpd_duration = 60000, mpd_min_buffer_time = -1,
     mpd_dynamic = False, mpd_min_update_period = -1, mpd_time_shift_buffer_depth = -1, mpd_utc_timing = None,
     mpd_location = [], mpd_supplemental_properties = [], mpd_essential_properties = [],
     mpd_periods = [demo_period 0, demo_period 20000, demo_period 25000]\<rparr>"

text \<open>
  The periods divide the presentation: when the presentation's duration is known, the durations of
  its periods add up to exactly that duration, so no media time is counted twice or left out.
\<close>

theorem period_durations_sum:
  assumes "starts_ok m" "mpd_duration m \<noteq> -1" "mpd_periods m \<noteq> []"
  shows "(\<Sum>i < length (mpd_periods m). MPD_GetPeriodDuration m (int i)) = mpd_duration m"
proof -
  let ?s = "\<lambda>i. pd_start_ms (mpd_periods m ! i)"
  obtain n where n: "length (mpd_periods m) = Suc n" using assms(3) by (cases "mpd_periods m") auto
  have "(\<Sum>i < n. MPD_GetPeriodDuration m (int i)) = (\<Sum>i < n. ?s (Suc i) - ?s i)"
    by (rule sum.cong) (use assms(1) n in \<open>auto simp: period_duration_step\<close>)
  also have "\<dots> = ?s n - ?s 0" by (rule sum_lessThan_telescope)
  finally show ?thesis using n period_duration_last [OF assms(1) n assms(2)] by simp
qed

theorem period_durations_sum_witness:
  "starts_ok demo_presentation \<and>
   (\<Sum>i < length (mpd_periods demo_presentation). MPD_GetPeriodDuration demo_presentation (int i)) = 60000"
proof -
  have "starts_ok demo_presentation" by (simp add: starts_ok_def demo_presentation_def demo_period_def)
  then show ?thesis using period_durations_sum [of demo_presentation] by (simp add: demo_presentation_def)
qed

text \<open>
  A new representation provides a segment index exactly when it has no index URI, so a player can
  always locate segments: either at once, or after loading the media's own index.
\<close>

theorem index_xor_index_uri:
  assumes "Representation_NewInstance content_id revision_id f sb key supplemental essential = Inr r"
  shows "rep_index r = None \<longleftrightarrow> rep_index_uri r \<noteq> None"
  using assms
  by (auto simp: Representation_NewInstance_def SingleSegmentRepresentation_new_def Representation_new_def
      MultiSegmentRepresentation_new_def and_then_Inr Let_def split: segment_base_ref.splits if_splits)

definition demo_format :: "string \<Rightarrow> int \<Rightarrow> format" where
  "demo_format fid bitrate = \<lparr>fmt_id = fid, fmt_mime_type = ''video/mp4'', fmt_width = 640, fmt_height = 480,
     fmt_frame_rate = Finite 30, fmt_max_playout_rate = 1, fmt_audio_channels = -1, fmt_audio_sampling_rate = -1,
     fmt_bitrate = bitrate, fmt_language = [], fmt_codecs = []\<rparr>"

theorem index_xor_index_uri_witness:
  "\<exists>r. Representation_NewInstance ''c'' 1 (demo_format ''v1'' 500)
         (Single_Base (SingleSegmentBase_new ''http://h/v.mp4'')) [] None None = Inr r \<and>
       rep_index_uri r = None \<and> rep_index r \<noteq> None"
proof -
  let ?n = "Representation_NewInstance ''c'' 1 (demo_format ''v1'' 500)
      (Single_Base (SingleSegmentBase_new ''http://h/v.mp4'')) [] None None"
  obtain r where r: "?n = Inr r" "rep_index_uri r = None"
    by (simp add: Representation_NewInstance_def SingleSegmentRepresentation_new_def Representation_new_def
        segment_base_offset_us_def GetPresentationTimeOffsetUs_def scale_us_def SingleSegmentBase_new_def
        SingleSegmentBase_GetIndex_def)
  from index_xor_index_uri [OF r(1)] r show ?thesis by blast
qed

text \<open>The adaptation set found for a type is the first of that type, \<open>-1\<close> when there is none.\<close>

lemma first_of_type_eq:
  "first_of_type ss t i =
     (if \<exists>s \<in> set ss. as_type s = t then i + int (length (takeWhile (\<lambda>s. as_type s \<noteq> t) ss)) else -1)"
  by (induction ss arbitrary: i) auto

end
