(* ===== verification/Sliding_Median.thy ===== *)
theory Sliding_Median
  imports Ndash_Prelude
begin

text \<open>
  \<open>util/sliding_median.cc\<close>: a weighted median over a sliding window of observations, the averager
  behind the bandwidth estimate. The source keeps the samples twice, in a \<open>std::multimap\<close> ordered by
  value and in a queue of iterators into it ordered by age. Here a sample carries the identity an
  iterator stands for; the queue is the list of identities.

  The specification is the window itself, oldest first, as a list of values and weights. The
  refinement theorem shows that \<open>AddSample\<close> appends to the window and trims its old end to the
  maximum weight, and the median theorem that \<open>GetAverage\<close> is the middle element of all the values,
  each repeated as often as its weight.
\<close>

section \<open>State\<close>

record sample =
  s_id :: nat
  s_value :: int
  s_weight :: int

record sliding_median =
  sm_max_weight :: int
  sm_samples_by_index :: "nat list"
  sm_samples_by_value :: "sample list"
  sm_total_weight :: int
  sm_next_id :: nat

section \<open>Operations\<close>

definition SlidingMedian_new :: "int \<Rightarrow> sliding_median result" where
  "SlidingMedian_new max_weight =
     (if max_weight > 0
      then Inr \<lparr>sm_max_weight = max_weight, sm_samples_by_index = [], sm_samples_by_value = [],
                sm_total_weight = 0, sm_next_id = 0\<rparr>
      else Inl Check_failed)"

text \<open>\<open>multimap::insert\<close>: after every element whose key is not greater.\<close>

fun multimap_insert :: "sample \<Rightarrow> sample list \<Rightarrow> sample list" where
  "multimap_insert x [] = [x]"
| "multimap_insert x (y # ys) = (if s_value y \<le> s_value x then y # multimap_insert x ys else x # y # ys)"

definition erase_sample :: "nat \<Rightarrow> sample list \<Rightarrow> sample list" where
  "erase_sample i xs = filter (\<lambda>x. s_id x \<noteq> i) xs"

definition reduce_sample :: "nat \<Rightarrow> int \<Rightarrow> sample list \<Rightarrow> sample list" where
  "reduce_sample i excess xs = map (\<lambda>x. if s_id x = i then x\<lparr>s_weight := s_weight x - excess\<rparr> else x) xs"

fun drop_excess :: "int \<Rightarrow> nat list \<Rightarrow> sample list \<Rightarrow> int \<Rightarrow> (nat list \<times> sample list \<times> int) result" where
  "drop_excess max_weight by_index by_value total_weight =
     (if total_weight > max_weight
      then (case by_index of
              [] \<Rightarrow> Inl Undefined_access
            | oldest # rest \<Rightarrow>
                (case find (\<lambda>x. s_id x = oldest) by_value of
                   None \<Rightarrow> Inl Undefined_access
                 | Some x \<Rightarrow>
                     (let excess_weight = total_weight - max_weight
                      in if s_weight x \<le> excess_weight
                         then drop_excess max_weight rest (erase_sample oldest by_value) (total_weight - s_weight x)
                         else Inr (by_index, reduce_sample oldest excess_weight by_value, total_weight - excess_weight))))
      else Inr (by_index, by_value, total_weight))"

declare drop_excess.simps [simp del]

definition AddSample :: "int \<Rightarrow> int \<Rightarrow> sliding_median \<Rightarrow> sliding_median result" where
  "AddSample weight value m =
     (if weight > 0
      then and_then (drop_excess (sm_max_weight m) (sm_samples_by_index m @ [sm_next_id m])
                       (multimap_insert \<lparr>s_id = sm_next_id m, s_value = value, s_weight = weight\<rparr> (sm_samples_by_value m))
                       (sm_total_weight m + weight))
             (\<lambda>(by_index, by_value, total_weight).
                Inr (m\<lparr>sm_samples_by_index := by_index, sm_samples_by_value := by_value,
                       sm_total_weight := total_weight, sm_next_id := sm_next_id m + 1\<rparr>))
      else Inl Check_failed)"

definition HasSample :: "sliding_median \<Rightarrow> bool" where
  "HasSample m \<longleftrightarrow> sm_samples_by_value m \<noteq> []"

fun median_scan :: "int \<Rightarrow> int \<Rightarrow> sample list \<Rightarrow> int" where
  "median_scan desired_weight accumulated [] = 0"
| "median_scan desired_weight accumulated (x # xs) =
     (if accumulated + s_weight x \<ge> desired_weight then s_value x
      else median_scan desired_weight (accumulated + s_weight x) xs)"

definition GetAverage :: "sliding_median \<Rightarrow> int" where
  "GetAverage m =
     median_scan (sm_total_weight m sdiv 2 + sm_total_weight m smod 2) 0 (sm_samples_by_value m)"

section \<open>Specification: the window\<close>

type_synonym window = "(int \<times> int) list"

definition window_weight :: "window \<Rightarrow> int" where
  "window_weight w = sum_list (map snd w)"

fun trim :: "int \<Rightarrow> window \<Rightarrow> window" where
  "trim excess [] = []"
| "trim excess ((v, w) # ws) =
     (if excess \<le> 0 then (v, w) # ws
      else if w \<le> excess then trim (excess - w) ws
      else (v, w - excess) # ws)"

definition window_add :: "int \<Rightarrow> int \<Rightarrow> int \<Rightarrow> window \<Rightarrow> window" where
  "window_add max_weight weight value w =
     trim (window_weight w + weight - max_weight) (w @ [(value, weight)])"

text \<open>Every value as often as its weight.\<close>

definition expand :: "window \<Rightarrow> int list" where
  "expand w = concat (map (\<lambda>(v, n). replicate (nat n) v) w)"

definition weighted_median :: "window \<Rightarrow> int" where
  "weighted_median w = sort (expand w) ! nat ((window_weight w + 1) div 2 - 1)"

section \<open>Invariant and abstraction\<close>

definition entry :: "sample list \<Rightarrow> nat \<Rightarrow> int \<times> int" where
  "entry xs i = (case find (\<lambda>x. s_id x = i) xs of Some x \<Rightarrow> (s_value x, s_weight x) | None \<Rightarrow> (0, 0))"

definition window_of :: "sliding_median \<Rightarrow> window" where
  "window_of m = map (entry (sm_samples_by_value m)) (sm_samples_by_index m)"

text \<open>The two containers hold the same samples.\<close>

definition coherent :: "nat list \<Rightarrow> sample list \<Rightarrow> bool" where
  "coherent by_index by_value \<longleftrightarrow> distinct by_index \<and> mset (map s_id by_value) = mset by_index \<and>
     sorted (map s_value by_value) \<and> (\<forall>x \<in> set by_value. 0 < s_weight x)"

definition median_ok :: "sliding_median \<Rightarrow> bool" where
  "median_ok m \<longleftrightarrow> 0 < sm_max_weight m \<and> coherent (sm_samples_by_index m) (sm_samples_by_value m) \<and>
     (\<forall>i \<in> set (sm_samples_by_index m). i < sm_next_id m) \<and>
     sm_total_weight m = window_weight (window_of m) \<and> sm_total_weight m \<le> sm_max_weight m"

lemma coherent_ids:
  assumes "coherent is xs"
  shows "distinct (map s_id xs)" "set (map s_id xs) = set is"
  using assms mset_eq_imp_distinct_iff [of "map s_id xs" "is"] mset_eq_setD [of "map s_id xs" "is"]
  by (auto simp: coherent_def)

lemma find_id: "distinct (map s_id xs) \<Longrightarrow> x \<in> set xs \<Longrightarrow> find (\<lambda>y. s_id y = s_id x) xs = Some x"
  by (induction xs) auto

lemma coherent_find:
  assumes "coherent is xs" "i \<in> set is"
  obtains x where "find (\<lambda>y. s_id y = i) xs = Some x" "x \<in> set xs" "s_id x = i" "0 < s_weight x"
proof -
  have "i \<in> s_id ` set xs" using coherent_ids(2) [OF assms(1)] assms(2) by simp
  then obtain x where x: "x \<in> set xs" "s_id x = i" by blast
  moreover have "0 < s_weight x" using x assms(1) by (auto simp: coherent_def)
  ultimately show thesis using that find_id [OF coherent_ids(1) [OF assms(1)] x(1)] by simp
qed

lemma multimap_insert_mset: "mset (multimap_insert x xs) = add_mset x (mset xs)"
  by (induction x xs rule: multimap_insert.induct) auto

lemma multimap_insert_sorted: "sorted (map s_value xs) \<Longrightarrow> sorted (map s_value (multimap_insert x xs))"
proof (induction x xs rule: multimap_insert.induct)
  case (2 x y ys)
  have "set (multimap_insert x ys) = insert x (set ys)"
    using multimap_insert_mset [of x ys] by (metis set_mset_add_mset_insert set_mset_mset)
  then show ?case using 2 by auto
qed simp

lemma find_filter_other: "i \<noteq> j \<Longrightarrow> find (\<lambda>x. s_id x = i) (erase_sample j xs) = find (\<lambda>x. s_id x = i) xs"
  by (induction xs) (auto simp: erase_sample_def)

lemma find_reduce:
  "find (\<lambda>x. s_id x = i) (reduce_sample j e xs) =
     map_option (\<lambda>x. if i = j then x\<lparr>s_weight := s_weight x - e\<rparr> else x) (find (\<lambda>x. s_id x = i) xs)"
  by (induction xs) (auto simp: reduce_sample_def)

lemma coherent_erase:
  assumes "coherent (i # is) xs"
  shows "coherent is (erase_sample i xs)"
proof -
  have "mset (map s_id (erase_sample i xs)) = filter_mset (\<lambda>j. j \<noteq> i) (mset (map s_id xs))"
    unfolding erase_sample_def by (induction xs) auto
  also have "\<dots> = filter_mset (\<lambda>j. j \<noteq> i) (mset (i # is))" using assms by (simp add: coherent_def)
  also have "\<dots> = mset is" using assms by (auto simp: coherent_def filter_mset_eq_conv)
  finally have "mset (map s_id (erase_sample i xs)) = mset is" .
  then show ?thesis
    using assms by (auto simp: coherent_def erase_sample_def sorted_map intro: sorted_wrt_filter)
qed

lemma coherent_reduce:
  assumes "coherent is xs" "find (\<lambda>y. s_id y = i) xs = Some x" "e < s_weight x"
  shows "coherent is (reduce_sample i e xs)"
proof -
  have "map s_id (reduce_sample i e xs) = map s_id xs" "map s_value (reduce_sample i e xs) = map s_value xs"
    by (simp_all add: reduce_sample_def)
  moreover have "0 < s_weight y" if "y \<in> set (reduce_sample i e xs)" for y
  proof -
    from that obtain z where z: "z \<in> set xs" "y = (if s_id z = i then z\<lparr>s_weight := s_weight z - e\<rparr> else z)"
      by (auto simp: reduce_sample_def)
    moreover have "s_id z = i \<Longrightarrow> z = x"
      using find_id [OF coherent_ids(1) [OF assms(1)] z(1)] assms(2) by auto
    ultimately show ?thesis using assms(1,3) by (auto simp: coherent_def)
  qed
  ultimately show ?thesis using assms(1) by (simp add: coherent_def)
qed

section \<open>Adding a sample refines the window\<close>

lemma entry_erase: "i \<notin> set is \<Longrightarrow> map (entry (erase_sample i xs)) is = map (entry xs) is"
  by (intro map_cong refl) (metis entry_def find_filter_other)

lemma entry_reduce:
  assumes "find (\<lambda>y. s_id y = i) xs = Some x" "i \<notin> set is"
  shows "map (entry (reduce_sample i e xs)) (i # is) = (s_value x, s_weight x - e) # map (entry xs) is"
proof -
  have "entry (reduce_sample i e xs) j = entry xs j" if "j \<in> set is" for j
    using that assms(2) by (cases "find (\<lambda>y. s_id y = j) xs") (auto simp: entry_def find_reduce)
  moreover have "entry (reduce_sample i e xs) i = (s_value x, s_weight x - e)"
    using assms(1) by (simp add: entry_def find_reduce)
  ultimately show ?thesis by simp
qed

lemma trim_0: "excess \<le> 0 \<Longrightarrow> trim excess w = w"
  by (cases w) auto

text \<open>
  The loop never runs off either container, and what it leaves is the trimmed window; the total
  weight it keeps is the weight of that window.
\<close>

lemma drop_excess_trim:
  assumes "coherent is xs" "t = window_weight (map (entry xs) is)" "0 \<le> mx"
  shows "\<exists>is' xs' t'. drop_excess mx is xs t = Inr (is', xs', t') \<and> coherent is' xs' \<and> set is' \<subseteq> set is \<and>
    map (entry xs') is' = trim (t - mx) (map (entry xs) is) \<and> t' = min t mx \<and>
    t' = window_weight (map (entry xs') is')"
  using assms
proof (induction "is" arbitrary: xs t)
  case Nil
  then show ?case by (subst drop_excess.simps) (simp add: window_weight_def)
next
  case (Cons i "is")
  obtain x where x: "find (\<lambda>y. s_id y = i) xs = Some x" "0 < s_weight x"
    using coherent_find [OF Cons.prems(1)] by (metis list.set_intros(1))
  have ni: "i \<notin> set is" using Cons.prems(1) by (simp add: coherent_def)
  have e: "entry xs i = (s_value x, s_weight x)" using x by (simp add: entry_def)
  consider "t \<le> mx" | "mx < t" "s_weight x \<le> t - mx" | "mx < t" "t - mx < s_weight x" by linarith
  then show ?case
  proof cases
    case 1
    then show ?thesis using Cons.prems by (subst drop_excess.simps) (simp add: trim_0)
  next
    case 2
    have t: "t - s_weight x = window_weight (map (entry (erase_sample i xs)) is)"
      using Cons.prems(2) e by (simp add: entry_erase [OF ni] window_weight_def)
    have step: "drop_excess mx (i # is) xs t = drop_excess mx is (erase_sample i xs) (t - s_weight x)"
      using 2 x by (subst drop_excess.simps) (simp add: Let_def)
    show ?thesis
      using Cons.IH [OF coherent_erase [OF Cons.prems(1)] t Cons.prems(3)] 2 e
      by (auto simp: step entry_erase [OF ni] algebra_simps)
  next
    case 3
    have step: "drop_excess mx (i # is) xs t = Inr (i # is, reduce_sample i (t - mx) xs, mx)"
      using 3 x by (subst drop_excess.simps) (simp add: Let_def)
    have "window_weight ((s_value x, s_weight x - (t - mx)) # map (entry xs) is) = mx"
      using Cons.prems(2) e by (simp add: window_weight_def)
    then have ww: "window_weight (map (entry (reduce_sample i (t - mx) xs)) (i # is)) = mx"
      unfolding entry_reduce [OF x(1) ni] .
    have tr: "map (entry (reduce_sample i (t - mx) xs)) (i # is) = trim (t - mx) (map (entry xs) (i # is))"
      unfolding entry_reduce [OF x(1) ni] using 3 e by simp
    show ?thesis
      unfolding step using coherent_reduce [OF Cons.prems(1) x(1) 3(2)] ww tr 3(1)
      by (intro exI [of _ "i # is"] exI [of _ "reduce_sample i (t - mx) xs"] exI [of _ mx]) simp
  qed
qed

lemma coherent_insert:
  assumes "coherent is xs" "i \<notin> set is" "0 < w"
  shows "coherent (is @ [i]) (multimap_insert \<lparr>s_id = i, s_value = v, s_weight = w\<rparr> xs)"
proof -
  let ?x = "\<lparr>s_id = i, s_value = v, s_weight = w\<rparr>"
  have "set (multimap_insert ?x xs) = insert ?x (set xs)"
    using multimap_insert_mset [of ?x xs] by (metis set_mset_add_mset_insert set_mset_mset)
  moreover have "mset (map s_id (multimap_insert ?x xs)) = mset (is @ [i])"
    using assms(1) multimap_insert_mset [of ?x xs] by (simp add: coherent_def)
  ultimately show ?thesis using assms multimap_insert_sorted [of xs ?x] by (auto simp: coherent_def)
qed

lemma entry_insert:
  assumes "coherent is xs" "i \<notin> set is" "0 < w"
  shows "map (entry (multimap_insert \<lparr>s_id = i, s_value = v, s_weight = w\<rparr> xs)) (is @ [i]) = map (entry xs) is @ [(v, w)]"
proof -
  let ?x = "\<lparr>s_id = i, s_value = v, s_weight = w\<rparr>"
  have set: "set (multimap_insert ?x xs) = insert ?x (set xs)"
    using multimap_insert_mset [of ?x xs] by (metis set_mset_add_mset_insert set_mset_mset)
  note d = coherent_ids(1) [OF coherent_insert [OF assms, of v]]
  have "entry (multimap_insert ?x xs) i = (v, w)"
    using find_id [OF d, of ?x] set by (simp add: entry_def)
  moreover have "entry (multimap_insert ?x xs) j = entry xs j" if "j \<in> set is" for j
  proof -
    obtain y where y: "find (\<lambda>z. s_id z = j) xs = Some y" "y \<in> set xs" "s_id y = j"
      by (rule coherent_find [OF assms(1) \<open>j \<in> set is\<close>])
    then show ?thesis using find_id [OF d, of y] set by (simp add: entry_def)
  qed
  ultimately show ?thesis by simp
qed

lemma AddSample_refines:
  assumes ok: "median_ok m" and w: "0 < w"
  shows "\<exists>m'. AddSample w v m = Inr m' \<and> median_ok m' \<and> sm_max_weight m' = sm_max_weight m \<and>
    window_of m' = window_add (sm_max_weight m) w v (window_of m) \<and>
    sm_total_weight m' = min (sm_max_weight m) (sm_total_weight m + w)"
proof -
  let ?i = "sm_next_id m" and ?is = "sm_samples_by_index m" and ?xs = "sm_samples_by_value m"
  let ?ys = "multimap_insert \<lparr>s_id = ?i, s_value = v, s_weight = w\<rparr> ?xs"
  have c: "coherent ?is ?xs" and ni: "?i \<notin> set ?is" and lt: "\<forall>i \<in> set ?is. i < ?i"
    using ok by (auto simp: median_ok_def)
  have mx: "0 \<le> sm_max_weight m" using ok by (simp add: median_ok_def)
  have t: "sm_total_weight m + w = window_weight (map (entry ?ys) (?is @ [?i]))"
    using ok unfolding entry_insert [OF c ni w] by (simp add: median_ok_def window_weight_def window_of_def)
  obtain is' xs' t' where r: "drop_excess (sm_max_weight m) (?is @ [?i]) ?ys (sm_total_weight m + w) = Inr (is', xs', t')"
      "coherent is' xs'" "set is' \<subseteq> set (?is @ [?i])"
      "map (entry xs') is' = trim (sm_total_weight m + w - sm_max_weight m) (map (entry ?ys) (?is @ [?i]))"
      "t' = min (sm_total_weight m + w) (sm_max_weight m)" "t' = window_weight (map (entry xs') is')"
    using drop_excess_trim [OF coherent_insert [OF c ni w, of v] t, of "sm_max_weight m"] mx by blast
  let ?m = "m\<lparr>sm_samples_by_index := is', sm_samples_by_value := xs', sm_total_weight := t', sm_next_id := ?i + 1\<rparr>"
  have "AddSample w v m = Inr ?m" using r(1) w by (simp add: AddSample_def)
  moreover have "median_ok ?m"
    using ok r(2,3,5,6) lt by (auto simp: median_ok_def window_of_def less_Suc_eq)
  moreover have "window_of ?m = window_add (sm_max_weight m) w v (window_of m)"
    using r(4) ok unfolding entry_insert [OF c ni w] by (simp add: window_of_def window_add_def median_ok_def)
  ultimately show ?thesis using r(5) by auto
qed

section \<open>The median\<close>

definition expand_samples :: "sample list \<Rightarrow> int list" where
  "expand_samples xs = expand (map (\<lambda>x. (s_value x, s_weight x)) xs)"

lemma expand_simps [simp]: "expand [] = []" "expand ((v, n) # w) = replicate (nat n) v @ expand w"
  by (simp_all add: expand_def)

lemma mset_expand: "mset (expand w) = sum_mset (image_mset (\<lambda>(v, n). replicate_mset (nat n) v) (mset w))"
  by (induction w) auto

lemma set_expand: "set (expand w) \<subseteq> set (map fst w)"
  by (induction w) auto

lemma sorted_expand: "sorted (map fst w) \<Longrightarrow> sorted (expand w)"
  using set_expand by (induction w) (fastforce simp: sorted_append)+

lemma length_expand: "(\<forall>(v, n) \<in> set w. 0 \<le> n) \<Longrightarrow> int (length (expand w)) = window_weight w"
  by (induction w) (auto simp: window_weight_def)

lemma weighted_median_single:
  assumes "0 < n"
  shows "weighted_median [(v, n)] = v"
proof -
  have "sort (replicate k v) = replicate k v" for k by (intro sorted_sort_id sorted_replicate)
  moreover have "nat ((n + 1) div 2 - 1) < nat n" using assms by linarith
  ultimately show ?thesis by (simp add: weighted_median_def window_weight_def)
qed

lemma window_mset:
  assumes "coherent is xs"
  shows "mset (map (entry xs) is) = mset (map (\<lambda>x. (s_value x, s_weight x)) xs)"
proof -
  have "mset (map (entry xs) is) = image_mset (entry xs) (mset (map s_id xs))" using assms by (simp add: coherent_def)
  also have "\<dots> = mset (map (\<lambda>x. entry xs (s_id x)) xs)" by (simp add: image_mset.compositionality comp_def)
  also have "map (\<lambda>x. entry xs (s_id x)) xs = map (\<lambda>x. (s_value x, s_weight x)) xs"
    by (rule map_cong) (auto simp: entry_def find_id [OF coherent_ids(1) [OF assms]])
  finally show ?thesis .
qed

lemma median_scan_nth:
  assumes "\<forall>x \<in> set xs. 0 < s_weight x" "acc < d" "d - acc \<le> int (length (expand_samples xs))"
  shows "median_scan d acc xs = expand_samples xs ! nat (d - acc - 1)"
  using assms
proof (induction xs arbitrary: acc)
  case (Cons x xs)
  show ?case
  proof (cases "d \<le> acc + s_weight x")
    case True
    then have "nat (d - acc - 1) < nat (s_weight x)" using Cons.prems by simp
    then show ?thesis using True by (simp add: expand_samples_def nth_append)
  next
    case False
    then have "median_scan d (acc + s_weight x) xs = expand_samples xs ! nat (d - (acc + s_weight x) - 1)"
      using Cons.prems by (intro Cons.IH) (auto simp: expand_samples_def)
    moreover have "nat (d - acc - 1) = nat (s_weight x) + nat (d - (acc + s_weight x) - 1)"
      using False Cons.prems(1,2) by (subst nat_add_distrib [symmetric]) simp_all
    ultimately show ?thesis using False by (simp add: expand_samples_def nth_append)
  qed
qed (simp add: expand_samples_def)

lemma GetAverage_median:
  assumes ok: "median_ok m" and ne: "HasSample m"
  shows "GetAverage m = weighted_median (window_of m)"
proof -
  let ?xs = "sm_samples_by_value m" and ?t = "sm_total_weight m"
  have c: "coherent (sm_samples_by_index m) ?xs" and t: "?t = window_weight (window_of m)"
    using ok by (auto simp: median_ok_def)
  have pos: "\<forall>x \<in> set ?xs. 0 < s_weight x" and srt: "sorted (map s_value ?xs)" using c by (auto simp: coherent_def)
  have ms: "mset (window_of m) = mset (map (\<lambda>x. (s_value x, s_weight x)) ?xs)"
    using window_mset [OF c] by (simp add: window_of_def)
  have "mset (expand_samples ?xs) = mset (expand (window_of m))" by (simp add: expand_samples_def mset_expand ms)
  moreover have "sorted (expand_samples ?xs)" unfolding expand_samples_def by (rule sorted_expand) (simp add: srt comp_def)
  ultimately have eq: "expand_samples ?xs = sort (expand (window_of m))" by (metis properties_for_sort)
  have "window_weight (map (\<lambda>x. (s_value x, s_weight x)) ?xs) = ?t"
    using arg_cong [OF ms, of "\<lambda>M. sum_mset (image_mset snd M)"]
    unfolding t window_weight_def by (metis mset_map sum_mset_sum_list)
  then have len: "int (length (expand_samples ?xs)) = ?t"
    unfolding expand_samples_def by (subst length_expand) (use pos in auto)
  obtain x ys where xs: "?xs = x # ys" using ne by (cases ?xs) (auto simp: HasSample_def)
  have "0 < length (expand_samples ?xs)" using pos xs by (simp add: expand_samples_def)
  then have t1: "1 \<le> ?t" using len by linarith
  have d: "?t sdiv 2 + ?t smod 2 = (?t + 1) div 2" using t1 by simp presburger
  have "median_scan ((?t + 1) div 2) 0 ?xs = expand_samples ?xs ! nat ((?t + 1) div 2 - 1)"
    using median_scan_nth [OF pos, of 0 "(?t + 1) div 2"] len t1 by simp
  then show ?thesis unfolding GetAverage_def d weighted_median_def eq [symmetric] t [symmetric] .
qed

section \<open>The interface\<close>

text \<open>
  \<open>util/averager.h\<close>: what the bandwidth meter relies on. A sample of positive weight is always
  taken, and after it there is an average.
\<close>

locale averager =
  fixes add :: "int \<Rightarrow> int \<Rightarrow> 'a \<Rightarrow> 'a result" and average :: "'a \<Rightarrow> int" and has_sample :: "'a \<Rightarrow> bool"
    and ok :: "'a \<Rightarrow> bool"
  assumes add_defined: "ok a \<Longrightarrow> 0 < w \<Longrightarrow> \<exists>a'. add w v a = Inr a' \<and> ok a' \<and> has_sample a'"
    and no_average: "ok a \<Longrightarrow> \<not> has_sample a \<Longrightarrow> average a = 0"

lemma trim_nonempty: "window_weight w > excess \<Longrightarrow> trim excess w \<noteq> [] \<or> w = []"
  by (induction excess w rule: trim.induct) (auto simp: window_weight_def)

lemma AddSample_has:
  assumes "median_ok m" "0 < w" "AddSample w v m = Inr m'"
  shows "HasSample m'"
proof -
  let ?e = "window_weight (window_of m) + w - sm_max_weight m"
  have "window_weight (window_of m @ [(v, w)]) > ?e" using assms(1) by (simp add: window_weight_def median_ok_def)
  then have "window_of m' \<noteq> []"
    using trim_nonempty [of ?e "window_of m @ [(v, w)]"] AddSample_refines [OF assms(1,2), of v] assms(3)
    by (auto simp: window_add_def)
  moreover have "coherent (sm_samples_by_index m') (sm_samples_by_value m')"
    using AddSample_refines [OF assms(1,2), of v] assms(3) by (auto simp: median_ok_def)
  ultimately show ?thesis by (auto simp: window_of_def HasSample_def coherent_def)
qed

interpretation sliding: averager AddSample GetAverage HasSample median_ok
proof
  fix m w v
  assume "median_ok m" "0 < (w::int)"
  then show "\<exists>m'. AddSample w v m = Inr m' \<and> median_ok m' \<and> HasSample m'"
    using AddSample_refines [of m w v] AddSample_has [of m w v] by blast
qed (simp add: HasSample_def GetAverage_def)

section \<open>Properties\<close>

definition demo_median :: sliding_median where
  "demo_median = \<lparr>sm_max_weight = 10, sm_samples_by_index = [3, 4],
     sm_samples_by_value = [\<lparr>s_id = 4, s_value = 50, s_weight = 2\<rparr>, \<lparr>s_id = 3, s_value = 70, s_weight = 6\<rparr>],
     sm_total_weight = 8, sm_next_id = 5\<rparr>"

lemma demo_median_ok: "median_ok demo_median" by code_simp

text \<open>
  The sliding median keeps exactly the recent observations: adding one never fails, appends it to
  the window and drops weight from the oldest ones until the total is at most the maximum; the
  cached total weight is the window's.
\<close>

theorem add_sample_refines_window:
  assumes "median_ok m" "0 < w"
  shows "\<exists>m'. AddSample w v m = Inr m' \<and> median_ok m' \<and>
    window_of m' = window_add (sm_max_weight m) w v (window_of m) \<and>
    sm_total_weight m' = min (sm_max_weight m) (sm_total_weight m + w)"
  using AddSample_refines [OF assms] by blast

theorem add_sample_refines_window_witness:
  "\<exists>m'. AddSample 5 60 demo_median = Inr m' \<and> window_of m' = [(70, 3), (50, 2), (60, 5)] \<and> sm_total_weight m' = 10"
proof -
  have "window_add 10 5 60 (window_of demo_median) = [(70, 3), (50, 2), (60, 5)]" by code_simp
  moreover have "sm_max_weight demo_median = 10" "sm_total_weight demo_median = 8" by (simp_all add: demo_median_def)
  ultimately show ?thesis using add_sample_refines_window [OF demo_median_ok, of 5 60] by auto
qed

text \<open>
  C27. The scan over the ordered samples computes the weighted median: the middle element (the lower one
  of two) of the window's values, each repeated as often as its weight, in increasing order.
\<close>

theorem get_average_is_median:
  assumes "median_ok m" "HasSample m"
  shows "GetAverage m = weighted_median (window_of m)"
  using assms by (rule GetAverage_median)

theorem get_average_is_median_witness:
  "GetAverage demo_median = 70 \<and> weighted_median (window_of demo_median) = 70"
proof -
  have "HasSample demo_median" "GetAverage demo_median = 70" by code_simp+
  then show ?thesis using get_average_is_median [OF demo_median_ok] by simp
qed

end
