(* ===== verification/Bandwidth_Meter.thy ===== *)
theory Bandwidth_Meter
  imports Sliding_Median
begin

text \<open>
  \<open>upstream/default_bandwidth_meter.cc\<close>: counts the bytes of open transfers and turns every finished
  transfer into a bandwidth sample. The averager is used through its interface: the two operations
  the meter calls are arguments of the definitions, and the results are proved once for every
  averager and then interpreted for the sliding median.

  Every operation holds the meter's lock for its whole state change, so operations of several
  threads interleave as whole steps. The time of a call is an argument. \<open>sqrt\<close> of the byte count,
  truncated to an integer, is \<open>isqrt\<close>.
\<close>

section \<open>Integer square root\<close>

fun isqrt :: "nat \<Rightarrow> nat" where
  "isqrt n = (if n = 0 then 0 else let r = 2 * isqrt (n div 4) in if (r + 1) * (r + 1) \<le> n then r + 1 else r)"

declare isqrt.simps [simp del]

lemma isqrt_bounds: "isqrt n * isqrt n \<le> n \<and> n < (isqrt n + 1) * (isqrt n + 1)"
proof (induction n rule: isqrt.induct)
  case (1 n)
  show ?case
  proof (cases "n = 0")
    case True
    then show ?thesis by (simp add: isqrt.simps)
  next
    case False
    let ?q = "isqrt (n div 4)"
    have q: "?q * ?q \<le> n div 4" "n div 4 < (?q + 1) * (?q + 1)" using 1 [OF False] by auto
    have lo: "2 * ?q * (2 * ?q) \<le> n" using q(1) by simp
    have "n div 4 + 1 \<le> (?q + 1) * (?q + 1)" using q(2) by simp
    then have "4 * (n div 4) + 4 \<le> 4 * ((?q + 1) * (?q + 1))" by simp
    moreover have "n < 4 * (n div 4) + 4" by simp
    ultimately have hi: "n < (2 * ?q + 2) * (2 * ?q + 2)" by (simp add: algebra_simps)
    show ?thesis using lo hi False by (subst (1 2 3 4) isqrt.simps) (auto simp: Let_def)
  qed
qed

lemma isqrt_pos: "0 < n \<Longrightarrow> 0 < isqrt n"
  using isqrt_bounds [of n] by (cases "isqrt n") auto

section \<open>State\<close>

record 'a bandwidth_meter =
  bm_has_sample_cb :: bool
  bm_averager :: 'a
  bm_bytes_accumulator :: int
  bm_start_time :: int
  bm_bitrate_estimate :: int
  bm_stream_count :: int
  bm_posted :: "(int \<times> int \<times> int) list"

definition kNoEstimate :: int where
  "kNoEstimate = -1"

definition kBitsPerByte :: int where
  "kBitsPerByte = 8"

definition kDefaultMaxWeight :: int where
  "kDefaultMaxWeight = 20000"

definition DefaultBandwidthMeter_new :: "bool \<Rightarrow> 'a \<Rightarrow> 'a bandwidth_meter" where
  "DefaultBandwidthMeter_new has_cb a =
     \<lparr>bm_has_sample_cb = has_cb, bm_averager = a, bm_bytes_accumulator = 0, bm_start_time = 0,
      bm_bitrate_estimate = kNoEstimate, bm_stream_count = 0, bm_posted = []\<rparr>"

section \<open>Operations\<close>

definition GetBitrateEstimate :: "'a bandwidth_meter \<Rightarrow> int" where
  "GetBitrateEstimate m = bm_bitrate_estimate m"

definition OnTransferStart :: "int \<Rightarrow> 'a bandwidth_meter \<Rightarrow> 'a bandwidth_meter" where
  "OnTransferStart now m =
     (let m1 = m\<lparr>bm_stream_count := bm_stream_count m + 1\<rparr>
      in if bm_stream_count m = 0 then m1\<lparr>bm_start_time := now\<rparr> else m1)"

definition OnBytesTransferred :: "int \<Rightarrow> 'a bandwidth_meter \<Rightarrow> 'a bandwidth_meter" where
  "OnBytesTransferred bytes m = m\<lparr>bm_bytes_accumulator := bm_bytes_accumulator m + bytes\<rparr>"

text \<open>The sample is posted to the callback's task runner, when there is a callback.\<close>

definition NotifyBandwidthSample :: "int \<Rightarrow> int \<Rightarrow> int \<Rightarrow> 'a bandwidth_meter \<Rightarrow> 'a bandwidth_meter" where
  "NotifyBandwidthSample elapsed bytes bitrate m =
     (if bm_has_sample_cb m then m\<lparr>bm_posted := bm_posted m @ [(elapsed, bytes, bitrate)]\<rparr> else m)"

definition OnTransferEnd ::
  "(int \<Rightarrow> int \<Rightarrow> 'a \<Rightarrow> 'a result) \<Rightarrow> ('a \<Rightarrow> int) \<Rightarrow> int \<Rightarrow> 'a bandwidth_meter \<Rightarrow> 'a bandwidth_meter result" where
  "OnTransferEnd add average now m =
     (let elapsed = now - bm_start_time m;
          accumulator = bm_bytes_accumulator m;
          finish = (\<lambda>x. x\<lparr>bm_stream_count := bm_stream_count x - 1, bm_start_time := now,
                           bm_bytes_accumulator := 0\<rparr>)
      in if elapsed > 0 \<and> accumulator > 0
         then (let bits_per_second = accumulator * kBitsPerByte * kMicrosPerSecond sdiv elapsed
               in and_then (add (int (isqrt (nat accumulator))) bits_per_second (bm_averager m)) (\<lambda>a.
                    (let bandwidth_estimate = (if average a \<le> 0 then kNoEstimate else average a)
                     in Inr (NotifyBandwidthSample elapsed accumulator bandwidth_estimate
                          (finish (m\<lparr>bm_averager := a, bm_bitrate_estimate := bandwidth_estimate\<rparr>))))))
         else Inr (finish m))"

section \<open>Use of the interface\<close>

text \<open>The listener's protocol: bytes and ends only while a transfer is open (the source's \<open>DCHECK\<close>s).\<close>

inductive meter_step ::
  "(int \<Rightarrow> int \<Rightarrow> 'a \<Rightarrow> 'a result) \<Rightarrow> ('a \<Rightarrow> int) \<Rightarrow> 'a bandwidth_meter \<Rightarrow> 'a bandwidth_meter \<Rightarrow> bool"
  for add average where
  transfer_start: "meter_step add average m (OnTransferStart now m)"
| bytes_transferred: "0 < bm_stream_count m \<Longrightarrow> 0 < bytes \<Longrightarrow> meter_step add average m (OnBytesTransferred bytes m)"
| transfer_end: "0 < bm_stream_count m \<Longrightarrow> OnTransferEnd add average now m = Inr m' \<Longrightarrow> meter_step add average m m'"

definition meter_reach ::
  "(int \<Rightarrow> int \<Rightarrow> 'a \<Rightarrow> 'a result) \<Rightarrow> ('a \<Rightarrow> int) \<Rightarrow> 'a \<Rightarrow> 'a bandwidth_meter \<Rightarrow> bool" where
  "meter_reach add average a m \<longleftrightarrow> (\<exists>cb. (meter_step add average)\<^sup>*\<^sup>* (DefaultBandwidthMeter_new cb a) m)"

definition meter_inv :: "('a \<Rightarrow> bool) \<Rightarrow> 'a bandwidth_meter \<Rightarrow> bool" where
  "meter_inv ok m \<longleftrightarrow> ok (bm_averager m) \<and> 0 \<le> bm_stream_count m \<and> 0 \<le> bm_bytes_accumulator m \<and>
     (bm_stream_count m = 0 \<longrightarrow> bm_bytes_accumulator m = 0) \<and>
     (bm_bitrate_estimate m = kNoEstimate \<or> 0 < bm_bitrate_estimate m)"

lemma NotifyBandwidthSample_simps [simp]:
  "bm_averager (NotifyBandwidthSample e b r m) = bm_averager m"
  "bm_bytes_accumulator (NotifyBandwidthSample e b r m) = bm_bytes_accumulator m"
  "bm_start_time (NotifyBandwidthSample e b r m) = bm_start_time m"
  "bm_bitrate_estimate (NotifyBandwidthSample e b r m) = bm_bitrate_estimate m"
  "bm_stream_count (NotifyBandwidthSample e b r m) = bm_stream_count m"
  by (simp_all add: NotifyBandwidthSample_def)

context averager
begin

lemma transfer_end_defined:
  assumes "meter_inv ok m"
  shows "\<exists>m'. OnTransferEnd add average now m = Inr m'"
proof (cases "now - bm_start_time m > 0 \<and> bm_bytes_accumulator m > 0")
  case True
  have "0 < int (isqrt (nat (bm_bytes_accumulator m)))" using isqrt_pos True by simp
  then obtain a' where "add (int (isqrt (nat (bm_bytes_accumulator m))))
      (bm_bytes_accumulator m * kBitsPerByte * kMicrosPerSecond sdiv (now - bm_start_time m)) (bm_averager m) = Inr a'"
    using add_defined assms unfolding meter_inv_def by blast
  then show ?thesis using True by (simp add: OnTransferEnd_def Let_def)
qed (auto simp: OnTransferEnd_def Let_def)

lemma meter_inv_step:
  assumes "meter_step add average m m'" "meter_inv ok m"
  shows "meter_inv ok m'"
  using assms
proof (cases rule: meter_step.cases)
  case (transfer_end now)
  show ?thesis
  proof (cases "now - bm_start_time m > 0 \<and> bm_bytes_accumulator m > 0")
    case True
    let ?w = "int (isqrt (nat (bm_bytes_accumulator m)))"
    let ?v = "bm_bytes_accumulator m * kBitsPerByte * kMicrosPerSecond sdiv (now - bm_start_time m)"
    have "0 < ?w" using isqrt_pos True by simp
    then obtain a where a: "add ?w ?v (bm_averager m) = Inr a" "ok a"
      using add_defined assms(2) unfolding meter_inv_def by blast
    then show ?thesis
      using transfer_end True assms(2) by (auto simp: OnTransferEnd_def Let_def meter_inv_def)
  next
    case False
    then show ?thesis using transfer_end assms(2) by (auto simp: OnTransferEnd_def Let_def meter_inv_def)
  qed
qed (auto simp: meter_inv_def OnTransferStart_def OnBytesTransferred_def Let_def)

lemma meter_reach_inv: "meter_reach add average a m \<Longrightarrow> ok a \<Longrightarrow> meter_inv ok m"
  unfolding meter_reach_def
proof (elim exE)
  fix cb
  assume "(meter_step add average)\<^sup>*\<^sup>* (DefaultBandwidthMeter_new cb a) m" "ok a"
  then show "meter_inv ok m"
  proof (induction rule: rtranclp_induct)
    case base
    then show ?case by (simp add: meter_inv_def DefaultBandwidthMeter_new_def)
  next
    case (step y z)
    then show ?case using meter_inv_step by blast
  qed
qed

end

section \<open>Properties\<close>

text \<open>
  Under the listener's protocol the meter never faults and stays consistent, for the sliding
  median it is built with: no transfer is counted below zero, no bytes are left over when no
  transfer is open (which \<open>OnTransferStart\<close> asserts), the estimate is unknown or positive, and ending
  a transfer always succeeds.
\<close>

theorem meter_reachable_safe:
  assumes "meter_reach AddSample GetAverage a m" "median_ok a"
  shows "0 \<le> bm_stream_count m \<and> (bm_stream_count m = 0 \<longrightarrow> bm_bytes_accumulator m = 0) \<and>
    (bm_bitrate_estimate m = kNoEstimate \<or> 0 < bm_bitrate_estimate m) \<and>
    (\<exists>m'. OnTransferEnd AddSample GetAverage now m = Inr m')"
proof -
  have i: "meter_inv median_ok m" using assms by (rule sliding.meter_reach_inv)
  from i sliding.transfer_end_defined [OF i, of now] show ?thesis by (auto simp: meter_inv_def)
qed

definition fresh_median :: sliding_median where
  "fresh_median = \<lparr>sm_max_weight = kDefaultMaxWeight, sm_samples_by_index = [], sm_samples_by_value = [],
     sm_total_weight = 0, sm_next_id = 0\<rparr>"

lemma fresh_median_new: "SlidingMedian_new kDefaultMaxWeight = Inr fresh_median" "median_ok fresh_median"
  by code_simp+

definition one_transfer :: "sliding_median bandwidth_meter" where
  "one_transfer = OnBytesTransferred 1000000 (OnTransferStart 5 (DefaultBandwidthMeter_new True fresh_median))"

lemma one_transfer_reach: "meter_reach AddSample GetAverage fresh_median one_transfer"
proof -
  let ?m = "DefaultBandwidthMeter_new True fresh_median"
  have "meter_step AddSample GetAverage ?m (OnTransferStart 5 ?m)" by (rule transfer_start)
  moreover have "meter_step AddSample GetAverage (OnTransferStart 5 ?m) one_transfer"
    unfolding one_transfer_def
    by (rule bytes_transferred) (simp_all add: OnTransferStart_def DefaultBandwidthMeter_new_def)
  ultimately show ?thesis unfolding meter_reach_def by (meson r_into_rtranclp rtranclp_trans)
qed

theorem meter_reachable_safe_witness:
  "meter_reach AddSample GetAverage fresh_median one_transfer \<and>
   (\<exists>m'. OnTransferEnd AddSample GetAverage 1000005 one_transfer = Inr m')"
  using meter_reachable_safe [OF one_transfer_reach fresh_median_new(2), of 1000005] one_transfer_reach by blast

text \<open>
  A finished transfer that moved bytes in measurable time makes the estimate the weighted median of
  the sliding window extended by its own rate, weighted by the square root of its size; the callback
  gets the elapsed time, the bytes and that estimate.
\<close>

theorem transfer_end_updates_estimate:
  assumes "median_ok (bm_averager m)" "0 < bm_bytes_accumulator m" "bm_start_time m < now"
  defines "rate \<equiv> bm_bytes_accumulator m * 8000000 div (now - bm_start_time m)"
    and "weight \<equiv> int (isqrt (nat (bm_bytes_accumulator m)))"
  shows "\<exists>m' w. OnTransferEnd AddSample GetAverage now m = Inr m' \<and>
    w = window_add (sm_max_weight (bm_averager m)) weight rate (window_of (bm_averager m)) \<and>
    window_of (bm_averager m') = w \<and>
    GetBitrateEstimate m' = (if weighted_median w \<le> 0 then kNoEstimate else weighted_median w) \<and>
    bm_bytes_accumulator m' = 0 \<and> bm_start_time m' = now \<and>
    bm_posted m' = bm_posted m @ (if bm_has_sample_cb m
      then [(now - bm_start_time m, bm_bytes_accumulator m, GetBitrateEstimate m')] else [])"
proof -
  have w: "0 < weight" using isqrt_pos assms(2) by (simp add: weight_def)
  obtain a where a: "AddSample weight rate (bm_averager m) = Inr a" "median_ok a"
      "window_of a = window_add (sm_max_weight (bm_averager m)) weight rate (window_of (bm_averager m))"
    using AddSample_refines [OF assms(1) w, of rate] by blast
  have avg: "GetAverage a = weighted_median (window_of a)"
    using GetAverage_median [OF a(2)] AddSample_has [OF assms(1) w a(1)] .
  have "bm_bytes_accumulator m * kBitsPerByte * kMicrosPerSecond sdiv (now - bm_start_time m) = rate"
    using assms(2,3) by (simp add: rate_def kBitsPerByte_def kMicrosPerSecond_def mult.commute)
  then show ?thesis
    using assms(2,3) a avg
    by (simp add: OnTransferEnd_def weight_def [symmetric] NotifyBandwidthSample_def GetBitrateEstimate_def Let_def)
qed

theorem transfer_end_updates_estimate_witness:
  "\<exists>m'. OnTransferEnd AddSample GetAverage 1000005 one_transfer = Inr m' \<and>
     window_of (bm_averager m') = [(8000000, 1000)] \<and> GetBitrateEstimate m' = 8000000"
proof -
  have "bm_averager one_transfer = fresh_median" "bm_bytes_accumulator one_transfer = 1000000"
      "bm_start_time one_transfer = 5"
    by code_simp+
  moreover have "isqrt 1000000 = 1000" by (simp add: isqrt.simps Let_def)
  moreover have "window_add (sm_max_weight fresh_median) 1000 8000000 (window_of fresh_median) = [(8000000, 1000)]"
    by code_simp
  moreover have "weighted_median [(8000000, 1000)] = 8000000"
    by (rule weighted_median_single) simp
  ultimately show ?thesis
    using transfer_end_updates_estimate [of one_transfer 1000005] fresh_median_new(2) by auto
qed

end
