(* ===== verification/Mime_Types.thy ===== *)
theory Mime_Types
  imports Ndash_Prelude "HOL-Library.Sublist"
begin

text \<open>
  MIME types and codec lists (\<open>util/mime_types.cc\<close>), with the string splitter of the bundled
  \<open>base/strings/string_split.cc\<close> they call. The theorems show that splitting undoes joining, so that
  the first recognised codec of a comma-separated list decides the media type, and that the top-level
  type and the sub-type are the two halves of a type.
\<close>

section \<open>Splitting (base/strings/string_split.cc, string_util.cc)\<close>

definition kWhitespaceASCII :: "char list" where
  "kWhitespaceASCII = [CHR 0x09, CHR 0x0A, CHR 0x0B, CHR 0x0C, CHR 0x0D, CHR 0x20]"

definition is_whitespace :: "char \<Rightarrow> bool" where
  "is_whitespace c \<longleftrightarrow> c \<in> set kWhitespaceASCII"

definition TrimString :: "string \<Rightarrow> string" where
  "TrimString s = rev (dropWhile is_whitespace (rev (dropWhile is_whitespace s)))"

text \<open>The pieces between delimiters: one more than there are delimiters.\<close>

function split_pieces :: "char \<Rightarrow> string \<Rightarrow> string list" where
  "split_pieces delimiter str =
     (let piece = takeWhile (\<lambda>c. c \<noteq> delimiter) str
      in case dropWhile (\<lambda>c. c \<noteq> delimiter) str of
           [] \<Rightarrow> [piece]
         | _ # rest \<Rightarrow> piece # split_pieces delimiter rest)"
  by pat_completeness auto

termination
proof (relation "measure (\<lambda>(c, s). length s)")
  fix c and str rest :: string and d x piece
  assume "dropWhile (\<lambda>e. e \<noteq> c) str = d # rest"
  then show "((c, rest), (c, str)) \<in> measure (\<lambda>(c, s). length s)"
    using length_dropWhile_le [of "\<lambda>e. e \<noteq> c" str] by simp
qed simp

declare split_pieces.simps [simp del]

definition SplitStringPiece :: "string \<Rightarrow> char \<Rightarrow> bool \<Rightarrow> bool \<Rightarrow> string list" where
  "SplitStringPiece str delimiter trim_whitespace want_all =
     (if str = [] then []
      else filter (\<lambda>p. want_all \<or> p \<noteq> [])
             (map (\<lambda>p. if trim_whitespace then TrimString p else p) (split_pieces delimiter str)))"

definition StartsWith :: "string \<Rightarrow> string \<Rightarrow> bool" where
  "StartsWith str search_for \<longleftrightarrow> length search_for \<le> length str \<and> take (length search_for) str = search_for"

section \<open>MIME types\<close>

definition GetTopLevelType :: "string \<Rightarrow> string option" where
  "GetTopLevelType mime_type =
     (let k = takeWhile (\<lambda>c. c \<noteq> CHR ''/'') mime_type in if length k < length mime_type then Some k else None)"

definition GetSubType :: "string \<Rightarrow> string option" where
  "GetSubType mime_type =
     (let k = takeWhile (\<lambda>c. c \<noteq> CHR ''/'') mime_type
      in if length k < length mime_type then Some (drop (length k + 1) mime_type) else None)"

definition IsApplication :: "string \<Rightarrow> bool" where
  "IsApplication mime_type \<longleftrightarrow> GetTopLevelType mime_type = Some ''application''"

definition IsText :: "string \<Rightarrow> bool" where
  "IsText mime_type \<longleftrightarrow> mime_type = ''application/x-rawcc'' \<or> mime_type = ''text/vtt'' \<or>
     mime_type = ''application/ttml+xml''"

definition IsAudio :: "string \<Rightarrow> bool" where
  "IsAudio mime_type \<longleftrightarrow> GetTopLevelType mime_type = Some ''audio''"

definition IsVideo :: "string \<Rightarrow> bool" where
  "IsVideo mime_type \<longleftrightarrow> GetTopLevelType mime_type = Some ''video''"

section \<open>Codecs\<close>

definition video_codec_mime :: "string \<Rightarrow> string option" where
  "video_codec_mime codec =
     (if StartsWith codec ''avc1'' \<or> StartsWith codec ''avc3'' then Some ''video/avc''
      else if StartsWith codec ''hev1'' \<or> StartsWith codec ''hvc1'' then Some ''video/hevc''
      else if StartsWith codec ''vp9'' then Some ''video/x-vnd.on2.vp9''
      else if StartsWith codec ''vp8'' then Some ''video/x-vnd.on2.vp8''
      else None)"

definition audio_codec_mime :: "string \<Rightarrow> string option" where
  "audio_codec_mime codec =
     (if StartsWith codec ''mp4a'' then Some ''audio/mp4a-latm''
      else if StartsWith codec ''ac-3'' \<or> StartsWith codec ''dac3'' then Some ''audio/ac3''
      else if StartsWith codec ''ec-3'' \<or> StartsWith codec ''dec3'' then Some ''audio/eac3''
      else if StartsWith codec ''dtsc'' then Some ''audio/vnd.dts''
      else if StartsWith codec ''dtsh'' \<or> StartsWith codec ''dts1'' then Some ''audio/vnd.dts.hd''
      else if StartsWith codec ''dtse'' then Some ''audio/vnd.dts.hd;profile=lbr''
      else if StartsWith codec ''opus'' then Some ''audio/opus''
      else if StartsWith codec ''vorbis'' then Some ''audio/vorbis''
      else None)"

text \<open>The loop over the pieces: the first recognised one returns.\<close>

fun first_recognised :: "(string \<Rightarrow> string option) \<Rightarrow> string \<Rightarrow> string list \<Rightarrow> string" where
  "first_recognised recognise unknown [] = unknown"
| "first_recognised recognise unknown (codec # codecs) =
     (case recognise codec of Some mime \<Rightarrow> mime | None \<Rightarrow> first_recognised recognise unknown codecs)"

definition GetVideoMediaMimeType :: "string \<Rightarrow> string" where
  "GetVideoMediaMimeType codecs =
     first_recognised video_codec_mime ''video/x-unknown'' (SplitStringPiece codecs CHR '','' True False)"

definition GetAudioMediaMimeType :: "string \<Rightarrow> string" where
  "GetAudioMediaMimeType codecs =
     first_recognised audio_codec_mime ''audio/x-unknown'' (SplitStringPiece codecs CHR '','' True False)"

section \<open>Splitting undoes joining\<close>

fun join_with :: "char \<Rightarrow> string list \<Rightarrow> string" where
  "join_with c [] = []"
| "join_with c [p] = p"
| "join_with c (p # q # ps) = p @ c # join_with c (q # ps)"

lemma split_pieces_last: "c \<notin> set p \<Longrightarrow> split_pieces c p = [p]"
proof -
  assume "c \<notin> set p"
  then have p: "takeWhile (\<lambda>d. d \<noteq> c) p = p" "dropWhile (\<lambda>d. d \<noteq> c) p = []" by (auto simp: takeWhile_eq_all_conv)
  show ?thesis by (subst split_pieces.simps) (simp only: Let_def p list.case)
qed

lemma split_pieces_step: "c \<notin> set p \<Longrightarrow> split_pieces c (p @ c # s) = p # split_pieces c s"
proof -
  assume c: "c \<notin> set p"
  then have "takeWhile (\<lambda>d. d \<noteq> c) (p @ c # s) = p" "dropWhile (\<lambda>d. d \<noteq> c) (p @ c # s) = c # s"
    by (auto simp: takeWhile_append dropWhile_append)
  then show ?thesis by (subst split_pieces.simps) (simp add: Let_def)
qed

lemma split_pieces_join:
  "ps \<noteq> [] \<Longrightarrow> (\<And>p. p \<in> set ps \<Longrightarrow> c \<notin> set p) \<Longrightarrow> split_pieces c (join_with c ps) = ps"
  by (induction c ps rule: join_with.induct) (simp_all add: split_pieces_last split_pieces_step)

text \<open>A codec as manifests write it, with the blanks around it that trimming removes.\<close>

definition codec_word :: "string \<Rightarrow> bool" where
  "codec_word p \<longleftrightarrow> p \<noteq> [] \<and> CHR '','' \<notin> set p \<and> \<not> is_whitespace (hd p) \<and> \<not> is_whitespace (last p)"

lemma TrimString_padded:
  assumes "list_all is_whitespace pre" "list_all is_whitespace post" "codec_word p"
  shows "TrimString (pre @ p @ post) = p"
proof -
  have "dropWhile is_whitespace (pre @ p @ post) = p @ post"
    using assms by (cases p) (auto simp: list_all_iff dropWhile_append codec_word_def)
  moreover have "dropWhile is_whitespace (rev post @ rev p) = rev p"
    using assms by (cases p rule: rev_cases) (auto simp: list_all_iff dropWhile_append codec_word_def)
  ultimately show ?thesis by (simp add: TrimString_def)
qed

lemma first_recognised_map:
  "first_recognised f u ps = (case find (\<lambda>p. f p \<noteq> None) ps of None \<Rightarrow> u | Some p \<Rightarrow> the (f p))"
  by (induction ps) (auto split: option.splits)

definition padded :: "string \<times> string \<times> string \<Rightarrow> string" where
  "padded = (\<lambda>(pre, p, post). pre @ p @ post)"

definition padded_ok :: "string \<times> string \<times> string \<Rightarrow> bool" where
  "padded_ok = (\<lambda>(pre, p, post). list_all is_whitespace pre \<and> list_all is_whitespace post \<and> codec_word p)"

lemma comma_not_whitespace: "\<not> is_whitespace CHR '',''"
  by (simp add: is_whitespace_def kWhitespaceASCII_def)

lemma SplitStringPiece_join:
  assumes "ts \<noteq> []" "list_all padded_ok ts"
  shows "SplitStringPiece (join_with CHR '','' (map padded ts)) CHR '','' True False = map (\<lambda>(pre, p, post). p) ts"
proof -
  have nc: "CHR '','' \<notin> set (padded t)" if "t \<in> set ts" for t
    using that assms(2) comma_not_whitespace by (auto simp: list_all_iff padded_ok_def padded_def codec_word_def)
  have sp: "split_pieces CHR '','' (join_with CHR '','' (map padded ts)) = map padded ts"
    by (rule split_pieces_join) (use assms(1) nc in auto)
  have ne: "padded t \<noteq> []" if "t \<in> set ts" for t
    using that assms(2) by (auto simp: list_all_iff padded_ok_def padded_def codec_word_def)
  have "join_with CHR '','' (map padded ts) \<noteq> []"
    using assms(1) ne by (cases ts rule: remdups_adj.cases) auto
  moreover have "map TrimString (map padded ts) = map (\<lambda>(pre, p, post). p) ts"
    using assms(2) by (auto simp: list_all_iff padded_ok_def padded_def TrimString_padded)
  moreover have "filter (\<lambda>p. p \<noteq> []) (map (\<lambda>(pre, p, post). p) ts) = map (\<lambda>(pre, p, post). p) ts"
    using assms(2) by (auto simp: filter_id_conv list_all_iff padded_ok_def codec_word_def)
  ultimately show ?thesis by (simp add: SplitStringPiece_def sp del: map_map)
qed

text \<open>
  In a comma-separated list of codecs, each possibly surrounded by blanks, the first
  codec the player recognises decides the media type, and an unrecognised list gives the unknown type.
\<close>

theorem codec_list_first_recognised:
  assumes "ts \<noteq> []" "list_all padded_ok ts"
  shows "GetVideoMediaMimeType (join_with CHR '','' (map padded ts)) =
      (case find (\<lambda>p. video_codec_mime p \<noteq> None) (map (\<lambda>(pre, p, post). p) ts) of
         None \<Rightarrow> ''video/x-unknown'' | Some p \<Rightarrow> the (video_codec_mime p))"
    and "GetAudioMediaMimeType (join_with CHR '','' (map padded ts)) =
      (case find (\<lambda>p. audio_codec_mime p \<noteq> None) (map (\<lambda>(pre, p, post). p) ts) of
         None \<Rightarrow> ''audio/x-unknown'' | Some p \<Rightarrow> the (audio_codec_mime p))"
  unfolding GetVideoMediaMimeType_def GetAudioMediaMimeType_def SplitStringPiece_join [OF assms]
  by (simp_all add: first_recognised_map)

theorem codec_list_first_recognised_witness:
  "GetVideoMediaMimeType ''mp4a.40.2, avc1.4d401f'' = ''video/avc'' \<and>
   GetAudioMediaMimeType ''mp4a.40.2, avc1.4d401f'' = ''audio/mp4a-latm''"
proof -
  let ?ts = "[([], ''mp4a.40.2'', []), ('' '', ''avc1.4d401f'', [])]"
  have ok: "?ts \<noteq> []" "list_all padded_ok ?ts"
    by (simp_all add: padded_ok_def codec_word_def is_whitespace_def kWhitespaceASCII_def)
  from codec_list_first_recognised [OF ok] show ?thesis
    by (simp add: padded_def video_codec_mime_def audio_codec_mime_def StartsWith_def)
qed

text \<open>
  A type with a slash is its top-level type, the slash and its sub-type; the two
  accessors fail on exactly the same inputs.
\<close>

theorem mime_halves:
  "mime = (case (GetTopLevelType mime, GetSubType mime) of (Some t, Some sub) \<Rightarrow> t @ CHR ''/'' # sub | _ \<Rightarrow> mime) \<and>
   (GetTopLevelType mime = None \<longleftrightarrow> GetSubType mime = None) \<and>
   (GetTopLevelType mime = None \<longleftrightarrow> CHR ''/'' \<notin> set mime)"
proof -
  let ?k = "takeWhile (\<lambda>c. c \<noteq> CHR ''/'') mime" and ?d = "dropWhile (\<lambda>c. c \<noteq> CHR ''/'') mime"
  have eq: "mime = ?k @ ?d" by simp
  have "length mime = length ?k + length ?d" by (metis eq length_append)
  then have len: "length ?k < length mime \<longleftrightarrow> ?d \<noteq> []" by (cases ?d) simp_all
  have d: "?d = CHR ''/'' # drop (length ?k + 1) mime" if "?d \<noteq> []"
  proof -
    have "hd ?d = CHR ''/''" using hd_dropWhile [OF that] by simp
    moreover have "tl ?d = drop (length ?k + 1) mime"
      by (simp add: dropWhile_eq_drop drop_Suc tl_drop)
    ultimately show ?thesis using that by (metis list.collapse)
  qed
  have ns: "?d = [] \<longleftrightarrow> CHR ''/'' \<notin> set mime" by (auto simp: dropWhile_eq_Nil_conv)
  show ?thesis
  proof (cases "?d = []")
    case True
    then show ?thesis using len ns by (simp add: GetTopLevelType_def GetSubType_def Let_def)
  next
    case False
    then have "mime = ?k @ CHR ''/'' # drop (length ?k + 1) mime" using d eq by metis
    then show ?thesis using len ns False by (simp add: GetTopLevelType_def GetSubType_def Let_def)
  qed
qed

end
