(* ===== verification/Format_Evaluators.thy ===== *)
theory Format_Evaluators
  imports Presentation Bandwidth_Meter Mime_Types
begin

text \<open>
  Choosing the format of the next chunk (\<open>chunk/adaptive_evaluator.cc\<close>, \<open>chunk/demo_evaluator.cc\<close>,
  \<open>chunk/fixed_evaluator.cc\<close>, \<open>playback_rate.h\<close>).
  The adaptive evaluator scans the formats twice, once for the right playout rate and once for the
  right bitrate; the theorems compare the scans with a declarative choice and show how the buffer
  limits switching. A rate is the rational number the \<open>float\<close> denotes.

  The source compares the evaluation's format and the ideal one by address to avoid a copy; the
  copy has the same value, so the format afterwards is the ideal one in both cases. Logging is left
  out.
\<close>

section \<open>Playback rate\<close>

type_synonym playback_rate = rat

definition abs_rate :: "playback_rate \<Rightarrow> rat" where
  "abs_rate r = \<bar>r\<bar>"

definition GetMagnitude :: "playback_rate \<Rightarrow> rat" where
  "GetMagnitude r = \<bar>r\<bar>"

definition IsForward :: "playback_rate \<Rightarrow> bool" where
  "IsForward r \<longleftrightarrow> r \<ge> 0"

definition IsNormal :: "playback_rate \<Rightarrow> bool" where
  "IsNormal r \<longleftrightarrow> r = 1"

definition IsTrick :: "playback_rate \<Rightarrow> bool" where
  "IsTrick r \<longleftrightarrow> r \<noteq> 1"

definition to_float :: "int \<Rightarrow> rat" where
  "to_float i = fp_round 24 (of_int i)"

section \<open>Chunks and evaluations\<close>

record media_chunk =
  mc_format :: format
  mc_trigger :: int
  mc_start_time_us :: int
  mc_end_time_us :: int
  mc_chunk_index :: int
  mc_parent_id :: int

definition kTriggerInitial :: int where "kTriggerInitial = 1"
definition kTriggerAdaptive :: int where "kTriggerAdaptive = 3"

record format_evaluation =
  fe_queue_size :: int
  fe_trigger :: int
  fe_format :: "format option"

definition FormatEvaluation_new :: format_evaluation where
  "FormatEvaluation_new = \<lparr>fe_queue_size = 0, fe_trigger = kTriggerInitial, fe_format = None\<rparr>"

section \<open>The adaptive evaluator\<close>

record adaptive_evaluator =
  ae_max_initial_bitrate :: int
  ae_min_duration_for_quality_increase :: int
  ae_max_duration_for_quality_decrease :: int
  ae_min_duration_to_retain_after_discard :: int
  ae_bandwidth_fraction :: rat

definition kMinHdHeight :: int where "kMinHdHeight = 720"
definition kMinHdWidth :: int where "kMinHdWidth = 1280"

definition AdaptiveEvaluator_default :: adaptive_evaluator where
  "AdaptiveEvaluator_default =
     \<lparr>ae_max_initial_bitrate = 16000000, ae_min_duration_for_quality_increase = 10000 * 1000,
      ae_max_duration_for_quality_decrease = 25000 * 1000,
      ae_min_duration_to_retain_after_discard = 15000 * 1000, ae_bandwidth_fraction = fp_round 24 (9 / 10)\<rparr>"

text \<open>One step of the filter by playout rate.\<close>

definition filter_step :: "rat \<Rightarrow> format list \<Rightarrow> format \<Rightarrow> format list" where
  "filter_step rate filtered_formats f =
     (case filtered_formats of
        [] \<Rightarrow> [f]
      | front # _ \<Rightarrow>
          (let filter_rate = to_float (fmt_max_playout_rate front);
               current_rate = to_float (fmt_max_playout_rate f)
           in if filter_rate = current_rate then filtered_formats @ [f]
              else if filter_rate < rate then (if current_rate > filter_rate then [f] else filtered_formats)
              else if current_rate \<ge> rate \<and> current_rate < filter_rate then [f]
              else filtered_formats))"

definition best_step :: "int \<Rightarrow> format option \<Rightarrow> format \<Rightarrow> format option" where
  "best_step effective_bitrate best_so_far f =
     (case best_so_far of
        None \<Rightarrow> Some f
      | Some b \<Rightarrow>
          if fmt_bitrate b > effective_bitrate \<and> fmt_bitrate f < fmt_bitrate b \<or>
             fmt_bitrate f \<le> effective_bitrate \<and> fmt_bitrate f > fmt_bitrate b
          then Some f else Some b)"

definition DetermineIdealFormat :: "format list \<Rightarrow> int \<Rightarrow> playback_rate \<Rightarrow> format option result" where
  "DetermineIdealFormat formats effective_bitrate playback_rate =
     (if formats = [] then Inl Check_failed
      else Inr (foldl (best_step effective_bitrate) None
                  (foldl (filter_step (abs_rate playback_rate)) [] formats)))"

text \<open>\<open>llrint\<close> of the estimate times the fraction, rounded to nearest. The source never calls it.\<close>

definition EffectiveBitrate :: "adaptive_evaluator \<Rightarrow> int \<Rightarrow> int" where
  "EffectiveBitrate e bitrate_estimate =
     (if bitrate_estimate = kNoEstimate then ae_max_initial_bitrate e
      else round_half_even (fp_round 24 (fp_round 24 (of_int bitrate_estimate) * ae_bandwidth_fraction e)))"

text \<open>The scan for the first queued chunk worth replacing, from index 1.\<close>

fun discard_from :: "adaptive_evaluator \<Rightarrow> format \<Rightarrow> int \<Rightarrow> media_chunk list \<Rightarrow> int \<Rightarrow> int option" where
  "discard_from e ideal playback_position [] i = None"
| "discard_from e ideal playback_position (c # cs) i =
     (if mc_start_time_us c - playback_position \<ge> ae_min_duration_to_retain_after_discard e \<and>
         fmt_bitrate (mc_format c) < fmt_bitrate ideal \<and> fmt_height (mc_format c) < fmt_height ideal \<and>
         fmt_height (mc_format c) < kMinHdHeight \<and> fmt_width (mc_format c) < kMinHdWidth
      then Some i else discard_from e ideal playback_position cs (i + 1))"

definition buffered_duration :: "media_chunk list \<Rightarrow> int \<Rightarrow> int" where
  "buffered_duration queue playback_position =
     (if queue = [] then 0 else mc_end_time_us (last queue) - playback_position)"

definition AdaptiveEvaluator_Evaluate ::
  "adaptive_evaluator \<Rightarrow> int \<Rightarrow> media_chunk list \<Rightarrow> int \<Rightarrow> format list \<Rightarrow> playback_rate \<Rightarrow>
   format_evaluation \<Rightarrow> format_evaluation result" where
  "AdaptiveEvaluator_Evaluate e bitrate_estimate queue playback_position formats playback_rate evaluation =
     and_then (DetermineIdealFormat formats bitrate_estimate playback_rate) (\<lambda>ideal0.
       (let buffered = buffered_duration queue playback_position;
            current = fe_format evaluation;
            (ideal, evaluation1) =
              (case (ideal0, current) of
                 (Some i, Some c) \<Rightarrow>
                   if fmt_bitrate i > fmt_bitrate c
                   then (if buffered < ae_min_duration_for_quality_increase e then (Some c, evaluation)
                         else if buffered \<ge> ae_min_duration_to_retain_after_discard e
                         then (Some i, case discard_from e i playback_position (tl queue) 1 of
                                         Some k \<Rightarrow> evaluation\<lparr>fe_queue_size := k\<rparr>
                                       | None \<Rightarrow> evaluation)
                         else (Some i, evaluation))
                   else if fmt_bitrate i < fmt_bitrate c \<and> buffered \<ge> ae_max_duration_for_quality_decrease e
                   then (Some c, evaluation)
                   else (Some i, evaluation)
               | (i, _) \<Rightarrow> (i, evaluation));
            evaluation2 = (if current \<noteq> None then evaluation1\<lparr>fe_trigger := kTriggerAdaptive\<rparr> else evaluation1)
        in case ideal of
             None \<Rightarrow> Inl Check_failed
           | Some f \<Rightarrow> Inr (evaluation2\<lparr>fe_format := Some f\<rparr>)))"

section \<open>The demo evaluator\<close>

text \<open>
  The comparator orders by playout rate, then by increasing bitrate, then by decreasing identifier.
\<close>

definition DemoFormatComparator :: "bool \<Rightarrow> format \<Rightarrow> format \<Rightarrow> bool" where
  "DemoFormatComparator descending_mpor f1 f2 \<longleftrightarrow>
     (let (r1, r2) = (if descending_mpor then (fmt_max_playout_rate f2, fmt_max_playout_rate f1)
                      else (fmt_max_playout_rate f1, fmt_max_playout_rate f2))
      in r1 < r2 \<or> r1 = r2 \<and>
         (fmt_bitrate f1 < fmt_bitrate f2 \<or> fmt_bitrate f1 = fmt_bitrate f2 \<and> fmt_id f2 < fmt_id f1))"

definition SelectFormat :: "format list \<Rightarrow> playback_rate \<Rightarrow> format option" where
  "SelectFormat formats playback_rate =
     (let gte = (\<lambda>f. to_float (fmt_max_playout_rate f) \<ge> GetMagnitude playback_rate)
      in case filter gte formats of
           [] \<Rightarrow> (case filter (\<lambda>f. \<not> gte f) formats of
                    [] \<Rightarrow> None
                  | f # fs \<Rightarrow> Some (max_element (DemoFormatComparator False) f fs))
         | f # fs \<Rightarrow> Some (max_element (DemoFormatComparator True) f fs))"

definition EvaluateVideo :: "format list \<Rightarrow> format_evaluation \<Rightarrow> playback_rate \<Rightarrow> format_evaluation" where
  "EvaluateVideo formats evaluation playback_rate =
     (case SelectFormat formats playback_rate of
        None \<Rightarrow> evaluation
      | Some best_format \<Rightarrow> evaluation\<lparr>fe_format := Some best_format\<rparr>)"

definition EvaluateAudio :: "format list \<Rightarrow> format_evaluation \<Rightarrow> playback_rate \<Rightarrow> format_evaluation" where
  "EvaluateAudio formats evaluation playback_rate =
     (case SelectFormat formats playback_rate of
        None \<Rightarrow> evaluation
      | Some best_format \<Rightarrow> evaluation\<lparr>fe_format := Some best_format\<rparr>)"

definition DemoEvaluator_Evaluate ::
  "format list \<Rightarrow> playback_rate \<Rightarrow> format_evaluation \<Rightarrow> format_evaluation result" where
  "DemoEvaluator_Evaluate formats playback_rate evaluation =
     (case formats of
        [] \<Rightarrow> Inl Check_failed
      | f # _ \<Rightarrow>
          if IsVideo (fmt_mime_type f) then Inr (EvaluateVideo formats evaluation playback_rate)
          else if IsAudio (fmt_mime_type f) then Inr (EvaluateAudio formats evaluation playback_rate)
          else if IsText (fmt_mime_type f) then Inr (evaluation\<lparr>fe_format := Some f\<rparr>)
          else Inr evaluation)"

section \<open>The fixed evaluator\<close>

definition FixedEvaluator_Evaluate :: "format list \<Rightarrow> format_evaluation \<Rightarrow> format_evaluation result" where
  "FixedEvaluator_Evaluate formats evaluation =
     and_then (vector_at formats 0) (\<lambda>f. Inr (evaluation\<lparr>fe_format := Some f\<rparr>))"

section \<open>The interface\<close>

text \<open>
  \<open>chunk/format_evaluator.h\<close>: an evaluation over some formats returns, keeps the selected format or
  selects one of those offered, and never asks for a longer queue than there is or for dropping all of it.
\<close>

locale format_evaluator =
  fixes evaluate :: "media_chunk list \<Rightarrow> int \<Rightarrow> format list \<Rightarrow> playback_rate \<Rightarrow> format_evaluation \<Rightarrow> format_evaluation result"
  assumes evaluate_defined: "formats \<noteq> [] \<Longrightarrow> \<exists>ev'. evaluate q pos formats r ev = Inr ev'"
    and evaluate_format: "evaluate q pos formats r ev = Inr ev' \<Longrightarrow>
      fe_format ev' = fe_format ev \<or> (\<exists>f \<in> set formats. fe_format ev' = Some f)"
    and evaluate_queue: "evaluate q pos formats r ev = Inr ev' \<Longrightarrow> 0 \<le> fe_queue_size ev \<Longrightarrow>
      fe_queue_size ev \<le> int (length q) \<Longrightarrow> 0 \<le> fe_queue_size ev' \<and> fe_queue_size ev' \<le> int (length q)"
    and evaluate_retains: "evaluate q pos formats r ev = Inr ev' \<Longrightarrow> 1 \<le> fe_queue_size ev \<Longrightarrow> 1 \<le> fe_queue_size ev'"
begin

text \<open>Once a format of the period is selected, further evaluations stay within its formats.\<close>

lemma evaluate_keeps_period:
  assumes "evaluate q pos formats r ev = Inr ev'" "fe_format ev = Some f" "f \<in> set formats"
  shows "\<exists>g \<in> set formats. fe_format ev' = Some g"
  using evaluate_format [OF assms(1)] assms(2,3) by auto

end

section \<open>Choosing by playout rate\<close>

definition format_rate :: "format \<Rightarrow> rat" where
  "format_rate f = to_float (fmt_max_playout_rate f)"

text \<open>The lowest playout rate that suffices, or the highest there is.\<close>

definition target_rate :: "rat \<Rightarrow> format list \<Rightarrow> rat" where
  "target_rate rate formats =
     (let rates = set (map format_rate formats)
      in if \<exists>r \<in> rates. rate \<le> r then Min {r \<in> rates. rate \<le> r} else Max rates)"

lemma target_rate_in: "formats \<noteq> [] \<Longrightarrow> target_rate rate formats \<in> set (map format_rate formats)"
proof -
  assume "formats \<noteq> []"
  let ?R = "set (map format_rate formats)"
  have "?R \<noteq> {}" using \<open>formats \<noteq> []\<close> by simp
  moreover have "Min {r \<in> ?R. rate \<le> r} \<in> {r \<in> ?R. rate \<le> r}" if "\<exists>r \<in> ?R. rate \<le> r"
    by (rule Min_in) (use that in auto)
  ultimately show ?thesis unfolding target_rate_def Let_def using Max_in [of ?R] by auto
qed

lemma target_rate_snoc:
  assumes "formats \<noteq> []" and t_def: "t = target_rate rate formats"
  shows "target_rate rate (formats @ [f]) =
    (if t < rate then max t (format_rate f)
     else if rate \<le> format_rate f then min t (format_rate f) else t)"
proof -
  let ?R = "set (map format_rate formats)" and ?c = "format_rate f"
  have R: "finite ?R" "?R \<noteq> {}" using assms(1) by auto
  have sn: "set (map format_rate (formats @ [f])) = insert ?c ?R" by simp
  show ?thesis
  proof (cases "\<exists>r \<in> ?R. rate \<le> r")
    case True
    let ?S = "{r \<in> ?R. rate \<le> r}"
    have S: "finite ?S" "?S \<noteq> {}" using True R by auto
    have t: "t = Min ?S" using True by (simp add: t_def target_rate_def)
    then have ge: "rate \<le> t" using Min_in [OF S] by auto
    show ?thesis
    proof (cases "rate \<le> ?c")
      case c: True
      have "{r \<in> insert ?c ?R. rate \<le> r} = insert ?c ?S" using c by auto
      then have "target_rate rate (formats @ [f]) = Min (insert ?c ?S)"
        unfolding target_rate_def sn Let_def using c by auto
      then show ?thesis using Min_insert [OF S(1,2), of ?c] t ge c by (simp add: min.commute)
    next
      case c: False
      have "{r \<in> insert ?c ?R. rate \<le> r} = ?S" using c by auto
      then have "target_rate rate (formats @ [f]) = Min ?S"
        unfolding target_rate_def sn Let_def using True by auto
      then show ?thesis using t ge c by simp
    qed
  next
    case False
    have t: "t = Max ?R" using False by (simp add: t_def target_rate_def)
    have lt: "t < rate" using Max_in [OF R] False t by (auto simp: not_le)
    show ?thesis
    proof (cases "rate \<le> ?c")
      case c: True
      have "{r \<in> insert ?c ?R. rate \<le> r} = {?c}" using c False by auto
      then have "target_rate rate (formats @ [f]) = ?c" unfolding target_rate_def sn Let_def using c by auto
      then show ?thesis using lt c by simp
    next
      case c: False
      then have "target_rate rate (formats @ [f]) = Max (insert ?c ?R)"
        unfolding target_rate_def sn Let_def using False by auto
      then show ?thesis using Max_insert [OF R, of ?c] t lt by (simp add: max.commute)
    qed
  qed
qed

lemma filter_step_target:
  "formats \<noteq> [] \<Longrightarrow> foldl (filter_step rate) [] formats =
     filter (\<lambda>f. format_rate f = target_rate rate formats) formats"
proof (induction formats rule: rev_induct)
  case (snoc f formats)
  show ?case
  proof (cases "formats = []")
    case True
    then show ?thesis using target_rate_in [of "[f]" rate] by (simp add: filter_step_def)
  next
    case False
    let ?t = "target_rate rate formats"
    let ?F = "filter (\<lambda>g. format_rate g = ?t) formats"
    have "?F \<noteq> []" using target_rate_in [OF False, of rate] by (auto simp: filter_empty_conv)
    then obtain g gs where g: "?F = g # gs" by (cases ?F) auto
    then have gt: "format_rate g = ?t" using filter_eq_ConsD [OF g] by auto
    have other: "filter (\<lambda>h. format_rate h = format_rate f) formats = []" if "format_rate f \<noteq> ?t"
        "target_rate rate (formats @ [f]) = format_rate f"
    proof -
      have "\<not> (\<exists>h \<in> set formats. format_rate h = format_rate f)"
      proof
        assume "\<exists>h \<in> set formats. format_rate h = format_rate f"
        then have "format_rate f \<in> format_rate ` set formats" by (metis imageI)
        then have eq: "set (map format_rate (formats @ [f])) = set (map format_rate formats)" by auto
        have "target_rate rate (formats @ [f]) = ?t" unfolding target_rate_def eq ..
        with that show False by simp
      qed
      then show ?thesis by (simp add: filter_empty_conv)
    qed
    have step: "filter_step rate ?F f =
        (if ?t = format_rate f then ?F @ [f]
         else if ?t < rate then (if format_rate f > ?t then [f] else ?F)
         else if format_rate f \<ge> rate \<and> format_rate f < ?t then [f] else ?F)"
      unfolding filter_step_def g by (simp add: format_rate_def [symmetric] gt Let_def)
    have ts: "target_rate rate (formats @ [f]) =
        (if ?t < rate then max ?t (format_rate f)
         else if rate \<le> format_rate f then min ?t (format_rate f) else ?t)"
      by (rule target_rate_snoc [OF False refl])
    have "foldl (filter_step rate) [] (formats @ [f]) = filter_step rate ?F f"
      using snoc.IH [OF False] by simp
    also have "\<dots> = filter (\<lambda>h. format_rate h = target_rate rate (formats @ [f])) (formats @ [f])"
      using step ts other by (auto simp: max_def min_def split: if_splits)
    finally show ?thesis .
  qed
qed simp

section \<open>Choosing by bitrate\<close>

text \<open>The highest bitrate within the limit, or the lowest there is.\<close>

definition bitrate_ok :: "int \<Rightarrow> format list \<Rightarrow> format \<Rightarrow> bool" where
  "bitrate_ok limit formats b \<longleftrightarrow> b \<in> set formats \<and>
     (if \<exists>f \<in> set formats. fmt_bitrate f \<le> limit
      then fmt_bitrate b \<le> limit \<and> (\<forall>f \<in> set formats. fmt_bitrate f \<le> limit \<longrightarrow> fmt_bitrate f \<le> fmt_bitrate b)
      else (\<forall>f \<in> set formats. fmt_bitrate b \<le> fmt_bitrate f))"

lemma best_step_ok: "formats \<noteq> [] \<Longrightarrow> \<exists>b. foldl (best_step limit) None formats = Some b \<and> bitrate_ok limit formats b"
proof (induction formats rule: rev_induct)
  case (snoc f formats)
  show ?case
  proof (cases "formats = []")
    case True
    then show ?thesis by (simp add: best_step_def bitrate_ok_def)
  next
    case False
    then obtain b where b: "foldl (best_step limit) None formats = Some b" "bitrate_ok limit formats b"
      using snoc.IH by blast
    let ?n = "if fmt_bitrate b > limit \<and> fmt_bitrate f < fmt_bitrate b \<or>
        fmt_bitrate f \<le> limit \<and> fmt_bitrate f > fmt_bitrate b then f else b"
    have "foldl (best_step limit) None (formats @ [f]) = Some ?n" using b(1) by (simp add: best_step_def)
    moreover have "bitrate_ok limit (formats @ [f]) ?n"
    proof (cases "\<exists>g \<in> set formats. fmt_bitrate g \<le> limit")
      case True
      then have 1: "b \<in> set formats" "fmt_bitrate b \<le> limit"
          "\<And>g. g \<in> set formats \<Longrightarrow> fmt_bitrate g \<le> limit \<Longrightarrow> fmt_bitrate g \<le> fmt_bitrate b"
        using b(2) by (simp_all add: bitrate_ok_def)
      have "fmt_bitrate g \<le> fmt_bitrate ?n" if "g \<in> set (formats @ [f])" "fmt_bitrate g \<le> limit" for g
        using that 1(2) 1(3) [of g] by auto
      then show ?thesis using True 1(1,2) by (auto simp: bitrate_ok_def)
    next
      case False
      then have 1: "b \<in> set formats" "\<And>g. g \<in> set formats \<Longrightarrow> fmt_bitrate b \<le> fmt_bitrate g"
          "\<And>g. g \<in> set formats \<Longrightarrow> limit < fmt_bitrate g"
        using b(2) by (simp_all add: bitrate_ok_def not_le)
      then have n: "?n = (if fmt_bitrate f < fmt_bitrate b then f else b)" using 1(3) [OF 1(1)] by fastforce
      have "fmt_bitrate ?n \<le> fmt_bitrate g" if "g \<in> set (formats @ [f])" for g
        unfolding n using that 1(2) [of g] by auto
      moreover have "fmt_bitrate f \<le> limit \<Longrightarrow> ?n = f" using 1(3) [OF 1(1)] by auto
      ultimately show ?thesis using 1(1,3) unfolding bitrate_ok_def by (auto simp: not_le [symmetric])
    qed
    ultimately show ?thesis by blast
  qed
qed simp

lemma DetermineIdealFormat_ok:
  assumes "formats \<noteq> []"
    and cands_def: "cands = filter (\<lambda>f. format_rate f = target_rate (abs_rate rate) formats) formats"
  shows "\<exists>f. DetermineIdealFormat formats limit rate = Inr (Some f) \<and> bitrate_ok limit cands f"
proof -
  have "cands \<noteq> []"
    using target_rate_in [OF assms(1), of "abs_rate rate"] by (auto simp: cands_def filter_empty_conv)
  then show ?thesis
    using best_step_ok [of cands limit] filter_step_target [OF assms(1), of "abs_rate rate"] assms(1)
    by (auto simp: DetermineIdealFormat_def cands_def)
qed

lemma bitrate_ok_in: "bitrate_ok limit (filter P formats) f \<Longrightarrow> f \<in> set formats"
  by (simp add: bitrate_ok_def)

section \<open>The evaluators implement the interface\<close>

lemma discard_from_bounds:
  "discard_from e ideal pos cs i = Some k \<Longrightarrow> i \<le> k \<and> k < i + int (length cs) \<and>
     mc_start_time_us (cs ! nat (k - i)) - pos \<ge> ae_min_duration_to_retain_after_discard e"
proof (induction cs arbitrary: i)
  case (Cons c cs)
  show ?case
  proof (cases "discard_from e ideal pos [c] i = Some i")
    case True
    then show ?thesis using Cons.prems by (auto split: if_splits)
  next
    case False
    then have "discard_from e ideal pos cs (i + 1) = Some k" using Cons.prems by (auto split: if_splits)
    note ih = Cons.IH [OF this]
    then have "nat (k - i) = Suc (nat (k - (i + 1)))" by linarith
    then show ?thesis using ih by simp
  qed
qed simp

text \<open>What one evaluation does, given the ideal format.\<close>

lemma Evaluate_unfold:
  assumes "DetermineIdealFormat formats est rate = Inr (Some i)"
  shows "AdaptiveEvaluator_Evaluate e est queue pos formats rate ev =
    (case fe_format ev of
       None \<Rightarrow> Inr (ev\<lparr>fe_format := Some i\<rparr>)
     | Some c \<Rightarrow>
         (let b = buffered_duration queue pos
          in if fmt_bitrate i > fmt_bitrate c \<and> b < ae_min_duration_for_quality_increase e \<or>
                fmt_bitrate i < fmt_bitrate c \<and> b \<ge> ae_max_duration_for_quality_decrease e
             then Inr (ev\<lparr>fe_trigger := kTriggerAdaptive, fe_format := Some c\<rparr>)
             else Inr (ev\<lparr>fe_queue_size :=
                             (if fmt_bitrate i > fmt_bitrate c \<and> b \<ge> ae_min_duration_to_retain_after_discard e
                              then case discard_from e i pos (tl queue) 1 of Some k \<Rightarrow> k | None \<Rightarrow> fe_queue_size ev
                              else fe_queue_size ev),
                           fe_trigger := kTriggerAdaptive, fe_format := Some i\<rparr>)))"
  using assms by (auto simp: AdaptiveEvaluator_Evaluate_def Let_def split: option.splits)

interpretation adaptive: format_evaluator "AdaptiveEvaluator_Evaluate e est" for e est
proof
  fix formats :: "format list" and q pos r ev ev'
  show "\<exists>ev'. AdaptiveEvaluator_Evaluate e est q pos formats r ev = Inr ev'" if "formats \<noteq> []"
    using DetermineIdealFormat_ok [OF that refl, of est r] Evaluate_unfold [of formats est r]
    by (auto simp: Let_def split: option.splits)
  assume ev': "AdaptiveEvaluator_Evaluate e est q pos formats r ev = Inr ev'"
  then have ne: "formats \<noteq> []" by (auto simp: AdaptiveEvaluator_Evaluate_def DetermineIdealFormat_def)
  obtain i where i: "DetermineIdealFormat formats est r = Inr (Some i)" "i \<in> set formats"
    using DetermineIdealFormat_ok [OF ne refl, of est r] bitrate_ok_in by blast
  note u = ev' [unfolded Evaluate_unfold [OF i(1)]]
  show "fe_format ev' = fe_format ev \<or> (\<exists>f \<in> set formats. fe_format ev' = Some f)"
    using u i(2) by (auto simp: Let_def split: option.splits if_splits)
  have k: "1 \<le> k \<and> k < int (length q)" if "discard_from e i pos (tl q) 1 = Some k" for k
    using discard_from_bounds [OF that] by (cases q) auto
  show "1 \<le> fe_queue_size ev'" if "1 \<le> fe_queue_size ev"
    using u k that by (auto simp: Let_def split: option.splits if_splits)
  assume "0 \<le> fe_queue_size ev" "fe_queue_size ev \<le> int (length q)"
  with k show "0 \<le> fe_queue_size ev' \<and> fe_queue_size ev' \<le> int (length q)"
    using u by (auto simp: Let_def split: option.splits if_splits)
qed

lemma max_element_in: "max_element before b xs \<in> set (b # xs)"
  unfolding max_element_def by (rule min_element_in)

lemma SelectFormat_in: "SelectFormat formats rate = Some f \<Longrightarrow> f \<in> set formats"
proof -
  assume s: "SelectFormat formats rate = Some f"
  let ?g = "\<lambda>f. to_float (fmt_max_playout_rate f) \<ge> abs_rate rate"
  have "\<exists>P before x xs. filter P formats = x # xs \<and> f = max_element before x xs"
    using s by (auto simp: SelectFormat_def Let_def split: list.splits)
  then obtain P x xs before where "filter P formats = x # xs" "f = max_element before x xs" by blast
  then have "f \<in> set (filter P formats)" using max_element_in by metis
  then show ?thesis by simp
qed

interpretation demo: format_evaluator "\<lambda>q pos. DemoEvaluator_Evaluate"
proof
  fix q :: "media_chunk list" and pos :: int and formats r ev ev'
  show "\<exists>ev'. DemoEvaluator_Evaluate formats r ev = Inr ev'" if "formats \<noteq> []"
    using that by (cases formats) (auto simp: DemoEvaluator_Evaluate_def)
  assume "DemoEvaluator_Evaluate formats r ev = Inr ev'"
  then have u: "ev' = ev \<or> (\<exists>f \<in> set formats. ev' = ev\<lparr>fe_format := Some f\<rparr>)"
    using SelectFormat_in [of formats r]
    by (cases "SelectFormat formats r") (auto simp: DemoEvaluator_Evaluate_def EvaluateVideo_def EvaluateAudio_def split: list.splits if_splits)
  then show "fe_format ev' = fe_format ev \<or> (\<exists>f \<in> set formats. fe_format ev' = Some f)" by auto
  show "1 \<le> fe_queue_size ev'" if "1 \<le> fe_queue_size ev" using u that by auto
  assume "0 \<le> fe_queue_size ev" "fe_queue_size ev \<le> int (length q)"
  with u show "0 \<le> fe_queue_size ev' \<and> fe_queue_size ev' \<le> int (length q)" by auto
qed

interpretation fixed: format_evaluator "\<lambda>q pos formats r. FixedEvaluator_Evaluate formats"
  by unfold_locales (auto simp: FixedEvaluator_Evaluate_def vector_at_def and_then_Inr split: if_splits)

section \<open>Correctness\<close>

text \<open>
  C30. The two scans of \<open>DetermineIdealFormat\<close> return a format of the period whose playout rate
  is the lowest that suffices for the playback rate (the highest there is when none suffices), and
  among those of that rate one with the highest bitrate within the limit, or the lowest bitrate when
  none is within it. The order of the formats in the manifest is irrelevant.
\<close>

theorem ideal_format_optimal:
  assumes "formats \<noteq> []"
  shows "\<exists>f. DetermineIdealFormat formats limit rate = Inr (Some f) \<and> f \<in> set formats \<and>
    format_rate f = target_rate (abs_rate rate) formats \<and>
    (\<forall>g \<in> set formats. format_rate g = format_rate f \<longrightarrow>
       (fmt_bitrate f \<le> limit \<and> (fmt_bitrate g \<le> limit \<longrightarrow> fmt_bitrate g \<le> fmt_bitrate f)) \<or>
       (limit < fmt_bitrate f \<and> fmt_bitrate f \<le> fmt_bitrate g))"
proof -
  let ?c = "filter (\<lambda>f. format_rate f = target_rate (abs_rate rate) formats) formats"
  obtain f where f: "DetermineIdealFormat formats limit rate = Inr (Some f)" "bitrate_ok limit ?c f"
    using DetermineIdealFormat_ok [OF assms refl] by blast
  have in_c: "f \<in> set ?c" using f(2) by (simp add: bitrate_ok_def)
  have "(fmt_bitrate f \<le> limit \<and> (fmt_bitrate g \<le> limit \<longrightarrow> fmt_bitrate g \<le> fmt_bitrate f)) \<or>
      (limit < fmt_bitrate f \<and> fmt_bitrate f \<le> fmt_bitrate g)" if "g \<in> set ?c" for g
  proof (cases "\<exists>h \<in> set ?c. fmt_bitrate h \<le> limit")
    case True
    then show ?thesis using f(2) that unfolding bitrate_ok_def by meson
  next
    case False
    then have "fmt_bitrate f \<le> fmt_bitrate g" using f(2) that unfolding bitrate_ok_def by meson
    then show ?thesis using False in_c by (meson not_le)
  qed
  then show ?thesis using f(1) in_c by auto
qed

theorem ideal_format_optimal_witness:
  "\<exists>f. DetermineIdealFormat [demo_format ''a'' 100, demo_format ''b'' 900, demo_format ''c'' 500] 600 1 = Inr (Some f) \<and>
     fmt_bitrate f = 500"
proof -
  let ?fs = "[demo_format ''a'' 100, demo_format ''b'' 900, demo_format ''c'' 500]"
  have "?fs \<noteq> []" by simp
  from ideal_format_optimal [OF this, of 600 1] obtain f where f:
      "DetermineIdealFormat ?fs 600 1 = Inr (Some f)" "f \<in> set ?fs"
      "\<forall>g \<in> set ?fs. format_rate g = format_rate f \<longrightarrow>
         (fmt_bitrate f \<le> 600 \<and> (fmt_bitrate g \<le> 600 \<longrightarrow> fmt_bitrate g \<le> fmt_bitrate f)) \<or>
         (600 < fmt_bitrate f \<and> fmt_bitrate f \<le> fmt_bitrate g)" by blast
  have "fmt_bitrate f = 500" using f(2,3) by (auto simp: demo_format_def format_rate_def)
  with f(1) show ?thesis by blast
qed

text \<open>
  How the buffer limits the adaptive evaluator once a format is selected: with less than the
  increase threshold buffered the bitrate never rises, at or above the decrease threshold it never
  falls, and otherwise the ideal format is taken; the queue is cut only for a rise, never at its head
  and only at a chunk that starts at least the retained duration after the playback position.
\<close>

theorem evaluate_respects_buffer:
  assumes eval: "AdaptiveEvaluator_Evaluate e est queue pos formats rate ev = Inr ev'"
    and cur: "fe_format ev = Some c"
    and b_def: "b = buffered_duration queue pos"
  shows "\<exists>f. fe_format ev' = Some f \<and>
    (b < ae_min_duration_for_quality_increase e \<longrightarrow> fmt_bitrate f \<le> fmt_bitrate c) \<and>
    (ae_max_duration_for_quality_decrease e \<le> b \<longrightarrow> fmt_bitrate c \<le> fmt_bitrate f) \<and>
    (ae_min_duration_for_quality_increase e \<le> b \<and> b < ae_max_duration_for_quality_decrease e \<longrightarrow>
       DetermineIdealFormat formats est rate = Inr (Some f)) \<and>
    (fe_queue_size ev' \<noteq> fe_queue_size ev \<longrightarrow>
       fmt_bitrate c < fmt_bitrate f \<and> 1 \<le> fe_queue_size ev' \<and> fe_queue_size ev' < int (length queue) \<and>
       mc_start_time_us (queue ! nat (fe_queue_size ev')) - pos \<ge> ae_min_duration_to_retain_after_discard e)"
proof -
  have ne: "formats \<noteq> []" using eval by (auto simp: AdaptiveEvaluator_Evaluate_def DetermineIdealFormat_def)
  obtain i where i: "DetermineIdealFormat formats est rate = Inr (Some i)"
    using DetermineIdealFormat_ok [OF ne refl] by blast
  let ?hold = "fmt_bitrate i > fmt_bitrate c \<and> b < ae_min_duration_for_quality_increase e \<or>
      fmt_bitrate i < fmt_bitrate c \<and> b \<ge> ae_max_duration_for_quality_decrease e"
  note u = eval [unfolded Evaluate_unfold [OF i] cur, folded b_def]
  show ?thesis
  proof (cases ?hold)
    case True
    then have "ev' = ev\<lparr>fe_trigger := kTriggerAdaptive, fe_format := Some c\<rparr>" using u by (simp add: b_def)
    then show ?thesis using True by auto
  next
    case False
    have cut: "1 \<le> k \<and> k < int (length queue) \<and>
        mc_start_time_us (queue ! nat k) - pos \<ge> ae_min_duration_to_retain_after_discard e"
      if "discard_from e i pos (tl queue) 1 = Some k" for k
    proof -
      note d = discard_from_bounds [OF that]
      then have "queue \<noteq> []" by auto
      then obtain q qs where q: "queue = q # qs" by (cases queue) auto
      have "nat k = Suc (nat (k - 1))" using d by linarith
      then show ?thesis using d unfolding q by simp
    qed
    have f: "fe_format ev' = Some i" using u False by (auto simp: b_def Let_def)
    have q: "fe_queue_size ev' \<noteq> fe_queue_size ev \<Longrightarrow>
        fmt_bitrate c < fmt_bitrate i \<and> discard_from e i pos (tl queue) 1 = Some (fe_queue_size ev')"
      using u False by (auto simp: b_def Let_def split: if_splits option.splits)
    show ?thesis using False f q cut i by (intro exI [of _ i]) auto
  qed
qed

definition demo_chunk :: "int \<Rightarrow> int \<Rightarrow> media_chunk" where
  "demo_chunk bitrate start_us = \<lparr>mc_format = demo_format ''c'' bitrate, mc_trigger = 1, mc_start_time_us = start_us,
     mc_end_time_us = start_us + 10000000, mc_chunk_index = 0, mc_parent_id = -1\<rparr>"

theorem evaluate_respects_buffer_witness:
  "fe_queue_size (projr (AdaptiveEvaluator_Evaluate AdaptiveEvaluator_default 1000
      [demo_chunk 100 0, demo_chunk 100 10000000, demo_chunk 100 20000000] 0
      [demo_format ''lo'' 100, (demo_format ''hi'' 900)\<lparr>fmt_height := 1080\<rparr>] 1
      \<lparr>fe_queue_size = 3, fe_trigger = 1, fe_format = Some (demo_format ''lo'' 100)\<rparr>)) = 2"
proof -
  let ?q = "[demo_chunk 100 0, demo_chunk 100 10000000, demo_chunk 100 20000000]"
  let ?fs = "[demo_format ''lo'' 100, (demo_format ''hi'' 900)\<lparr>fmt_height := 1080\<rparr>]"
  let ?ev = "\<lparr>fe_queue_size = 3, fe_trigger = 1, fe_format = Some (demo_format ''lo'' 100)\<rparr>"
  let ?r = "AdaptiveEvaluator_Evaluate AdaptiveEvaluator_default 1000 ?q 0 ?fs 1 ?ev"
  have d: "DetermineIdealFormat ?fs 1000 1 = Inr (Some ((demo_format ''hi'' 900)\<lparr>fmt_height := 1080\<rparr>))"
    by (simp add: DetermineIdealFormat_def filter_step_def best_step_def demo_format_def)
  have r: "?r = Inr (?ev\<lparr>fe_queue_size := 2, fe_trigger := kTriggerAdaptive,
      fe_format := Some ((demo_format ''hi'' 900)\<lparr>fmt_height := 1080\<rparr>)\<rparr>)"
    unfolding Evaluate_unfold [OF d]
    by (simp add: demo_chunk_def demo_format_def buffered_duration_def AdaptiveEvaluator_default_def
        kMinHdHeight_def kMinHdWidth_def)
  have "\<exists>f. fe_format (projr ?r) = Some f"
    using evaluate_respects_buffer [OF r _ refl, of "demo_format ''lo'' 100"] r by auto
  with r show ?thesis by simp
qed

text \<open>
  Before the first estimate the evaluator compares the bitrates with \<open>kNoEstimate\<close> itself: \<open>Evaluate\<close>
  passes the estimate on without \<open>EffectiveBitrate\<close>, so playback starts at the lowest bitrate whatever
  initial maximum was configured, and the bandwidth fraction is never applied.
\<close>

theorem no_estimate_picks_lowest:
  assumes "formats \<noteq> []" "fe_format ev = None" "\<And>g. g \<in> set formats \<Longrightarrow> 0 \<le> fmt_bitrate g"
  shows "\<exists>f \<in> set formats. AdaptiveEvaluator_Evaluate e kNoEstimate queue pos formats rate ev = Inr (ev\<lparr>fe_format := Some f\<rparr>) \<and>
    (\<forall>g \<in> set formats. format_rate g = format_rate f \<longrightarrow> fmt_bitrate f \<le> fmt_bitrate g)"
proof -
  let ?c = "filter (\<lambda>f. format_rate f = target_rate (abs_rate rate) formats) formats"
  obtain f where f: "DetermineIdealFormat formats kNoEstimate rate = Inr (Some f)" "bitrate_ok kNoEstimate ?c f"
    using DetermineIdealFormat_ok [OF assms(1) refl] by blast
  have "\<not> (\<exists>g \<in> set ?c. fmt_bitrate g \<le> kNoEstimate)" using assms(3) by (force simp: kNoEstimate_def)
  then have "f \<in> set ?c" "\<And>g. g \<in> set ?c \<Longrightarrow> fmt_bitrate f \<le> fmt_bitrate g"
    using f(2) unfolding bitrate_ok_def by auto
  then show ?thesis using Evaluate_unfold [OF f(1), of e queue pos ev] assms(2) by (intro bexI [of _ f]) auto
qed

theorem no_estimate_picks_lowest_witness:
  "\<exists>f \<in> set [demo_format ''lo'' 100, demo_format ''hi'' 900].
     AdaptiveEvaluator_Evaluate AdaptiveEvaluator_default kNoEstimate [] 0 [demo_format ''lo'' 100, demo_format ''hi'' 900] 1
       FormatEvaluation_new = Inr (FormatEvaluation_new\<lparr>fe_format := Some f\<rparr>) \<and>
     EffectiveBitrate AdaptiveEvaluator_default kNoEstimate = 16000000 \<and> fmt_bitrate f = 100"
proof -
  let ?fs = "[demo_format ''lo'' 100, demo_format ''hi'' 900]"
  have "?fs \<noteq> []" "fe_format FormatEvaluation_new = None" "\<And>g. g \<in> set ?fs \<Longrightarrow> 0 \<le> fmt_bitrate g"
    by (auto simp: FormatEvaluation_new_def demo_format_def)
  from no_estimate_picks_lowest [OF this, of AdaptiveEvaluator_default "[]" 0 1] show ?thesis
    by (auto simp: demo_format_def format_rate_def EffectiveBitrate_def AdaptiveEvaluator_default_def)
qed

text \<open>
  The interface calls the trigger sticky, to be changed only with the format; the adaptive
  evaluator sets it on every evaluation after the first, also when the format stays.
\<close>

lemma trigger_not_sticky:
  assumes "formats \<noteq> []" "fe_format ev = Some c"
  shows "\<exists>ev'. AdaptiveEvaluator_Evaluate e est queue pos formats rate ev = Inr ev' \<and> fe_trigger ev' = kTriggerAdaptive"
proof -
  obtain i where i: "DetermineIdealFormat formats est rate = Inr (Some i)"
    using DetermineIdealFormat_ok [OF assms(1) refl] by blast
  show ?thesis unfolding Evaluate_unfold [OF i] using assms(2) by (simp add: Let_def)
qed

section \<open>The demo evaluator's choice\<close>

lemma comparator_strict:
  "DemoFormatComparator d x y \<Longrightarrow> DemoFormatComparator d y z \<Longrightarrow> DemoFormatComparator d x z"
  "DemoFormatComparator d x y \<Longrightarrow> \<not> DemoFormatComparator d x z \<Longrightarrow> DemoFormatComparator d z y"
  by (auto simp: DemoFormatComparator_def Let_def not_less split: if_splits)

lemma comparator_bounds:
  assumes "\<not> DemoFormatComparator d m g"
  shows "if d then fmt_max_playout_rate m \<le> fmt_max_playout_rate g else fmt_max_playout_rate g \<le> fmt_max_playout_rate m"
    and "fmt_max_playout_rate g = fmt_max_playout_rate m \<Longrightarrow> fmt_bitrate g \<le> fmt_bitrate m"
  using assms by (auto simp: DemoFormatComparator_def Let_def not_less split: if_splits)

lemma comparator_max:
  assumes "m = max_element (DemoFormatComparator d) x xs" "g \<in> set (x # xs)"
  shows "\<not> DemoFormatComparator d m g"
proof -
  have "\<exists>pre post. x # xs = pre @ m # post \<and> (\<forall>t \<in> set pre. DemoFormatComparator d t m) \<and>
      (\<forall>t \<in> set post. \<not> DemoFormatComparator d m t)"
    unfolding assms(1) max_element_def
  proof (rule min_element_split)
    fix a b c
    assume "DemoFormatComparator d b a"
    then show "DemoFormatComparator d c b \<Longrightarrow> DemoFormatComparator d c a" by (rule comparator_strict(1) [rotated])
    show "\<not> DemoFormatComparator d b c \<Longrightarrow> DemoFormatComparator d c a"
      using \<open>DemoFormatComparator d b a\<close> by (rule comparator_strict(2))
  qed
  then obtain pre post where pp: "x # xs = pre @ m # post" "\<forall>t \<in> set pre. DemoFormatComparator d t m"
      "\<forall>t \<in> set post. \<not> DemoFormatComparator d m t" by blast
  have irr: "\<not> DemoFormatComparator d m m" by (simp add: DemoFormatComparator_def Let_def)
  have "g \<in> set pre \<or> g = m \<or> g \<in> set post" using assms(2) unfolding pp(1) by auto
  then show ?thesis using pp(2,3) irr comparator_strict(1) by blast
qed

text \<open>
  The demo evaluator picks the lowest playout rate that suffices, or the highest there is
  when none does, and the highest bitrate of that rate.
\<close>

theorem select_format_best:
  assumes "formats \<noteq> []" and gte_def: "gte = (\<lambda>f. GetMagnitude rate \<le> to_float (fmt_max_playout_rate f))"
  shows "\<exists>f \<in> set formats. SelectFormat formats rate = Some f \<and>
    (\<forall>g \<in> set formats. fmt_max_playout_rate g = fmt_max_playout_rate f \<longrightarrow> fmt_bitrate g \<le> fmt_bitrate f) \<and>
    (if \<exists>g \<in> set formats. gte g
     then gte f \<and> (\<forall>g \<in> set formats. gte g \<longrightarrow> fmt_max_playout_rate f \<le> fmt_max_playout_rate g)
     else (\<forall>g \<in> set formats. fmt_max_playout_rate g \<le> fmt_max_playout_rate f))"
proof (cases "filter gte formats")
  case Nil
  then have none: "\<not> (\<exists>g \<in> set formats. gte g)" by (simp add: filter_empty_conv)
  then have "filter (\<lambda>f. \<not> gte f) formats = formats" by (simp add: filter_id_conv)
  moreover obtain x xs where x: "formats = x # xs" using assms(1) by (cases formats) auto
  ultimately have s: "SelectFormat formats rate = Some (max_element (DemoFormatComparator False) x xs)"
    using Nil unfolding SelectFormat_def gte_def Let_def by simp
  let ?m = "max_element (DemoFormatComparator False) x xs"
  have "\<not> DemoFormatComparator False ?m g" if "g \<in> set formats" for g
    using comparator_max [OF refl] that unfolding x by blast
  note b = comparator_bounds [OF this]
  have "\<And>g. g \<in> set formats \<Longrightarrow> fmt_max_playout_rate g \<le> fmt_max_playout_rate ?m"
      "\<And>g. g \<in> set formats \<Longrightarrow> fmt_max_playout_rate g = fmt_max_playout_rate ?m \<Longrightarrow> fmt_bitrate g \<le> fmt_bitrate ?m"
    using b by simp_all
  then show ?thesis using s none max_element_in [of _ x xs] x by (intro bexI [of _ ?m]) auto
next
  case (Cons x xs)
  let ?m = "max_element (DemoFormatComparator True) x xs"
  have s: "SelectFormat formats rate = Some ?m" using Cons unfolding SelectFormat_def gte_def Let_def by simp
  have m: "?m \<in> set formats" "gte ?m"
    using max_element_in [of "DemoFormatComparator True" x xs] unfolding Cons [symmetric] by auto
  have ge: "g \<in> set (x # xs) \<longleftrightarrow> g \<in> set formats \<and> gte g" for g unfolding Cons [symmetric] by auto
  have "\<not> DemoFormatComparator True ?m g" if "g \<in> set formats" "gte g" for g
    using comparator_max [OF refl] that ge by blast
  note b = comparator_bounds [OF this]
  have 1: "\<And>g. g \<in> set formats \<Longrightarrow> gte g \<Longrightarrow> fmt_max_playout_rate ?m \<le> fmt_max_playout_rate g"
      "\<And>g. g \<in> set formats \<Longrightarrow> gte g \<Longrightarrow> fmt_max_playout_rate g = fmt_max_playout_rate ?m \<Longrightarrow> fmt_bitrate g \<le> fmt_bitrate ?m"
    using b by simp_all
  have "gte g" if "fmt_max_playout_rate g = fmt_max_playout_rate ?m" for g using m(2) that by (simp add: gte_def)
  then have 2: "g \<in> set formats \<Longrightarrow> fmt_max_playout_rate g = fmt_max_playout_rate ?m \<Longrightarrow> fmt_bitrate g \<le> fmt_bitrate ?m" for g
    using 1(2) by blast
  have 3: "\<exists>g \<in> set formats. gte g" using m by blast
  show ?thesis unfolding if_P [OF 3] using s m(2) 1(1) 2 by (intro bexI [OF _ m(1)] conjI ballI impI)
qed

theorem select_format_best_witness:
  "\<exists>f. SelectFormat [demo_format ''a'' 100, demo_format ''b'' 900] 1 = Some f \<and> fmt_bitrate f = 900"
proof -
  let ?fs = "[demo_format ''a'' 100, demo_format ''b'' 900]"
  have "?fs \<noteq> []" by simp
  from select_format_best [OF this refl, of 1] show ?thesis by (auto simp: demo_format_def)
qed

end
