(* ===== verification/Sample_Holder.thy ===== *)
theory Sample_Holder
  imports Ndash_Prelude
begin

text \<open>
  The sample holder (\<open>sample_holder.cc\<close>, \<open>sample_holder.h\<close>) and the crypto information it
  carries (\<open>crypto_info.h\<close>): a buffer into which one media sample is read, with its metadata.
  A null \<open>buffer_\<close> is \<open>None\<close>. \<open>holder_data\<close> is what has been written so far; the lemmas show
  that a write appends to it and that \<open>EnsureSpaceForWrite\<close> makes the following write succeed.
\<close>

section \<open>State\<close>

record crypto_info =
  num_sub_samples :: int
  num_bytes_of_clear_data :: "int list"
  num_bytes_of_encrypted_data :: "int list"
  crypto_key :: string
  crypto_iv :: "byte list"

record sample_holder =
  sh_crypto_info :: crypto_info
  sh_buffer :: "byte list option"
  sh_buffer_len :: int
  sh_written_size :: int
  sh_peek_size :: int
  sh_flags :: int
  sh_time_us :: int
  sh_duration_us :: int
  sh_buffer_replacement_enabled :: bool

definition CryptoInfo_new :: crypto_info where
  "CryptoInfo_new = \<lparr>num_sub_samples = 0, num_bytes_of_clear_data = [],
     num_bytes_of_encrypted_data = [], crypto_key = [], crypto_iv = []\<rparr>"

definition SampleHolder_new :: "bool \<Rightarrow> sample_holder" where
  "SampleHolder_new enabled = \<lparr>sh_crypto_info = CryptoInfo_new, sh_buffer = None,
     sh_buffer_len = 0, sh_written_size = 0, sh_peek_size = 0, sh_flags = 0, sh_time_us = 0,
     sh_duration_us = 0, sh_buffer_replacement_enabled = enabled\<rparr>"

section \<open>Operations\<close>

definition IsEncrypted :: "sample_holder \<Rightarrow> bool" where
  "IsEncrypted h \<longleftrightarrow> sh_flags h AND kSampleFlagEncrypted \<noteq> 0"

definition IsDecodeOnly :: "sample_holder \<Rightarrow> bool" where
  "IsDecodeOnly h \<longleftrightarrow> sh_flags h AND kSampleFlagDecodeOnly \<noteq> 0"

definition IsSyncFrame :: "sample_holder \<Rightarrow> bool" where
  "IsSyncFrame h \<longleftrightarrow> sh_flags h AND kSampleFlagSync \<noteq> 0"

text \<open>\<open>new uint8_t[n]()\<close> value-initialises, so the replacement buffer is zeroed.\<close>

definition CreateReplacementBuffer :: "sample_holder \<Rightarrow> int \<Rightarrow> byte list option \<times> bool" where
  "CreateReplacementBuffer h required_capacity =
     (if sh_buffer_replacement_enabled h then (Some (replicate (nat required_capacity) 0), True)
      else (None, False))"

definition EnsureSpaceForWrite :: "sample_holder \<Rightarrow> int \<Rightarrow> bool \<times> sample_holder" where
  "EnsureSpaceForWrite h len =
     (case sh_buffer h of
        None \<Rightarrow>
          (let (buf, success) = CreateReplacementBuffer h len
           in (success, h\<lparr>sh_buffer := buf, sh_buffer_len := len\<rparr>))
      | Some old \<Rightarrow>
          (let capacity = sh_buffer_len h - sh_written_size h;
               position = sh_written_size h;
               required_capacity = position + len
           in if required_capacity \<le> capacity then (True, h)
              else (case CreateReplacementBuffer h required_capacity of
                      (Some new_buffer, True) \<Rightarrow>
                        (let filled = (if position > 0
                                       then take (nat position) old @ drop (nat position) new_buffer
                                       else new_buffer)
                         in (True, h\<lparr>sh_buffer := Some filled,
                                      sh_buffer_len := required_capacity\<rparr>))
                    | _ \<Rightarrow> (False, h))))"

definition SetDataBuffer :: "sample_holder \<Rightarrow> byte list option \<Rightarrow> int \<Rightarrow> sample_holder" where
  "SetDataBuffer h data data_len = h\<lparr>sh_buffer := data, sh_buffer_len := data_len\<rparr>"

text \<open>A write through a null buffer is undefined.\<close>

definition Write :: "sample_holder \<Rightarrow> byte list \<Rightarrow> (bool \<times> sample_holder) result" where
  "Write h data =
     (let len = int (length data); capacity = sh_buffer_len h - sh_written_size h
      in if len \<le> capacity
         then (case sh_buffer h of
                 None \<Rightarrow> Inl Undefined_access
               | Some buf \<Rightarrow>
                   (let w = nat (sh_written_size h)
                    in Inr (True, h\<lparr>sh_buffer := Some (take w buf @ data @ drop (w + length data) buf),
                                    sh_written_size := sh_written_size h + len\<rparr>)))
         else Inr (False, h))"

definition ClearData :: "sample_holder \<Rightarrow> sample_holder" where
  "ClearData h = h\<lparr>sh_written_size := 0, sh_buffer_len := 0, sh_peek_size := 0, sh_flags := 0,
     sh_time_us := 0, sh_duration_us := 0,
     sh_crypto_info := (sh_crypto_info h)\<lparr>crypto_key := [], crypto_iv := [],
        num_bytes_of_clear_data := [], num_bytes_of_encrypted_data := [], num_sub_samples := 0\<rparr>\<rparr>"

section \<open>Invariant and contents\<close>

definition holder_data :: "sample_holder \<Rightarrow> byte list" where
  "holder_data h = (case sh_buffer h of None \<Rightarrow> [] | Some b \<Rightarrow> take (nat (sh_written_size h)) b)"

definition holder_inv :: "sample_holder \<Rightarrow> bool" where
  "holder_inv h \<longleftrightarrow> 0 \<le> sh_written_size h \<and> sh_written_size h \<le> sh_buffer_len h \<and>
     (case sh_buffer h of None \<Rightarrow> sh_buffer_len h = 0 | Some b \<Rightarrow> sh_buffer_len h \<le> int (length b))"

lemma holder_inv_new [simp]: "holder_inv (SampleHolder_new e)"
  by (simp add: holder_inv_def SampleHolder_new_def)

lemma holder_inv_ClearData: "holder_inv h \<Longrightarrow> holder_inv (ClearData h) \<and> holder_data (ClearData h) = []"
  by (auto simp: holder_inv_def ClearData_def holder_data_def split: option.splits)

lemma length_holder_data: "holder_inv h \<Longrightarrow> int (length (holder_data h)) = sh_written_size h"
  by (auto simp: holder_inv_def holder_data_def split: option.splits)

text \<open>With replacement enabled, the call reserves room and keeps what was written.\<close>

lemma EnsureSpaceForWrite_enabled:
  assumes inv: "holder_inv h" and en: "sh_buffer_replacement_enabled h" and len: "0 \<le> len"
    and call: "EnsureSpaceForWrite h len = (ok, h')"
  shows "ok \<and> holder_inv h' \<and> holder_data h' = holder_data h \<and>
    sh_written_size h' = sh_written_size h \<and> sh_buffer h' \<noteq> None \<and>
    len \<le> sh_buffer_len h' - sh_written_size h' \<and>
    sh_buffer_replacement_enabled h' \<and> sh_crypto_info h' = sh_crypto_info h \<and>
    sh_peek_size h' = sh_peek_size h \<and> sh_flags h' = sh_flags h \<and>
    sh_time_us h' = sh_time_us h \<and> sh_duration_us h' = sh_duration_us h"
proof (cases "sh_buffer h")
  case None
  with assms show ?thesis
    by (auto simp: EnsureSpaceForWrite_def CreateReplacementBuffer_def holder_inv_def holder_data_def)
next
  case (Some old)
  with assms show ?thesis
    by (auto simp: EnsureSpaceForWrite_def CreateReplacementBuffer_def holder_inv_def holder_data_def
        Let_def min_def nat_add_distrib split: if_splits)
qed

lemma Write_appends:
  assumes inv: "holder_inv h" and buf: "sh_buffer h \<noteq> None"
    and room: "int (length data) \<le> sh_buffer_len h - sh_written_size h"
  obtains h' where "Write h data = Inr (True, h')" "holder_inv h'"
    "holder_data h' = holder_data h @ data" "sh_buffer h' \<noteq> None"
    "sh_buffer_len h' = sh_buffer_len h" "sh_written_size h' = sh_written_size h + int (length data)"
    "h' = h\<lparr>sh_buffer := sh_buffer h', sh_written_size := sh_written_size h'\<rparr>"
proof -
  from buf obtain b where b: "sh_buffer h = Some b" by blast
  with inv room have len: "nat (sh_written_size h) + length data \<le> length b" and w: "0 \<le> sh_written_size h"
    by (auto simp: holder_inv_def)
  define h' where "h' = h\<lparr>sh_buffer := Some (take (nat (sh_written_size h)) b @ data @
      drop (nat (sh_written_size h) + length data) b),
      sh_written_size := sh_written_size h + int (length data)\<rparr>"
  have "Write h data = Inr (True, h')"
    using room b by (simp add: Write_def h'_def Let_def)
  moreover have "holder_inv h'"
    using inv room b len w by (auto simp: holder_inv_def h'_def)
  moreover have "holder_data h' = holder_data h @ data"
    using b len w by (cases data) (auto simp: holder_data_def h'_def nat_add_distrib min_def)
  ultimately show thesis
    using that by (simp add: h'_def)
qed

end
