(* ===== verification/Info_Queue.thy ===== *)
theory Info_Queue
  imports Sample_Holder
begin

text \<open>
  The metadata queue of the rolling sample buffer (\<open>extractor/info_queue.cc\<close>): nine parallel
  arrays used as one ring, grown by 1000 slots when they fill up. Every operation of the class is
  a definition; the lock around each of them makes an operation one atomic step. The abstraction
  \<open>iq_samples\<close> reads the ring as a list of sample descriptions, and every operation is shown to
  act on that list as a FIFO queue does. The contract is the locale \<open>sample_fifo\<close> at the end,
  which the clients of the queue rely on.
\<close>

section \<open>State\<close>

definition kSampleCapacityIncrement :: int where
  "kSampleCapacityIncrement = 1000"

record sample_extras_holder =
  ex_offset :: int
  ex_encryption_key_id :: "string option"
  ex_iv :: "byte list option"
  ex_num_bytes_clear :: "int list option"
  ex_num_bytes_enc :: "int list option"

definition SampleExtrasHolder_new :: sample_extras_holder where
  "SampleExtrasHolder_new = \<lparr>ex_offset = 0, ex_encryption_key_id = None, ex_iv = None,
     ex_num_bytes_clear = None, ex_num_bytes_enc = None\<rparr>"

text \<open>The member is 64 bits wide; both accessors go through \<open>int32_t\<close>.\<close>

definition SetOffset :: "int \<Rightarrow> sample_extras_holder \<Rightarrow> sample_extras_holder" where
  "SetOffset offset e = e\<lparr>ex_offset := narrow32 offset\<rparr>"

definition GetOffset :: "sample_extras_holder \<Rightarrow> int" where
  "GetOffset e = narrow32 (ex_offset e)"

record info_queue =
  iq_capacity :: int
  iq_offsets :: "int list"
  iq_durations :: "int list"
  iq_sizes :: "int list"
  iq_flags :: "int list"
  iq_times_us :: "int list"
  iq_encryption_key_ids :: "string list"
  iq_iv :: "byte list list"
  iq_num_bytes_clear :: "int list list"
  iq_num_bytes_enc :: "int list list"
  iq_queue_size :: int
  iq_absolute_read_index :: int
  iq_relative_read_index :: int
  iq_relative_write_index :: int

section \<open>Operations\<close>

definition InfoQueue_new :: info_queue where
  "InfoQueue_new =
     (let n = nat kSampleCapacityIncrement
      in \<lparr>iq_capacity = kSampleCapacityIncrement,
          iq_offsets = replicate n uninit64, iq_durations = replicate n uninit64,
          iq_sizes = replicate n uninit32, iq_flags = replicate n uninit32,
          iq_times_us = replicate n uninit64, iq_encryption_key_ids = replicate n [],
          iq_iv = replicate n [], iq_num_bytes_clear = replicate n [],
          iq_num_bytes_enc = replicate n [], iq_queue_size = 0, iq_absolute_read_index = 0,
          iq_relative_read_index = 0, iq_relative_write_index = 0\<rparr>)"

definition InfoQueue_Clear :: "info_queue \<Rightarrow> info_queue" where
  "InfoQueue_Clear q = q\<lparr>iq_absolute_read_index := 0, iq_relative_read_index := 0,
     iq_relative_write_index := 0, iq_queue_size := 0\<rparr>"

definition InfoQueue_GetWriteIndex :: "info_queue \<Rightarrow> int" where
  "InfoQueue_GetWriteIndex q = iq_absolute_read_index q + iq_queue_size q"

definition InfoQueue_GetReadIndex :: "info_queue \<Rightarrow> int" where
  "InfoQueue_GetReadIndex q = iq_absolute_read_index q"

definition last_write_index :: "info_queue \<Rightarrow> int" where
  "last_write_index q =
     (if iq_relative_write_index q = 0 then iq_capacity q else iq_relative_write_index q) - 1"

definition InfoQueue_DiscardUpstreamSamples :: "info_queue \<Rightarrow> int \<Rightarrow> int \<times> info_queue" where
  "InfoQueue_DiscardUpstreamSamples q discard_from_index =
     (let discard_count = InfoQueue_GetWriteIndex q - discard_from_index
      in if discard_count = 0
         then (if iq_absolute_read_index q = 0 then (0, q)
               else (arr_get (iq_offsets q) (last_write_index q)
                     + arr_get (iq_sizes q) (last_write_index q), q))
         else (let w = (iq_relative_write_index q + iq_capacity q - discard_count) smod iq_capacity q
               in (arr_get (iq_offsets q) w,
                   q\<lparr>iq_queue_size := iq_queue_size q - discard_count,
                     iq_relative_write_index := w\<rparr>)))"

definition InfoQueue_PeekSample ::
  "info_queue \<Rightarrow> sample_holder \<Rightarrow> sample_extras_holder \<Rightarrow> bool \<times> sample_holder \<times> sample_extras_holder"
  where
  "InfoQueue_PeekSample q holder extras =
     (if iq_queue_size q = 0 then (False, holder, extras)
      else
        (let r = iq_relative_read_index q;
             h = holder\<lparr>sh_time_us := arr_get (iq_times_us q) r,
                        sh_peek_size := arr_get (iq_sizes q) r,
                        sh_flags := arr_get (iq_flags q) r,
                        sh_duration_us := arr_get (iq_durations q) r\<rparr>;
             e = SetOffset (arr_get (iq_offsets q) r) extras
         in (True, h,
             if IsEncrypted h
             then e\<lparr>ex_encryption_key_id := Some (arr_get (iq_encryption_key_ids q) r),
                    ex_iv := Some (arr_get (iq_iv q) r),
                    ex_num_bytes_clear := Some (arr_get (iq_num_bytes_clear q) r),
                    ex_num_bytes_enc := Some (arr_get (iq_num_bytes_enc q) r)\<rparr>
             else e\<lparr>ex_encryption_key_id := None, ex_iv := None,
                    ex_num_bytes_clear := None, ex_num_bytes_enc := None\<rparr>)))"

definition InfoQueue_MoveToNextSample :: "info_queue \<Rightarrow> int \<times> info_queue" where
  "InfoQueue_MoveToNextSample q =
     (let last_read_index = iq_relative_read_index q;
          r = (if last_read_index + 1 = iq_capacity q then 0 else last_read_index + 1);
          q' = q\<lparr>iq_queue_size := iq_queue_size q - 1,
                 iq_absolute_read_index := iq_absolute_read_index q + 1,
                 iq_relative_read_index := r\<rparr>
      in (if iq_queue_size q' > 0 then arr_get (iq_offsets q) r
          else arr_get (iq_sizes q) last_read_index + arr_get (iq_offsets q) last_read_index, q'))"

text \<open>
  The scan of \<open>SkipToKeyframeBefore\<close>. The two range tests guard the array accesses: outside them
  the source reads past its arrays, which the queue invariant excludes; inside them the distance
  to the write index shrinks by one in every round.
\<close>

function keyframe_scan :: "info_queue \<Rightarrow> int \<Rightarrow> int \<Rightarrow> int \<Rightarrow> int \<Rightarrow> int" where
  "keyframe_scan q time_us search_index sample_count found =
     (if search_index \<noteq> iq_relative_write_index q \<and>
         0 \<le> search_index \<and> search_index < iq_capacity q \<and>
         0 \<le> iq_relative_write_index q \<and> iq_relative_write_index q < iq_capacity q
      then
        (if arr_get (iq_times_us q) search_index > time_us then found
         else keyframe_scan q time_us ((search_index + 1) smod iq_capacity q) (sample_count + 1)
                (if arr_get (iq_flags q) search_index AND kSampleFlagSync \<noteq> 0
                 then sample_count else found))
      else found)"
  by pat_completeness auto
termination
proof (relation "measure (\<lambda>(q, t, s, n, f). nat ((iq_relative_write_index q - s) mod iq_capacity q))",
    goal_cases)
  case 1
  show ?case by simp
next
  case (2 q t s n f)
  let ?c = "iq_capacity q" and ?w = "iq_relative_write_index q"
  from 2 have c: "0 < ?c" and step: "(s + 1) smod ?c = (s + 1) mod ?c" by auto
  have pos: "0 < (?w - s) mod ?c"
  proof (rule ccontr)
    assume "\<not> 0 < (?w - s) mod ?c"
    with c have "?w mod ?c = s mod ?c"
      by (metis mod_eq_dvd_iff mod_0_imp_dvd not_less order_antisym pos_mod_sign)
    with 2 show False by simp
  qed
  have "(?w - (s + 1) mod ?c) mod ?c = ((?w - s) - 1) mod ?c"
    by (simp add: mod_diff_right_eq diff_diff_eq)
  also have "\<dots> = (?w - s) mod ?c - 1"
  proof -
    have "((?w - s) - 1) mod ?c = ((?w - s) mod ?c - 1) mod ?c" by (simp add: mod_diff_left_eq)
    also have "\<dots> = (?w - s) mod ?c - 1"
      using pos c pos_mod_bound [OF c, of "?w - s"] by (intro mod_pos_pos_trivial) linarith+
    finally show ?thesis .
  qed
  finally show ?case using pos step by simp
qed

declare keyframe_scan.simps [simp del]

definition InfoQueue_SkipToKeyframeBefore :: "info_queue \<Rightarrow> int \<Rightarrow> int \<times> info_queue" where
  "InfoQueue_SkipToKeyframeBefore q time_us =
     (if iq_queue_size q = 0 \<or> time_us < arr_get (iq_times_us q) (iq_relative_read_index q)
      then (-1, q)
      else if time_us > arr_get (iq_times_us q) (last_write_index q) then (-1, q)
      else
        (let n = keyframe_scan q time_us (iq_relative_read_index q) 0 (-1)
         in if n = -1 then (-1, q)
            else
              (let r = (iq_relative_read_index q + n) smod iq_capacity q
               in (arr_get (iq_offsets q) r,
                   q\<lparr>iq_queue_size := iq_queue_size q - n,
                     iq_relative_read_index := r,
                     iq_absolute_read_index := iq_absolute_read_index q + n\<rparr>))))"

text \<open>The element copy of \<open>CopyStrings\<close>, \<open>CopyIntVectors\<close> and of the array \<open>memcpy\<close>s.\<close>

fun CopyStrings :: "'a list \<Rightarrow> int \<Rightarrow> 'a list \<Rightarrow> int \<Rightarrow> nat \<Rightarrow> 'a list" where
  "CopyStrings dest dest_pos src src_pos 0 = dest"
| "CopyStrings dest dest_pos src src_pos (Suc n) =
     arr_set (CopyStrings dest dest_pos src src_pos n) (dest_pos + int n)
       (arr_get src (src_pos + int n))"

definition grow_array :: "info_queue \<Rightarrow> 'a \<Rightarrow> 'a list \<Rightarrow> 'a list" where
  "grow_array q fresh xs =
     (let new_capacity = iq_capacity q + kSampleCapacityIncrement;
          before_wrap = iq_capacity q - iq_relative_read_index q;
          after_wrap = iq_relative_read_index q
      in CopyStrings
           (CopyStrings (replicate (nat new_capacity) fresh) 0 xs (iq_relative_read_index q)
              (nat before_wrap))
           before_wrap xs 0 (nat after_wrap))"

definition InfoQueue_CommitSample ::
  "info_queue \<Rightarrow> int \<Rightarrow> int \<Rightarrow> int \<Rightarrow> int \<Rightarrow> int \<Rightarrow> string option \<Rightarrow> byte list option \<Rightarrow>
     int list option \<Rightarrow> int list option \<Rightarrow> info_queue" where
  "InfoQueue_CommitSample q time_us duration_us sample_flags offset sample_size encryption_key_id iv
       num_bytes_clear num_bytes_enc =
     (let w = iq_relative_write_index q;
          q1 = q\<lparr>iq_times_us := arr_set (iq_times_us q) w time_us,
                 iq_durations := arr_set (iq_durations q) w duration_us,
                 iq_offsets := arr_set (iq_offsets q) w offset,
                 iq_sizes := arr_set (iq_sizes q) w sample_size,
                 iq_flags := arr_set (iq_flags q) w sample_flags,
                 iq_encryption_key_ids := arr_set (iq_encryption_key_ids q) w
                   (case encryption_key_id of Some k \<Rightarrow> k | None \<Rightarrow> []),
                 iq_iv := arr_set (iq_iv q) w (case iv of Some v \<Rightarrow> v | None \<Rightarrow> []),
                 iq_num_bytes_clear := arr_set (iq_num_bytes_clear q) w
                   (case num_bytes_clear of Some v \<Rightarrow> v | None \<Rightarrow> []),
                 iq_num_bytes_enc := arr_set (iq_num_bytes_enc q) w
                   (case num_bytes_enc of Some v \<Rightarrow> v | None \<Rightarrow> []),
                 iq_queue_size := iq_queue_size q + 1\<rparr>
      in if iq_queue_size q1 = iq_capacity q1
         then q1\<lparr>iq_offsets := grow_array q1 uninit64 (iq_offsets q1),
                 iq_durations := grow_array q1 uninit64 (iq_durations q1),
                 iq_times_us := grow_array q1 uninit64 (iq_times_us q1),
                 iq_flags := grow_array q1 uninit32 (iq_flags q1),
                 iq_sizes := grow_array q1 uninit32 (iq_sizes q1),
                 iq_encryption_key_ids := grow_array q1 [] (iq_encryption_key_ids q1),
                 iq_iv := grow_array q1 [] (iq_iv q1),
                 iq_num_bytes_clear := grow_array q1 [] (iq_num_bytes_clear q1),
                 iq_num_bytes_enc := grow_array q1 [] (iq_num_bytes_enc q1),
                 iq_relative_read_index := 0,
                 iq_relative_write_index := iq_capacity q1,
                 iq_queue_size := iq_capacity q1,
                 iq_capacity := iq_capacity q1 + kSampleCapacityIncrement\<rparr>
         else q1\<lparr>iq_relative_write_index := (if w + 1 = iq_capacity q1 then 0 else w + 1)\<rparr>)"

section \<open>Abstraction and invariant\<close>

record sample_info =
  si_time_us :: int
  si_duration_us :: int
  si_flags :: int
  si_offset :: int
  si_size :: int
  si_key :: string
  si_iv :: "byte list"
  si_num_bytes_clear :: "int list"
  si_num_bytes_enc :: "int list"

definition slot :: "info_queue \<Rightarrow> int \<Rightarrow> sample_info" where
  "slot q i = \<lparr>si_time_us = arr_get (iq_times_us q) i, si_duration_us = arr_get (iq_durations q) i,
     si_flags = arr_get (iq_flags q) i, si_offset = arr_get (iq_offsets q) i,
     si_size = arr_get (iq_sizes q) i, si_key = arr_get (iq_encryption_key_ids q) i,
     si_iv = arr_get (iq_iv q) i, si_num_bytes_clear = arr_get (iq_num_bytes_clear q) i,
     si_num_bytes_enc = arr_get (iq_num_bytes_enc q) i\<rparr>"

definition iq_samples :: "info_queue \<Rightarrow> sample_info list" where
  "iq_samples q = map (\<lambda>k. slot q (ring_pos (iq_capacity q) (iq_relative_read_index q) (int k)))
     [0..<nat (iq_queue_size q)]"

definition arrays_sized :: "info_queue \<Rightarrow> bool" where
  "arrays_sized q \<longleftrightarrow>
     int (length (iq_offsets q)) = iq_capacity q \<and> int (length (iq_durations q)) = iq_capacity q \<and>
     int (length (iq_sizes q)) = iq_capacity q \<and> int (length (iq_flags q)) = iq_capacity q \<and>
     int (length (iq_times_us q)) = iq_capacity q \<and>
     int (length (iq_encryption_key_ids q)) = iq_capacity q \<and> int (length (iq_iv q)) = iq_capacity q \<and>
     int (length (iq_num_bytes_clear q)) = iq_capacity q \<and>
     int (length (iq_num_bytes_enc q)) = iq_capacity q"

definition iq_inv :: "info_queue \<Rightarrow> bool" where
  "iq_inv q \<longleftrightarrow> arrays_sized q \<and> 0 < iq_capacity q \<and>
     0 \<le> iq_queue_size q \<and> iq_queue_size q < iq_capacity q \<and>
     0 \<le> iq_relative_read_index q \<and> iq_relative_read_index q < iq_capacity q \<and>
     iq_relative_write_index q =
       ring_pos (iq_capacity q) (iq_relative_read_index q) (iq_queue_size q) \<and>
     0 \<le> iq_absolute_read_index q"

lemma length_iq_samples [simp]: "length (iq_samples q) = nat (iq_queue_size q)"
  by (simp add: iq_samples_def)

lemma iq_samples_nth:
  "k < nat (iq_queue_size q) \<Longrightarrow>
   iq_samples q ! k = slot q (ring_pos (iq_capacity q) (iq_relative_read_index q) (int k))"
  by (simp add: iq_samples_def)

lemma iq_samples_eq_Nil [simp]: "iq_inv q \<Longrightarrow> iq_samples q = [] \<longleftrightarrow> iq_queue_size q = 0"
  by (auto simp: iq_samples_def iq_inv_def)

lemma slot_cong [simp]:
  "slot (q\<lparr>iq_queue_size := n\<rparr>) i = slot q i"
  "slot (q\<lparr>iq_absolute_read_index := n\<rparr>) i = slot q i"
  "slot (q\<lparr>iq_relative_read_index := n\<rparr>) i = slot q i"
  "slot (q\<lparr>iq_relative_write_index := n\<rparr>) i = slot q i"
  "slot (q\<lparr>iq_capacity := n\<rparr>) i = slot q i"
  by (simp_all add: slot_def)

lemma iq_inv_new: "iq_inv InfoQueue_new \<and> iq_samples InfoQueue_new = []"
  by (simp add: iq_inv_def InfoQueue_new_def arrays_sized_def kSampleCapacityIncrement_def Let_def
      ring_pos_def iq_samples_def)

lemma iq_inv_Clear:
  "iq_inv q \<Longrightarrow> iq_inv (InfoQueue_Clear q) \<and> iq_samples (InfoQueue_Clear q) = []"
  by (simp add: iq_inv_def InfoQueue_Clear_def arrays_sized_def ring_pos_def iq_samples_def)

section \<open>Reading side\<close>

lemma iq_head:
  assumes "iq_inv q" "iq_samples q \<noteq> []"
  shows "hd (iq_samples q) = slot q (iq_relative_read_index q)"
  using assms by (simp add: hd_conv_nth iq_samples_nth iq_inv_def ring_pos_0)

lemma MoveToNextSample_fifo:
  assumes inv: "iq_inv q" and ne: "iq_samples q \<noteq> []"
    and call: "InfoQueue_MoveToNextSample q = (ret, q')"
  shows "iq_inv q' \<and> iq_samples q' = tl (iq_samples q) \<and>
    InfoQueue_GetReadIndex q' = InfoQueue_GetReadIndex q + 1 \<and>
    ret = (if tl (iq_samples q) \<noteq> [] then si_offset (hd (tl (iq_samples q)))
           else si_offset (hd (iq_samples q)) + si_size (hd (iq_samples q)))"
proof -
  let ?c = "iq_capacity q" and ?r = "iq_relative_read_index q"
  have size: "0 < iq_queue_size q" and r: "0 \<le> ?r" "?r < ?c" and c: "0 < ?c"
    using inv ne by (auto simp: iq_inv_def)
  have r': "(if ?r + 1 = ?c then 0 else ?r + 1) = ring_pos ?c ?r 1"
    using r by (rule ring_succ)
  have q': "q' = q\<lparr>iq_queue_size := iq_queue_size q - 1,
      iq_absolute_read_index := iq_absolute_read_index q + 1,
      iq_relative_read_index := ring_pos ?c ?r 1\<rparr>"
    using call r' by (auto simp: InfoQueue_MoveToNextSample_def Let_def)
  have inv': "iq_inv q'"
    using inv size ring_pos_bounds [OF c]
    by (simp add: q' iq_inv_def arrays_sized_def ring_pos_shift)
  have tl: "iq_samples q' = tl (iq_samples q)"
    using size by (intro nth_equalityI)
      (auto simp: q' iq_samples_def nth_tl ring_pos_shift add.commute nat_diff_distrib)
  have "ret = (if tl (iq_samples q) \<noteq> [] then si_offset (hd (tl (iq_samples q)))
           else si_offset (hd (iq_samples q)) + si_size (hd (iq_samples q)))"
  proof (cases "tl (iq_samples q) = []")
    case True
    then have "iq_queue_size q = 1" using tl inv' size by (simp add: q' iq_inv_def iq_samples_def)
    then show ?thesis
      using True call iq_head [OF inv ne] by (auto simp: InfoQueue_MoveToNextSample_def Let_def slot_def)
  next
    case False
    have "hd (tl (iq_samples q)) = slot q' (ring_pos ?c ?r 1)"
      using iq_head [OF inv'] False tl by (simp add: q')
    moreover have "0 < length (tl (iq_samples q))" using False by (simp only: length_greater_0_conv) simp
    then have "1 < iq_queue_size q" using size by simp
    ultimately show ?thesis
      using False call r' by (auto simp: InfoQueue_MoveToNextSample_def Let_def slot_def q')
  qed
  with inv' tl show ?thesis by (simp add: q' InfoQueue_GetReadIndex_def)
qed

lemma PeekSample_empty: "iq_inv q \<Longrightarrow> iq_samples q = [] \<Longrightarrow> InfoQueue_PeekSample q h e = (False, h, e)"
  by (simp add: InfoQueue_PeekSample_def)

definition fill_holder :: "sample_info \<Rightarrow> sample_holder \<Rightarrow> sample_holder" where
  "fill_holder s h = h\<lparr>sh_time_us := si_time_us s, sh_peek_size := si_size s,
     sh_flags := si_flags s, sh_duration_us := si_duration_us s\<rparr>"

definition fill_extras :: "sample_info \<Rightarrow> sample_extras_holder" where
  "fill_extras s =
     (let enc = si_flags s AND kSampleFlagEncrypted \<noteq> 0
      in \<lparr>ex_offset = narrow32 (si_offset s),
          ex_encryption_key_id = (if enc then Some (si_key s) else None),
          ex_iv = (if enc then Some (si_iv s) else None),
          ex_num_bytes_clear = (if enc then Some (si_num_bytes_clear s) else None),
          ex_num_bytes_enc = (if enc then Some (si_num_bytes_enc s) else None)\<rparr>)"

lemma PeekSample_head:
  assumes "iq_inv q" "iq_samples q \<noteq> []"
  shows "InfoQueue_PeekSample q h e =
    (True, fill_holder (hd (iq_samples q)) h, fill_extras (hd (iq_samples q)))"
  using assms by (simp add: iq_head InfoQueue_PeekSample_def Let_def fill_holder_def fill_extras_def
      slot_def IsEncrypted_def SetOffset_def)

section \<open>Writing side\<close>

lemma length_CopyStrings [simp]: "length (CopyStrings d dp s sp n) = length d"
  by (induction n) simp_all

lemma CopyStrings_get:
  assumes "0 \<le> dp" "dp + int n \<le> int (length d)" "0 \<le> j"
  shows "arr_get (CopyStrings d dp s sp n) j =
    (if dp \<le> j \<and> j < dp + int n then arr_get s (sp + (j - dp)) else arr_get d j)"
  using assms by (induction n) auto

lemma length_grow_array: "0 < iq_capacity q \<Longrightarrow> int (length (grow_array q f xs)) = iq_capacity q + kSampleCapacityIncrement"
  by (simp add: grow_array_def Let_def kSampleCapacityIncrement_def)

text \<open>After growing, position \<open>k\<close> holds what was \<open>k\<close> steps after the read index.\<close>

lemma grow_array_get:
  assumes c: "0 < iq_capacity q"
    and r: "0 \<le> iq_relative_read_index q" "iq_relative_read_index q < iq_capacity q"
    and k: "0 \<le> k" "k < iq_capacity q"
  shows "arr_get (grow_array q f xs) k = arr_get xs (ring_pos (iq_capacity q) (iq_relative_read_index q) k)"
proof (cases "k < iq_capacity q - iq_relative_read_index q")
  case True
  then show ?thesis
    using assms by (simp add: grow_array_def Let_def CopyStrings_get kSampleCapacityIncrement_def
        ring_pos_def algebra_simps)
next
  case False
  have "(iq_relative_read_index q + k) mod iq_capacity q =
      (iq_relative_read_index q + k - iq_capacity q) mod iq_capacity q" by simp
  also have "\<dots> = k - (iq_capacity q - iq_relative_read_index q)"
    using False r k by (subst mod_pos_pos_trivial) auto
  finally have "ring_pos (iq_capacity q) (iq_relative_read_index q) k =
      k - (iq_capacity q - iq_relative_read_index q)" by (simp only: ring_pos_def)
  then show ?thesis
    using False assms by (simp add: grow_array_def Let_def CopyStrings_get kSampleCapacityIncrement_def)
qed

lemma grow_array_fresh:
  assumes "0 < iq_capacity q"
    and "0 \<le> iq_relative_read_index q" "iq_relative_read_index q < iq_capacity q"
    and "iq_capacity q \<le> k" "k < iq_capacity q + kSampleCapacityIncrement"
  shows "arr_get (grow_array q f xs) k = f"
  using assms by (simp add: grow_array_def Let_def CopyStrings_get) (simp add: arr_get_def nat_less_iff)

definition new_sample ::
  "int \<Rightarrow> int \<Rightarrow> int \<Rightarrow> int \<Rightarrow> int \<Rightarrow> string option \<Rightarrow> byte list option \<Rightarrow>
     int list option \<Rightarrow> int list option \<Rightarrow> sample_info" where
  "new_sample t d fl off sz key iv nbc nbe =
     \<lparr>si_time_us = t, si_duration_us = d, si_flags = fl, si_offset = off, si_size = sz,
      si_key = (case key of Some k \<Rightarrow> k | None \<Rightarrow> []), si_iv = (case iv of Some v \<Rightarrow> v | None \<Rightarrow> []),
      si_num_bytes_clear = (case nbc of Some v \<Rightarrow> v | None \<Rightarrow> []),
      si_num_bytes_enc = (case nbe of Some v \<Rightarrow> v | None \<Rightarrow> [])\<rparr>"

text \<open>A commit that does not fill the ring: the slot at the write index takes the sample.\<close>

lemma commit_slot_plain:
  assumes inv: "iq_inv q" and room: "iq_queue_size q + 1 \<noteq> iq_capacity q"
    and q': "q' = InfoQueue_CommitSample q t d fl off sz key iv nbc nbe" and i: "0 \<le> i"
  shows "slot q' i = (if i = iq_relative_write_index q then new_sample t d fl off sz key iv nbc nbe
                      else slot q i)"
  using inv room i ring_pos_bounds [of "iq_capacity q"]
  by (auto simp: q' slot_def InfoQueue_CommitSample_def Let_def new_sample_def iq_inv_def arrays_sized_def)

lemma commit_fields_plain:
  assumes inv: "iq_inv q" and room: "iq_queue_size q + 1 \<noteq> iq_capacity q"
    and q': "q' = InfoQueue_CommitSample q t d fl off sz key iv nbc nbe"
  shows "iq_capacity q' = iq_capacity q \<and> iq_queue_size q' = iq_queue_size q + 1 \<and>
    iq_relative_read_index q' = iq_relative_read_index q \<and>
    iq_absolute_read_index q' = iq_absolute_read_index q \<and>
    iq_relative_write_index q' = ring_pos (iq_capacity q) (iq_relative_read_index q) (iq_queue_size q + 1) \<and>
    arrays_sized q'"
proof -
  have "(if iq_relative_write_index q + 1 = iq_capacity q then 0 else iq_relative_write_index q + 1) =
      ring_pos (iq_capacity q) (iq_relative_read_index q) (iq_queue_size q + 1)"
    using inv ring_pos_bounds [of "iq_capacity q" "iq_relative_read_index q" "iq_queue_size q"]
    by (subst ring_succ) (auto simp: iq_inv_def ring_pos_shift)
  with inv room show ?thesis
    by (auto simp: q' InfoQueue_CommitSample_def Let_def iq_inv_def arrays_sized_def split: if_splits)
qed

text \<open>A commit that fills the ring: the arrays are copied in reading order and grow.\<close>

lemma grow_array_set:
  assumes inv: "iq_inv q" and k: "0 \<le> k" "k < iq_capacity q" and len: "int (length xs) = iq_capacity q"
    and q1: "iq_capacity q1 = iq_capacity q" "iq_relative_read_index q1 = iq_relative_read_index q"
  shows "arr_get (grow_array q1 f (arr_set xs (iq_relative_write_index q) v)) k =
    (if k = iq_queue_size q then v
     else arr_get xs (ring_pos (iq_capacity q) (iq_relative_read_index q) k))"
proof -
  let ?pos = "ring_pos (iq_capacity q) (iq_relative_read_index q)"
  have c: "0 < iq_capacity q" and w: "iq_relative_write_index q = ?pos (iq_queue_size q)"
    and n: "0 \<le> iq_queue_size q" "iq_queue_size q < iq_capacity q"
    using inv by (auto simp: iq_inv_def)
  have "arr_get (grow_array q1 f (arr_set xs (iq_relative_write_index q) v)) k =
      arr_get (arr_set xs (iq_relative_write_index q) v) (?pos k)"
    using grow_array_get [of q1 k f] inv k by (simp add: q1 iq_inv_def)
  also have "\<dots> = (if ?pos k = ?pos (iq_queue_size q) then v else arr_get xs (?pos k))"
    using ring_pos_bounds [OF c] len by (simp add: w)
  also have "?pos k = ?pos (iq_queue_size q) \<longleftrightarrow> k = iq_queue_size q"
    using ring_pos_inj [OF c k n] by blast
  finally show ?thesis .
qed

lemma commit_slot_grow:
  assumes inv: "iq_inv q" and full: "iq_queue_size q + 1 = iq_capacity q"
    and q': "q' = InfoQueue_CommitSample q t d fl off sz key iv nbc nbe"
    and i: "0 \<le> i" "i < iq_capacity q"
  shows "slot q' i = (if i = iq_queue_size q then new_sample t d fl off sz key iv nbc nbe
     else slot q (ring_pos (iq_capacity q) (iq_relative_read_index q) i))"
proof -
  have sized: "arrays_sized q" using inv by (simp add: iq_inv_def)
  show ?thesis
    using full sized
    by (simp add: q' slot_def InfoQueue_CommitSample_def Let_def new_sample_def arrays_sized_def
        grow_array_set [OF inv i])
qed

lemma commit_fields_grow:
  assumes inv: "iq_inv q" and full: "iq_queue_size q + 1 = iq_capacity q"
    and q': "q' = InfoQueue_CommitSample q t d fl off sz key iv nbc nbe"
  shows "iq_capacity q' = iq_capacity q + kSampleCapacityIncrement \<and>
    iq_queue_size q' = iq_queue_size q + 1 \<and> iq_relative_read_index q' = 0 \<and>
    iq_absolute_read_index q' = iq_absolute_read_index q \<and>
    iq_relative_write_index q' = iq_capacity q \<and> arrays_sized q'"
  using inv full by (simp add: q' InfoQueue_CommitSample_def Let_def arrays_sized_def
      length_grow_array iq_inv_def)

theorem CommitSample_fifo:
  assumes inv: "iq_inv q"
    and q': "q' = InfoQueue_CommitSample q t d fl off sz key iv nbc nbe"
  shows "iq_inv q' \<and> iq_samples q' = iq_samples q @ [new_sample t d fl off sz key iv nbc nbe] \<and>
    InfoQueue_GetReadIndex q' = InfoQueue_GetReadIndex q"
proof (cases "iq_queue_size q + 1 = iq_capacity q")
  case True
  note f = commit_fields_grow [OF inv True q'] and s = commit_slot_grow [OF inv True q']
  have sz: "nat (iq_queue_size q') = Suc (nat (iq_queue_size q))"
    using f inv by (simp add: iq_inv_def nat_add_distrib)
  have "iq_inv q'"
    using f inv True by (auto simp: iq_inv_def ring_pos_def kSampleCapacityIncrement_def)
  moreover have "iq_samples q' = iq_samples q @ [new_sample t d fl off sz key iv nbc nbe]"
  proof (rule nth_equalityI)
    show "length (iq_samples q') = length (iq_samples q @ [new_sample t d fl off sz key iv nbc nbe])"
      using sz by simp
    fix k assume k: "k < length (iq_samples q')"
    with sz inv have k': "int k \<le> iq_queue_size q" by (auto simp: iq_inv_def less_Suc_eq_le le_nat_iff)
    have pos: "ring_pos (iq_capacity q') (iq_relative_read_index q') (int k) = int k"
      using f k' inv by (simp add: ring_pos_def iq_inv_def kSampleCapacityIncrement_def)
    have sl: "slot q' (int k) = (if int k = iq_queue_size q
        then new_sample t d fl off sz key iv nbc nbe
        else slot q (ring_pos (iq_capacity q) (iq_relative_read_index q) (int k)))"
      using s [of "int k"] k' inv by (simp add: iq_inv_def)
    show "iq_samples q' ! k = (iq_samples q @ [new_sample t d fl off sz key iv nbc nbe]) ! k"
    proof (cases "int k = iq_queue_size q")
      case True
      then show ?thesis using k sl pos by (simp add: iq_samples_nth nth_append)
    next
      case False
      with k' have "k < nat (iq_queue_size q)" by simp
      then show ?thesis using k sl pos False by (simp add: iq_samples_nth nth_append)
    qed
  qed
  ultimately show ?thesis using f by (simp add: InfoQueue_GetReadIndex_def)
next
  case False
  note f = commit_fields_plain [OF inv False q'] and s = commit_slot_plain [OF inv False q']
  let ?pos = "ring_pos (iq_capacity q) (iq_relative_read_index q)"
  have c: "0 < iq_capacity q" and n: "0 \<le> iq_queue_size q" "iq_queue_size q < iq_capacity q"
    and w: "iq_relative_write_index q = ?pos (iq_queue_size q)"
    using inv by (auto simp: iq_inv_def)
  have sz: "nat (iq_queue_size q') = Suc (nat (iq_queue_size q))"
    using f n by (simp add: nat_add_distrib)
  have inv': "iq_inv q'" using f inv False by (auto simp: iq_inv_def)
  have old: "slot q' (?pos (int k)) = slot q (?pos (int k))" if k: "k < nat (iq_queue_size q)" for k
  proof -
    have "?pos (int k) \<noteq> ?pos (iq_queue_size q)"
      using ring_pos_inj [OF c, of "int k" "iq_queue_size q"] n k by fastforce
    then show ?thesis using s [of "?pos (int k)"] w ring_pos_bounds [OF c] by simp
  qed
  have new: "slot q' (?pos (int (nat (iq_queue_size q)))) = new_sample t d fl off sz key iv nbc nbe"
    using n s [of "iq_relative_write_index q"] w ring_pos_bounds [OF c] by simp
  have "iq_samples q' = iq_samples q @ [new_sample t d fl off sz key iv nbc nbe]"
    unfolding iq_samples_def sz map_upt_snoc using f old new by simp
  with inv' f show ?thesis by (simp add: InfoQueue_GetReadIndex_def)
qed

section \<open>Discarding from the write side\<close>

lemma last_write_index_ring:
  "iq_inv q \<Longrightarrow> last_write_index q =
     ring_pos (iq_capacity q) (iq_relative_read_index q) (iq_queue_size q - 1)"
  using ring_pred [of "iq_relative_write_index q" "iq_capacity q"]
    ring_pos_bounds [of "iq_capacity q" "iq_relative_read_index q" "iq_queue_size q"]
  by (simp add: last_write_index_def iq_inv_def ring_pos_shift)

lemma iq_last:
  assumes "iq_inv q" "iq_samples q \<noteq> []"
  shows "last (iq_samples q) = slot q (last_write_index q)"
proof -
  have n: "0 < iq_queue_size q" using assms by (auto simp: iq_inv_def)
  have "last (iq_samples q) = iq_samples q ! (nat (iq_queue_size q) - 1)"
    using assms(2) by (simp add: last_conv_nth)
  also have "\<dots> = slot q (ring_pos (iq_capacity q) (iq_relative_read_index q) (iq_queue_size q - 1))"
    using n iq_samples_nth [of "nat (iq_queue_size q) - 1" q] by simp
  finally show ?thesis using assms(1) by (simp add: last_write_index_ring)
qed

text \<open>
  Dropping at least one sample cuts the list at the given absolute index and returns the offset of
  the first dropped sample; dropping none from a non-empty queue returns the end of its last
  sample. (The remaining case, an empty queue from which samples have been read, is treated in
  \<open>discard_none_after_growth\<close>.)
\<close>

theorem DiscardUpstreamSamples_fifo:
  assumes inv: "iq_inv q"
    and rng: "InfoQueue_GetReadIndex q \<le> i" "i \<le> InfoQueue_GetWriteIndex q"
    and call: "InfoQueue_DiscardUpstreamSamples q i = (ret, q')"
  shows "iq_inv q' \<and> iq_samples q' = take (nat (i - InfoQueue_GetReadIndex q)) (iq_samples q) \<and>
    InfoQueue_GetReadIndex q' = InfoQueue_GetReadIndex q \<and>
    (i < InfoQueue_GetWriteIndex q \<longrightarrow>
       ret = si_offset (iq_samples q ! nat (i - InfoQueue_GetReadIndex q))) \<and>
    (i = InfoQueue_GetWriteIndex q \<longrightarrow> iq_samples q \<noteq> [] \<longrightarrow> InfoQueue_GetReadIndex q \<noteq> 0 \<longrightarrow>
       ret = si_offset (last (iq_samples q)) + si_size (last (iq_samples q)))"
proof (cases "i = InfoQueue_GetWriteIndex q")
  case True
  then have "q' = q" and "nat (i - InfoQueue_GetReadIndex q) = length (iq_samples q)"
    using call by (auto simp: InfoQueue_DiscardUpstreamSamples_def Let_def InfoQueue_GetWriteIndex_def
        InfoQueue_GetReadIndex_def split: if_splits)
  then show ?thesis
    using True call inv iq_last [OF inv]
    by (auto simp: InfoQueue_DiscardUpstreamSamples_def Let_def InfoQueue_GetReadIndex_def slot_def)
next
  case False
  let ?c = "iq_capacity q" and ?r = "iq_relative_read_index q" and ?n = "iq_queue_size q"
  define k where "k = i - iq_absolute_read_index q"
  have k: "0 \<le> k" "k < ?n" and c: "0 < ?c" and n: "?n < ?c"
    using rng False inv
    by (auto simp: k_def InfoQueue_GetWriteIndex_def InfoQueue_GetReadIndex_def iq_inv_def)
  have b: "0 \<le> ring_pos ?c ?r ?n" using ring_pos_bounds [OF c] by simp
  have "(iq_relative_write_index q + ?c - (?n - k)) smod ?c = (ring_pos ?c ?r ?n + ?c - (?n - k)) mod ?c"
    using inv k c n b by (subst smod_nonneg) (auto simp: iq_inv_def)
  also have "\<dots> = (ring_pos ?c ?r ?n + (k - ?n) + ?c) mod ?c" by (simp add: algebra_simps)
  also have "\<dots> = (ring_pos ?c ?r ?n + (k - ?n)) mod ?c" by (rule mod_add_self2)
  also have "\<dots> = ring_pos ?c ?r k"
    using ring_pos_shift [of ?c ?r ?n "k - ?n"] by (simp add: ring_pos_def [of ?c "ring_pos ?c ?r ?n"])
  finally have w: "(iq_relative_write_index q + ?c - (?n - k)) smod ?c = ring_pos ?c ?r k" .
  have cnt: "InfoQueue_GetWriteIndex q - i = ?n - k"
    by (simp add: k_def InfoQueue_GetWriteIndex_def)
  have q': "q' = q\<lparr>iq_queue_size := k, iq_relative_write_index := ring_pos ?c ?r k\<rparr>"
    and ret: "ret = arr_get (iq_offsets q) (ring_pos ?c ?r k)"
    using call False k w by (auto simp: InfoQueue_DiscardUpstreamSamples_def Let_def cnt)
  have "iq_inv q'" using inv k n by (simp add: q' iq_inv_def arrays_sized_def)
  moreover have "iq_samples q' = take (nat k) (iq_samples q)"
    using k by (simp add: q' iq_samples_def take_map take_upt)
  moreover have "ret = si_offset (iq_samples q ! nat k)"
    using k ret by (simp add: iq_samples_nth slot_def)
  ultimately show ?thesis using False by (simp add: q' k_def InfoQueue_GetReadIndex_def)
qed

section \<open>Skipping to a keyframe\<close>

definition is_sync :: "sample_info \<Rightarrow> bool" where
  "is_sync s \<longleftrightarrow> si_flags s AND kSampleFlagSync \<noteq> 0"

text \<open>The scan on the list of samples, and what it finds.\<close>

fun scan_list :: "int \<Rightarrow> sample_info list \<Rightarrow> int \<Rightarrow> int \<Rightarrow> int" where
  "scan_list t [] n found = found"
| "scan_list t (s # ss) n found =
     (if si_time_us s > t then found
      else scan_list t ss (n + 1) (if is_sync s then n else found))"

definition upto_time :: "int \<Rightarrow> sample_info list \<Rightarrow> nat" where
  "upto_time t ss = length (takeWhile (\<lambda>s. si_time_us s \<le> t) ss)"

lemma scan_list_result:
  "(scan_list t ss n found = found \<and> (\<forall>j < upto_time t ss. \<not> is_sync (ss ! j))) \<or>
   (\<exists>k < upto_time t ss. scan_list t ss n found = n + int k \<and> is_sync (ss ! k) \<and>
      (\<forall>j. k < j \<longrightarrow> j < upto_time t ss \<longrightarrow> \<not> is_sync (ss ! j)))"
proof (induction ss arbitrary: n found)
  case Nil
  then show ?case by (simp add: upto_time_def)
next
  case (Cons s ss)
  show ?case
  proof (cases "si_time_us s > t")
    case True
    then show ?thesis by (simp add: upto_time_def)
  next
    case False
    then have u: "upto_time t (s # ss) = Suc (upto_time t ss)" by (simp add: upto_time_def)
    from Cons.IH [of "n + 1" "if is_sync s then n else found"] show ?thesis
    proof (elim disjE exE conjE)
      assume r: "scan_list t ss (n + 1) (if is_sync s then n else found) = (if is_sync s then n else found)"
        and none: "\<forall>j < upto_time t ss. \<not> is_sync (ss ! j)"
      show ?thesis
      proof (cases "is_sync s")
        case True
        with False u r none show ?thesis
          by (intro disjI2 exI [of _ 0]) (auto simp: nth_Cons split: nat.splits)
      next
        case nosync: False
        with False u r none show ?thesis by (auto simp: nth_Cons split: nat.splits)
      qed
    next
      fix k
      assume "k < upto_time t ss" "is_sync (ss ! k)"
        "scan_list t ss (n + 1) (if is_sync s then n else found) = n + 1 + int k"
        "\<forall>j. k < j \<longrightarrow> j < upto_time t ss \<longrightarrow> \<not> is_sync (ss ! j)"
      with False u show ?thesis
        by (intro disjI2 exI [of _ "Suc k"]) (auto simp: nth_Cons split: nat.splits)
    qed
  qed
qed

lemma keyframe_scan_list:
  assumes inv: "iq_inv q" and "0 \<le> k" "k \<le> iq_queue_size q"
  shows "keyframe_scan q t (ring_pos (iq_capacity q) (iq_relative_read_index q) k) n found =
    scan_list t (drop (nat k) (iq_samples q)) n found"
  using assms(2,3)
proof (induction "nat (iq_queue_size q - k)" arbitrary: k n found)
  case 0
  then have "k = iq_queue_size q" by simp
  then show ?case using inv by (simp add: keyframe_scan.simps iq_inv_def)
next
  case (Suc m)
  let ?c = "iq_capacity q" and ?pos = "ring_pos (iq_capacity q) (iq_relative_read_index q)"
  have c: "0 < ?c" and k: "k < iq_queue_size q" "nat k < nat (iq_queue_size q)"
    and w: "iq_relative_write_index q = ?pos (iq_queue_size q)"
    and n: "0 \<le> iq_queue_size q" "iq_queue_size q < ?c"
    using inv Suc by (auto simp: iq_inv_def)
  have ne: "?pos k \<noteq> iq_relative_write_index q"
    using ring_pos_inj [OF c, of k "iq_queue_size q"] k n Suc.prems w by auto
  have d: "drop (nat k) (iq_samples q) = slot q (?pos k) # drop (nat (k + 1)) (iq_samples q)"
    using k Suc.prems Cons_nth_drop_Suc [of "nat k" "iq_samples q"]
    by (simp add: iq_samples_nth nat_add_distrib)
  have nx: "(?pos k + 1) smod ?c = ?pos (k + 1)"
    using ring_pos_bounds [OF c] c by (simp add: ring_pos_def mod_add_left_eq add.assoc)
  show ?case
    using ne ring_pos_bounds [OF c] w Suc.hyps(1) [of "k + 1"] Suc.hyps(2) Suc.prems k
    by (subst keyframe_scan.simps) (simp add: d nx slot_def is_sync_def)
qed

text \<open>
  A successful skip moves the head of the queue to the last keyframe of the leading run of samples
  whose times do not exceed the target; a failed one leaves the queue as it is, and fails only when
  the target is outside the queue's times or no such keyframe exists.
\<close>

theorem SkipToKeyframeBefore_fifo:
  assumes inv: "iq_inv q" and call: "InfoQueue_SkipToKeyframeBefore q t = (ret, q')"
    and offs: "\<forall>s \<in> set (iq_samples q). 0 \<le> si_offset s"
  shows "iq_inv q' \<and>
    (ret = -1 \<longrightarrow> q' = q \<and>
       (iq_samples q = [] \<or> t < si_time_us (hd (iq_samples q)) \<or> si_time_us (last (iq_samples q)) < t \<or>
        (\<forall>j < upto_time t (iq_samples q). \<not> is_sync (iq_samples q ! j)))) \<and>
    (ret \<noteq> -1 \<longrightarrow>
       (\<exists>k < upto_time t (iq_samples q).
          iq_samples q' = drop k (iq_samples q) \<and> ret = si_offset (iq_samples q ! k) \<and>
          InfoQueue_GetReadIndex q' = InfoQueue_GetReadIndex q + int k \<and>
          is_sync (iq_samples q ! k) \<and>
          (\<forall>j. k < j \<longrightarrow> j < upto_time t (iq_samples q) \<longrightarrow> \<not> is_sync (iq_samples q ! j))))"
proof (cases "iq_samples q = [] \<or> t < si_time_us (hd (iq_samples q)) \<or> si_time_us (last (iq_samples q)) < t")
  case True
  then have "(ret, q') = (-1, q)"
    using call inv iq_head [OF inv] iq_last [OF inv]
    by (auto simp: InfoQueue_SkipToKeyframeBefore_def slot_def split: if_splits)
  with True inv show ?thesis by auto
next
  case False
  let ?c = "iq_capacity q" and ?r = "iq_relative_read_index q" and ?S = "iq_samples q"
  have c: "0 < ?c" and r: "0 \<le> ?r" "?r < ?c" and n: "iq_queue_size q < ?c"
    using inv by (auto simp: iq_inv_def)
  have ne: "?S \<noteq> []" and sz: "0 < iq_queue_size q" using False inv by (auto simp: iq_inv_def)
  define m where "m = scan_list t ?S 0 (- 1)"
  have scan: "keyframe_scan q t ?r 0 (- 1) = m"
    using keyframe_scan_list [OF inv, of 0 t 0 "- 1"] sz r by (simp add: m_def ring_pos_0)
  have unf: "InfoQueue_SkipToKeyframeBefore q t =
      (if m = - 1 then (- 1, q) else let r = (?r + m) smod ?c in (arr_get (iq_offsets q) r,
         q\<lparr>iq_queue_size := iq_queue_size q - m, iq_relative_read_index := r,
           iq_absolute_read_index := iq_absolute_read_index q + m\<rparr>))"
    using False ne sz iq_head [OF inv ne] iq_last [OF inv ne]
    by (simp add: InfoQueue_SkipToKeyframeBefore_def slot_def scan)
  from scan_list_result [of t ?S 0 "- 1"] show ?thesis
  proof (elim disjE exE conjE)
    assume "scan_list t ?S 0 (- 1) = - 1" "\<forall>j < upto_time t ?S. \<not> is_sync (?S ! j)"
    with unf call inv show ?thesis by (simp add: m_def)
  next
    fix k
    assume k: "k < upto_time t ?S" "scan_list t ?S 0 (- 1) = 0 + int k" "is_sync (?S ! k)"
      "\<forall>j. k < j \<longrightarrow> j < upto_time t ?S \<longrightarrow> \<not> is_sync (?S ! j)"
    have kl: "k < nat (iq_queue_size q)"
      using k(1) length_takeWhile_le [of "\<lambda>s. si_time_us s \<le> t" ?S] by (simp add: upto_time_def)
    have m: "m = int k" using k(2) by (simp add: m_def)
    have pos: "(?r + m) smod ?c = ring_pos ?c ?r (int k)" using r c by (simp add: m ring_pos_def)
    have q': "q' = q\<lparr>iq_queue_size := iq_queue_size q - int k,
        iq_relative_read_index := ring_pos ?c ?r (int k),
        iq_absolute_read_index := iq_absolute_read_index q + int k\<rparr>"
      and ret: "ret = si_offset (?S ! k)"
      using unf call pos kl by (auto simp: m Let_def iq_samples_nth slot_def)
    have inv': "iq_inv q'"
      using inv kl ring_pos_bounds [OF c] by (simp add: q' iq_inv_def arrays_sized_def ring_pos_shift)
    have "iq_samples q' = drop k ?S"
      using kl by (intro nth_equalityI)
        (auto simp: q' iq_samples_def ring_pos_shift nat_diff_distrib)
    moreover have "0 \<le> ret" using offs ret kl nth_mem [of k ?S] by simp
    then have "ret \<noteq> - 1" by simp
    ultimately show ?thesis
      using k inv' ret by (auto simp: q' InfoQueue_GetReadIndex_def)
  qed
qed

section \<open>The queue contract\<close>

text \<open>
  What a client sees: the absolute index of the head and the samples after it. \<open>abs_op\<close> is the
  specification of the operations on that view, \<open>legal_op\<close> what the source asks of a caller (the
  queue is not empty when a sample is taken; a discard index lies between the read and the write
  index, the condition of its \<open>DCHECK\<close>).
\<close>

datatype queue_op = Commit sample_info | Take_next | Discard_from int | Clear_all

type_synonym queue_view = "int \<times> sample_info list"

fun abs_op :: "queue_op \<Rightarrow> queue_view \<Rightarrow> queue_view" where
  "abs_op (Commit s) (b, xs) = (b, xs @ [s])"
| "abs_op Take_next (b, xs) = (b + 1, tl xs)"
| "abs_op (Discard_from i) (b, xs) = (b, take (nat (i - b)) xs)"
| "abs_op Clear_all (b, xs) = (0, [])"

fun legal_op :: "queue_op \<Rightarrow> queue_view \<Rightarrow> bool" where
  "legal_op (Commit s) v = True"
| "legal_op Take_next (b, xs) = (xs \<noteq> [])"
| "legal_op (Discard_from i) (b, xs) = (b \<le> i \<and> i \<le> b + int (length xs))"
| "legal_op Clear_all v = True"

fun legal_run :: "queue_op list \<Rightarrow> queue_view \<Rightarrow> bool" where
  "legal_run [] v = True"
| "legal_run (x # xs) v = (legal_op x v \<and> legal_run xs (abs_op x v))"

locale sample_fifo =
  fixes step :: "queue_op \<Rightarrow> 'q \<Rightarrow> 'q" and view :: "'q \<Rightarrow> queue_view" and ok :: "'q \<Rightarrow> bool"
  assumes step_ok: "ok q \<Longrightarrow> legal_op x (view q) \<Longrightarrow> ok (step x q)"
    and step_view: "ok q \<Longrightarrow> legal_op x (view q) \<Longrightarrow> view (step x q) = abs_op x (view q)"
begin

lemma run_refines:
  "ok q \<Longrightarrow> legal_run ops (view q) \<Longrightarrow>
   ok (fold step ops q) \<and> view (fold step ops q) = fold abs_op ops (view q)"
proof (induction ops arbitrary: q)
  case Nil
  then show ?case by simp
next
  case (Cons x ops)
  then have "ok (step x q)" "view (step x q) = abs_op x (view q)"
    using step_ok step_view by auto
  with Cons show ?case by simp
qed

lemma commits_in_order:
  assumes "ok q" and "view q = (b, xs)"
  shows "view (fold step (map Commit ss) q) = (b, xs @ ss)"
proof -
  have "legal_run (map Commit ss) v" for v by (induction ss arbitrary: v) auto
  then have "view (fold step (map Commit ss) q) = fold abs_op (map Commit ss) (b, xs)"
    using run_refines [OF assms(1)] assms(2) by simp
  also have "\<dots> = (b, xs @ ss)" by (induction ss arbitrary: xs) auto
  finally show ?thesis .
qed

end

definition iq_view :: "info_queue \<Rightarrow> queue_view" where
  "iq_view q = (InfoQueue_GetReadIndex q, iq_samples q)"

fun iq_step :: "queue_op \<Rightarrow> info_queue \<Rightarrow> info_queue" where
  "iq_step (Commit s) q = InfoQueue_CommitSample q (si_time_us s) (si_duration_us s) (si_flags s)
     (si_offset s) (si_size s) (Some (si_key s)) (Some (si_iv s)) (Some (si_num_bytes_clear s))
     (Some (si_num_bytes_enc s))"
| "iq_step Take_next q = snd (InfoQueue_MoveToNextSample q)"
| "iq_step (Discard_from i) q = snd (InfoQueue_DiscardUpstreamSamples q i)"
| "iq_step Clear_all q = InfoQueue_Clear q"

lemma new_sample_eta:
  "new_sample (si_time_us s) (si_duration_us s) (si_flags s) (si_offset s) (si_size s) (Some (si_key s))
     (Some (si_iv s)) (Some (si_num_bytes_clear s)) (Some (si_num_bytes_enc s)) = s"
  by (simp add: new_sample_def)

lemma GetWriteIndex_view: "iq_inv q \<Longrightarrow> InfoQueue_GetWriteIndex q = InfoQueue_GetReadIndex q + int (length (iq_samples q))"
  by (simp add: InfoQueue_GetWriteIndex_def InfoQueue_GetReadIndex_def iq_inv_def)

lemma iq_step_refines:
  assumes inv: "iq_inv q" and legal: "legal_op x (iq_view q)"
  shows "iq_inv (iq_step x q) \<and> iq_view (iq_step x q) = abs_op x (iq_view q)"
proof (cases x)
  case (Commit s)
  then show ?thesis
    using CommitSample_fifo [OF inv refl] by (simp add: iq_view_def new_sample_eta)
next
  case Take_next
  with legal have "iq_samples q \<noteq> []" by (simp add: iq_view_def)
  from MoveToNextSample_fifo [OF inv this surjective_pairing] Take_next show ?thesis
    by (simp add: iq_view_def)
next
  case (Discard_from i)
  with legal inv have "InfoQueue_GetReadIndex q \<le> i" "i \<le> InfoQueue_GetWriteIndex q"
    by (simp_all add: iq_view_def GetWriteIndex_view)
  from DiscardUpstreamSamples_fifo [OF inv this surjective_pairing] Discard_from show ?thesis
    by (simp add: iq_view_def)
next
  case Clear_all
  then show ?thesis
    using iq_inv_Clear [OF inv]
    by (simp add: iq_view_def) (simp add: InfoQueue_GetReadIndex_def InfoQueue_Clear_def)
qed

interpretation info_fifo: sample_fifo iq_step iq_view iq_inv
  by unfold_locales (simp_all add: iq_step_refines)

section \<open>Properties\<close>

lemma iq_view_new: "iq_view InfoQueue_new = (0, [])"
  using iq_inv_new by (simp add: iq_view_def) (simp add: InfoQueue_GetReadIndex_def InfoQueue_new_def Let_def)

text \<open>
  C1. The metadata queue is a FIFO queue, whatever the capacity, the wrap-arounds and the growths:
  any sequence of commits, takes, upstream discards and clears that respects the callers'
  obligations, started on a new queue, leaves exactly the read index and the samples that the same
  sequence leaves on the abstract list, with the ring invariant intact.
\<close>

theorem info_queue_refines_list:
  assumes "legal_run ops (0, [])"
  shows "iq_inv (fold iq_step ops InfoQueue_new) \<and>
    iq_view (fold iq_step ops InfoQueue_new) = fold abs_op ops (0, [])"
  using info_fifo.run_refines [of InfoQueue_new ops] assms iq_inv_new by (simp add: iq_view_new)

definition demo_sample :: "int \<Rightarrow> int \<Rightarrow> sample_info" where
  "demo_sample t fl = \<lparr>si_time_us = t, si_duration_us = 40, si_flags = fl, si_offset = 10 * t,
     si_size = 10, si_key = ''key'', si_iv = [1, 2], si_num_bytes_clear = [4], si_num_bytes_enc = [6]\<rparr>"

definition demo_ops :: "queue_op list" where
  "demo_ops = [Commit (demo_sample 1 1), Commit (demo_sample 2 0), Take_next,
     Commit (demo_sample 3 0), Discard_from 2, Commit (demo_sample 4 1)]"

theorem info_queue_refines_list_witness:
  "legal_run demo_ops (0, []) \<and>
   iq_view (fold iq_step demo_ops InfoQueue_new) = (1, [demo_sample 2 0, demo_sample 4 1])"
proof -
  have h: "legal_run demo_ops (0, [])" by (simp add: demo_ops_def)
  from info_queue_refines_list [OF h] h show ?thesis by (simp add: demo_ops_def)
qed

lemma skip_outside_fails:
  assumes inv: "iq_inv q"
    and out: "iq_samples q = [] \<or> t < si_time_us (hd (iq_samples q)) \<or> si_time_us (last (iq_samples q)) < t"
  shows "InfoQueue_SkipToKeyframeBefore q t = (-1, q)"
  using out inv iq_head [OF inv] iq_last [OF inv]
  by (auto simp: InfoQueue_SkipToKeyframeBefore_def slot_def split: if_splits)

text \<open>When the times do not decrease, the leading run holds every sample not after the target.\<close>

lemma upto_time_sorted:
  assumes "sorted (map si_time_us ss)" "j < length ss" "si_time_us (ss ! j) \<le> t"
  shows "j < upto_time t ss"
proof (rule ccontr)
  assume "\<not> j < upto_time t ss"
  then have le: "upto_time t ss \<le> j" by simp
  with assms(2) have "\<not> si_time_us (ss ! upto_time t ss) \<le> t"
    unfolding upto_time_def by (intro nth_length_takeWhile) simp
  moreover have "si_time_us (ss ! upto_time t ss) \<le> si_time_us (ss ! j)"
    using sorted_nth_mono [OF assms(1) le] assms(2) le by simp
  ultimately show False using assms(3) by simp
qed

text \<open>
  C22. Seeking inside the queue. \<open>SkipToKeyframeBefore\<close> fails exactly when the queue is empty, the
  target lies before its first or after its last sample, or the leading run of samples at or before
  the target has no keyframe; then nothing changes. Otherwise the new head is the last keyframe of
  that run, it is not after the target, exactly the samples before it are dropped, the absolute read
  index has moved by as many, and the returned position is where its data starts. When the sample times
  do not decrease it is the last keyframe of the whole queue that is not after the target (with
  reordered samples the scan stops at the first sample after the target, and later ones are not
  looked at). Offsets are non-negative, as every committed position is.
\<close>

theorem skip_to_keyframe_correct:
  assumes "iq_inv q" and "InfoQueue_SkipToKeyframeBefore q t = (ret, q')"
    and "\<forall>s \<in> set (iq_samples q). 0 \<le> si_offset s"
  shows "(ret = -1 \<longleftrightarrow> iq_samples q = [] \<or> t < si_time_us (hd (iq_samples q)) \<or>
       si_time_us (last (iq_samples q)) < t \<or>
       (\<forall>j < upto_time t (iq_samples q). \<not> is_sync (iq_samples q ! j))) \<and>
    (if ret = -1 then q' = q
     else iq_inv q' \<and>
      (\<exists>k < upto_time t (iq_samples q).
         iq_samples q' = drop k (iq_samples q) \<and> ret = si_offset (iq_samples q ! k) \<and>
         InfoQueue_GetReadIndex q' = InfoQueue_GetReadIndex q + int k \<and>
         is_sync (hd (iq_samples q')) \<and> si_time_us (hd (iq_samples q')) \<le> t \<and>
         (\<forall>j. k < j \<longrightarrow> j < upto_time t (iq_samples q) \<longrightarrow> \<not> is_sync (iq_samples q ! j)) \<and>
         (sorted (map si_time_us (iq_samples q)) \<longrightarrow>
            (\<forall>j < length (iq_samples q). k < j \<longrightarrow> si_time_us (iq_samples q ! j) \<le> t \<longrightarrow> \<not> is_sync (iq_samples q ! j)))))"
proof (cases "ret = -1")
  case True
  with SkipToKeyframeBefore_fifo [OF assms] show ?thesis by simp
next
  case False
  with SkipToKeyframeBefore_fifo [OF assms] obtain k where k: "iq_inv q'"
    "k < upto_time t (iq_samples q)" "iq_samples q' = drop k (iq_samples q)"
    "ret = si_offset (iq_samples q ! k)" "is_sync (iq_samples q ! k)"
    "InfoQueue_GetReadIndex q' = InfoQueue_GetReadIndex q + int k"
    "\<forall>j. k < j \<longrightarrow> j < upto_time t (iq_samples q) \<longrightarrow> \<not> is_sync (iq_samples q ! j)"
    by blast
  have len: "k < length (iq_samples q)"
    using k(2) length_takeWhile_le unfolding upto_time_def by (rule less_le_trans)
  have "si_time_us (iq_samples q ! k) \<le> t"
    using k(2) set_takeWhileD [of _ "\<lambda>s. si_time_us s \<le> t"] nth_mem [OF k(2) [unfolded upto_time_def]]
    by (fastforce simp: upto_time_def takeWhile_nth)
  moreover have "\<not> (iq_samples q = [] \<or> t < si_time_us (hd (iq_samples q)) \<or> si_time_us (last (iq_samples q)) < t)"
    using skip_outside_fails [OF assms(1)] assms(2) False by auto
  moreover have "\<exists>j < upto_time t (iq_samples q). is_sync (iq_samples q ! j)" using k(2,5) by blast
  ultimately show ?thesis using False k len upto_time_sorted [of "iq_samples q" _ t]
    by (auto simp: hd_drop_conv_nth)
qed

definition demo_queue :: info_queue where
  "demo_queue = fold iq_step (map Commit [demo_sample 1 1, demo_sample 2 0, demo_sample 5 1]) InfoQueue_new"

lemma demo_queue_samples:
  "iq_inv demo_queue \<and> iq_samples demo_queue = [demo_sample 1 1, demo_sample 2 0, demo_sample 5 1]"
  using info_fifo.commits_in_order [of InfoQueue_new 0 "[]"]
    info_fifo.run_refines [of InfoQueue_new "map Commit [demo_sample 1 1, demo_sample 2 0, demo_sample 5 1]"]
    iq_inv_new iq_view_new
  by (simp add: demo_queue_def iq_view_def)

theorem skip_to_keyframe_correct_witness:
  "iq_inv demo_queue \<and> fst (InfoQueue_SkipToKeyframeBefore demo_queue 3) = 10 \<and>
   iq_samples (snd (InfoQueue_SkipToKeyframeBefore demo_queue 3)) = iq_samples demo_queue \<and>
   iq_samples (snd (InfoQueue_SkipToKeyframeBefore demo_queue 5)) = [demo_sample 5 1] \<and>
   InfoQueue_GetReadIndex (snd (InfoQueue_SkipToKeyframeBefore demo_queue 5)) = InfoQueue_GetReadIndex demo_queue + 2 \<and>
   fst (InfoQueue_SkipToKeyframeBefore demo_queue 6) = -1"
proof -
  let ?r = "InfoQueue_SkipToKeyframeBefore demo_queue 3" and ?S = "iq_samples demo_queue"
  let ?u = "InfoQueue_SkipToKeyframeBefore demo_queue 5" and ?v = "InfoQueue_SkipToKeyframeBefore demo_queue 6"
  have S: "?S = [demo_sample 1 1, demo_sample 2 0, demo_sample 5 1]" by (simp add: demo_queue_samples)
  have h: "iq_inv demo_queue" "\<forall>s \<in> set ?S. 0 \<le> si_offset s"
    using demo_queue_samples by (simp_all add: demo_sample_def)
  have up: "upto_time 3 ?S = 2" "upto_time 5 ?S = 3" by (simp_all add: S upto_time_def demo_sample_def)
  have sync: "is_sync (?S ! 0)" "\<not> is_sync (?S ! 1)" "is_sync (?S ! 2)"
    by (simp_all add: S is_sync_def demo_sample_def kSampleFlagSync_def)
  have t: "si_time_us (hd ?S) = 1" "si_time_us (last ?S) = 5" "?S \<noteq> []" by (simp_all add: S demo_sample_def)
  note c = skip_to_keyframe_correct [OF h(1) surjective_pairing h(2)]
  have "fst ?r \<noteq> -1" using c [of 3] t sync(1) by (auto simp: up intro: exI [of _ 0])
  with c [of 3] up obtain k where k: "k < 2" "iq_samples (snd ?r) = drop k ?S" "fst ?r = si_offset (?S ! k)"
      "is_sync (hd (iq_samples (snd ?r)))" by auto
  have "k = 0"
  proof (rule ccontr)
    assume "k \<noteq> 0"
    with k(1) have "k = 1" by simp
    with k sync(2) show False by (simp add: S)
  qed
  moreover have "fst ?u \<noteq> -1" using c [of 5] t sync(1) by (auto simp: up intro: exI [of _ 0])
  with c [of 5] up obtain l where l: "l < 3" "iq_samples (snd ?u) = drop l ?S"
      "InfoQueue_GetReadIndex (snd ?u) = InfoQueue_GetReadIndex demo_queue + int l"
      "\<forall>j. l < j \<longrightarrow> j < 3 \<longrightarrow> \<not> is_sync (?S ! j)" by auto
  moreover have "l = 2" using l(1,4) sync(3) by (metis One_nat_def less_2_cases less_numeral_extra(3) linorder_neqE_nat numeral_2_eq_2 numeral_3_eq_3 lessI not_less_eq)
  moreover have "fst ?v = -1" using c [of 6] t by simp
  ultimately show ?thesis using k h by (simp add: S demo_sample_def)
qed

lemma commit_fresh_slots:
  assumes inv: "iq_inv q" and full: "iq_queue_size q + 1 = iq_capacity q"
    and q': "q' = InfoQueue_CommitSample q t d fl off sz key iv nbc nbe"
    and k: "iq_capacity q \<le> k" "k < iq_capacity q + kSampleCapacityIncrement"
  shows "arr_get (iq_offsets q') k = uninit64 \<and> arr_get (iq_sizes q') k = uninit32"
  using inv full k
  by (simp add: q' InfoQueue_CommitSample_def Let_def iq_inv_def grow_array_fresh)

text \<open>
  A defect of \<open>DiscardUpstreamSamples\<close>: the sample consumed last is forgotten when the arrays
  grow. When a commit makes the ring grow after something has been read, everything queued is then
  discarded, and a further discard of nothing is requested, the position returned is read from
  array slots that were never written (\<open>uninit64 + uninit32\<close>): it depends on no committed sample.
\<close>

theorem discard_none_after_growth:
  assumes inv: "iq_inv q" and full: "iq_queue_size q + 1 = iq_capacity q"
    and rd: "0 < InfoQueue_GetReadIndex q"
    and q1: "q1 = InfoQueue_CommitSample q t d fl off sz key iv nbc nbe"
    and q2: "q2 = snd (InfoQueue_DiscardUpstreamSamples q1 (InfoQueue_GetReadIndex q1))"
  shows "InfoQueue_DiscardUpstreamSamples q2 (InfoQueue_GetWriteIndex q2) = (uninit64 + uninit32, q2)"
proof -
  note f = commit_fields_grow [OF inv full q1]
  let ?c = "iq_capacity q + kSampleCapacityIncrement"
  have c: "0 < iq_capacity q" "0 < ?c" and n: "0 < iq_queue_size q1"
    using inv f full by (auto simp: iq_inv_def kSampleCapacityIncrement_def)
  have "(iq_capacity q + ?c - iq_queue_size q1) smod ?c = 0"
    using f full c by (simp add: algebra_simps)
  with n f have q2': "q2 = q1\<lparr>iq_queue_size := 0, iq_relative_write_index := 0\<rparr>"
    by (simp add: q2 InfoQueue_DiscardUpstreamSamples_def Let_def InfoQueue_GetWriteIndex_def
        InfoQueue_GetReadIndex_def)
  have last: "last_write_index q2 = ?c - 1" by (simp add: q2' last_write_index_def f)
  have "arr_get (iq_offsets q1) (?c - 1) = uninit64 \<and> arr_get (iq_sizes q1) (?c - 1) = uninit32"
    using commit_fresh_slots [OF inv full q1, of "?c - 1"] by (simp add: kSampleCapacityIncrement_def)
  moreover have "iq_absolute_read_index q2 \<noteq> 0" using rd f by (simp add: q2' InfoQueue_GetReadIndex_def)
  ultimately show ?thesis
    by (simp add: InfoQueue_DiscardUpstreamSamples_def Let_def last) (simp add: q2')
qed

definition full_queue :: info_queue where
  "full_queue = InfoQueue_new\<lparr>iq_queue_size := 999, iq_absolute_read_index := 1,
     iq_relative_read_index := 1, iq_relative_write_index := 0\<rparr>"

theorem discard_none_after_growth_witness:
  "iq_inv full_queue \<and> iq_queue_size full_queue + 1 = iq_capacity full_queue \<and>
   0 < InfoQueue_GetReadIndex full_queue \<and>
   (let q1 = InfoQueue_CommitSample full_queue 7 40 1 7000 70 None None None None;
        q2 = snd (InfoQueue_DiscardUpstreamSamples q1 (InfoQueue_GetReadIndex q1))
    in fst (InfoQueue_DiscardUpstreamSamples q2 (InfoQueue_GetWriteIndex q2)) = uninit64 + uninit32)"
proof -
  have h: "iq_inv full_queue" "iq_queue_size full_queue + 1 = iq_capacity full_queue"
      "0 < InfoQueue_GetReadIndex full_queue"
    by (simp_all add: full_queue_def InfoQueue_new_def Let_def kSampleCapacityIncrement_def iq_inv_def
        arrays_sized_def ring_pos_def InfoQueue_GetReadIndex_def)
  from discard_none_after_growth [OF h refl refl] h show ?thesis by (simp add: Let_def)
qed

end
