(* ===== verification/Default_Allocator.thy ===== *)
theory Default_Allocator
  imports Ndash_Prelude
begin

text \<open>
  The block allocator behind the sample buffers (\<open>upstream/default_allocator.cc\<close>). The heap it
  draws from is explicit: \<open>da_heap\<close> maps the address of every live block to its contents, so that
  a use after release or a leak is visible. The locale \<open>block_allocator\<close> is the interface
  (\<open>upstream/allocator.h\<close>) its clients rely on.
\<close>

type_synonym addr = nat

record default_allocator =
  da_individual_allocation_size :: int
  da_allocated_count :: int
  da_heap :: "addr \<Rightarrow> byte list option"
  da_next :: addr

definition DefaultAllocator_new :: "int \<Rightarrow> default_allocator result" where
  "DefaultAllocator_new individual_allocation_size =
     (if individual_allocation_size > 0
      then Inr \<lparr>da_individual_allocation_size = individual_allocation_size,
                da_allocated_count = 0, da_heap = Map.empty, da_next = 0\<rparr>
      else Inl Check_failed)"

definition Allocate :: "default_allocator \<Rightarrow> addr \<times> default_allocator" where
  "Allocate a =
     (da_next a,
      a\<lparr>da_allocated_count := wrap64 (da_allocated_count a + 1),
        da_heap := (da_heap a)(da_next a \<mapsto>
          replicate (nat (da_individual_allocation_size a)) uninit_byte),
        da_next := Suc (da_next a)\<rparr>)"

definition Release :: "addr \<Rightarrow> default_allocator \<Rightarrow> default_allocator" where
  "Release p a = a\<lparr>da_allocated_count := wrap64 (da_allocated_count a - 1),
     da_heap := (da_heap a)(p := None)\<rparr>"

definition GetTotalBytesAllocated :: "default_allocator \<Rightarrow> int" where
  "GetTotalBytesAllocated a = wrap64 (da_allocated_count a * da_individual_allocation_size a)"

definition GetIndividualAllocationLength :: "default_allocator \<Rightarrow> int" where
  "GetIndividualAllocationLength a = da_individual_allocation_size a"

definition Trim :: "default_allocator \<Rightarrow> int \<Rightarrow> default_allocator" where
  "Trim a target_bytes = a"

text \<open>
  A write into a block, \<open>memcpy(p + offset, data, n)\<close>: undefined when the block is not live or the
  range leaves it.
\<close>

definition poke :: "addr \<Rightarrow> int \<Rightarrow> byte list \<Rightarrow> default_allocator \<Rightarrow> default_allocator result" where
  "poke p off data a =
     (case da_heap a p of
        None \<Rightarrow> Inl Undefined_access
      | Some blk \<Rightarrow>
          if 0 \<le> off \<and> off + int (length data) \<le> int (length blk)
          then Inr (a\<lparr>da_heap := (da_heap a)(p \<mapsto>
                 take (nat off) blk @ data @ drop (nat off + length data) blk)\<rparr>)
          else Inl Undefined_access)"

section \<open>The interface\<close>

definition da_inv :: "default_allocator \<Rightarrow> bool" where
  "da_inv a \<longleftrightarrow> 0 < da_individual_allocation_size a \<and> finite (dom (da_heap a)) \<and>
     (\<forall>p \<in> dom (da_heap a). p < da_next a) \<and>
     da_allocated_count a = wrap64 (int (card (dom (da_heap a)))) \<and>
     (\<forall>p blk. da_heap a p = Some blk \<longrightarrow> int (length blk) = da_individual_allocation_size a)"

locale block_allocator =
  fixes allocate :: "'a \<Rightarrow> addr \<times> 'a" and release :: "addr \<Rightarrow> 'a \<Rightarrow> 'a"
    and mem :: "'a \<Rightarrow> addr \<Rightarrow> byte list option" and block_len :: "'a \<Rightarrow> int"
    and total :: "'a \<Rightarrow> int" and ok :: "'a \<Rightarrow> bool"
  assumes allocate_fresh: "ok a \<Longrightarrow> allocate a = (p, a') \<Longrightarrow> mem a p = None"
    and allocate_mem: "ok a \<Longrightarrow> allocate a = (p, a') \<Longrightarrow>
      \<exists>blk. int (length blk) = block_len a \<and> mem a' = (mem a)(p \<mapsto> blk)"
    and release_mem: "ok a \<Longrightarrow> mem a p \<noteq> None \<Longrightarrow> mem (release p a) = (mem a)(p := None)"
    and allocate_ok: "ok a \<Longrightarrow> allocate a = (p, a') \<Longrightarrow> ok a' \<and> block_len a' = block_len a"
    and release_ok: "ok a \<Longrightarrow> mem a p \<noteq> None \<Longrightarrow> ok (release p a) \<and> block_len (release p a) = block_len a"
    and live_len: "ok a \<Longrightarrow> mem a p = Some blk \<Longrightarrow> int (length blk) = block_len a"
    and total_live: "ok a \<Longrightarrow> total a = wrap64 (int (card (dom (mem a))) * block_len a)"
    and block_len_pos: "ok a \<Longrightarrow> 0 < block_len a"
begin

lemma release_all:
  assumes "ok a" "distinct ps" "set ps \<subseteq> dom (mem a)"
  shows "ok (fold release ps a) \<and> mem (fold release ps a) = (mem a) |` (- set ps) \<and>
    block_len (fold release ps a) = block_len a"
  using assms
proof (induction ps arbitrary: a)
  case Nil
  then show ?case by simp
next
  case (Cons p ps)
  then have p: "mem a p \<noteq> None" by auto
  have ok': "ok (release p a)" "block_len (release p a) = block_len a"
    using release_ok [OF Cons.prems(1) p] by auto
  have mem': "mem (release p a) = (mem a)(p := None)" using release_mem [OF Cons.prems(1) p] .
  have "distinct ps" "set ps \<subseteq> dom (mem (release p a))" using Cons.prems by (auto simp: mem')
  from Cons.IH [OF ok'(1) this] ok' show ?case
    by (auto simp: mem' restrict_map_def fun_eq_iff)
qed

lemma allocate_release_total:
  assumes "ok a" "allocate a = (p, a')"
  shows "mem (release p a') = mem a \<and> total (release p a') = total a"
proof -
  obtain blk where m: "mem a' = (mem a)(p \<mapsto> blk)" using allocate_mem [OF assms] by blast
  have ok': "ok a'" "block_len a' = block_len a" using allocate_ok [OF assms] by auto
  have live: "mem a' p \<noteq> None" by (simp add: m)
  have r: "mem (release p a') = mem a"
    using release_mem [OF ok'(1) live] allocate_fresh [OF assms] by (auto simp: m fun_eq_iff)
  with total_live release_ok [OF ok'(1) live] assms(1) ok' show ?thesis by simp
qed

end

lemma wrap64_add_left [simp]: "wrap64 (wrap64 x + y) = wrap64 (x + y)"
  by (simp add: wrap64_def take_bit_eq_mod mod_add_left_eq)

lemma wrap64_diff_left [simp]: "wrap64 (wrap64 x - y) = wrap64 (x - y)"
  by (simp add: wrap64_def take_bit_eq_mod mod_diff_left_eq)

lemma wrap64_mult_left [simp]: "wrap64 (wrap64 x * y) = wrap64 (x * y)"
  by (simp add: wrap64_def take_bit_eq_mod mod_mult_left_eq)

lemma Allocate_inv:
  assumes inv: "da_inv a" and call: "Allocate a = (p, a')"
  shows "da_inv a' \<and> da_heap a p = None \<and>
    da_individual_allocation_size a' = da_individual_allocation_size a"
proof -
  have n: "da_next a \<notin> dom (da_heap a)" using inv by (auto simp: da_inv_def)
  then have c1: "card (insert (da_next a) (dom (da_heap a))) = Suc (card (dom (da_heap a)))"
    using inv by (simp add: da_inv_def card_insert_disjoint)
  have cnt: "wrap64 (da_allocated_count a + 1) = wrap64 (int (card (insert (da_next a) (dom (da_heap a)))))"
    using inv by (simp add: c1 da_inv_def add.commute [of 1])
  from inv call cnt n show ?thesis
    by (auto simp: c1 da_inv_def Allocate_def less_Suc_eq split: if_splits)
qed

lemma Release_inv:
  assumes inv: "da_inv a" and live: "da_heap a p \<noteq> None"
  shows "da_inv (Release p a)"
proof -
  have "card (dom (da_heap a)) = Suc (card (dom (da_heap a) - {p}))"
    using inv live by (intro card.remove) (auto simp: da_inv_def)
  with inv show ?thesis by (auto simp: da_inv_def Release_def)
qed

interpretation default_alloc: block_allocator Allocate Release da_heap GetIndividualAllocationLength
  GetTotalBytesAllocated da_inv
proof (unfold_locales, goal_cases)
  case (1 a p a')
  then show ?case using Allocate_inv by blast
next
  case (2 a p a')
  then have "int (length (replicate (nat (da_individual_allocation_size a)) uninit_byte)) =
      GetIndividualAllocationLength a"
    by (simp add: GetIndividualAllocationLength_def da_inv_def)
  moreover from 2 have "da_heap a' = (da_heap a)(p \<mapsto>
      replicate (nat (da_individual_allocation_size a)) uninit_byte)"
    by (auto simp: Allocate_def)
  ultimately show ?case by blast
next
  case (3 a p)
  then show ?case by (simp add: Release_def)
next
  case (4 a p a')
  from Allocate_inv [OF this] show ?case by (simp add: GetIndividualAllocationLength_def)
next
  case (5 a p)
  from Release_inv [OF this] show ?case by (simp add: GetIndividualAllocationLength_def Release_def)
next
  case (6 a p blk)
  then show ?case by (auto simp: GetIndividualAllocationLength_def da_inv_def)
next
  case (7 a)
  then show ?case by (simp add: GetTotalBytesAllocated_def GetIndividualAllocationLength_def da_inv_def)
next
  case (8 a)
  then show ?case by (simp add: GetIndividualAllocationLength_def da_inv_def)
qed

lemma poke_inv:
  assumes "da_inv a" "poke p off data a = Inr a'"
  shows "da_inv a' \<and> dom (da_heap a') = dom (da_heap a) \<and>
    da_individual_allocation_size a' = da_individual_allocation_size a"
proof -
  from assms(2) obtain blk where blk: "da_heap a p = Some blk" "0 \<le> off"
      "off + int (length data) \<le> int (length blk)"
    and a': "a' = a\<lparr>da_heap := (da_heap a)(p \<mapsto> take (nat off) blk @ data @ drop (nat off + length data) blk)\<rparr>"
    by (auto simp: poke_def split: option.splits if_splits)
  have d: "insert p (dom (da_heap a)) = dom (da_heap a)" using blk by auto
  have "length (take (nat off) blk @ data @ drop (nat off + length data) blk) = length blk"
    using blk(2,3) by simp
  with assms(1) blk d show ?thesis by (auto simp: a' da_inv_def)
qed

end
