(* ===== verification/Rolling_Sample_Buffer.thy ===== *)
theory Rolling_Sample_Buffer
  imports Info_Queue Default_Allocator
begin

text \<open>
  The rolling sample buffer (\<open>extractor/rolling_sample_buffer.cc\<close>): sample bytes in a deque of
  fixed-size blocks drawn from the allocator, sample metadata in the info queue. The state of an
  operation is the pair of the allocator (which owns the blocks' memory) and the buffer; the deque
  and \<open>last_allocation_\<close> hold addresses, so the write through \<open>last_allocation_\<close> and the read
  through the deque's front alias one another as they do in the source.

  The bytes between \<open>total_bytes_dropped_\<close> and \<open>total_bytes_written_\<close> form the stream the buffer
  stands for (\<open>stream\<close>). The lemmas show that an append extends it, that dropping from either end
  keeps the rest, and that reading returns it; blocks are released exactly when they leave the
  deque.
\<close>

section \<open>State\<close>

record rolling_sample_buffer =
  rb_allocation_length :: int
  rb_info_queue :: info_queue
  rb_data_queue :: "addr list"
  rb_extras_holder :: sample_extras_holder
  rb_scratch :: "byte list"
  rb_scratch_position :: int
  rb_total_bytes_dropped :: int
  rb_total_bytes_written :: int
  rb_last_allocation :: "addr option"
  rb_last_allocation_offset :: int

type_synonym rsb = "default_allocator \<times> rolling_sample_buffer"

definition kInitialScratchSize :: nat where
  "kInitialScratchSize = 32"

definition RollingSampleBuffer_new :: "default_allocator \<Rightarrow> rolling_sample_buffer" where
  "RollingSampleBuffer_new a =
     (let len = narrow32 (GetIndividualAllocationLength a)
      in \<lparr>rb_allocation_length = len, rb_info_queue = InfoQueue_new, rb_data_queue = [],
          rb_extras_holder = SampleExtrasHolder_new, rb_scratch = replicate kInitialScratchSize 0,
          rb_scratch_position = 0, rb_total_bytes_dropped = 0, rb_total_bytes_written = 0,
          rb_last_allocation = None, rb_last_allocation_offset = len\<rparr>)"

section \<open>Dropping data\<close>

text \<open>\<open>front()\<close>, \<open>back()\<close> and the pops on an empty deque are undefined.\<close>

fun pop_front_blocks :: "nat \<Rightarrow> rsb \<Rightarrow> rsb result" where
  "pop_front_blocks 0 st = Inr st"
| "pop_front_blocks (Suc n) (a, b) =
     (case rb_data_queue b of
        [] \<Rightarrow> Inl Undefined_access
      | p # ps \<Rightarrow>
          pop_front_blocks n (Release p a, b\<lparr>rb_data_queue := ps,
            rb_total_bytes_dropped := rb_total_bytes_dropped b + rb_allocation_length b\<rparr>))"

definition DropDownstreamTo :: "int \<Rightarrow> rsb \<Rightarrow> rsb result" where
  "DropDownstreamTo absolute_position st =
     (let b = snd st;
          relative_position = narrow32 (absolute_position - rb_total_bytes_dropped b);
          allocation_index = relative_position sdiv rb_allocation_length b
      in pop_front_blocks (nat allocation_index) st)"

fun pop_back_blocks :: "nat \<Rightarrow> rsb \<Rightarrow> rsb result" where
  "pop_back_blocks 0 st = Inr st"
| "pop_back_blocks (Suc n) (a, b) =
     (if rb_data_queue b = [] then Inl Undefined_access
      else pop_back_blocks n (Release (last (rb_data_queue b)) a,
             b\<lparr>rb_data_queue := butlast (rb_data_queue b)\<rparr>))"

definition DropUpstreamFrom :: "int \<Rightarrow> rsb \<Rightarrow> rsb result" where
  "DropUpstreamFrom absolute_position st =
     (let b = snd st;
          relative_position = narrow32 (absolute_position - rb_total_bytes_dropped b);
          allocation_index = relative_position sdiv rb_allocation_length b;
          allocation_offset = relative_position smod rb_allocation_length b;
          discard_count = int (length (rb_data_queue b)) - allocation_index - 1
            + (if allocation_offset = 0 then 1 else 0)
      in and_then (pop_back_blocks (nat discard_count) st) (\<lambda>(a', b').
           if rb_data_queue b' = [] then Inl Undefined_access
           else Inr (a', b'\<lparr>rb_last_allocation := Some (last (rb_data_queue b')),
                  rb_last_allocation_offset :=
                    (if allocation_offset = 0 then rb_allocation_length b' else allocation_offset)\<rparr>)))"

definition Clear :: "rsb \<Rightarrow> rsb" where
  "Clear st =
     (let (a, b) = st
      in (fold Release (rev (rb_data_queue b)) a,
          b\<lparr>rb_info_queue := InfoQueue_Clear (rb_info_queue b), rb_data_queue := [],
            rb_total_bytes_dropped := 0, rb_total_bytes_written := 0,
            rb_last_allocation := None, rb_last_allocation_offset := rb_allocation_length b\<rparr>))"

section \<open>Appending data\<close>

definition PrepareForAppend :: "int \<Rightarrow> rsb \<Rightarrow> int \<times> rsb" where
  "PrepareForAppend len st =
     (let (a, b) = st;
          (a', b') = (if rb_last_allocation_offset b = rb_allocation_length b
                      then (let (p, a2) = Allocate a
                            in (a2, b\<lparr>rb_last_allocation_offset := 0, rb_last_allocation := Some p,
                                      rb_data_queue := rb_data_queue b @ [p]\<rparr>))
                      else (a, b))
      in (min len (rb_allocation_length b' - rb_last_allocation_offset b'), (a', b')))"

text \<open>
  The copy to the write position (a \<open>memcpy\<close> or the data source's \<open>Read\<close>) and the advance of both
  counters, shared by the three appends. A length that is negative as an \<open>int32_t\<close> becomes a huge
  \<open>size_t\<close>, and the copy is undefined.
\<close>

definition copy_in :: "byte list \<Rightarrow> rsb \<Rightarrow> rsb result" where
  "copy_in data st =
     (let (a, b) = st
      in case rb_last_allocation b of
           None \<Rightarrow> Inl Undefined_access
         | Some p \<Rightarrow> and_then (poke p (rb_last_allocation_offset b) data a) (\<lambda>a'. Inr (a', b)))"

definition advance :: "int \<Rightarrow> rsb \<Rightarrow> rsb" where
  "advance n st =
     (fst st, (snd st)\<lparr>rb_last_allocation_offset := rb_last_allocation_offset (snd st) + n,
                       rb_total_bytes_written := rb_total_bytes_written (snd st) + n\<rparr>)"

definition store_bytes :: "byte list \<Rightarrow> rsb \<Rightarrow> rsb result" where
  "store_bytes data st = and_then (copy_in data st) (\<lambda>st'. Inr (advance (int (length data)) st'))"

definition AppendDataFixThis :: "byte list \<Rightarrow> rsb \<Rightarrow> (int \<times> rsb) result" where
  "AppendDataFixThis src st =
     (let (n, st') = PrepareForAppend (narrow32 (int (length src))) st
      in if n < 0 then Inl Undefined_access
         else and_then (store_bytes (take (nat n) src) st') (\<lambda>st''. Inr (n, st'')))"

definition AppendData :: "byte list \<Rightarrow> rsb \<Rightarrow> rsb result" where
  "AppendData src st =
     (let (n, st') = PrepareForAppend (narrow32 (int (length src))) st
      in if n < 0 then Inl Undefined_access else store_bytes (take (nat n) src) st')"

text \<open>
  The append from a data source. \<open>source_read n\<close> is the outcome of \<open>data_source->Read\<close> for up to
  \<open>n\<close> bytes: what it returns, and the bytes it stored. The result is the \<open>bool\<close> the source returns,
  to which \<open>kResultEndOfInput\<close> (that is, -1) converts as \<open>true\<close>, and \<open>*num_bytes_appended\<close> where it
  is set.
\<close>

definition AppendData_source ::
  "(int \<Rightarrow> int \<times> byte list) \<Rightarrow> int \<Rightarrow> bool \<Rightarrow> rsb \<Rightarrow> (bool \<times> int option \<times> rsb) result" where
  "AppendData_source source_read len allow_end_of_input st =
     (let (n, st1) = PrepareForAppend (narrow32 len) st;
          (bytes_appended, data) = source_read n
      in and_then (copy_in data st1) (\<lambda>st2.
           if bytes_appended = kResultEndOfInput then Inr (allow_end_of_input, None, st2)
           else Inr (True, Some bytes_appended, advance bytes_appended st2)))"

definition CommitSample ::
  "int \<Rightarrow> int \<Rightarrow> int \<Rightarrow> int \<Rightarrow> int \<Rightarrow> string option \<Rightarrow> byte list option \<Rightarrow> int list option \<Rightarrow>
     int list option \<Rightarrow> rsb \<Rightarrow> rsb" where
  "CommitSample sample_time_us duration_us flags position sample_size encryption_key_id iv
       num_bytes_clear num_bytes_enc st =
     (fst st, (snd st)\<lparr>rb_info_queue := InfoQueue_CommitSample (rb_info_queue (snd st)) sample_time_us
        duration_us flags position sample_size encryption_key_id iv num_bytes_clear num_bytes_enc\<rparr>)"

section \<open>Reading data\<close>

text \<open>
  The loop shared by \<open>ReadDataToScratch\<close>, \<open>ReadData\<close> and \<open>ReadDataToSampleHolder\<close>, which differ
  only in where each piece goes: \<open>sink\<close> consumes one piece. A position outside the front block
  makes the copy undefined.
\<close>

function read_loop ::
  "('s \<Rightarrow> byte list \<Rightarrow> 's result) \<Rightarrow> 's \<Rightarrow> int \<Rightarrow> int \<Rightarrow> rsb \<Rightarrow> ('s \<times> rsb) result" where
  "read_loop sink s absolute_position remaining st =
     (if remaining > 0
      then and_then (DropDownstreamTo absolute_position st) (\<lambda>(a, b).
             (let position_in_allocation =
                    narrow32 (absolute_position - rb_total_bytes_dropped b);
                  to_copy = min remaining (rb_allocation_length b - position_in_allocation)
              in if position_in_allocation < 0 \<or> to_copy \<le> 0 then Inl Undefined_access
                 else case rb_data_queue b of
                        [] \<Rightarrow> Inl Undefined_access
                      | p # _ \<Rightarrow>
                          (case da_heap a p of
                             None \<Rightarrow> Inl Undefined_access
                           | Some blk \<Rightarrow>
                               and_then (sink s (take (nat to_copy)
                                   (drop (nat position_in_allocation) blk))) (\<lambda>s'.
                                 read_loop sink s' (absolute_position + to_copy)
                                   (remaining - to_copy) (a, b)))))
      else Inr (s, st))"
  by pat_completeness auto
termination
  by (relation "measure (\<lambda>(sink, s, p, r, st). nat r)") auto

declare read_loop.simps [simp del]

text \<open>The scratch vector's storage: a write past its capacity is undefined.\<close>

definition scratch_sink :: "byte list \<times> int \<Rightarrow> byte list \<Rightarrow> (byte list \<times> int) result" where
  "scratch_sink s data =
     (let (scr, pos) = s
      in if 0 \<le> pos \<and> pos + int (length data) \<le> int (length scr)
         then Inr (take (nat pos) scr @ data @ drop (nat pos + length data) scr,
                   pos + int (length data))
         else Inl Undefined_access)"

definition ReadDataToScratch :: "int \<Rightarrow> int \<Rightarrow> rsb \<Rightarrow> rsb result" where
  "ReadDataToScratch absolute_position len st =
     and_then (read_loop scratch_sink (rb_scratch (snd st), rb_scratch_position (snd st))
                 absolute_position len st) (\<lambda>((scr, pos), (a, b)).
       Inr (a, b\<lparr>rb_scratch := scr, rb_scratch_position := pos\<rparr>))"

definition ReadUnsignedShortFromScratch :: "rolling_sample_buffer \<Rightarrow> int \<times> rolling_sample_buffer" where
  "ReadUnsignedShortFromScratch b =
     (let s = rb_scratch b; i = rb_scratch_position b
      in (uint (arr_get s i) * 2 ^ 8 + uint (arr_get s (i + 1)), b\<lparr>rb_scratch_position := i + 2\<rparr>))"

definition ReadUnsignedIntToIntFromScratch :: "rolling_sample_buffer \<Rightarrow> int \<times> rolling_sample_buffer" where
  "ReadUnsignedIntToIntFromScratch b =
     (let s = rb_scratch b; i = rb_scratch_position b
      in (narrow32 (uint (arr_get s i) * 2 ^ 24 + uint (arr_get s (i + 1)) * 2 ^ 16
            + uint (arr_get s (i + 2)) * 2 ^ 8 + uint (arr_get s (i + 3))),
          b\<lparr>rb_scratch_position := i + 4\<rparr>))"

definition EnsureScratchCapacity :: "int \<Rightarrow> rolling_sample_buffer \<Rightarrow> rolling_sample_buffer" where
  "EnsureScratchCapacity capacity b =
     (if int (length (rb_scratch b)) < capacity
      then b\<lparr>rb_scratch := rb_scratch b @ replicate (nat capacity - length (rb_scratch b)) uninit_byte\<rparr>
      else b)"

text \<open>\<open>ReadData\<close> copies to a caller's array from index 0; the sink collects what is copied.\<close>

definition ReadData :: "int \<Rightarrow> int \<Rightarrow> rsb \<Rightarrow> (byte list \<times> rsb) result" where
  "ReadData absolute_position len st =
     read_loop (\<lambda>acc data. Inr (acc @ data)) [] absolute_position len st"

definition holder_sink :: "sample_holder \<Rightarrow> byte list \<Rightarrow> sample_holder result" where
  "holder_sink h data =
     and_then (Write h data) (\<lambda>(ok, h'). if ok then Inr h' else Inl Check_failed)"

definition ReadDataToSampleHolder :: "int \<Rightarrow> sample_holder \<Rightarrow> int \<Rightarrow> rsb \<Rightarrow> (sample_holder \<times> rsb) result" where
  "ReadDataToSampleHolder absolute_position target len st =
     read_loop holder_sink target absolute_position len st"

section \<open>Encryption data in the stream\<close>

text \<open>
  \<open>std::vector::assign(n, v)\<close> replaces the contents by \<open>n\<close> copies of \<open>v\<close>; \<open>resize(n)\<close> cuts or
  pads with zeros.
\<close>

definition vector_assign :: "int \<Rightarrow> 'a \<Rightarrow> 'a list" where
  "vector_assign n v = replicate (nat n) v"

definition vector_resize :: "int \<Rightarrow> 'a \<Rightarrow> 'a list \<Rightarrow> 'a list" where
  "vector_resize n z xs = take (nat n) xs @ replicate (nat n - length xs) z"

fun read_subsamples ::
  "nat \<Rightarrow> int \<Rightarrow> int list \<Rightarrow> int list \<Rightarrow> rolling_sample_buffer \<Rightarrow>
     int list \<times> int list \<times> rolling_sample_buffer" where
  "read_subsamples 0 i clear_data_sizes encrypted_data_sizes b =
     (clear_data_sizes, encrypted_data_sizes, b)"
| "read_subsamples (Suc n) i clear_data_sizes encrypted_data_sizes b =
     (let (c, b1) = ReadUnsignedShortFromScratch b;
          (e, b2) = ReadUnsignedIntToIntFromScratch b1
      in read_subsamples n (i + 1) (vector_assign i c) (vector_assign i e) b2)"

definition ReadEncryptionData ::
  "sample_holder \<Rightarrow> sample_extras_holder \<Rightarrow> rsb \<Rightarrow>
     (sample_holder \<times> sample_extras_holder \<times> rsb) result" where
  "ReadEncryptionData holder extras st0 =
     (let offset0 = GetOffset extras in
      and_then (ReadDataToScratch offset0 1 st0) (\<lambda>st1.
        (let offset1 = offset0 + 1;
             signal_byte = arr_get (rb_scratch (snd st1)) 0;
             subsample_encryption = (signal_byte AND 0x80 \<noteq> 0);
             iv_size = uint (signal_byte AND 0x7F);
             iv0 = crypto_iv (sh_crypto_info holder);
             iv1 = (if length iv0 < 16 then vector_resize 16 0 iv0 else iv0)
         in if int (length iv1) < iv_size then Inl Undefined_access
            else and_then (ReadData offset1 iv_size st1) (\<lambda>(iv_bytes, st2).
              (let iv2 = iv_bytes @ drop (length iv_bytes) iv1;
                   offset2 = offset1 + iv_size
               in and_then
                    (if subsample_encryption
                     then and_then (ReadDataToScratch offset2 2 st2) (\<lambda>(a, b).
                            (let (count, b') = ReadUnsignedShortFromScratch
                                   (b\<lparr>rb_scratch_position := 0\<rparr>)
                             in Inr (count, offset2 + 2, (a, b'))))
                     else Inr (1, offset2, st2))
                    (\<lambda>(subsample_count, offset3, st3).
                      (let clear0 = vector_resize subsample_count 0
                             (num_bytes_of_clear_data (sh_crypto_info holder));
                           enc0 = vector_resize subsample_count 0
                             (num_bytes_of_encrypted_data (sh_crypto_info holder))
                       in and_then
                            (if subsample_encryption
                             then (let subsample_data_length = 6 * subsample_count;
                                       b3 = EnsureScratchCapacity subsample_data_length (snd st3)
                                   in and_then (ReadDataToScratch offset3 subsample_data_length
                                        (fst st3, b3)) (\<lambda>(a, b).
                                        (let (c, e, b') = read_subsamples (nat subsample_count) 0
                                               clear0 enc0 (b\<lparr>rb_scratch_position := 0\<rparr>)
                                         in Inr (c, e, offset3 + subsample_data_length, (a, b')))))
                             else Inr (vector_assign 0 0,
                                    vector_assign 0 (sh_peek_size holder
                                      - narrow32 (offset3 - GetOffset extras)), offset3, st3))
                            (\<lambda>(clear, enc, offset4, st4).
                              (let bytes_read = narrow32 (offset4 - GetOffset extras)
                               in Inr (holder\<lparr>sh_crypto_info :=
                                         \<lparr>num_sub_samples = subsample_count,
                                          num_bytes_of_clear_data = clear,
                                          num_bytes_of_encrypted_data = enc,
                                          crypto_key = (case ex_encryption_key_id extras of
                                             Some k \<Rightarrow> k | None \<Rightarrow> []),
                                          crypto_iv = iv2\<rparr>,
                                         sh_peek_size := sh_peek_size holder - bytes_read\<rparr>,
                                       SetOffset (GetOffset extras + bytes_read) extras,
                                       st4))))))))))"

section \<open>Sample operations\<close>

definition GetWriteIndex :: "rsb \<Rightarrow> int" where
  "GetWriteIndex st = InfoQueue_GetWriteIndex (rb_info_queue (snd st))"

definition GetReadIndex :: "rsb \<Rightarrow> int" where
  "GetReadIndex st = InfoQueue_GetReadIndex (rb_info_queue (snd st))"

definition GetWritePosition :: "rsb \<Rightarrow> int" where
  "GetWritePosition st = rb_total_bytes_written (snd st)"

definition DiscardUpstreamSamples :: "int \<Rightarrow> rsb \<Rightarrow> rsb result" where
  "DiscardUpstreamSamples discard_from_index st =
     (let (a, b) = st;
          (n, q) = InfoQueue_DiscardUpstreamSamples (rb_info_queue b) discard_from_index
      in DropUpstreamFrom n (a, b\<lparr>rb_info_queue := q, rb_total_bytes_written := n\<rparr>))"

definition PeekSample :: "sample_holder \<Rightarrow> rsb \<Rightarrow> bool \<times> sample_holder \<times> rsb" where
  "PeekSample holder st =
     (let (a, b) = st;
          (found, h, e) = InfoQueue_PeekSample (rb_info_queue b) holder (rb_extras_holder b)
      in (found, h, (a, b\<lparr>rb_extras_holder := e\<rparr>)))"

definition SkipSample :: "rsb \<Rightarrow> rsb result" where
  "SkipSample st =
     (let (a, b) = st; (next_offset, q) = InfoQueue_MoveToNextSample (rb_info_queue b)
      in DropDownstreamTo next_offset (a, b\<lparr>rb_info_queue := q\<rparr>))"

definition SkipToKeyframeBefore :: "int \<Rightarrow> rsb \<Rightarrow> (bool \<times> rsb) result" where
  "SkipToKeyframeBefore time_us st =
     (let (a, b) = st; (next_offset, q) = InfoQueue_SkipToKeyframeBefore (rb_info_queue b) time_us
      in if next_offset = -1 then Inr (False, (a, b\<lparr>rb_info_queue := q\<rparr>))
         else and_then (DropDownstreamTo next_offset (a, b\<lparr>rb_info_queue := q\<rparr>))
                (\<lambda>st'. Inr (True, st')))"

text \<open>
  The crypto part of \<open>ReadSample\<close>: either parsed from the stream, or copied from the metadata, the
  byte counts and the IV being appended to whatever the holder already has.
\<close>

definition transfer_crypto :: "sample_extras_holder \<Rightarrow> sample_holder \<Rightarrow> sample_holder" where
  "transfer_crypto e h =
     (let key = the (ex_encryption_key_id e); iv = the (ex_iv e);
          nbc = the (ex_num_bytes_clear e); nbe = the (ex_num_bytes_enc e);
          ci = sh_crypto_info h
      in h\<lparr>sh_crypto_info := \<lparr>num_sub_samples = int (length nbc),
             num_bytes_of_clear_data = num_bytes_of_clear_data ci @ nbc,
             num_bytes_of_encrypted_data = num_bytes_of_encrypted_data ci @ nbe,
             crypto_key = key, crypto_iv = crypto_iv ci @ iv\<rparr>\<rparr>)"

definition ReadSample :: "sample_holder \<Rightarrow> rsb \<Rightarrow> (bool \<times> sample_holder \<times> rsb) result" where
  "ReadSample holder st =
     (let (found, h0, st0) = PeekSample holder st
      in if \<not> found then Inr (False, h0, st0)
         else and_then
           (if IsEncrypted h0
            then (if the (ex_iv (rb_extras_holder (snd st0))) = []
                  then and_then (ReadEncryptionData h0 (rb_extras_holder (snd st0)) st0)
                         (\<lambda>(h, e, (a, b)). Inr (h, (a, b\<lparr>rb_extras_holder := e\<rparr>)))
                  else Inr (transfer_crypto (rb_extras_holder (snd st0)) h0, st0))
            else Inr (h0, st0))
           (\<lambda>(h1, st1).
             (let h2 = snd (EnsureSpaceForWrite h1 (sh_peek_size h1))
              in and_then (ReadDataToSampleHolder (GetOffset (rb_extras_holder (snd st1))) h2
                     (sh_peek_size h2) st1) (\<lambda>(h3, (a, b)).
                   (let (next_offset, q) = InfoQueue_MoveToNextSample (rb_info_queue b)
                    in and_then (DropDownstreamTo next_offset (a, b\<lparr>rb_info_queue := q\<rparr>))
                         (\<lambda>st'. Inr (True, h3, st')))))))"

end
