(* ===== verification/Sample_Stream.thy ===== *)
theory Sample_Stream
  imports Rolling_Sample_Buffer
begin

text \<open>
  Correctness of the rolling sample buffer: the buffer invariant, the byte stream it represents,
  and what appending, dropping and reading do to that stream. The hypothesis \<open>in_int32\<close> on a
  distance or position is where the source narrows to \<open>int32_t\<close>.
\<close>

section \<open>Invariant and stream\<close>

definition rsb_inv :: "rsb \<Rightarrow> bool" where
  "rsb_inv st \<longleftrightarrow>
     (let (a, b) = st; len = rb_allocation_length b; dq = rb_data_queue b
      in da_inv a \<and> len = da_individual_allocation_size a \<and> distinct dq \<and>
         set dq \<subseteq> dom (da_heap a) \<and> 0 \<le> rb_total_bytes_dropped b \<and>
         0 \<le> rb_last_allocation_offset b \<and> rb_last_allocation_offset b \<le> len \<and>
         rb_total_bytes_written b = rb_total_bytes_dropped b + (int (length dq) - 1) * len
           + rb_last_allocation_offset b \<and>
         (dq = [] \<longrightarrow> rb_last_allocation_offset b = len) \<and>
         (dq \<noteq> [] \<longrightarrow> rb_last_allocation b = Some (last dq)))"

lemma rsb_inv_iff:
  "rsb_inv (a, b) \<longleftrightarrow> da_inv a \<and> rb_allocation_length b = da_individual_allocation_size a \<and>
     distinct (rb_data_queue b) \<and> set (rb_data_queue b) \<subseteq> dom (da_heap a) \<and>
     0 \<le> rb_total_bytes_dropped b \<and> 0 \<le> rb_last_allocation_offset b \<and>
     rb_last_allocation_offset b \<le> rb_allocation_length b \<and>
     rb_total_bytes_written b = rb_total_bytes_dropped b +
       (int (length (rb_data_queue b)) - 1) * rb_allocation_length b + rb_last_allocation_offset b \<and>
     (rb_data_queue b = [] \<longrightarrow> rb_last_allocation_offset b = rb_allocation_length b) \<and>
     (rb_data_queue b \<noteq> [] \<longrightarrow> rb_last_allocation b = Some (last (rb_data_queue b)))"
  by (simp add: rsb_inv_def Let_def)

definition byte_at :: "rsb \<Rightarrow> int \<Rightarrow> byte" where
  "byte_at st pos =
     (let (a, b) = st; len = rb_allocation_length b; rel = pos - rb_total_bytes_dropped b
      in arr_get (the (da_heap a (rb_data_queue b ! nat (rel div len)))) (rel mod len))"

definition stream :: "rsb \<Rightarrow> int \<Rightarrow> nat \<Rightarrow> byte list" where
  "stream st pos n = map (\<lambda>i. byte_at st (pos + int i)) [0..<n]"

definition bytes_dropped :: "rsb \<Rightarrow> int" where
  "bytes_dropped st = rb_total_bytes_dropped (snd st)"

definition bytes_written :: "rsb \<Rightarrow> int" where
  "bytes_written st = rb_total_bytes_written (snd st)"

text \<open>The live blocks that do not belong to the buffer.\<close>

definition foreign :: "rsb \<Rightarrow> addr set" where
  "foreign st = dom (da_heap (fst st)) - set (rb_data_queue (snd st))"

lemma stream_append: "stream st pos (m + n) = stream st pos m @ stream st (pos + int m) n"
  by (rule nth_equalityI) (auto simp: stream_def nth_append)

lemma length_stream [simp]: "length (stream st pos n) = n"
  by (simp add: stream_def)

lemma stream_cong: "(\<And>x. pos \<le> x \<Longrightarrow> x < pos + int n \<Longrightarrow> byte_at st x = byte_at st' x) \<Longrightarrow>
    stream st pos n = stream st' pos n"
  by (simp add: stream_def)

lemma rsb_inv_len: "rsb_inv (a, b) \<Longrightarrow> 0 < rb_allocation_length b"
  by (auto simp: rsb_inv_iff da_inv_def)

text \<open>
  \<open>downstream st q st'\<close>: \<open>st'\<close> is \<open>st\<close> with blocks released from the front, none of them holding a
  byte at or after \<open>q\<close>; nothing else has changed.
\<close>

definition downstream :: "rsb \<Rightarrow> int \<Rightarrow> rsb \<Rightarrow> bool" where
  "downstream st q st' \<longleftrightarrow> rsb_inv st' \<and> bytes_dropped st \<le> bytes_dropped st' \<and>
     (bytes_dropped st' \<le> q \<or> bytes_dropped st' = bytes_dropped st) \<and>
     snd st' = (snd st)\<lparr>rb_data_queue := rb_data_queue (snd st'),
                        rb_total_bytes_dropped := rb_total_bytes_dropped (snd st')\<rparr> \<and>
     (\<forall>x. q \<le> x \<and> bytes_dropped st' \<le> x \<and> x < bytes_written st \<longrightarrow> byte_at st' x = byte_at st x) \<and>
     foreign st' = foreign st"

lemma downstream_refl: "rsb_inv st \<Longrightarrow> downstream st q st"
  by (simp add: downstream_def)

lemma downstream_written: "downstream st q st' \<Longrightarrow> bytes_written st' = bytes_written st"
proof -
  assume "downstream st q st'"
  then have "snd st' = (snd st)\<lparr>rb_data_queue := rb_data_queue (snd st'),
      rb_total_bytes_dropped := rb_total_bytes_dropped (snd st')\<rparr>"
    by (simp add: downstream_def)
  then have "rb_total_bytes_written (snd st') = rb_total_bytes_written ((snd st)\<lparr>rb_data_queue :=
      rb_data_queue (snd st'), rb_total_bytes_dropped := rb_total_bytes_dropped (snd st')\<rparr>)"
    by (rule arg_cong)
  then show ?thesis by (simp add: bytes_written_def)
qed

lemma downstream_field:
  assumes "downstream st q st'"
  shows "rb_info_queue (snd st') = rb_info_queue (snd st)"
    "rb_extras_holder (snd st') = rb_extras_holder (snd st)"
    "rb_scratch (snd st') = rb_scratch (snd st)"
    "rb_scratch_position (snd st') = rb_scratch_position (snd st)"
    "rb_allocation_length (snd st') = rb_allocation_length (snd st)"
proof -
  have e: "snd st' = (snd st)\<lparr>rb_data_queue := rb_data_queue (snd st'),
      rb_total_bytes_dropped := rb_total_bytes_dropped (snd st')\<rparr>"
    using assms by (simp add: downstream_def)
  show "rb_info_queue (snd st') = rb_info_queue (snd st)" by (subst e) simp
  show "rb_extras_holder (snd st') = rb_extras_holder (snd st)" by (subst e) simp
  show "rb_scratch (snd st') = rb_scratch (snd st)" by (subst e) simp
  show "rb_scratch_position (snd st') = rb_scratch_position (snd st)" by (subst e) simp
  show "rb_allocation_length (snd st') = rb_allocation_length (snd st)" by (subst e) simp
qed

lemma downstream_trans:
  assumes d1: "downstream st q st'" and d2: "downstream st' q' st''" and "q \<le> q'"
  shows "downstream st q' st''"
proof -
  have e1: "snd st' = (snd st)\<lparr>rb_data_queue := rb_data_queue (snd st'),
      rb_total_bytes_dropped := rb_total_bytes_dropped (snd st')\<rparr>"
    and e2: "snd st'' = (snd st')\<lparr>rb_data_queue := rb_data_queue (snd st''),
      rb_total_bytes_dropped := rb_total_bytes_dropped (snd st'')\<rparr>"
    using d1 d2 by (simp_all add: downstream_def)
  have "snd st'' = (snd st)\<lparr>rb_data_queue := rb_data_queue (snd st''),
      rb_total_bytes_dropped := rb_total_bytes_dropped (snd st'')\<rparr>"
    by (subst e2, subst e1) simp
  moreover have "byte_at st'' x = byte_at st x"
    if "q' \<le> x" "bytes_dropped st'' \<le> x" "x < bytes_written st" for x
    using that d1 d2 assms(3) downstream_written [OF d1] by (fastforce simp: downstream_def)
  ultimately show ?thesis
    using d1 d2 assms(3) by (auto simp: downstream_def)
qed

section \<open>Dropping from the front\<close>

lemma pop_front_blocks_eq:
  "n \<le> length (rb_data_queue b) \<Longrightarrow>
   pop_front_blocks n (a, b) =
     Inr (fold Release (take n (rb_data_queue b)) a,
          b\<lparr>rb_data_queue := drop n (rb_data_queue b),
            rb_total_bytes_dropped := rb_total_bytes_dropped b + int n * rb_allocation_length b\<rparr>)"
proof (induction n arbitrary: a b)
  case 0
  then show ?case by simp
next
  case (Suc n)
  then obtain p ps where "rb_data_queue b = p # ps" by (cases "rb_data_queue b") auto
  with Suc show ?case by (simp add: algebra_simps)
qed

lemma pop_front_inv:
  assumes inv: "rsb_inv (a, b)" and n: "n \<le> length (rb_data_queue b)"
    and full: "n = length (rb_data_queue b) \<Longrightarrow> rb_last_allocation_offset b = rb_allocation_length b"
  shows "rsb_inv (fold Release (take n (rb_data_queue b)) a,
          b\<lparr>rb_data_queue := drop n (rb_data_queue b),
            rb_total_bytes_dropped := rb_total_bytes_dropped b + int n * rb_allocation_length b\<rparr>)"
proof -
  let ?dq = "rb_data_queue b"
  have d: "distinct ?dq" "set ?dq \<subseteq> dom (da_heap a)" "da_inv a" and len: "0 < rb_allocation_length b"
    using inv rsb_inv_len [OF inv] by (auto simp: rsb_inv_iff)
  have rel: "da_inv (fold Release (take n ?dq) a)"
      "da_heap (fold Release (take n ?dq) a) = da_heap a |` (- set (take n ?dq))"
      "da_individual_allocation_size (fold Release (take n ?dq) a) = da_individual_allocation_size a"
    using default_alloc.release_all [OF d(3), of "take n ?dq"] d set_take_subset [of n ?dq]
    by (auto simp: GetIndividualAllocationLength_def)
  have disj: "set (take n ?dq) \<inter> set (drop n ?dq) = {}"
    using d(1) by (rule set_take_disj_set_drop_if_distinct) simp
  have "set (drop n ?dq) \<subseteq> dom (da_heap a |` (- set (take n ?dq)))"
    using d(2) disj set_drop_subset [of n ?dq] by auto
  moreover have "0 \<le> int n * rb_allocation_length b" using len by simp
  ultimately show ?thesis
    using inv n full d rel by (auto simp: rsb_inv_iff algebra_simps)
qed

lemma pop_front_foreign:
  assumes inv: "rsb_inv (a, b)"
  shows "dom (da_heap (fold Release (take n (rb_data_queue b)) a)) - set (drop n (rb_data_queue b)) =
    dom (da_heap a) - set (rb_data_queue b)"
proof -
  let ?dq = "rb_data_queue b"
  have "da_heap (fold Release (take n ?dq) a) = da_heap a |` (- set (take n ?dq))"
    using default_alloc.release_all [of a "take n ?dq"] inv set_take_subset [of n ?dq]
    by (auto simp: rsb_inv_iff)
  moreover have "set ?dq = set (take n ?dq) \<union> set (drop n ?dq)" by (metis append_take_drop_id set_append)
  ultimately show ?thesis by auto
qed

text \<open>Which block a position lies in, and that the bytes past the dropped blocks are untouched.\<close>

lemma block_index_less:
  assumes inv: "rsb_inv (a, b)" and x: "rb_total_bytes_dropped b \<le> x" "x < rb_total_bytes_written b"
  shows "nat ((x - rb_total_bytes_dropped b) div rb_allocation_length b) < length (rb_data_queue b)"
proof -
  let ?len = "rb_allocation_length b" and ?n = "int (length (rb_data_queue b))"
  have len: "0 < ?len" using inv by (rule rsb_inv_len)
  have "x - rb_total_bytes_dropped b < (?n - 1) * ?len + rb_last_allocation_offset b"
    using inv x by (auto simp: rsb_inv_iff)
  also have "\<dots> \<le> ?n * ?len" using inv by (auto simp: rsb_inv_iff algebra_simps)
  finally have "(x - rb_total_bytes_dropped b) div ?len < ?n"
    using len by (rule int_div_less [rotated])
  then show ?thesis using x len by (simp add: nat_less_iff pos_imp_zdiv_nonneg_iff)
qed

lemma byte_at_pop_front:
  assumes inv: "rsb_inv (a, b)"
    and x: "rb_total_bytes_dropped b + int n * rb_allocation_length b \<le> x" "x < rb_total_bytes_written b"
  shows "byte_at (fold Release (take n (rb_data_queue b)) a,
          b\<lparr>rb_data_queue := drop n (rb_data_queue b),
            rb_total_bytes_dropped := rb_total_bytes_dropped b + int n * rb_allocation_length b\<rparr>) x =
    byte_at (a, b) x"
proof -
  let ?len = "rb_allocation_length b" and ?dq = "rb_data_queue b"
  define k where "k = (x - rb_total_bytes_dropped b) div ?len"
  have len: "0 < ?len" using inv by (rule rsb_inv_len)
  have d: "distinct ?dq" "set ?dq \<subseteq> dom (da_heap a)" "da_inv a" using inv by (auto simp: rsb_inv_iff)
  have "int n * ?len \<le> x - rb_total_bytes_dropped b" using x by simp
  then have nk: "int n \<le> k" using len unfolding k_def by (rule int_le_div [rotated])
  have "0 \<le> int n * ?len" using len by simp
  then have d0: "rb_total_bytes_dropped b \<le> x" using x by linarith
  then have "nat k < length ?dq"
    using block_index_less [OF inv d0 x(2)] by (simp add: k_def)
  then have dr: "drop n ?dq ! nat (k - int n) = ?dq ! nat k"
    using nk by (simp add: nat_diff_distrib)
  have "?dq ! nat k \<notin> set (take n ?dq)"
    using d(1) nk \<open>nat k < length ?dq\<close> by (auto simp: in_set_conv_nth nth_eq_iff_index_eq)
  then have h: "da_heap (fold Release (take n ?dq) a) (?dq ! nat k) = da_heap a (?dq ! nat k)"
    using default_alloc.release_all [OF d(3), of "take n ?dq"] d set_take_subset [of n ?dq]
    by (auto simp: restrict_map_def)
  have e: "(x - (rb_total_bytes_dropped b + int n * ?len)) div ?len = k - int n"
      "(x - (rb_total_bytes_dropped b + int n * ?len)) mod ?len = (x - rb_total_bytes_dropped b) mod ?len"
    using len div_mult_self1 [of ?len "x - rb_total_bytes_dropped b" "- int n"]
      mod_mult_self1 [of "x - rb_total_bytes_dropped b" "- int n" ?len]
    by (simp_all add: k_def diff_diff_eq algebra_simps)
  show ?thesis by (simp add: byte_at_def Let_def e dr h flip: k_def)
qed

lemma DropDownstreamTo_ok:
  assumes inv: "rsb_inv st" and pos: "bytes_dropped st \<le> pos" "pos \<le> bytes_written st"
    and small: "in_int32 (pos - bytes_dropped st)"
  obtains st' where "DropDownstreamTo pos st = Inr st'" "downstream st pos st'"
    "pos < bytes_dropped st' + rb_allocation_length (snd st)" "bytes_dropped st' \<le> pos"
proof -
  obtain a b where st: "st = (a, b)" by (cases st)
  let ?len = "rb_allocation_length b" and ?dq = "rb_data_queue b" and ?rel = "pos - rb_total_bytes_dropped b"
  have inv': "rsb_inv (a, b)" using inv st by simp
  have len: "0 < ?len" using inv' by (rule rsb_inv_len)
  have rel: "0 \<le> ?rel" "narrow32 ?rel = ?rel" using pos small by (simp_all add: st bytes_dropped_def)
  define n where "n = nat (?rel div ?len)"
  have n: "int n = ?rel div ?len" using rel len by (simp add: n_def pos_imp_zdiv_nonneg_iff)
  have q: "int n * ?len \<le> ?rel" "?rel < int n * ?len + ?len"
    unfolding n by (rule int_div_bounds [OF len])+
  have w: "?rel \<le> (int (length ?dq) - 1) * ?len + rb_last_allocation_offset b"
      "rb_last_allocation_offset b \<le> ?len"
    using inv' pos by (auto simp: rsb_inv_iff st bytes_written_def)
  have upper: "int n * ?len \<le> int (length ?dq) * ?len"
    using w q(1) by (simp add: left_diff_distrib)
  then have nl: "n \<le> length ?dq" using len by simp
  have full: "rb_last_allocation_offset b = ?len" if "n = length ?dq"
    using that w q(1) by (simp add: algebra_simps)
  let ?st = "(fold Release (take n ?dq) a, b\<lparr>rb_data_queue := drop n ?dq,
      rb_total_bytes_dropped := rb_total_bytes_dropped b + int n * ?len\<rparr>)"
  have call: "DropDownstreamTo pos st = Inr ?st"
    using rel len nl by (simp add: DropDownstreamTo_def Let_def st n_def [symmetric] pop_front_blocks_eq)
  have "foreign ?st = foreign st"
    using pop_front_foreign [OF inv'] by (simp add: foreign_def st)
  then have "downstream st pos ?st"
    using pop_front_inv [OF inv' nl full] byte_at_pop_front [OF inv', of n] q len
    by (auto simp: downstream_def st bytes_dropped_def bytes_written_def)
  with call q show thesis
    by (intro that [of ?st]) (simp_all add: bytes_dropped_def st)
qed

section \<open>Reading\<close>

text \<open>What a sink makes of the successive pieces.\<close>

fun sink_all :: "('s \<Rightarrow> byte list \<Rightarrow> 's result) \<Rightarrow> 's \<Rightarrow> byte list list \<Rightarrow> 's result" where
  "sink_all sink s [] = Inr s"
| "sink_all sink s (c # cs) = and_then (sink s c) (\<lambda>s'. sink_all sink s' cs)"

lemma and_then_assoc: "and_then (and_then m f) g = and_then m (\<lambda>x. and_then (f x) g)"
  by (cases m) simp_all

lemma front_block:
  assumes inv: "rsb_inv (a, b)" and x: "rb_total_bytes_dropped b \<le> x" "x < rb_total_bytes_written b"
  obtains p ps blk where "rb_data_queue b = p # ps" "da_heap a p = Some blk"
    "int (length blk) = rb_allocation_length b"
proof -
  have "rb_data_queue b \<noteq> []" using block_index_less [OF inv x] by auto
  then obtain p ps where p: "rb_data_queue b = p # ps" by (cases "rb_data_queue b") auto
  then have "p \<in> dom (da_heap a)" using inv by (auto simp: rsb_inv_iff)
  then obtain blk where "da_heap a p = Some blk" by auto
  with p inv that show thesis by (auto simp: rsb_inv_iff da_inv_def)
qed

lemma front_piece:
  assumes "rb_data_queue b = p # ps" "da_heap a p = Some blk"
    and len: "int (length blk) = rb_allocation_length b"
    and pos: "rb_total_bytes_dropped b \<le> pos" "pos + int n \<le> rb_total_bytes_dropped b + rb_allocation_length b"
  shows "take n (drop (nat (pos - rb_total_bytes_dropped b)) blk) = stream (a, b) pos n"
proof (rule nth_equalityI)
  show l: "length (take n (drop (nat (pos - rb_total_bytes_dropped b)) blk)) = length (stream (a, b) pos n)"
    using pos len by simp
  fix i assume "i < length (take n (drop (nat (pos - rb_total_bytes_dropped b)) blk))"
  then have i: "i < n" using l by simp
  let ?rel = "pos + int i - rb_total_bytes_dropped b"
  have r: "0 \<le> ?rel" "?rel < rb_allocation_length b" using pos i by simp_all
  have "nat ?rel = nat (pos - rb_total_bytes_dropped b) + i" using pos by simp
  then show "take n (drop (nat (pos - rb_total_bytes_dropped b)) blk) ! i = stream (a, b) pos n ! i"
    using assms i r by (simp add: stream_def byte_at_def Let_def arr_get_def)
qed

lemma stream_downstream:
  "downstream st q st' \<Longrightarrow> q \<le> pos \<Longrightarrow> bytes_dropped st' \<le> pos \<Longrightarrow> pos + int n \<le> bytes_written st \<Longrightarrow>
    stream st' pos n = stream st pos n"
  by (rule stream_cong) (simp add: downstream_def)

text \<open>
  The read loop hands its sink exactly the requested bytes of the stream, in order, and only
  releases blocks that lie wholly before the end of what was read.
\<close>

lemma read_loop_ok:
  assumes "rsb_inv st" "bytes_dropped st \<le> pos" "0 \<le> rem" "pos + rem \<le> bytes_written st"
    "in_int32 (pos + rem - bytes_dropped st)"
  obtains pieces st' where "concat pieces = stream st pos (nat rem)" "downstream st (pos + rem) st'"
    "bytes_dropped st' \<le> pos + rem"
    "\<And>sink (s :: 's). read_loop sink s pos rem st = and_then (sink_all sink s pieces) (\<lambda>s'. Inr (s', st'))"
  using assms
proof (induction "nat rem" arbitrary: pos rem st thesis rule: less_induct)
  case less
  note pr = less.prems(2-6)
  show ?case
  proof (cases "rem = 0")
    case True
    show ?thesis
      by (rule less.prems(1) [of "[]" st])
        (use True pr in \<open>simp_all add: read_loop.simps downstream_refl stream_def\<close>)
  next
    case False
    then have rem: "0 < rem" using pr by simp
    have sm: "in_int32 (pos - bytes_dropped st)" using pr by (auto simp: in_int32_def)
    obtain st1 where d1: "DropDownstreamTo pos st = Inr st1" "downstream st pos st1"
        "pos < bytes_dropped st1 + rb_allocation_length (snd st)" "bytes_dropped st1 \<le> pos"
      by (rule DropDownstreamTo_ok [OF pr(1,2) _ sm]) (use pr rem in auto)
    obtain a b where ab: "st1 = (a, b)" by (cases st1)
    have inv1: "rsb_inv (a, b)" and len: "rb_allocation_length b = rb_allocation_length (snd st)"
      and wr: "rb_total_bytes_written b = bytes_written st" and dr: "bytes_dropped st \<le> rb_total_bytes_dropped b"
      using d1(2) downstream_field(5) [OF d1(2)] downstream_written [OF d1(2)]
      by (simp_all add: ab downstream_def bytes_written_def bytes_dropped_def)
    let ?pin = "pos - rb_total_bytes_dropped b"
    define n where "n = min rem (rb_allocation_length b - ?pin)"
    have pin: "0 \<le> ?pin" "?pin < rb_allocation_length b" "narrow32 ?pin = ?pin"
      using d1 dr pr by (auto simp: ab bytes_dropped_def len in_int32_def)
    have n: "0 < n" "n \<le> rem" "pos + n \<le> rb_total_bytes_dropped b + rb_allocation_length b"
      using rem pin by (auto simp: n_def)
    obtain p ps blk where blk: "rb_data_queue b = p # ps" "da_heap a p = Some blk"
        "int (length blk) = rb_allocation_length b"
      using front_block [OF inv1, of pos] pin rem pr wr by auto
    have piece: "take (nat n) (drop (nat ?pin) blk) = stream st pos (nat n)"
      using front_piece [OF blk, of pos "nat n"] pin n stream_downstream [OF d1(2), of pos "nat n"] pr d1(4)
      by (simp add: ab)
    have mono: "downstream st (pos + n) st1"
      using downstream_trans [OF d1(2) downstream_refl, of "pos + n"] n inv1 by (simp add: ab)
    obtain pieces st' where IH: "concat pieces = stream st1 (pos + n) (nat (rem - n))"
        "downstream st1 (pos + n + (rem - n)) st'" "bytes_dropped st' \<le> pos + n + (rem - n)"
        "\<And>sink (s :: 's). read_loop sink s (pos + n) (rem - n) st1 =
           and_then (sink_all sink s pieces) (\<lambda>s'. Inr (s', st'))"
    proof (rule less.hyps [of "rem - n" st1 "pos + n"])
      show "nat (rem - n) < nat rem" "rsb_inv st1" "bytes_dropped st1 \<le> pos + n" "0 \<le> rem - n"
          "pos + n + (rem - n) \<le> bytes_written st1" "in_int32 (pos + n + (rem - n) - bytes_dropped st1)"
        using n inv1 d1(4) dr pr wr
        by (auto simp: ab bytes_dropped_def bytes_written_def in_int32_def)
    qed (rule that)
    have step: "read_loop sink s pos rem st = and_then (sink s (stream st pos (nat n)))
        (\<lambda>s'. read_loop sink s' (pos + n) (rem - n) st1)" for sink and s :: 's
      using rem pin n by (subst read_loop.simps) (simp add: d1(1) ab blk Let_def flip: piece n_def)
    show ?thesis
    proof (rule less.prems(1) [of "stream st pos (nat n) # pieces" st'])
      have "stream st1 (pos + n) (nat (rem - n)) = stream st (pos + n) (nat (rem - n))"
        by (rule stream_downstream [OF d1(2)]) (use n d1 pr in auto)
      then show "concat (stream st pos (nat n) # pieces) = stream st pos (nat rem)"
        using IH(1) n stream_append [of st pos "nat n" "nat (rem - n)"]
        by (simp add: nat_diff_distrib)
      show "downstream st (pos + rem) st'"
        using downstream_trans [OF mono IH(2)] n by simp
      show "bytes_dropped st' \<le> pos + rem" using IH(3) by simp
      show "read_loop sink s pos rem st =
          and_then (sink_all sink s (stream st pos (nat n) # pieces)) (\<lambda>s'. Inr (s', st'))" for sink and s :: 's
        by (simp add: step IH(4) and_then_assoc)
    qed
  qed
qed

section \<open>Appending\<close>

text \<open>
  \<open>appended st bs st'\<close>: \<open>st'\<close> is \<open>st\<close> with the bytes \<open>bs\<close> at the end of the stream; the bytes before
  them, the metadata and the scratch area are as they were.
\<close>

definition appended :: "rsb \<Rightarrow> byte list \<Rightarrow> rsb \<Rightarrow> bool" where
  "appended st bs st' \<longleftrightarrow> rsb_inv st' \<and> bytes_dropped st' = bytes_dropped st \<and>
     bytes_written st' = bytes_written st + int (length bs) \<and>
     (\<forall>x. bytes_dropped st \<le> x \<and> x < bytes_written st \<longrightarrow> byte_at st' x = byte_at st x) \<and>
     stream st' (bytes_written st) (length bs) = bs \<and>
     rb_info_queue (snd st') = rb_info_queue (snd st) \<and>
     rb_extras_holder (snd st') = rb_extras_holder (snd st) \<and>
     rb_allocation_length (snd st') = rb_allocation_length (snd st) \<and> foreign st' = foreign st"

lemma rsb_inv_written: "rsb_inv st \<Longrightarrow> bytes_dropped st \<le> bytes_written st"
proof -
  assume "rsb_inv st"
  moreover obtain a b where st: "st = (a, b)" by (cases st)
  ultimately have inv: "rsb_inv (a, b)" by simp
  show ?thesis
  proof (cases "rb_data_queue b = []")
    case True
    with inv show ?thesis by (simp add: st bytes_dropped_def bytes_written_def rsb_inv_iff)
  next
    case False
    then have "0 \<le> (int (length (rb_data_queue b)) - 1) * rb_allocation_length b"
      using rsb_inv_len [OF inv] by (cases "rb_data_queue b") simp_all
    with inv show ?thesis by (simp add: st bytes_dropped_def bytes_written_def rsb_inv_iff)
  qed
qed

lemma rsb_inv_dropped: "rsb_inv st \<Longrightarrow> 0 \<le> bytes_dropped st"
  by (cases st) (simp add: rsb_inv_iff bytes_dropped_def)

lemma appended_Nil: "rsb_inv st \<Longrightarrow> appended st [] st"
  by (simp add: appended_def stream_def)

lemma appended_trans:
  assumes a1: "appended st xs st'" and a2: "appended st' ys st''" and inv: "rsb_inv st"
  shows "appended st (xs @ ys) st''"
proof -
  have "stream st'' (bytes_written st) (length xs) = stream st' (bytes_written st) (length xs)"
    by (rule stream_cong) (use a1 a2 rsb_inv_written [OF inv] in \<open>simp add: appended_def\<close>)
  with a1 a2 show ?thesis by (auto simp: appended_def stream_append)
qed

lemma PrepareForAppend_ok:
  assumes inv: "rsb_inv st" and call: "PrepareForAppend n st = (m, st')"
  shows "appended st [] st' \<and> rb_data_queue (snd st') \<noteq> [] \<and>
    rb_last_allocation_offset (snd st') < rb_allocation_length (snd st) \<and>
    m = min n (rb_allocation_length (snd st) - rb_last_allocation_offset (snd st'))"
proof -
  obtain a b where st: "st = (a, b)" by (cases st)
  have inv': "rsb_inv (a, b)" using inv st by simp
  have len: "0 < rb_allocation_length b" using inv' by (rule rsb_inv_len)
  show ?thesis
  proof (cases "rb_last_allocation_offset b = rb_allocation_length b")
    case False
    with inv' have "rb_data_queue b \<noteq> []" by (auto simp: rsb_inv_iff)
    with False call inv' appended_Nil [OF inv] show ?thesis
      by (auto simp: PrepareForAppend_def st Let_def rsb_inv_iff)
  next
    case True
    obtain p a2 where al: "Allocate a = (p, a2)" by (cases "Allocate a")
    let ?b = "b\<lparr>rb_last_allocation_offset := 0, rb_last_allocation := Some p,
        rb_data_queue := rb_data_queue b @ [p]\<rparr>"
    have da: "da_inv a" using inv' by (simp add: rsb_inv_iff)
    have al2: "da_inv a2" "da_heap a p = None"
        "da_individual_allocation_size a2 = da_individual_allocation_size a"
      using Allocate_inv [OF da al] by auto
    obtain blk where h: "da_heap a2 = (da_heap a)(p \<mapsto> blk)"
      using default_alloc.allocate_mem [OF da al] by blast
    have st': "st' = (a2, ?b)" and m: "m = min n (rb_allocation_length b)"
      using call True al by (auto simp: PrepareForAppend_def st Let_def)
    have fresh: "p \<notin> set (rb_data_queue b)" using inv' al2(2) by (auto simp: rsb_inv_iff)
    have inv2: "rsb_inv (a2, ?b)"
      using inv' al2 h fresh True len by (auto simp: rsb_inv_iff algebra_simps)
    have "byte_at (a2, ?b) x = byte_at (a, b) x"
      if "rb_total_bytes_dropped b \<le> x" "x < rb_total_bytes_written b" for x
    proof -
      note i = block_index_less [OF inv' that]
      then have "rb_data_queue b ! nat ((x - rb_total_bytes_dropped b) div rb_allocation_length b) \<noteq> p"
        using fresh by (metis nth_mem)
      with i show ?thesis by (simp add: byte_at_def Let_def nth_append h)
    qed
    moreover have "foreign (a2, ?b) = foreign (a, b)" using al2(2) by (auto simp: foreign_def h)
    ultimately show ?thesis
      using inv2 len m by (simp add: appended_def st st' stream_def bytes_dropped_def bytes_written_def)
  qed
qed

lemma poke_get:
  assumes "da_heap a p = Some blk" "poke p off data a = Inr a'" "0 \<le> i"
  shows "arr_get (the (da_heap a' p)) i =
    (if off \<le> i \<and> i < off + int (length data) then data ! nat (i - off) else arr_get blk i)"
  using assms
  by (auto simp: poke_def arr_get_def nth_append nat_less_iff nat_diff_distrib split: if_splits)

lemma block_of_last:
  assumes "0 < (len::int)" "0 \<le> r" "r < len"
  shows "(n * len + r) div len = n" "(n * len + r) mod len = r"
  using assms by simp_all

lemma store_bytes_ok:
  assumes inv: "rsb_inv (a, b)" and ne: "rb_data_queue b \<noteq> []"
    and room: "rb_last_allocation_offset b + int (length data) \<le> rb_allocation_length b"
  obtains st' where "store_bytes data (a, b) = Inr st'" "appended (a, b) data st'"
proof -
  let ?len = "rb_allocation_length b" and ?dq = "rb_data_queue b" and ?off = "rb_last_allocation_offset b"
  let ?p = "last ?dq" and ?L = "int (length ?dq) - 1"
  let ?d = "rb_total_bytes_dropped b" and ?w = "rb_total_bytes_written b"
  have len: "0 < ?len" using inv by (rule rsb_inv_len)
  have "?p \<in> dom (da_heap a)" using inv last_in_set [OF ne] by (simp add: rsb_inv_iff subset_iff)
  then obtain blk where blk: "da_heap a ?p = Some blk" by auto
  then have bl: "int (length blk) = ?len" using inv by (auto simp: rsb_inv_iff da_inv_def)
  have off: "0 \<le> ?off" and w: "?w = ?d + ?L * ?len + ?off" using inv by (auto simp: rsb_inv_iff)
  obtain a' where pk: "poke ?p ?off data a = Inr a'"
    using blk bl off room by (simp add: poke_def)
  define b' where "b' = b\<lparr>rb_last_allocation_offset := ?off + int (length data),
      rb_total_bytes_written := ?w + int (length data)\<rparr>"
  have call: "store_bytes data (a, b) = Inr (a', b')"
    using inv ne pk by (simp add: store_bytes_def copy_in_def advance_def rsb_inv_iff b'_def)
  have inv': "rsb_inv (a', b')"
    using inv ne poke_inv [of a _ _ _ a', OF _ pk] room off by (auto simp: rsb_inv_iff b'_def)
  have other: "da_heap a' q = da_heap a q" if "q \<noteq> ?p" for q
    using pk blk that by (auto simp: poke_def split: if_splits)
  have at: "byte_at (a', b') x = (if ?w \<le> x then data ! nat (x - ?w) else byte_at (a, b) x)"
    if x: "?d \<le> x" "x < ?w + int (length data)" for x
  proof -
    define k where "k = (x - ?d) div ?len"
    define m where "m = (x - ?d) mod ?len"
    have kb: "nat k < length ?dq" using block_index_less [OF inv', of x] x by (simp add: k_def b'_def)
    have k0: "0 \<le> k" "0 \<le> m" "m < ?len" using x len by (simp_all add: k_def m_def pos_imp_zdiv_nonneg_iff)
    have rel: "x - ?d = k * ?len + m" by (simp add: k_def m_def)
    show ?thesis
    proof (cases "k = ?L")
      case True
      then have "nat k = length ?dq - 1" by simp
      then have "?dq ! nat k = ?p" using ne by (simp add: last_conv_nth)
      moreover have "?w \<le> x \<longleftrightarrow> ?off \<le> m" "x - ?w = m - ?off" "m < ?off + int (length data)"
        using rel w True x by auto
      ultimately show ?thesis
        using poke_get [OF blk pk k0(2)] blk
        by (simp add: byte_at_def Let_def b'_def flip: k_def m_def)
    next
      case False
      then have kl: "k + 1 \<le> ?L" using kb by linarith
      then have "nat k \<noteq> length ?dq - 1" using k0(1) kb by arith
      then have "?dq ! nat k \<noteq> ?p"
        using inv ne kb by (simp add: rsb_inv_iff last_conv_nth nth_eq_iff_index_eq)
      moreover have "(k + 1) * ?len \<le> ?L * ?len" using kl len by (intro mult_right_mono) simp_all
      then have "x < ?w" using rel w k0 off by (simp add: distrib_right)
      ultimately show ?thesis
        by (simp add: byte_at_def Let_def b'_def other flip: k_def m_def)
    qed
  qed
  have dw: "?d \<le> ?w" using rsb_inv_written [OF inv] by (simp add: bytes_dropped_def bytes_written_def)
  have "stream (a', b') ?w (length data) = data"
    using at dw by (intro nth_equalityI) (simp_all add: stream_def)
  moreover have "foreign (a', b') = foreign (a, b)"
    using poke_inv [of a _ _ _ a', OF _ pk] inv by (simp add: foreign_def b'_def rsb_inv_iff)
  ultimately have "appended (a, b) data (a', b')"
    using inv' at
    by (simp add: appended_def bytes_dropped_def bytes_written_def b'_def)
  with call show thesis by (rule that)
qed

text \<open>
  One call of \<open>AppendDataFixThis\<close> appends a prefix of its argument, not empty unless the argument
  is: the loops that call it until everything is stored make progress.
\<close>

lemma AppendDataFixThis_ok:
  assumes inv: "rsb_inv st" and src: "int (length src) < 2 ^ 31"
  obtains n st' where "AppendDataFixThis src st = Inr (int n, st')" "n \<le> length src"
    "appended st (take n src) st'" "src \<noteq> [] \<Longrightarrow> 0 < n"
proof -
  obtain m a b where prep: "PrepareForAppend (int (length src)) st = (m, (a, b))"
    by (cases "PrepareForAppend (int (length src)) st") auto
  note pr = PrepareForAppend_ok [OF inv prep]
  have len: "rb_allocation_length b = rb_allocation_length (snd st)" and inv1: "rsb_inv (a, b)"
    using pr by (simp_all add: appended_def)
  have n32: "narrow32 (int (length src)) = int (length src)" using src by (simp add: in_int32_def)
  have m: "0 \<le> m" "nat m \<le> length src" "src \<noteq> [] \<Longrightarrow> 0 < m"
    using pr by (auto simp: min_def split: if_splits)
  obtain st' where st': "store_bytes (take (nat m) src) (a, b) = Inr st'" "appended (a, b) (take (nat m) src) st'"
    by (rule store_bytes_ok [OF inv1, of "take (nat m) src"])
      (use pr m in \<open>auto simp: len min_def split: if_splits\<close>)
  show thesis
  proof (rule that [of "nat m" st'])
    show "AppendDataFixThis src st = Inr (int (nat m), st')"
      using m by (simp add: AppendDataFixThis_def n32 prep st')
    show "appended st (take (nat m) src) st'"
      using appended_trans [OF _ st'(2) inv] pr by fastforce
  qed (use m in auto)
qed

section \<open>Samples and their bytes\<close>

definition rsb_samples :: "rsb \<Rightarrow> sample_info list" where
  "rsb_samples st = iq_samples (rb_info_queue (snd st))"

text \<open>The samples lie in the stream one after the other, between two positions.\<close>

fun layout :: "int \<Rightarrow> int \<Rightarrow> sample_info list \<Rightarrow> bool" where
  "layout lo hi [] = (lo \<le> hi)"
| "layout lo hi (s # ss) = (lo \<le> si_offset s \<and> 0 \<le> si_size s \<and> layout (si_offset s + si_size s) hi ss)"

definition rsb_ok :: "rsb \<Rightarrow> bool" where
  "rsb_ok st \<longleftrightarrow> rsb_inv st \<and> iq_inv (rb_info_queue (snd st)) \<and>
     layout (bytes_dropped st) (bytes_written st) (rsb_samples st)"

text \<open>What the buffer holds for its reader: every queued sample with its bytes.\<close>

definition payload :: "rsb \<Rightarrow> sample_info \<Rightarrow> byte list" where
  "payload st s = stream st (si_offset s) (nat (si_size s))"

definition rsb_view :: "rsb \<Rightarrow> (sample_info \<times> byte list) list" where
  "rsb_view st = map (\<lambda>s. (s, payload st s)) (rsb_samples st)"

lemma layout_le: "layout lo hi ss \<Longrightarrow> lo \<le> hi"
  by (induction lo hi ss rule: layout.induct) auto

lemma layout_mono: "layout lo hi ss \<Longrightarrow> lo' \<le> lo \<Longrightarrow> hi \<le> hi' \<Longrightarrow> layout lo' hi' ss"
  by (induction lo hi ss arbitrary: lo' rule: layout.induct) auto

lemma layout_append:
  "layout lo hi (ss @ ts) \<longleftrightarrow> (\<exists>mid. layout lo mid ss \<and> layout mid hi ts)"
proof (induction ss arbitrary: lo)
  case Nil
  then show ?case by (auto intro: layout_mono)
qed auto

lemma layout_member: "layout lo hi ss \<Longrightarrow> s \<in> set ss \<Longrightarrow>
    lo \<le> si_offset s \<and> 0 \<le> si_size s \<and> si_offset s + si_size s \<le> hi"
proof (induction lo hi ss rule: layout.induct)
  case (2 lo hi t ss)
  then show ?case using layout_le [of "si_offset t + si_size t" hi ss] by auto
qed simp

lemma byte_at_fields [simp]:
  "byte_at (a, b\<lparr>rb_info_queue := q\<rparr>) x = byte_at (a, b) x"
  "byte_at (a, b\<lparr>rb_extras_holder := e\<rparr>) x = byte_at (a, b) x"
  by (simp_all add: byte_at_def)

lemma rsb_inv_fields [simp]:
  "rsb_inv (a, b\<lparr>rb_info_queue := q\<rparr>) = rsb_inv (a, b)"
  "rsb_inv (a, b\<lparr>rb_extras_holder := e\<rparr>) = rsb_inv (a, b)"
  by (simp_all add: rsb_inv_iff)

lemma stream_fields [simp]:
  "stream (a, b\<lparr>rb_info_queue := q\<rparr>) x n = stream (a, b) x n"
  "stream (a, b\<lparr>rb_extras_holder := e\<rparr>) x n = stream (a, b) x n"
  by (simp_all add: stream_def)

lemma bytes_fields [simp]:
  "bytes_dropped (a, b\<lparr>rb_info_queue := q\<rparr>) = bytes_dropped (a, b)"
  "bytes_written (a, b\<lparr>rb_info_queue := q\<rparr>) = bytes_written (a, b)"
  "bytes_dropped (a, b\<lparr>rb_extras_holder := e\<rparr>) = bytes_dropped (a, b)"
  "bytes_written (a, b\<lparr>rb_extras_holder := e\<rparr>) = bytes_written (a, b)"
  by (simp_all add: bytes_dropped_def bytes_written_def)

lemma foreign_fields [simp]:
  "foreign (a, b\<lparr>rb_info_queue := q\<rparr>) = foreign (a, b)"
  "foreign (a, b\<lparr>rb_extras_holder := e\<rparr>) = foreign (a, b)"
  by (simp_all add: foreign_def)

text \<open>Releasing blocks before \<open>q\<close> keeps every sample that starts at or after \<open>q\<close>.\<close>

lemma downstream_payload:
  assumes d: "downstream st q st'" and q: "bytes_dropped st' \<le> q" and lay: "layout q (bytes_written st) ss"
    and s: "s \<in> set ss"
  shows "payload st' s = payload st s"
  unfolding payload_def
  by (rule stream_downstream [OF d]) (use layout_member [OF lay s] q in auto)

lemma move_next_position:
  assumes "iq_inv q" "iq_samples q = s # ss" "layout lo hi (s # ss)" "InfoQueue_MoveToNextSample q = (pos, q')"
  shows "si_offset s + si_size s \<le> pos" "pos \<le> hi" "layout pos hi ss" "iq_inv q'" "iq_samples q' = ss"
proof -
  note f = MoveToNextSample_fifo [OF assms(1) _ assms(4)]
  show "si_offset s + si_size s \<le> pos" using f assms(2,3) by (cases ss) auto
  show "layout pos hi ss" using f assms(2,3) by (cases ss) (auto dest: layout_le)
  then show "pos \<le> hi" by (rule layout_le)
  show "iq_inv q'" "iq_samples q' = ss" using f assms(2) by auto
qed

text \<open>
  The common end of \<open>SkipSample\<close> and \<open>ReadSample\<close>: the head sample goes, the others stay as they
  were. Some bytes of the head sample may already have been released.
\<close>

lemma SkipSample_step:
  assumes inv: "rsb_inv st" and iq: "iq_inv (rb_info_queue (snd st))" and ss: "rsb_samples st = s # ss"
    and lay: "layout lo (bytes_written st) (s # ss)" and lo: "bytes_dropped st \<le> si_offset s + si_size s"
    and small: "bytes_written st < 2 ^ 31"
  obtains st' where "SkipSample st = Inr st'" "rsb_ok st'"
    "rsb_view st' = map (\<lambda>t. (t, payload st t)) ss" "bytes_written st' = bytes_written st"
    "foreign st' = foreign st"
proof -
  obtain a b where st: "st = (a, b)" by (cases st)
  obtain pos q where mv: "InfoQueue_MoveToNextSample (rb_info_queue b) = (pos, q)"
    by (cases "InfoQueue_MoveToNextSample (rb_info_queue b)")
  have iq': "iq_inv (rb_info_queue b)" "iq_samples (rb_info_queue b) = s # ss"
    using iq ss by (simp_all add: rsb_samples_def st)
  have inv': "rsb_inv (a, b\<lparr>rb_info_queue := q\<rparr>)" using inv by (simp add: st)
  note mp = move_next_position [OF iq' lay mv]
  have d0: "0 \<le> bytes_dropped (a, b)" using inv' by (simp add: rsb_inv_iff bytes_dropped_def)
  obtain st' where st': "DropDownstreamTo pos (a, b\<lparr>rb_info_queue := q\<rparr>) = Inr st'"
      "downstream (a, b\<lparr>rb_info_queue := q\<rparr>) pos st'" "bytes_dropped st' \<le> pos"
    by (rule DropDownstreamTo_ok [OF inv', of pos])
      (use mp lo small d0 in \<open>auto simp: st in_int32_def\<close>)
  have iqq: "rb_info_queue (snd st') = q" using downstream_field(1) [OF st'(2)] by simp
  have w: "bytes_written st' = bytes_written st" using downstream_written [OF st'(2)] by (simp add: st)
  show thesis
  proof (rule that)
    show "SkipSample st = Inr st'" using st' by (simp add: SkipSample_def st mv)
    show "rsb_ok st'"
      using st'(2,3) mp w layout_mono [OF mp(3) st'(3)]
      by (simp add: rsb_ok_def rsb_samples_def iqq st downstream_def)
    have "payload st' t = payload st t" if "t \<in> set ss" for t
      using downstream_payload [OF st'(2,3) _ that] mp(3) by (simp add: st payload_def)
    then show "rsb_view st' = map (\<lambda>t. (t, payload st t)) ss"
      using mp(5) by (simp add: rsb_view_def rsb_samples_def iqq st)
    show "foreign st' = foreign st" using st'(2) by (simp add: downstream_def st)
  qed (rule w)
qed

lemma rsb_view_Cons: "rsb_samples st = s # ss \<Longrightarrow>
    rsb_view st = (s, payload st s) # map (\<lambda>t. (t, payload st t)) ss"
  by (simp add: rsb_view_def)

lemma SkipSample_ok:
  assumes ok: "rsb_ok st" and ss: "rsb_samples st = s # ss" and small: "bytes_written st < 2 ^ 31"
  obtains st' where "SkipSample st = Inr st'" "rsb_ok st'" "rsb_view st' = tl (rsb_view st)"
    "bytes_written st' = bytes_written st" "foreign st' = foreign st"
proof -
  have lay: "layout (bytes_dropped st) (bytes_written st) (s # ss)"
    and inv: "rsb_inv st" "iq_inv (rb_info_queue (snd st))"
    using ok ss by (simp_all add: rsb_ok_def)
  show thesis
    by (rule SkipSample_step [OF inv ss lay _ small]) (use lay that rsb_view_Cons [OF ss] in auto)
qed

section \<open>Reading a sample\<close>

text \<open>The holder takes the pieces one after the other, and nothing but its buffer changes.\<close>

lemma holder_sink_all:
  assumes "holder_inv h" "sh_buffer h \<noteq> None"
    "int (length (concat pieces)) \<le> sh_buffer_len h - sh_written_size h"
  obtains h' where "sink_all holder_sink h pieces = Inr h'" "holder_inv h'"
    "holder_data h' = holder_data h @ concat pieces"
    "h' = h\<lparr>sh_buffer := sh_buffer h', sh_written_size := sh_written_size h'\<rparr>"
  using assms
proof (induction pieces arbitrary: h thesis)
  case Nil
  then show ?case by (simp add: Nil(1) [of h])
next
  case (Cons c cs)
  have room: "int (length c) \<le> sh_buffer_len h - sh_written_size h" using Cons.prems by simp
  obtain h1 where h1: "Write h c = Inr (True, h1)" "holder_inv h1" "holder_data h1 = holder_data h @ c"
      "sh_buffer h1 \<noteq> None" "sh_buffer_len h1 = sh_buffer_len h"
      "sh_written_size h1 = sh_written_size h + int (length c)"
      "h1 = h\<lparr>sh_buffer := sh_buffer h1, sh_written_size := sh_written_size h1\<rparr>"
    by (rule Write_appends [OF Cons.prems(2,3) room])
  have "int (length (concat cs)) \<le> sh_buffer_len h1 - sh_written_size h1"
    using Cons.prems(4) h1(5,6) by simp
  then obtain h2 where h2: "sink_all holder_sink h1 cs = Inr h2" "holder_inv h2"
      "holder_data h2 = holder_data h1 @ concat cs"
      "h2 = h1\<lparr>sh_buffer := sh_buffer h2, sh_written_size := sh_written_size h2\<rparr>"
    using Cons.IH [OF _ h1(2,4)] by blast
  have "h2 = h\<lparr>sh_buffer := sh_buffer h2, sh_written_size := sh_written_size h2\<rparr>"
    by (subst h2(4), subst h1(7)) simp
  moreover have "holder_sink h c = Inr h1" by (simp add: holder_sink_def h1(1))
  ultimately show ?case
    by (intro Cons.prems(1) [of h2]) (use h1 h2 in simp_all)
qed

text \<open>The holder as it stands before the bytes are copied.\<close>

definition peeked_holder :: "sample_info \<Rightarrow> sample_holder \<Rightarrow> sample_holder" where
  "peeked_holder s h =
     (if si_flags s AND kSampleFlagEncrypted \<noteq> 0 then transfer_crypto (fill_extras s) (fill_holder s h)
      else fill_holder s h)"

lemma peeked_holder_fields [simp]:
  "sh_buffer (peeked_holder s h) = sh_buffer h" "sh_buffer_len (peeked_holder s h) = sh_buffer_len h"
  "sh_written_size (peeked_holder s h) = sh_written_size h" "sh_peek_size (peeked_holder s h) = si_size s"
  "sh_buffer_replacement_enabled (peeked_holder s h) = sh_buffer_replacement_enabled h"
  "sh_time_us (peeked_holder s h) = si_time_us s" "sh_flags (peeked_holder s h) = si_flags s"
  "sh_duration_us (peeked_holder s h) = si_duration_us s"
  by (simp_all add: peeked_holder_def transfer_crypto_def fill_holder_def Let_def)

lemma peeked_holder_inv [simp]:
  "holder_inv (peeked_holder s h) = holder_inv h" "holder_data (peeked_holder s h) = holder_data h"
  by (simp_all add: holder_inv_def holder_data_def split: option.splits)

lemma ReadSample_eq:
  assumes iq: "iq_inv (rb_info_queue b)" and ss: "iq_samples (rb_info_queue b) = s # ss"
    and off: "in_int32 (si_offset s)" and plain: "si_flags s AND kSampleFlagEncrypted = 0 \<or> si_iv s \<noteq> []"
  shows "ReadSample h (a, b) =
    (let h2 = snd (EnsureSpaceForWrite (peeked_holder s h) (si_size s))
     in and_then (ReadDataToSampleHolder (si_offset s) h2 (sh_peek_size h2)
          (a, b\<lparr>rb_extras_holder := fill_extras s\<rparr>))
        (\<lambda>(h3, (a', b')). and_then (SkipSample (a', b')) (\<lambda>st'. Inr (True, h3, st'))))"
proof -
  have pk: "PeekSample h (a, b) = (True, fill_holder s h, (a, b\<lparr>rb_extras_holder := fill_extras s\<rparr>))"
    using PeekSample_head [OF iq] ss by (simp add: PeekSample_def)
  have off': "GetOffset (fill_extras s) = si_offset s" using off by (simp add: GetOffset_def fill_extras_def Let_def)
  have enc: "IsEncrypted (fill_holder s h) \<longleftrightarrow> si_flags s AND kSampleFlagEncrypted \<noteq> 0"
    by (simp add: IsEncrypted_def fill_holder_def)
  have iv: "si_flags s AND kSampleFlagEncrypted \<noteq> 0 \<Longrightarrow> the (ex_iv (fill_extras s)) \<noteq> []"
    using plain by (simp add: fill_extras_def Let_def)
  have tail: "SkipSample (a', b') =
      DropDownstreamTo (fst (InfoQueue_MoveToNextSample (rb_info_queue b')))
        (a', b'\<lparr>rb_info_queue := snd (InfoQueue_MoveToNextSample (rb_info_queue b'))\<rparr>)" for a' b'
    by (simp add: SkipSample_def split_beta)
  have sz: "sh_peek_size (fill_holder s h) = si_size s"
      "sh_peek_size (transfer_crypto (fill_extras s) (fill_holder s h)) = si_size s"
    by (simp_all add: fill_holder_def transfer_crypto_def Let_def)
  show ?thesis
  proof (cases "si_flags s AND kSampleFlagEncrypted = 0")
    case True
    then show ?thesis
      by (simp add: ReadSample_def pk enc off' tail sz peeked_holder_def Let_def split_beta)
  next
    case False
    then show ?thesis
      using iv by (simp add: ReadSample_def pk enc off' tail sz peeked_holder_def Let_def split_beta)
  qed
qed

lemma ReadSample_ok:
  assumes ok: "rsb_ok st" and ss: "rsb_samples st = s # ss" and small: "bytes_written st < 2 ^ 31"
    and plain: "si_flags s AND kSampleFlagEncrypted = 0 \<or> si_iv s \<noteq> []"
    and hold: "holder_inv h" and en: "sh_buffer_replacement_enabled h"
  obtains h' st' where "ReadSample h st = Inr (True, h', st')" "rsb_ok st'"
    "rsb_view st' = tl (rsb_view st)" "bytes_written st' = bytes_written st" "holder_inv h'"
    "holder_data h' = holder_data h @ payload st s" "sh_time_us h' = si_time_us s"
    "sh_flags h' = si_flags s" "sh_duration_us h' = si_duration_us s" "foreign st' = foreign st"
proof -
  obtain a b where st: "st = (a, b)" by (cases st)
  let ?st0 = "(a, b\<lparr>rb_extras_holder := fill_extras s\<rparr>)"
  have iq: "iq_inv (rb_info_queue b)" "iq_samples (rb_info_queue b) = s # ss"
    and lay: "layout (bytes_dropped st) (bytes_written st) (s # ss)" and inv: "rsb_inv ?st0"
    using ok ss by (simp_all add: rsb_ok_def rsb_samples_def st)
  have d0: "0 \<le> bytes_dropped st" using ok by (simp add: rsb_ok_def rsb_inv_iff bytes_dropped_def st)
  have s: "bytes_dropped st \<le> si_offset s" "0 \<le> si_size s" "si_offset s + si_size s \<le> bytes_written st"
    using layout_member [OF lay, of s] by auto
  obtain ok2 h2 where es: "EnsureSpaceForWrite (peeked_holder s h) (si_size s) = (ok2, h2)"
    by (cases "EnsureSpaceForWrite (peeked_holder s h) (si_size s)")
  note e = EnsureSpaceForWrite_enabled [OF _ _ s(2) es, simplified, OF hold en]
  obtain pieces st1 where rd: "concat pieces = stream ?st0 (si_offset s) (nat (si_size s))"
      "downstream ?st0 (si_offset s + si_size s) st1" "bytes_dropped st1 \<le> si_offset s + si_size s"
      "\<And>sink (x :: sample_holder). read_loop sink x (si_offset s) (si_size s) ?st0 =
         and_then (sink_all sink x pieces) (\<lambda>x'. Inr (x', st1))"
    by (rule read_loop_ok [OF inv, of "si_offset s" "si_size s"])
      (use s small d0 in \<open>auto simp: st in_int32_def\<close>)
  have pl: "concat pieces = payload st s" using rd(1) by (simp add: payload_def st)
  then have pll: "length (concat pieces) = nat (si_size s)" by (simp add: payload_def)
  obtain h3 where h3: "sink_all holder_sink h2 pieces = Inr h3" "holder_inv h3"
      "holder_data h3 = holder_data h2 @ concat pieces"
      "h3 = h2\<lparr>sh_buffer := sh_buffer h3, sh_written_size := sh_written_size h3\<rparr>"
    by (rule holder_sink_all [of h2 pieces]) (use e s(2) pll in auto)
  have f: "sh_time_us h3 = si_time_us s" "sh_flags h3 = si_flags s" "sh_duration_us h3 = si_duration_us s"
    using e by (subst h3(4), simp)+
  have iq1: "rb_info_queue (snd st1) = rb_info_queue b" using downstream_field(1) [OF rd(2)] by simp
  have w1: "bytes_written st1 = bytes_written st" using downstream_written [OF rd(2)] by (simp add: st)
  obtain st' where st': "SkipSample st1 = Inr st'" "rsb_ok st'"
      "rsb_view st' = map (\<lambda>t. (t, payload st1 t)) ss" "bytes_written st' = bytes_written st1"
      "foreign st' = foreign st1"
    by (rule SkipSample_step [of st1 s ss "bytes_dropped st"])
      (use rd lay iq iq1 w1 small in \<open>auto simp: rsb_samples_def downstream_def\<close>)
  have "payload st1 t = payload st t" if "t \<in> set ss" for t
    using downstream_payload [OF rd(2,3) _ that] lay by (simp add: st payload_def)
  then have view: "rsb_view st' = tl (rsb_view st)" using st'(3) rsb_view_Cons [OF ss] by simp
  have "in_int32 (si_offset s)" using s small d0 by (auto simp: in_int32_def)
  note RS = ReadSample_eq [OF iq this plain]
  have "ReadSample h st = Inr (True, h3, st')"
    using e h3(1) st'(1) by (cases st1) (simp add: st RS es ReadDataToSampleHolder_def rd(4))
  moreover have "foreign st1 = foreign st" using rd(2) by (simp add: downstream_def st)
  ultimately show thesis
    using that st' view w1 h3 e f pl by simp
qed

section \<open>Committing, seeking and discarding\<close>

lemma payload_fields [simp]: "payload (a, b\<lparr>rb_info_queue := q\<rparr>) s = payload (a, b) s"
  by (simp add: payload_def)

lemma CommitSample_ok:
  assumes ok: "rsb_ok st" and before: "layout (bytes_dropped st) pos (rsb_samples st)"
    and rng: "0 \<le> sz" "pos + sz \<le> bytes_written st"
  shows "rsb_ok (CommitSample t d fl pos sz key iv nbc nbe st) \<and>
    rsb_view (CommitSample t d fl pos sz key iv nbc nbe st) =
      rsb_view st @ [(new_sample t d fl pos sz key iv nbc nbe, stream st pos (nat sz))]"
proof -
  obtain a b where st: "st = (a, b)" by (cases st)
  let ?q = "InfoQueue_CommitSample (rb_info_queue b) t d fl pos sz key iv nbc nbe"
  have "iq_inv (rb_info_queue b)" using ok by (simp add: rsb_ok_def st)
  note c = CommitSample_fifo [OF this refl, of t d fl pos sz key iv nbc nbe]
  have "layout (bytes_dropped st) (bytes_written st) (rsb_samples st @ [new_sample t d fl pos sz key iv nbc nbe])"
    using before rng by (auto simp: layout_append new_sample_def)
  then show ?thesis
    using ok c
    by (simp add: CommitSample_def rsb_ok_def rsb_view_def rsb_samples_def st payload_def new_sample_def)
qed

lemma layout_drop: "layout lo hi ss \<Longrightarrow> k < length ss \<Longrightarrow> layout (si_offset (ss ! k)) hi (drop k ss)"
proof (induction ss arbitrary: lo k)
  case (Cons s ss)
  then show ?case by (cases k) auto
qed simp

lemma layout_take: "layout lo hi ss \<Longrightarrow> k < length ss \<Longrightarrow> layout lo (si_offset (ss ! k)) (take k ss)"
proof (induction ss arbitrary: lo k)
  case (Cons s ss)
  then show ?case by (cases k) auto
qed simp

text \<open>Moving the read position to the start of a queued sample keeps it and the samples after it.\<close>

lemma skip_to_sample:
  assumes ok: "rsb_ok (a, b)" and k: "k < length (rsb_samples (a, b))" and small: "bytes_written (a, b) < 2 ^ 31"
    and q: "iq_inv q" "iq_samples q = drop k (rsb_samples (a, b))"
  obtains st' where
    "DropDownstreamTo (si_offset (rsb_samples (a, b) ! k)) (a, b\<lparr>rb_info_queue := q\<rparr>) = Inr st'"
    "rsb_ok st'" "rsb_view st' = drop k (rsb_view (a, b))" "bytes_written st' = bytes_written (a, b)"
    "foreign st' = foreign (a, b)"
proof -
  let ?S = "rsb_samples (a, b)" and ?st = "(a, b\<lparr>rb_info_queue := q\<rparr>)"
  let ?pos = "si_offset (?S ! k)"
  have lay: "layout (bytes_dropped (a, b)) (bytes_written (a, b)) ?S" and inv: "rsb_inv ?st"
    using ok by (simp_all add: rsb_ok_def)
  have d0: "0 \<le> bytes_dropped (a, b)" using inv by (simp add: rsb_inv_iff bytes_dropped_def)
  have rng: "bytes_dropped (a, b) \<le> ?pos" "?pos \<le> bytes_written (a, b)"
    using layout_member [OF lay nth_mem [OF k]] by auto
  obtain st' where st': "DropDownstreamTo ?pos ?st = Inr st'" "downstream ?st ?pos st'" "bytes_dropped st' \<le> ?pos"
    by (rule DropDownstreamTo_ok [OF inv, of ?pos]) (use rng small d0 in \<open>auto simp: in_int32_def\<close>)
  have w: "bytes_written st' = bytes_written (a, b)" using downstream_written [OF st'(2)] by simp
  have iq: "rb_info_queue (snd st') = q" using downstream_field(1) [OF st'(2)] by simp
  have lay': "layout ?pos (bytes_written ?st) (drop k ?S)" using layout_drop [OF lay k] by simp
  have "payload st' t = payload (a, b) t" if "t \<in> set (drop k ?S)" for t
    using downstream_payload [OF st'(2,3) lay' that] by simp
  then have v: "rsb_view st' = drop k (rsb_view (a, b))"
    using q(2) by (simp add: rsb_view_def drop_map) (simp add: rsb_samples_def iq)
  have "rsb_ok st'"
    using st'(2) q layout_mono [OF lay' st'(3) order_refl] w
    by (simp add: rsb_ok_def downstream_def iq) (simp add: rsb_samples_def iq)
  moreover have "foreign st' = foreign (a, b)" using st'(2) by (simp add: downstream_def)
  ultimately show thesis using that [OF st'(1) _ v w] by blast
qed

lemma SkipToKeyframeBefore_ok:
  assumes ok: "rsb_ok st" and small: "bytes_written st < 2 ^ 31"
  obtains (skipped) k st' where "SkipToKeyframeBefore t st = Inr (True, st')"
      "k < upto_time t (rsb_samples st)" "is_sync (rsb_samples st ! k)"
      "\<forall>j. k < j \<longrightarrow> j < upto_time t (rsb_samples st) \<longrightarrow> \<not> is_sync (rsb_samples st ! j)"
      "rsb_ok st'" "rsb_view st' = drop k (rsb_view st)" "bytes_written st' = bytes_written st"
      "foreign st' = foreign st"
  | (unchanged) "SkipToKeyframeBefore t st = Inr (False, st)"
proof -
  obtain a b where st: "st = (a, b)" by (cases st)
  obtain ret q where call: "InfoQueue_SkipToKeyframeBefore (rb_info_queue b) t = (ret, q)"
    by (cases "InfoQueue_SkipToKeyframeBefore (rb_info_queue b) t")
  have iq: "iq_inv (rb_info_queue b)" and d0: "0 \<le> bytes_dropped st"
    and lay: "layout (bytes_dropped st) (bytes_written st) (rsb_samples st)"
    using ok by (simp_all add: rsb_ok_def st rsb_inv_iff bytes_dropped_def)
  have offs: "\<forall>s \<in> set (iq_samples (rb_info_queue b)). 0 \<le> si_offset s"
    using layout_member [OF lay] d0 by (fastforce simp: rsb_samples_def st)
  note sk = SkipToKeyframeBefore_fifo [OF iq call offs]
  show thesis
  proof (cases "ret = -1")
    case True
    with sk call have "SkipToKeyframeBefore t st = Inr (False, st)"
      by (simp add: SkipToKeyframeBefore_def st)
    then show thesis by (rule unchanged)
  next
    case False
    with sk obtain k where k: "k < upto_time t (rsb_samples st)" "iq_samples q = drop k (rsb_samples st)"
        "ret = si_offset (rsb_samples st ! k)" "is_sync (rsb_samples st ! k)" "iq_inv q"
        "\<forall>j. k < j \<longrightarrow> j < upto_time t (rsb_samples st) \<longrightarrow> \<not> is_sync (rsb_samples st ! j)"
      by (auto simp: rsb_samples_def st)
    have "k < length (rsb_samples st)"
      using k(1) length_takeWhile_le unfolding upto_time_def by (rule less_le_trans)
    with ok small k obtain st' where st': "DropDownstreamTo ret (a, b\<lparr>rb_info_queue := q\<rparr>) = Inr st'"
        "rsb_ok st'" "rsb_view st' = drop k (rsb_view st)" "bytes_written st' = bytes_written st"
        "foreign st' = foreign st"
      unfolding st by (metis skip_to_sample)
    have "SkipToKeyframeBefore t st = Inr (True, st')"
      using False st'(1) call by (simp add: SkipToKeyframeBefore_def st)
    from skipped [OF this k(1,4,6) st'(2-5)] show thesis .
  qed
qed

lemma pop_back_blocks_eq:
  "n \<le> length (rb_data_queue b) \<Longrightarrow>
   pop_back_blocks n (a, b) =
     Inr (fold Release (rev (drop (length (rb_data_queue b) - n) (rb_data_queue b))) a,
          b\<lparr>rb_data_queue := take (length (rb_data_queue b) - n) (rb_data_queue b)\<rparr>)"
proof (induction n arbitrary: a b)
  case 0
  then show ?case by simp
next
  case (Suc n)
  then obtain ps p where dq: "rb_data_queue b = ps @ [p]" by (cases "rb_data_queue b" rule: rev_cases) auto
  with Suc show ?case by simp
qed

text \<open>
  Cutting the stream at \<open>pos\<close>: the blocks past it are released, the bytes before it stay. A cut at
  the very start of the stream empties the deque, and the code then asks for its last element.
\<close>

lemma DropUpstreamFrom_ok:
  assumes inv: "rsb_inv (a, b)" and pos: "rb_total_bytes_dropped b < pos" "pos \<le> rb_total_bytes_written b"
    and small: "in_int32 (pos - rb_total_bytes_dropped b)"
  obtains a' b' where "DropUpstreamFrom pos (a, b\<lparr>rb_total_bytes_written := pos\<rparr>) = Inr (a', b')"
    "rsb_inv (a', b')" "bytes_written (a', b') = pos" "bytes_dropped (a', b') = bytes_dropped (a, b)"
    "\<And>x. bytes_dropped (a, b) \<le> x \<Longrightarrow> x < pos \<Longrightarrow> byte_at (a', b') x = byte_at (a, b) x"
    "rb_info_queue b' = rb_info_queue b" "foreign (a', b') = foreign (a, b)"
proof -
  let ?len = "rb_allocation_length b" and ?dq = "rb_data_queue b" and ?d = "rb_total_bytes_dropped b"
  define k where "k = (pos - ?d) div ?len"
  define m where "m = (pos - ?d) mod ?len"
  define n where "n = nat (k + (if m = 0 then 0 else 1))"
  have len: "0 < ?len" using inv by (rule rsb_inv_len)
  have km: "pos - ?d = k * ?len + m" "0 \<le> k" "0 \<le> m" "m < ?len"
    using pos len by (simp_all add: k_def m_def pos_imp_zdiv_nonneg_iff)
  have up: "pos - ?d \<le> int (length ?dq) * ?len"
    using inv pos by (auto simp: rsb_inv_iff algebra_simps)
  have kl: "k + (if m = 0 then 0 else 1) \<le> int (length ?dq)"
  proof (cases "m = 0")
    case True
    with up km have "k * ?len \<le> int (length ?dq) * ?len" by simp
    with len True show ?thesis by simp
  next
    case False
    with up km have "k * ?len < int (length ?dq) * ?len" by linarith
    then have "k < int (length ?dq)" using mult_less_cancel_right_pos [OF len] by blast
    with False show ?thesis by simp
  qed
  have k1: "m = 0 \<Longrightarrow> 0 < k" using km pos by (cases "k = 0") auto
  have n: "0 < n" "n \<le> length ?dq" "int n = k + (if m = 0 then 0 else 1)" using kl km k1 by (auto simp: n_def)
  have dc: "nat (int (length ?dq) - k - 1 + (if m = 0 then 1 else 0)) = length ?dq - n"
    using n kl by auto
  have nar: "narrow32 (pos - ?d) = pos - ?d" using small by simp
  define a' where "a' = fold Release (rev (drop n ?dq)) a"
  define b' where "b' = b\<lparr>rb_total_bytes_written := pos, rb_data_queue := take n ?dq,
      rb_last_allocation := Some (last (take n ?dq)),
      rb_last_allocation_offset := (if m = 0 then ?len else m)\<rparr>"
  have ne: "take n ?dq \<noteq> []" using n by auto
  have kdef: "(pos - ?d) sdiv ?len = k" "(pos - ?d) smod ?len = m"
    using pos len by (simp_all add: k_def m_def)
  have call: "DropUpstreamFrom pos (a, b\<lparr>rb_total_bytes_written := pos\<rparr>) = Inr (a', b')"
    using n ne by (simp add: DropUpstreamFrom_def Let_def nar kdef dc pop_back_blocks_eq a'_def b'_def)
  have d: "distinct ?dq" "set ?dq \<subseteq> dom (da_heap a)" "da_inv a" using inv by (auto simp: rsb_inv_iff)
  have rel: "da_inv a'" "da_heap a' = da_heap a |` (- set (drop n ?dq))"
      "da_individual_allocation_size a' = da_individual_allocation_size a"
    using default_alloc.release_all [OF d(3), of "rev (drop n ?dq)"] d set_drop_subset [of n ?dq]
    by (auto simp: a'_def GetIndividualAllocationLength_def)
  have disj: "set (take n ?dq) \<inter> set (drop n ?dq) = {}"
    using d(1) by (rule set_take_disj_set_drop_if_distinct) simp
  have inv': "rsb_inv (a', b')"
    using inv n km rel d disj set_take_subset [of n ?dq] ne pos
    by (auto simp: rsb_inv_iff b'_def algebra_simps)
  have same: "byte_at (a', b') x = byte_at (a, b) x" if "bytes_dropped (a, b) \<le> x" "x < pos" for x
  proof -
    let ?j = "nat ((x - ?d) div ?len)"
    have j: "?j < n"
      using block_index_less [OF inv', of x] that n by (simp add: b'_def bytes_dropped_def)
    then have "?dq ! ?j \<in> set (take n ?dq)" using n by (simp add: in_set_conv_nth) (metis nth_take)
    then have "?dq ! ?j \<notin> set (drop n ?dq)" using disj by auto
    with j n show ?thesis by (simp add: byte_at_def Let_def b'_def rel)
  qed
  have "set ?dq = set (take n ?dq) \<union> set (drop n ?dq)" by (metis append_take_drop_id set_append)
  then have "foreign (a', b') = foreign (a, b)" using disj by (auto simp: foreign_def rel b'_def)
  with call inv' same rel show thesis
    by (intro that [of a' b']) (simp_all add: b'_def bytes_written_def bytes_dropped_def)
qed

text \<open>
  Where a discard from absolute index \<open>i\<close> cuts the stream: at the start of the first discarded
  sample, or at the end of the last sample when nothing is discarded and something has been read.
\<close>

definition cut_position :: "int \<Rightarrow> rsb \<Rightarrow> int" where
  "cut_position i st = fst (InfoQueue_DiscardUpstreamSamples (rb_info_queue (snd st)) i)"

lemma cut_layout:
  assumes ok: "rsb_ok st" and i: "GetReadIndex st \<le> i" "i \<le> GetWriteIndex st"
    and some: "i < GetWriteIndex st \<or> rsb_samples st \<noteq> [] \<and> GetReadIndex st \<noteq> 0"
  shows "layout (bytes_dropped st) (cut_position i st) (take (nat (i - GetReadIndex st)) (rsb_samples st)) \<and>
    cut_position i st \<le> bytes_written st"
proof -
  let ?q = "rb_info_queue (snd st)" and ?S = "rsb_samples st" and ?k = "nat (i - GetReadIndex st)"
  have iq: "iq_inv ?q" and lay: "layout (bytes_dropped st) (bytes_written st) ?S"
    using ok by (simp_all add: rsb_ok_def)
  have rng: "InfoQueue_GetReadIndex ?q \<le> i" "i \<le> InfoQueue_GetWriteIndex ?q"
    using i by (simp_all add: GetReadIndex_def GetWriteIndex_def)
  note d = DiscardUpstreamSamples_fifo [OF iq rng surjective_pairing]
  have w: "GetWriteIndex st = GetReadIndex st + int (length ?S)"
    using GetWriteIndex_view [OF iq] by (simp add: GetReadIndex_def GetWriteIndex_def rsb_samples_def)
  show ?thesis
  proof (cases "i < GetWriteIndex st")
    case True
    then have k: "?k < length ?S" using i(1) w by linarith
    have c: "cut_position i st = si_offset (?S ! ?k)"
      using True d by (simp add: cut_position_def GetReadIndex_def GetWriteIndex_def rsb_samples_def)
    show ?thesis using layout_take [OF lay k] layout_member [OF lay nth_mem [OF k]] by (simp add: c)
  next
    case False
    with some i w have ne: "?S \<noteq> []" and k: "?k = length ?S" and r: "GetReadIndex st \<noteq> 0" by auto
    have c: "cut_position i st = si_offset (last ?S) + si_size (last ?S)"
      using d False i ne r by (auto simp: cut_position_def GetReadIndex_def GetWriteIndex_def rsb_samples_def)
    obtain mid where "layout (bytes_dropped st) mid (butlast ?S)" "layout mid (bytes_written st) [last ?S]"
      using lay append_butlast_last_id [OF ne] by (metis layout_append)
    then have "layout (bytes_dropped st) (cut_position i st) (butlast ?S @ [last ?S])"
        "cut_position i st \<le> bytes_written st"
      by (auto simp: c layout_append)
    with ne k show ?thesis by simp
  qed
qed

lemma DiscardUpstreamSamples_ok:
  assumes ok: "rsb_ok st" and i: "GetReadIndex st \<le> i" "i \<le> GetWriteIndex st"
    and some: "i < GetWriteIndex st \<or> rsb_samples st \<noteq> [] \<and> GetReadIndex st \<noteq> 0"
    and cut: "bytes_dropped st < cut_position i st" and small: "bytes_written st < 2 ^ 31"
  obtains st' where "DiscardUpstreamSamples i st = Inr st'" "rsb_ok st'"
    "rsb_view st' = take (nat (i - GetReadIndex st)) (rsb_view st)"
    "bytes_written st' = cut_position i st" "foreign st' = foreign st" "GetReadIndex st' = GetReadIndex st"
proof -
  obtain a b where st: "st = (a, b)" by (cases st)
  let ?k = "nat (i - GetReadIndex st)"
  obtain ret q where call: "InfoQueue_DiscardUpstreamSamples (rb_info_queue b) i = (ret, q)"
    by (cases "InfoQueue_DiscardUpstreamSamples (rb_info_queue b) i")
  have ret: "cut_position i st = ret" by (simp add: cut_position_def st call)
  have iq: "iq_inv (rb_info_queue b)" and inv: "rsb_inv (a, b\<lparr>rb_info_queue := q\<rparr>)"
    using ok by (simp_all add: rsb_ok_def st)
  have rng: "InfoQueue_GetReadIndex (rb_info_queue b) \<le> i" "i \<le> InfoQueue_GetWriteIndex (rb_info_queue b)"
    using i by (simp_all add: GetReadIndex_def GetWriteIndex_def st)
  have q: "iq_inv q" "iq_samples q = take ?k (rsb_samples st)" "InfoQueue_GetReadIndex q = GetReadIndex st"
    using DiscardUpstreamSamples_fifo [OF iq rng call] by (simp_all add: GetReadIndex_def rsb_samples_def st)
  note lay = cut_layout [OF ok i some, unfolded ret]
  have d0: "0 \<le> bytes_dropped st" using inv by (simp add: rsb_inv_iff bytes_dropped_def st)
  obtain a' b' where dr: "DropUpstreamFrom ret (a, b\<lparr>rb_info_queue := q, rb_total_bytes_written := ret\<rparr>) = Inr (a', b')"
      "rsb_inv (a', b')" "bytes_written (a', b') = ret" "bytes_dropped (a', b') = bytes_dropped st"
      "\<And>x. bytes_dropped st \<le> x \<Longrightarrow> x < ret \<Longrightarrow> byte_at (a', b') x = byte_at st x"
      "rb_info_queue b' = q" "foreign (a', b') = foreign st"
    by (rule DropUpstreamFrom_ok [OF inv, of ret])
      (use cut lay small d0 ret in \<open>auto simp: st bytes_dropped_def bytes_written_def in_int32_def\<close>)
  have pl: "payload (a', b') t = payload st t" if "t \<in> set (take ?k (rsb_samples st))" for t
    unfolding payload_def
    by (rule stream_cong) (use dr(5) layout_member [OF conjunct1 [OF lay] that] in auto)
  show thesis
  proof (rule that)
    show "DiscardUpstreamSamples i st = Inr (a', b')"
      using dr(1) by (simp add: DiscardUpstreamSamples_def st call)
    show "rsb_ok (a', b')" using dr q lay by (simp add: rsb_ok_def rsb_samples_def)
    show "rsb_view (a', b') = take ?k (rsb_view st)"
      using pl by (simp add: rsb_view_def take_map) (simp add: rsb_samples_def dr(6) q(2))
    show "GetReadIndex (a', b') = GetReadIndex st" using q(3) by (simp add: GetReadIndex_def dr(6))
  qed (use dr ret in simp_all)
qed

lemma Clear_ok:
  assumes ok: "rsb_ok st"
  shows "rsb_ok (Clear st) \<and> rsb_view (Clear st) = [] \<and> foreign (Clear st) = foreign st \<and>
    rb_data_queue (snd (Clear st)) = [] \<and> da_heap (fst (Clear st)) = da_heap (fst st) |` foreign st"
proof -
  obtain a b where st: "st = (a, b)" by (cases st)
  let ?a = "fold Release (rev (rb_data_queue b)) a"
  have inv: "rsb_inv (a, b)" and iq: "iq_inv (rb_info_queue b)" using ok by (simp_all add: rsb_ok_def st)
  have r: "da_inv ?a" "da_heap ?a = da_heap a |` (- set (rb_data_queue b))"
      "da_individual_allocation_size ?a = da_individual_allocation_size a"
    using default_alloc.release_all [of a "rev (rb_data_queue b)"] inv
    by (auto simp: rsb_inv_iff GetIndividualAllocationLength_def)
  have h: "da_heap a |` (- set (rb_data_queue b)) = da_heap a |` (dom (da_heap a) - set (rb_data_queue b))"
    by (auto simp: restrict_map_def fun_eq_iff)
  show ?thesis
    using inv r iq_inv_Clear [OF iq]
    by (auto simp: Clear_def st rsb_ok_def rsb_inv_iff rsb_samples_def rsb_view_def bytes_dropped_def
        bytes_written_def foreign_def h)
qed

end
