(* ===== verification/Sample_Buffer_Contract.thy ===== *)
theory Sample_Buffer_Contract
  imports Sample_Stream
begin

text \<open>
  The contract of the rolling sample buffer: the states its operations can reach, as a step
  relation, with the invariant every one of them has; the interface (\<open>payload_queue\<close>,
  \<open>peekable_queue\<close>) through which \<open>DefaultTrackOutput\<close> uses it; and the properties of the buffer.
\<close>

section \<open>Reachable states\<close>

text \<open>
  One call of the buffer by a client that respects the obligations the source states or relies on:
  a committed sample lies between the end of the previous one and the write position, a skip or read
  finds a sample, a discard index lies between the read and the write index and does not cut off the
  whole stream, and no more than \<open>2 ^ 31\<close> bytes are ever written (\<open>SampleExtrasHolder\<close> keeps
  positions through \<open>int32_t\<close>).
\<close>

definition rsb_ready :: "rsb \<Rightarrow> bool" where
  "rsb_ready st \<longleftrightarrow> rsb_ok st \<and> bytes_written st < 2 ^ 31"

inductive rsb_step :: "rsb \<Rightarrow> rsb \<Rightarrow> bool" where
  append: "AppendDataFixThis src st = Inr (n, st') \<Longrightarrow>
    bytes_written st + int (length src) < 2 ^ 31 \<Longrightarrow> rsb_step st st'"
| commit: "layout (bytes_dropped st) pos (rsb_samples st) \<Longrightarrow> 0 \<le> sz \<Longrightarrow> pos + sz \<le> bytes_written st \<Longrightarrow>
    rsb_step st (CommitSample t d fl pos sz key iv nbc nbe st)"
| skip: "rsb_samples st \<noteq> [] \<Longrightarrow> SkipSample st = Inr st' \<Longrightarrow> rsb_step st st'"
| read: "rsb_samples st = s # ss \<Longrightarrow> si_flags s AND kSampleFlagEncrypted = 0 \<or> si_iv s \<noteq> [] \<Longrightarrow>
    holder_inv h \<Longrightarrow> sh_buffer_replacement_enabled h \<Longrightarrow> ReadSample h st = Inr (found, h', st') \<Longrightarrow>
    rsb_step st st'"
| seek: "SkipToKeyframeBefore t st = Inr (found, st') \<Longrightarrow> rsb_step st st'"
| discard: "GetReadIndex st \<le> i \<Longrightarrow> i \<le> GetWriteIndex st \<Longrightarrow>
    i < GetWriteIndex st \<or> rsb_samples st \<noteq> [] \<and> GetReadIndex st \<noteq> 0 \<Longrightarrow>
    bytes_dropped st < cut_position i st \<Longrightarrow> DiscardUpstreamSamples i st = Inr st' \<Longrightarrow> rsb_step st st'"
| clear: "rsb_step st (Clear st)"

inductive rsb_reach :: "rsb \<Rightarrow> rsb \<Rightarrow> bool" for st0 where
  start: "rsb_reach st0 st0"
| more: "rsb_reach st0 st \<Longrightarrow> rsb_step st st' \<Longrightarrow> rsb_reach st0 st'"

lemma rsb_ready_new:
  assumes a: "DefaultAllocator_new n = Inr a" and n: "n < 2 ^ 31"
  shows "rsb_ready (a, RollingSampleBuffer_new a)"
proof -
  have "0 < n" and a': "a = \<lparr>da_individual_allocation_size = n, da_allocated_count = 0,
      da_heap = Map.empty, da_next = 0\<rparr>"
    using a by (auto simp: DefaultAllocator_new_def split: if_splits)
  moreover have "narrow32 n = n" using n \<open>0 < n\<close> by (simp add: in_int32_def)
  ultimately show ?thesis
    using iq_inv_new
    by (simp add: rsb_ready_def rsb_ok_def rsb_inv_iff RollingSampleBuffer_new_def Let_def
        GetIndividualAllocationLength_def da_inv_def bytes_dropped_def bytes_written_def rsb_samples_def)
qed

text \<open>Every step keeps the invariant, and neither leaks a block nor touches a foreign one.\<close>

lemma rsb_step_append:
  assumes "rsb_ready st" "AppendDataFixThis src st = Inr (n, st')"
    "bytes_written st + int (length src) < 2 ^ 31"
  shows "rsb_ready st' \<and> foreign st' = foreign st"
proof -
  have inv: "rsb_inv st" using assms(1) by (simp add: rsb_ready_def rsb_ok_def)
  have l: "int (length src) < 2 ^ 31"
    using assms(3) rsb_inv_written [OF inv] rsb_inv_dropped [OF inv] by linarith
  obtain k st2 where k: "AppendDataFixThis src st = Inr (int k, st2)" "k \<le> length src"
      "appended st (take k src) st2"
    by (rule AppendDataFixThis_ok [OF inv l])
  then have "layout (bytes_dropped st2) (bytes_written st2) (rsb_samples st2)"
    using assms(1) layout_mono [of "bytes_dropped st" "bytes_written st" "rsb_samples st"]
    by (simp add: rsb_ready_def rsb_ok_def appended_def rsb_samples_def)
  with k assms show ?thesis
    by (auto simp: rsb_ready_def rsb_ok_def appended_def)
qed

lemma rsb_step_ready:
  "rsb_step st st' \<Longrightarrow> rsb_ready st \<Longrightarrow> rsb_ready st' \<and> foreign st' = foreign st"
proof (induction rule: rsb_step.induct)
  case (append src st n st')
  then show ?case using rsb_step_append by blast
next
  case (commit st pos sz t d fl key iv nbc nbe)
  then show ?case
    using CommitSample_ok [of st pos sz]
    by (simp add: rsb_ready_def CommitSample_def bytes_written_def foreign_def)
next
  case (skip st st')
  then obtain s ss where ss: "rsb_samples st = s # ss" by (cases "rsb_samples st") auto
  have pre: "rsb_ok st" "bytes_written st < 2 ^ 31" using skip(3) by (simp_all add: rsb_ready_def)
  obtain st2 where "SkipSample st = Inr st2" "rsb_ok st2" "bytes_written st2 = bytes_written st"
      "foreign st2 = foreign st"
    by (rule SkipSample_ok [OF pre(1) ss pre(2)])
  with skip(2) pre show ?case by (simp add: rsb_ready_def)
next
  case (read st s ss h found h' st')
  then have pre: "rsb_ok st" "bytes_written st < 2 ^ 31" by (simp_all add: rsb_ready_def)
  obtain h2 st2 where "ReadSample h st = Inr (True, h2, st2)" "rsb_ok st2"
      "bytes_written st2 = bytes_written st" "foreign st2 = foreign st"
    by (rule ReadSample_ok [OF pre(1) read(1) pre(2) read(2-4)])
  with read(5) pre show ?case by (simp add: rsb_ready_def)
next
  case (seek t st found st')
  then have pre: "rsb_ok st" "bytes_written st < 2 ^ 31" by (simp_all add: rsb_ready_def)
  show ?case
    by (rule SkipToKeyframeBefore_ok [OF pre, of t]) (use seek pre in \<open>auto simp: rsb_ready_def\<close>)
next
  case (discard st i st')
  then have pre: "rsb_ok st" "bytes_written st < 2 ^ 31" by (simp_all add: rsb_ready_def)
  show ?case
    by (rule DiscardUpstreamSamples_ok [OF pre(1) discard(1-4) pre(2)])
      (use discard(5) pre cut_layout [OF pre(1) discard(1-3)] in \<open>auto simp: rsb_ready_def\<close>)
next
  case (clear st)
  then show ?case
    using Clear_ok [of st] by (auto simp: rsb_ready_def Clear_def bytes_written_def split: prod.splits)
qed

lemma rsb_reach_ready:
  "rsb_reach st0 st \<Longrightarrow> rsb_ready st0 \<Longrightarrow> rsb_ready st \<and> foreign st = foreign st0"
  by (induction rule: rsb_reach.induct) (auto dest: rsb_step_ready)

section \<open>The interface of the buffer's client\<close>

text \<open>
  What a reader relies on: taking the head sample off the queue of samples with their bytes, and
  looking at it.
\<close>

locale payload_queue =
  fixes skip :: "'b \<Rightarrow> 'b result" and view :: "'b \<Rightarrow> (sample_info \<times> byte list) list" and ok :: "'b \<Rightarrow> bool"
  assumes skip_view: "ok b \<Longrightarrow> view b \<noteq> [] \<Longrightarrow> \<exists>b'. skip b = Inr b' \<and> ok b' \<and> view b' = tl (view b)"

locale peekable_queue = payload_queue +
  fixes peek :: "sample_holder \<Rightarrow> 'b \<Rightarrow> bool \<times> sample_holder \<times> 'b"
  assumes peek_view: "ok b \<Longrightarrow> \<exists>b'. ok b' \<and> view b' = view b \<and>
    peek h b = (view b \<noteq> [], (if view b = [] then h else fill_holder (fst (hd (view b))) h), b')"
begin

text \<open>
  The loop \<open>while (peek && cond) { skip; flag = true }\<close>, given by its recursion equation: it ends,
  drops exactly the leading samples on which the condition holds, and raises the flag if there are
  any.
\<close>

lemma skip_while_drops:
  assumes rec: "\<And>h f b. loop h f b =
      (case peek h b of (found, h', b') \<Rightarrow>
         if found \<and> c h' then (case skip b' of Inl e \<Rightarrow> Some (Inl e) | Inr b'' \<Rightarrow> loop h' True b'')
         else Some (Inr (found, f, h', b')))"
    and cond: "\<And>s h. c (fill_holder s h) = C s"
    and ok: "ok b"
  shows "\<exists>h' b'. loop h f b = Some (Inr (dropWhile (\<lambda>x. C (fst x)) (view b) \<noteq> [],
        f \<or> takeWhile (\<lambda>x. C (fst x)) (view b) \<noteq> [], h', b')) \<and> ok b' \<and>
    view b' = dropWhile (\<lambda>x. C (fst x)) (view b) \<and>
    (view b' \<noteq> [] \<longrightarrow> (\<exists>h''. h' = fill_holder (fst (hd (view b'))) h''))"
  using ok
proof (induction "view b" arbitrary: b h f)
  case Nil
  from peek_view [OF Nil(2), of h] Nil(1) obtain b' where "ok b'" "view b' = []" "peek h b = (False, h, b')"
    by auto
  with Nil(1) show ?case by (subst rec) simp
next
  case (Cons x xs)
  note v = Cons(2) [symmetric]
  from peek_view [OF Cons(3), of h] obtain b' where b': "ok b'" "view b' = x # xs"
      "peek h b = (True, fill_holder (fst x) h, b')"
    by (auto simp: v)
  show ?case
  proof (cases "C (fst x)")
    case False
    with b' show ?thesis by (subst rec) (auto simp: cond v)
  next
    case True
    from skip_view [OF b'(1)] b'(2) obtain b'' where b'': "skip b' = Inr b''" "ok b''" "view b'' = xs"
      by auto
    have "loop h f b = loop (fill_holder (fst x) h) True b''"
      by (subst rec) (simp add: b' cond True b'')
    with Cons(1) [OF b''(3) [symmetric] b''(2), of "fill_holder (fst x) h" True] b''(3) True
    show ?thesis by (auto simp: v)
  qed
qed

end

lemma rsb_view_Nil [simp]: "rsb_view st = [] \<longleftrightarrow> rsb_samples st = []"
  by (simp add: rsb_view_def)

lemma hd_rsb_view: "rsb_samples st \<noteq> [] \<Longrightarrow> fst (hd (rsb_view st)) = hd (rsb_samples st)"
  by (cases "rsb_samples st") (simp_all add: rsb_view_def)

lemma PeekSample_view:
  assumes "rsb_ready st"
  shows "\<exists>st'. rsb_ready st' \<and> rsb_view st' = rsb_view st \<and> foreign st' = foreign st \<and>
    PeekSample h st = (rsb_view st \<noteq> [],
      (if rsb_view st = [] then h else fill_holder (fst (hd (rsb_view st))) h), st')"
proof -
  obtain a b where st: "st = (a, b)" by (cases st)
  have iq: "iq_inv (rb_info_queue b)" using assms by (simp add: rsb_ready_def rsb_ok_def st)
  have ready0: "rsb_ready (a, b)" using assms st by simp
  have ready: "rsb_ready (a, b\<lparr>rb_extras_holder := e\<rparr>) \<and>
      rsb_view (a, b\<lparr>rb_extras_holder := e\<rparr>) = rsb_view st" for e
    using assms by (simp add: rsb_ready_def rsb_ok_def rsb_samples_def rsb_view_def payload_def st)
  show ?thesis
  proof (cases "rsb_samples st = []")
    case True
    with PeekSample_empty [OF iq, of h "rb_extras_holder b"] ready0 show ?thesis
      by (simp add: PeekSample_def st) (simp add: rsb_samples_def)
  next
    case False
    with PeekSample_head [OF iq, of h "rb_extras_holder b"] ready hd_rsb_view [OF False] show ?thesis
      by (simp add: PeekSample_def st) (simp add: rsb_samples_def)
  qed
qed

interpretation rsb_queue: peekable_queue SkipSample rsb_view rsb_ready PeekSample
proof (unfold_locales, goal_cases)
  case (1 b)
  then obtain s ss where ss: "rsb_samples b = s # ss" by (cases "rsb_samples b") auto
  have pre: "rsb_ok b" "bytes_written b < 2 ^ 31" using 1 by (simp_all add: rsb_ready_def)
  show ?case
    by (rule SkipSample_ok [OF pre(1) ss pre(2)]) (use pre in \<open>auto simp: rsb_ready_def\<close>)
next
  case (2 b h)
  then show ?case using PeekSample_view [of b h] by blast
qed

section \<open>Properties\<close>

text \<open>A small buffer of two blocks holding two samples, for the witnesses.\<close>

definition demo_info :: info_queue where
  "demo_info = \<lparr>iq_capacity = 4, iq_offsets = [0, 5, 0, 0], iq_durations = [40, 40, 0, 0],
     iq_sizes = [5, 1, 0, 0], iq_flags = [1, 1, 0, 0], iq_times_us = [100, 140, 0, 0],
     iq_encryption_key_ids = [[], [], [], []], iq_iv = [[], [], [], []],
     iq_num_bytes_clear = [[], [], [], []], iq_num_bytes_enc = [[], [], [], []],
     iq_queue_size = 2, iq_absolute_read_index = 0, iq_relative_read_index = 0,
     iq_relative_write_index = 2\<rparr>"

definition demo_allocator :: default_allocator where
  "demo_allocator = \<lparr>da_individual_allocation_size = 4, da_allocated_count = 2,
     da_heap = [0 \<mapsto> [10, 11, 12, 13], 1 \<mapsto> [14, 15, 0, 0]], da_next = 2\<rparr>"

definition demo_rsb :: rsb where
  "demo_rsb = (demo_allocator,
     \<lparr>rb_allocation_length = 4, rb_info_queue = demo_info, rb_data_queue = [0, 1],
      rb_extras_holder = SampleExtrasHolder_new, rb_scratch = replicate kInitialScratchSize 0,
      rb_scratch_position = 0, rb_total_bytes_dropped = 0, rb_total_bytes_written = 6,
      rb_last_allocation = Some 1, rb_last_allocation_offset = 2\<rparr>)"

definition demo_first :: sample_info where
  "demo_first = new_sample 100 40 1 0 5 None None None None"

definition demo_second :: sample_info where
  "demo_second = new_sample 140 40 1 5 1 None None None None"

lemma demo_samples: "rsb_samples demo_rsb = [demo_first, demo_second]"
  by (simp add: rsb_samples_def demo_rsb_def demo_info_def iq_samples_def slot_def arr_get_def ring_pos_def
      demo_first_def demo_second_def new_sample_def numeral_2_eq_2)

lemma demo_view: "rsb_view demo_rsb = [(demo_first, [10, 11, 12, 13, 14]), (demo_second, [15])]"
  by (simp add: rsb_view_def demo_samples)
    (simp add: payload_def stream_def byte_at_def demo_rsb_def demo_allocator_def demo_first_def demo_second_def
      new_sample_def arr_get_def upt_rec)

lemma demo_ready: "rsb_ready demo_rsb"
proof -
  have "da_inv demo_allocator"
    by (auto simp: da_inv_def demo_allocator_def split: if_splits)
  moreover have "iq_inv demo_info"
    by (simp add: iq_inv_def demo_info_def arrays_sized_def ring_pos_def)
  moreover have "layout 0 6 (rsb_samples demo_rsb)"
    by (simp add: demo_samples demo_first_def demo_second_def new_sample_def)
  ultimately show ?thesis
    by (simp add: rsb_ready_def rsb_ok_def bytes_dropped_def bytes_written_def)
      (simp add: demo_rsb_def rsb_inv_iff demo_allocator_def bytes_dropped_def bytes_written_def)
qed

text \<open>
  C2. Reading a sample. The oldest sample with its bytes is what \<open>ReadSample\<close> delivers: the call
  succeeds without a fault, appends exactly the committed bytes to the holder (however they lie
  across the blocks), sets time, flags and duration, removes the sample from the queue, and leaves
  every other queued sample with the bytes it had. The sample is not encrypted or carries its IV in
  the metadata.
\<close>

theorem read_sample_returns_head:
  assumes "rsb_ready st" "rsb_view st = (s, bs) # rest"
    and "si_flags s AND kSampleFlagEncrypted = 0 \<or> si_iv s \<noteq> []"
    and "holder_inv h" "sh_buffer_replacement_enabled h"
  shows "\<exists>h' st'. ReadSample h st = Inr (True, h', st') \<and> holder_data h' = holder_data h @ bs \<and>
    sh_time_us h' = si_time_us s \<and> sh_flags h' = si_flags s \<and> sh_duration_us h' = si_duration_us s \<and>
    rsb_ready st' \<and> rsb_view st' = rest \<and> foreign st' = foreign st"
proof -
  obtain ss where ss: "rsb_samples st = s # ss" and bs: "bs = payload st s"
    using assms(2) by (auto simp: rsb_view_def)
  have pre: "rsb_ok st" "bytes_written st < 2 ^ 31" using assms(1) by (simp_all add: rsb_ready_def)
  show ?thesis
    by (rule ReadSample_ok [OF pre(1) ss pre(2) assms(3-5)])
      (use assms(2) pre bs in \<open>auto simp: rsb_ready_def\<close>)
qed

theorem read_sample_returns_head_witness:
  "\<exists>h' st'. ReadSample (SampleHolder_new True) demo_rsb = Inr (True, h', st') \<and>
     holder_data h' = [10, 11, 12, 13, 14] \<and> sh_time_us h' = 100 \<and>
     rsb_view st' = [(demo_second, [15])]"
proof -
  have "si_flags demo_first AND kSampleFlagEncrypted = 0"
    by (simp add: demo_first_def new_sample_def kSampleFlagEncrypted_def)
  moreover have "sh_buffer_replacement_enabled (SampleHolder_new True)" "holder_data (SampleHolder_new True) = []"
    by (simp_all add: SampleHolder_new_def holder_data_def)
  ultimately show ?thesis
    using read_sample_returns_head [OF demo_ready demo_view, of "SampleHolder_new True"]
    by (auto simp: demo_first_def new_sample_def)
qed

text \<open>
  C3. Writing a sample. \<open>AppendDataFixThis\<close> stores a non-empty prefix of its argument (so that a
  caller's loop ends) and changes no queued sample; committing those bytes appends the sample with
  exactly these bytes to the queue.
\<close>

theorem append_commit_extends:
  assumes "rsb_ready st" "src \<noteq> []" "bytes_written st + int (length src) < 2 ^ 31"
  shows "\<exists>n st'. AppendDataFixThis src st = Inr (int n, st') \<and> 0 < n \<and> n \<le> length src \<and>
    rsb_ready st' \<and> rsb_view st' = rsb_view st \<and> foreign st' = foreign st \<and>
    GetWritePosition st' = GetWritePosition st + int n \<and>
    rsb_view (CommitSample t d fl (GetWritePosition st) (int n) key iv nbc nbe st') =
      rsb_view st @ [(new_sample t d fl (GetWritePosition st) (int n) key iv nbc nbe, take n src)]"
proof -
  have ok: "rsb_ok st" and inv: "rsb_inv st"
    and lay: "layout (bytes_dropped st) (bytes_written st) (rsb_samples st)"
    using assms(1) by (simp_all add: rsb_ready_def rsb_ok_def)
  have l: "int (length src) < 2 ^ 31"
    using assms(3) rsb_inv_written [OF inv] rsb_inv_dropped [OF inv] by linarith
  obtain n st' where n: "AppendDataFixThis src st = Inr (int n, st')" "n \<le> length src"
      "appended st (take n src) st'" "0 < n"
    by (rule AppendDataFixThis_ok [OF inv l]) (use assms(2) in auto)
  have ready: "rsb_ready st'" "foreign st' = foreign st"
    using rsb_step_append [OF assms(1) n(1) assms(3)] by auto
  have S: "rsb_samples st' = rsb_samples st" and dw: "bytes_dropped st' = bytes_dropped st"
      "bytes_written st' = bytes_written st + int n" "stream st' (bytes_written st) n = take n src"
    using n by (auto simp: appended_def rsb_samples_def)
  have same: "payload st' s = payload st s" if "s \<in> set (rsb_samples st)" for s
    unfolding payload_def
    by (rule stream_cong) (use n(3) layout_member [OF lay that] in \<open>auto simp: appended_def\<close>)
  then have v: "rsb_view st' = rsb_view st" by (simp add: rsb_view_def S)
  have "rsb_view (CommitSample t d fl (bytes_written st) (int n) key iv nbc nbe st') =
      rsb_view st' @ [(new_sample t d fl (bytes_written st) (int n) key iv nbc nbe, take n src)]"
    using CommitSample_ok [of st' "bytes_written st" "int n"] ready lay dw by (simp add: rsb_ready_def S)
  with n ready v dw show ?thesis by (auto simp: GetWritePosition_def bytes_written_def)
qed

theorem append_commit_extends_witness:
  "\<exists>n st'. AppendDataFixThis [7, 8, 9] demo_rsb = Inr (int n, st') \<and> 0 < n \<and> n \<le> 3 \<and>
     rsb_view (CommitSample 180 40 1 6 (int n) None None None None st') =
       [(demo_first, [10, 11, 12, 13, 14]), (demo_second, [15]),
        (new_sample 180 40 1 6 (int n) None None None None, take n [7, 8, 9])]"
proof -
  have w: "bytes_written demo_rsb = 6" "GetWritePosition demo_rsb = 6"
    by (simp_all add: demo_rsb_def bytes_written_def GetWritePosition_def)
  from append_commit_extends [OF demo_ready, of "[7, 8, 9]" 180 40 1 None None None None]
  show ?thesis by (auto simp: w demo_view)
qed

text \<open>
  C23. Safety and no leaks. In every state that a new buffer on a fresh allocator reaches through its
  operations, the buffer's invariant holds (samples lie inside the stream one after the other, every
  block of the deque is live and belongs to it once), the blocks of the deque are all the live blocks
  of the allocator, and the allocator reports exactly their bytes.
\<close>

theorem buffer_reachable_safe:
  assumes "DefaultAllocator_new n = Inr a" "n < 2 ^ 31"
    and "rsb_reach (a, RollingSampleBuffer_new a) st"
  shows "rsb_ok st \<and> bytes_written st < 2 ^ 31 \<and> distinct (rb_data_queue (snd st)) \<and>
    dom (da_heap (fst st)) = set (rb_data_queue (snd st)) \<and>
    GetTotalBytesAllocated (fst st) =
      wrap64 (int (length (rb_data_queue (snd st))) * rb_allocation_length (snd st))"
proof -
  have a: "da_heap a = Map.empty" using assms(1) by (auto simp: DefaultAllocator_new_def split: if_splits)
  have ready: "rsb_ready st" and f: "foreign st = {}"
    using rsb_reach_ready [OF assms(3) rsb_ready_new [OF assms(1,2)]] by (auto simp: foreign_def a)
  obtain al b where st: "st = (al, b)" by (cases st)
  have inv: "rsb_inv (al, b)" using ready by (simp add: rsb_ready_def rsb_ok_def st)
  then have d: "dom (da_heap al) = set (rb_data_queue b)" "distinct (rb_data_queue b)" "da_inv al"
      "rb_allocation_length b = GetIndividualAllocationLength al"
    using f by (auto simp: foreign_def st rsb_inv_iff GetIndividualAllocationLength_def)
  have "GetTotalBytesAllocated al = wrap64 (int (length (rb_data_queue b)) * rb_allocation_length b)"
    using default_alloc.total_live [OF d(3)] d by (simp add: distinct_card)
  with ready d show ?thesis by (simp add: st rsb_ready_def)
qed

theorem buffer_reachable_safe_witness:
  "\<exists>a st. DefaultAllocator_new 4 = Inr a \<and> rsb_reach (a, RollingSampleBuffer_new a) st \<and>
     rb_data_queue (snd st) \<noteq> [] \<and> dom (da_heap (fst st)) = set (rb_data_queue (snd st))"
proof -
  define a where "a = \<lparr>da_individual_allocation_size = 4, da_allocated_count = 0, da_heap = Map.empty, da_next = 0\<rparr>"
  have new: "DefaultAllocator_new 4 = Inr a" by (simp add: DefaultAllocator_new_def a_def)
  let ?st0 = "(a, RollingSampleBuffer_new a)"
  have ready: "rsb_ready ?st0" by (rule rsb_ready_new [OF new]) simp
  then have inv: "rsb_inv ?st0" by (simp add: rsb_ready_def rsb_ok_def)
  have w: "bytes_written ?st0 = 0" by (simp add: bytes_written_def RollingSampleBuffer_new_def Let_def)
  obtain n st where n: "AppendDataFixThis [1, 2] ?st0 = Inr (int n, st)" "appended ?st0 (take n [1, 2]) st" "0 < n"
    by (rule AppendDataFixThis_ok [OF inv, of "[1, 2]"]) auto
  have reach: "rsb_reach ?st0 st"
    by (rule rsb_reach.more [OF rsb_reach.start rsb_step.append [OF n(1)]]) (simp add: w)
  have "rb_data_queue (snd st) \<noteq> []"
  proof
    assume "rb_data_queue (snd st) = []"
    moreover have "rsb_inv st" "bytes_written st \<noteq> bytes_dropped st"
      using n w by (auto simp: appended_def bytes_dropped_def RollingSampleBuffer_new_def Let_def)
    ultimately show False by (cases st) (auto simp: rsb_inv_iff bytes_dropped_def bytes_written_def)
  qed
  moreover have "dom (da_heap (fst st)) = set (rb_data_queue (snd st))"
    using buffer_reachable_safe [OF new _ reach] by simp
  ultimately show ?thesis using new reach by blast
qed

text \<open>
  Seeking in the buffer. \<open>SkipToKeyframeBefore\<close> never faults; when it reports success, the samples
  from some keyframe on are kept with their bytes and those before it are gone, the keyframe is the
  last one of the leading run of samples not later than the target; otherwise nothing has changed.
\<close>

theorem seek_to_keyframe:
  assumes "rsb_ready st"
  shows "\<exists>found st'. SkipToKeyframeBefore t st = Inr (found, st') \<and> rsb_ready st' \<and>
    (if found
     then \<exists>k < upto_time t (rsb_samples st). rsb_view st' = drop k (rsb_view st) \<and>
            is_sync (rsb_samples st ! k) \<and>
            (\<forall>j. k < j \<longrightarrow> j < upto_time t (rsb_samples st) \<longrightarrow> \<not> is_sync (rsb_samples st ! j))
     else st' = st)"
proof -
  have pre: "rsb_ok st" "bytes_written st < 2 ^ 31" using assms by (simp_all add: rsb_ready_def)
  show ?thesis
    by (rule SkipToKeyframeBefore_ok [OF pre, of t]) (use pre in \<open>auto simp: rsb_ready_def\<close>)
qed

theorem seek_to_keyframe_witness:
  "\<exists>st'. SkipToKeyframeBefore 140 demo_rsb = Inr (True, st') \<and> rsb_view st' = [(demo_second, [15])]"
proof -
  have up: "upto_time 140 (rsb_samples demo_rsb) = 2"
    by (simp add: upto_time_def demo_samples demo_first_def demo_second_def new_sample_def)
  have sync: "is_sync (rsb_samples demo_rsb ! 1)"
    by (simp add: demo_samples is_sync_def demo_second_def new_sample_def kSampleFlagSync_def)
  have found: "\<exists>st'. SkipToKeyframeBefore 140 demo_rsb = Inr (True, st')"
    by (simp add: SkipToKeyframeBefore_def demo_rsb_def InfoQueue_SkipToKeyframeBefore_def demo_info_def
        last_write_index_def keyframe_scan.simps arr_get_def kSampleFlagSync_def DropDownstreamTo_def in_int32_def)
  from seek_to_keyframe [OF demo_ready, of 140] found obtain k st' where k: "k < 2"
      "SkipToKeyframeBefore 140 demo_rsb = Inr (True, st')" "rsb_view st' = drop k (rsb_view demo_rsb)"
      "\<forall>j. k < j \<longrightarrow> j < 2 \<longrightarrow> \<not> is_sync (rsb_samples demo_rsb ! j)"
    by (auto simp: up)
  with sync have "k = 1" by (metis One_nat_def less_2_cases less_one one_less_numeral_iff semiring_norm(76))
  with k show ?thesis by (simp add: demo_view)
qed

text \<open>
  Discarding from the write side. A discard from index \<open>i\<close> that leaves part of the stream keeps
  exactly the samples before \<open>i\<close>, with their bytes, moves the write position to the cut, and returns
  the blocks after it to the allocator.
\<close>

theorem discard_upstream_cuts:
  assumes "rsb_ready st" "GetReadIndex st \<le> i" "i < GetWriteIndex st" "bytes_dropped st < cut_position i st"
  shows "\<exists>st'. DiscardUpstreamSamples i st = Inr st' \<and> rsb_ready st' \<and>
    rsb_view st' = take (nat (i - GetReadIndex st)) (rsb_view st) \<and>
    GetWritePosition st' = si_offset (rsb_samples st ! nat (i - GetReadIndex st)) \<and>
    GetReadIndex st' = GetReadIndex st \<and> foreign st' = foreign st"
proof -
  have pre: "rsb_ok st" "bytes_written st < 2 ^ 31" using assms by (simp_all add: rsb_ready_def)
  have iq: "iq_inv (rb_info_queue (snd st))" using pre by (simp add: rsb_ok_def)
  have le: "i \<le> GetWriteIndex st" and some: "i < GetWriteIndex st \<or> rsb_samples st \<noteq> [] \<and> GetReadIndex st \<noteq> 0"
    using assms(3) by auto
  have "cut_position i st = si_offset (rsb_samples st ! nat (i - GetReadIndex st))"
    using DiscardUpstreamSamples_fifo [OF iq _ _ surjective_pairing, of i] assms(2,3)
    by (simp add: cut_position_def GetReadIndex_def GetWriteIndex_def rsb_samples_def)
  moreover have "cut_position i st < 2 ^ 31" using cut_layout [OF pre(1) assms(2) le some] pre(2) by simp
  moreover obtain st' where "DiscardUpstreamSamples i st = Inr st'" "rsb_ok st'"
      "rsb_view st' = take (nat (i - GetReadIndex st)) (rsb_view st)"
      "bytes_written st' = cut_position i st" "foreign st' = foreign st" "GetReadIndex st' = GetReadIndex st"
    by (rule DiscardUpstreamSamples_ok [OF pre(1) assms(2) le some assms(4) pre(2)])
  ultimately show ?thesis by (simp add: rsb_ready_def GetWritePosition_def bytes_written_def)
qed

theorem discard_upstream_cuts_witness:
  "\<exists>st'. DiscardUpstreamSamples 1 demo_rsb = Inr st' \<and>
     rsb_view st' = [(demo_first, [10, 11, 12, 13, 14])] \<and> GetWritePosition st' = 5"
proof -
  have h: "GetReadIndex demo_rsb = 0" "GetWriteIndex demo_rsb = 2" "bytes_dropped demo_rsb = 0"
      "cut_position 1 demo_rsb = 5"
    by (simp_all add: GetReadIndex_def GetWriteIndex_def demo_rsb_def demo_info_def bytes_dropped_def
        InfoQueue_GetReadIndex_def InfoQueue_GetWriteIndex_def cut_position_def
        InfoQueue_DiscardUpstreamSamples_def arr_get_def)
  from discard_upstream_cuts [OF demo_ready, of 1] show ?thesis
    by (auto simp: h demo_view demo_samples demo_second_def new_sample_def)
qed

lemma DropUpstreamFrom_start:
  assumes "rsb_inv (a, b)" and d: "rb_total_bytes_dropped b' = rb_total_bytes_dropped b"
      "rb_allocation_length b' = rb_allocation_length b" "rb_data_queue b' = rb_data_queue b"
  shows "DropUpstreamFrom (rb_total_bytes_dropped b) (a, b') = Inl Undefined_access"
proof -
  have "narrow32 0 = 0" by (simp add: in_int32_def)
  then show ?thesis
    using rsb_inv_len [OF assms(1)] by (simp add: DropUpstreamFrom_def Let_def d pop_back_blocks_eq)
qed

lemma discard_nothing_unread:
  assumes "rsb_ready st" "rsb_samples st \<noteq> []" "GetReadIndex st = 0" "bytes_dropped st = 0"
  shows "DiscardUpstreamSamples (GetWriteIndex st) st = Inl Undefined_access"
proof -
  obtain a b where st: "st = (a, b)" by (cases st)
  have inv: "rsb_inv (a, b)" using assms(1) by (simp add: rsb_ready_def rsb_ok_def st)
  have "InfoQueue_DiscardUpstreamSamples (rb_info_queue b) (GetWriteIndex st) = (0, rb_info_queue b)"
    using assms(3) by (simp add: InfoQueue_DiscardUpstreamSamples_def GetWriteIndex_def GetReadIndex_def st
        InfoQueue_GetReadIndex_def)
  moreover have "rb_total_bytes_dropped b = 0" using assms(4) by (simp add: bytes_dropped_def st)
  ultimately show ?thesis
    using DropUpstreamFrom_start [OF inv, of "b\<lparr>rb_info_queue := rb_info_queue b, rb_total_bytes_written := 0\<rparr>"]
    by (simp add: DiscardUpstreamSamples_def st)
qed

text \<open>
  A defect of the discard. Discarding nothing is meant to change nothing. While no sample has been
  read yet, \<open>InfoQueue::DiscardUpstreamSamples\<close> takes a read index of zero to mean that the queue is
  empty and returns position 0; the buffer then drops every block of the queued samples and asks an
  empty deque for its last element.
\<close>

theorem discard_nothing_unread_faults:
  assumes "rsb_ready st" "rsb_samples st \<noteq> []" "GetReadIndex st = 0" "bytes_dropped st = 0"
  shows "DiscardUpstreamSamples (GetWriteIndex st) st = Inl Undefined_access"
  by (rule discard_nothing_unread [OF assms])

theorem discard_nothing_unread_faults_witness:
  "rsb_view demo_rsb \<noteq> [] \<and> GetWriteIndex demo_rsb = 2 \<and>
   DiscardUpstreamSamples 2 demo_rsb = Inl Undefined_access"
proof -
  have h: "GetReadIndex demo_rsb = 0" "GetWriteIndex demo_rsb = 2" "bytes_dropped demo_rsb = 0"
    by (simp_all add: GetReadIndex_def GetWriteIndex_def demo_rsb_def demo_info_def bytes_dropped_def
        InfoQueue_GetReadIndex_def InfoQueue_GetWriteIndex_def)
  from discard_nothing_unread_faults [OF demo_ready _ h(1,3)] show ?thesis
    by (simp add: h demo_samples)
qed

text \<open>The \<open>int32_t\<close> accessors of the 64-bit sample offset.\<close>

lemma offset_accessors_iff: "GetOffset (SetOffset x e) = x \<longleftrightarrow> in_int32 x"
proof
  assume "GetOffset (SetOffset x e) = x"
  then show "in_int32 x" using narrow32_bounds [of "ex_offset (SetOffset x e)"] by (simp add: GetOffset_def)
qed (simp add: GetOffset_def SetOffset_def)

text \<open>
  Positions are kept through \<open>int32_t\<close>: a sample whose data starts at or after \<open>2 ^ 31\<close> bytes of
  the stream is read from a different position than the one it was committed at.
\<close>

theorem peeked_offset_truncated:
  assumes "iq_inv q" "iq_samples q = s # ss"
  shows "GetOffset (snd (snd (InfoQueue_PeekSample q h e))) = si_offset s \<longleftrightarrow> in_int32 (si_offset s)"
proof -
  have "GetOffset (snd (snd (InfoQueue_PeekSample q h e))) = GetOffset (SetOffset (si_offset s) e)"
    using PeekSample_head [OF assms(1), of h e] assms(2)
    by (simp add: fill_extras_def GetOffset_def SetOffset_def Let_def)
  then show ?thesis by (simp add: offset_accessors_iff)
qed

theorem peeked_offset_truncated_witness:
  "GetOffset (snd (snd (InfoQueue_PeekSample (demo_info\<lparr>iq_offsets := [3000000000, 3000000005, 0, 0]\<rparr>)
     (SampleHolder_new False) SampleExtrasHolder_new))) \<noteq> 3000000000"
proof -
  let ?q = "demo_info\<lparr>iq_offsets := [3000000000, 3000000005, 0, 0]\<rparr>"
  have "iq_inv ?q" by (simp add: iq_inv_def demo_info_def arrays_sized_def ring_pos_def)
  moreover have "iq_samples ?q = [slot ?q 0, slot ?q 1]"
    by (simp add: iq_samples_def demo_info_def ring_pos_def numeral_2_eq_2)
  moreover have "si_offset (slot ?q 0) = 3000000000" by (simp add: slot_def demo_info_def arr_get_def)
  ultimately show ?thesis
    using peeked_offset_truncated [of ?q "slot ?q 0" "[slot ?q 1]"] by (simp add: in_int32_def)
qed

lemma scratch_sink_all:
  assumes "0 \<le> pos" "pos + int (length (concat pieces)) \<le> int (length scr)"
  shows "sink_all scratch_sink (scr, pos) pieces =
    Inr (take (nat pos) scr @ concat pieces @ drop (nat pos + length (concat pieces)) scr,
         pos + int (length (concat pieces)))"
  using assms
proof (induction pieces arbitrary: scr pos)
  case Nil
  then show ?case by simp
next
  case (Cons c cs)
  let ?scr = "take (nat pos) scr @ c @ drop (nat pos + length c) scr"
  have len: "length ?scr = length scr" using Cons.prems by simp
  have n: "nat (pos + int (length c)) = nat pos + length c" using Cons.prems by simp
  have l1: "nat pos + length c \<le> length scr" "nat pos \<le> length scr" using Cons.prems by simp_all
  have "sink_all scratch_sink (?scr, pos + int (length c)) cs =
      Inr (take (nat pos + length c) ?scr @ concat cs @ drop (nat pos + length c + length (concat cs)) ?scr,
           pos + int (length c) + int (length (concat cs)))"
    using Cons.IH [of "pos + int (length c)" ?scr] Cons.prems len by (simp add: n)
  moreover have "take (nat pos + length c) ?scr = take (nat pos) scr @ c"
      "drop (nat pos + length c + length (concat cs)) ?scr = drop (nat pos + length c + length (concat cs)) scr"
    using l1 by (simp_all add: min_absorb2 add_ac)
  moreover have "scratch_sink (scr, pos) c = Inr (?scr, pos + int (length c))"
    using Cons.prems by (simp add: scratch_sink_def)
  ultimately show ?case by (simp add: add.assoc)
qed

text \<open>A read to the scratch area puts the bytes of the stream at the scratch position and advances it.\<close>

lemma ReadDataToScratch_ok:
  assumes ready: "rsb_ready st" and rng: "bytes_dropped st \<le> x" "x + int n \<le> bytes_written st"
    and scr: "0 \<le> rb_scratch_position (snd st)"
      "rb_scratch_position (snd st) + int n \<le> int (length (rb_scratch (snd st)))"
  obtains st1 where "ReadDataToScratch x (int n) st = Inr st1"
    "rsb_inv st1" "bytes_written st1 = bytes_written st" "bytes_dropped st1 \<le> x + int n"
    "\<And>y. x + int n \<le> y \<Longrightarrow> y < bytes_written st \<Longrightarrow> byte_at st1 y = byte_at st y"
    "rb_scratch_position (snd st1) = rb_scratch_position (snd st) + int n"
    "rb_scratch (snd st1) = take (nat (rb_scratch_position (snd st))) (rb_scratch (snd st)) @ stream st x n
       @ drop (nat (rb_scratch_position (snd st)) + n) (rb_scratch (snd st))"
proof -
  let ?b = "snd st"
  have inv: "rsb_inv st" and small: "bytes_written st < 2 ^ 31" using ready by (simp_all add: rsb_ready_def rsb_ok_def)
  have i32: "in_int32 (x + int n - bytes_dropped st)"
    using rng small rsb_inv_dropped [OF inv] by (simp add: in_int32_def)
  obtain pieces st' where rd: "concat pieces = stream st x (nat (int n))" "downstream st (x + int n) st'"
      "bytes_dropped st' \<le> x + int n"
      "\<And>sink (s :: byte list \<times> int). read_loop sink s x (int n) st =
         and_then (sink_all sink s pieces) (\<lambda>s'. Inr (s', st'))"
    by (rule read_loop_ok [where 's = "byte list \<times> int", OF inv rng(1) of_nat_0_le_iff rng(2) i32])
      (rule that)
  obtain a' b' where st': "st' = (a', b')" by (cases st')
  define scr1 where "scr1 = take (nat (rb_scratch_position ?b)) (rb_scratch ?b) @ stream st x n
       @ drop (nat (rb_scratch_position ?b) + n) (rb_scratch ?b)"
  let ?st1 = "(a', b'\<lparr>rb_scratch := scr1, rb_scratch_position := rb_scratch_position ?b + int n\<rparr>)"
  have "sink_all scratch_sink (rb_scratch ?b, rb_scratch_position ?b) pieces =
      Inr (scr1, rb_scratch_position ?b + int n)"
    using scratch_sink_all [of "rb_scratch_position ?b" pieces "rb_scratch ?b"] scr rd(1)
    by (simp add: scr1_def)
  then have "ReadDataToScratch x (int n) st = Inr ?st1"
    by (simp add: ReadDataToScratch_def rd(4) st')
  moreover have "rsb_inv ?st1" using rd(2) by (simp add: downstream_def st' rsb_inv_iff)
  moreover have "bytes_written ?st1 = bytes_written st"
    using downstream_written [OF rd(2)] by (simp add: st' bytes_written_def)
  moreover have "bytes_dropped ?st1 \<le> x + int n" using rd(3) by (simp add: st' bytes_dropped_def)
  moreover have "byte_at ?st1 y = byte_at st y" if "x + int n \<le> y" "y < bytes_written st" for y
  proof -
    have "byte_at ?st1 y = byte_at st' y" by (simp add: st' byte_at_def)
    with that rd(2,3) show ?thesis by (simp add: downstream_def)
  qed
  ultimately show thesis using that [of ?st1] by (simp add: scr1_def)
qed

text \<open>
  A defect of \<open>ReadEncryptionData\<close>. It reads the signal byte to the scratch area, then the two
  bytes of the subsample count, and only then resets the scratch position: on a buffer that has not
  read encryption data before, the count it obtains is the signal byte followed by the first byte of
  the count, not the count.
\<close>

theorem subsample_count_misread:
  assumes "rsb_ready st" "rb_scratch_position (snd st) = 0" "3 \<le> length (rb_scratch (snd st))"
    and "bytes_dropped st \<le> x" "x + 1 \<le> y" "y + 2 \<le> bytes_written st"
  shows "\<exists>st1 st2. ReadDataToScratch x 1 st = Inr st1 \<and> ReadDataToScratch y 2 st1 = Inr st2 \<and>
    arr_get (rb_scratch (snd st1)) 0 = byte_at st x \<and>
    fst (ReadUnsignedShortFromScratch ((snd st2)\<lparr>rb_scratch_position := 0\<rparr>)) =
      uint (byte_at st x) * 2 ^ 8 + uint (byte_at st y)"
proof -
  let ?scr = "rb_scratch (snd st)"
  obtain st1 where st1: "ReadDataToScratch x (int 1) st = Inr st1" "rsb_inv st1"
      "bytes_written st1 = bytes_written st" "bytes_dropped st1 \<le> x + int 1"
      "\<And>z. x + int 1 \<le> z \<Longrightarrow> z < bytes_written st \<Longrightarrow> byte_at st1 z = byte_at st z"
      "rb_scratch_position (snd st1) = rb_scratch_position (snd st) + int 1"
      "rb_scratch (snd st1) = take (nat (rb_scratch_position (snd st))) ?scr @ stream st x 1
         @ drop (nat (rb_scratch_position (snd st)) + 1) ?scr"
    by (rule ReadDataToScratch_ok [OF assms(1,4), of 1]) (use assms in auto)
  have pos1: "rb_scratch_position (snd st1) = 1" using st1(6) assms(2) by simp
  have scr1: "rb_scratch (snd st1) = byte_at st x # drop 1 ?scr" using st1(7) assms(2) by (simp add: stream_def)
  have small: "bytes_written st < 2 ^ 31" using assms(1) by (simp add: rsb_ready_def)
  have i32: "in_int32 (y + 2 - bytes_dropped st1)"
    using assms(4-6) small rsb_inv_dropped [OF st1(2)] st1(4) by (simp add: in_int32_def)
  have d1: "bytes_dropped st1 \<le> y" "y + 2 \<le> bytes_written st1" using st1(3,4) assms(5,6) by simp_all
  obtain pieces st' where rd: "concat pieces = stream st1 y (nat 2)"
      "\<And>sink (s :: byte list \<times> int). read_loop sink s y 2 st1 =
         and_then (sink_all sink s pieces) (\<lambda>s'. Inr (s', st'))"
    by (rule read_loop_ok [where 's = "byte list \<times> int", OF st1(2) d1(1) zero_le_numeral d1(2) i32])
      (rule that)
  have l: "length (concat pieces) = 2" using rd(1) by simp
  have sk: "sink_all scratch_sink (rb_scratch (snd st1), 1) pieces =
      Inr (byte_at st x # stream st1 y 2 @ drop 3 ?scr, 3)"
    using scratch_sink_all [of 1 pieces "rb_scratch (snd st1)"] assms(3) rd(1) l
    by (simp add: scr1 numeral_3_eq_3)
  obtain a' b' where ab: "st' = (a', b')" by (cases st')
  let ?st2 = "(a', b'\<lparr>rb_scratch := byte_at st x # stream st1 y 2 @ drop 3 ?scr, rb_scratch_position := 3\<rparr>)"
  have r2: "ReadDataToScratch y 2 st1 = Inr ?st2"
    using sk by (simp add: ReadDataToScratch_def pos1 rd(2) ab)
  have "fst (ReadUnsignedShortFromScratch ((snd ?st2)\<lparr>rb_scratch_position := 0\<rparr>)) =
      uint (byte_at st x) * 2 ^ 8 + uint (byte_at st y)"
    using st1(5) [of y] assms(5,6)
    by (simp add: ReadUnsignedShortFromScratch_def Let_def arr_get_def stream_def numeral_2_eq_2)
  moreover have "arr_get (rb_scratch (snd st1)) 0 = byte_at st x" by (simp add: scr1 arr_get_def)
  ultimately show ?thesis using st1(1) r2 by auto
qed

theorem subsample_count_misread_witness:
  "\<exists>st1 st2. ReadDataToScratch 0 1 demo_rsb = Inr st1 \<and> ReadDataToScratch 2 2 st1 = Inr st2 \<and>
     fst (ReadUnsignedShortFromScratch ((snd st2)\<lparr>rb_scratch_position := 0\<rparr>)) = 10 * 256 + 12"
proof -
  have h: "rb_scratch_position (snd demo_rsb) = 0" "3 \<le> length (rb_scratch (snd demo_rsb))"
      "bytes_dropped demo_rsb \<le> 0" "2 + 2 \<le> bytes_written demo_rsb"
      "byte_at demo_rsb 0 = 10" "byte_at demo_rsb 2 = 12"
    by (simp_all add: demo_rsb_def kInitialScratchSize_def bytes_dropped_def bytes_written_def byte_at_def
        demo_allocator_def arr_get_def)
  from subsample_count_misread [OF demo_ready h(1-3) _ h(4)] h(5,6) show ?thesis by auto
qed

definition RESULT_END_OF_INPUT :: int where
  "RESULT_END_OF_INPUT = -3"

text \<open>
  A defect of the append from a data source. A data source reports the end of its input as
  \<open>upstream::RESULT_END_OF_INPUT\<close>, which the append does not recognise (it compares with
  \<open>util::kResultEndOfInput\<close>): it reports success, and the write position moves back by three bytes.
\<close>

theorem end_of_input_not_recognised:
  assumes "rsb_ready st" "\<And>n. source_read n = (RESULT_END_OF_INPUT, [])"
  shows "\<exists>st'. AppendData_source source_read len allow_eof st = Inr (True, Some (-3), st') \<and>
    GetWritePosition st' = GetWritePosition st - 3"
proof -
  have inv: "rsb_inv st" using assms(1) by (simp add: rsb_ready_def rsb_ok_def)
  obtain m a b where prep: "PrepareForAppend (narrow32 len) st = (m, (a, b))"
    by (cases "PrepareForAppend (narrow32 len) st") auto
  note pr = PrepareForAppend_ok [OF inv prep]
  then have inv1: "rsb_inv (a, b)" and ne: "rb_data_queue b \<noteq> []" by (simp_all add: appended_def)
  have w: "rb_total_bytes_written b = rb_total_bytes_written (snd st)"
    using pr by (simp add: appended_def bytes_written_def)
  have "last (rb_data_queue b) \<in> dom (da_heap a)"
    using inv1 last_in_set [OF ne] by (simp add: rsb_inv_iff subset_iff)
  then obtain blk where blk: "da_heap a (last (rb_data_queue b)) = Some blk" by auto
  then have "int (length blk) = rb_allocation_length b" using inv1 by (auto simp: rsb_inv_iff da_inv_def)
  then have "\<exists>a'. copy_in [] (a, b) = Inr (a', b)"
    using inv1 ne blk by (auto simp: copy_in_def rsb_inv_iff poke_def)
  then obtain a' where "copy_in [] (a, b) = Inr (a', b)" by blast
  then show ?thesis
    by (simp add: AppendData_source_def prep assms(2) RESULT_END_OF_INPUT_def kResultEndOfInput_def
        advance_def GetWritePosition_def w)
qed

theorem end_of_input_not_recognised_witness:
  "\<exists>st'. AppendData_source (\<lambda>n. (RESULT_END_OF_INPUT, [])) 8 False demo_rsb = Inr (True, Some (-3), st') \<and>
     GetWritePosition st' = 3"
proof -
  have "GetWritePosition demo_rsb = 6" by (simp add: demo_rsb_def GetWritePosition_def)
  with end_of_input_not_recognised [OF demo_ready, of "\<lambda>n. (RESULT_END_OF_INPUT, [])" 8 False]
  show ?thesis by simp
qed

end
