(* ===== verification/Default_Track_Output.thy ===== *)
theory Default_Track_Output
  imports Sample_Buffer_Contract
begin

text \<open>
  The track output (\<open>extractor/default_track_output.cc\<close>): the sample buffer as the loading side and
  the renderers see it. Reading starts at a keyframe, stops at a configured splice time, and the
  largest timestamp written so far is kept. The \<open>MediaFormat\<close> it stores is opaque here (the type
  parameter \<open>'f\<close>); nothing but its presence is looked at.

  The loops \<open>while (PeekSample && condition) SkipSample\<close> of three operations are one
  \<open>skip_while\<close>, with a flag that is raised when a sample is skipped. The loop could run forever
  (\<open>None\<close>); that it ends is proved.
\<close>

section \<open>State\<close>

record 'f track_output =
  to_rolling_buffer :: rolling_sample_buffer
  to_sample_info_holder :: sample_holder
  to_need_key_frame :: bool
  to_last_read_time_us :: int
  to_splice_out_time_us :: int
  to_largest_parsed_timestamp_us :: int
  to_format :: "'f option"

type_synonym 'f track_state = "default_allocator \<times> 'f track_output"

definition kInvalidTimestamp :: int where
  "kInvalidTimestamp = - (2 ^ 63)"

definition DefaultTrackOutput_new :: "default_allocator \<Rightarrow> 'f track_output" where
  "DefaultTrackOutput_new a =
     \<lparr>to_rolling_buffer = RollingSampleBuffer_new a, to_sample_info_holder = SampleHolder_new False,
      to_need_key_frame = True, to_last_read_time_us = kInvalidTimestamp,
      to_splice_out_time_us = kInvalidTimestamp, to_largest_parsed_timestamp_us = kInvalidTimestamp,
      to_format = None\<rparr>"

text \<open>The buffer inside the track output, and the track output with another one.\<close>

definition buffer_of :: "'f track_state \<Rightarrow> rsb" where
  "buffer_of s = (fst s, to_rolling_buffer (snd s))"

definition with_buffer :: "rsb \<Rightarrow> 'f track_output \<Rightarrow> 'f track_state" where
  "with_buffer st o1 = (fst st, o1\<lparr>to_rolling_buffer := snd st\<rparr>)"

section \<open>Operations\<close>

definition TrackOutput_Clear :: "'f track_state \<Rightarrow> 'f track_state" where
  "TrackOutput_Clear s =
     with_buffer (Clear (buffer_of s))
       ((snd s)\<lparr>to_need_key_frame := True, to_last_read_time_us := kInvalidTimestamp,
          to_splice_out_time_us := kInvalidTimestamp, to_largest_parsed_timestamp_us := kInvalidTimestamp\<rparr>)"

definition TrackOutput_GetWriteIndex :: "'f track_state \<Rightarrow> int" where
  "TrackOutput_GetWriteIndex s = GetWriteIndex (buffer_of s)"

definition TrackOutput_DiscardUpstreamSamples :: "int \<Rightarrow> 'f track_state \<Rightarrow> 'f track_state result" where
  "TrackOutput_DiscardUpstreamSamples discard_from_index s =
     and_then (DiscardUpstreamSamples discard_from_index (buffer_of s)) (\<lambda>st.
       (let (found, h, st') = PeekSample (to_sample_info_holder (snd s)) st
        in Inr (with_buffer st' ((snd s)\<lparr>to_sample_info_holder := h,
             to_largest_parsed_timestamp_us := (if found then sh_time_us h else kInvalidTimestamp)\<rparr>))))"

definition TrackOutput_GetReadIndex :: "'f track_state \<Rightarrow> int" where
  "TrackOutput_GetReadIndex s = GetReadIndex (buffer_of s)"

definition HasFormat :: "'f track_state \<Rightarrow> bool" where
  "HasFormat s \<longleftrightarrow> to_format (snd s) \<noteq> None"

definition GetLargestParsedTimestampUs :: "'f track_state \<Rightarrow> int" where
  "GetLargestParsedTimestampUs s = to_largest_parsed_timestamp_us (snd s)"

partial_function (option) skip_while ::
  "(sample_holder \<Rightarrow> bool) \<Rightarrow> sample_holder \<Rightarrow> bool \<Rightarrow> rsb \<Rightarrow>
     (bool \<times> bool \<times> sample_holder \<times> rsb) result option" where
  "skip_while c h skipped st =
     (case PeekSample h st of (found, h', st') \<Rightarrow>
        if found \<and> c h'
        then (case SkipSample st' of Inl e \<Rightarrow> Some (Inl e) | Inr st'' \<Rightarrow> skip_while c h' True st'')
        else Some (Inr (found, skipped, h', st')))"

definition AdvanceToEligibleSample :: "'f track_state \<Rightarrow> (bool \<times> 'f track_state) result option" where
  "AdvanceToEligibleSample s =
     (case skip_while (\<lambda>h. to_need_key_frame (snd s) \<and> \<not> IsSyncFrame h)
             (to_sample_info_holder (snd s)) False (buffer_of s) of
        None \<Rightarrow> None
      | Some (Inl e) \<Rightarrow> Some (Inl e)
      | Some (Inr (have_next, _, h, st)) \<Rightarrow>
          Some (Inr (have_next \<and> \<not> (to_splice_out_time_us (snd s) \<noteq> kInvalidTimestamp \<and>
                                     sh_time_us h \<ge> to_splice_out_time_us (snd s)),
                     with_buffer st ((snd s)\<lparr>to_sample_info_holder := h\<rparr>))))"

definition IsEmpty :: "'f track_state \<Rightarrow> (bool \<times> 'f track_state) result option" where
  "IsEmpty s =
     (case AdvanceToEligibleSample s of
        None \<Rightarrow> None
      | Some (Inl e) \<Rightarrow> Some (Inl e)
      | Some (Inr (found, s')) \<Rightarrow> Some (Inr (\<not> found, s')))"

definition GetSample ::
  "sample_holder \<Rightarrow> 'f track_state \<Rightarrow> (bool \<times> sample_holder \<times> 'f track_state) result option" where
  "GetSample holder s =
     (case AdvanceToEligibleSample s of
        None \<Rightarrow> None
      | Some (Inl e) \<Rightarrow> Some (Inl e)
      | Some (Inr (found_eligible_sample, s1)) \<Rightarrow>
          if \<not> found_eligible_sample then Some (Inr (False, holder, s1))
          else Some (and_then (ReadSample holder (buffer_of s1)) (\<lambda>(ok, h, st).
            if ok then Inr (True, h, with_buffer st ((snd s1)\<lparr>to_need_key_frame := False,
                                        to_last_read_time_us := sh_time_us h\<rparr>))
            else Inr (False, h, with_buffer st (snd s1)))))"

text \<open>The flag that \<open>DiscardUntil\<close> raises in its loop is \<open>need_key_frame_\<close>.\<close>

definition DiscardUntil :: "int \<Rightarrow> 'f track_state \<Rightarrow> 'f track_state result option" where
  "DiscardUntil time_us s =
     (case skip_while (\<lambda>h. sh_time_us h < time_us) (to_sample_info_holder (snd s))
             (to_need_key_frame (snd s)) (buffer_of s) of
        None \<Rightarrow> None
      | Some (Inl e) \<Rightarrow> Some (Inl e)
      | Some (Inr (_, need_key_frame, h, st)) \<Rightarrow>
          Some (Inr (with_buffer st ((snd s)\<lparr>to_sample_info_holder := h,
            to_need_key_frame := need_key_frame, to_last_read_time_us := kInvalidTimestamp\<rparr>))))"

definition TrackOutput_SkipToKeyframeBefore :: "int \<Rightarrow> 'f track_state \<Rightarrow> (bool \<times> 'f track_state) result" where
  "TrackOutput_SkipToKeyframeBefore time_us s =
     and_then (SkipToKeyframeBefore time_us (buffer_of s)) (\<lambda>(found, st).
       Inr (found, with_buffer st (snd s)))"

text \<open>
  The splice: this output looks at its own head, then skips in the next output. Both peeks of the
  next output use this output's \<open>sample_info_holder_\<close>.
\<close>

definition ConfigureSpliceTo ::
  "'f track_state \<Rightarrow> 'f track_state \<Rightarrow> (bool \<times> 'f track_state \<times> 'f track_state) result option" where
  "ConfigureSpliceTo s next_queue =
     (if to_splice_out_time_us (snd s) \<noteq> kInvalidTimestamp then Some (Inr (True, s, next_queue))
      else
        (let (found, h, st) = PeekSample (to_sample_info_holder (snd s)) (buffer_of s);
             first_possible_splice_time =
               (if found then sh_time_us h else to_last_read_time_us (snd s) + 1)
         in case skip_while (\<lambda>h'. sh_time_us h' < first_possible_splice_time \<or> \<not> IsSyncFrame h')
                   h False (buffer_of next_queue) of
              None \<Rightarrow> None
            | Some (Inl e) \<Rightarrow> Some (Inl e)
            | Some (Inr (_, _, h1, nst)) \<Rightarrow>
                (let (found2, h2, nst2) = PeekSample h1 nst;
                     s1 = with_buffer st ((snd s)\<lparr>to_sample_info_holder := h2\<rparr>);
                     n1 = with_buffer nst2 (snd next_queue)
                 in if found2
                    then Some (Inr (True, (fst s1, (snd s1)\<lparr>to_splice_out_time_us := sh_time_us h2\<rparr>), n1))
                    else Some (Inr (False, s1, n1)))))"

definition WriteSampleData :: "byte list \<Rightarrow> 'f track_state \<Rightarrow> 'f track_state result" where
  "WriteSampleData src s = and_then (AppendData src (buffer_of s)) (\<lambda>st. Inr (with_buffer st (snd s)))"

definition WriteSampleDataFixThis :: "byte list \<Rightarrow> 'f track_state \<Rightarrow> (int \<times> 'f track_state) result" where
  "WriteSampleDataFixThis src s =
     and_then (AppendDataFixThis src (buffer_of s)) (\<lambda>(n, st). Inr (n, with_buffer st (snd s)))"

definition GiveFormat :: "'f \<Rightarrow> 'f track_state \<Rightarrow> 'f track_state" where
  "GiveFormat fmt s = (fst s, (snd s)\<lparr>to_format := Some fmt\<rparr>)"

text \<open>
  The position is computed in \<open>size_t\<close> and converted back to \<open>int64_t\<close>; the size is narrowed to the
  \<open>int32_t\<close> parameter of \<open>CommitSample\<close>.
\<close>

definition WriteSampleMetadata ::
  "int \<Rightarrow> int \<Rightarrow> int \<Rightarrow> int \<Rightarrow> int \<Rightarrow> string option \<Rightarrow> byte list option \<Rightarrow> int list option \<Rightarrow>
     int list option \<Rightarrow> 'f track_state \<Rightarrow> 'f track_state" where
  "WriteSampleMetadata time_us duration_us flags sample_size offset encryption_key_id iv num_bytes_clear
       num_bytes_enc s =
     with_buffer
       (CommitSample time_us duration_us flags
          (signed_take_bit 63 (GetWritePosition (buffer_of s) - sample_size - offset))
          (narrow32 sample_size) encryption_key_id iv num_bytes_clear num_bytes_enc (buffer_of s))
       ((snd s)\<lparr>to_largest_parsed_timestamp_us := max (to_largest_parsed_timestamp_us (snd s)) time_us\<rparr>)"

section \<open>The loops end\<close>

definition track_ready :: "'f track_state \<Rightarrow> bool" where
  "track_ready s \<longleftrightarrow> rsb_ready (buffer_of s)"

definition track_view :: "'f track_state \<Rightarrow> (sample_info \<times> byte list) list" where
  "track_view s = rsb_view (buffer_of s)"

lemma buffer_of_with_buffer [simp]: "buffer_of (with_buffer st o1) = st"
  by (simp add: buffer_of_def with_buffer_def)

lemma snd_with_buffer [simp]:
  "to_need_key_frame (snd (with_buffer st o1)) = to_need_key_frame o1"
  "to_sample_info_holder (snd (with_buffer st o1)) = to_sample_info_holder o1"
  "to_splice_out_time_us (snd (with_buffer st o1)) = to_splice_out_time_us o1"
  "to_last_read_time_us (snd (with_buffer st o1)) = to_last_read_time_us o1"
  "to_largest_parsed_timestamp_us (snd (with_buffer st o1)) = to_largest_parsed_timestamp_us o1"
  "to_format (snd (with_buffer st o1)) = to_format o1"
  by (simp_all add: with_buffer_def)

lemma skip_while_ok:
  assumes "rsb_ready st" and "\<And>s h. c (fill_holder s h) = C s"
  obtains h' st' where
    "skip_while c h f st = Some (Inr (dropWhile (\<lambda>x. C (fst x)) (rsb_view st) \<noteq> [],
       f \<or> takeWhile (\<lambda>x. C (fst x)) (rsb_view st) \<noteq> [], h', st'))"
    "rsb_ready st'" "rsb_view st' = dropWhile (\<lambda>x. C (fst x)) (rsb_view st)"
    "rsb_view st' \<noteq> [] \<Longrightarrow> \<exists>h''. h' = fill_holder (fst (hd (rsb_view st'))) h''"
  using rsb_queue.skip_while_drops [of "skip_while c" c C, OF skip_while.simps assms(2,1), of h f] by blast

lemma fill_holder_time [simp]: "sh_time_us (fill_holder s h) = si_time_us s"
  by (simp add: fill_holder_def)

lemma fill_holder_sync [simp]: "IsSyncFrame (fill_holder s h) = is_sync s"
  by (simp add: IsSyncFrame_def fill_holder_def is_sync_def)

text \<open>The samples that remain once those before the first keyframe are dropped, where one is needed.\<close>

definition eligible :: "'f track_state \<Rightarrow> (sample_info \<times> byte list) list" where
  "eligible s = (if to_need_key_frame (snd s) then dropWhile (\<lambda>x. \<not> is_sync (fst x)) (track_view s)
                 else track_view s)"

definition before_splice :: "'f track_state \<Rightarrow> sample_info \<Rightarrow> bool" where
  "before_splice s x \<longleftrightarrow> to_splice_out_time_us (snd s) = kInvalidTimestamp \<or>
     si_time_us x < to_splice_out_time_us (snd s)"

lemma eligible_dropWhile:
  "eligible s = dropWhile (\<lambda>x. to_need_key_frame (snd s) \<and> \<not> is_sync (fst x)) (rsb_view (buffer_of s))"
  by (cases "rsb_view (buffer_of s)") (simp_all add: eligible_def track_view_def)

lemma AdvanceToEligibleSample_ok:
  assumes ready: "track_ready s"
  obtains h st where "AdvanceToEligibleSample s =
      Some (Inr (eligible s \<noteq> [] \<and> before_splice s (fst (hd (eligible s))),
        with_buffer st ((snd s)\<lparr>to_sample_info_holder := h\<rparr>)))"
    "rsb_ready st" "rsb_view st = eligible s"
proof -
  let ?c = "\<lambda>h. to_need_key_frame (snd s) \<and> \<not> IsSyncFrame h"
  let ?C = "\<lambda>x. to_need_key_frame (snd s) \<and> \<not> is_sync x"
  have r: "rsb_ready (buffer_of s)" using ready by (simp add: track_ready_def)
  have c: "?c (fill_holder x h) = ?C x" for x h by simp
  obtain h st where sk: "skip_while ?c (to_sample_info_holder (snd s)) False (buffer_of s) =
      Some (Inr (dropWhile (\<lambda>x. ?C (fst x)) (rsb_view (buffer_of s)) \<noteq> [],
        False \<or> takeWhile (\<lambda>x. ?C (fst x)) (rsb_view (buffer_of s)) \<noteq> [], h, st))"
      "rsb_ready st" "rsb_view st = dropWhile (\<lambda>x. ?C (fst x)) (rsb_view (buffer_of s))"
      "rsb_view st \<noteq> [] \<Longrightarrow> \<exists>h''. h = fill_holder (fst (hd (rsb_view st))) h''"
    by (rule skip_while_ok [where c = ?c and C = ?C and h = "to_sample_info_holder (snd s)" and f = False, OF r c])
      (rule that)
  note e = eligible_dropWhile [of s, symmetric]
  have "eligible s \<noteq> [] \<Longrightarrow> sh_time_us h = si_time_us (fst (hd (eligible s)))"
    using sk(3,4) by (auto simp: e)
  then have "AdvanceToEligibleSample s =
      Some (Inr (eligible s \<noteq> [] \<and> before_splice s (fst (hd (eligible s))),
        with_buffer st ((snd s)\<lparr>to_sample_info_holder := h\<rparr>)))"
    using sk(1) by (auto simp: AdvanceToEligibleSample_def e before_splice_def)
  with sk(2,3) that show thesis by (simp add: e)
qed

section \<open>Properties\<close>

definition demo_track :: "unit track_state" where
  "demo_track = with_buffer demo_rsb
     ((DefaultTrackOutput_new demo_allocator)\<lparr>to_splice_out_time_us := 140\<rparr>)"

lemma demo_track_facts:
  "track_ready demo_track" "track_view demo_track = [(demo_first, [10, 11, 12, 13, 14]), (demo_second, [15])]"
  "to_need_key_frame (snd demo_track)" "to_splice_out_time_us (snd demo_track) = 140"
  by (simp_all add: demo_track_def track_ready_def track_view_def demo_ready demo_view DefaultTrackOutput_new_def)

text \<open>
  C24. \<open>GetSample\<close> terminates without a fault and delivers the first eligible sample: when a keyframe
  is needed (at the start and after a discard) the sample is a keyframe, the earlier ones being
  dropped; with a splice configured no sample at or after the splice time is delivered; the holder
  receives the sample's bytes and the queue loses exactly the delivered sample and those dropped
  before it. When nothing is delivered there is no eligible sample or the next one lies at or after
  the splice time, and the holder is untouched.
\<close>

theorem get_sample_delivers_eligible:
  assumes "track_ready s" "holder_inv h" "sh_buffer_replacement_enabled h"
    and "\<forall>x \<in> set (track_view s). si_flags (fst x) AND kSampleFlagEncrypted = 0 \<or> si_iv (fst x) \<noteq> []"
  shows "\<exists>found h' s'. GetSample h s = Some (Inr (found, h', s')) \<and> track_ready s' \<and>
    found = (eligible s \<noteq> [] \<and> before_splice s (fst (hd (eligible s)))) \<and>
    (if found
     then holder_data h' = holder_data h @ snd (hd (eligible s)) \<and>
          sh_time_us h' = si_time_us (fst (hd (eligible s))) \<and>
          (to_need_key_frame (snd s) \<longrightarrow> is_sync (fst (hd (eligible s)))) \<and>
          track_view s' = tl (eligible s) \<and> \<not> to_need_key_frame (snd s') \<and>
          to_last_read_time_us (snd s') = sh_time_us h'
     else h' = h \<and> track_view s' = eligible s)"
proof -
  obtain hi st where adv: "AdvanceToEligibleSample s =
      Some (Inr (eligible s \<noteq> [] \<and> before_splice s (fst (hd (eligible s))),
        with_buffer st ((snd s)\<lparr>to_sample_info_holder := hi\<rparr>)))"
    "rsb_ready st" "rsb_view st = eligible s"
    by (rule AdvanceToEligibleSample_ok [OF assms(1)])
  show ?thesis
  proof (cases "eligible s \<noteq> [] \<and> before_splice s (fst (hd (eligible s)))")
    case False
    with adv show ?thesis by (auto simp: GetSample_def track_ready_def track_view_def)
  next
    case True
    then obtain x bs rest where e: "eligible s = (x, bs) # rest" by (cases "eligible s") auto
    then have "(x, bs) \<in> set (track_view s)"
      by (auto simp: eligible_def split: if_splits dest: set_dropWhileD intro: set_dropWhileD)
        (metis list.set_intros(1) set_dropWhileD)
    then have plain: "si_flags x AND kSampleFlagEncrypted = 0 \<or> si_iv x \<noteq> []" using assms(4) by force
    have pre: "rsb_ok st" "bytes_written st < 2 ^ 31" using adv(2) by (simp_all add: rsb_ready_def)
    obtain ss where ss: "rsb_samples st = x # ss" "payload st x = bs"
      using adv(3) e by (auto simp: rsb_view_def)
    obtain h' st' where rd: "ReadSample h st = Inr (True, h', st')" "rsb_ok st'"
      "rsb_view st' = tl (rsb_view st)" "bytes_written st' = bytes_written st"
      "holder_data h' = holder_data h @ payload st x" "sh_time_us h' = si_time_us x"
      by (rule ReadSample_ok [OF pre(1) ss(1) pre(2) plain assms(2,3)])
    have "to_need_key_frame (snd s) \<longrightarrow> is_sync x"
      using e by (auto simp: eligible_def dropWhile_eq_Cons_conv)
    with True adv rd ss(2) pre e show ?thesis
      by (auto simp: GetSample_def track_ready_def track_view_def rsb_ready_def)
  qed
qed

theorem get_sample_delivers_eligible_witness:
  "\<exists>h' s'. GetSample (SampleHolder_new True) demo_track = Some (Inr (True, h', s')) \<and>
     holder_data h' = [10, 11, 12, 13, 14] \<and> track_view s' = [(demo_second, [15])]"
proof -
  have f: "si_flags demo_first = 1" "si_flags demo_second = 1" "si_time_us demo_first = 100"
    by (simp_all add: demo_first_def demo_second_def new_sample_def)
  have e: "eligible demo_track = track_view demo_track"
    by (simp add: eligible_def demo_track_facts is_sync_def f kSampleFlagSync_def)
  have "sh_buffer_replacement_enabled (SampleHolder_new True)" "holder_data (SampleHolder_new True) = []"
    by (simp_all add: SampleHolder_new_def holder_data_def)
  with get_sample_delivers_eligible [OF demo_track_facts(1) holder_inv_new, of True]
  show ?thesis
    by (auto simp: e demo_track_facts before_splice_def f kSampleFlagEncrypted_def)
qed

text \<open>
  \<open>DiscardUntil\<close> ends, drops exactly the leading samples before the given time, and asks for a
  keyframe exactly when it dropped something or one was already needed; the last read time is
  forgotten.
\<close>

theorem discard_until_drops:
  assumes "track_ready s"
  shows "\<exists>s'. DiscardUntil t s = Some (Inr s') \<and> track_ready s' \<and>
    track_view s' = dropWhile (\<lambda>x. si_time_us (fst x) < t) (track_view s) \<and>
    to_need_key_frame (snd s') = (to_need_key_frame (snd s) \<or> track_view s' \<noteq> track_view s) \<and>
    to_last_read_time_us (snd s') = kInvalidTimestamp \<and>
    to_splice_out_time_us (snd s') = to_splice_out_time_us (snd s)"
proof -
  let ?C = "\<lambda>x. si_time_us x < t"
  have r: "rsb_ready (buffer_of s)" using assms by (simp add: track_ready_def)
  have c: "(sh_time_us (fill_holder x h) < t) = ?C x" for x h by simp
  obtain h st where sk: "skip_while (\<lambda>h. sh_time_us h < t) (to_sample_info_holder (snd s))
      (to_need_key_frame (snd s)) (buffer_of s) =
      Some (Inr (dropWhile (\<lambda>x. ?C (fst x)) (rsb_view (buffer_of s)) \<noteq> [],
        to_need_key_frame (snd s) \<or> takeWhile (\<lambda>x. ?C (fst x)) (rsb_view (buffer_of s)) \<noteq> [], h, st))"
      "rsb_ready st" "rsb_view st = dropWhile (\<lambda>x. ?C (fst x)) (rsb_view (buffer_of s))"
    by (rule skip_while_ok [where c = "\<lambda>h. sh_time_us h < t" and C = ?C and h = "to_sample_info_holder (snd s)"
        and f = "to_need_key_frame (snd s)", OF r c])
  have "takeWhile P xs \<noteq> [] \<longleftrightarrow> dropWhile P xs \<noteq> xs" for P and xs :: "(sample_info \<times> byte list) list"
    by (metis append_self_conv2 takeWhile_dropWhile_id)
  with sk show ?thesis by (simp add: DiscardUntil_def track_ready_def track_view_def)
qed

theorem discard_until_drops_witness:
  "\<exists>s'. DiscardUntil 120 demo_track = Some (Inr s') \<and> track_view s' = [(demo_second, [15])]"
  using discard_until_drops [OF demo_track_facts(1), of 120]
  by (auto simp: demo_track_facts demo_first_def demo_second_def new_sample_def)

text \<open>
  C25. Splicing. With no splice configured, \<open>ConfigureSpliceTo\<close> drops from the next output exactly the
  leading samples that are before the first time this output could still deliver (its head, or just
  after the last sample read) or are not keyframes; if a sample remains it succeeds and this
  output's splice time is the time of that keyframe, which is not before that time. This output's
  own samples stay.
\<close>

theorem configure_splice_finds_keyframe:
  assumes "track_ready s" "track_ready nxt" "to_splice_out_time_us (snd s) = kInvalidTimestamp"
    and "first = (if track_view s = [] then to_last_read_time_us (snd s) + 1
                  else si_time_us (fst (hd (track_view s))))"
    and "rest = dropWhile (\<lambda>x. si_time_us (fst x) < first \<or> \<not> is_sync (fst x)) (track_view nxt)"
  shows "\<exists>s' nxt'. ConfigureSpliceTo s nxt = Some (Inr (rest \<noteq> [], s', nxt')) \<and>
    track_ready s' \<and> track_ready nxt' \<and> track_view s' = track_view s \<and> track_view nxt' = rest \<and>
    to_splice_out_time_us (snd s') =
      (if rest = [] then kInvalidTimestamp else si_time_us (fst (hd rest))) \<and>
    (rest \<noteq> [] \<longrightarrow> is_sync (fst (hd rest)) \<and> first \<le> si_time_us (fst (hd rest)))"
proof -
  obtain st where pk: "rsb_ready st" "rsb_view st = rsb_view (buffer_of s)"
      "PeekSample (to_sample_info_holder (snd s)) (buffer_of s) = (rsb_view (buffer_of s) \<noteq> [],
        (if rsb_view (buffer_of s) = [] then to_sample_info_holder (snd s)
         else fill_holder (fst (hd (rsb_view (buffer_of s)))) (to_sample_info_holder (snd s))), st)"
    using PeekSample_view [of "buffer_of s"] assms(1) unfolding track_ready_def by blast
  define h0 where "h0 = fst (snd (PeekSample (to_sample_info_holder (snd s)) (buffer_of s)))"
  define fnd where "fnd = (rsb_view (buffer_of s) \<noteq> [])"
  have f: "first = (if fnd then sh_time_us h0 else to_last_read_time_us (snd s) + 1)"
    by (simp add: assms(4) track_view_def h0_def pk(3) fnd_def)
  let ?c = "\<lambda>h. sh_time_us h < first \<or> \<not> IsSyncFrame h" and ?C = "\<lambda>x. si_time_us x < first \<or> \<not> is_sync x"
  have r: "rsb_ready (buffer_of nxt)" using assms(2) by (simp add: track_ready_def)
  have c: "?c (fill_holder x h) = ?C x" for x h by simp
  obtain h1 nst where sk: "skip_while ?c h0 False (buffer_of nxt) =
      Some (Inr (dropWhile (\<lambda>x. ?C (fst x)) (rsb_view (buffer_of nxt)) \<noteq> [],
        False \<or> takeWhile (\<lambda>x. ?C (fst x)) (rsb_view (buffer_of nxt)) \<noteq> [], h1, nst))"
      "rsb_ready nst" "rsb_view nst = dropWhile (\<lambda>x. ?C (fst x)) (rsb_view (buffer_of nxt))"
      "rsb_view nst \<noteq> [] \<Longrightarrow> \<exists>h''. h1 = fill_holder (fst (hd (rsb_view nst))) h''"
    by (rule skip_while_ok [where c = ?c and C = ?C and h = h0 and f = False, OF r c]) (rule that)
  have rest: "rsb_view nst = rest" using sk(3) by (simp add: assms(5) track_view_def)
  obtain nst2 where pk2: "rsb_ready nst2" "rsb_view nst2 = rest"
      "PeekSample h1 nst = (rest \<noteq> [], (if rest = [] then h1 else fill_holder (fst (hd rest)) h1), nst2)"
    using PeekSample_view [OF sk(2), of h1] unfolding rest by blast
  have keep: "rest \<noteq> [] \<longrightarrow> is_sync (fst (hd rest)) \<and> first \<le> si_time_us (fst (hd rest))"
    using hd_dropWhile [of "\<lambda>x. ?C (fst x)" "track_view nxt"] unfolding assms(5) by fastforce
  have "PeekSample (to_sample_info_holder (snd s)) (buffer_of s) = (fnd, h0, st)"
    using pk(3) by (simp add: h0_def fnd_def)
  then have "ConfigureSpliceTo s nxt = Some (Inr (rest \<noteq> [],
      (if rest = [] then with_buffer st ((snd s)\<lparr>to_sample_info_holder := h1\<rparr>)
       else (fst (with_buffer st ((snd s)\<lparr>to_sample_info_holder := fill_holder (fst (hd rest)) h1\<rparr>)),
             (snd (with_buffer st ((snd s)\<lparr>to_sample_info_holder := fill_holder (fst (hd rest)) h1\<rparr>)))
               \<lparr>to_splice_out_time_us := si_time_us (fst (hd rest))\<rparr>)),
      with_buffer nst2 (snd nxt)))"
    using assms(3) sk(1) pk2(3) by (simp add: ConfigureSpliceTo_def Let_def f [symmetric])
  with keep pk pk2 assms(3) show ?thesis
    by (auto simp: track_ready_def track_view_def buffer_of_def with_buffer_def)
qed

theorem configure_splice_finds_keyframe_witness:
  "\<exists>s' nxt'. ConfigureSpliceTo (TrackOutput_Clear demo_track) demo_track = Some (Inr (True, s', nxt')) \<and>
     to_splice_out_time_us (snd s') = 100"
proof -
  let ?s = "TrackOutput_Clear demo_track"
  have r: "rsb_ok demo_rsb" using demo_ready by (simp add: rsb_ready_def)
  have b: "buffer_of ?s = Clear demo_rsb" by (simp add: TrackOutput_Clear_def demo_track_def)
  have w: "bytes_written (Clear demo_rsb) = 0"
    by (simp add: bytes_written_def Clear_def split: prod.splits)
  have ready: "track_ready ?s" "track_view ?s = []"
    using Clear_ok [OF r] by (simp_all add: track_ready_def rsb_ready_def b track_view_def w)
  have t: "to_splice_out_time_us (snd ?s) = kInvalidTimestamp" "to_last_read_time_us (snd ?s) = kInvalidTimestamp"
    by (simp_all add: TrackOutput_Clear_def)
  have f: "is_sync demo_first" "si_time_us demo_first = 100"
    by (simp_all add: demo_first_def new_sample_def is_sync_def kSampleFlagSync_def)
  from configure_splice_finds_keyframe [OF ready(1) demo_track_facts(1) t(1) refl refl]
  show ?thesis by (auto simp: ready t demo_track_facts f kInvalidTimestamp_def)
qed

text \<open>
  Committing sample metadata. The sample whose \<open>sample_size\<close> bytes end \<open>offset\<close> bytes before the
  write position is appended with exactly those bytes, provided they lie after the samples already
  queued; the largest timestamp becomes the maximum of itself and the sample's time.
\<close>

theorem write_metadata_commits:
  assumes "track_ready s" "0 \<le> sz" "0 \<le> off"
    and "pos = GetWritePosition (buffer_of s) - sz - off"
    and "layout (bytes_dropped (buffer_of s)) pos (rsb_samples (buffer_of s))"
  shows "let s' = WriteSampleMetadata t d fl sz off key iv nbc nbe s
    in track_ready s' \<and>
       track_view s' = track_view s @ [(new_sample t d fl pos sz key iv nbc nbe, stream (buffer_of s) pos (nat sz))] \<and>
       GetLargestParsedTimestampUs s' = max (GetLargestParsedTimestampUs s) t"
proof -
  have ok: "rsb_ok (buffer_of s)" "bytes_written (buffer_of s) < 2 ^ 31" and inv: "rsb_inv (buffer_of s)"
    using assms(1) by (simp_all add: track_ready_def rsb_ready_def rsb_ok_def)
  have wp: "GetWritePosition (buffer_of s) = bytes_written (buffer_of s)"
    by (simp add: GetWritePosition_def bytes_written_def)
  have pos0: "0 \<le> pos" using layout_le [OF assms(5)] rsb_inv_dropped [OF inv] by linarith
  have n: "signed_take_bit 63 pos = pos" "narrow32 sz = sz"
    using pos0 assms(2-4) ok(2) wp by (simp_all add: signed_take_bit_int_eq_self in_int32_def)
  have "pos + sz \<le> bytes_written (buffer_of s)" using assms(3,4) wp by simp
  note c = CommitSample_ok [OF ok(1) assms(5,2) this, of t d fl key iv nbc nbe]
  have w: "bytes_written (CommitSample t d fl pos sz key iv nbc nbe (buffer_of s)) = bytes_written (buffer_of s)"
    by (simp add: CommitSample_def bytes_written_def)
  show ?thesis
    using c w ok(2) n assms(4)
    by (simp add: Let_def WriteSampleMetadata_def track_ready_def rsb_ready_def track_view_def
        GetLargestParsedTimestampUs_def)
qed

theorem write_metadata_commits_witness:
  "let s' = WriteSampleMetadata 180 40 0 0 0 None None None None demo_track
   in track_view s' = track_view demo_track @ [(new_sample 180 40 0 6 0 None None None None, [])] \<and>
      GetLargestParsedTimestampUs s' = 180"
proof -
  have b: "buffer_of demo_track = demo_rsb" by (simp add: demo_track_def)
  have w: "GetWritePosition demo_rsb = 6" "bytes_dropped demo_rsb = 0"
    by (simp_all add: demo_rsb_def GetWritePosition_def bytes_dropped_def)
  have l: "layout 0 6 (rsb_samples demo_rsb)"
    by (simp add: demo_samples demo_first_def demo_second_def new_sample_def)
  have m: "GetLargestParsedTimestampUs demo_track = kInvalidTimestamp"
    by (simp add: GetLargestParsedTimestampUs_def demo_track_def DefaultTrackOutput_new_def)
  from write_metadata_commits [OF demo_track_facts(1), of 0 0 6 180 40 0 None None None None] show ?thesis
    by (simp add: b w l m Let_def kInvalidTimestamp_def stream_def)
qed

end
