(* ===== verification/Chunks.thy ===== *)
theory Chunks
  imports Format_Evaluators Default_Track_Output
begin

text \<open>
  Chunks: the unit of loading (\<open>chunk/chunk.h\<close>, \<open>chunk/media_chunk.h\<close>, \<open>chunk/base_media_chunk.cc\<close>), the
  holder through which the chunk source hands them out (\<open>chunk/chunk_operation_holder.cc\<close>), and the
  loading of a chunk (\<open>chunk/container_media_chunk.cc\<close>, \<open>chunk/initialization_chunk.cc\<close>) from a data
  specification (\<open>upstream/data_spec.cc\<close>) through \<open>extractor/unbuffered_extractor_input.cc\<close>.

  A chunk carries its address, because the source compares chunks by address. The members that
  \<open>MediaChunk\<close> and \<open>BaseMediaChunk\<close> add are meaningful when the type is \<open>kTypeMedia\<close>, the condition
  under which the source casts to them.
\<close>

section \<open>Data specifications\<close>

definition LENGTH_UNBOUNDED :: int where
  "LENGTH_UNBOUNDED = -1"

record data_spec =
  ds_uri :: string
  ds_post_body :: "string option"
  ds_absolute_stream_position :: int
  ds_position :: int
  ds_length :: int
  ds_key :: "string option"
  ds_flags :: int

definition GetRemainder :: "data_spec \<Rightarrow> int \<Rightarrow> data_spec" where
  "GetRemainder data_spec bytes_loaded =
     \<lparr>ds_uri = ds_uri data_spec, ds_post_body = None,
      ds_absolute_stream_position = ds_position data_spec + bytes_loaded,
      ds_position = ds_position data_spec + bytes_loaded,
      ds_length = (if ds_length data_spec = LENGTH_UNBOUNDED then LENGTH_UNBOUNDED
                   else ds_length data_spec - bytes_loaded),
      ds_key = ds_key data_spec, ds_flags = ds_flags data_spec\<rparr>"

section \<open>Chunks\<close>

definition kTypeMedia :: int where "kTypeMedia = 1"
definition kTypeMediaInitialization :: int where "kTypeMediaInitialization = 2"

record chunk =
  ck_address :: nat
  ck_data_spec :: data_spec
  ck_type :: int
  ck_trigger :: int
  ck_format :: "format option"
  ck_parent_id :: int
  ck_start_time_us :: int
  ck_end_time_us :: int
  ck_chunk_index :: int
  ck_first_sample_index :: int
  ck_is_media_format_final :: bool

definition IsMediaChunk :: "chunk \<Rightarrow> bool" where
  "IsMediaChunk c \<longleftrightarrow> ck_type c = kTypeMedia"

definition GetNextChunkIndex :: "chunk \<Rightarrow> int" where
  "GetNextChunkIndex c = ck_chunk_index c + 1"

definition GetPrevChunkIndex :: "chunk \<Rightarrow> int" where
  "GetPrevChunkIndex c = ck_chunk_index c - 1"

definition MediaChunk_new :: "nat \<Rightarrow> data_spec \<Rightarrow> int \<Rightarrow> format \<Rightarrow> int \<Rightarrow> int \<Rightarrow> int \<Rightarrow> bool \<Rightarrow> int \<Rightarrow> chunk" where
  "MediaChunk_new address data_spec trigger format start_time_us end_time_us chunk_index is_media_format_final parent_id =
     \<lparr>ck_address = address, ck_data_spec = data_spec, ck_type = kTypeMedia, ck_trigger = trigger,
      ck_format = Some format, ck_parent_id = parent_id, ck_start_time_us = start_time_us,
      ck_end_time_us = end_time_us, ck_chunk_index = chunk_index, ck_first_sample_index = -1,
      ck_is_media_format_final = is_media_format_final\<rparr>"

definition BaseMediaChunk_Init :: "'f track_state \<Rightarrow> chunk \<Rightarrow> chunk" where
  "BaseMediaChunk_Init output c = c\<lparr>ck_first_sample_index := TrackOutput_GetWriteIndex output\<rparr>"

section \<open>The operation holder\<close>

text \<open>
  \<open>chunk_\<close> points to the chunk; \<open>co_owned\<close> tells whether \<open>owned_chunk_\<close> still holds it. After
  \<open>TakeChunk\<close> the pointer stays.
\<close>

record chunk_operation_holder =
  co_queue_size :: int
  co_chunk :: "chunk option"
  co_owned :: bool
  co_end_of_stream :: bool

definition ChunkOperationHolder_new :: chunk_operation_holder where
  "ChunkOperationHolder_new = \<lparr>co_queue_size = 0, co_chunk = None, co_owned = False, co_end_of_stream = False\<rparr>"

definition SetQueueSize :: "int \<Rightarrow> chunk_operation_holder \<Rightarrow> chunk_operation_holder" where
  "SetQueueSize queue_size h = h\<lparr>co_queue_size := queue_size\<rparr>"

definition SetChunk :: "chunk option \<Rightarrow> chunk_operation_holder \<Rightarrow> chunk_operation_holder" where
  "SetChunk c h = h\<lparr>co_chunk := c, co_owned := (c \<noteq> None)\<rparr>"

definition TakeChunk :: "chunk_operation_holder \<Rightarrow> chunk option \<times> chunk_operation_holder" where
  "TakeChunk h = (if co_owned h then co_chunk h else None, h\<lparr>co_owned := False\<rparr>)"

definition SetEndOfStream :: "bool \<Rightarrow> chunk_operation_holder \<Rightarrow> chunk_operation_holder" where
  "SetEndOfStream b h = h\<lparr>co_end_of_stream := b\<rparr>"

definition ChunkOperationHolder_Clear :: "chunk_operation_holder \<Rightarrow> chunk_operation_holder" where
  "ChunkOperationHolder_Clear h = h\<lparr>co_queue_size := 0, co_chunk := None, co_end_of_stream := False\<rparr>"

section \<open>Loading a chunk\<close>

record extractor_input =
  ei_position :: int
  ei_length :: int

definition UnbufferedExtractorInput_new :: "int \<Rightarrow> int \<Rightarrow> extractor_input" where
  "UnbufferedExtractorInput_new position len = \<lparr>ei_position = position, ei_length = len\<rparr>"

text \<open>\<open>result\<close> is what the data source's \<open>Read\<close> returned.\<close>

definition UnbufferedExtractorInput_Read :: "int \<Rightarrow> extractor_input \<Rightarrow> extractor_input" where
  "UnbufferedExtractorInput_Read result i = (if result > 0 then i\<lparr>ei_position := ei_position i + result\<rparr> else i)"

definition RESULT_IO_ERROR :: int where "RESULT_IO_ERROR = -2"
definition RESULT_CONTINUE :: int where "RESULT_CONTINUE = -4"

text \<open>
  What loading calls: the data source, the cancellation flag (set by another thread) and the extractor
  behind the wrapper, over a state \<open>'w\<close> of theirs. The extractor reads from the input it is given.
\<close>

record 'w load_env =
  le_open :: "data_spec \<Rightarrow> 'w \<Rightarrow> int \<times> 'w"
  le_close :: "'w \<Rightarrow> 'w"
  le_canceled :: "'w \<Rightarrow> bool"
  le_wrapper_init :: "'w \<Rightarrow> 'w"
  le_wrapper_read :: "extractor_input \<Rightarrow> 'w \<Rightarrow> int \<times> extractor_input \<times> 'w"

text \<open>The loop shared by both loads. It may run forever.\<close>

partial_function (option) read_loop_extractor ::
  "'w load_env \<Rightarrow> int \<Rightarrow> extractor_input \<Rightarrow> 'w \<Rightarrow> (int \<times> extractor_input \<times> 'w) option" where
  "read_loop_extractor e result input w =
     (if result = RESULT_CONTINUE
      then (if le_canceled e w then Some (result, input, w)
            else (case le_wrapper_read e input w of (result', input', w') \<Rightarrow> read_loop_extractor e result' input' w'))
      else Some (result, input, w))"

text \<open>The result, \<open>bytes_loaded_\<close> afterwards and the state of the environment.\<close>

definition ContainerMediaChunk_Load :: "'w load_env \<Rightarrow> data_spec \<Rightarrow> int \<Rightarrow> 'w \<Rightarrow> (bool \<times> int \<times> 'w) option" where
  "ContainerMediaChunk_Load e data_spec bytes_loaded w =
     (let load_data_spec = GetRemainder data_spec bytes_loaded;
          (open_size, w1) = le_open e load_data_spec w
      in if le_canceled e w1 then Some (False, bytes_loaded, le_close e w1)
         else if open_size = RESULT_IO_ERROR then Some (False, bytes_loaded, le_close e w1)
         else (let input = UnbufferedExtractorInput_new (ds_absolute_stream_position load_data_spec) open_size;
                   w2 = (if bytes_loaded = 0 then le_wrapper_init e w1 else w1)
               in case read_loop_extractor e RESULT_CONTINUE input w2 of
                    None \<Rightarrow> None
                  | Some (result, input', w3) \<Rightarrow>
                      Some (result = RESULT_END_OF_INPUT,
                            ei_position input' - ds_absolute_stream_position load_data_spec, le_close e w3)))"

definition InitializationChunk_Load :: "'w load_env \<Rightarrow> data_spec \<Rightarrow> int \<Rightarrow> 'w \<Rightarrow> (bool \<times> int \<times> 'w) option" where
  "InitializationChunk_Load e data_spec bytes_loaded w =
     (let load_data_spec = GetRemainder data_spec bytes_loaded;
          (open_size, w1) = le_open e load_data_spec w
      in if open_size = RESULT_IO_ERROR then Some (False, bytes_loaded, le_close e w1)
         else (let input = UnbufferedExtractorInput_new (ds_absolute_stream_position load_data_spec) open_size;
                   w2 = (if bytes_loaded = 0 then le_wrapper_init e w1 else w1)
               in case read_loop_extractor e RESULT_CONTINUE input w2 of
                    None \<Rightarrow> None
                  | Some (result, input', w3) \<Rightarrow>
                      Some (result = RESULT_END_OF_INPUT,
                            (if result = RESULT_IO_ERROR then 0
                             else ei_position input' - ds_absolute_stream_position load_data_spec), le_close e w3)))"

section \<open>Properties of loading\<close>

text \<open>
  An extractor that reads from its input never moves the position back, and one that makes
  progress leaves less to read.
\<close>

definition reads_input :: "'w load_env \<Rightarrow> ('w \<Rightarrow> nat) \<Rightarrow> bool" where
  "reads_input e todo \<longleftrightarrow> (\<forall>i w r i' w'. le_wrapper_read e i w = (r, i', w') \<longrightarrow>
     ei_position i \<le> ei_position i' \<and> (r = RESULT_CONTINUE \<longrightarrow> todo w' < todo w))"

lemma read_loop_extractor_ends:
  assumes "reads_input e todo"
  shows "\<exists>r i' w'. read_loop_extractor e result i w = Some (r, i', w') \<and> ei_position i \<le> ei_position i' \<and>
    (r = RESULT_CONTINUE \<longrightarrow> le_canceled e w')"
proof (induction "todo w" arbitrary: result i w rule: less_induct)
  case less
  obtain r i' w' where rd: "le_wrapper_read e i w = (r, i', w')" by (metis prod_cases3)
  note ok = assms [unfolded reads_input_def, rule_format, OF rd]
  show ?case
  proof (cases "result = RESULT_CONTINUE \<and> \<not> le_canceled e w")
    case False
    then show ?thesis by (subst read_loop_extractor.simps) auto
  next
    case True
    then have eq: "read_loop_extractor e result i w = read_loop_extractor e r i' w'"
      by (subst read_loop_extractor.simps) (simp add: rd)
    show ?thesis
    proof (cases "r = RESULT_CONTINUE")
      case True
      then show ?thesis using less.hyps [of w' r i'] ok unfolding eq by fastforce
    next
      case False
      then have "read_loop_extractor e r i' w' = Some (r, i', w')" by (subst read_loop_extractor.simps) simp
      then show ?thesis using ok False eq by auto
    qed
  qed
qed

text \<open>
  With an extractor that makes progress a media chunk's load always returns. If the data
  source could be opened and the load was not cancelled before, \<open>bytes_loaded_\<close> afterwards counts the
  bytes of this attempt alone, read from the position the previous count gave: after a resumed load
  the bytes of the earlier attempts are forgotten, and the next attempt requests data again that the
  extractor has already consumed.
\<close>

theorem container_load_counts_attempt:
  assumes "reads_input e todo" "le_open e (GetRemainder spec n) w = (sz, w1)"
  shows "\<exists>ok n' w'. ContainerMediaChunk_Load e spec n w = Some (ok, n', w') \<and>
    (if le_canceled e w1 \<or> sz = RESULT_IO_ERROR then \<not> ok \<and> n' = n
     else \<exists>r i w2. read_loop_extractor e RESULT_CONTINUE
            (UnbufferedExtractorInput_new (ds_position spec + n) sz) (if n = 0 then le_wrapper_init e w1 else w1) = Some (r, i, w2) \<and>
          ok = (r = RESULT_END_OF_INPUT) \<and> n' = ei_position i - (ds_position spec + n) \<and> 0 \<le> n' \<and>
          ds_position (GetRemainder spec n') = ds_position spec + n')"
proof (cases "le_canceled e w1 \<or> sz = RESULT_IO_ERROR")
  case True
  then show ?thesis using assms(2) by (auto simp: ContainerMediaChunk_Load_def Let_def)
next
  case False
  obtain r i w2 where l: "read_loop_extractor e RESULT_CONTINUE (UnbufferedExtractorInput_new (ds_position spec + n) sz)
      (if n = 0 then le_wrapper_init e w1 else w1) = Some (r, i, w2)" "ds_position spec + n \<le> ei_position i"
    using read_loop_extractor_ends [OF assms(1), of RESULT_CONTINUE "UnbufferedExtractorInput_new (ds_position spec + n) sz"
        "if n = 0 then le_wrapper_init e w1 else w1"]
    by (auto simp: UnbufferedExtractorInput_new_def)
  then show ?thesis using False assms(2)
    by (auto simp: ContainerMediaChunk_Load_def Let_def GetRemainder_def)
qed

text \<open>An environment whose extractor reads what is left of three attempts: 40 bytes, 30 bytes, and the end.\<close>

definition flaky_env :: "nat list load_env" where
  "flaky_env = \<lparr>le_open = (\<lambda>spec w. (ds_length spec, w)), le_close = id, le_canceled = (\<lambda>w. False), le_wrapper_init = id,
     le_wrapper_read = (\<lambda>i w. case w of [] \<Rightarrow> (RESULT_END_OF_INPUT, i, [])
       | k # ks \<Rightarrow> (RESULT_IO_ERROR, UnbufferedExtractorInput_Read (int k) i, ks))\<rparr>"

lemma flaky_reads: "reads_input flaky_env length"
  by (auto simp: reads_input_def flaky_env_def UnbufferedExtractorInput_Read_def RESULT_IO_ERROR_def RESULT_CONTINUE_def
      RESULT_END_OF_INPUT_def split: list.splits)

lemma flaky_loop: "read_loop_extractor flaky_env RESULT_CONTINUE i (k # ks) =
    Some (RESULT_IO_ERROR, UnbufferedExtractorInput_Read (int k) i, ks)"
  by (subst read_loop_extractor.simps, simp add: flaky_env_def, subst read_loop_extractor.simps,
    simp add: RESULT_IO_ERROR_def RESULT_CONTINUE_def)

definition demo_spec :: data_spec where
  "demo_spec = \<lparr>ds_uri = ''http://h/seg'', ds_post_body = None, ds_absolute_stream_position = 0, ds_position = 0,
     ds_length = 100, ds_key = None, ds_flags = 0\<rparr>"

theorem container_load_counts_attempt_witness:
  "\<exists>w1 w2. ContainerMediaChunk_Load flaky_env demo_spec 0 [40, 30] = Some (False, 40, w1) \<and>
     ContainerMediaChunk_Load flaky_env demo_spec 40 w1 = Some (False, 30, w2) \<and>
     ds_position (GetRemainder demo_spec 30) = 30"
proof -
  have o: "le_open flaky_env (GetRemainder demo_spec n) w = (100 - n, w)" "\<not> le_canceled flaky_env w"
      "le_wrapper_init flaky_env w = w" for n w
    by (simp_all add: flaky_env_def GetRemainder_def demo_spec_def LENGTH_UNBOUNDED_def)
  have p: "ds_position demo_spec = 0" by (simp add: demo_spec_def)
  have abs: "ds_absolute_stream_position (GetRemainder demo_spec n) = n" for n by (simp add: GetRemainder_def p)
  have c: "le_close flaky_env w = w" for w by (simp add: flaky_env_def)
  have first: "ContainerMediaChunk_Load flaky_env demo_spec 0 [40, 30] = Some (False, 40, [30])"
    by (simp add: ContainerMediaChunk_Load_def Let_def o flaky_loop UnbufferedExtractorInput_Read_def
        UnbufferedExtractorInput_new_def abs c RESULT_IO_ERROR_def RESULT_END_OF_INPUT_def)
  obtain w2 where "ContainerMediaChunk_Load flaky_env demo_spec 40 [30] = Some (False, 30, w2)"
    using container_load_counts_attempt [OF flaky_reads o(1), of 40 "[30]"]
    by (auto simp: o flaky_loop UnbufferedExtractorInput_Read_def UnbufferedExtractorInput_new_def p
        RESULT_IO_ERROR_def RESULT_END_OF_INPUT_def)
  with first show ?thesis by (simp add: GetRemainder_def p)
qed

end
