(* ===== verification/Load_Control.thy ===== *)
theory Load_Control
  imports Default_Allocator Time_Scaling
begin

text \<open>
  The load control shared by the loaders of a player (\<open>load_control.cc\<close>). It decides which loader
  may start its next load: while the buffers are filling, the one whose next load position is the
  earliest. The state of the control is recomputed only when a loader's state or the fill level of
  the memory changed; the invariant shows that it is up to date all the same.

  A loader is identified by its address, the key of \<open>loaders_\<close> and \<open>loader_states_\<close>. The calls of
  the event listener are recorded in \<open>lc_events\<close>. The fill level is the rational number the \<open>float\<close>
  denotes; a division by a target of zero is an infinity or not a number and is written out.
\<close>

section \<open>State\<close>

definition kAboveHighWatermark :: int where "kAboveHighWatermark = 0"
definition kBetweenWatermarks :: int where "kBetweenWatermarks = 1"
definition kBelowLowWatermark :: int where "kBelowLowWatermark = 2"

lemmas watermark_defs = kAboveHighWatermark_def kBetweenWatermarks_def kBelowLowWatermark_def

type_synonym loader = nat

record loader_state =
  ls_buffer_size_contribution :: int
  ls_buffer_state :: int
  ls_loading :: bool
  ls_next_load_position_us :: int

definition LoaderState_new :: "int \<Rightarrow> loader_state" where
  "LoaderState_new buffer_size_contribution =
     \<lparr>ls_buffer_size_contribution = buffer_size_contribution, ls_buffer_state = kAboveHighWatermark,
      ls_loading = False, ls_next_load_position_us = -1\<rparr>"

record load_control =
  lc_loaders :: "loader list"
  lc_loader_states :: "loader \<Rightarrow> loader_state option"
  lc_event_listener :: bool
  lc_low_watermark_us :: int
  lc_high_watermark_us :: int
  lc_low_buffer_load :: rat
  lc_high_buffer_load :: rat
  lc_target_buffer_size :: int
  lc_max_load_start_position_us :: int
  lc_buffer_state :: int
  lc_filling_buffers :: bool
  lc_last_loading_notify :: bool
  lc_events :: "bool list"

definition LoadControl_new :: "bool \<Rightarrow> int \<Rightarrow> int \<Rightarrow> rat \<Rightarrow> rat \<Rightarrow> load_control" where
  "LoadControl_new event_listener low_watermark_ms high_watermark_ms low_buffer_load high_buffer_load =
     \<lparr>lc_loaders = [], lc_loader_states = Map.empty, lc_event_listener = event_listener,
      lc_low_watermark_us = low_watermark_ms * 1000, lc_high_watermark_us = high_watermark_ms * 1000,
      lc_low_buffer_load = low_buffer_load, lc_high_buffer_load = high_buffer_load,
      lc_target_buffer_size = 0, lc_max_load_start_position_us = 0, lc_buffer_state = 0,
      lc_filling_buffers = False, lc_last_loading_notify = False, lc_events = []\<rparr>"

definition LoadControl_default :: "bool \<Rightarrow> load_control" where
  "LoadControl_default event_listener =
     LoadControl_new event_listener 30000 30000 (double (9 / 10)) (double (9 / 10))"

section \<open>Operations\<close>

definition loader_state_at :: "load_control \<Rightarrow> loader \<Rightarrow> loader_state result" where
  "loader_state_at c l = (case lc_loader_states c l of None \<Rightarrow> Inl Undefined_access | Some s \<Rightarrow> Inr s)"

definition NotifyLoadingChanged :: "bool \<Rightarrow> load_control \<Rightarrow> load_control" where
  "NotifyLoadingChanged loading c =
     (if lc_event_listener c then c\<lparr>lc_events := lc_events c @ [loading]\<rparr> else c)"

text \<open>The two loops over the loaders.\<close>

fun control_scan :: "load_control \<Rightarrow> loader list \<Rightarrow> bool \<Rightarrow> bool \<Rightarrow> int \<Rightarrow> (bool \<times> bool \<times> int) result" where
  "control_scan c [] loading have_next_load_position highest_state =
     Inr (loading, have_next_load_position, highest_state)"
| "control_scan c (l # ls) loading have_next_load_position highest_state =
     and_then (loader_state_at c l) (\<lambda>s.
       control_scan c ls (loading \<or> ls_loading s) (have_next_load_position \<or> ls_next_load_position_us s \<noteq> -1)
         (max highest_state (ls_buffer_state s)))"

fun max_load_scan :: "load_control \<Rightarrow> loader list \<Rightarrow> int \<Rightarrow> int result" where
  "max_load_scan c [] max_load = Inr max_load"
| "max_load_scan c (l # ls) max_load =
     and_then (loader_state_at c l) (\<lambda>s.
       let loader_time = ls_next_load_position_us s
       in max_load_scan c ls
            (if loader_time \<noteq> -1 \<and> (max_load = -1 \<or> loader_time < max_load) then loader_time else max_load))"

definition UpdateControlState :: "load_control \<Rightarrow> load_control result" where
  "UpdateControlState c =
     and_then (control_scan c (lc_loaders c) False False (lc_buffer_state c))
       (\<lambda>(loading, have_next_load_position, highest_state).
          let filling = (lc_loaders c \<noteq> [] \<and> (loading \<or> have_next_load_position) \<and>
                (highest_state = kBelowLowWatermark \<or>
                 highest_state = kBetweenWatermarks \<and> lc_filling_buffers c));
              c1 = c\<lparr>lc_filling_buffers := filling\<rparr>;
              c2 = (if filling \<and> \<not> lc_last_loading_notify c1
                    then NotifyLoadingChanged True (c1\<lparr>lc_last_loading_notify := True\<rparr>)
                    else if \<not> filling \<and> lc_last_loading_notify c1 \<and> \<not> loading
                    then NotifyLoadingChanged False (c1\<lparr>lc_last_loading_notify := False\<rparr>)
                    else c1)
          in if filling
             then and_then (max_load_scan c2 (lc_loaders c2) (-1))
                    (\<lambda>m. Inr (c2\<lparr>lc_max_load_start_position_us := m\<rparr>))
             else Inr (c2\<lparr>lc_max_load_start_position_us := -1\<rparr>))"

text \<open>\<open>loaders_\<close> is a \<open>std::set\<close>: ordered by address, without duplicates.\<close>

definition set_insert :: "loader \<Rightarrow> loader list \<Rightarrow> loader list" where
  "set_insert l ls = (if l \<in> set ls then ls else insort l ls)"

definition Register :: "load_control \<Rightarrow> loader \<Rightarrow> int \<Rightarrow> load_control" where
  "Register c l buffer_size_contribution =
     c\<lparr>lc_loaders := set_insert l (lc_loaders c),
       lc_loader_states := (lc_loader_states c)(l \<mapsto> LoaderState_new buffer_size_contribution),
       lc_target_buffer_size := lc_target_buffer_size c + buffer_size_contribution\<rparr>"

definition Unregister :: "load_control \<Rightarrow> loader \<Rightarrow> load_control result" where
  "Unregister c l =
     (let c1 = c\<lparr>lc_loaders := removeAll l (lc_loaders c)\<rparr>
      in and_then (loader_state_at c1 l) (\<lambda>state.
           UpdateControlState
             (c1\<lparr>lc_target_buffer_size := lc_target_buffer_size c1 - ls_buffer_size_contribution state,
                 lc_loader_states := (lc_loader_states c1)(l := None)\<rparr>)))"

definition TrimAllocator :: "load_control \<Rightarrow> default_allocator \<Rightarrow> default_allocator" where
  "TrimAllocator c a = Trim a (wrap64 (lc_target_buffer_size c))"

definition GetLoaderBufferState :: "load_control \<Rightarrow> int \<Rightarrow> int \<Rightarrow> int" where
  "GetLoaderBufferState c playback_position_us next_load_position_us =
     (if next_load_position_us = -1 then kAboveHighWatermark
      else let time_until_next_load_position = next_load_position_us - playback_position_us
           in if time_until_next_load_position > lc_high_watermark_us c then kAboveHighWatermark
              else if time_until_next_load_position < lc_low_watermark_us c then kBelowLowWatermark
              else kBetweenWatermarks)"

text \<open>A quotient by zero is not a number for 0, which compares false, and otherwise an infinity.\<close>

definition GetBufferState :: "load_control \<Rightarrow> int \<Rightarrow> int" where
  "GetBufferState c current_buffer_size =
     (if lc_target_buffer_size c = 0
      then (if current_buffer_size > 0 then kAboveHighWatermark
            else if current_buffer_size < 0 then kBelowLowWatermark else kBetweenWatermarks)
      else let buffer_load = fp_round 24 (fp_round 24 (of_int current_buffer_size) /
                                          fp_round 24 (of_int (lc_target_buffer_size c)))
           in if buffer_load > lc_high_buffer_load c then kAboveHighWatermark
              else if buffer_load < lc_low_buffer_load c then kBelowLowWatermark
              else kBetweenWatermarks)"

definition Update :: "load_control \<Rightarrow> default_allocator \<Rightarrow> loader \<Rightarrow> int \<Rightarrow> int \<Rightarrow> bool \<Rightarrow> (bool \<times> load_control) result" where
  "Update c a l playback_position_us next_load_position_us loading =
     (let loader_buffer_state = GetLoaderBufferState c playback_position_us next_load_position_us
      in and_then (loader_state_at c l) (\<lambda>loader_state.
           let loader_state_changed =
                 (ls_buffer_state loader_state \<noteq> loader_buffer_state \<or>
                  ls_next_load_position_us loader_state \<noteq> next_load_position_us \<or>
                  ls_loading loader_state \<noteq> loading);
               c1 = (if loader_state_changed
                     then c\<lparr>lc_loader_states := (lc_loader_states c)(l \<mapsto>
                            loader_state\<lparr>ls_buffer_state := loader_buffer_state,
                              ls_next_load_position_us := next_load_position_us, ls_loading := loading\<rparr>)\<rparr>
                     else c);
               current_buffer_size = GetTotalBytesAllocated a;
               buffer_state = GetBufferState c1 (narrow32 current_buffer_size);
               buffer_state_changed = (lc_buffer_state c1 \<noteq> buffer_state);
               c2 = (if buffer_state_changed then c1\<lparr>lc_buffer_state := buffer_state\<rparr> else c1)
           in and_then (if loader_state_changed \<or> buffer_state_changed then UpdateControlState c2 else Inr c2) (\<lambda>c3.
                Inr (current_buffer_size < wrap64 (lc_target_buffer_size c3) \<and> next_load_position_us \<noteq> -1 \<and>
                       next_load_position_us \<le> lc_max_load_start_position_us c3, c3))))"

section \<open>What the control state is\<close>

definition states_complete :: "load_control \<Rightarrow> bool" where
  "states_complete c \<longleftrightarrow> set (lc_loaders c) = dom (lc_loader_states c)"

definition loader_infos :: "load_control \<Rightarrow> loader_state set" where
  "loader_infos c = ran (lc_loader_states c)"

text \<open>Some loader, or the memory, is at the level.\<close>

definition at_level :: "load_control \<Rightarrow> int \<Rightarrow> bool" where
  "at_level c n \<longleftrightarrow> lc_buffer_state c = n \<or> (\<exists>s \<in> loader_infos c. ls_buffer_state s = n)"

definition has_demand :: "load_control \<Rightarrow> bool" where
  "has_demand c \<longleftrightarrow> (\<exists>s \<in> loader_infos c. ls_loading s \<or> ls_next_load_position_us s \<noteq> -1)"

definition should_fill :: "load_control \<Rightarrow> bool" where
  "should_fill c \<longleftrightarrow> has_demand c \<and>
     (at_level c kBelowLowWatermark \<or> at_level c kBetweenWatermarks \<and> lc_filling_buffers c)"

definition load_positions :: "load_control \<Rightarrow> int set" where
  "load_positions c = ls_next_load_position_us ` loader_infos c - {-1}"

definition earliest :: "load_control \<Rightarrow> int" where
  "earliest c = (if load_positions c = {} then -1 else Min (load_positions c))"

definition levels_ok :: "load_control \<Rightarrow> bool" where
  "levels_ok c \<longleftrightarrow> lc_buffer_state c \<in> {0, 1, 2} \<and>
     (\<forall>s \<in> loader_infos c. ls_buffer_state s \<in> {0, 1, 2} \<and> -1 \<le> ls_next_load_position_us s)"

definition settle :: "load_control \<Rightarrow> load_control" where
  "settle c =
     (let fill = should_fill c;
          notify = (fill \<or> lc_last_loading_notify c \<and> (\<exists>s \<in> loader_infos c. ls_loading s))
      in c\<lparr>lc_filling_buffers := fill, lc_last_loading_notify := notify,
           lc_events := lc_events c @ (if lc_event_listener c \<and> notify \<noteq> lc_last_loading_notify c then [notify] else []),
           lc_max_load_start_position_us := (if fill then earliest c else -1)\<rparr>)"

abbreviation info_of :: "load_control \<Rightarrow> loader \<Rightarrow> loader_state" where
  "info_of c l \<equiv> the (lc_loader_states c l)"

lemma loader_state_at_dom: "l \<in> dom (lc_loader_states c) \<Longrightarrow> loader_state_at c l = Inr (info_of c l)"
  by (auto simp: loader_state_at_def)

lemma loader_infos_eq: "states_complete c \<Longrightarrow> loader_infos c = info_of c ` set (lc_loaders c)"
  by (force simp: states_complete_def loader_infos_def ran_def)

lemma loader_infos_finite: "states_complete c \<Longrightarrow> finite (loader_infos c)"
  by (simp add: loader_infos_eq)

lemma control_scan_spec:
  "set ls \<subseteq> dom (lc_loader_states c) \<Longrightarrow> control_scan c ls a b h =
     Inr (a \<or> (\<exists>l \<in> set ls. ls_loading (info_of c l)),
          b \<or> (\<exists>l \<in> set ls. ls_next_load_position_us (info_of c l) \<noteq> -1),
          foldl max h (map (\<lambda>l. ls_buffer_state (info_of c l)) ls))"
  by (induction ls arbitrary: a b h) (auto simp: loader_state_at_dom)

lemma foldl_max: "foldl max h xs = Max (insert h (set xs))" for h :: int
  using Max.set_eq_fold [of h xs] by (simp add: foldl_conv_fold max.commute)

lemma max_load_scan_spec:
  assumes "set ls \<subseteq> dom (lc_loader_states c)"
    and "\<And>l. l \<in> set ls \<Longrightarrow> -1 \<le> ls_next_load_position_us (info_of c l)" and "-1 \<le> m"
    and P: "P = {p. (p = m \<or> (\<exists>l \<in> set ls. ls_next_load_position_us (info_of c l) = p)) \<and> p \<noteq> -1}"
  shows "max_load_scan c ls m = Inr (if P = {} then -1 else Min P)"
  using assms
proof (induction ls arbitrary: m P)
  case Nil
  have "P = (if m = -1 then {} else {m})" unfolding Nil.prems(4) by auto
  then show ?case by simp
next
  case (Cons l ls)
  let ?t = "ls_next_load_position_us (info_of c l)"
  let ?m = "if ?t \<noteq> -1 \<and> (m = -1 \<or> ?t < m) then ?t else m"
  let ?Q = "{p. (p = ?m \<or> (\<exists>l \<in> set ls. ls_next_load_position_us (info_of c l) = p)) \<and> p \<noteq> -1}"
  have fin: "finite {p. (p = x \<or> (\<exists>l \<in> set ls. ls_next_load_position_us (info_of c l) = p)) \<and> p \<noteq> -1}" for x
    by (rule finite_subset [of _ "insert x ((\<lambda>l. ls_next_load_position_us (info_of c l)) ` set ls)"]) auto
  have "max_load_scan c (l # ls) m = Inr (if ?Q = {} then -1 else Min ?Q)"
    using Cons.IH [of ?m ?Q] Cons.prems(1-3) by (simp add: loader_state_at_dom Let_def)
  moreover have "(if ?Q = {} then -1 else Min ?Q) = (if P = {} then -1 else Min P)"
  proof (cases "?t = -1 \<or> m = -1")
    case True
    then have "?Q = P" using Cons.prems(4) by auto
    then show ?thesis by simp
  next
    case False
    then have Pq: "P = insert (max ?t m) ?Q" and ne: "?m \<in> ?Q" and le: "?m \<le> max ?t m"
      using Cons.prems(4) by (auto simp: max_def)
    then have "Min P = min (max ?t m) (Min ?Q)" using fin Min_insert [of ?Q] by blast
    also have "\<dots> = Min ?Q" using Min_le [OF fin ne] le by linarith
    finally show ?thesis using Pq ne by auto
  qed
  ultimately show ?case by simp
qed

lemma earliest_scan:
  assumes "states_complete c" "levels_ok c"
  shows "max_load_scan c (lc_loaders c) (-1) = Inr (earliest c)"
proof -
  have "max_load_scan c (lc_loaders c) (-1) =
      Inr (let P = {p. (p = -1 \<or> (\<exists>l \<in> set (lc_loaders c). ls_next_load_position_us (info_of c l) = p)) \<and> p \<noteq> -1}
           in if P = {} then -1 else Min P)"
    unfolding Let_def
    by (rule max_load_scan_spec) (use assms in \<open>auto simp: states_complete_def levels_ok_def loader_infos_eq\<close>)
  moreover have "{p. (p = -1 \<or> (\<exists>l \<in> set (lc_loaders c). ls_next_load_position_us (info_of c l) = p)) \<and> p \<noteq> -1} =
      load_positions c"
    unfolding loader_infos_eq [OF assms(1)] load_positions_def by auto
  ultimately show ?thesis unfolding earliest_def by simp
qed

lemma max_load_scan_updates:
  "max_load_scan (c\<lparr>lc_filling_buffers := f\<rparr>) ls m = max_load_scan c ls m"
  "max_load_scan (c\<lparr>lc_last_loading_notify := f\<rparr>) ls m = max_load_scan c ls m"
  "max_load_scan (c\<lparr>lc_events := ev\<rparr>) ls m = max_load_scan c ls m"
  by (induction ls arbitrary: m) (simp_all add: loader_state_at_def)

lemma highest_level:
  assumes "finite S" "S \<subseteq> {0, 1, 2 :: int}" "S \<noteq> {}"
  shows "Max S = 2 \<longleftrightarrow> 2 \<in> S" "Max S = 1 \<longleftrightarrow> 1 \<in> S \<and> 2 \<notin> S"
  using Max_in [OF assms(1,3)] assms(2) Max_ge [OF assms(1)] by force+

text \<open>The two loops compute the declarative state.\<close>

lemma UpdateControlState_settle:
  assumes "states_complete c" "levels_ok c"
  shows "UpdateControlState c = Inr (settle c)"
proof -
  let ?L = "insert (lc_buffer_state c) (ls_buffer_state ` loader_infos c)"
  have fin: "finite ?L" using loader_infos_finite [OF assms(1)] by simp
  have sub: "?L \<subseteq> {0, 1, 2}" using assms(2) by (auto simp: levels_ok_def)
  have scan: "control_scan c (lc_loaders c) False False (lc_buffer_state c) =
      Inr (\<exists>s \<in> loader_infos c. ls_loading s, \<exists>s \<in> loader_infos c. ls_next_load_position_us s \<noteq> -1, Max ?L)"
    using assms(1) control_scan_spec [of "lc_loaders c" c False False "lc_buffer_state c"]
    by (simp add: states_complete_def loader_infos_eq [OF assms(1)] foldl_max image_image)
  have fill: "(lc_loaders c \<noteq> [] \<and> ((\<exists>s \<in> loader_infos c. ls_loading s) \<or> (\<exists>s \<in> loader_infos c. ls_next_load_position_us s \<noteq> -1)) \<and>
      (Max ?L = kBelowLowWatermark \<or> Max ?L = kBetweenWatermarks \<and> lc_filling_buffers c)) = should_fill c"
  proof -
    have "lc_loaders c \<noteq> []" if "has_demand c" using that by (auto simp: has_demand_def loader_infos_eq [OF assms(1)])
    moreover have "at_level c n \<longleftrightarrow> n \<in> ?L" for n by (auto simp: at_level_def)
    ultimately show ?thesis unfolding should_fill_def watermark_defs highest_level [OF fin sub insert_not_empty]
      unfolding has_demand_def by blast
  qed
  show ?thesis
    unfolding UpdateControlState_def scan Let_def and_then_simps prod.case fill NotifyLoadingChanged_def settle_def
    using earliest_scan [OF assms] by (simp add: max_load_scan_updates)
qed

section \<open>Invariant\<close>

lemma settle_infos [simp]:
  "lc_loaders (settle c) = lc_loaders c" "lc_loader_states (settle c) = lc_loader_states c"
  "lc_buffer_state (settle c) = lc_buffer_state c" "lc_target_buffer_size (settle c) = lc_target_buffer_size c"
  "lc_event_listener (settle c) = lc_event_listener c" "loader_infos (settle c) = loader_infos c"
  by (simp_all add: settle_def Let_def loader_infos_def)

lemma settle_filling [simp]: "lc_filling_buffers (settle c) = should_fill c"
  by (simp add: settle_def Let_def)

lemma settle_max [simp]: "lc_max_load_start_position_us (settle c) = (if should_fill c then earliest c else -1)"
  by (simp add: settle_def Let_def)

lemma settle_levels [simp]: "at_level (settle c) n = at_level c n" "has_demand (settle c) = has_demand c"
    "earliest (settle c) = earliest c"
  by (simp_all add: at_level_def has_demand_def earliest_def load_positions_def)

lemma settle_idem: "settle (settle c) = settle c"
proof -
  have f: "should_fill (settle c) = should_fill c" by (auto simp: should_fill_def)
  show ?thesis unfolding settle_def [of "settle c"] f by (auto simp: settle_def Let_def loader_infos_def earliest_def load_positions_def)
qed

text \<open>The notifications alternate, beginning with a start of loading.\<close>

fun events_end :: "bool \<Rightarrow> bool list \<Rightarrow> bool option" where
  "events_end cur [] = Some cur"
| "events_end cur (e # es) = (if e = cur then None else events_end e es)"

lemma events_end_snoc:
  "events_end cur es = Some b \<Longrightarrow> events_end cur (es @ [e]) = (if e = b then None else Some e)"
  by (induction es arbitrary: cur) (auto split: if_splits)

text \<open>Up to date, or freshly constructed with no position known.\<close>

definition settled :: "load_control \<Rightarrow> bool" where
  "settled c \<longleftrightarrow> settle c = c \<or>
     settle c = c\<lparr>lc_max_load_start_position_us := -1\<rparr> \<and> (\<forall>s \<in> loader_infos c. ls_next_load_position_us s = -1)"

definition lc_inv :: "load_control \<Rightarrow> bool" where
  "lc_inv c \<longleftrightarrow> sorted (lc_loaders c) \<and> distinct (lc_loaders c) \<and> states_complete c \<and> levels_ok c \<and> settled c \<and>
     (\<forall>s \<in> loader_infos c. 0 \<le> ls_buffer_size_contribution s) \<and>
     lc_target_buffer_size c = (\<Sum>l \<in> set (lc_loaders c). ls_buffer_size_contribution (info_of c l)) \<and>
     lc_target_buffer_size c < 2 ^ 31 \<and>
     (lc_event_listener c \<longrightarrow> events_end False (lc_events c) = Some (lc_last_loading_notify c))"

lemma settle_events:
  assumes "lc_event_listener c \<longrightarrow> events_end False (lc_events c) = Some (lc_last_loading_notify c)"
  shows "lc_event_listener c \<longrightarrow> events_end False (lc_events (settle c)) = Some (lc_last_loading_notify (settle c))"
  using assms by (auto simp: settle_def Let_def events_end_snoc)

lemma settle_inv:
  assumes "sorted (lc_loaders c)" "distinct (lc_loaders c)" "states_complete c" "levels_ok c"
    and "\<forall>s \<in> loader_infos c. 0 \<le> ls_buffer_size_contribution s"
    and "lc_target_buffer_size c = (\<Sum>l \<in> set (lc_loaders c). ls_buffer_size_contribution (info_of c l))"
    and "lc_target_buffer_size c < 2 ^ 31"
    and "lc_event_listener c \<longrightarrow> events_end False (lc_events c) = Some (lc_last_loading_notify c)"
  shows "lc_inv (settle c)"
  using assms settle_events [OF assms(8)]
  by (simp add: lc_inv_def settled_def settle_idem states_complete_def levels_ok_def)

lemma new_inv: "lc_inv (LoadControl_new ev low high lload hload)"
  by (simp add: lc_inv_def LoadControl_new_def states_complete_def levels_ok_def loader_infos_def settled_def settle_def
      should_fill_def has_demand_def)

lemma register_fields [simp]:
  "lc_buffer_state (Register c l b) = lc_buffer_state c" "lc_filling_buffers (Register c l b) = lc_filling_buffers c"
  "lc_events (Register c l b) = lc_events c" "lc_event_listener (Register c l b) = lc_event_listener c"
  "lc_last_loading_notify (Register c l b) = lc_last_loading_notify c"
  "lc_target_buffer_size (Register c l b) = lc_target_buffer_size c + b"
  by (simp_all add: Register_def)

lemma register_infos:
  assumes "states_complete c" "l \<notin> set (lc_loaders c)"
  shows "loader_infos (Register c l b) = insert (LoaderState_new b) (loader_infos c)"
proof -
  have "lc_loader_states c l = None" using assms by (auto simp: states_complete_def)
  then show ?thesis by (simp add: loader_infos_def Register_def)
qed

lemma register_settled:
  assumes "lc_inv c" "l \<notin> set (lc_loaders c)"
  shows "settled (Register c l b)"
proof -
  let ?r = "Register c l b"
  have i: "loader_infos ?r = insert (LoaderState_new b) (loader_infos c)"
    using assms by (intro register_infos) (simp_all add: lc_inv_def)
  have d: "has_demand ?r = has_demand c" by (simp add: has_demand_def i LoaderState_new_def)
  have lev: "at_level ?r n = at_level c n" if "n \<noteq> 0" for n
    using that by (auto simp: at_level_def i LoaderState_new_def watermark_defs)
  have f: "should_fill ?r = should_fill c"
    by (simp add: should_fill_def d lev watermark_defs)
  have "load_positions ?r = load_positions c" by (simp add: load_positions_def i LoaderState_new_def)
  then have e: "earliest ?r = earliest c" by (simp add: earliest_def)
  have ld: "(\<exists>s \<in> loader_infos ?r. ls_loading s) = (\<exists>s \<in> loader_infos c. ls_loading s)" by (simp add: i LoaderState_new_def)
  have sr: "settle ?r = ?r\<lparr>lc_filling_buffers := lc_filling_buffers (settle c), lc_last_loading_notify := lc_last_loading_notify (settle c),
      lc_events := lc_events (settle c), lc_max_load_start_position_us := lc_max_load_start_position_us (settle c)\<rparr>"
    unfolding settle_def [of ?r] f e ld by (simp add: settle_def Let_def)
  have "settled c" using assms by (simp add: lc_inv_def)
  then consider "settle c = c" | "settle c = c\<lparr>lc_max_load_start_position_us := -1\<rparr>"
      "\<forall>s \<in> loader_infos c. ls_next_load_position_us s = -1" unfolding settled_def by blast
  then show ?thesis
  proof cases
    case 1
    have "settle ?r = ?r" unfolding sr 1 by (cases c) (simp add: Register_def)
    then show ?thesis by (simp add: settled_def)
  next
    case 2
    have "settle ?r = ?r\<lparr>lc_max_load_start_position_us := -1\<rparr>" unfolding sr 2(1) by (cases c) (simp add: Register_def)
    then show ?thesis using 2(2) by (simp add: settled_def i LoaderState_new_def)
  qed
qed

lemma register_inv:
  assumes "lc_inv c" "l \<notin> set (lc_loaders c)" "0 \<le> b" "lc_target_buffer_size c + b < 2 ^ 31"
  shows "lc_inv (Register c l b)"
proof -
  let ?r = "Register c l b"
  have i: "loader_infos ?r = insert (LoaderState_new b) (loader_infos c)"
    using assms by (intro register_infos) (simp_all add: lc_inv_def)
  have ls: "lc_loaders ?r = insort l (lc_loaders c)" using assms(2) by (simp add: Register_def set_insert_def)
  have sum: "(\<Sum>k \<in> set (lc_loaders c). ls_buffer_size_contribution (info_of ?r k)) =
      (\<Sum>k \<in> set (lc_loaders c). ls_buffer_size_contribution (info_of c k))"
    by (rule sum.cong) (use assms(2) in \<open>auto simp: Register_def\<close>)
  have "lc_target_buffer_size ?r = (\<Sum>k \<in> set (lc_loaders ?r). ls_buffer_size_contribution (info_of ?r k))"
    unfolding ls set_insort_key using assms(1,2)
    by (simp add: sum) (simp add: Register_def lc_inv_def LoaderState_new_def)
  moreover have "states_complete ?r"
    using assms(1,2) by (auto simp: lc_inv_def states_complete_def Register_def set_insert_def set_insort_key)
  moreover have "levels_ok ?r" using assms(1)
    by (simp add: levels_ok_def i lc_inv_def LoaderState_new_def watermark_defs)
  moreover have "\<forall>s \<in> loader_infos ?r. 0 \<le> ls_buffer_size_contribution s"
    using assms(1,3) by (simp add: i lc_inv_def LoaderState_new_def)
  moreover have "lc_target_buffer_size ?r < 2 ^ 31" using assms(4) by (simp add: Register_def)
  moreover have "lc_event_listener ?r \<longrightarrow> events_end False (lc_events ?r) = Some (lc_last_loading_notify ?r)"
    using assms(1) by (simp add: lc_inv_def)
  ultimately show ?thesis using assms register_settled [OF assms(1,2)]
    by (simp add: lc_inv_def ls sorted_insort distinct_insort)
qed

lemma unregister_inv:
  assumes "lc_inv c" "l \<in> set (lc_loaders c)"
  shows "\<exists>c'. Unregister c l = Inr c' \<and> lc_inv c' \<and> lc_loaders c' = removeAll l (lc_loaders c) \<and>
    lc_loader_states c' = (lc_loader_states c)(l := None)"
proof -
  let ?u = "c\<lparr>lc_loaders := removeAll l (lc_loaders c),
      lc_target_buffer_size := lc_target_buffer_size c - ls_buffer_size_contribution (info_of c l),
      lc_loader_states := (lc_loader_states c)(l := None)\<rparr>"
  note inv = assms(1) [unfolded lc_inv_def]
  have dom: "l \<in> dom (lc_loader_states c)" using assms by (auto simp: lc_inv_def states_complete_def)
  have complete: "states_complete ?u" using inv by (auto simp: states_complete_def)
  have sub: "loader_infos ?u \<subseteq> loader_infos c" by (auto simp: loader_infos_def ran_def split: if_splits)
  have levels: "levels_ok ?u" using inv sub by (auto simp: levels_ok_def)
  have sum: "lc_target_buffer_size ?u = (\<Sum>k \<in> set (lc_loaders ?u). ls_buffer_size_contribution (info_of ?u k))"
    using inv assms(2) by (auto simp: sum_diff1 intro!: sum.cong)
  have "0 \<le> ls_buffer_size_contribution (info_of c l)" using inv dom by (auto simp: loader_infos_def ran_def)
  then have "lc_inv (settle ?u)"
    using inv sub complete levels sum by (intro settle_inv) (auto simp: sorted_filter [of id, simplified] removeAll_filter_not_eq)
  moreover have "Unregister c l = Inr (settle ?u)"
    using UpdateControlState_settle [OF complete levels] loader_state_at_dom [OF dom]
    by (simp add: Unregister_def loader_state_at_def dom_def Let_def)
  ultimately show ?thesis by (intro exI [of _ "settle ?u"]) simp
qed

text \<open>The state after a loader has reported and before the control state is recomputed.\<close>

definition reported :: "load_control \<Rightarrow> default_allocator \<Rightarrow> loader \<Rightarrow> int \<Rightarrow> int \<Rightarrow> bool \<Rightarrow> load_control" where
  "reported c a l pos nxt loading =
     c\<lparr>lc_loader_states := (lc_loader_states c)(l \<mapsto> (info_of c l)\<lparr>ls_buffer_state := GetLoaderBufferState c pos nxt,
         ls_next_load_position_us := nxt, ls_loading := loading\<rparr>),
       lc_buffer_state := GetBufferState c (narrow32 (GetTotalBytesAllocated a))\<rparr>"

lemma state_ranges: "GetLoaderBufferState c pos nxt \<in> {0, 1, 2}" "GetBufferState c b \<in> {0, 1, 2}"
  by (auto simp: GetLoaderBufferState_def GetBufferState_def watermark_defs Let_def)

lemma reported_fields [simp]:
  "lc_loaders (reported c a l pos nxt loading) = lc_loaders c"
  "lc_target_buffer_size (reported c a l pos nxt loading) = lc_target_buffer_size c"
  "lc_filling_buffers (reported c a l pos nxt loading) = lc_filling_buffers c"
  "lc_events (reported c a l pos nxt loading) = lc_events c"
  "lc_event_listener (reported c a l pos nxt loading) = lc_event_listener c"
  "lc_last_loading_notify (reported c a l pos nxt loading) = lc_last_loading_notify c"
  by (simp_all add: reported_def)

lemma reported_ok:
  assumes "lc_inv c" "l \<in> set (lc_loaders c)" "-1 \<le> nxt" and r_def: "r = reported c a l pos nxt loading"
  shows "states_complete r" "levels_ok r" "lc_inv (settle r)"
proof -
  note inv = assms(1) [unfolded lc_inv_def]
  have dom: "l \<in> dom (lc_loader_states c)" using assms by (auto simp: lc_inv_def states_complete_def)
  show complete: "states_complete r" using inv dom by (auto simp: states_complete_def r_def reported_def)
  have new: "s \<in> loader_infos r \<Longrightarrow> s \<in> loader_infos c \<or>
      s = (info_of c l)\<lparr>ls_buffer_state := GetLoaderBufferState c pos nxt, ls_next_load_position_us := nxt, ls_loading := loading\<rparr>" for s
    by (auto simp: loader_infos_def ran_def r_def reported_def split: if_splits)
  have lin: "info_of c l \<in> loader_infos c" using dom by (auto simp: loader_infos_def ran_def)
  have "ls_buffer_state s \<in> {0, 1, 2} \<and> -1 \<le> ls_next_load_position_us s \<and> 0 \<le> ls_buffer_size_contribution s"
    if "s \<in> loader_infos r" for s
    using new [OF that] inv lin assms(3) state_ranges(1) [of c pos nxt] by (auto simp: levels_ok_def)
  then show levels: "levels_ok r" and "lc_inv (settle r)"
    using state_ranges(2) [of c "narrow32 (GetTotalBytesAllocated a)"] inv complete
    by (auto simp: levels_ok_def r_def reported_def intro!: settle_inv sum.cong)
qed

lemma GetBufferState_target: "lc_target_buffer_size c' = lc_target_buffer_size c \<Longrightarrow>
    lc_low_buffer_load c' = lc_low_buffer_load c \<Longrightarrow> lc_high_buffer_load c' = lc_high_buffer_load c \<Longrightarrow>
    GetBufferState c' b = GetBufferState c b"
  by (simp add: GetBufferState_def Let_def)

text \<open>\<open>Update\<close> recomputes the control state, or nothing changed.\<close>

lemma Update_reported:
  assumes "lc_inv c" "l \<in> set (lc_loaders c)" "-1 \<le> nxt" and r_def: "r = reported c a l pos nxt loading"
  shows "\<exists>c'. Update c a l pos nxt loading =
      Inr (GetTotalBytesAllocated a < wrap64 (lc_target_buffer_size c) \<and> nxt \<noteq> -1 \<and> nxt \<le> lc_max_load_start_position_us c', c') \<and>
    (c' = settle r \<or> r = c \<and> c' = c)"
proof -
  have dom: "l \<in> dom (lc_loader_states c)" using assms by (auto simp: lc_inv_def states_complete_def)
  let ?s = "info_of c l"
  let ?s' = "?s\<lparr>ls_buffer_state := GetLoaderBufferState c pos nxt, ls_next_load_position_us := nxt, ls_loading := loading\<rparr>"
  let ?b = "GetBufferState c (narrow32 (GetTotalBytesAllocated a))"
  let ?ch = "ls_buffer_state ?s \<noteq> GetLoaderBufferState c pos nxt \<or> ls_next_load_position_us ?s \<noteq> nxt \<or> ls_loading ?s \<noteq> loading"
  let ?c1 = "if ?ch then c\<lparr>lc_loader_states := (lc_loader_states c)(l \<mapsto> ?s')\<rparr> else c"
  have same: "?s' = ?s" if "\<not> ?ch" using that by (cases ?s) auto
  have c1: "?c1 = c\<lparr>lc_loader_states := (lc_loader_states c)(l \<mapsto> ?s')\<rparr>"
    using same dom by (cases c) (auto simp: map_upd_triv)
  have b1: "GetBufferState ?c1 x = GetBufferState c x" for x by (rule GetBufferState_target) simp_all
  have c2: "(if lc_buffer_state ?c1 \<noteq> ?b then ?c1\<lparr>lc_buffer_state := ?b\<rparr> else ?c1) = r"
    unfolding c1 r_def reported_def by (cases c) auto
  have nochange: "r = c" if "\<not> ?ch" "lc_buffer_state ?c1 = ?b"
    using c2 that by simp
  have "UpdateControlState r = Inr (settle r)" using UpdateControlState_settle reported_ok [OF assms] by blast
  moreover have "lc_target_buffer_size r = lc_target_buffer_size c" by (simp add: r_def)
  ultimately show ?thesis
    unfolding Update_def loader_state_at_dom [OF dom] Let_def and_then_simps b1 c2
    using nochange by (cases "?ch \<or> lc_buffer_state ?c1 \<noteq> ?b") auto
qed

lemma settle_eq_max: "settled c \<Longrightarrow> lc_filling_buffers c = should_fill c"
proof -
  assume "settled c"
  then have "lc_filling_buffers (settle c) = lc_filling_buffers c" unfolding settled_def
    by (elim disjE conjE) (simp_all del: settle_filling)
  then show ?thesis by simp
qed

text \<open>The answer and the new state in terms of the report.\<close>

lemma Update_spec:
  assumes "lc_inv c" "l \<in> set (lc_loaders c)" "-1 \<le> nxt" and r_def: "r = reported c a l pos nxt loading"
  shows "\<exists>ok c'. Update c a l pos nxt loading = Inr (ok, c') \<and> lc_inv c' \<and>
    lc_loader_states c' = lc_loader_states r \<and> lc_loaders c' = lc_loaders c \<and> lc_buffer_state c' = lc_buffer_state r \<and>
    lc_target_buffer_size c' = lc_target_buffer_size c \<and> lc_filling_buffers c' = should_fill r \<and>
    (ok \<longleftrightarrow> GetTotalBytesAllocated a < lc_target_buffer_size c \<and> nxt \<noteq> -1 \<and> should_fill r \<and> nxt \<le> earliest r)"
proof -
  note inv = assms(1) [unfolded lc_inv_def]
  obtain c' where u: "Update c a l pos nxt loading =
      Inr (GetTotalBytesAllocated a < wrap64 (lc_target_buffer_size c) \<and> nxt \<noteq> -1 \<and> nxt \<le> lc_max_load_start_position_us c', c')"
      "c' = settle r \<or> r = c \<and> c' = c"
    using Update_reported [OF assms] by blast
  have "0 \<le> lc_target_buffer_size c" using inv by (auto intro!: sum_nonneg simp: loader_infos_eq)
  then have w: "wrap64 (lc_target_buffer_size c) = lc_target_buffer_size c" using inv by (intro wrap64_id) auto
  have nin: "nxt \<in> ls_next_load_position_us ` loader_infos r"
    by (rule image_eqI [of _ _ "the (lc_loader_states r l)"]) (auto simp: r_def reported_def loader_infos_def ran_def)
  have max: "lc_max_load_start_position_us c' = (if should_fill r then earliest r else -1)" if "nxt \<noteq> -1"
    using u(2)
  proof
    assume c: "r = c \<and> c' = c"
    have "\<not> (\<forall>s \<in> loader_infos c. ls_next_load_position_us s = -1)" using nin that c by auto
    then have "settle c = c" using inv by (auto simp: settled_def)
    then show ?thesis using c settle_max [of c] by simp
  qed simp
  have fill: "lc_filling_buffers c' = should_fill r" using u(2) settle_eq_max [of c] inv by auto
  have "lc_inv c'" using u(2) assms(1) reported_ok(3) [OF assms] by auto
  moreover have "nxt \<noteq> -1 \<Longrightarrow> 0 \<le> nxt" using assms(3) by simp
  ultimately show ?thesis using u max fill w
    by (intro exI [of _ "GetTotalBytesAllocated a < wrap64 (lc_target_buffer_size c) \<and> nxt \<noteq> -1 \<and> nxt \<le> lc_max_load_start_position_us c'"]
      exI [of _ c']) (auto simp: r_def)
qed

lemma earliest_le:
  assumes "states_complete c" "p \<in> load_positions c"
  shows "p \<le> earliest c \<longleftrightarrow> (\<forall>q \<in> load_positions c. p \<le> q)"
proof -
  have "finite (load_positions c)" using loader_infos_finite [OF assms(1)] by (simp add: load_positions_def)
  then show ?thesis using assms(2) by (auto simp: earliest_def)
qed

section \<open>Reachable states\<close>

text \<open>
  The protocol of the players: a loader registers once with a non-negative contribution (the sum
  stays an \<open>int32_t\<close>), and reports and unregisters only while registered.
\<close>

inductive control_reach :: "load_control \<Rightarrow> bool" where
  reach_new: "control_reach (LoadControl_new ev low high lload hload)"
| reach_register: "control_reach c \<Longrightarrow> l \<notin> set (lc_loaders c) \<Longrightarrow> 0 \<le> b \<Longrightarrow> lc_target_buffer_size c + b < 2 ^ 31 \<Longrightarrow>
    control_reach (Register c l b)"
| reach_unregister: "control_reach c \<Longrightarrow> l \<in> set (lc_loaders c) \<Longrightarrow> Unregister c l = Inr c' \<Longrightarrow> control_reach c'"
| reach_update: "control_reach c \<Longrightarrow> l \<in> set (lc_loaders c) \<Longrightarrow> -1 \<le> nxt \<Longrightarrow>
    Update c a l pos nxt loading = Inr (ok, c') \<Longrightarrow> control_reach c'"

lemma control_reach_inv: "control_reach c \<Longrightarrow> lc_inv c"
proof (induction rule: control_reach.induct)
  case (reach_unregister c l c')
  then show ?case using unregister_inv [of c l] by auto
next
  case (reach_update c l nxt a pos loading ok c')
  then show ?case using Update_spec [OF reach_update.IH reach_update.hyps(2,3) refl, of a pos loading] by auto
qed (simp_all add: new_inv register_inv)

lemma control_reach_facts:
  assumes "control_reach c"
  shows "set (lc_loaders c) = dom (lc_loader_states c)"
    and "lc_target_buffer_size c = (\<Sum>l \<in> set (lc_loaders c). ls_buffer_size_contribution (the (lc_loader_states c l)))"
    and "lc_filling_buffers c \<Longrightarrow> lc_last_loading_notify c"
    and "lc_last_loading_notify c \<Longrightarrow> lc_filling_buffers c \<or> (\<exists>l s. lc_loader_states c l = Some s \<and> ls_loading s)"
    and "lc_event_listener c \<Longrightarrow> events_end False (lc_events c) = Some (lc_last_loading_notify c)"
    and "l \<in> set (lc_loaders c) \<Longrightarrow> \<exists>c'. Unregister c l = Inr c'"
    and "l \<in> set (lc_loaders c) \<Longrightarrow> -1 \<le> nxt \<Longrightarrow> \<exists>r. Update c a l pos nxt loading = Inr r"
proof -
  note i = control_reach_inv [OF assms]
  note inv = i [unfolded lc_inv_def]
  show "set (lc_loaders c) = dom (lc_loader_states c)"
    and "lc_target_buffer_size c = (\<Sum>l \<in> set (lc_loaders c). ls_buffer_size_contribution (the (lc_loader_states c l)))"
    and "lc_event_listener c \<Longrightarrow> events_end False (lc_events c) = Some (lc_last_loading_notify c)"
    using inv by (simp_all add: states_complete_def)
  have n: "lc_last_loading_notify c = (should_fill c \<or> lc_last_loading_notify c \<and> (\<exists>s \<in> loader_infos c. ls_loading s))"
  proof -
    have "lc_last_loading_notify (settle c) = lc_last_loading_notify c" using inv by (auto simp: settled_def)
    then show ?thesis by (simp add: settle_def Let_def)
  qed
  have f: "lc_filling_buffers c = should_fill c" using inv settle_eq_max by blast
  show "lc_filling_buffers c \<Longrightarrow> lc_last_loading_notify c" using n f by blast
  show "lc_last_loading_notify c \<Longrightarrow> lc_filling_buffers c \<or> (\<exists>l s. lc_loader_states c l = Some s \<and> ls_loading s)"
    using n f by (auto simp: loader_infos_def ran_def)
  show "l \<in> set (lc_loaders c) \<Longrightarrow> \<exists>c'. Unregister c l = Inr c'" using unregister_inv [OF i] by blast
  show "l \<in> set (lc_loaders c) \<Longrightarrow> -1 \<le> nxt \<Longrightarrow> \<exists>r. Update c a l pos nxt loading = Inr r"
    using Update_spec [OF i _ _ refl] by blast
qed

text \<open>
  C31. In every state the protocol reaches, both loaders' operations are defined, the target is the
  sum of the registered contributions, the control is loading only when it said so, and the listener
  hears starts and ends of loading strictly alternating.
\<close>

theorem control_reachable_safe:
  assumes "control_reach c"
  shows "set (lc_loaders c) = dom (lc_loader_states c) \<and>
    lc_target_buffer_size c = (\<Sum>l \<in> set (lc_loaders c). ls_buffer_size_contribution (the (lc_loader_states c l))) \<and>
    (lc_filling_buffers c \<longrightarrow> lc_last_loading_notify c) \<and>
    (lc_last_loading_notify c \<longrightarrow> lc_filling_buffers c \<or> (\<exists>l s. lc_loader_states c l = Some s \<and> ls_loading s)) \<and>
    (lc_event_listener c \<longrightarrow> events_end False (lc_events c) = Some (lc_last_loading_notify c)) \<and>
    (\<forall>l \<in> set (lc_loaders c). (\<exists>c'. Unregister c l = Inr c') \<and>
       (\<forall>a pos nxt loading. -1 \<le> nxt \<longrightarrow> (\<exists>r. Update c a l pos nxt loading = Inr r)))"
  using control_reach_facts [OF assms] by blast

definition idle_allocator :: default_allocator where
  "idle_allocator = \<lparr>da_individual_allocation_size = 1000, da_allocated_count = 0, da_heap = Map.empty, da_next = 0\<rparr>"

definition demo_control :: load_control where
  "demo_control = Register (Register (LoadControl_new True 30 30 (1 / 2) (1 / 2)) 1 5000) 2 3000"

lemma demo_control_reach: "control_reach demo_control" "set (lc_loaders demo_control) = {1, 2}"
  unfolding demo_control_def
  by (intro reach_register reach_new; simp add: LoadControl_new_def Register_def set_insert_def)
    (simp add: LoadControl_new_def Register_def set_insert_def insert_commute)

theorem control_reachable_safe_witness:
  "lc_target_buffer_size demo_control = 8000 \<and> (\<exists>r. Update demo_control idle_allocator 1 0 0 False = Inr r)"
proof -
  have s: "set (lc_loaders demo_control) = {1, 2}" by (rule demo_control_reach)
  have "lc_target_buffer_size demo_control =
      (\<Sum>l \<in> {1, 2}. ls_buffer_size_contribution (the (lc_loader_states demo_control l)))"
    using control_reachable_safe [OF demo_control_reach(1)] by (simp only: s)
  moreover have "\<exists>r. Update demo_control idle_allocator 1 0 0 False = Inr r"
    using control_reachable_safe [OF demo_control_reach(1)] unfolding s by simp
  ultimately show ?thesis by (simp add: demo_control_def Register_def LoaderState_new_def)
qed

lemma update_permits_core:
  assumes "control_reach c" "l \<in> set (lc_loaders c)" "-1 \<le> nxt"
  shows "\<exists>ok c'. Update c a l pos nxt loading = Inr (ok, c') \<and>
    (ok \<longleftrightarrow> lc_filling_buffers c' \<and> GetTotalBytesAllocated a < lc_target_buffer_size c \<and> nxt \<noteq> -1 \<and>
       (\<forall>l' s. lc_loader_states c' l' = Some s \<and> ls_next_load_position_us s \<noteq> -1 \<longrightarrow> nxt \<le> ls_next_load_position_us s))"
proof -
  let ?r = "reported c a l pos nxt loading"
  note i = control_reach_inv [OF assms(1)]
  obtain ok c' where u: "Update c a l pos nxt loading = Inr (ok, c')" "lc_loader_states c' = lc_loader_states ?r"
      "lc_filling_buffers c' = should_fill ?r"
      "ok \<longleftrightarrow> GetTotalBytesAllocated a < lc_target_buffer_size c \<and> nxt \<noteq> -1 \<and> should_fill ?r \<and> nxt \<le> earliest ?r"
    using Update_spec [OF i assms(2,3) refl] by blast
  have "nxt \<in> load_positions ?r" if "nxt \<noteq> -1"
    using that by (auto simp: load_positions_def loader_infos_def ran_def reported_def intro!: image_eqI
        [of _ _ "(info_of c l)\<lparr>ls_buffer_state := GetLoaderBufferState c pos nxt, ls_next_load_position_us := nxt, ls_loading := loading\<rparr>"])
  then have "nxt \<le> earliest ?r \<longleftrightarrow> (\<forall>q \<in> load_positions ?r. nxt \<le> q)" if "nxt \<noteq> -1"
    using earliest_le [OF reported_ok(1) [OF i assms(2,3) refl]] that by blast
  moreover have "(\<forall>q \<in> load_positions ?r. nxt \<le> q) \<longleftrightarrow>
      (\<forall>l' s. lc_loader_states c' l' = Some s \<and> ls_next_load_position_us s \<noteq> -1 \<longrightarrow> nxt \<le> ls_next_load_position_us s)"
    unfolding u(2) by (auto simp: load_positions_def loader_infos_def ran_def)
  ultimately show ?thesis using u by blast
qed

text \<open>
  C5. A report is answered with permission to load exactly when the control is filling, memory is
  available, the loader has a next position, and no other loader's next position is earlier: no
  loader gets ahead of the others.
\<close>

theorem update_permits_earliest:
  assumes "control_reach c" "l \<in> set (lc_loaders c)" "-1 \<le> nxt"
  shows "\<exists>ok c'. Update c a l pos nxt loading = Inr (ok, c') \<and>
    (ok \<longleftrightarrow> lc_filling_buffers c' \<and> GetTotalBytesAllocated a < lc_target_buffer_size c \<and> nxt \<noteq> -1 \<and>
       (\<forall>l' s. lc_loader_states c' l' = Some s \<and> ls_next_load_position_us s \<noteq> -1 \<longrightarrow> nxt \<le> ls_next_load_position_us s))"
  by (rule update_permits_core [OF assms])

lemma demo_update: "\<exists>c'. Update demo_control idle_allocator 1 0 0 False = Inr (True, c') \<and> lc_filling_buffers c' \<and>
    ls_next_load_position_us (the (lc_loader_states c' 2)) = -1"
  by (simp add: Update_def demo_control_def idle_allocator_def LoadControl_new_def Register_def set_insert_def LoaderState_new_def
      loader_state_at_def GetLoaderBufferState_def GetBufferState_def GetTotalBytesAllocated_def wrap64_def narrow32_def
      UpdateControlState_def NotifyLoadingChanged_def watermark_defs fp_round_def Let_def)

theorem update_permits_earliest_witness:
  "\<exists>c'. Update demo_control idle_allocator 1 0 0 False = Inr (True, c') \<and>
     (\<forall>l' s. lc_loader_states c' l' = Some s \<and> ls_next_load_position_us s \<noteq> -1 \<longrightarrow> 0 \<le> ls_next_load_position_us s)"
proof -
  have s: "1 \<in> set (lc_loaders demo_control)" using demo_control_reach(2) by simp
  from update_permits_earliest [OF demo_control_reach(1) s, of 0 idle_allocator 0 False] demo_update show ?thesis by auto
qed

text \<open>
  Hysteresis: after a report the control fills exactly when some loader has something to load
  and either a level (of a loader or of the memory) is below its low watermark, or it was already
  filling and some level is still between the watermarks.
\<close>

theorem filling_hysteresis:
  assumes "control_reach c" "l \<in> set (lc_loaders c)" "-1 \<le> nxt"
    and "Update c a l pos nxt loading = Inr (ok, c')"
  shows "lc_buffer_state c' = GetBufferState c (narrow32 (GetTotalBytesAllocated a))"
    and "ls_buffer_state (the (lc_loader_states c' l)) = GetLoaderBufferState c pos nxt"
    and "lc_filling_buffers c' \<longleftrightarrow>
      (\<exists>k s. lc_loader_states c' k = Some s \<and> (ls_loading s \<or> ls_next_load_position_us s \<noteq> -1)) \<and>
      ((\<exists>k s. lc_loader_states c' k = Some s \<and> ls_buffer_state s = kBelowLowWatermark) \<or>
       lc_buffer_state c' = kBelowLowWatermark \<or>
       lc_filling_buffers c \<and>
        ((\<exists>k s. lc_loader_states c' k = Some s \<and> ls_buffer_state s = kBetweenWatermarks) \<or>
         lc_buffer_state c' = kBetweenWatermarks))"
proof -
  let ?r = "reported c a l pos nxt loading"
  have u: "lc_loader_states c' = lc_loader_states ?r" "lc_buffer_state c' = lc_buffer_state ?r"
      "lc_filling_buffers c' = should_fill ?r"
    using Update_spec [OF control_reach_inv [OF assms(1)] assms(2,3) refl, of a pos loading] assms(4) by auto
  show "lc_buffer_state c' = GetBufferState c (narrow32 (GetTotalBytesAllocated a))"
    and "ls_buffer_state (the (lc_loader_states c' l)) = GetLoaderBufferState c pos nxt"
    by (simp_all add: u reported_def)
  show "lc_filling_buffers c' \<longleftrightarrow>
      (\<exists>k s. lc_loader_states c' k = Some s \<and> (ls_loading s \<or> ls_next_load_position_us s \<noteq> -1)) \<and>
      ((\<exists>k s. lc_loader_states c' k = Some s \<and> ls_buffer_state s = kBelowLowWatermark) \<or>
       lc_buffer_state c' = kBelowLowWatermark \<or>
       lc_filling_buffers c \<and>
        ((\<exists>k s. lc_loader_states c' k = Some s \<and> ls_buffer_state s = kBetweenWatermarks) \<or>
         lc_buffer_state c' = kBetweenWatermarks))"
    unfolding u(3) should_fill_def has_demand_def at_level_def u(1,2) reported_fields loader_infos_def ran_def by blast
qed

theorem filling_hysteresis_witness:
  "\<exists>ok c'. Update demo_control idle_allocator 1 0 0 False = Inr (ok, c') \<and>
     ls_buffer_state (the (lc_loader_states c' 1)) = GetLoaderBufferState demo_control 0 0 \<and> lc_filling_buffers c'"
proof -
  have s: "1 \<in> set (lc_loaders demo_control)" using demo_control_reach(2) by simp
  obtain c' where c': "Update demo_control idle_allocator 1 0 0 False = Inr (True, c')" "lc_filling_buffers c'"
    using demo_update by blast
  then show ?thesis using filling_hysteresis(2) [OF demo_control_reach(1) s _ c'(1)] by auto
qed

text \<open>
  Progress: a loader that is about to run dry (less than the low watermark ahead of playback),
  while no other loader waits for an earlier position and the buffers are below their target size, is
  always allowed to load.
\<close>

theorem starving_loader_may_load:
  assumes "control_reach c" "l \<in> set (lc_loaders c)" "0 \<le> nxt" "nxt - pos < lc_low_watermark_us c"
    and "lc_low_watermark_us c \<le> lc_high_watermark_us c"
    and "\<And>k s. lc_loader_states c k = Some s \<Longrightarrow> k \<noteq> l \<Longrightarrow> ls_next_load_position_us s = -1 \<or> nxt \<le> ls_next_load_position_us s"
    and "GetTotalBytesAllocated a < lc_target_buffer_size c"
  shows "\<exists>c'. Update c a l pos nxt loading = Inr (True, c')"
proof -
  let ?r = "reported c a l pos nxt loading"
  have n: "-1 \<le> nxt" using assms(3) by simp
  obtain ok c' where u: "Update c a l pos nxt loading = Inr (ok, c')"
      "ok \<longleftrightarrow> lc_filling_buffers c' \<and> GetTotalBytesAllocated a < lc_target_buffer_size c \<and> nxt \<noteq> -1 \<and>
       (\<forall>l' s. lc_loader_states c' l' = Some s \<and> ls_next_load_position_us s \<noteq> -1 \<longrightarrow> nxt \<le> ls_next_load_position_us s)"
    using update_permits_core [OF assms(1,2) n] by blast
  then have v: "lc_loader_states c' = lc_loader_states ?r" "lc_filling_buffers c' = should_fill ?r"
    using Update_spec [OF control_reach_inv [OF assms(1)] assms(2) n refl, of a pos loading] by auto
  obtain s where s: "lc_loader_states ?r l = Some s" "ls_next_load_position_us s = nxt"
      "ls_buffer_state s = GetLoaderBufferState c pos nxt" by (simp add: reported_def)
  then have "s \<in> loader_infos ?r" by (auto simp: loader_infos_def ran_def)
  moreover have "GetLoaderBufferState c pos nxt = kBelowLowWatermark"
    using assms(3-5) by (simp add: GetLoaderBufferState_def)
  moreover have "ls_next_load_position_us s \<noteq> -1" using s(2) assms(3) by simp
  ultimately have "should_fill ?r" using s(3) unfolding should_fill_def has_demand_def at_level_def by metis
  moreover have "nxt \<le> ls_next_load_position_us t" if "lc_loader_states c' k = Some t" "ls_next_load_position_us t \<noteq> -1" for k t
    using that assms(6) [of k t] unfolding v(1) by (auto simp: reported_def split: if_splits)
  ultimately have ok using u(2) v(2) assms(3,7) by auto
  then show ?thesis using u(1) by auto
qed

theorem starving_loader_may_load_witness:
  "\<exists>c'. Update demo_control idle_allocator 1 0 0 False = Inr (True, c')"
proof (rule starving_loader_may_load [OF demo_control_reach(1)])
  show "1 \<in> set (lc_loaders demo_control)" using demo_control_reach(2) by simp
  fix k s
  assume "lc_loader_states demo_control k = Some s" "k \<noteq> 1"
  then show "ls_next_load_position_us s = -1 \<or> 0 \<le> ls_next_load_position_us s"
    by (auto simp: demo_control_def Register_def LoadControl_new_def LoaderState_new_def split: if_splits)
qed (simp_all add: demo_control_def Register_def LoadControl_new_def idle_allocator_def GetTotalBytesAllocated_def)

end
