(* ===== verification/Loader_Thread.thy ===== *)
theory Loader_Thread
  imports Ndash_Prelude
begin

text \<open>
  The background loader (\<open>upstream/loader_thread.cc\<close>, \<open>upstream/loader.h\<close>): one load at a time on a
  thread of its own, with a callback on the thread that started it. The tasks posted to the two
  threads are explicit, so that a cancellation may fall before, during or after the load itself:
  \<open>RunLoad\<close> is split at the call of \<open>Load()\<close>, and the step relation interleaves it with the calls of
  the owner.

  A loadable is identified by its address; the loadables whose \<open>CancelLoad\<close> was called form a set,
  because \<open>IsLoadCanceled\<close> must not be reset before the callback.
\<close>

section \<open>State\<close>

datatype loader_outcome = LOAD_COMPLETE | LOAD_CANCELED | LOAD_ERROR

datatype loader_task = Run_Load | In_Load | Done_Load

type_synonym loadable = nat

record 'c loader_thread =
  lt_started :: bool
  lt_loading :: bool
  lt_current_loadable :: "loadable option"
  lt_callback :: "'c option"
  lt_loadable_outcome :: loader_outcome
  lt_task :: "loader_task option"

definition LoaderThread_new :: "'c loader_thread" where
  "LoaderThread_new = \<lparr>lt_started = False, lt_loading = False, lt_current_loadable = None, lt_callback = None,
     lt_loadable_outcome = LOAD_ERROR, lt_task = None\<rparr>"

section \<open>Operations\<close>

text \<open>\<open>thread_starts\<close> and \<open>posted\<close> are the results of \<open>Thread::Start\<close> and \<open>PostTaskAndReply\<close>.\<close>

definition StartLoading :: "bool \<Rightarrow> bool \<Rightarrow> loadable \<Rightarrow> 'c \<Rightarrow> 'c loader_thread \<Rightarrow> bool \<times> 'c loader_thread" where
  "StartLoading thread_starts posted loadable callback t =
     (let t1 = (if \<not> lt_started t then t\<lparr>lt_started := thread_starts\<rparr> else t)
      in if \<not> lt_started t1 then (False, t1)
         else if lt_loading t1 then (False, t1)
         else (True, t1\<lparr>lt_loading := True, lt_current_loadable := Some loadable, lt_callback := Some callback,
                        lt_task := Some (if posted then Run_Load else Done_Load)\<rparr>))"

definition IsLoading :: "'c loader_thread \<Rightarrow> bool" where
  "IsLoading t = lt_loading t"

definition CancelLoading :: "'c loader_thread \<Rightarrow> loadable set \<Rightarrow> loadable set result" where
  "CancelLoading t canceled =
     (if lt_loading t
      then (case lt_current_loadable t of None \<Rightarrow> Inl Undefined_access | Some l \<Rightarrow> Inr (insert l canceled))
      else Inr canceled)"

text \<open>The part of \<open>RunLoad\<close> before the call of \<open>Load()\<close>, and the part after it with the result.\<close>

definition RunLoad_begin :: "loadable set \<Rightarrow> 'c loader_thread \<Rightarrow> 'c loader_thread result" where
  "RunLoad_begin canceled t =
     (case lt_current_loadable t of
        None \<Rightarrow> Inl Undefined_access
      | Some l \<Rightarrow> if l \<in> canceled
                  then Inr (t\<lparr>lt_loadable_outcome := LOAD_CANCELED, lt_task := Some Done_Load\<rparr>)
                  else Inr (t\<lparr>lt_task := Some In_Load\<rparr>))"

definition RunLoad_end :: "loadable set \<Rightarrow> bool \<Rightarrow> 'c loader_thread \<Rightarrow> 'c loader_thread result" where
  "RunLoad_end canceled load_result t =
     (case lt_current_loadable t of
        None \<Rightarrow> Inl Undefined_access
      | Some l \<Rightarrow> Inr (t\<lparr>lt_loadable_outcome := (if l \<in> canceled then LOAD_CANCELED
                           else if load_result then LOAD_COMPLETE else LOAD_ERROR),
                        lt_task := Some Done_Load\<rparr>))"

text \<open>The closure that \<open>DoneLoad\<close> runs last, after it has reset the members.\<close>

definition DoneLoad :: "loadable set \<Rightarrow> 'c loader_thread \<Rightarrow> (('c \<times> loadable \<times> loader_outcome) \<times> 'c loader_thread) result" where
  "DoneLoad canceled t =
     (case (lt_current_loadable t, lt_callback t) of
        (Some l, Some callback) \<Rightarrow>
          Inr ((callback, l, if l \<in> canceled then LOAD_CANCELED else lt_loadable_outcome t),
               t\<lparr>lt_loading := False, lt_current_loadable := None, lt_callback := None,
                 lt_loadable_outcome := LOAD_ERROR, lt_task := None\<rparr>)
      | _ \<Rightarrow> Inl Undefined_access)"

section \<open>Interleavings\<close>

text \<open>
  The loader with its environment: the cancelled loadables, the loads that \<open>StartLoading\<close> accepted and
  the callbacks that ran, both oldest first.
\<close>

record 'c loader_system =
  sys_loader :: "'c loader_thread"
  sys_canceled :: "loadable set"
  sys_accepted :: "(loadable \<times> 'c) list"
  sys_callbacks :: "(loadable \<times> 'c \<times> loader_outcome) list"

definition system_new :: "'c loader_system" where
  "system_new = \<lparr>sys_loader = LoaderThread_new, sys_canceled = {}, sys_accepted = [], sys_callbacks = []\<rparr>"

text \<open>Steps of the owner, which starts and cancels, and of the threads, which run the posted tasks.\<close>

inductive owner_step :: "'c loader_system \<Rightarrow> 'c loader_system \<Rightarrow> bool" where
  step_start: "StartLoading starts posted l cb (sys_loader s) = (ok, t) \<Longrightarrow>
    owner_step s (s\<lparr>sys_loader := t, sys_accepted := sys_accepted s @ (if ok then [(l, cb)] else [])\<rparr>)"
| step_cancel: "CancelLoading (sys_loader s) (sys_canceled s) = Inr c \<Longrightarrow> owner_step s (s\<lparr>sys_canceled := c\<rparr>)"

inductive thread_step :: "'c loader_system \<Rightarrow> 'c loader_system \<Rightarrow> bool" where
  step_begin: "lt_task (sys_loader s) = Some Run_Load \<Longrightarrow> RunLoad_begin (sys_canceled s) (sys_loader s) = Inr t \<Longrightarrow>
    thread_step s (s\<lparr>sys_loader := t\<rparr>)"
| step_end: "lt_task (sys_loader s) = Some In_Load \<Longrightarrow> RunLoad_end (sys_canceled s) res (sys_loader s) = Inr t \<Longrightarrow>
    thread_step s (s\<lparr>sys_loader := t\<rparr>)"
| step_done: "lt_task (sys_loader s) = Some Done_Load \<Longrightarrow> DoneLoad (sys_canceled s) (sys_loader s) = Inr ((cb, l, out), t) \<Longrightarrow>
    thread_step s (s\<lparr>sys_loader := t, sys_callbacks := sys_callbacks s @ [(l, cb, out)]\<rparr>)"

inductive system_reach :: "'c loader_system \<Rightarrow> bool" where
  sreach_new: "system_reach system_new"
| sreach_owner: "system_reach s \<Longrightarrow> owner_step s s' \<Longrightarrow> system_reach s'"
| sreach_thread: "system_reach s \<Longrightarrow> thread_step s s' \<Longrightarrow> system_reach s'"

definition system_inv :: "'c loader_system \<Rightarrow> bool" where
  "system_inv s \<longleftrightarrow>
     (let t = sys_loader s
      in (lt_loading t \<longleftrightarrow> lt_task t \<noteq> None) \<and> (lt_loading t \<longrightarrow> lt_started t) \<and>
         (lt_loading t \<longleftrightarrow> lt_current_loadable t \<noteq> None) \<and> (lt_loading t \<longleftrightarrow> lt_callback t \<noteq> None) \<and>
         sys_accepted s = map (\<lambda>(l, cb, out). (l, cb)) (sys_callbacks s) @
           (case (lt_current_loadable t, lt_callback t) of (Some l, Some cb) \<Rightarrow> [(l, cb)] | _ \<Rightarrow> []))"

lemma owner_step_inv: "owner_step s s' \<Longrightarrow> system_inv s \<Longrightarrow> system_inv s'"
  by (induction rule: owner_step.induct)
    (auto simp: system_inv_def Let_def StartLoading_def split: if_splits option.splits)

lemma thread_step_inv: "thread_step s s' \<Longrightarrow> system_inv s \<Longrightarrow> system_inv s'"
  by (induction rule: thread_step.induct)
    (auto simp: system_inv_def Let_def RunLoad_begin_def RunLoad_end_def DoneLoad_def split: if_splits option.splits)

lemma system_reach_inv: "system_reach s \<Longrightarrow> system_inv s"
proof (induction rule: system_reach.induct)
  case sreach_new
  show ?case by (simp add: system_inv_def system_new_def LoaderThread_new_def)
qed (blast intro: owner_step_inv thread_step_inv)+

section \<open>Properties\<close>

text \<open>
  Progress: while a load is in progress a thread can always take a step (\<open>Load()\<close> returns), no more
  than three such steps are possible before the callback, and after the callback the loader is free.
\<close>

fun task_rank :: "loader_task option \<Rightarrow> nat" where
  "task_rank None = 0"
| "task_rank (Some Done_Load) = 1"
| "task_rank (Some In_Load) = 2"
| "task_rank (Some Run_Load) = 3"

lemma task_rank_le: "task_rank task \<le> 3"
  by (cases task rule: task_rank.cases) simp_all

theorem load_progress:
  assumes "system_reach s"
  shows "IsLoading (sys_loader s) \<Longrightarrow> \<exists>s'. thread_step s s'"
    and "thread_step s s' \<Longrightarrow> task_rank (lt_task (sys_loader s')) < task_rank (lt_task (sys_loader s))"
    and "thread_step s s' \<Longrightarrow> sys_callbacks s' \<noteq> sys_callbacks s \<longleftrightarrow> \<not> IsLoading (sys_loader s')"
proof -
  note inv = system_reach_inv [OF assms, unfolded system_inv_def Let_def]
  show "\<exists>s'. thread_step s s'" if "IsLoading (sys_loader s)"
  proof -
    have "lt_current_loadable (sys_loader s) \<noteq> None" "lt_callback (sys_loader s) \<noteq> None" "lt_task (sys_loader s) \<noteq> None"
      using inv that unfolding IsLoading_def by blast+
    then obtain l cb task where l: "lt_current_loadable (sys_loader s) = Some l" "lt_callback (sys_loader s) = Some cb"
      and task: "lt_task (sys_loader s) = Some task" by blast
    have "\<exists>t. RunLoad_begin (sys_canceled s) (sys_loader s) = Inr t" "\<exists>t. RunLoad_end (sys_canceled s) True (sys_loader s) = Inr t"
        "\<exists>cb l out t. DoneLoad (sys_canceled s) (sys_loader s) = Inr ((cb, l, out), t)"
      using l by (simp_all add: RunLoad_begin_def RunLoad_end_def DoneLoad_def)
    then show ?thesis using task by (cases task) (blast intro: step_begin step_end step_done)+
  qed
  show "task_rank (lt_task (sys_loader s')) < task_rank (lt_task (sys_loader s))" if "thread_step s s'"
    using that by (cases rule: thread_step.cases)
      (auto simp: RunLoad_begin_def RunLoad_end_def DoneLoad_def split: option.splits if_splits)
  show "sys_callbacks s' \<noteq> sys_callbacks s \<longleftrightarrow> \<not> IsLoading (sys_loader s')" if "thread_step s s'"
    using that inv by (cases rule: thread_step.cases)
      (auto simp: RunLoad_begin_def RunLoad_end_def DoneLoad_def IsLoading_def split: option.splits if_splits)
qed

text \<open>
  Runs of the whole system from a state, with the number of steps the threads took in them; the owner
  may start and cancel loads in between as often as it likes.
\<close>

inductive loader_run :: "'c loader_system \<Rightarrow> nat \<Rightarrow> 'c loader_system \<Rightarrow> bool" for s where
  run_stop: "loader_run s 0 s"
| run_owner: "loader_run s n x \<Longrightarrow> owner_step x y \<Longrightarrow> loader_run s n y"
| run_thread: "loader_run s n x \<Longrightarrow> thread_step x y \<Longrightarrow> loader_run s (Suc n) y"

lemma loader_run_reach: "loader_run s n x \<Longrightarrow> system_reach s \<Longrightarrow> system_reach x"
  by (induction rule: loader_run.induct) (blast intro: sreach_owner sreach_thread)+

lemma owner_step_keeps:
  assumes "owner_step x y"
  shows "sys_callbacks y = sys_callbacks x"
    and "lt_loading (sys_loader x) \<Longrightarrow> lt_task (sys_loader y) = lt_task (sys_loader x) \<and>
      lt_current_loadable (sys_loader y) = lt_current_loadable (sys_loader x) \<and>
      lt_callback (sys_loader y) = lt_callback (sys_loader x)"
  using assms by (auto simp: StartLoading_def Let_def elim!: owner_step.cases split: if_splits)

lemma thread_step_keeps:
  assumes "thread_step x y" "lt_current_loadable (sys_loader x) = Some l" "lt_callback (sys_loader x) = Some cb"
  shows "sys_callbacks y = sys_callbacks x \<and> lt_current_loadable (sys_loader y) = Some l \<and>
      lt_callback (sys_loader y) = Some cb \<or> (\<exists>out. sys_callbacks y = sys_callbacks x @ [(l, cb, out)])"
  using assms by (auto simp: RunLoad_begin_def RunLoad_end_def DoneLoad_def elim!: thread_step.cases split: if_splits)

lemma thread_step_extends: "thread_step x y \<Longrightarrow> \<exists>new. sys_callbacks y = sys_callbacks x @ new"
  by (auto elim!: thread_step.cases)

text \<open>The load in progress at the start of a run waits, and each step of a thread takes it nearer to its callback, or it has had it.\<close>

lemma loader_run_load:
  assumes "loader_run s n x" "system_reach s" "lt_current_loadable (sys_loader s) = Some l" "lt_callback (sys_loader s) = Some cb"
  shows "sys_callbacks x = sys_callbacks s \<and> lt_current_loadable (sys_loader x) = Some l \<and> lt_callback (sys_loader x) = Some cb \<and>
      task_rank (lt_task (sys_loader x)) + n \<le> 3 \<or>
    (\<exists>out rest. sys_callbacks x = sys_callbacks s @ (l, cb, out) # rest)"
  using assms
proof (induction rule: loader_run.induct)
  case run_stop
  then show ?case using task_rank_le [of "lt_task (sys_loader s)"] by simp
next
  case (run_owner n x y)
  have inv: "system_inv x" using run_owner.hyps(1) run_owner.prems(1) loader_run_reach system_reach_inv by blast
  from run_owner.IH [OF run_owner.prems] show ?case
  proof (elim disjE exE conjE)
    assume w: "sys_callbacks x = sys_callbacks s" "lt_current_loadable (sys_loader x) = Some l" "lt_callback (sys_loader x) = Some cb"
      "task_rank (lt_task (sys_loader x)) + n \<le> 3"
    then have "lt_loading (sys_loader x)" using inv unfolding system_inv_def Let_def by auto
    then show ?thesis using owner_step_keeps [OF run_owner.hyps(2)] w by simp
  qed (use owner_step_keeps(1) [OF run_owner.hyps(2)] in simp)
next
  case (run_thread n x y)
  have r: "system_reach x" using run_thread.hyps(1) run_thread.prems(1) by (rule loader_run_reach)
  from run_thread.IH [OF run_thread.prems] show ?case
  proof (elim disjE exE conjE)
    assume w: "sys_callbacks x = sys_callbacks s" "lt_current_loadable (sys_loader x) = Some l" "lt_callback (sys_loader x) = Some cb"
      "task_rank (lt_task (sys_loader x)) + n \<le> 3"
    have "task_rank (lt_task (sys_loader y)) + Suc n \<le> 3" using load_progress(2) [OF r run_thread.hyps(2)] w(4) by linarith
    then show ?thesis using thread_step_keeps [OF run_thread.hyps(2) w(2,3)] w(1) by auto
  qed (use thread_step_extends [OF run_thread.hyps(2)] in auto)
qed

lemma loader_run_extends: "loader_run s n x \<Longrightarrow> \<exists>new. sys_callbacks x = sys_callbacks s @ new"
  by (induction rule: loader_run.induct) (use owner_step_keeps(1) thread_step_extends in fastforce)+

text \<open>
  C32. Every load that \<open>StartLoading\<close> accepted is called back exactly once, in the order of acceptance.
  In every reachable state the accepted loads are those called back followed by the load in progress,
  if any. While a load is in progress a thread can take a step, and in any run from there, whatever
  the owner does in between, three steps of the threads are enough: the loads accepted before the run
  are the first to have been called back. (\<open>Load()\<close> returns, and the loader is not destroyed meanwhile.)
\<close>

theorem accepted_loads_called_back:
  assumes "system_reach s"
  shows "sys_accepted s = map (\<lambda>(l, cb, out). (l, cb)) (sys_callbacks s) @
      (case (lt_current_loadable (sys_loader s), lt_callback (sys_loader s)) of (Some l, Some cb) \<Rightarrow> [(l, cb)] | _ \<Rightarrow> []) \<and>
    (IsLoading (sys_loader s) \<longleftrightarrow> length (sys_accepted s) = Suc (length (sys_callbacks s))) \<and>
    (IsLoading (sys_loader s) \<longrightarrow> (\<exists>s'. thread_step s s')) \<and>
    (\<forall>n s'. 3 \<le> n \<longrightarrow> loader_run s n s' \<longrightarrow>
       take (length (sys_accepted s)) (map (\<lambda>(l, cb, out). (l, cb)) (sys_callbacks s')) = sys_accepted s)"
proof -
  note inv = system_reach_inv [OF assms, unfolded system_inv_def Let_def]
  have acc: "sys_accepted s = map (\<lambda>(l, cb, out). (l, cb)) (sys_callbacks s) @
      (case (lt_current_loadable (sys_loader s), lt_callback (sys_loader s)) of (Some l, Some cb) \<Rightarrow> [(l, cb)] | _ \<Rightarrow> [])"
    using inv by blast
  have loading: "IsLoading (sys_loader s) \<longleftrightarrow> length (sys_accepted s) = Suc (length (sys_callbacks s))"
    using inv unfolding IsLoading_def acc by (auto split: option.splits)
  have run: "take (length (sys_accepted s)) (map (\<lambda>(l, cb, out). (l, cb)) (sys_callbacks s')) = sys_accepted s"
    if r: "loader_run s n s'" "3 \<le> n" for n s'
  proof (cases "IsLoading (sys_loader s)")
    case False
    then have "sys_accepted s = map (\<lambda>(l, cb, out). (l, cb)) (sys_callbacks s)"
      using acc inv unfolding IsLoading_def by (auto split: option.splits)
    then show ?thesis using loader_run_extends [OF r(1)] by auto
  next
    case True
    then have "lt_current_loadable (sys_loader s) \<noteq> None" "lt_callback (sys_loader s) \<noteq> None"
      using inv unfolding IsLoading_def by blast+
    then obtain l cb where l: "lt_current_loadable (sys_loader s) = Some l" "lt_callback (sys_loader s) = Some cb" by blast
    have "lt_task (sys_loader s') \<noteq> None" if "lt_current_loadable (sys_loader s') = Some l"
      using that system_reach_inv [OF loader_run_reach [OF r(1) assms]] by (auto simp: system_inv_def Let_def)
    then have "\<not> (lt_current_loadable (sys_loader s') = Some l \<and> task_rank (lt_task (sys_loader s')) + n \<le> 3)"
      using r(2) by (cases "lt_task (sys_loader s')" rule: task_rank.cases) auto
    then obtain out rest where "sys_callbacks s' = sys_callbacks s @ (l, cb, out) # rest"
      using loader_run_load [OF r(1) assms l] by blast
    then show ?thesis using acc l by simp
  qed
  show ?thesis using acc loading run load_progress(1) [OF assms] by blast
qed

definition demo_system :: "unit loader_system" where
  "demo_system = system_new\<lparr>sys_loader := snd (StartLoading True True 7 () LoaderThread_new), sys_accepted := [(7, ())]\<rparr>"

lemma demo_system_reach: "system_reach demo_system"
proof -
  have "owner_step system_new demo_system"
    using step_start [of True True 7 "()" system_new True "snd (StartLoading True True 7 () LoaderThread_new)"]
    by (simp add: demo_system_def system_new_def StartLoading_def LoaderThread_new_def)
  then show ?thesis using sreach_new sreach_owner by blast
qed

lemma demo_system_loading: "IsLoading (sys_loader demo_system)" "lt_current_loadable (sys_loader demo_system) = Some 7"
    "sys_callbacks demo_system = []"
  by (simp_all add: demo_system_def system_new_def StartLoading_def LoaderThread_new_def IsLoading_def)

lemma demo_system_steps:
  "\<exists>s'. loader_run demo_system 3 s'"
proof -
  let ?t = "sys_loader demo_system"
  let ?a = "demo_system\<lparr>sys_loader := ?t\<lparr>lt_task := Some In_Load\<rparr>\<rparr>"
  let ?b = "demo_system\<lparr>sys_loader := ?t\<lparr>lt_loadable_outcome := LOAD_COMPLETE, lt_task := Some Done_Load\<rparr>\<rparr>"
  have t: "lt_task ?t = Some Run_Load" "lt_current_loadable ?t = Some 7" "lt_callback ?t = Some ()" "sys_canceled demo_system = {}"
    by (simp_all add: demo_system_def system_new_def StartLoading_def LoaderThread_new_def)
  have 1: "thread_step demo_system ?a" by (rule step_begin) (use t in \<open>simp_all add: RunLoad_begin_def\<close>)
  have 2: "thread_step ?a ?b"
    using step_end [of ?a True "?t\<lparr>lt_loadable_outcome := LOAD_COMPLETE, lt_task := Some Done_Load\<rparr>"] t
    by (simp add: RunLoad_end_def)
  have "\<exists>c. thread_step ?b c" using step_done [of ?b] t by (fastforce simp: DoneLoad_def)
  with 1 2 show ?thesis using run_thread [OF run_thread [OF run_thread [OF run_stop]]] by (metis numeral_3_eq_3)
qed

theorem accepted_loads_called_back_witness:
  "sys_accepted demo_system = [(7, ())] \<and> IsLoading (sys_loader demo_system) \<and>
   (\<exists>s'. loader_run demo_system 3 s' \<and> take 1 (map (\<lambda>(l, cb, out). (l, cb)) (sys_callbacks s')) = [(7, ())])"
  using accepted_loads_called_back [OF demo_system_reach] demo_system_loading demo_system_steps
  by (fastforce simp: demo_system_def system_new_def)

text \<open>
  A cancelled load is reported as cancelled, whenever during the load the cancellation came and
  whatever the load itself returned: no later state reports another outcome for it.
\<close>

theorem canceled_load_reported:
  assumes "system_reach s" "lt_current_loadable (sys_loader s) = Some l" "l \<in> sys_canceled s"
    and "(\<lambda>x y. owner_step x y \<or> thread_step x y)\<^sup>*\<^sup>* s s'"
  shows "sys_callbacks s' = sys_callbacks s \<and> lt_current_loadable (sys_loader s') = Some l \<or>
    (\<exists>cb rest. sys_callbacks s' = sys_callbacks s @ (l, cb, LOAD_CANCELED) # rest)"
proof -
  have "l \<in> sys_canceled s' \<and> system_inv s' \<and>
      (sys_callbacks s' = sys_callbacks s \<and> lt_current_loadable (sys_loader s') = Some l \<or>
       (\<exists>cb rest. sys_callbacks s' = sys_callbacks s @ (l, cb, LOAD_CANCELED) # rest))"
    using assms(4)
  proof (induction rule: rtranclp_induct)
    case base
    show ?case using assms system_reach_inv by blast
  next
    case (step x y)
    from step.hyps(2) show ?case
    proof
      assume o: "owner_step x y"
      then have "system_inv y" using step.IH owner_step_inv by blast
      with o step.IH show ?case
        by (cases rule: owner_step.cases)
          (auto simp: StartLoading_def CancelLoading_def system_inv_def Let_def split: if_splits option.splits)
    next
      assume t: "thread_step x y"
      then have "system_inv y" using step.IH thread_step_inv by blast
      with t step.IH show ?case
        by (cases rule: thread_step.cases)
          (auto simp: RunLoad_begin_def RunLoad_end_def DoneLoad_def split: if_splits option.splits)
    qed
  qed
  then show ?thesis by blast
qed

theorem canceled_load_reported_witness:
  "\<exists>(s :: unit loader_system) s'. system_reach s \<and> 7 \<in> sys_canceled s \<and> thread_step s s' \<and>
     (sys_callbacks s' = [] \<and> lt_current_loadable (sys_loader s') = Some 7 \<or>
      (\<exists>cb rest. sys_callbacks s' = (7, cb, LOAD_CANCELED) # rest))"
proof -
  let ?s = "demo_system\<lparr>sys_canceled := {7}\<rparr>" and ?t = "(sys_loader demo_system)\<lparr>lt_loadable_outcome := LOAD_CANCELED, lt_task := Some Done_Load\<rparr>"
  have "owner_step demo_system ?s"
    by (rule step_cancel) (use demo_system_loading in \<open>simp add: CancelLoading_def IsLoading_def demo_system_def system_new_def\<close>)
  then have r: "system_reach ?s" using demo_system_reach sreach_owner by blast
  have t: "thread_step ?s (?s\<lparr>sys_loader := ?t\<rparr>)"
    by (rule step_begin) (simp_all add: RunLoad_begin_def demo_system_loading, simp add: demo_system_def StartLoading_def LoaderThread_new_def)
  show ?thesis
    using canceled_load_reported [OF r _ _ r_into_rtranclp, of 7] demo_system_loading r t
    by (intro exI [of _ ?s] exI [of _ "?s\<lparr>sys_loader := ?t\<rparr>"]) simp
qed

theorem load_progress_witness: "\<exists>s'. thread_step demo_system s' \<and> task_rank (lt_task (sys_loader s')) < 3"
  using load_progress(1,2) [OF demo_system_reach] demo_system_loading(1)
  by (force simp: demo_system_def StartLoading_def LoaderThread_new_def)

end
