(* ===== verification/Representation_Holder.thy ===== *)
theory Representation_Holder
  imports Presentation
begin

text \<open>
  \<open>dash/representation_holder.cc\<close>: a representation being played, with the segment index in use and
  the shift that keeps segment numbers stable while the manifest is refreshed. The main theorems
  show that a refresh whose timeline overlaps or continues the old one leaves the start time of every
  shared segment number unchanged, and that a gap is reported.

  Times are microseconds relative to the presentation (\<open>base::TimeDelta\<close>). A call through the null
  index pointer is \<open>Undefined_access\<close>. The index the holder was given (\<open>owned_segment_index_\<close>) is
  held by value, so ownership has no counterpart.
\<close>

section \<open>State\<close>

text \<open>
  The extractor a period builds for a representation: an MP4 parser (with the audio object types it
  accepts and whether it plays backwards), or a caption parser (with its sample offset and the
  bounds of the period, when the stream has to be cut to them).
\<close>

datatype extractor_config =
    Stream_Parser_Extractor "int list" bool
  | RawCC_Extractor int "int option" "int option"

record 'f representation_holder =
  rh_period_start_time :: int
  rh_period_duration :: int
  rh_segment_num_shift :: int
  rh_extractor_wrapper :: "extractor_config option"
  rh_representation :: representation
  rh_media_format :: "'f option"
  rh_segment_index :: "dash_index option"

definition RepresentationHolder_new ::
  "int \<Rightarrow> int \<Rightarrow> representation \<Rightarrow> extractor_config option \<Rightarrow> 'f representation_holder" where
  "RepresentationHolder_new period_start_time period_duration rep extractor_wrapper =
     \<lparr>rh_period_start_time = period_start_time, rh_period_duration = period_duration,
      rh_segment_num_shift = 0, rh_extractor_wrapper = extractor_wrapper, rh_representation = rep,
      rh_media_format = None, rh_segment_index = rep_index rep\<rparr>"

section \<open>Operations\<close>

definition GiveMediaFormat :: "'f \<Rightarrow> 'f representation_holder \<Rightarrow> 'f representation_holder" where
  "GiveMediaFormat media_format h = h\<lparr>rh_media_format := Some media_format\<rparr>"

definition GiveSegmentIndex :: "dash_index \<Rightarrow> 'f representation_holder \<Rightarrow> 'f representation_holder" where
  "GiveSegmentIndex index h = h\<lparr>rh_segment_index := Some index\<rparr>"

definition UpdateRepresentation ::
  "'f representation_holder \<Rightarrow> int \<Rightarrow> representation \<Rightarrow> ('f representation_holder \<times> bool) result" where
  "UpdateRepresentation h new_period_duration new_representation =
     (let h1 = h\<lparr>rh_period_duration := new_period_duration, rh_representation := new_representation\<rparr>
      in case rep_index (rh_representation h) of
           None \<Rightarrow> Inr (h1, True)
         | Some old_index \<Rightarrow>
             (let h2 = h1\<lparr>rh_segment_index := rep_index new_representation\<rparr>
              in if \<not> Index_IsExplicit old_index then Inr (h2, True)
                 else
                   and_then (Index_GetLastSegmentNum old_index new_period_duration) (\<lambda>old_last.
                   and_then (Index_GetTimeUs old_index old_last) (\<lambda>old_last_time.
                   and_then (Index_GetDurationUs old_index old_last new_period_duration) (\<lambda>old_last_duration.
                     case rep_index new_representation of
                       None \<Rightarrow> Inl Undefined_access
                     | Some new_index \<Rightarrow>
                         (let old_index_end_time = old_last_time + old_last_duration;
                              new_first = Index_GetFirstSegmentNum new_index
                          in and_then (Index_GetTimeUs new_index new_first) (\<lambda>new_index_start_time.
                               if old_index_end_time = new_index_start_time
                               then Inr (h2\<lparr>rh_segment_num_shift :=
                                             rh_segment_num_shift h + (old_last - new_first + 1)\<rparr>, True)
                               else if old_index_end_time < new_index_start_time then Inr (h2, False)
                               else and_then (Index_GetSegmentNum old_index new_index_start_time new_period_duration)
                                      (\<lambda>n. Inr (h2\<lparr>rh_segment_num_shift :=
                                                     rh_segment_num_shift h + (n - new_first)\<rparr>, True)))))))))"

definition with_index :: "'f representation_holder \<Rightarrow> (dash_index \<Rightarrow> 'a result) \<Rightarrow> 'a result" where
  "with_index h f = (case rh_segment_index h of None \<Rightarrow> Inl Undefined_access | Some i \<Rightarrow> f i)"

definition Holder_GetSegmentNum :: "'f representation_holder \<Rightarrow> int \<Rightarrow> int result" where
  "Holder_GetSegmentNum h position = with_index h (\<lambda>i.
     and_then (Index_GetSegmentNum i (position - rh_period_start_time h) (rh_period_duration h)) (\<lambda>n.
       Inr (n + rh_segment_num_shift h)))"

definition GetSegmentStartTime :: "'f representation_holder \<Rightarrow> int \<Rightarrow> int result" where
  "GetSegmentStartTime h segment_num = with_index h (\<lambda>i.
     and_then (Index_GetTimeUs i (segment_num - rh_segment_num_shift h)) (\<lambda>t.
       Inr (t + rh_period_start_time h)))"

definition GetSegmentEndTime :: "'f representation_holder \<Rightarrow> int \<Rightarrow> int result" where
  "GetSegmentEndTime h segment_num =
     and_then (GetSegmentStartTime h segment_num) (\<lambda>start.
     with_index h (\<lambda>i.
     and_then (Index_GetDurationUs i (segment_num - rh_segment_num_shift h) (rh_period_duration h)) (\<lambda>d.
       Inr (start + d))))"

definition Holder_GetFirstSegmentNum :: "'f representation_holder \<Rightarrow> int result" where
  "Holder_GetFirstSegmentNum h = with_index h (\<lambda>i. Inr (Index_GetFirstSegmentNum i))"

definition Holder_GetLastSegmentNum :: "'f representation_holder \<Rightarrow> int result" where
  "Holder_GetLastSegmentNum h = with_index h (\<lambda>i. Index_GetLastSegmentNum i (rh_period_duration h))"

definition IsBeyondLastSegment :: "'f representation_holder \<Rightarrow> int \<Rightarrow> bool result" where
  "IsBeyondLastSegment h segment_num =
     and_then (Holder_GetLastSegmentNum h) (\<lambda>last_segment_num.
       Inr (if last_segment_num = kIndexUnbounded then False
            else segment_num > last_segment_num + rh_segment_num_shift h))"

definition IsBeforeFirstSegment :: "'f representation_holder \<Rightarrow> int \<Rightarrow> bool result" where
  "IsBeforeFirstSegment h segment_num =
     and_then (Holder_GetFirstSegmentNum h) (\<lambda>first_segment_num.
       Inr (segment_num < first_segment_num + rh_segment_num_shift h))"

definition GetFirstAvailableSegmentNum :: "'f representation_holder \<Rightarrow> int result" where
  "GetFirstAvailableSegmentNum h = with_index h (\<lambda>i. Inr (Index_GetFirstSegmentNum i + rh_segment_num_shift h))"

definition Holder_GetSegmentUri :: "'f representation_holder \<Rightarrow> int \<Rightarrow> ranged_uri option result" where
  "Holder_GetSegmentUri h segment_num = with_index h (\<lambda>i.
     Index_GetSegmentUrl i (segment_num - rh_segment_num_shift h))"

section \<open>Refreshing\<close>

text \<open>
  A holder playing from its representation's own explicit timeline, about to be refreshed with a
  representation that has an index: where the old timeline ends and the new one starts.
\<close>

definition refresh ::
  "'f representation_holder \<Rightarrow> int \<Rightarrow> representation \<Rightarrow> dash_index \<Rightarrow> dash_index \<Rightarrow> int \<Rightarrow> int \<Rightarrow> int \<Rightarrow> bool" where
  "refresh h p rep old new l old_end new_start \<longleftrightarrow>
     rep_index (rh_representation h) = Some old \<and> rh_segment_index h = Some old \<and> rep_index rep = Some new \<and>
     Index_IsExplicit old \<and> index_ok old p \<and> Index_GetLastSegmentNum old p = Inr l \<and>
     (\<exists>t d. Index_GetTimeUs old l = Inr t \<and> Index_GetDurationUs old l p = Inr d \<and> old_end = t + d) \<and>
     Index_GetTimeUs new (Index_GetFirstSegmentNum new) = Inr new_start"

lemma UpdateRepresentation_cases:
  assumes "refresh h p rep old new l old_end new_start"
  shows "UpdateRepresentation h p rep =
    (let h2 = h\<lparr>rh_period_duration := p, rh_representation := rep, rh_segment_index := Some new\<rparr>;
         f = Index_GetFirstSegmentNum new
     in if old_end = new_start then Inr (h2\<lparr>rh_segment_num_shift := rh_segment_num_shift h + (l - f + 1)\<rparr>, True)
        else if old_end < new_start then Inr (h2, False)
        else and_then (Index_GetSegmentNum old new_start p) (\<lambda>n.
               Inr (h2\<lparr>rh_segment_num_shift := rh_segment_num_shift h + (n - f)\<rparr>, True)))"
  using assms by (auto simp: refresh_def UpdateRepresentation_def Let_def)

text \<open>
  The shift makes the new timeline's first segment take the number \<open>m\<close>: from there on both timelines
  number the shared segments alike.
\<close>

lemma shifted_start_time:
  assumes "rh_segment_index h = Some old" "rh_segment_index h' = Some new"
    "rh_period_start_time h' = rh_period_start_time h"
    "rh_segment_num_shift h' = rh_segment_num_shift h + (m - Index_GetFirstSegmentNum new)"
    "Index_GetTimeUs new (Index_GetFirstSegmentNum new + k) = Index_GetTimeUs old (m + k)"
  shows "GetSegmentStartTime h' (m + k + rh_segment_num_shift h) = GetSegmentStartTime h (m + k + rh_segment_num_shift h)"
proof -
  have "m + k + rh_segment_num_shift h - rh_segment_num_shift h' = Index_GetFirstSegmentNum new + k"
    using assms(4) by simp
  moreover have "m + k + rh_segment_num_shift h - rh_segment_num_shift h = m + k" by simp
  ultimately show ?thesis using assms(1-3,5) by (simp only: GetSegmentStartTime_def with_index_def option.case)
qed

section \<open>Properties\<close>

text \<open>A representation with the three-segment timeline, and one whose timeline starts a segment later.\<close>

definition timeline_index :: "int \<Rightarrow> segment_timeline_element list \<Rightarrow> dash_index" where
  "timeline_index start_number elems =
     Multi_Index (Segment_Template (demo_base\<lparr>ms_start_number := start_number, ms_segment_timeline := Some elems\<rparr>)
       None (Some demo_template) None) ''v1'' 500000"

definition timeline_rep :: "int \<Rightarrow> segment_timeline_element list \<Rightarrow> representation" where
  "timeline_rep start_number elems =
     \<lparr>rep_format = demo_format ''v1'' 500000, rep_initialization_uri = None, rep_content_id = ''c'',
      rep_revision_id = 1, rep_cache_key = ''k'', rep_presentation_timeoffset_us = 2000000,
      rep_supplemental_properties = [], rep_essential_properties = [],
      rep_segment_base = Multi_Base (Segment_Template
        (demo_base\<lparr>ms_start_number := start_number, ms_segment_timeline := Some elems\<rparr>) None (Some demo_template) None),
      rep_index_uri = None, rep_index = Some (timeline_index start_number elems)\<rparr>"

definition demo_elems :: "int \<Rightarrow> segment_timeline_element list" where
  "demo_elems first_start =
     [\<lparr>ste_start_time = first_start, ste_duration = 180000\<rparr>, \<lparr>ste_start_time = first_start + 180000, ste_duration = 180000\<rparr>]"

definition demo_holder :: "unit representation_holder" where
  "demo_holder = (RepresentationHolder_new 5000000 0 (timeline_rep 10 (demo_elems 180000)) None)"

lemma demo_refresh:
  "refresh demo_holder 0 (timeline_rep 0 (demo_elems 360000)) (timeline_index 10 (demo_elems 180000))
     (timeline_index 0 (demo_elems 360000)) 11 4000000 2000000"
  "refresh demo_holder 0 (timeline_rep 0 (demo_elems 540000)) (timeline_index 10 (demo_elems 180000))
     (timeline_index 0 (demo_elems 540000)) 11 4000000 4000000"
proof -
  let ?o = "timeline_index 10 (demo_elems 180000)"
  have o: "index_ok ?o 0" "Index_IsExplicit ?o" "Index_GetLastSegmentNum ?o 0 = Inr 11"
    "Index_GetTimeUs ?o 11 = Inr 2000000" "Index_GetDurationUs ?o 11 0 = Inr 2000000"
    by code_simp+
  have n: "Index_GetTimeUs (timeline_index 0 (demo_elems 360000)) (Index_GetFirstSegmentNum (timeline_index 0 (demo_elems 360000))) = Inr 2000000"
    "Index_GetTimeUs (timeline_index 0 (demo_elems 540000)) (Index_GetFirstSegmentNum (timeline_index 0 (demo_elems 540000))) = Inr 4000000"
    by code_simp+
  show "refresh demo_holder 0 (timeline_rep 0 (demo_elems 360000)) ?o
     (timeline_index 0 (demo_elems 360000)) 11 4000000 2000000"
    using o n(1) by (simp add: refresh_def demo_holder_def RepresentationHolder_new_def timeline_rep_def)
  show "refresh demo_holder 0 (timeline_rep 0 (demo_elems 540000)) ?o
     (timeline_index 0 (demo_elems 540000)) 11 4000000 4000000"
    using o n(2) by (simp add: refresh_def demo_holder_def RepresentationHolder_new_def timeline_rep_def)
qed

text \<open>
  C26. Refreshing with an overlapping timeline keeps segment numbers stable: when the new timeline starts
  where segment \<open>m\<close> of the old one starts and lists the same start times from there on, the update
  succeeds, the first available number is that of \<open>m\<close>, and every shared number has the same start
  time before and after.
\<close>

theorem update_overlap_keeps_numbers:
  assumes r: "refresh h p rep old new l old_end new_start" and overlap: "new_start < old_end"
    and m: "Index_GetFirstSegmentNum old \<le> m" "m \<le> l" "Index_GetTimeUs old m = Inr new_start"
      "m = Index_GetFirstSegmentNum old \<or> (\<exists>t. Index_GetTimeUs old (m - 1) = Inr t \<and> t < new_start)"
      "m = l \<or> (\<exists>t. Index_GetTimeUs old (m + 1) = Inr t \<and> new_start < t)"
    and shared: "Index_GetTimeUs new (Index_GetFirstSegmentNum new + k) = Index_GetTimeUs old (m + k)"
  shows "\<exists>h'. UpdateRepresentation h p rep = Inr (h', True) \<and>
    GetFirstAvailableSegmentNum h' = Inr (m + rh_segment_num_shift h) \<and>
    GetSegmentStartTime h' (m + k + rh_segment_num_shift h) = GetSegmentStartTime h (m + k + rh_segment_num_shift h)"
proof -
  let ?h = "h\<lparr>rh_period_duration := p, rh_representation := rep, rh_segment_index := Some new,
      rh_segment_num_shift := rh_segment_num_shift h + (m - Index_GetFirstSegmentNum new)\<rparr>"
  have "Index_GetSegmentNum old new_start p = Inr m"
    by (rule dash_ix.num_of_start) (use r m in \<open>auto simp: refresh_def\<close>)
  then have "UpdateRepresentation h p rep = Inr (?h, True)"
    using UpdateRepresentation_cases [OF r] overlap by (simp add: Let_def)
  moreover have "GetFirstAvailableSegmentNum ?h = Inr (m + rh_segment_num_shift h)"
    by (simp add: GetFirstAvailableSegmentNum_def with_index_def)
  moreover have "GetSegmentStartTime ?h (m + k + rh_segment_num_shift h) = GetSegmentStartTime h (m + k + rh_segment_num_shift h)"
    by (rule shifted_start_time [of _ old _ new]) (use r shared in \<open>simp_all add: refresh_def\<close>)
  ultimately show ?thesis by blast
qed

theorem update_overlap_keeps_numbers_witness:
  "\<exists>h'. UpdateRepresentation demo_holder 0 (timeline_rep 0 (demo_elems 360000)) = Inr (h', True) \<and>
     GetFirstAvailableSegmentNum h' = Inr 11 \<and> GetSegmentStartTime h' 11 = GetSegmentStartTime demo_holder 11"
proof -
  have t: "Index_GetTimeUs (timeline_index 10 (demo_elems 180000)) 11 = Inr 2000000"
    "Index_GetTimeUs (timeline_index 10 (demo_elems 180000)) 10 = Inr 0"
    "Index_GetFirstSegmentNum (timeline_index 10 (demo_elems 180000)) = 10"
    "Index_GetFirstSegmentNum (timeline_index 0 (demo_elems 360000)) = 0"
    "Index_GetTimeUs (timeline_index 0 (demo_elems 360000)) 0 = Inr 2000000"
    by code_simp+
  show ?thesis
    using update_overlap_keeps_numbers [OF demo_refresh(1), of 11 0] t
    by (simp add: demo_holder_def RepresentationHolder_new_def)
qed

text \<open>
  Refreshing with a timeline that starts exactly where the old one ended makes the numbers continue:
  the first new segment follows the last old one. When the new timeline starts later, the update
  reports that playback fell behind the live window.
\<close>

theorem update_contiguous_or_gap:
  assumes "refresh h p rep old new l old_end new_start" "old_end \<le> new_start"
  shows "\<exists>h'. UpdateRepresentation h p rep = Inr (h', old_end = new_start) \<and>
    (old_end = new_start \<longrightarrow> GetFirstAvailableSegmentNum h' = Inr (l + rh_segment_num_shift h + 1) \<and>
       GetSegmentStartTime h' (l + rh_segment_num_shift h + 1) = Inr (old_end + rh_period_start_time h))"
  using UpdateRepresentation_cases [OF assms(1)] assms
  by (auto simp: Let_def GetFirstAvailableSegmentNum_def GetSegmentStartTime_def with_index_def refresh_def)

theorem update_contiguous_or_gap_witness:
  "\<exists>h'. UpdateRepresentation demo_holder 0 (timeline_rep 0 (demo_elems 540000)) = Inr (h', True) \<and>
     GetFirstAvailableSegmentNum h' = Inr 12 \<and> GetSegmentStartTime h' 12 = Inr 9000000"
  using update_contiguous_or_gap [OF demo_refresh(2)]
  by (simp add: demo_holder_def RepresentationHolder_new_def)

text \<open>
  The segment number a holder gives for a position is always one it holds: it is neither before the
  first nor beyond the last available segment, whatever shift earlier refreshes left.
\<close>

theorem segment_num_available:
  assumes "rh_segment_index h = Some i" "index_ok i (rh_period_duration h)"
  shows "\<exists>n. Holder_GetSegmentNum h position = Inr n \<and> IsBeforeFirstSegment h n = Inr False \<and>
    IsBeyondLastSegment h n = Inr False"
proof -
  obtain l where l: "Index_GetLastSegmentNum i (rh_period_duration h) = Inr l"
    using dash_ix.last_defined [OF assms(2)] by blast
  obtain n where "Index_GetSegmentNum i (position - rh_period_start_time h) (rh_period_duration h) = Inr n"
      "Index_GetFirstSegmentNum i \<le> n" "n \<le> l"
    using dash_ix.num_contains [OF assms(2) l] by blast
  then show ?thesis
    using assms l
    by (simp add: Holder_GetSegmentNum_def IsBeforeFirstSegment_def IsBeyondLastSegment_def with_index_def
        Holder_GetFirstSegmentNum_def Holder_GetLastSegmentNum_def)
qed

theorem segment_num_available_witness:
  "\<exists>n. Holder_GetSegmentNum demo_holder 7500000 = Inr n \<and> IsBeyondLastSegment demo_holder n = Inr False"
proof -
  have "index_ok (timeline_index 10 (demo_elems 180000)) 0" by code_simp
  then show ?thesis
    using segment_num_available [of demo_holder "timeline_index 10 (demo_elems 180000)" 7500000]
    by (auto simp: demo_holder_def RepresentationHolder_new_def timeline_rep_def)
qed

text \<open>
  An update that reports a gap has still replaced the representation, the index and the period's
  duration, without a new shift: the holder answers from the new timeline under the old numbering.
\<close>

theorem failed_update_not_undone:
  assumes "refresh h p rep old new l old_end new_start" "old_end < new_start"
  shows "UpdateRepresentation h p rep =
    Inr (h\<lparr>rh_period_duration := p, rh_representation := rep, rh_segment_index := Some new\<rparr>, False)"
  using UpdateRepresentation_cases [OF assms(1)] assms(2) by (simp add: Let_def)

theorem failed_update_not_undone_witness:
  "\<exists>h'. UpdateRepresentation demo_holder 0 (timeline_rep 0 (demo_elems 720000)) = Inr (h', False) \<and>
     rh_segment_index h' = Some (timeline_index 0 (demo_elems 720000))"
proof -
  have "Index_GetTimeUs (timeline_index 0 (demo_elems 720000))
      (Index_GetFirstSegmentNum (timeline_index 0 (demo_elems 720000))) = Inr 6000000" by code_simp
  then have "refresh demo_holder 0 (timeline_rep 0 (demo_elems 720000)) (timeline_index 10 (demo_elems 180000))
     (timeline_index 0 (demo_elems 720000)) 11 4000000 6000000"
    using demo_refresh(1) by (auto simp: refresh_def timeline_rep_def)
  from failed_update_not_undone [OF this] show ?thesis by simp
qed

end
