(* ===== verification/Period_Holder.thy ===== *)
theory Period_Holder
  imports Representation_Holder "HOL-Library.AList"
begin

text \<open>
  \<open>dash/period_holder.cc\<close>: one period being played for one track. Its constructor selects an
  adaptation set by the track criteria and builds a holder for every representation of it; a manifest
  refresh updates them all and the window of available times.

  \<open>base::MatchPattern\<close> of the vendored Chromium library is the argument \<open>match_pattern\<close>; every
  theorem holds for all of its values. The map of holders is an association list sorted by
  identifier, the order in which \<open>std::map\<close> iterates.
\<close>

section \<open>State\<close>

record track_criteria =
  tc_mime_type :: string
  tc_prefer_trick :: bool
  tc_preferred_lang :: string
  tc_preferred_channels :: int
  tc_preferred_codec :: string

record 'f period_holder =
  ph_local_index :: int
  ph_start_time :: int
  ph_representation_holders :: "(string \<times> 'f representation_holder) list"
  ph_representation_indices :: "int list"
  ph_drm_init_data :: "drm_init_data option"
  ph_index_is_unbounded :: bool
  ph_index_is_explicit :: bool
  ph_available_start_time :: int
  ph_available_end_time :: int

definition kTrickScheme :: string where
  "kTrickScheme = ''http://dashif.org/guidelines/trickmode''"

definition kApplicationRAWCC :: string where
  "kApplicationRAWCC = ''application/x-rawcc''"

definition kISO_14496_3 :: int where "kISO_14496_3 = 0x40"
definition kAC3 :: int where "kAC3 = 0xa5"
definition kEAC3 :: int where "kEAC3 = 0xa6"

section \<open>Choosing the adaptation set\<close>

definition IsTrick :: "adaptation_set \<Rightarrow> bool" where
  "IsTrick s \<longleftrightarrow> (\<exists>d \<in> set (as_supplemental_properties s). dt_scheme_id_uri d = kTrickScheme)"

definition first_format :: "adaptation_set \<Rightarrow> (format \<Rightarrow> 'a) \<Rightarrow> 'a \<Rightarrow> 'a" where
  "first_format s f dflt = (case as_representations s of [] \<Rightarrow> dflt | r # _ \<Rightarrow> f (rep_format r))"

definition GetLang :: "adaptation_set \<Rightarrow> string" where
  "GetLang s = first_format s fmt_language []"

definition GetChannels :: "adaptation_set \<Rightarrow> int" where
  "GetChannels s = first_format s fmt_audio_channels 2"

definition GetCodecs :: "adaptation_set \<Rightarrow> string" where
  "GetCodecs s = first_format s fmt_codecs []"

text \<open>
  The four values the comparator orders by. The number of channels is compared with an unsigned
  preference, so an unknown number (\<open>-1\<close>) passes the comparison.
\<close>

definition criteria_values :: "track_criteria \<Rightarrow> adaptation_set \<Rightarrow> int \<times> int \<times> int \<times> int" where
  "criteria_values c s =
     (of_bool (if tc_prefer_trick c then IsTrick s else \<not> IsTrick s),
      (if tc_preferred_lang c \<noteq> [] then of_bool (GetLang s = tc_preferred_lang c) else 0),
      (if tc_preferred_channels c \<noteq> 0
       then (if wrap64 (GetChannels s) \<ge> tc_preferred_channels c then GetChannels s else 0)
       else 0),
      (if tc_preferred_codec c \<noteq> [] then of_bool (GetCodecs s = tc_preferred_codec c) else 0))"

fun tie_less :: "int \<times> int \<times> int \<times> int \<Rightarrow> int \<times> int \<times> int \<times> int \<Rightarrow> bool" where
  "tie_less (a1, a2, a3, a4) (b1, b2, b3, b4) \<longleftrightarrow>
     a1 < b1 \<or> a1 = b1 \<and> (a2 < b2 \<or> a2 = b2 \<and> (a3 < b3 \<or> a3 = b3 \<and> a4 < b4))"

definition AdaptationSetComparator :: "track_criteria \<Rightarrow> adaptation_set \<Rightarrow> adaptation_set \<Rightarrow> bool" where
  "AdaptationSetComparator c s1 s2 \<longleftrightarrow> tie_less (criteria_values c s2) (criteria_values c s1)"

definition matching_sets :: "(string \<Rightarrow> string \<Rightarrow> bool) \<Rightarrow> period \<Rightarrow> track_criteria \<Rightarrow> adaptation_set list" where
  "matching_sets match_pattern p c =
     filter (\<lambda>s. case as_representations s of
                   [] \<Rightarrow> False
                 | r # _ \<Rightarrow> match_pattern (fmt_mime_type (rep_format r)) (tc_mime_type c))
       (pd_adaptation_sets p)"

definition SelectAdaptationSet ::
  "(string \<Rightarrow> string \<Rightarrow> bool) \<Rightarrow> period \<Rightarrow> track_criteria \<Rightarrow> adaptation_set option" where
  "SelectAdaptationSet match_pattern p c =
     (case matching_sets match_pattern p c of
        [] \<Rightarrow> None
      | s # ss \<Rightarrow> Some (min_element (AdaptationSetComparator c) s ss))"

fun GetRepresentationIndex :: "representation list \<Rightarrow> string \<Rightarrow> int \<Rightarrow> int option" where
  "GetRepresentationIndex [] format_id i = None"
| "GetRepresentationIndex (r # rs) format_id i =
     (if format_id = fmt_id (rep_format r) then Some i else GetRepresentationIndex rs format_id (i + 1))"

section \<open>Building the holders\<close>

definition put_protection ::
  "(uuid \<rightharpoonup> scheme_init_data) option \<Rightarrow> content_protection \<Rightarrow> (uuid \<rightharpoonup> scheme_init_data) option" where
  "put_protection mapped cp =
     (case cp_data cp of
        Some d \<Rightarrow>
          if uuid_is_empty (cp_uuid cp) then mapped
          else Some (MappedDrmInitData_Put (case mapped of None \<Rightarrow> Map.empty | Some m \<Rightarrow> m) (cp_uuid cp) d)
      | None \<Rightarrow> mapped)"

definition BuildDrmInitData :: "adaptation_set \<Rightarrow> drm_init_data option" where
  "BuildDrmInitData s =
     (if \<not> HasContentProtections s then None
      else map_option Mapped_Init_Data (foldl put_protection None (as_content_protections s)))"

definition PeriodHolder_GetPeriodDuration :: "presentation \<Rightarrow> int \<Rightarrow> int" where
  "PeriodHolder_GetPeriodDuration manifest index =
     (let duration_ms = MPD_GetPeriodDuration manifest index
      in if duration_ms = -1 then 0 else duration_ms * 1000)"

text \<open>
  The bounds a caption stream is cut to: only a single un-indexed file of raw captions needs them.
\<close>

definition caption_bounds :: "representation \<Rightarrow> int \<Rightarrow> (int option \<times> int option) result" where
  "caption_bounds r period_duration =
     (case rep_segment_base r of
        Single_Base b \<Rightarrow>
          if GetInitializationUri b = None \<and> fmt_mime_type (rep_format r) = kApplicationRAWCC
          then and_then (GetPresentationTimeOffsetUs b) (\<lambda>trunc_start.
                 Inr (Some trunc_start, Some (trunc_start + period_duration)))
          else Inr (None, None)
      | Multi_Base _ \<Rightarrow> Inr (None, None))"

definition build_extractor ::
  "adaptation_type \<Rightarrow> representation \<Rightarrow> int \<Rightarrow> int \<Rightarrow> rat \<Rightarrow> extractor_config option result" where
  "build_extractor t r start_time period_duration playback_rate =
     (if t = AUDIO \<or> t = VIDEO
      then Inr (Some (Stream_Parser_Extractor
                  (if t = AUDIO then [kISO_14496_3, kAC3, kEAC3] else []) (playback_rate < 0)))
      else if t = TEXT
      then and_then (caption_bounds r period_duration) (\<lambda>(trunc_start, trunc_end).
             Inr (Some (RawCC_Extractor (start_time - rep_presentation_timeoffset_us r) trunc_start trunc_end)))
      else Inr None)"

text \<open>\<open>std::map::insert\<close> keeps the entry a key already has.\<close>

fun holder_insert :: "string \<Rightarrow> 'h \<Rightarrow> (string \<times> 'h) list \<Rightarrow> (string \<times> 'h) list" where
  "holder_insert k h [] = [(k, h)]"
| "holder_insert k h ((k', h') # hs) =
     (if k = k' then (k', h') # hs
      else if k < k' then (k, h) # (k', h') # hs
      else (k', h') # holder_insert k h hs)"

fun build_holders ::
  "adaptation_type \<Rightarrow> int \<Rightarrow> int \<Rightarrow> rat \<Rightarrow> representation list \<Rightarrow> (string \<times> 'f representation_holder) list \<Rightarrow>
   (string \<times> 'f representation_holder) list result" where
  "build_holders t start_time period_duration playback_rate [] hs = Inr hs"
| "build_holders t start_time period_duration playback_rate (r # rs) hs =
     and_then (build_extractor t r start_time period_duration playback_rate) (\<lambda>extractor.
       build_holders t start_time period_duration playback_rate rs
         (holder_insert (fmt_id (rep_format r))
            (RepresentationHolder_new start_time period_duration r extractor) hs))"

definition UpdateRepresentationIndependentProperties ::
  "'f period_holder \<Rightarrow> int \<Rightarrow> dash_index option \<Rightarrow> 'f period_holder result" where
  "UpdateRepresentationIndependentProperties h period_duration index =
     (case index of
        Some i \<Rightarrow>
          (let first_segment_num = Index_GetFirstSegmentNum i
           in and_then (Index_GetLastSegmentNum i period_duration) (\<lambda>last_segment_num.
              and_then (Index_GetTimeUs i first_segment_num) (\<lambda>first_time.
                (let h1 = h\<lparr>ph_index_is_unbounded := (last_segment_num = kIndexUnbounded),
                            ph_index_is_explicit := Index_IsExplicit i,
                            ph_available_start_time := ph_start_time h + first_time\<rparr>
                 in if last_segment_num = kIndexUnbounded then Inr h1
                    else and_then (Index_GetTimeUs i last_segment_num) (\<lambda>last_time.
                         and_then (Index_GetDurationUs i last_segment_num period_duration) (\<lambda>last_duration.
                           Inr (h1\<lparr>ph_available_end_time := ph_start_time h + last_time + last_duration\<rparr>)))))))
      | None \<Rightarrow>
          Inr (h\<lparr>ph_index_is_unbounded := False, ph_index_is_explicit := True,
                 ph_available_start_time := ph_start_time h,
                 ph_available_end_time := ph_start_time h + period_duration\<rparr>))"

text \<open>
  \<open>GetRepresentation(*representation_indices_.begin())->GetIndex()\<close>: the first element of an empty
  vector is no element.
\<close>

definition first_index :: "adaptation_set \<Rightarrow> int list \<Rightarrow> dash_index option result" where
  "first_index s indices =
     (case indices of
        [] \<Rightarrow> Inl Undefined_access
      | i # _ \<Rightarrow> and_then (GetRepresentation s i) (\<lambda>r. Inr (rep_index r)))"

definition PeriodHolder_new ::
  "(string \<Rightarrow> string \<Rightarrow> bool) \<Rightarrow> int \<Rightarrow> presentation \<Rightarrow> int \<Rightarrow> track_criteria \<Rightarrow> rat \<Rightarrow> 'f period_holder result" where
  "PeriodHolder_new match_pattern local_index manifest manifest_index c playback_rate =
     and_then (GetPeriod manifest manifest_index) (\<lambda>p.
       (let period_duration = PeriodHolder_GetPeriodDuration manifest manifest_index;
            start_time = pd_start_ms p * 1000;
            h = \<lparr>ph_local_index = local_index, ph_start_time = start_time, ph_representation_holders = [],
                 ph_representation_indices = [], ph_drm_init_data = None, ph_index_is_unbounded = True,
                 ph_index_is_explicit = False, ph_available_start_time = 0, ph_available_end_time = 0\<rparr>
        in case SelectAdaptationSet match_pattern p c of
             None \<Rightarrow> UpdateRepresentationIndependentProperties h period_duration None
           | Some s \<Rightarrow>
               and_then (build_holders (as_type s) start_time period_duration playback_rate (as_representations s) [])
                 (\<lambda>hs.
                 (let h1 = h\<lparr>ph_drm_init_data := BuildDrmInitData s,
                             ph_representation_indices := map int [0..<length (as_representations s)],
                             ph_representation_holders := hs\<rparr>
                  in and_then (first_index s (ph_representation_indices h1)) (\<lambda>index.
                       UpdateRepresentationIndependentProperties h1 period_duration index)))))"

section \<open>Refreshing\<close>

fun update_holders ::
  "adaptation_set \<Rightarrow> int \<Rightarrow> int list \<Rightarrow> (string \<times> 'f representation_holder) list \<Rightarrow>
   ((string \<times> 'f representation_holder) list \<times> bool) result" where
  "update_holders s period_duration [] hs = Inr (hs, True)"
| "update_holders s period_duration (i # is) hs =
     and_then (GetRepresentation s i) (\<lambda>r.
       case map_of hs (fmt_id (rep_format r)) of
         None \<Rightarrow> Inl Check_failed
       | Some h \<Rightarrow>
           and_then (UpdateRepresentation h period_duration r) (\<lambda>(h', updated).
             if updated then update_holders s period_duration is (AList.update (fmt_id (rep_format r)) h' hs)
             else Inr (AList.update (fmt_id (rep_format r)) h' hs, False)))"

definition UpdatePeriod ::
  "(string \<Rightarrow> string \<Rightarrow> bool) \<Rightarrow> presentation \<Rightarrow> int \<Rightarrow> track_criteria \<Rightarrow> 'f period_holder \<Rightarrow>
   ('f period_holder \<times> bool) result" where
  "UpdatePeriod match_pattern manifest manifest_index c h =
     and_then (GetPeriod manifest manifest_index) (\<lambda>p.
       (let period_duration = PeriodHolder_GetPeriodDuration manifest manifest_index
        in case SelectAdaptationSet match_pattern p c of
             None \<Rightarrow> Inr (h, False)
           | Some s \<Rightarrow>
               and_then (update_holders s period_duration (ph_representation_indices h) (ph_representation_holders h))
                 (\<lambda>(hs, updated).
                 (let h1 = h\<lparr>ph_representation_holders := hs\<rparr>
                  in if \<not> updated then Inr (h1, False)
                     else and_then (first_index s (ph_representation_indices h)) (\<lambda>index.
                          and_then (UpdateRepresentationIndependentProperties h1 period_duration index) (\<lambda>h2.
                            Inr (h2, True)))))))"

section \<open>Reading\<close>

definition GetRepresentationHolder :: "'f period_holder \<Rightarrow> string \<Rightarrow> 'f representation_holder option" where
  "GetRepresentationHolder h k = map_of (ph_representation_holders h) k"

definition GetAvailableEndTime :: "'f period_holder \<Rightarrow> int option" where
  "GetAvailableEndTime h = (if ph_index_is_unbounded h then None else Some (ph_available_end_time h))"

fun first_segment_index :: "(string \<times> 'f representation_holder) list \<Rightarrow> dash_index option" where
  "first_segment_index [] = None"
| "first_segment_index ((k, rh) # hs) =
     (case rh_segment_index rh of None \<Rightarrow> first_segment_index hs | Some i \<Rightarrow> Some i)"

definition GetArbitrarySegmentIndex :: "'f period_holder \<Rightarrow> dash_index option" where
  "GetArbitrarySegmentIndex h = first_segment_index (ph_representation_holders h)"

section \<open>Lemmas\<close>

lemma tie_less_order:
  "\<not> tie_less a a" "tie_less a b \<Longrightarrow> tie_less b c \<Longrightarrow> tie_less a c" "\<not> tie_less b a \<Longrightarrow> tie_less b c \<Longrightarrow> tie_less a c"
  by (cases a; cases b; cases c; auto)+

lemma AdaptationSetComparator_order:
  "AdaptationSetComparator c x y \<Longrightarrow> AdaptationSetComparator c y z \<Longrightarrow> AdaptationSetComparator c x z"
  "AdaptationSetComparator c x y \<Longrightarrow> \<not> AdaptationSetComparator c z y \<Longrightarrow> AdaptationSetComparator c x z"
  unfolding AdaptationSetComparator_def using tie_less_order(2,3) by blast+

lemma holder_insert_map_of:
  "sorted_wrt (<) (map fst hs) \<Longrightarrow> map_of (holder_insert k h hs) k' =
     (if k' = k \<and> map_of hs k = None then Some h else map_of hs k')"
proof (induction hs)
  case (Cons a hs)
  obtain k1 h1 where a: "a = (k1, h1)" by (cases a)
  have "map_of hs k = None" if "k < k1"
    using Cons.prems that a unfolding map_of_eq_None_iff by auto
  then show ?case using Cons a by auto
qed auto

lemma holder_insert_keys: "set (map fst (holder_insert k h hs)) = insert k (set (map fst hs))"
  by (induction k h hs rule: holder_insert.induct) auto

lemma holder_insert_sorted: "sorted_wrt (<) (map fst hs) \<Longrightarrow> sorted_wrt (<) (map fst (holder_insert k h hs))"
proof (induction k h hs rule: holder_insert.induct)
  case (2 k h k' h' hs)
  then show ?case using holder_insert_keys [of k h hs] by (auto simp: neq_iff)
qed simp

lemma build_holders_sorted:
  "build_holders t st pd rate rs hs = Inr hs' \<Longrightarrow> sorted_wrt (<) (map fst hs) \<Longrightarrow> sorted_wrt (<) (map fst hs')"
  by (induction rs arbitrary: hs) (auto simp: and_then_Inr holder_insert_sorted)

lemma build_holders_lookup:
  assumes "build_holders t st pd rate rs hs = Inr hs'" "sorted_wrt (<) (map fst hs)"
  shows "map_option rh_representation (map_of hs' k) =
    (case map_of hs k of Some h \<Rightarrow> Some (rh_representation h) | None \<Rightarrow> find (\<lambda>r. fmt_id (rep_format r) = k) rs)"
  using assms
proof (induction rs arbitrary: hs)
  case (Cons r rs)
  then obtain e where "build_holders t st pd rate rs
      (holder_insert (fmt_id (rep_format r)) (RepresentationHolder_new st pd r e) hs) = Inr hs'"
    by (auto simp: and_then_Inr)
  from Cons.IH [OF this holder_insert_sorted [OF Cons.prems(2)]] show ?case
    using Cons.prems(2) by (auto simp: holder_insert_map_of RepresentationHolder_new_def split: option.splits)
qed (auto split: option.splits)

lemma update_holders_keys:
  "update_holders s pd is hs = Inr (hs', ok) \<Longrightarrow> map fst hs' = map fst hs"
proof (induction s pd "is" hs arbitrary: hs' ok rule: update_holders.induct)
  case (2 s pd i "is" hs)
  obtain r where r0: "GetRepresentation s i = Inr r" using "2.prems" by (cases "GetRepresentation s i") auto
  obtain h where h: "map_of hs (fmt_id (rep_format r)) = Some h"
    using "2.prems" r0 by (cases "map_of hs (fmt_id (rep_format r))") auto
  obtain h' u where u: "UpdateRepresentation h pd r = Inr (h', u)"
    using "2.prems" r0 h by (cases "UpdateRepresentation h pd r") auto
  note r = r0 h u
  have r4: "(if u then update_holders s pd is (AList.update (fmt_id (rep_format r)) h' hs)
        else Inr (AList.update (fmt_id (rep_format r)) h' hs, False)) = Inr (hs', ok)"
    using "2.prems" r by simp
  have "fmt_id (rep_format r) \<in> fst ` set hs" using r(2) by (force dest: map_of_SomeD)
  then have k: "map fst (AList.update (fmt_id (rep_format r)) h' hs) = map fst hs" by (simp add: update_keys)
  show ?case using "2.IH" [OF r(1,2,3) refl] r4 k by (cases u) simp_all
qed simp

lemma indep_properties_keep:
  "UpdateRepresentationIndependentProperties h pd i = Inr h' \<Longrightarrow>
     ph_representation_holders h' = ph_representation_holders h \<and>
     ph_representation_indices h' = ph_representation_indices h \<and>
     ph_drm_init_data h' = ph_drm_init_data h \<and> ph_start_time h' = ph_start_time h"
  by (auto simp: UpdateRepresentationIndependentProperties_def Let_def and_then_Inr split: option.splits if_splits)

section \<open>Properties\<close>

definition demo_set :: "bool \<Rightarrow> adaptation_type \<Rightarrow> representation list \<Rightarrow> adaptation_set" where
  "demo_set trick t reps =
     \<lparr>as_id = 0, as_type = t, as_representations = reps, as_content_protections = [],
      as_supplemental_properties =
        (if trick then [\<lparr>dt_scheme_id_uri = kTrickScheme, dt_value = [], dt_id = []\<rparr>] else []),
      as_essential_properties = []\<rparr>"

definition one_period :: "adaptation_set list \<Rightarrow> presentation" where
  "one_period sets = demo_presentation\<lparr>mpd_periods := [\<lparr>pd_id = ''p'', pd_start_ms = 5000, pd_supplemental_properties = [], pd_adaptation_sets = sets\<rparr>]\<rparr>"

definition video_criteria :: track_criteria where
  "video_criteria = \<lparr>tc_mime_type = ''video/mp4'', tc_prefer_trick = False, tc_preferred_lang = [],
     tc_preferred_channels = 0, tc_preferred_codec = []\<rparr>"

text \<open>
  What the criteria ask for, as one elimination after the other: \<open>favour\<close> keeps the elements with a
  property if there are any, \<open>most\<close> those with the greatest number.
\<close>

definition favour :: "('a \<Rightarrow> bool) \<Rightarrow> 'a list \<Rightarrow> 'a list" where
  "favour P xs = (if \<exists>x \<in> set xs. P x then filter P xs else xs)"

definition most :: "('a \<Rightarrow> int) \<Rightarrow> 'a list \<Rightarrow> 'a list" where
  "most f xs = filter (\<lambda>x. \<forall>y \<in> set xs. f y \<le> f x) xs"

definition lead :: "adaptation_set \<Rightarrow> format" where
  "lead s = rep_format (hd (as_representations s))"

text \<open>
  Of the sets with at least the wanted number of channels those with the most; if there are none, those
  with a known number (a negative number stands for an unknown one).
\<close>

definition with_channels :: "int \<Rightarrow> adaptation_set list \<Rightarrow> adaptation_set list" where
  "with_channels n sets =
     (let channels = (\<lambda>s. fmt_audio_channels (lead s))
      in if \<exists>s \<in> set sets. n \<le> channels s then most channels (filter (\<lambda>s. n \<le> channels s) sets)
         else if \<exists>s \<in> set sets. 0 \<le> channels s then filter (\<lambda>s. 0 \<le> channels s) sets
         else most channels sets)"

definition ranked_sets :: "(string \<Rightarrow> string \<Rightarrow> bool) \<Rightarrow> adaptation_set list \<Rightarrow> track_criteria \<Rightarrow> adaptation_set list" where
  "ranked_sets match_pattern sets c =
     (let typed = filter (\<lambda>s. as_representations s \<noteq> [] \<and> match_pattern (fmt_mime_type (lead s)) (tc_mime_type c)) sets;
          trick = favour (\<lambda>s. (kTrickScheme \<in> dt_scheme_id_uri ` set (as_supplemental_properties s)) = tc_prefer_trick c) typed;
          lang = (if tc_preferred_lang c = [] then trick else favour (\<lambda>s. fmt_language (lead s) = tc_preferred_lang c) trick);
          chan = (if tc_preferred_channels c = 0 then lang else with_channels (tc_preferred_channels c) lang)
      in if tc_preferred_codec c = [] then chan else favour (\<lambda>s. fmt_codecs (lead s) = tc_preferred_codec c) chan)"

lemma favour_most: "favour P xs = most (\<lambda>x. of_bool (P x)) xs"
  by (auto simp: favour_def most_def of_bool_def intro!: filter_cong filter_True [symmetric])

lemma most_const: "most (\<lambda>_. k) xs = xs"
  by (simp add: most_def)

lemma most_cong: "xs = ys \<Longrightarrow> (\<And>x. x \<in> set ys \<Longrightarrow> f x = g x) \<Longrightarrow> most f xs = most g ys"
  by (auto simp: most_def intro!: filter_cong)

lemma most_subset: "set (most f xs) \<subseteq> set xs"
  by (auto simp: most_def)

text \<open>Four eliminations one after the other leave the elements that no other one beats in the lexicographic order.\<close>

definition unbeaten :: "('a \<Rightarrow> 'a \<Rightarrow> bool) \<Rightarrow> 'a list \<Rightarrow> 'a list" where
  "unbeaten beats xs = filter (\<lambda>x. \<forall>y \<in> set xs. \<not> beats y x) xs"

definition ranking :: "('a \<Rightarrow> 'a \<Rightarrow> bool) \<Rightarrow> bool" where
  "ranking beats \<longleftrightarrow> (\<forall>x. \<not> beats x x) \<and> (\<forall>x y z. beats x y \<longrightarrow> beats y z \<longrightarrow> beats x z) \<and>
     (\<forall>x y z. beats x y \<longrightarrow> beats z y \<or> beats x z)"

definition refine :: "('a \<Rightarrow> int) \<Rightarrow> ('a \<Rightarrow> 'a \<Rightarrow> bool) \<Rightarrow> 'a \<Rightarrow> 'a \<Rightarrow> bool" where
  "refine f beats y x \<longleftrightarrow> beats y x \<or> \<not> beats x y \<and> f x < f y"

lemma ranking_value: "ranking (\<lambda>y x. (f x :: int) < f y)"
  by (auto simp: ranking_def)

lemma ranking_refine:
  assumes "ranking beats"
  shows "ranking (refine f beats)"
  unfolding ranking_def
proof (intro conjI allI impI)
  note r = assms [unfolded ranking_def]
  fix x y z
  show "\<not> refine f beats x x" using r by (simp add: refine_def)
  have w: "beats a b \<Longrightarrow> beats c b \<or> beats a c" "beats a b \<Longrightarrow> beats b c \<Longrightarrow> beats a c" "\<not> beats a a" for a b c using r by blast+
  show "refine f beats x z" if "refine f beats x y" "refine f beats y z"
  proof (cases "beats x y \<or> beats y z")
    case True
    have "\<not> beats z y" "\<not> beats y x" using that w(2,3) by (auto simp: refine_def)
    then show ?thesis using True w(1) [of x y z] w(1) [of y z x] by (auto simp: refine_def)
  next
    case False
    then have "\<not> beats z x" "f z < f x" using that w(1) [of z x y] by (auto simp: refine_def)
    then show ?thesis by (simp add: refine_def)
  qed
  show "refine f beats z y \<or> refine f beats x z" if "refine f beats x y"
  proof (cases "beats x y \<or> beats z y \<or> beats x z")
    case True
    then show ?thesis using w(1) [of x y z] by (auto simp: refine_def)
  next
    case False
    then have "\<not> beats y x" "f y < f x" using that by (simp_all add: refine_def)
    then have "\<not> beats y z" "\<not> beats z x" using w(1) [of y z x] w(1) [of z x y] False by auto
    then show ?thesis using \<open>f y < f x\<close> False by (auto simp: refine_def)
  qed
qed

lemma most_unbeaten:
  assumes "ranking beats"
  shows "most f (unbeaten beats xs) = unbeaten (refine f beats) xs"
proof -
  let ?U = "unbeaten beats xs"
  have "most f ?U = filter (\<lambda>x. (\<forall>y \<in> set ?U. f y \<le> f x) \<and> (\<forall>y \<in> set xs. \<not> beats y x)) xs"
    by (simp add: most_def unbeaten_def conj_commute)
  also have "\<dots> = unbeaten (refine f beats) xs"
    unfolding unbeaten_def [of "refine f beats"]
  proof (rule filter_cong [OF refl])
    fix x assume x: "x \<in> set xs"
    have top: "y \<in> set ?U" if "y \<in> set xs" "\<forall>y \<in> set xs. \<not> beats y x" "\<not> beats x y" for y
      using that assms unfolding unbeaten_def ranking_def by (auto; blast)
    have up: "\<not> beats x y" if "y \<in> set ?U" for y using that x by (auto simp: unbeaten_def)
    have sub: "y \<in> set xs" if "y \<in> set ?U" for y using that by (simp add: unbeaten_def)
    show "((\<forall>y \<in> set ?U. f y \<le> f x) \<and> (\<forall>y \<in> set xs. \<not> beats y x)) = (\<forall>y \<in> set xs. \<not> refine f beats y x)"
      unfolding refine_def using top up sub by (meson not_le)
  qed
  finally show ?thesis .
qed

lemma most_lexicographic:
  "most f4 (most f3 (most f2 (most f1 xs))) = unbeaten (\<lambda>y x. tie_less (f1 x, f2 x, f3 x, f4 x) (f1 y, f2 y, f3 y, f4 y)) xs"
proof -
  have first: "most f1 xs = unbeaten (\<lambda>y x. f1 x < f1 y) xs" by (simp add: most_def unbeaten_def not_less)
  have "most f4 (most f3 (most f2 (most f1 xs))) = unbeaten (refine f4 (refine f3 (refine f2 (\<lambda>y x. f1 x < f1 y)))) xs"
    unfolding first by (simp add: most_unbeaten ranking_refine ranking_value)
  also have "refine f4 (refine f3 (refine f2 (\<lambda>y x. f1 x < f1 y))) = (\<lambda>y x. tie_less (f1 x, f2 x, f3 x, f4 x) (f1 y, f2 y, f3 y, f4 y))"
    by (intro ext) (simp add: refine_def, linarith)
  finally show ?thesis .
qed

text \<open>The first of the smallest elements is the first that none beats.\<close>

lemma min_element_unbeaten:
  assumes "\<And>x y z. before x y \<Longrightarrow> before y z \<Longrightarrow> before x z" "\<And>x y z. before x y \<Longrightarrow> \<not> before z y \<Longrightarrow> before x z" "\<And>x. \<not> before x x"
  shows "\<exists>rest. unbeaten before (x # xs) = min_element before x xs # rest"
proof -
  let ?m = "min_element before x xs"
  obtain pre post where pp: "x # xs = pre @ ?m # post" "\<forall>t \<in> set pre. before ?m t" "\<forall>t \<in> set post. \<not> before t ?m"
    using min_element_split [of before x xs] assms(1,2) by blast
  have "\<forall>t \<in> set (x # xs). \<not> before t ?m" unfolding pp(1) using pp(2,3) assms(1,3) by (auto dest: assms(1))
  moreover have "filter (\<lambda>z. \<forall>y \<in> set (x # xs). \<not> before y z) pre = []"
    using pp by (auto simp: filter_empty_conv)
  ultimately show ?thesis unfolding unbeaten_def by (subst (2) pp(1)) simp
qed

lemma with_channels_most:
  assumes n: "0 < n" "n < 2 ^ 64 - 2 ^ 31"
    and reps: "\<forall>s \<in> set sets. as_representations s \<noteq> [] \<and> - (2 ^ 31) \<le> fmt_audio_channels (lead s) \<and> fmt_audio_channels (lead s) < 2 ^ 31"
  shows "with_channels n sets = most (\<lambda>s. if wrap64 (GetChannels s) \<ge> n then GetChannels s else 0) sets"
proof -
  let ?ch = "\<lambda>s. fmt_audio_channels (lead s)"
  let ?v = "\<lambda>s. if ?ch s < 0 \<or> n \<le> ?ch s then ?ch s else 0"
  have "(if wrap64 (GetChannels s) \<ge> n then GetChannels s else 0) = ?v s" if "s \<in> set sets" for s
  proof -
    have g: "GetChannels s = ?ch s" using reps that by (auto simp: GetChannels_def first_format_def lead_def split: list.splits)
    have r: "- (2 ^ 31) \<le> ?ch s" "?ch s < 2 ^ 31" using reps that by auto
    show ?thesis
    proof (cases "?ch s < 0")
      case True
      have "wrap64 (?ch s) = ?ch s + 2 ^ 64"
        using r(1) True mod_pos_pos_trivial [of "?ch s + 2 ^ 64" "2 ^ 64"] by (simp add: wrap64_def take_bit_eq_mod)
      then show ?thesis using g r(1) n(2) True by simp
    next
      case False
      then show ?thesis using g r(2) by simp
    qed
  qed
  then have "most (\<lambda>s. if wrap64 (GetChannels s) \<ge> n then GetChannels s else 0) sets = most ?v sets" by (intro most_cong) auto
  also have "most ?v sets = with_channels n sets"
    unfolding most_def with_channels_def Let_def using n(1)
    by (auto intro!: filter_cong simp: not_le filter_filter)
  finally show ?thesis by simp
qed

text \<open>
  C29. Track selection as the criteria ask for it: of the adaptation sets whose first representation has
  a matching media type, those with the wanted trick mode are preferred, then those in the preferred
  language, then those with the most channels among those with at least the preferred number, then
  those with the preferred codecs, each only if it is asked for and some set is left that has it;
  the first in the manifest of the sets left is chosen, and none only when no set has a matching type.
  (The numbers of channels are 32-bit, the preferred number is below 2^64 - 2^31.)
\<close>

theorem select_adaptation_set_best:
  assumes "0 \<le> tc_preferred_channels c" "tc_preferred_channels c < 2 ^ 64 - 2 ^ 31"
    and "\<forall>s \<in> set (pd_adaptation_sets p). - (2 ^ 31) \<le> fmt_audio_channels (lead s) \<and> fmt_audio_channels (lead s) < 2 ^ 31"
  shows "SelectAdaptationSet match_pattern p c =
      (case ranked_sets match_pattern (pd_adaptation_sets p) c of [] \<Rightarrow> None | s # _ \<Rightarrow> Some s)"
proof -
  let ?M = "matching_sets match_pattern p c"
  let ?f1 = "\<lambda>s. fst (criteria_values c s)" and ?f2 = "\<lambda>s. fst (snd (criteria_values c s))"
    and ?f3 = "\<lambda>s. fst (snd (snd (criteria_values c s)))" and ?f4 = "\<lambda>s. snd (snd (snd (criteria_values c s)))"
  have M: "?M = filter (\<lambda>s. as_representations s \<noteq> [] \<and> match_pattern (fmt_mime_type (lead s)) (tc_mime_type c)) (pd_adaptation_sets p)"
    unfolding matching_sets_def by (intro filter_cong) (auto simp: lead_def split: list.splits)
  have reps: "as_representations s \<noteq> []" "s \<in> set (pd_adaptation_sets p)" if "s \<in> set ?M" for s using that by (simp_all add: M)
  have get: "GetLang s = fmt_language (lead s)" "GetCodecs s = fmt_codecs (lead s)" if "s \<in> set ?M" for s
    using reps(1) [OF that] by (auto simp: GetLang_def GetCodecs_def first_format_def lead_def split: list.splits)
  have trick: "(kTrickScheme \<in> dt_scheme_id_uri ` set (as_supplemental_properties s)) = IsTrick s" for s by (force simp: IsTrick_def)
  have 1: "favour (\<lambda>s. (kTrickScheme \<in> dt_scheme_id_uri ` set (as_supplemental_properties s)) = tc_prefer_trick c) ?M = most ?f1 ?M"
    unfolding favour_most by (intro most_cong) (simp_all add: criteria_values_def trick)
  have 2: "(if tc_preferred_lang c = [] then L else favour (\<lambda>s. fmt_language (lead s) = tc_preferred_lang c) L) = most ?f2 L"
    if "set L \<subseteq> set ?M" for L
    using that get(1) unfolding favour_most by (auto simp: criteria_values_def most_const intro!: most_cong)
  have 3: "(if tc_preferred_channels c = 0 then L else with_channels (tc_preferred_channels c) L) = most ?f3 L"
    if "set L \<subseteq> set ?M" for L
    using that assms reps by (auto simp: criteria_values_def most_const subset_iff intro!: with_channels_most)
  have 4: "(if tc_preferred_codec c = [] then L else favour (\<lambda>s. fmt_codecs (lead s) = tc_preferred_codec c) L) = most ?f4 L"
    if "set L \<subseteq> set ?M" for L
    using that get(2) unfolding favour_most by (auto simp: criteria_values_def most_const intro!: most_cong)
  have sub: "set (most ?f1 ?M) \<subseteq> set ?M" "set (most ?f2 (most ?f1 ?M)) \<subseteq> set ?M" "set (most ?f3 (most ?f2 (most ?f1 ?M))) \<subseteq> set ?M"
    by (rule most_subset, rule order_trans [OF most_subset most_subset], rule order_trans [OF most_subset order_trans [OF most_subset most_subset]])
  have "ranked_sets match_pattern (pd_adaptation_sets p) c = most ?f4 (most ?f3 (most ?f2 (most ?f1 ?M)))"
    unfolding ranked_sets_def Let_def M [symmetric] 1 2 [OF sub(1)] 3 [OF sub(2)] 4 [OF sub(3)] by simp
  also have "\<dots> = unbeaten (AdaptationSetComparator c) ?M"
    unfolding most_lexicographic by (simp add: AdaptationSetComparator_def [abs_def])
  finally have r: "ranked_sets match_pattern (pd_adaptation_sets p) c = unbeaten (AdaptationSetComparator c) ?M" .
  show ?thesis
  proof (cases ?M)
    case Nil
    then show ?thesis by (simp add: r SelectAdaptationSet_def unbeaten_def)
  next
    case (Cons s ss)
    have "\<not> AdaptationSetComparator c x x" for x by (simp add: AdaptationSetComparator_def tie_less_order(1))
    then obtain rest where "unbeaten (AdaptationSetComparator c) (s # ss) = min_element (AdaptationSetComparator c) s ss # rest"
      using min_element_unbeaten [of "AdaptationSetComparator c" s ss] AdaptationSetComparator_order by blast
    then show ?thesis by (simp add: r SelectAdaptationSet_def Cons)
  qed
qed

theorem select_adaptation_set_best_witness:
  "SelectAdaptationSet (=) \<lparr>pd_id = [], pd_start_ms = 0, pd_supplemental_properties = [], pd_adaptation_sets =
       [demo_set True VIDEO [timeline_rep 10 []], demo_set False VIDEO [timeline_rep 10 []]]\<rparr> video_criteria
     = Some (demo_set False VIDEO [timeline_rep 10 []])"
proof -
  let ?t = "demo_set True VIDEO [timeline_rep 10 []]" and ?n = "demo_set False VIDEO [timeline_rep 10 []]"
  let ?p = "\<lparr>pd_id = [], pd_start_ms = 0, pd_supplemental_properties = [], pd_adaptation_sets = [?t, ?n]\<rparr>"
  have "ranked_sets (=) [?t, ?n] video_criteria = [?n]"
    by (simp add: ranked_sets_def favour_def lead_def demo_set_def timeline_rep_def demo_format_def video_criteria_def kTrickScheme_def)
  moreover have "\<forall>s \<in> set [?t, ?n]. - (2 ^ 31) \<le> fmt_audio_channels (lead s) \<and> fmt_audio_channels (lead s) < 2 ^ 31"
    by (simp add: lead_def demo_set_def timeline_rep_def demo_format_def)
  ultimately show ?thesis using select_adaptation_set_best [of video_criteria ?p "(=)"] by (simp add: video_criteria_def)
qed

text \<open>
  A new period holder has a representation holder exactly for the format identifiers of the chosen
  adaptation set; the holder of an identifier plays the first representation that has it.
\<close>

theorem new_period_covers_set:
  assumes "PeriodHolder_new match_pattern li manifest mi c rate = Inr h" "GetPeriod manifest mi = Inr p"
    "SelectAdaptationSet match_pattern p c = Some s"
  shows "map_option rh_representation (GetRepresentationHolder h k) =
    find (\<lambda>r. fmt_id (rep_format r) = k) (as_representations s)"
proof -
  let ?pd = "PeriodHolder_GetPeriodDuration manifest mi"
  obtain hs where hs: "build_holders (as_type s) (pd_start_ms p * 1000) ?pd rate (as_representations s) [] = Inr hs"
      "ph_representation_holders h = hs"
    using assms by (auto simp: PeriodHolder_new_def Let_def and_then_Inr dest!: indep_properties_keep)
  show ?thesis using build_holders_lookup [OF hs(1), of k] hs(2) by (simp add: GetRepresentationHolder_def)
qed

lemma demo_period_holder:
  "\<exists>h. PeriodHolder_new (=) 0 (one_period [demo_set False VIDEO [timeline_rep 10 (demo_elems 180000)]]) 0 video_criteria 1
     = Inr (h :: unit period_holder) \<and> ph_available_start_time h = 5000000 \<and> GetAvailableEndTime h = Some 9000000"
proof -
  let ?i = "timeline_index 10 (demo_elems 180000)"
  have i: "Index_GetFirstSegmentNum ?i = 10" "Index_GetLastSegmentNum ?i 60000000 = Inr 11"
    "Index_GetTimeUs ?i 10 = Inr 0" "Index_GetTimeUs ?i 11 = Inr 2000000" "Index_GetDurationUs ?i 11 60000000 = Inr 2000000"
    by code_simp+
  have d: "PeriodHolder_GetPeriodDuration (one_period [demo_set False VIDEO [timeline_rep 10 (demo_elems 180000)]]) 0 = 60000000"
    by (simp add: PeriodHolder_GetPeriodDuration_def MPD_GetPeriodDuration_def one_period_def demo_presentation_def narrow64_id)
  have ri: "rep_index (timeline_rep 10 (demo_elems 180000)) = Some ?i" by (simp add: timeline_rep_def)
  have mt: "fmt_mime_type (rep_format (timeline_rep 10 (demo_elems 180000))) = ''video/mp4''"
    by (simp add: timeline_rep_def demo_format_def)
  show ?thesis
    by (simp add: PeriodHolder_new_def d Let_def)
      (simp add: one_period_def GetPeriod_def vector_at_def SelectAdaptationSet_def
        matching_sets_def demo_set_def mt video_criteria_def build_extractor_def first_index_def GetRepresentation_def
        UpdateRepresentationIndependentProperties_def ri i kIndexUnbounded_def GetAvailableEndTime_def Let_def)
qed

theorem new_period_covers_set_witness:
  "\<exists>h. PeriodHolder_new (=) 0 (one_period [demo_set False VIDEO [timeline_rep 10 (demo_elems 180000)]]) 0 video_criteria 1
     = Inr (h :: unit period_holder) \<and> GetRepresentationHolder h ''v1'' \<noteq> None"
proof -
  let ?s = "demo_set False VIDEO [timeline_rep 10 (demo_elems 180000)]"
  obtain h :: "unit period_holder" where h: "PeriodHolder_new (=) 0 (one_period [?s]) 0 video_criteria 1 = Inr h"
    using demo_period_holder by blast
  have p: "GetPeriod (one_period [?s]) 0 = Inr \<lparr>pd_id = ''p'', pd_start_ms = 5000, pd_supplemental_properties = [], pd_adaptation_sets = [?s]\<rparr>"
    by (simp add: GetPeriod_def vector_at_def one_period_def)
  have s: "SelectAdaptationSet (=) \<lparr>pd_id = ''p'', pd_start_ms = 5000, pd_supplemental_properties = [], pd_adaptation_sets = [?s]\<rparr> video_criteria = Some ?s"
    by (simp add: SelectAdaptationSet_def matching_sets_def demo_set_def timeline_rep_def demo_format_def video_criteria_def)
  have "map_option rh_representation (GetRepresentationHolder h ''v1'') = Some (timeline_rep 10 (demo_elems 180000))"
    unfolding new_period_covers_set [OF h p s] by (simp add: demo_set_def timeline_rep_def demo_format_def)
  with h show ?thesis by auto
qed

text \<open>
  A manifest refresh never changes which representations a period has: whatever the new manifest
  says, an update that returns leaves the identifiers, their order and the indices as they were.
\<close>

theorem update_period_keeps_representations:
  assumes "UpdatePeriod match_pattern manifest mi c h = Inr (h', ok)"
  shows "map fst (ph_representation_holders h') = map fst (ph_representation_holders h) \<and>
    ph_representation_indices h' = ph_representation_indices h \<and> ph_start_time h' = ph_start_time h"
proof -
  obtain p where p: "GetPeriod manifest mi = Inr p"
    using assms by (cases "GetPeriod manifest mi") (auto simp: UpdatePeriod_def)
  show ?thesis
  proof (cases "SelectAdaptationSet match_pattern p c")
    case None
    then show ?thesis using assms p by (auto simp: UpdatePeriod_def)
  next
    case (Some s)
    let ?pd = "PeriodHolder_GetPeriodDuration manifest mi"
    obtain hs u where hs: "update_holders s ?pd (ph_representation_indices h) (ph_representation_holders h) = Inr (hs, u)"
      using assms p Some
      by (cases "update_holders s ?pd (ph_representation_indices h) (ph_representation_holders h)")
        (auto simp: UpdatePeriod_def Let_def)
    have "ph_representation_holders h' = hs \<and> ph_representation_indices h' = ph_representation_indices h \<and>
        ph_start_time h' = ph_start_time h"
      using assms p Some hs
      by (cases u) (auto simp: UpdatePeriod_def Let_def and_then_Inr dest!: indep_properties_keep)
    then show ?thesis using update_holders_keys [OF hs] by simp
  qed
qed

theorem update_period_keeps_representations_witness:
  "\<exists>h h'. PeriodHolder_new (=) 0 (one_period [demo_set False VIDEO [timeline_rep 10 (demo_elems 180000)]]) 0
       video_criteria 1 = Inr (h :: unit period_holder) \<and>
     UpdatePeriod (=) (one_period []) 0 video_criteria h = Inr (h', False) \<and>
     map fst (ph_representation_holders h') = map fst (ph_representation_holders h)"
proof -
  obtain h :: "unit period_holder" where h: "PeriodHolder_new (=) 0
      (one_period [demo_set False VIDEO [timeline_rep 10 (demo_elems 180000)]]) 0 video_criteria 1 = Inr h"
    using demo_period_holder by blast
  have u: "UpdatePeriod (=) (one_period []) 0 video_criteria h = Inr (h, False)"
    by (simp add: UpdatePeriod_def one_period_def GetPeriod_def vector_at_def SelectAdaptationSet_def matching_sets_def)
  from update_period_keeps_representations [OF u] h u show ?thesis by blast
qed

text \<open>
  A period built while no adaptation set matched the criteria cannot be refreshed: as soon as a
  manifest brings a matching set, the update reads the first element of an empty vector.
\<close>

theorem update_empty_period_faults:
  assumes "ph_representation_indices h = []" "GetPeriod manifest mi = Inr p" "matching_sets match_pattern p c \<noteq> []"
  shows "UpdatePeriod match_pattern manifest mi c h = Inl Undefined_access"
proof -
  obtain s where "SelectAdaptationSet match_pattern p c = Some s"
    using assms(3) by (cases "matching_sets match_pattern p c") (auto simp: SelectAdaptationSet_def)
  then show ?thesis using assms(1,2) by (simp add: UpdatePeriod_def first_index_def Let_def)
qed

theorem update_empty_period_faults_witness:
  "\<exists>h. PeriodHolder_new (=) 0 (one_period []) 0 video_criteria 1 = Inr (h :: unit period_holder) \<and>
     UpdatePeriod (=) (one_period [demo_set False VIDEO [timeline_rep 10 []]]) 0 video_criteria h = Inl Undefined_access"
proof -
  let ?s = "demo_set False VIDEO [timeline_rep 10 []]"
  obtain h :: "unit period_holder" where
    h: "PeriodHolder_new (=) 0 (one_period []) 0 video_criteria 1 = Inr h" "ph_representation_indices h = []"
    by (simp add: PeriodHolder_new_def one_period_def GetPeriod_def vector_at_def SelectAdaptationSet_def
        matching_sets_def UpdateRepresentationIndependentProperties_def Let_def)
  have p: "GetPeriod (one_period [?s]) 0 = Inr \<lparr>pd_id = ''p'', pd_start_ms = 5000, pd_supplemental_properties = [], pd_adaptation_sets = [?s]\<rparr>"
    by (simp add: GetPeriod_def vector_at_def one_period_def)
  have "matching_sets (=) \<lparr>pd_id = ''p'', pd_start_ms = 5000, pd_supplemental_properties = [], pd_adaptation_sets = [?s]\<rparr> video_criteria \<noteq> []"
    by (simp add: matching_sets_def demo_set_def timeline_rep_def demo_format_def video_criteria_def)
  with update_empty_period_faults [OF h(2) p] h(1) show ?thesis by blast
qed

end
