(* ===== verification/Chunk_Sample_Source.thy ===== *)
theory Chunk_Sample_Source
  imports Chunks Load_Control Loader_Thread Period_Holder
begin

text \<open>
  The sample source of a track (\<open>chunk/chunk_sample_source.cc\<close>): it asks the chunk source for the next
  chunk, lets the load control decide when to load it, hands the loaded samples to the renderer and
  handles seeks, errors with back-off, and disabling while a load is in progress.

  The chunk source is a record of the operations of \<open>chunk/chunk_source.h\<close> over a state \<open>'s\<close> of its own;
  the source passes it the queue of chunks to read. What depends on the outside during one call is an
  environment: the clock, the bytes a chunk has loaded so far, the media format and protection data a
  chunk has, and whether the loader's thread and its tasks could be started. A media format carries
  the identity of the object, which the weak pointer \<open>downstream_media_format_\<close> is compared with. The
  calls of the event listener and of the disable callback are recorded in \<open>ss_events\<close>.

  The samples arrive in the sample queue from the loading thread; the step relation has a step for it.
\<close>

section \<open>State\<close>

datatype chunk_state = STATE_IDLE | STATE_INITIALIZED | STATE_PREPARED | STATE_ENABLED | STATE_DISABLING

datatype load_error_reason = NO_ERROR | GENERIC_ERROR

datatype read_result = END_OF_STREAM | NOTHING_READ | SAMPLE_READ | FORMAT_READ

datatype source_event =
    Load_Started int int int "format option" int int
  | Load_Completed int int int "format option" int int int int
  | Load_Canceled int
  | Load_Error load_error_reason
  | Upstream_Discarded int int
  | Downstream_Format_Changed format int int
  | Disable_Done

definition kNoResetPending :: int where "kNoResetPending = - (2 ^ 63)"
definition kNoParsedTimestamp :: int where "kNoParsedTimestamp = - (2 ^ 63)"
definition NO_DISCONTINUITY :: int where "NO_DISCONTINUITY = - (2 ^ 63)"
definition kEndOfTrackUs :: int where "kEndOfTrackUs = -3"
definition kMicrosPerMs :: int where "kMicrosPerMs = 1000"

record 's chunk_source_ops =
  cs_can_continue_buffering :: "'s \<Rightarrow> bool"
  cs_prepare :: "'s \<Rightarrow> bool \<times> 's"
  cs_get_duration_us :: "'s \<Rightarrow> int"
  cs_enable :: "track_criteria \<Rightarrow> 's \<Rightarrow> 's"
  cs_continue_buffering :: "int \<Rightarrow> 's \<Rightarrow> 's"
  cs_get_chunk_operation :: "chunk list \<Rightarrow> int \<Rightarrow> chunk_operation_holder \<Rightarrow> 's \<Rightarrow> chunk_operation_holder \<times> 's"
  cs_on_chunk_load_completed :: "chunk option \<Rightarrow> 's \<Rightarrow> 's"
  cs_on_chunk_load_error :: "chunk option \<Rightarrow> load_error_reason \<Rightarrow> 's \<Rightarrow> 's"
  cs_disable :: "chunk list \<Rightarrow> 's \<Rightarrow> 's"

record ('f, 'd) source_env =
  env_now :: int
  env_bytes_loaded :: "nat \<Rightarrow> int"
  env_media_format :: "nat \<Rightarrow> (nat \<times> 'f) option"
  env_drm_init_data :: "nat \<Rightarrow> 'd option"
  env_thread_starts :: bool
  env_posted :: bool

record ('s, 'f) chunk_sample_source =
  ss_sample_queue :: "'f track_state"
  ss_playback_rate :: playback_rate
  ss_load_control :: load_control
  ss_chunk_source :: 's
  ss_current_loadable_holder :: chunk_operation_holder
  ss_media_chunks :: "chunk list"
  ss_buffer_size_contribution :: int
  ss_event_listener :: bool
  ss_min_loadable_retry_count :: int
  ss_state :: chunk_state
  ss_downstream_position_us :: int
  ss_last_seek_position_us :: int
  ss_pending_reset_position_us :: int
  ss_last_performed_buffer_operation :: int
  ss_pending_discontinuity :: bool
  ss_loading_finished :: bool
  ss_current_loadable_error_reason :: load_error_reason
  ss_enabled_track_count :: int
  ss_current_loadable_error_count :: int
  ss_current_loadable_error_timestamp :: int
  ss_current_load_start_time :: int
  ss_downstream_media_format :: "nat option"
  ss_downstream_format :: "format option"
  ss_loader :: "unit loader_thread option"
  ss_loader_address :: nat
  ss_canceled :: "loadable set"
  ss_disable_done_callback :: bool
  ss_disable_posted :: bool
  ss_events :: "source_event list"

definition ChunkSampleSource_new ::
  "'s \<Rightarrow> load_control \<Rightarrow> default_allocator \<Rightarrow> playback_rate \<Rightarrow> int \<Rightarrow> bool \<Rightarrow> int \<Rightarrow> nat \<Rightarrow> ('s, 'f) chunk_sample_source" where
  "ChunkSampleSource_new chunk_source load_control allocator playback_rate buffer_size_contribution event_listener
       min_loadable_retry_count loader_address =
     \<lparr>ss_sample_queue = (allocator, DefaultTrackOutput_new allocator), ss_playback_rate = playback_rate,
      ss_load_control = load_control, ss_chunk_source = chunk_source,
      ss_current_loadable_holder = ChunkOperationHolder_new, ss_media_chunks = [],
      ss_buffer_size_contribution = buffer_size_contribution, ss_event_listener = event_listener,
      ss_min_loadable_retry_count = min_loadable_retry_count, ss_state = STATE_IDLE,
      ss_downstream_position_us = 0, ss_last_seek_position_us = 0,
      ss_pending_reset_position_us = kNoResetPending, ss_last_performed_buffer_operation = 0,
      ss_pending_discontinuity = False, ss_loading_finished = False,
      ss_current_loadable_error_reason = NO_ERROR, ss_enabled_track_count = 0,
      ss_current_loadable_error_count = 0, ss_current_loadable_error_timestamp = 0,
      ss_current_load_start_time = 0, ss_downstream_media_format = None, ss_downstream_format = None,
      ss_loader = None, ss_loader_address = loader_address, ss_canceled = {},
      ss_disable_done_callback = False, ss_disable_posted = False, ss_events = []\<rparr>"

section \<open>Notifications\<close>

definition UsToMs :: "int \<Rightarrow> int" where
  "UsToMs time_us = time_us sdiv kMicrosPerMs"

definition notify :: "source_event \<Rightarrow> ('s, 'f) chunk_sample_source \<Rightarrow> ('s, 'f) chunk_sample_source" where
  "notify e c = (if ss_event_listener c then c\<lparr>ss_events := ss_events c @ [e]\<rparr> else c)"

definition NotifyLoadStarted :: "chunk \<Rightarrow> int \<Rightarrow> int \<Rightarrow> ('s, 'f) chunk_sample_source \<Rightarrow> ('s, 'f) chunk_sample_source" where
  "NotifyLoadStarted ck start_us end_us =
     notify (Load_Started (ds_length (ck_data_spec ck)) (ck_type ck) (ck_trigger ck) (ck_format ck)
               (UsToMs start_us) (UsToMs end_us))"

definition NotifyLoadCompleted ::
  "int \<Rightarrow> chunk \<Rightarrow> int \<Rightarrow> int \<Rightarrow> int \<Rightarrow> int \<Rightarrow> ('s, 'f) chunk_sample_source \<Rightarrow> ('s, 'f) chunk_sample_source" where
  "NotifyLoadCompleted bytes_loaded ck start_us end_us now load_duration =
     notify (Load_Completed bytes_loaded (ck_type ck) (ck_trigger ck) (ck_format ck)
               (UsToMs start_us) (UsToMs end_us) now load_duration)"

definition NotifyLoadCanceled :: "int \<Rightarrow> ('s, 'f) chunk_sample_source \<Rightarrow> ('s, 'f) chunk_sample_source" where
  "NotifyLoadCanceled bytes_loaded = notify (Load_Canceled bytes_loaded)"

definition NotifyLoadError :: "load_error_reason \<Rightarrow> ('s, 'f) chunk_sample_source \<Rightarrow> ('s, 'f) chunk_sample_source" where
  "NotifyLoadError e = notify (Load_Error e)"

definition NotifyUpstreamDiscarded :: "int \<Rightarrow> int \<Rightarrow> ('s, 'f) chunk_sample_source \<Rightarrow> ('s, 'f) chunk_sample_source" where
  "NotifyUpstreamDiscarded start_us end_us = notify (Upstream_Discarded (UsToMs start_us) (UsToMs end_us))"

definition NotifyDownstreamFormatChanged ::
  "format \<Rightarrow> int \<Rightarrow> int \<Rightarrow> ('s, 'f) chunk_sample_source \<Rightarrow> ('s, 'f) chunk_sample_source" where
  "NotifyDownstreamFormatChanged f trigger position_us =
     notify (Downstream_Format_Changed f trigger (UsToMs position_us))"

section \<open>Helpers\<close>

definition IsPendingReset :: "('s, 'f) chunk_sample_source \<Rightarrow> bool" where
  "IsPendingReset c \<longleftrightarrow> ss_pending_reset_position_us c \<noteq> kNoResetPending"

definition ss_is_loading :: "('s, 'f) chunk_sample_source \<Rightarrow> bool result" where
  "ss_is_loading c = (case ss_loader c of None \<Rightarrow> Inl Undefined_access | Some t \<Rightarrow> Inr (IsLoading t))"

definition ss_cancel_loading :: "('s, 'f) chunk_sample_source \<Rightarrow> ('s, 'f) chunk_sample_source result" where
  "ss_cancel_loading c =
     (case ss_loader c of
        None \<Rightarrow> Inl Undefined_access
      | Some t \<Rightarrow> and_then (CancelLoading t (ss_canceled c)) (\<lambda>s. Inr (c\<lparr>ss_canceled := s\<rparr>)))"

definition ss_start_loading ::
  "('f, 'd) source_env \<Rightarrow> chunk \<Rightarrow> ('s, 'f) chunk_sample_source \<Rightarrow> ('s, 'f) chunk_sample_source result" where
  "ss_start_loading env ck c =
     (case ss_loader c of
        None \<Rightarrow> Inl Undefined_access
      | Some t \<Rightarrow> Inr (c\<lparr>ss_loader := Some (snd (StartLoading (env_thread_starts env) (env_posted env)
                              (ck_address ck) () t))\<rparr>))"

definition ClearCurrentLoadableException :: "('s, 'f) chunk_sample_source \<Rightarrow> ('s, 'f) chunk_sample_source" where
  "ClearCurrentLoadableException c =
     c\<lparr>ss_current_loadable_error_reason := NO_ERROR, ss_current_loadable_error_count := 0\<rparr>"

definition ClearCurrentLoadable :: "('s, 'f) chunk_sample_source \<Rightarrow> ('s, 'f) chunk_sample_source" where
  "ClearCurrentLoadable c =
     ClearCurrentLoadableException
       (c\<lparr>ss_current_loadable_holder := SetChunk None (ss_current_loadable_holder c)\<rparr>)"

definition GetRetryDelayMillis :: "int \<Rightarrow> int" where
  "GetRetryDelayMillis error_count = min (1000000 * (error_count - 1)) 5000000"

definition GetNextLoadPositionUs :: "('s, 'f) chunk_sample_source \<Rightarrow> int result" where
  "GetNextLoadPositionUs c =
     (if IsPendingReset c then Inr (ss_pending_reset_position_us c)
      else if ss_loading_finished c then Inr (-1)
      else if ss_media_chunks c = [] then Inl Undefined_access
      else Inr (ck_end_time_us (last (ss_media_chunks c))))"

definition DoChunkOperation :: "'s chunk_source_ops \<Rightarrow> ('s, 'f) chunk_sample_source \<Rightarrow> ('s, 'f) chunk_sample_source" where
  "DoChunkOperation ops c =
     (let h = SetQueueSize (narrow32 (int (length (ss_media_chunks c))))
                (SetEndOfStream False (ss_current_loadable_holder c));
          position = (if ss_pending_reset_position_us c \<noteq> kNoResetPending then ss_pending_reset_position_us c
                      else ss_downstream_position_us c);
          (h', s') = cs_get_chunk_operation ops (ss_media_chunks c) position h (ss_chunk_source c)
      in c\<lparr>ss_current_loadable_holder := h', ss_chunk_source := s', ss_loading_finished := co_end_of_stream h'\<rparr>)"

text \<open>The loop that pops the back until the length is reached; the second result is the last removed.\<close>

fun pop_back_until :: "nat \<Rightarrow> nat \<Rightarrow> chunk list \<Rightarrow> chunk option \<Rightarrow> chunk list \<times> chunk option" where
  "pop_back_until queue_length 0 chunks removed = (chunks, removed)"
| "pop_back_until queue_length (Suc n) chunks removed =
     (if length chunks > queue_length then pop_back_until queue_length n (butlast chunks) (Some (last chunks))
      else (chunks, removed))"

definition DiscardUpstreamMediaChunks ::
  "int \<Rightarrow> ('s, 'f) chunk_sample_source \<Rightarrow> (bool \<times> ('s, 'f) chunk_sample_source) result" where
  "DiscardUpstreamMediaChunks queue_length c =
     (let chunks = ss_media_chunks c
      in if int (length chunks) \<le> wrap64 queue_length then Inr (False, c)
         else (let end_time_us = ck_end_time_us (last chunks);
                   (chunks', removed) = pop_back_until (nat (wrap64 queue_length)) (length chunks) chunks None
               in case removed of
                    None \<Rightarrow> Inl Undefined_access
                  | Some r \<Rightarrow>
                      and_then (TrackOutput_DiscardUpstreamSamples (ck_first_sample_index r) (ss_sample_queue c)) (\<lambda>q.
                        Inr (True, NotifyUpstreamDiscarded (ck_start_time_us r) end_time_us
                               (c\<lparr>ss_loading_finished := False, ss_media_chunks := chunks', ss_sample_queue := q\<rparr>)))))"

section \<open>Starting loads\<close>

definition MaybeStartLoading ::
  "('f, 'd) source_env \<Rightarrow> ('s, 'f) chunk_sample_source \<Rightarrow> ('s, 'f) chunk_sample_source result" where
  "MaybeStartLoading env c =
     (case co_chunk (ss_current_loadable_holder c) of
        None \<Rightarrow> Inr c
      | Some current_loadable \<Rightarrow>
          (let c1 = c\<lparr>ss_current_load_start_time := env_now env\<rparr>
           in if IsMediaChunk current_loadable
              then (case TakeChunk (ss_current_loadable_holder c1) of
                      (None, _) \<Rightarrow> Inl Undefined_access
                    | (Some taken, h') \<Rightarrow>
                        (let media_chunk = BaseMediaChunk_Init (ss_sample_queue c1) taken;
                             c2 = c1\<lparr>ss_current_loadable_holder := h',
                                     ss_media_chunks := ss_media_chunks c1 @ [media_chunk]\<rparr>;
                             c3 = (if IsPendingReset c2 then c2\<lparr>ss_pending_reset_position_us := kNoResetPending\<rparr> else c2)
                         in ss_start_loading env media_chunk
                              (NotifyLoadStarted media_chunk (ck_start_time_us media_chunk) (ck_end_time_us media_chunk) c3)))
              else ss_start_loading env current_loadable (NotifyLoadStarted current_loadable (-1) (-1) c1)))"

text \<open>
  Resuming after an error. In the first branch the holder owns the failed chunk; when the chunk source
  replaces it, \<open>SetChunk\<close> destroys it, and the source then asks the destroyed chunk for its byte count.
\<close>

definition ResumeFromBackOff ::
  "'s chunk_source_ops \<Rightarrow> ('f, 'd) source_env \<Rightarrow> ('s, 'f) chunk_sample_source \<Rightarrow> ('s, 'f) chunk_sample_source result" where
  "ResumeFromBackOff ops env c0 =
     (let c = c0\<lparr>ss_current_loadable_error_reason := NO_ERROR\<rparr>;
          unchanged = (\<lambda>b c'. map_option ck_address (co_chunk (ss_current_loadable_holder c')) = Some (ck_address b))
      in case co_chunk (ss_current_loadable_holder c) of
           None \<Rightarrow> Inl Undefined_access
         | Some b \<Rightarrow>
             if \<not> IsMediaChunk b
             then (let owned = co_owned (ss_current_loadable_holder c); c1 = DoChunkOperation ops c
                   in and_then (DiscardUpstreamMediaChunks (co_queue_size (ss_current_loadable_holder c1)) c1) (\<lambda>(_, c2).
                        if unchanged b c2 then ss_start_loading env b c2
                        else if owned then Inl Undefined_access
                        else MaybeStartLoading env (NotifyLoadCanceled (env_bytes_loaded env (ck_address b)) c2)))
             else if ss_media_chunks c = [] then Inl Undefined_access
             else if ck_address b = ck_address (hd (ss_media_chunks c)) then ss_start_loading env b c
             else (let removed = last (ss_media_chunks c);
                       c1 = DoChunkOperation ops (c\<lparr>ss_media_chunks := butlast (ss_media_chunks c)\<rparr>);
                       c2 = c1\<lparr>ss_media_chunks := ss_media_chunks c1 @ [removed]\<rparr>
                   in if unchanged b c2 then ss_start_loading env b c2
                      else and_then (DiscardUpstreamMediaChunks (co_queue_size (ss_current_loadable_holder c2))
                             (NotifyLoadCanceled (env_bytes_loaded env (ck_address b)) c2)) (\<lambda>(_, c3).
                             MaybeStartLoading env (ClearCurrentLoadableException c3))))"

definition UpdateLoadControl ::
  "'s chunk_source_ops \<Rightarrow> ('f, 'd) source_env \<Rightarrow> ('s, 'f) chunk_sample_source \<Rightarrow> ('s, 'f) chunk_sample_source result" where
  "UpdateLoadControl ops env c =
     and_then (GetNextLoadPositionUs c) (\<lambda>next_position.
     and_then (ss_is_loading c) (\<lambda>loading.
       (let is_backed_off = (ss_current_loadable_error_reason c \<noteq> NO_ERROR);
            loading_or_backed_off = (loading \<or> is_backed_off)
        in and_then
             (if \<not> loading_or_backed_off \<and>
                 (co_chunk (ss_current_loadable_holder c) = None \<and> next_position \<noteq> -1 \<or>
                  env_now env - ss_last_performed_buffer_operation c > 2000000)
              then (let c1 = DoChunkOperation ops (c\<lparr>ss_last_performed_buffer_operation := env_now env\<rparr>)
                    in and_then (DiscardUpstreamMediaChunks (co_queue_size (ss_current_loadable_holder c1)) c1) (\<lambda>(chunks_discarded, c2).
                         if co_chunk (ss_current_loadable_holder c2) = None then Inr (-1, c2)
                         else if chunks_discarded then and_then (GetNextLoadPositionUs c2) (\<lambda>p. Inr (p, c2))
                         else Inr (next_position, c2)))
              else Inr (next_position, c)) (\<lambda>(position, c2).
             and_then (Update (ss_load_control c2) (fst (ss_sample_queue c2)) (ss_loader_address c2)
                         (ss_downstream_position_us c2) position loading_or_backed_off) (\<lambda>(next_loader, lc).
               (let c3 = c2\<lparr>ss_load_control := lc\<rparr>
                in if is_backed_off
                   then (if env_now env - ss_current_loadable_error_timestamp c3 \<ge>
                              GetRetryDelayMillis (ss_current_loadable_error_count c3)
                         then ResumeFromBackOff ops env c3 else Inr c3)
                   else and_then (ss_is_loading c3) (\<lambda>still_loading.
                     if \<not> still_loading \<and> next_loader then MaybeStartLoading env c3 else Inr c3)))))))"

definition RestartFrom ::
  "'s chunk_source_ops \<Rightarrow> ('f, 'd) source_env \<Rightarrow> int \<Rightarrow> ('s, 'f) chunk_sample_source \<Rightarrow> ('s, 'f) chunk_sample_source result" where
  "RestartFrom ops env position_us c =
     (let c1 = c\<lparr>ss_pending_reset_position_us := position_us, ss_loading_finished := False\<rparr>
      in and_then (ss_is_loading c1) (\<lambda>loading.
           if loading then ss_cancel_loading c1
           else UpdateLoadControl ops env
                  (ClearCurrentLoadable
                     (c1\<lparr>ss_sample_queue := TrackOutput_Clear (ss_sample_queue c1), ss_media_chunks := []\<rparr>))))"

section \<open>The reader's interface\<close>

definition ChunkSampleSource_Register :: "('s, 'f) chunk_sample_source \<Rightarrow> ('s, 'f) chunk_sample_source" where
  "ChunkSampleSource_Register c = c\<lparr>ss_state := STATE_INITIALIZED\<rparr>"

text \<open>The default loader factory never returns null.\<close>

definition ChunkSampleSource_Prepare ::
  "'s chunk_source_ops \<Rightarrow> ('s, 'f) chunk_sample_source \<Rightarrow> bool \<times> ('s, 'f) chunk_sample_source" where
  "ChunkSampleSource_Prepare ops c =
     (if ss_state c = STATE_PREPARED then (True, c)
      else (let (ok, s') = cs_prepare ops (ss_chunk_source c)
            in if \<not> ok then (False, c\<lparr>ss_chunk_source := s'\<rparr>)
               else (True, c\<lparr>ss_chunk_source := s', ss_loader := Some LoaderThread_new, ss_state := STATE_PREPARED\<rparr>)))"

definition ChunkSampleSource_GetDurationUs :: "'s chunk_source_ops \<Rightarrow> ('s, 'f) chunk_sample_source \<Rightarrow> int" where
  "ChunkSampleSource_GetDurationUs ops c = cs_get_duration_us ops (ss_chunk_source c)"

definition ChunkSampleSource_Enable ::
  "'s chunk_source_ops \<Rightarrow> ('f, 'd) source_env \<Rightarrow> track_criteria \<Rightarrow> int \<Rightarrow> ('s, 'f) chunk_sample_source \<Rightarrow>
   ('s, 'f) chunk_sample_source result" where
  "ChunkSampleSource_Enable ops env criteria position_us c =
     RestartFrom ops env position_us
       (c\<lparr>ss_enabled_track_count := ss_enabled_track_count c + 1, ss_state := STATE_ENABLED,
          ss_chunk_source := cs_enable ops criteria (ss_chunk_source c),
          ss_load_control := Register (ss_load_control c) (ss_loader_address c) (ss_buffer_size_contribution c),
          ss_downstream_position_us := position_us, ss_downstream_format := None,
          ss_downstream_media_format := None, ss_last_seek_position_us := position_us,
          ss_pending_discontinuity := False\<rparr>)"

definition DisableAndClear ::
  "'s chunk_source_ops \<Rightarrow> ('s, 'f) chunk_sample_source \<Rightarrow> ('s, 'f) chunk_sample_source result" where
  "DisableAndClear ops c =
     and_then (Unregister (ss_load_control c) (ss_loader_address c)) (\<lambda>lc.
       (let c1 = ClearCurrentLoadable
              (c\<lparr>ss_enabled_track_count := ss_enabled_track_count c - 1, ss_state := STATE_PREPARED,
                 ss_load_control := lc, ss_chunk_source := cs_disable ops (ss_media_chunks c) (ss_chunk_source c),
                 ss_sample_queue := TrackOutput_Clear (ss_sample_queue c), ss_media_chunks := []\<rparr>);
            c2 = c1\<lparr>ss_sample_queue := (TrimAllocator lc (fst (ss_sample_queue c1)), snd (ss_sample_queue c1))\<rparr>
        in Inr (if ss_disable_done_callback c2
                then c2\<lparr>ss_events := ss_events c2 @ [Disable_Done], ss_disable_done_callback := False\<rparr> else c2)))"

text \<open>Without a load in progress \<open>DisableAndClear\<close> is posted; \<open>Posted_DisableAndClear\<close> runs the posted task.\<close>

definition ChunkSampleSource_Disable ::
  "bool \<Rightarrow> ('s, 'f) chunk_sample_source \<Rightarrow> ('s, 'f) chunk_sample_source result" where
  "ChunkSampleSource_Disable has_callback c =
     (let c1 = c\<lparr>ss_state := STATE_DISABLING,
                 ss_disable_done_callback := (has_callback \<or> ss_disable_done_callback c)\<rparr>
      in and_then (ss_is_loading c1) (\<lambda>loading.
           if loading then ss_cancel_loading c1 else Inr (c1\<lparr>ss_disable_posted := True\<rparr>)))"

definition Posted_DisableAndClear ::
  "'s chunk_source_ops \<Rightarrow> ('s, 'f) chunk_sample_source \<Rightarrow> ('s, 'f) chunk_sample_source result" where
  "Posted_DisableAndClear ops c = DisableAndClear ops (c\<lparr>ss_disable_posted := False\<rparr>)"

definition ChunkSampleSource_ContinueBuffering ::
  "'s chunk_source_ops \<Rightarrow> ('f, 'd) source_env \<Rightarrow> int \<Rightarrow> ('s, 'f) chunk_sample_source \<Rightarrow>
   (bool \<times> ('s, 'f) chunk_sample_source) result option" where
  "ChunkSampleSource_ContinueBuffering ops env position_us c =
     and_then_opt (Some (UpdateLoadControl ops env
          (c\<lparr>ss_downstream_position_us := position_us,
             ss_chunk_source := cs_continue_buffering ops position_us (ss_chunk_source c)\<rparr>))) (\<lambda>c1.
       if ss_loading_finished c1 then Some (Inr (True, c1))
       else and_then_opt (IsEmpty (ss_sample_queue c1)) (\<lambda>(empty, q).
              Some (Inr (\<not> empty, c1\<lparr>ss_sample_queue := q\<rparr>))))"

definition ReadDiscontinuity :: "('s, 'f) chunk_sample_source \<Rightarrow> int \<times> ('s, 'f) chunk_sample_source" where
  "ReadDiscontinuity c =
     (if ss_pending_discontinuity c then (ss_last_seek_position_us c, c\<lparr>ss_pending_discontinuity := False\<rparr>)
      else (NO_DISCONTINUITY, c))"

text \<open>The loop that drops the chunks whose samples have all been read.\<close>

fun pop_played :: "int \<Rightarrow> chunk list \<Rightarrow> chunk list" where
  "pop_played read_index (a # b # cs) =
     (if ck_first_sample_index b \<le> read_index then pop_played read_index (b # cs) else a # b # cs)"
| "pop_played read_index cs = cs"

record ('f, 'd) media_format_holder =
  fh_format :: "'f option"
  fh_drm_init_data :: "'d option"

definition note_format :: "chunk \<Rightarrow> ('s, 'f) chunk_sample_source \<Rightarrow> ('s, 'f) chunk_sample_source" where
  "note_format current_chunk c =
     (case ck_format current_chunk of
        None \<Rightarrow> c\<lparr>ss_downstream_format := None\<rparr>
      | Some f \<Rightarrow>
          if (case ss_downstream_format c of None \<Rightarrow> True | Some d \<Rightarrow> \<not> Format_eq f d)
          then (NotifyDownstreamFormatChanged f (ck_trigger current_chunk) (ck_start_time_us current_chunk) c)
                 \<lparr>ss_downstream_format := Some f\<rparr>
          else c)"

definition mark_decode_only :: "('s, 'f) chunk_sample_source \<Rightarrow> sample_holder \<Rightarrow> sample_holder" where
  "mark_decode_only c h =
     (let decode_only = (if IsForward (ss_playback_rate c) then sh_time_us h < ss_last_seek_position_us c
                         else sh_time_us h > ss_last_seek_position_us c)
      in h\<lparr>sh_flags := sh_flags h OR (if decode_only then kSampleFlagDecodeOnly else 0)\<rparr>)"

definition read_sample ::
  "('f, 'd) media_format_holder \<Rightarrow> sample_holder \<Rightarrow> ('s, 'f) chunk_sample_source \<Rightarrow>
   (read_result \<times> ('f, 'd) media_format_holder \<times> sample_holder \<times> ('s, 'f) chunk_sample_source) result option" where
  "read_sample fh h c =
     and_then_opt (GetSample h (ss_sample_queue c)) (\<lambda>(ok, h', q).
       let c' = c\<lparr>ss_sample_queue := q\<rparr>
       in if ok then Some (Inr (SAMPLE_READ, fh, mark_decode_only c' h', c'))
          else Some (Inr (NOTHING_READ, fh, h', c')))"

text \<open>What follows the handling of the format.\<close>

definition finish_read ::
  "bool \<Rightarrow> ('f, 'd) media_format_holder \<Rightarrow> sample_holder \<Rightarrow> ('s, 'f) chunk_sample_source \<Rightarrow>
   (read_result \<times> ('f, 'd) media_format_holder \<times> sample_holder \<times> ('s, 'f) chunk_sample_source) result option" where
  "finish_read have_samples fh h c =
     (if \<not> have_samples
      then Some (Inr (if ss_loading_finished c then END_OF_STREAM else NOTHING_READ, fh, h, c))
      else read_sample fh h c)"

definition read_from_chunk ::
  "('f, 'd) source_env \<Rightarrow> bool \<Rightarrow> ('f, 'd) media_format_holder \<Rightarrow> sample_holder \<Rightarrow> chunk \<Rightarrow> ('s, 'f) chunk_sample_source \<Rightarrow>
   (read_result \<times> ('f, 'd) media_format_holder \<times> sample_holder \<times> ('s, 'f) chunk_sample_source) result option" where
  "read_from_chunk env have_samples fh h current_chunk c =
     (if have_samples \<or> ck_is_media_format_final current_chunk
      then (case env_media_format env (ck_address current_chunk) of
              None \<Rightarrow> finish_read have_samples fh h (c\<lparr>ss_downstream_media_format := None\<rparr>)
            | Some (object_id, f) \<Rightarrow>
                if ss_downstream_media_format c \<noteq> Some object_id
                then Some (Inr (FORMAT_READ,
                       fh\<lparr>fh_format := Some f,
                          fh_drm_init_data := env_drm_init_data env (ck_address current_chunk)\<rparr>, h,
                       c\<lparr>ss_downstream_media_format := Some object_id\<rparr>))
                else finish_read have_samples fh h c)
      else finish_read have_samples fh h c)"

definition ChunkSampleSource_ReadData ::
  "('f, 'd) source_env \<Rightarrow> int \<Rightarrow> ('f, 'd) media_format_holder \<Rightarrow> sample_holder \<Rightarrow> ('s, 'f) chunk_sample_source \<Rightarrow>
   (read_result \<times> ('f, 'd) media_format_holder \<times> sample_holder \<times> ('s, 'f) chunk_sample_source) result option" where
  "ChunkSampleSource_ReadData env position_us fh h c =
     (if ss_pending_discontinuity c \<or> IsPendingReset c
      then Some (Inr (NOTHING_READ, fh, h, c\<lparr>ss_downstream_position_us := position_us\<rparr>))
      else and_then_opt (IsEmpty (ss_sample_queue c)) (\<lambda>(empty, q).
        let chunks = (if empty then ss_media_chunks c else pop_played (TrackOutput_GetReadIndex q) (ss_media_chunks c));
            c1 = c\<lparr>ss_downstream_position_us := position_us, ss_sample_queue := q, ss_media_chunks := chunks\<rparr>
        in case chunks of
             [] \<Rightarrow> Some (Inl Undefined_access)
           | current_chunk # _ \<Rightarrow> read_from_chunk env (\<not> empty) fh h current_chunk (note_format current_chunk c1)))"

definition ChunkSampleSource_SeekToUs ::
  "'s chunk_source_ops \<Rightarrow> ('f, 'd) source_env \<Rightarrow> int \<Rightarrow> ('s, 'f) chunk_sample_source \<Rightarrow>
   ('s, 'f) chunk_sample_source result option" where
  "ChunkSampleSource_SeekToUs ops env position_us c =
     (let current_position_us =
            (if IsPendingReset c then ss_pending_reset_position_us c else ss_downstream_position_us c);
          c1 = c\<lparr>ss_downstream_position_us := position_us, ss_last_seek_position_us := position_us\<rparr>
      in if current_position_us = position_us then Some (Inr c1)
         else and_then_opt
           (if IsPendingReset c1 then Some (Inr (False, c1))
            else Some (and_then (TrackOutput_SkipToKeyframeBefore position_us (ss_sample_queue c1)) (\<lambda>(inside, q).
                   Inr (inside, c1\<lparr>ss_sample_queue := q\<rparr>)))) (\<lambda>(seek_inside_buffer, c2).
           and_then_opt
             (if seek_inside_buffer
              then and_then_opt (IsEmpty (ss_sample_queue c2)) (\<lambda>(empty, q).
                     Some (Inr (c2\<lparr>ss_sample_queue := q,
                       ss_media_chunks := (if \<not> empty then pop_played (TrackOutput_GetReadIndex q) (ss_media_chunks c2)
                                           else ss_media_chunks c2)\<rparr>)))
              else Some (RestartFrom ops env position_us c2)) (\<lambda>c3.
             Some (Inr (c3\<lparr>ss_pending_discontinuity := True\<rparr>)))))"

definition ChunkSampleSource_CanContinueBuffering :: "'s chunk_source_ops \<Rightarrow> ('s, 'f) chunk_sample_source \<Rightarrow> bool" where
  "ChunkSampleSource_CanContinueBuffering ops c =
     (if ss_current_loadable_error_reason c \<noteq> NO_ERROR \<and>
         ss_current_loadable_error_count c > ss_min_loadable_retry_count c then False
      else if co_chunk (ss_current_loadable_holder c) = None then cs_can_continue_buffering ops (ss_chunk_source c)
      else True)"

definition GetBufferedPositionUs :: "('s, 'f) chunk_sample_source \<Rightarrow> int" where
  "GetBufferedPositionUs c =
     (if IsPendingReset c then ss_pending_reset_position_us c
      else if ss_loading_finished c then kEndOfTrackUs
      else (let largest_parsed_timestamp_us = GetLargestParsedTimestampUs (ss_sample_queue c)
            in if largest_parsed_timestamp_us = kNoParsedTimestamp then ss_downstream_position_us c
               else largest_parsed_timestamp_us))"

definition ChunkSampleSource_Release :: "('s, 'f) chunk_sample_source \<Rightarrow> ('s, 'f) chunk_sample_source result" where
  "ChunkSampleSource_Release c =
     and_then (case ss_loader c of
                 None \<Rightarrow> Inr c
               | Some t \<Rightarrow> if IsLoading t then ss_cancel_loading c else Inr c)
       (\<lambda>c1. Inr (c1\<lparr>ss_state := STATE_IDLE\<rparr>))"

section \<open>The loader's callback\<close>

definition OnLoadCompleted ::
  "'s chunk_source_ops \<Rightarrow> ('f, 'd) source_env \<Rightarrow> ('s, 'f) chunk_sample_source \<Rightarrow> ('s, 'f) chunk_sample_source result" where
  "OnLoadCompleted ops env c =
     (let load_duration = env_now env - ss_current_load_start_time c;
          current_loadable = co_chunk (ss_current_loadable_holder c);
          c1 = c\<lparr>ss_chunk_source := cs_on_chunk_load_completed ops current_loadable (ss_chunk_source c)\<rparr>
      in case current_loadable of
           None \<Rightarrow> Inl Undefined_access
         | Some ck \<Rightarrow>
             (let bytes = env_bytes_loaded env (ck_address ck);
                  c2 = (if IsMediaChunk ck
                        then NotifyLoadCompleted bytes ck (ck_start_time_us ck) (ck_end_time_us ck) (env_now env) load_duration c1
                        else NotifyLoadCompleted bytes ck (-1) (-1) (env_now env) load_duration c1)
              in UpdateLoadControl ops env (ClearCurrentLoadable c2)))"

definition OnLoadCanceled ::
  "'s chunk_source_ops \<Rightarrow> ('f, 'd) source_env \<Rightarrow> ('s, 'f) chunk_sample_source \<Rightarrow> ('s, 'f) chunk_sample_source result" where
  "OnLoadCanceled ops env c =
     (case co_chunk (ss_current_loadable_holder c) of
        None \<Rightarrow> Inl Undefined_access
      | Some ck \<Rightarrow>
          (let c1 = ClearCurrentLoadable (NotifyLoadCanceled (env_bytes_loaded env (ck_address ck)) c)
           in if ss_state c1 = STATE_ENABLED then RestartFrom ops env (ss_pending_reset_position_us c1) c1
              else DisableAndClear ops c1))"

definition OnLoadError ::
  "'s chunk_source_ops \<Rightarrow> ('f, 'd) source_env \<Rightarrow> load_error_reason \<Rightarrow> ('s, 'f) chunk_sample_source \<Rightarrow>
   ('s, 'f) chunk_sample_source result" where
  "OnLoadError ops env e c =
     (let c1 = NotifyLoadError e
            (c\<lparr>ss_current_loadable_error_reason := e,
               ss_current_loadable_error_count := ss_current_loadable_error_count c + 1,
               ss_current_loadable_error_timestamp := env_now env\<rparr>)
      in UpdateLoadControl ops env
           (c1\<lparr>ss_chunk_source := cs_on_chunk_load_error ops (co_chunk (ss_current_loadable_holder c1)) e (ss_chunk_source c1)\<rparr>))"

definition LoadComplete ::
  "'s chunk_source_ops \<Rightarrow> ('f, 'd) source_env \<Rightarrow> loader_outcome \<Rightarrow> ('s, 'f) chunk_sample_source \<Rightarrow>
   ('s, 'f) chunk_sample_source result" where
  "LoadComplete ops env outcome c =
     (case outcome of
        LOAD_COMPLETE \<Rightarrow> OnLoadCompleted ops env c
      | LOAD_ERROR \<Rightarrow> OnLoadError ops env GENERIC_ERROR c
      | LOAD_CANCELED \<Rightarrow> OnLoadCanceled ops env c)"

text \<open>The reply task of the loader with the bound callback.\<close>

definition loader_done ::
  "'s chunk_source_ops \<Rightarrow> ('f, 'd) source_env \<Rightarrow> ('s, 'f) chunk_sample_source \<Rightarrow> ('s, 'f) chunk_sample_source result" where
  "loader_done ops env c =
     (case ss_loader c of
        None \<Rightarrow> Inl Undefined_access
      | Some t \<Rightarrow> and_then (DoneLoad (ss_canceled c) t) (\<lambda>((_, _, outcome), t').
                    LoadComplete ops env outcome (c\<lparr>ss_loader := Some t'\<rparr>)))"

end
