(* ===== verification/Manifest_Fetcher.thy ===== *)
theory Manifest_Fetcher
  imports Loader_Thread Chunks
begin

text \<open>
  Fetching the manifest (\<open>manifest_fetcher.cc\<close>): a loadable that reads the document, and the fetcher that
  starts loads on its loader thread, turns the document into a presentation and backs off after errors.

  The data source is a parameter: what \<open>Open\<close> returned and a read function over the state of the
  connection. The parser is a parameter too: it maps the address and the text of a document to a
  presentation, or to nothing. A presentation is kept with the identity of its object, because its
  users compare pointers. Times are microseconds; \<open>now\<close> is the reading of the clock.
\<close>

section \<open>The loadable\<close>

text \<open>
  One round of the loop. The piece is appended as a string that ends at the first zero character,
  because the buffer is passed without its length.
\<close>

definition append_piece_text :: "int \<Rightarrow> string \<Rightarrow> string \<Rightarrow> string" where
  "append_piece_text num_read buffer xml =
     (if num_read > 0 then xml @ takeWhile (\<lambda>c. c \<noteq> CHR 0x00) (take (nat num_read) buffer) else xml)"

partial_function (option) manifest_read_loop :: "('w \<Rightarrow> (int \<times> string) \<times> 'w) \<Rightarrow> string \<Rightarrow> 'w \<Rightarrow> (string \<times> 'w) option" where
  "manifest_read_loop read xml w =
     (case read w of ((num_read, buffer), w') \<Rightarrow>
        if num_read \<noteq> RESULT_END_OF_INPUT \<and> num_read \<noteq> RESULT_IO_ERROR
        then manifest_read_loop read (append_piece_text num_read buffer xml) w'
        else Some (append_piece_text num_read buffer xml, w'))"

definition ManifestLoadable_Load :: "int \<Rightarrow> ('w \<Rightarrow> (int \<times> string) \<times> 'w) \<Rightarrow> string \<Rightarrow> 'w \<Rightarrow> (bool \<times> string \<times> 'w) option" where
  "ManifestLoadable_Load open_result read xml w =
     (if open_result \<noteq> RESULT_IO_ERROR then map_option (\<lambda>(xml', w'). (True, xml', w')) (manifest_read_loop read xml w)
      else Some (False, xml, w))"

section \<open>The fetcher\<close>

datatype fetch_error = NONE | UNKNOWN_ERROR | NETWORK_ERROR | PARSING_ERROR

datatype fetcher_event = Refresh_Started | Refreshed | Fetch_Error fetch_error

type_synonym manifest_ref = "nat \<times> presentation"

record manifest_loadable =
  ml_address :: nat
  ml_uri :: string
  ml_xml :: string

record manifest_fetcher =
  mf_loader :: "unit loader_thread"
  mf_manifest_uri :: string
  mf_event_listener :: bool
  mf_load_error :: fetch_error
  mf_load_error_count :: int
  mf_load_error_timestamp :: int
  mf_manifest_load_start_timestamp :: int
  mf_manifest_load_complete_timestamp :: int
  mf_current_loadable :: "manifest_loadable option"
  mf_current_load_start_timestamp :: int
  mf_manifest :: "manifest_ref option"
  mf_enabled_count :: int
  mf_events :: "fetcher_event list"

definition ManifestFetcher_new :: "string \<Rightarrow> bool \<Rightarrow> manifest_fetcher" where
  "ManifestFetcher_new manifest_uri event_listener =
     \<lparr>mf_loader = LoaderThread_new, mf_manifest_uri = manifest_uri, mf_event_listener = event_listener,
      mf_load_error = NONE, mf_load_error_count = 0, mf_load_error_timestamp = 0,
      mf_manifest_load_start_timestamp = 0, mf_manifest_load_complete_timestamp = 0,
      mf_current_loadable = None, mf_current_load_start_timestamp = 0, mf_manifest = None,
      mf_enabled_count = 0, mf_events = []\<rparr>"

definition UpdateManifestUri :: "string \<Rightarrow> manifest_fetcher \<Rightarrow> manifest_fetcher" where
  "UpdateManifestUri manifest_uri f = f\<lparr>mf_manifest_uri := manifest_uri\<rparr>"

definition HasManifest :: "manifest_fetcher \<Rightarrow> bool" where
  "HasManifest f \<longleftrightarrow> mf_manifest f \<noteq> None"

definition Fetcher_CanContinueBuffering :: "manifest_fetcher \<Rightarrow> bool" where
  "Fetcher_CanContinueBuffering f \<longleftrightarrow> mf_load_error f = NONE \<or> mf_load_error_count f \<le> 1"

definition fetcher_notify :: "fetcher_event \<Rightarrow> manifest_fetcher \<Rightarrow> manifest_fetcher" where
  "fetcher_notify e f = (if mf_event_listener f then f\<lparr>mf_events := mf_events f @ [e]\<rparr> else f)"

definition NotifyManifestRefreshStarted :: "manifest_fetcher \<Rightarrow> manifest_fetcher" where
  "NotifyManifestRefreshStarted = fetcher_notify Refresh_Started"

definition NotifyManifestRefreshed :: "manifest_fetcher \<Rightarrow> manifest_fetcher" where
  "NotifyManifestRefreshed = fetcher_notify Refreshed"

definition NotifyManifestError :: "fetch_error \<Rightarrow> manifest_fetcher \<Rightarrow> manifest_fetcher" where
  "NotifyManifestError e = fetcher_notify (Fetch_Error e)"

definition Fetcher_GetRetryDelayMillis :: "int \<Rightarrow> int" where
  "Fetcher_GetRetryDelayMillis error_count = wrap64 (min ((error_count - 1) * 1000) 5000)"

definition retry_delay_us :: "int \<Rightarrow> int" where
  "retry_delay_us error_count = Fetcher_GetRetryDelayMillis error_count * 1000"

definition RequestRefresh :: "int \<Rightarrow> bool \<Rightarrow> bool \<Rightarrow> nat \<Rightarrow> manifest_fetcher \<Rightarrow> bool \<times> manifest_fetcher" where
  "RequestRefresh now thread_starts posted address f =
     (if mf_load_error f \<noteq> NONE \<and> now < mf_load_error_timestamp f + retry_delay_us (mf_load_error_count f)
      then (False, f)
      else if \<not> IsLoading (mf_loader f)
      then (True, NotifyManifestRefreshStarted
              (f\<lparr>mf_current_loadable := Some \<lparr>ml_address = address, ml_uri = mf_manifest_uri f, ml_xml = []\<rparr>,
                 mf_current_load_start_timestamp := now,
                 mf_loader := snd (StartLoading thread_starts posted address () (mf_loader f))\<rparr>))
      else (True, f))"

definition ProcessLoadCompleted :: "(string \<Rightarrow> string \<Rightarrow> presentation option) \<Rightarrow> int \<Rightarrow> nat \<Rightarrow> manifest_fetcher \<Rightarrow> manifest_fetcher result" where
  "ProcessLoadCompleted parse now identity f =
     (case mf_current_loadable f of
        None \<Rightarrow> Inl Undefined_access
      | Some l \<Rightarrow>
          (case parse (ml_uri l) (ml_xml l) of
             Some m \<Rightarrow> Inr (NotifyManifestRefreshed
               (f\<lparr>mf_manifest := Some (identity, m),
                  mf_manifest_load_start_timestamp := mf_current_load_start_timestamp f,
                  mf_manifest_load_complete_timestamp := now, mf_load_error := NONE, mf_load_error_count := 0\<rparr>))
           | None \<Rightarrow> Inr (NotifyManifestError PARSING_ERROR
               (f\<lparr>mf_manifest := None, mf_load_error_count := mf_load_error_count f + 1,
                  mf_load_error_timestamp := now, mf_load_error := PARSING_ERROR\<rparr>))))"

definition ProcessLoadError :: "int \<Rightarrow> manifest_fetcher \<Rightarrow> manifest_fetcher" where
  "ProcessLoadError now f =
     NotifyManifestError UNKNOWN_ERROR
       (f\<lparr>mf_load_error_count := mf_load_error_count f + 1, mf_load_error_timestamp := now, mf_load_error := UNKNOWN_ERROR\<rparr>)"

definition Fetcher_LoadComplete ::
  "(string \<Rightarrow> string \<Rightarrow> presentation option) \<Rightarrow> int \<Rightarrow> nat \<Rightarrow> loadable \<Rightarrow> loader_outcome \<Rightarrow> manifest_fetcher \<Rightarrow> manifest_fetcher result" where
  "Fetcher_LoadComplete parse now identity loadable outcome f =
     (if map_option ml_address (mf_current_loadable f) \<noteq> Some loadable then Inr f
      else and_then
        (case outcome of
           LOAD_COMPLETE \<Rightarrow> ProcessLoadCompleted parse now identity f
         | LOAD_ERROR \<Rightarrow> Inr (ProcessLoadError now f)
         | LOAD_CANCELED \<Rightarrow> Inr f)
        (\<lambda>f'. Inr (f'\<lparr>mf_current_loadable := None\<rparr>)))"

definition Fetcher_Enable :: "manifest_fetcher \<Rightarrow> manifest_fetcher" where
  "Fetcher_Enable f =
     (let f1 = f\<lparr>mf_enabled_count := mf_enabled_count f + 1\<rparr>
      in if mf_enabled_count f = 0 then f1\<lparr>mf_load_error := NONE, mf_load_error_count := 0\<rparr> else f1)"

text \<open>
  The loadable ignores cancellation, so \<open>CancelLoading\<close> only fails when the loader has no loadable; no
  loadable ever counts as cancelled.
\<close>

definition Fetcher_Disable :: "manifest_fetcher \<Rightarrow> manifest_fetcher result" where
  "Fetcher_Disable f =
     (let f1 = f\<lparr>mf_enabled_count := mf_enabled_count f - 1\<rparr>
      in if mf_enabled_count f1 = 0
         then and_then (CancelLoading (mf_loader f1) {}) (\<lambda>_. Inr f1) else Inr f1)"

section \<open>Loading the document\<close>

text \<open>A connection that delivers the given pieces and then the given result for ever.\<close>

definition deliver :: "string list \<times> int \<Rightarrow> (int \<times> string) \<times> string list \<times> int" where
  "deliver w = (case w of ([], r) \<Rightarrow> ((r, []), w) | (p # ps, r) \<Rightarrow> ((int (length p), p), ps, r))"

lemma deliver_simps [simp]: "deliver ([], r) = ((r, []), [], r)" "deliver (p # ps, r) = ((int (length p), p), ps, r)"
  by (simp_all add: deliver_def)

definition text_piece :: "string \<Rightarrow> bool" where
  "text_piece p \<longleftrightarrow> p \<noteq> [] \<and> CHR 0x00 \<notin> set p"

lemma append_text_piece: "text_piece p \<Longrightarrow> append_piece_text (int (length p)) p xml = xml @ p"
proof -
  assume "text_piece p"
  then have "takeWhile (\<lambda>c. c \<noteq> CHR 0x00) p = p" "p \<noteq> []" by (auto simp: text_piece_def takeWhile_eq_all_conv)
  then show ?thesis by (simp add: append_piece_text_def)
qed

lemma read_loop_delivers:
  assumes "\<forall>p \<in> set pieces. text_piece p" "r = RESULT_END_OF_INPUT \<or> r = RESULT_IO_ERROR"
  shows "manifest_read_loop deliver xml (pieces, r) = Some (xml @ concat pieces, ([], r))"
  using assms(1)
proof (induction pieces arbitrary: xml)
  case Nil
  have "append_piece_text r [] xml = xml" by (simp add: append_piece_text_def)
  then show ?case using assms(2) by (subst manifest_read_loop.simps) auto
next
  case (Cons p ps)
  then have "int (length p) \<noteq> RESULT_END_OF_INPUT \<and> int (length p) \<noteq> RESULT_IO_ERROR" "append_piece_text (int (length p)) p xml = xml @ p"
    by (simp_all add: RESULT_END_OF_INPUT_def RESULT_IO_ERROR_def append_text_piece)
  then show ?case using Cons by (subst manifest_read_loop.simps) simp
qed

text \<open>
  Loading a manifest. When the connection opens and delivers text without zero characters, the load
  ends and the document is the concatenation of the pieces. It succeeds just the same when the
  connection breaks: a truncated document is handed to the parser as if it were complete.
\<close>

theorem manifest_load_concatenates:
  assumes "open_result \<noteq> RESULT_IO_ERROR" "\<forall>p \<in> set pieces. text_piece p" "r = RESULT_END_OF_INPUT \<or> r = RESULT_IO_ERROR"
  shows "ManifestLoadable_Load open_result deliver [] (pieces, r) = Some (True, concat pieces, ([], r))"
  using assms(1) read_loop_delivers [OF assms(2,3)] by (simp add: ManifestLoadable_Load_def)

theorem manifest_load_concatenates_witness:
  "ManifestLoadable_Load 20 deliver [] ([''<MPD'', '' type=''], RESULT_IO_ERROR) = Some (True, ''<MPD type='', ([], RESULT_IO_ERROR))"
  using manifest_load_concatenates [of 20 "[''<MPD'', '' type='']" RESULT_IO_ERROR] by (simp add: text_piece_def RESULT_IO_ERROR_def)

section \<open>Every interleaving\<close>

text \<open>
  The steps of the fetcher: a refresh is requested (the loading thread may fail to start, which
  \<open>RequestRefresh\<close> does not notice: the new loadable then stays behind until the next request), the
  loading thread runs, the callback is delivered, the users enable and disable it.
\<close>

definition fetcher_done ::
  "(string \<Rightarrow> string \<Rightarrow> presentation option) \<Rightarrow> int \<Rightarrow> nat \<Rightarrow> manifest_fetcher \<Rightarrow> manifest_fetcher result" where
  "fetcher_done parse now identity f =
     and_then (DoneLoad {} (mf_loader f)) (\<lambda>((_, l, outcome), t).
       Fetcher_LoadComplete parse now identity l outcome (f\<lparr>mf_loader := t\<rparr>))"

inductive fetcher_step :: "(string \<Rightarrow> string \<Rightarrow> presentation option) \<Rightarrow> manifest_fetcher \<Rightarrow> manifest_fetcher \<Rightarrow> bool" for parse where
  fetch_request: "fetcher_step parse f (snd (RequestRefresh now starts posted address f))"
| fetch_begin: "lt_task (mf_loader f) = Some Run_Load \<Longrightarrow> RunLoad_begin {} (mf_loader f) = Inr t \<Longrightarrow> fetcher_step parse f (f\<lparr>mf_loader := t\<rparr>)"
| fetch_end: "lt_task (mf_loader f) = Some In_Load \<Longrightarrow> mf_current_loadable f = Some l \<Longrightarrow> RunLoad_end {} ok (mf_loader f) = Inr t \<Longrightarrow>
    fetcher_step parse f (f\<lparr>mf_loader := t, mf_current_loadable := Some (l\<lparr>ml_xml := xml\<rparr>)\<rparr>)"
| fetch_done: "lt_task (mf_loader f) = Some Done_Load \<Longrightarrow> fetcher_done parse now identity f = Inr f' \<Longrightarrow> fetcher_step parse f f'"
| fetch_uri: "fetcher_step parse f (UpdateManifestUri uri f)"
| fetch_enable: "fetcher_step parse f (Fetcher_Enable f)"
| fetch_disable: "mf_enabled_count f > 0 \<Longrightarrow> Fetcher_Disable f = Inr f' \<Longrightarrow> fetcher_step parse f f'"

inductive fetcher_reach :: "(string \<Rightarrow> string \<Rightarrow> presentation option) \<Rightarrow> manifest_fetcher \<Rightarrow> bool" for parse where
  fetcher_reach_new: "fetcher_reach parse (ManifestFetcher_new uri listener)"
| fetcher_reach_step: "fetcher_reach parse f \<Longrightarrow> fetcher_step parse f f' \<Longrightarrow> fetcher_reach parse f'"

definition fetcher_inv :: "manifest_fetcher \<Rightarrow> bool" where
  "fetcher_inv f \<longleftrightarrow>
     (let t = mf_loader f in
      (lt_loading t \<longleftrightarrow> lt_task t \<noteq> None) \<and> (lt_loading t \<longleftrightarrow> lt_callback t \<noteq> None) \<and>
      (lt_loading t \<longrightarrow> map_option ml_address (mf_current_loadable f) = lt_current_loadable t) \<and>
      (\<not> lt_loading t \<longrightarrow> lt_started t \<longrightarrow> mf_current_loadable f = None) \<and> (lt_loading t \<longrightarrow> lt_started t) \<and>
      (lt_loading t \<longleftrightarrow> lt_current_loadable t \<noteq> None) \<and> lt_loadable_outcome t \<noteq> LOAD_CANCELED) \<and>
     (mf_load_error f = PARSING_ERROR \<longrightarrow> mf_manifest f = None) \<and>
     0 \<le> mf_load_error_count f \<and> (mf_load_error f = NONE \<longleftrightarrow> mf_load_error_count f = 0) \<and> 0 \<le> mf_enabled_count f"

lemmas fetcher_notes = NotifyManifestRefreshStarted_def NotifyManifestRefreshed_def NotifyManifestError_def

lemma fetcher_notify_inv [simp]:
  "fetcher_inv (fetcher_notify e f) = fetcher_inv f" "mf_load_error (fetcher_notify e f) = mf_load_error f"
  "mf_load_error_count (fetcher_notify e f) = mf_load_error_count f" "mf_loader (fetcher_notify e f) = mf_loader f"
  "mf_current_loadable (fetcher_notify e f) = mf_current_loadable f" "mf_enabled_count (fetcher_notify e f) = mf_enabled_count f"
  "mf_manifest (fetcher_notify e f) = mf_manifest f"
  "mf_load_error_timestamp (fetcher_notify e f) = mf_load_error_timestamp f"
  by (simp_all add: fetcher_notify_def fetcher_inv_def)

lemma request_inv: "fetcher_inv f \<Longrightarrow> fetcher_inv (snd (RequestRefresh now starts posted address f))"
  by (auto simp: RequestRefresh_def fetcher_notes StartLoading_def IsLoading_def fetcher_inv_def Let_def)

lemma fetcher_done_total:
  assumes "fetcher_inv f" "lt_loading (mf_loader f)"
  shows "\<exists>f'. fetcher_done parse now identity f = Inr f' \<and> fetcher_inv f'"
proof -
  obtain l a cb where l: "mf_current_loadable f = Some l" "lt_current_loadable (mf_loader f) = Some (ml_address l)" "lt_callback (mf_loader f) = Some cb"
    using assms by (cases "mf_current_loadable f") (auto simp: fetcher_inv_def Let_def)
  have i: "lt_loadable_outcome (mf_loader f) \<noteq> LOAD_CANCELED" "0 \<le> mf_load_error_count f" "0 \<le> mf_enabled_count f"
      "mf_load_error f = NONE \<longleftrightarrow> mf_load_error_count f = 0"
    using assms by (auto simp: fetcher_inv_def Let_def)
  show ?thesis
  proof (cases "lt_loadable_outcome (mf_loader f)")
    case LOAD_COMPLETE
    then show ?thesis using l i
      by (cases "parse (ml_uri l) (ml_xml l)")
        (auto simp: fetcher_done_def DoneLoad_def Fetcher_LoadComplete_def ProcessLoadCompleted_def fetcher_notes, simp_all add: fetcher_inv_def)
  next
    case LOAD_ERROR
    then show ?thesis using l i
      by (auto simp: fetcher_done_def DoneLoad_def Fetcher_LoadComplete_def ProcessLoadError_def fetcher_notes; simp add: fetcher_inv_def)
  qed (use i in simp)
qed

lemma fetcher_step_inv: "fetcher_step parse f f' \<Longrightarrow> fetcher_inv f \<Longrightarrow> fetcher_inv f'"
proof (induction rule: fetcher_step.induct)
  case fetch_request
  then show ?case by (rule request_inv)
next
  case (fetch_done f now identity f')
  then have "lt_loading (mf_loader f)" by (auto simp: fetcher_inv_def Let_def)
  then show ?case using fetcher_done_total [OF fetch_done.prems, of parse now identity] fetch_done by simp
next
  case fetch_begin
  then show ?case by (simp add: fetcher_inv_def Let_def RunLoad_begin_def split: option.splits) (clarsimp split: option.splits)
next
  case fetch_end
  then show ?case by (simp add: fetcher_inv_def Let_def RunLoad_end_def split: option.splits) (clarsimp split: option.splits)
next
  case fetch_disable
  then show ?case by (clarsimp simp: Fetcher_Disable_def Let_def and_then_Inr split: if_splits) (unfold fetcher_inv_def Let_def, simp_all, blast+)
next
  case fetch_uri
  then show ?case by (simp add: fetcher_inv_def UpdateManifestUri_def)
next
  case fetch_enable
  then show ?case unfolding Fetcher_Enable_def Let_def by (unfold fetcher_inv_def Let_def, simp, blast)
qed

lemma fetcher_reach_inv: "fetcher_reach parse f \<Longrightarrow> fetcher_inv f"
proof (induction rule: fetcher_reach.induct)
  case fetcher_reach_new
  then show ?case by (simp add: fetcher_inv_def ManifestFetcher_new_def LoaderThread_new_def)
next
  case fetcher_reach_step
  then show ?case using fetcher_step_inv by blast
qed

section \<open>Properties\<close>





text \<open>
  Backing off. After the first error a refresh may be requested again at once; after the n-th
  consecutive one it is refused, without any effect, until n - 1 seconds, but at most five, have passed.
\<close>

theorem refresh_backs_off:
  assumes "fetcher_reach parse f" "mf_load_error f \<noteq> NONE" "mf_load_error_count f < 2 ^ 31"
  shows "RequestRefresh now starts posted a f = (False, f) \<longleftrightarrow>
    now < mf_load_error_timestamp f + min (mf_load_error_count f - 1) 5 * 1000000"
proof -
  have n: "1 \<le> mf_load_error_count f" using fetcher_reach_inv [OF assms(1)] assms(2) by (auto simp: fetcher_inv_def)
  then have "wrap64 (min ((mf_load_error_count f - 1) * 1000) 5000) = min ((mf_load_error_count f - 1) * 1000) 5000"
    by (intro wrap64_id) auto
  then have "retry_delay_us (mf_load_error_count f) = min (mf_load_error_count f - 1) 5 * 1000000"
    by (auto simp: retry_delay_us_def Fetcher_GetRetryDelayMillis_def min_def)
  then show ?thesis using assms(2) by (auto simp: RequestRefresh_def)
qed

text \<open>
  A refresh that cannot be parsed discards the manifest that was there, so that the fetcher has none.
\<close>

theorem failed_parse_drops_manifest:
  assumes "mf_current_loadable f = Some l" "parse (ml_uri l) (ml_xml l) = None"
  shows "\<exists>f'. Fetcher_LoadComplete parse now identity (ml_address l) LOAD_COMPLETE f = Inr f' \<and> \<not> HasManifest f' \<and>
    mf_load_error f' = PARSING_ERROR"
  using assms by (simp add: Fetcher_LoadComplete_def ProcessLoadCompleted_def HasManifest_def fetcher_notes)

end
