(* ===== verification/Time_Range.thy ===== *)
theory Time_Range
  imports Ndash_Prelude
begin

text \<open>
  The available range of a presentation (\<open>time_range.cc\<close>): fixed for a static presentation or an explicit
  index, moving with the clock for a live one. Times are microseconds; the clock's reading is an argument.
\<close>

datatype time_range =
    StaticTimeRange int int
  | DynamicTimeRange int int int int

fun TimeRange_IsStatic :: "time_range \<Rightarrow> bool" where
  "TimeRange_IsStatic (StaticTimeRange _ _) = True"
| "TimeRange_IsStatic (DynamicTimeRange _ _ _ _) = False"

fun GetCurrentBounds :: "int \<Rightarrow> time_range \<Rightarrow> int \<times> int" where
  "GetCurrentBounds now (StaticTimeRange start_time end_time) = (start_time, end_time)"
| "GetCurrentBounds now (DynamicTimeRange min_start_time max_end_time time_at_start buffer_depth) =
     (let current_elapsed = now - time_at_start;
          upper = min max_end_time current_elapsed
      in (if buffer_depth \<noteq> 0 then max min_start_time (upper - buffer_depth) else min_start_time, upper))"

text \<open>Equality of two ranges of the same class; the clock is not compared.\<close>

fun TimeRange_eq :: "time_range \<Rightarrow> time_range \<Rightarrow> bool" where
  "TimeRange_eq (StaticTimeRange a b) (StaticTimeRange a' b') \<longleftrightarrow> a = a' \<and> b = b'"
| "TimeRange_eq (DynamicTimeRange a b c d) (DynamicTimeRange a' b' c' d') \<longleftrightarrow> a = a' \<and> b = b' \<and> c = c' \<and> d = d'"
| "TimeRange_eq _ _ = False"

lemma TimeRange_eq_iff: "TimeRange_eq r s \<longleftrightarrow> r = s"
  by (cases r; cases s) auto

lemma bounds_monotone:
  assumes "now \<le> now'"
  shows "fst (GetCurrentBounds now r) \<le> fst (GetCurrentBounds now' r) \<and> snd (GetCurrentBounds now r) \<le> snd (GetCurrentBounds now' r)"
  using assms by (cases r) (auto simp: Let_def)

lemma dynamic_window:
  assumes "0 \<le> depth" "GetCurrentBounds now (DynamicTimeRange lo hi start depth) = (a, b)"
  shows "lo \<le> a" "b \<le> hi" "b \<le> now - start" "lo \<le> b \<Longrightarrow> a \<le> b" "depth \<noteq> 0 \<Longrightarrow> lo \<le> b \<Longrightarrow> b - a \<le> depth"
  using assms by (auto simp: Let_def split: if_splits)

text \<open>
  A live range moves only forwards: later readings of the clock give bounds that are not earlier, the
  upper bound stays below both the end of the last period and the time that has really passed, and once
  the presentation has started the window is in order and not wider than the buffer depth.
\<close>

theorem live_range_moves_forward:
  assumes "0 \<le> depth" "now \<le> now'" "lo \<le> now - start" "lo \<le> hi"
    and "r = DynamicTimeRange lo hi start depth" "(a, b) = GetCurrentBounds now r" "(a', b') = GetCurrentBounds now' r"
  shows "lo \<le> a \<and> a \<le> b \<and> a \<le> a' \<and> b \<le> b' \<and> b' \<le> hi \<and> b' \<le> now' - start \<and> (depth \<noteq> 0 \<longrightarrow> b - a \<le> depth)"
proof -
  have b: "lo \<le> b" using assms(3-6) by (auto simp: Let_def)
  have m: "a \<le> a'" "b \<le> b'" using bounds_monotone [OF assms(2), of r] assms(6,7) by (metis fst_conv, metis snd_conv)
  show ?thesis using dynamic_window [OF assms(1)] b m assms(5-7) by metis
qed

theorem live_range_moves_forward_witness:
  "\<exists>a b a' b'. (a, b) = GetCurrentBounds 7000 (DynamicTimeRange 0 9000 1000 2000) \<and>
     (a', b') = GetCurrentBounds 20000 (DynamicTimeRange 0 9000 1000 2000) \<and> a \<le> a' \<and> b - a \<le> 2000"
proof -
  let ?r = "DynamicTimeRange 0 9000 1000 2000"
  obtain a b a' b' where e: "(a, b) = GetCurrentBounds 7000 ?r" "(a', b') = GetCurrentBounds 20000 ?r" by (metis surj_pair)
  from live_range_moves_forward [OF _ _ _ _ refl e] e show ?thesis by force
qed

text \<open>Before the first segment is available the bounds are the wrong way round.\<close>

lemma early_bounds_inverted: "now - start < lo \<Longrightarrow> case GetCurrentBounds now (DynamicTimeRange lo hi start depth) of (a, b) \<Rightarrow> b < a"
  by (auto simp: Let_def)

end
