(* ===== verification/Dash_Chunk_Source.thy ===== *)
theory Dash_Chunk_Source
  imports Chunk_Sample_Source Manifest_Fetcher Time_Range
begin

text \<open>
  The chunk source of a DASH presentation (\<open>dash/dash_chunk_source.cc\<close>): it keeps a holder per period of
  the manifest, follows refreshes of the manifest, and answers the sample source's question which chunk
  to load next.

  The map of period holders is the list of its entries by increasing key. The evaluator is a parameter
  with the interface of \<open>format_evaluator\<close>; the manifest fetcher is the one of \<open>Manifest_Fetcher\<close>, held by
  value. A created chunk is described by the record \<open>chunk\<close>; the members that only its load uses are kept
  beside it, by the chunk's address. Times are microseconds. A null pointer or an end iterator that is
  read is \<open>Undefined_access\<close>; a failed \<open>CHECK\<close> is \<open>Check_failed\<close>; \<open>DCHECK\<close>s are not part of the program.
\<close>

section \<open>State\<close>

datatype 'f source_note =
    Range_Changed time_range
  | Format_Given "'f option"
  | Behind_Live_Window
  | Chunk_Load_Failed

record 'f chunk_payload =
  cp_sample_offset :: int
  cp_media_format :: "'f option"
  cp_drm_init_data :: "drm_init_data option"
  cp_extractor_wrapper :: "extractor_config option"

record 'f dash_chunk_source =
  dc_range_changed_cb :: bool
  dc_format_given_cb :: bool
  dc_evaluation :: format_evaluation
  dc_adaptation_type :: adaptation_type
  dc_manifest_fetcher :: "manifest_fetcher option"
  dc_period_holders :: "(int \<times> 'f period_holder) list"
  dc_next_period_holder_index :: int
  dc_live_edge_latency :: int
  dc_live :: bool
  dc_current_manifest :: manifest_ref
  dc_track_criteria :: "track_criteria option"
  dc_track_is_enabled :: bool
  dc_available_range :: "time_range option"
  dc_prepare_called :: bool
  dc_start_at_live_edge :: bool
  dc_last_chunk_was_initialization :: bool
  dc_fatal_error :: bool
  dc_playback_rate :: playback_rate
  dc_qoe :: bool
  dc_payloads :: "nat \<Rightarrow> 'f chunk_payload option"
  dc_notes :: "'f source_note list"

definition DashChunkSource_new ::
  "manifest_fetcher option \<Rightarrow> manifest_ref \<Rightarrow> adaptation_type \<Rightarrow> int \<Rightarrow> bool \<Rightarrow> bool \<Rightarrow> playback_rate \<Rightarrow> bool \<Rightarrow> 'f dash_chunk_source" where
  "DashChunkSource_new manifest_fetcher initial_manifest adaptation_type live_edge_latency start_at_live_edge
       range_changed_cb playback_rate qoe =
     \<lparr>dc_range_changed_cb = range_changed_cb, dc_format_given_cb = False, dc_evaluation = FormatEvaluation_new,
      dc_adaptation_type = adaptation_type, dc_manifest_fetcher = manifest_fetcher, dc_period_holders = [],
      dc_next_period_holder_index = 0, dc_live_edge_latency = live_edge_latency,
      dc_live = mpd_dynamic (snd initial_manifest), dc_current_manifest = initial_manifest,
      dc_track_criteria = None, dc_track_is_enabled = False, dc_available_range = Some (StaticTimeRange 0 0),
      dc_prepare_called = False, dc_start_at_live_edge = start_at_live_edge,
      dc_last_chunk_was_initialization = False, dc_fatal_error = False, dc_playback_rate = playback_rate,
      dc_qoe = qoe, dc_payloads = Map.empty, dc_notes = []\<rparr>"

definition dc_dynamic :: "'f dash_chunk_source \<Rightarrow> bool" where
  "dc_dynamic s = mpd_dynamic (snd (dc_current_manifest s))"

definition source_note :: "'f source_note \<Rightarrow> 'f dash_chunk_source \<Rightarrow> 'f dash_chunk_source" where
  "source_note n s = s\<lparr>dc_notes := dc_notes s @ [n]\<rparr>"

definition BehindLiveWindowError :: "'f dash_chunk_source \<Rightarrow> 'f dash_chunk_source" where
  "BehindLiveWindowError s = (if dc_qoe s then source_note Behind_Live_Window s else s)"

definition SetFormatGivenCallback :: "bool \<Rightarrow> 'f dash_chunk_source \<Rightarrow> 'f dash_chunk_source" where
  "SetFormatGivenCallback cb s = s\<lparr>dc_format_given_cb := cb\<rparr>"

section \<open>MIME types\<close>

definition kTextVTT :: string where "kTextVTT = ''text/vtt''"
definition kApplicationTTML :: string where "kApplicationTTML = ''application/ttml+xml''"
definition kApplicationMP4 :: string where "kApplicationMP4 = ''application/mp4''"
definition kApplicationMP4VTT :: string where "kApplicationMP4VTT = ''application/x-mp4vtt''"

definition MimeTypeIsRawText :: "string \<Rightarrow> bool" where
  "MimeTypeIsRawText mime_type \<longleftrightarrow> StartsWith mime_type kTextVTT \<or> StartsWith mime_type kApplicationTTML"

definition MimeTypeIsWebm :: "string \<Rightarrow> bool" where
  "MimeTypeIsWebm mime_type \<longleftrightarrow> StartsWith mime_type ''video/webm'' \<or> StartsWith mime_type ''audio/webm'' \<or>
     StartsWith mime_type ''application/webm''"

definition DashChunkSource_GetMediaMimeType :: "format \<Rightarrow> string option" where
  "DashChunkSource_GetMediaMimeType f =
     (if IsAudio (fmt_mime_type f) then Some (GetAudioMediaMimeType (fmt_codecs f))
      else if IsVideo (fmt_mime_type f) then Some (GetVideoMediaMimeType (fmt_codecs f))
      else if MimeTypeIsRawText (fmt_mime_type f) then Some (fmt_mime_type f)
      else if fmt_mime_type f = kApplicationMP4 \<and> fmt_codecs f = ''stpp'' then Some kApplicationTTML
      else if fmt_mime_type f = kApplicationMP4 \<and> fmt_codecs f = ''wvtt'' then Some kApplicationMP4VTT
      else None)"

section \<open>Periods\<close>

fun find_period :: "int \<Rightarrow> (int \<times> 'f period_holder) list \<Rightarrow> (int \<times> 'f period_holder) option result" where
  "find_period position [] = Inr None"
| "find_period position ((k, h) # hs) =
     (case GetAvailableEndTime h of
        None \<Rightarrow> Inl Undefined_access
      | Some end_time \<Rightarrow> if position < end_time \<and> ph_representation_holders h \<noteq> [] then Inr (Some (k, h))
                        else find_period position hs)"

definition FindPeriodHolder :: "int \<Rightarrow> 'f dash_chunk_source \<Rightarrow> (int \<times> 'f period_holder) option result" where
  "FindPeriodHolder position s =
     (case dc_period_holders s of
        [] \<Rightarrow> Inl Check_failed
      | (k, h) # hs \<Rightarrow>
          if position < ph_available_start_time h \<and> ph_representation_holders h \<noteq> [] then Inr (Some (k, h))
          else find_period position ((k, h) # hs))"

text \<open>
  The iterator passed to \<open>MoveToNextPeriod\<close> is the rest of the list. It is advanced and read before it is
  compared with the end of the map, so running out of periods reads the end iterator.
\<close>

fun MoveToNextPeriod :: "(int \<times> 'f period_holder) list \<Rightarrow> (int \<times> 'f period_holder) result" where
  "MoveToNextPeriod [] = Inl Undefined_access"
| "MoveToNextPeriod ((k, h) # hs) = (if ph_representation_holders h = [] then MoveToNextPeriod hs else Inr (k, h))"

text \<open>The periods before the iterator, the nearest first; nothing when the first period has been reached.\<close>

fun MoveToPrevPeriod :: "(int \<times> 'f period_holder) list \<Rightarrow> (int \<times> 'f period_holder) option" where
  "MoveToPrevPeriod [] = None"
| "MoveToPrevPeriod ((k, h) # hs) = (if ph_representation_holders h = [] then MoveToPrevPeriod hs else Some (k, h))"

definition periods_after :: "int \<Rightarrow> (int \<times> 'f period_holder) list \<Rightarrow> (int \<times> 'f period_holder) list" where
  "periods_after k hs = tl (dropWhile (\<lambda>p. fst p \<noteq> k) hs)"

definition periods_before :: "int \<Rightarrow> (int \<times> 'f period_holder) list \<Rightarrow> (int \<times> 'f period_holder) list" where
  "periods_before k hs = rev (takeWhile (\<lambda>p. fst p \<noteq> k) hs)"

section \<open>The manifest\<close>

definition NotifyAvailableRangeChanged :: "time_range \<Rightarrow> 'f dash_chunk_source \<Rightarrow> 'f dash_chunk_source" where
  "NotifyAvailableRangeChanged seek_range s = (if dc_range_changed_cb s then source_note (Range_Changed seek_range) s else s)"

definition TimeDelta_Max :: int where "TimeDelta_Max = 2 ^ 63 - 1"

definition DashChunkSource_GetAvailableRange :: "int \<Rightarrow> 'f dash_chunk_source \<Rightarrow> time_range result" where
  "DashChunkSource_GetAvailableRange unix_epoch s =
     (if dc_period_holders s = [] then Inl Undefined_access
      else (let first_period = snd (hd (dc_period_holders s)); last_period = snd (last (dc_period_holders s));
                manifest = snd (dc_current_manifest s)
            in if \<not> mpd_dynamic manifest \<or> ph_index_is_explicit last_period
               then (case GetAvailableEndTime last_period of
                       None \<Rightarrow> Inl Undefined_access
                     | Some end_time \<Rightarrow> Inr (StaticTimeRange (ph_available_start_time first_period) end_time))
               else and_then
                 (if ph_index_is_unbounded last_period then Inr TimeDelta_Max
                  else (case GetAvailableEndTime last_period of None \<Rightarrow> Inl Undefined_access | Some e \<Rightarrow> Inr e)) (\<lambda>max_end_position.
                 Inr (DynamicTimeRange (ph_available_start_time first_period) max_end_position
                   (unix_epoch + mpd_availability_start_time manifest * 1000)
                   (if mpd_time_shift_buffer_depth manifest = -1 then 0 else mpd_time_shift_buffer_depth manifest * 1000)))))"

text \<open>Adding the periods \<open>i, i + 1, ...\<close> of the manifest; \<open>n\<close> is the number still to add.\<close>

fun add_periods ::
  "(string \<Rightarrow> string \<Rightarrow> bool) \<Rightarrow> presentation \<Rightarrow> track_criteria option \<Rightarrow> nat \<Rightarrow> int \<Rightarrow> 'f dash_chunk_source \<Rightarrow> 'f dash_chunk_source result" where
  "add_periods match_pattern manifest criteria 0 i s = Inr s"
| "add_periods match_pattern manifest criteria (Suc n) i s =
     (case criteria of
        None \<Rightarrow> Inl Undefined_access
      | Some c \<Rightarrow>
          and_then (PeriodHolder_new match_pattern (dc_next_period_holder_index s) manifest i c (dc_playback_rate s)) (\<lambda>h.
            add_periods match_pattern manifest criteria n (i + 1)
              (s\<lparr>dc_period_holders := dc_period_holders s @ [(dc_next_period_holder_index s, h)],
                 dc_next_period_holder_index := dc_next_period_holder_index s + 1\<rparr>)))"

text \<open>Refreshing the holder of one entry.\<close>

definition update_entry ::
  "(string \<Rightarrow> string \<Rightarrow> bool) \<Rightarrow> presentation \<Rightarrow> nat \<Rightarrow> int \<Rightarrow> 'f dash_chunk_source \<Rightarrow> (bool \<times> 'f dash_chunk_source) result" where
  "update_entry match_pattern manifest idx manifest_index s =
     (case dc_track_criteria s of
        None \<Rightarrow> Inl Undefined_access
      | Some c \<Rightarrow>
          (let (k, h) = dc_period_holders s ! idx
           in and_then (UpdatePeriod match_pattern manifest manifest_index c h) (\<lambda>(h', ok).
                Inr (ok, s\<lparr>dc_period_holders := (dc_period_holders s)[idx := (k, h')]\<rparr>))))"

definition finish_manifest ::
  "(string \<Rightarrow> string \<Rightarrow> bool) \<Rightarrow> int \<Rightarrow> manifest_ref \<Rightarrow> 'f dash_chunk_source \<Rightarrow> 'f dash_chunk_source result" where
  "finish_manifest match_pattern unix_epoch manifest s =
     (let n = length (dc_period_holders s)
      in and_then (add_periods match_pattern (snd manifest) (dc_track_criteria s)
                     (nat (GetPeriodCount (snd manifest) - int n)) (int n) s) (\<lambda>s1.
         and_then (DashChunkSource_GetAvailableRange unix_epoch s1) (\<lambda>range.
           Inr ((NotifyAvailableRangeChanged range (s1\<lparr>dc_available_range := Some range\<rparr>))\<lparr>dc_current_manifest := manifest\<rparr>))))"

definition ProcessManifest ::
  "(string \<Rightarrow> string \<Rightarrow> bool) \<Rightarrow> int \<Rightarrow> manifest_ref option \<Rightarrow> 'f dash_chunk_source \<Rightarrow> 'f dash_chunk_source result" where
  "ProcessManifest match_pattern unix_epoch manifest s =
     (case manifest of
        None \<Rightarrow> Inl Undefined_access
      | Some m \<Rightarrow>
          and_then (GetPeriod (snd m) 0) (\<lambda>first_period.
            (let s1 = s\<lparr>dc_period_holders := dropWhile (\<lambda>(k, h). ph_start_time h sdiv 1000 < pd_start_ms first_period) (dc_period_holders s)\<rparr>;
                 n = length (dc_period_holders s1)
             in if int n > GetPeriodCount (snd m) then Inr s1
                else and_then (if n > 0 then update_entry match_pattern (snd m) 0 0 s1 else Inr (True, s1)) (\<lambda>(ok, s2).
                  if \<not> ok then Inr (BehindLiveWindowError (s2\<lparr>dc_fatal_error := True\<rparr>))
                  else and_then (if n > 1 then update_entry match_pattern (snd m) (n - 1) (int n - 1) s2 else Inr (True, s2)) (\<lambda>(ok', s3).
                    if \<not> ok' then Inr (BehindLiveWindowError (s3\<lparr>dc_fatal_error := True\<rparr>))
                    else finish_manifest match_pattern unix_epoch m s3)))))"

section \<open>New chunks\<close>

definition DataSpec_new :: "string \<Rightarrow> int \<Rightarrow> int \<Rightarrow> string \<Rightarrow> data_spec" where
  "DataSpec_new uri absolute_stream_position len key =
     \<lparr>ds_uri = uri, ds_post_body = None, ds_absolute_stream_position = absolute_stream_position,
      ds_position = absolute_stream_position, ds_length = len, ds_key = Some key, ds_flags = 0\<rparr>"

text \<open>The times and the index are members of media chunks only.\<close>

definition InitializationChunk_new :: "nat \<Rightarrow> data_spec \<Rightarrow> int \<Rightarrow> format \<Rightarrow> int \<Rightarrow> chunk" where
  "InitializationChunk_new address data_spec trigger f parent_id =
     \<lparr>ck_address = address, ck_data_spec = data_spec, ck_type = kTypeMediaInitialization, ck_trigger = trigger,
      ck_format = Some f, ck_parent_id = parent_id, ck_start_time_us = 0, ck_end_time_us = 0,
      ck_chunk_index = 0, ck_first_sample_index = 0, ck_is_media_format_final = False\<rparr>"

definition NewInitializationChunk ::
  "ranged_uri option \<Rightarrow> ranged_uri option \<Rightarrow> representation \<Rightarrow> int \<Rightarrow> int \<Rightarrow> nat \<Rightarrow> chunk result option" where
  "NewInitializationChunk initialization_uri index_uri rep manifest_index trigger address =
     and_then_opt
       (case initialization_uri of
          Some i \<Rightarrow> and_then_opt (AttemptMerge i index_uri) (\<lambda>merged_uri.
                      Some (Inr (case merged_uri of Some m \<Rightarrow> Some m | None \<Rightarrow> Some i)))
        | None \<Rightarrow> Some (Inr index_uri)) (\<lambda>request_uri.
       case request_uri of
         None \<Rightarrow> Some (Inl Check_failed)
       | Some u \<Rightarrow> and_then_opt (GetUriString u) (\<lambda>uri.
           Some (Inr (InitializationChunk_new address (DataSpec_new uri (ru_start u) (ru_length u) (rep_cache_key rep))
             trigger (rep_format rep) manifest_index))))"

text \<open>
  The format callback of a single-sample chunk is run with the pointer whose format has just been moved
  into the chunk, a null pointer.
\<close>

definition NewMediaChunk ::
  "'f period_holder \<Rightarrow> 'f representation_holder \<Rightarrow> 'f option \<Rightarrow> int \<Rightarrow> int \<Rightarrow> nat \<Rightarrow> 'f dash_chunk_source \<Rightarrow>
   (chunk \<times> 'f dash_chunk_source) result option" where
  "NewMediaChunk ph rh media_format segment_num trigger address s =
     (let rep = rh_representation rh; f = rep_format rep
      in and_then_opt (Some (GetSegmentStartTime rh segment_num)) (\<lambda>start_time.
         and_then_opt (Some (GetSegmentEndTime rh segment_num)) (\<lambda>end_time.
         and_then_opt (Some (Holder_GetSegmentUri rh segment_num)) (\<lambda>segment_uri.
         case segment_uri of
           None \<Rightarrow> Some (Inl Undefined_access)
         | Some u \<Rightarrow>
             and_then_opt (GetUriString u) (\<lambda>uri.
               (let spec = DataSpec_new uri (ru_start u) (ru_length u) (rep_cache_key rep);
                    sample_offset = ph_start_time ph - rep_presentation_timeoffset_us rep
                in if MimeTypeIsRawText (fmt_mime_type f)
                   then Some (Inr (MediaChunk_new address spec kTriggerInitial f start_time end_time segment_num True (ph_local_index ph),
                     (if dc_format_given_cb s then source_note (Format_Given None) s else s)
                       \<lparr>dc_payloads := (dc_payloads s)(address \<mapsto> \<lparr>cp_sample_offset = 0, cp_media_format = media_format,
                          cp_drm_init_data = None, cp_extractor_wrapper = None\<rparr>)\<rparr>))
                   else Some (Inr (MediaChunk_new address spec trigger f start_time end_time segment_num (media_format \<noteq> None) (ph_local_index ph),
                     s\<lparr>dc_payloads := (dc_payloads s)(address \<mapsto> \<lparr>cp_sample_offset = sample_offset, cp_media_format = media_format,
                          cp_drm_init_data = ph_drm_init_data ph, cp_extractor_wrapper = rh_extractor_wrapper rh\<rparr>)\<rparr>))))))))"

section \<open>The next chunk\<close>

text \<open>
  The first half of \<open>GetChunkOperation\<close>: the period of the next chunk, with whether it is a new one and
  the playback position, or an answer without a chunk.
\<close>

datatype 'f period_choice =
    Answer chunk_operation_holder
  | Chosen "'f period_holder" bool int

definition start_position :: "int \<times> int \<Rightarrow> int \<Rightarrow> 'f dash_chunk_source \<Rightarrow> int \<times> 'f dash_chunk_source" where
  "start_position bounds playback_position s =
     (if dc_live s
      then (let s1 = (if playback_position \<noteq> 0 then s\<lparr>dc_start_at_live_edge := False\<rparr> else s)
            in if dc_start_at_live_edge s1 then (max (fst bounds) (snd bounds - dc_live_edge_latency s1), s1)
               else (max (min playback_position (snd bounds - 1)) (fst bounds), s1))
      else (playback_position, s))"

definition choose_first_period ::
  "int \<times> int \<Rightarrow> int \<Rightarrow> chunk_operation_holder \<Rightarrow> 'f dash_chunk_source \<Rightarrow> ('f period_choice \<times> 'f dash_chunk_source) result" where
  "choose_first_period bounds playback_position out s =
     (let (position, s1) = start_position bounds playback_position s
      in and_then (FindPeriodHolder position s1) (\<lambda>found.
           Inr (case found of
                  None \<Rightarrow> Answer (SetChunk None (if \<not> dc_dynamic s1 then SetEndOfStream True out else out))
                | Some (k, h) \<Rightarrow> Chosen h True position, s1)))"

definition holder_of_previous :: "chunk \<Rightarrow> 'f period_holder \<Rightarrow> 'f representation_holder result" where
  "holder_of_previous previous h =
     (case ck_format previous of
        None \<Rightarrow> Inl Undefined_access
      | Some f \<Rightarrow> (case GetRepresentationHolder h (fmt_id f) of None \<Rightarrow> Inl Undefined_access | Some rh \<Rightarrow> Inr rh))"

definition beyond_previous :: "'f dash_chunk_source \<Rightarrow> chunk \<Rightarrow> 'f representation_holder \<Rightarrow> bool result" where
  "beyond_previous s previous rh =
     (if IsForward (dc_playback_rate s) then IsBeyondLastSegment rh (GetNextChunkIndex previous)
      else IsBeforeFirstSegment rh (GetPrevChunkIndex previous))"

text \<open>The period after \<open>previous\<close> once it is known that there may be more.\<close>

definition choose_following ::
  "chunk \<Rightarrow> int \<Rightarrow> chunk_operation_holder \<Rightarrow> 'f dash_chunk_source \<Rightarrow> 'f period_choice result" where
  "choose_following previous playback_position out s =
     (let hs = dc_period_holders s; id = ck_parent_id previous
      in case map_of hs id of
           None \<Rightarrow> Inr (Chosen (snd (hd hs)) True playback_position)
         | Some h \<Rightarrow>
             if ph_index_is_unbounded h then Inr (Chosen h False playback_position)
             else and_then (holder_of_previous previous h) (\<lambda>rh.
                  and_then (beyond_previous s previous rh) (\<lambda>beyond.
                    if \<not> beyond then Inr (Chosen h False playback_position)
                    else if IsForward (dc_playback_rate s)
                    then and_then (MoveToNextPeriod (periods_after id hs)) (\<lambda>(k, h'). Inr (Chosen h' True playback_position))
                    else (case MoveToPrevPeriod (periods_before id hs) of
                            None \<Rightarrow> Inr (Answer (SetChunk None out))
                          | Some (k, h') \<Rightarrow> Inr (Chosen h' True playback_position)))))"

definition choose_next_period ::
  "int \<times> int \<Rightarrow> chunk \<Rightarrow> int \<Rightarrow> chunk_operation_holder \<Rightarrow> 'f dash_chunk_source \<Rightarrow>
   ('f period_choice \<times> 'f dash_chunk_source) result" where
  "choose_next_period bounds previous playback_position out s0 =
     (let s = s0\<lparr>dc_start_at_live_edge := False\<rparr>; next_segment_start_time = ck_end_time_us previous
      in if dc_live s \<and> next_segment_start_time < fst bounds
         then Inr (Answer (SetChunk None out), BehindLiveWindowError (s\<lparr>dc_fatal_error := True\<rparr>))
         else if dc_dynamic s \<and> next_segment_start_time \<ge> snd bounds then Inr (Answer (SetChunk None out), s)
         else if dc_period_holders s = [] then Inl Undefined_access
         else and_then
           (let last_period = snd (last (dc_period_holders s))
            in if ck_parent_id previous = ph_local_index last_period
               then and_then (holder_of_previous previous last_period) (\<lambda>rh. beyond_previous s previous rh)
               else Inr False) (\<lambda>fell_off_end.
           if fell_off_end
           then Inr (Answer (SetChunk None (if \<not> dc_dynamic s \<and> IsNormal (dc_playback_rate s) then SetEndOfStream True out else out)), s)
           else and_then (choose_following previous playback_position out s) (\<lambda>c. Inr (c, s))))"

text \<open>The queue as the evaluators see it; a media chunk always has a format.\<close>

fun evaluation_queue :: "chunk list \<Rightarrow> media_chunk list result" where
  "evaluation_queue [] = Inr []"
| "evaluation_queue (c # cs) =
     (case ck_format c of
        None \<Rightarrow> Inl Undefined_access
      | Some f \<Rightarrow> and_then (evaluation_queue cs) (\<lambda>ms.
          Inr (\<lparr>mc_format = f, mc_trigger = ck_trigger c, mc_start_time_us = ck_start_time_us c, mc_end_time_us = ck_end_time_us c,
                mc_chunk_index = ck_chunk_index c, mc_parent_id = ck_parent_id c\<rparr> # ms)))"

type_synonym evaluator = "media_chunk list \<Rightarrow> int \<Rightarrow> format list \<Rightarrow> playback_rate \<Rightarrow> format_evaluation \<Rightarrow> format_evaluation result"

definition evaluate_formats ::
  "evaluator \<Rightarrow> chunk list \<Rightarrow> int \<Rightarrow> 'f period_holder \<Rightarrow> 'f dash_chunk_source \<Rightarrow> 'f dash_chunk_source result" where
  "evaluate_formats evaluate queue playback_position ph s =
     (let ev = (dc_evaluation s)\<lparr>fe_queue_size := narrow32 (int (length queue))\<rparr>
      in and_then
           (if fe_format ev = None \<or> \<not> dc_last_chunk_was_initialization s
            then and_then (evaluation_queue queue) (\<lambda>q.
                 evaluate q playback_position (map (\<lambda>(k, rh). rep_format (rh_representation rh)) (ph_representation_holders ph))
                   (dc_playback_rate s) ev)
            else Inr ev) (\<lambda>ev'. Inr (s\<lparr>dc_evaluation := ev'\<rparr>)))"

definition first_segment_num ::
  "chunk list \<Rightarrow> bool \<Rightarrow> int \<Rightarrow> 'f representation_holder \<Rightarrow> 'f dash_chunk_source \<Rightarrow> int result" where
  "first_segment_num queue starting_new_period playback_position rh s =
     (if queue = [] then Holder_GetSegmentNum rh playback_position
      else if starting_new_period then GetFirstAvailableSegmentNum rh
      else Inr (if IsForward (dc_playback_rate s) then GetNextChunkIndex (last queue) else GetPrevChunkIndex (last queue)))"

text \<open>The chunk for a selected format: an initialization chunk as long as something is missing.\<close>

definition produce_chunk ::
  "chunk list \<Rightarrow> 'f period_holder \<Rightarrow> bool \<Rightarrow> int \<Rightarrow> nat \<Rightarrow> 'f representation_holder \<Rightarrow> 'f dash_chunk_source \<Rightarrow>
   (chunk \<times> 'f dash_chunk_source) result option" where
  "produce_chunk queue ph starting_new_period playback_position address rh s =
     (let rep = rh_representation rh; trigger = fe_trigger (dc_evaluation s);
          pending_initialization_uri = (if rh_media_format rh = None then rep_initialization_uri rep else None);
          pending_index_uri = (if rh_segment_index rh = None then rep_index_uri rep else None)
      in if pending_initialization_uri \<noteq> None \<or> pending_index_uri \<noteq> None
         then and_then_opt (NewInitializationChunk pending_initialization_uri pending_index_uri rep (ph_local_index ph) trigger address) (\<lambda>c.
                Some (Inr (c, s\<lparr>dc_last_chunk_was_initialization := True,
                  dc_payloads := (dc_payloads s)(address \<mapsto> \<lparr>cp_sample_offset = 0, cp_media_format = None,
                    cp_drm_init_data = None, cp_extractor_wrapper = rh_extractor_wrapper rh\<rparr>)\<rparr>)))
         else and_then_opt (Some (first_segment_num queue starting_new_period playback_position rh s)) (\<lambda>segment_num.
              and_then_opt (Some (Holder_GetSegmentUri rh segment_num)) (\<lambda>_.
              and_then_opt (NewMediaChunk ph rh (rh_media_format rh) segment_num trigger address s) (\<lambda>(c, s').
                Some (Inr (c, s'\<lparr>dc_last_chunk_was_initialization := False\<rparr>))))))"

text \<open>Whether the holder already has a chunk of the selected format and the queue keeps its length.\<close>

definition keeps_chunk :: "chunk list \<Rightarrow> format \<Rightarrow> chunk_operation_holder \<Rightarrow> bool result" where
  "keeps_chunk queue selected_format out =
     (case co_chunk out of
        None \<Rightarrow> Inr False
      | Some out_chunk \<Rightarrow>
          if wrap64 (co_queue_size out) = int (length queue)
          then (case ck_format out_chunk of None \<Rightarrow> Inl Undefined_access | Some g \<Rightarrow> Inr (Format_eq g selected_format))
          else Inr False)"

definition operate_on_period ::
  "evaluator \<Rightarrow> chunk list \<Rightarrow> 'f period_holder \<Rightarrow> bool \<Rightarrow> int \<Rightarrow> nat \<Rightarrow> chunk_operation_holder \<Rightarrow> 'f dash_chunk_source \<Rightarrow>
   (chunk_operation_holder \<times> 'f dash_chunk_source) result option" where
  "operate_on_period evaluate queue ph starting_new_period playback_position address out s =
     and_then_opt (Some (evaluate_formats evaluate queue playback_position ph s)) (\<lambda>s1.
       (let ev = dc_evaluation s1; out1 = SetQueueSize (fe_queue_size ev) out
        in case fe_format ev of
             None \<Rightarrow> Some (Inr (SetChunk None out1, s1))
           | Some selected_format \<Rightarrow>
               and_then_opt (Some (keeps_chunk queue selected_format out1)) (\<lambda>unchanged.
               if unchanged then Some (Inr (out1, s1))
               else (case GetRepresentationHolder ph (fmt_id selected_format) of
                       None \<Rightarrow> Some (Inl Undefined_access)
                     | Some rh \<Rightarrow> and_then_opt (produce_chunk queue ph starting_new_period playback_position address rh s1) (\<lambda>(c, s2).
                                   Some (Inr (SetChunk (Some c) out1, s2)))))))"

definition DashChunkSource_GetChunkOperation ::
  "evaluator \<Rightarrow> int \<Rightarrow> nat \<Rightarrow> chunk list \<Rightarrow> int \<Rightarrow> chunk_operation_holder \<Rightarrow> 'f dash_chunk_source \<Rightarrow>
   (chunk_operation_holder \<times> 'f dash_chunk_source) result option" where
  "DashChunkSource_GetChunkOperation evaluate now address queue playback_position out s =
     (if dc_fatal_error s then Some (Inr (SetChunk None out, s))
      else (case dc_available_range s of
              None \<Rightarrow> Some (Inl Undefined_access)
            | Some available \<Rightarrow>
                (let bounds = GetCurrentBounds now available
                 in and_then_opt
                      (Some (if queue = [] then choose_first_period bounds playback_position out s
                             else choose_next_period bounds (last queue) playback_position out s)) (\<lambda>(choice, s1).
                      case choice of
                        Answer out' \<Rightarrow> Some (Inr (out', s1))
                      | Chosen ph starting_new_period position \<Rightarrow>
                          operate_on_period evaluate queue ph starting_new_period position address out s1))))"

section \<open>The other operations\<close>

definition DashChunkSource_CanContinueBuffering :: "'f dash_chunk_source \<Rightarrow> bool" where
  "DashChunkSource_CanContinueBuffering s =
     (if dc_fatal_error s then False
      else (case dc_manifest_fetcher s of Some f \<Rightarrow> Fetcher_CanContinueBuffering f | None \<Rightarrow> True))"

definition DashChunkSource_Prepare :: "'f dash_chunk_source \<Rightarrow> bool \<times> 'f dash_chunk_source" where
  "DashChunkSource_Prepare s = (\<not> dc_fatal_error s, s\<lparr>dc_prepare_called := True\<rparr>)"

definition DashChunkSource_GetDurationUs :: "'f dash_chunk_source \<Rightarrow> int" where
  "DashChunkSource_GetDurationUs s = (if dc_live s then 0 else mpd_duration (snd (dc_current_manifest s)) * 1000)"

fun DashChunkSource_GetContentType :: "adaptation_type \<Rightarrow> string" where
  "DashChunkSource_GetContentType VIDEO = ''video''"
| "DashChunkSource_GetContentType AUDIO = ''audio''"
| "DashChunkSource_GetContentType TEXT = ''text''"
| "DashChunkSource_GetContentType UNKNOWN = ''unknown''"

definition DashChunkSource_Enable ::
  "(string \<Rightarrow> string \<Rightarrow> bool) \<Rightarrow> int \<Rightarrow> track_criteria \<Rightarrow> 'f dash_chunk_source \<Rightarrow> 'f dash_chunk_source result" where
  "DashChunkSource_Enable match_pattern unix_epoch criteria s =
     (let s1 = s\<lparr>dc_track_is_enabled := True, dc_track_criteria := Some criteria\<rparr>
      in case dc_manifest_fetcher s1 of
           Some f \<Rightarrow> (let f' = Fetcher_Enable f
                     in ProcessManifest match_pattern unix_epoch (mf_manifest f') (s1\<lparr>dc_manifest_fetcher := Some f'\<rparr>))
         | None \<Rightarrow> ProcessManifest match_pattern unix_epoch (Some (dc_current_manifest s1)) s1)"

definition DashChunkSource_ContinueBuffering ::
  "(string \<Rightarrow> string \<Rightarrow> bool) \<Rightarrow> int \<Rightarrow> int \<Rightarrow> nat \<Rightarrow> 'f dash_chunk_source \<Rightarrow> 'f dash_chunk_source result" where
  "DashChunkSource_ContinueBuffering match_pattern unix_epoch now address s =
     (case dc_manifest_fetcher s of
        None \<Rightarrow> Inr s
      | Some f \<Rightarrow>
          if \<not> dc_dynamic s \<or> dc_fatal_error s then Inr s
          else and_then
            (if HasManifest f \<and> map_option fst (mf_manifest f) \<noteq> Some (fst (dc_current_manifest s))
             then ProcessManifest match_pattern unix_epoch (mf_manifest f) s else Inr s) (\<lambda>s1.
            (let period = mpd_min_update_period (snd (dc_current_manifest s1)) * 1000;
                 min_update_period = (if period = 0 then 5000000 else period)
             in Inr (if now > mf_manifest_load_start_timestamp f + min_update_period
                     then s1\<lparr>dc_manifest_fetcher := Some (snd (RequestRefresh now True True address f))\<rparr> else s1))))"

text \<open>What the load of an initialization chunk has left in it.\<close>

record 'f init_results =
  ir_format :: "'f option"
  ir_seek_map :: "chunk_index option"
  ir_drm_init_data :: "drm_init_data option"

definition update_period_holder :: "int \<Rightarrow> 'f period_holder \<Rightarrow> 'f dash_chunk_source \<Rightarrow> 'f dash_chunk_source" where
  "update_period_holder k h s = s\<lparr>dc_period_holders := AList.update k h (dc_period_holders s)\<rparr>"

definition give_init_results :: "'f init_results \<Rightarrow> chunk \<Rightarrow> 'f representation_holder \<Rightarrow> 'f representation_holder" where
  "give_init_results r ck rh =
     (let rh1 = (case ir_format r of Some f \<Rightarrow> GiveMediaFormat f rh | None \<Rightarrow> rh)
      in if rh_segment_index rh1 = None
         then (case ir_seek_map r of Some c \<Rightarrow> GiveSegmentIndex (Wrapping_Index c (ds_uri (ck_data_spec ck))) rh1 | None \<Rightarrow> rh1)
         else rh1)"

definition DashChunkSource_OnChunkLoadCompleted :: "'f init_results \<Rightarrow> chunk \<Rightarrow> 'f dash_chunk_source \<Rightarrow> 'f dash_chunk_source result" where
  "DashChunkSource_OnChunkLoadCompleted r ck s =
     (if ck_type ck \<noteq> kTypeMediaInitialization then Inr s
      else (case ck_format ck of
              None \<Rightarrow> Inl Undefined_access
            | Some f \<Rightarrow>
                (case map_of (dc_period_holders s) (ck_parent_id ck) of
                   None \<Rightarrow> Inr s
                 | Some ph \<Rightarrow>
                     (case GetRepresentationHolder ph (fmt_id f) of
                        None \<Rightarrow> Inl Undefined_access
                      | Some rh \<Rightarrow>
                          (let ph1 = ph\<lparr>ph_representation_holders :=
                                 AList.update (fmt_id f) (give_init_results r ck rh) (ph_representation_holders ph)\<rparr>;
                               ph2 = (if ph_drm_init_data ph1 = None \<and> ir_drm_init_data r \<noteq> None
                                      then ph1\<lparr>ph_drm_init_data := ir_drm_init_data r\<rparr> else ph1)
                           in Inr (update_period_holder (ck_parent_id ck) ph2 s))))))"

definition DashChunkSource_OnChunkLoadError :: "'f dash_chunk_source \<Rightarrow> 'f dash_chunk_source" where
  "DashChunkSource_OnChunkLoadError s = (if dc_qoe s then source_note Chunk_Load_Failed s else s)"

definition DashChunkSource_Disable :: "'f dash_chunk_source \<Rightarrow> 'f dash_chunk_source result" where
  "DashChunkSource_Disable s =
     and_then (case dc_manifest_fetcher s of
                 None \<Rightarrow> Inr s
               | Some f \<Rightarrow> and_then (Fetcher_Disable f) (\<lambda>f'. Inr (s\<lparr>dc_manifest_fetcher := Some f'\<rparr>))) (\<lambda>s1.
       Inr (s1\<lparr>dc_period_holders := [], dc_evaluation := (dc_evaluation s1)\<lparr>fe_format := None\<rparr>,
               dc_available_range := None, dc_fatal_error := False, dc_track_is_enabled := False,
               dc_track_criteria := None\<rparr>))"

section \<open>Seeking\<close>

definition GetAdjustedSeek :: "int \<Rightarrow> 'f dash_chunk_source \<Rightarrow> int result" where
  "GetAdjustedSeek target_position s =
     and_then (FindPeriodHolder target_position s) (\<lambda>found.
       case found of
         None \<Rightarrow> Inr target_position
       | Some (k, ph) \<Rightarrow>
           if target_position < ph_start_time ph then Inr target_position
           else (case GetArbitrarySegmentIndex ph of
                   None \<Rightarrow> Inr target_position
                 | Some index \<Rightarrow>
                     (let target_in_period = target_position - ph_start_time ph
                      in and_then
                        (case GetAvailableEndTime ph of
                           Some period_end \<Rightarrow>
                             and_then (Index_GetSegmentNum index target_in_period period_end) (\<lambda>n.
                             and_then (Index_GetLastSegmentNum index period_end) (\<lambda>l. Inr (n, l)))
                         | None \<Rightarrow> and_then (Index_GetSegmentNum index target_in_period (target_in_period + 1)) (\<lambda>n. Inr (n, n)))
                        (\<lambda>(segment_num, last_segment_num).
                        and_then (Index_GetTimeUs index segment_num) (\<lambda>segment_start.
                          if segment_num = last_segment_num then Inr (ph_start_time ph + segment_start)
                          else and_then (Index_GetTimeUs index (segment_num + 1)) (\<lambda>next_segment_start.
                            Inr (ph_start_time ph +
                              (if target_in_period - segment_start > next_segment_start - target_in_period
                               then next_segment_start else segment_start))))))))"

end
