(* ===== verification/Sample_Source_Safety.thy ===== *)
theory Sample_Source_Safety
  imports Chunk_Sample_Source
begin

text \<open>
  The invariant of the sample source under every interleaving of the reader's calls, the loader's
  callbacks, the loading thread and the other users of the load control. What it relies on from the
  chunk source is \<open>source_ok\<close>; objects are identified by addresses that are not reused.
\<close>

section \<open>The chunk source's contract\<close>

text \<open>
  \<open>used s\<close> are the addresses of the chunks the source has created so far. The operation keeps a
  queue of at most the given length and never empties it, and leaves the chunk in the holder, removes
  it, or replaces it by a newly created one (\<open>chunk/chunk_source.h\<close>, \<open>GetChunkOperation\<close>).
\<close>

definition new_chunk :: "('s \<Rightarrow> nat set) \<Rightarrow> 's \<Rightarrow> 's \<Rightarrow> chunk_operation_holder \<Rightarrow> bool" where
  "new_chunk used s s' h' \<longleftrightarrow> (\<exists>ck. co_chunk h' = Some ck \<and> co_owned h' \<and> ck_address ck \<notin> used s \<and>
     ck_address ck \<in> used s' \<and> 0 \<le> ck_end_time_us ck)"

definition source_ok :: "'s chunk_source_ops \<Rightarrow> ('s \<Rightarrow> nat set) \<Rightarrow> bool" where
  "source_ok ops used \<longleftrightarrow>
     (\<forall>queue pos h s h' s'. cs_get_chunk_operation ops queue pos h s = (h', s') \<longrightarrow>
        used s \<subseteq> used s' \<and> 0 \<le> co_queue_size h' \<and> co_queue_size h' < 2 ^ 31 \<and> co_queue_size h' \<le> int (length queue) \<and>
        (queue \<noteq> [] \<longrightarrow> 1 \<le> co_queue_size h') \<and>
        (co_chunk h' = co_chunk h \<and> co_owned h' = co_owned h \<or> co_chunk h' = None \<or> new_chunk used s s' h')) \<and>
     (\<forall>s. used s \<subseteq> used (snd (cs_prepare ops s))) \<and> (\<forall>x s. used s \<subseteq> used (cs_enable ops x s)) \<and>
     (\<forall>x s. used s \<subseteq> used (cs_continue_buffering ops x s)) \<and>
     (\<forall>x s. used s \<subseteq> used (cs_on_chunk_load_completed ops x s)) \<and>
     (\<forall>x y s. used s \<subseteq> used (cs_on_chunk_load_error ops x y s)) \<and> (\<forall>x s. used s \<subseteq> used (cs_disable ops x s))"

section \<open>The invariant of an enabled source\<close>

definition loader_wf :: "loadable set \<Rightarrow> unit loader_thread \<Rightarrow> bool" where
  "loader_wf canceled t \<longleftrightarrow> (lt_loading t \<longleftrightarrow> lt_current_loadable t \<noteq> None) \<and> (lt_loading t \<longleftrightarrow> lt_callback t \<noteq> None) \<and>
     (lt_loading t \<longleftrightarrow> lt_task t \<noteq> None) \<and>
     (lt_loadable_outcome t = LOAD_CANCELED \<longrightarrow> (\<exists>l \<in> canceled. lt_current_loadable t = Some l))"

lemma loader_wf_insert [simp]: "loader_wf K t \<Longrightarrow> loader_wf (insert l K) t"
  by (auto simp: loader_wf_def)

definition known_chunks :: "('s \<Rightarrow> nat set) \<Rightarrow> ('s, 'f) chunk_sample_source \<Rightarrow> bool" where
  "known_chunks used c \<longleftrightarrow> ss_canceled c \<subseteq> used (ss_chunk_source c) \<and>
     (\<forall>ck \<in> set (ss_media_chunks c). 0 \<le> ck_end_time_us ck \<and> ck_address ck \<in> used (ss_chunk_source c)) \<and>
     (\<forall>ck. co_chunk (ss_current_loadable_holder c) = Some ck \<longrightarrow>
        0 \<le> ck_end_time_us ck \<and> ck_address ck \<in> used (ss_chunk_source c))"

definition base_inv :: "('s \<Rightarrow> nat set) \<Rightarrow> ('s, 'f) chunk_sample_source \<Rightarrow> bool" where
  "base_inv used c \<longleftrightarrow> ss_state c = STATE_ENABLED \<and> ss_enabled_track_count c = 1 \<and> \<not> ss_disable_posted c \<and>
     (\<exists>t. ss_loader c = Some t \<and> loader_wf (ss_canceled c) t) \<and> control_reach (ss_load_control c) \<and>
     ss_loader_address c \<in> set (lc_loaders (ss_load_control c)) \<and>
     (ss_pending_reset_position_us c = kNoResetPending \<or> 0 \<le> ss_pending_reset_position_us c) \<and>
     known_chunks used c"

definition is_loading :: "('s, 'f) chunk_sample_source \<Rightarrow> bool" where
  "is_loading c \<longleftrightarrow> (case ss_loader c of None \<Rightarrow> False | Some t \<Rightarrow> lt_loading t)"

text \<open>Without a cancellation the queue is empty exactly while a reset is pending.\<close>

definition queue_shape :: "('s, 'f) chunk_sample_source \<Rightarrow> bool" where
  "queue_shape c \<longleftrightarrow> (ss_media_chunks c = [] \<longleftrightarrow> IsPendingReset c)"

text \<open>A media chunk that is loaded or failed is the last of the queue; any other is still owned by the holder.\<close>

definition attached :: "chunk \<Rightarrow> ('s, 'f) chunk_sample_source \<Rightarrow> bool" where
  "attached ck c \<longleftrightarrow> co_chunk (ss_current_loadable_holder c) = Some ck \<and>
     (if IsMediaChunk ck
      then \<not> co_owned (ss_current_loadable_holder c) \<and> ss_media_chunks c \<noteq> [] \<and>
           ck_address (last (ss_media_chunks c)) = ck_address ck
      else co_owned (ss_current_loadable_holder c))"

definition idle_inv :: "('s, 'f) chunk_sample_source \<Rightarrow> bool" where
  "idle_inv c \<longleftrightarrow> \<not> is_loading c \<and> ss_current_loadable_error_reason c = NO_ERROR \<and> queue_shape c \<and>
     (\<forall>ck. co_chunk (ss_current_loadable_holder c) = Some ck \<longrightarrow>
        co_owned (ss_current_loadable_holder c) \<and> ck_address ck \<notin> ss_canceled c)"

definition backed_off_inv :: "('s, 'f) chunk_sample_source \<Rightarrow> bool" where
  "backed_off_inv c \<longleftrightarrow> \<not> is_loading c \<and> ss_current_loadable_error_reason c \<noteq> NO_ERROR \<and> queue_shape c \<and>
     (\<exists>ck. attached ck c \<and> ck_address ck \<notin> ss_canceled c)"

definition loading_inv :: "('s, 'f) chunk_sample_source \<Rightarrow> bool" where
  "loading_inv c \<longleftrightarrow> ss_current_loadable_error_reason c = NO_ERROR \<and>
     (\<exists>ck t. attached ck c \<and> ss_loader c = Some t \<and> lt_current_loadable t = Some (ck_address ck) \<and>
        (if ck_address ck \<in> ss_canceled c then IsPendingReset c else queue_shape c))"

definition enabled_inv :: "('s \<Rightarrow> nat set) \<Rightarrow> ('s, 'f) chunk_sample_source \<Rightarrow> bool" where
  "enabled_inv used c \<longleftrightarrow> base_inv used c \<and> (idle_inv c \<or> backed_off_inv c \<or> loading_inv c)"

section \<open>Fields that notifications leave alone\<close>

lemma notify_fields [simp]:
  "ss_sample_queue (notify e c) = ss_sample_queue c" "ss_load_control (notify e c) = ss_load_control c"
  "ss_chunk_source (notify e c) = ss_chunk_source c" "ss_media_chunks (notify e c) = ss_media_chunks c"
  "ss_current_loadable_holder (notify e c) = ss_current_loadable_holder c" "ss_state (notify e c) = ss_state c"
  "ss_pending_reset_position_us (notify e c) = ss_pending_reset_position_us c"
  "ss_loading_finished (notify e c) = ss_loading_finished c"
  "ss_current_loadable_error_reason (notify e c) = ss_current_loadable_error_reason c"
  "ss_enabled_track_count (notify e c) = ss_enabled_track_count c" "ss_loader (notify e c) = ss_loader c"
  "ss_loader_address (notify e c) = ss_loader_address c" "ss_canceled (notify e c) = ss_canceled c"
  "ss_disable_posted (notify e c) = ss_disable_posted c" "ss_disable_done_callback (notify e c) = ss_disable_done_callback c"
  "ss_downstream_position_us (notify e c) = ss_downstream_position_us c"
  by (simp_all add: notify_def)

lemmas notifications = NotifyLoadStarted_def NotifyLoadCompleted_def NotifyLoadCanceled_def NotifyLoadError_def
  NotifyUpstreamDiscarded_def NotifyDownstreamFormatChanged_def

text \<open>The part of the state the invariant looks at.\<close>

lemma inv_frame:
  assumes "ss_state c' = ss_state c" "ss_enabled_track_count c' = ss_enabled_track_count c"
    "ss_disable_posted c' = ss_disable_posted c" "ss_loader c' = ss_loader c" "ss_load_control c' = ss_load_control c"
    "ss_loader_address c' = ss_loader_address c" "ss_pending_reset_position_us c' = ss_pending_reset_position_us c"
    "ss_chunk_source c' = ss_chunk_source c" "ss_canceled c' = ss_canceled c" "ss_media_chunks c' = ss_media_chunks c"
    "ss_current_loadable_holder c' = ss_current_loadable_holder c"
  shows "base_inv used c' = base_inv used c" "is_loading c' = is_loading c" "queue_shape c' = queue_shape c"
    "attached ck c' = attached ck c" "IsPendingReset c' = IsPendingReset c"
  using assms by (simp_all add: base_inv_def known_chunks_def is_loading_def queue_shape_def attached_def IsPendingReset_def)

lemma pop_back_until_take:
  "length chunks \<le> n \<Longrightarrow> q < length chunks \<Longrightarrow> pop_back_until q n chunks r = (take q chunks, Some (chunks ! q))"
proof (induction n arbitrary: chunks r)
  case (Suc n)
  then have len: "length (butlast chunks) \<le> n" by simp
  show ?case
  proof (cases "q < length (butlast chunks)")
    case True
    from Suc.IH [OF len True] Suc.prems True show ?thesis by (simp add: take_butlast nth_butlast)
  next
    case False
    then have q: "q = length chunks - 1" using Suc.prems(2) by simp
    have "pop_back_until q n (butlast chunks) (Some (last chunks)) = (butlast chunks, Some (last chunks))"
      using False by (cases n) simp_all
    moreover have "chunks \<noteq> []" using Suc.prems(2) by auto
    ultimately show ?thesis using Suc.prems(2) q by (simp add: butlast_conv_take last_conv_nth)
  qed
qed simp

lemma Discard_spec:
  assumes "DiscardUpstreamMediaChunks n c = Inr (d, c')" "0 \<le> n" "n < 2 ^ 31"
  shows "ss_media_chunks c' = take (nat n) (ss_media_chunks c) \<and> d = (int (length (ss_media_chunks c)) > n) \<and>
    (\<exists>q ev lf. c' = c\<lparr>ss_loading_finished := lf, ss_media_chunks := take (nat n) (ss_media_chunks c), ss_sample_queue := q,
       ss_events := ev\<rparr>)"
proof -
  have w: "wrap64 n = n" using assms by simp
  show ?thesis
  proof (cases "int (length (ss_media_chunks c)) \<le> n")
    case True
    then have "c' = c" "\<not> d" using assms(1) by (simp_all add: DiscardUpstreamMediaChunks_def w)
    then show ?thesis using True by (cases c) auto
  next
    case False
    then have p: "pop_back_until (nat n) (length (ss_media_chunks c)) (ss_media_chunks c) None =
        (take (nat n) (ss_media_chunks c), Some (ss_media_chunks c ! nat n))"
      using assms(2) by (intro pop_back_until_take) (simp_all add: nat_less_iff)
    obtain q where "d" "c' = NotifyUpstreamDiscarded (ck_start_time_us (ss_media_chunks c ! nat n))
        (ck_end_time_us (last (ss_media_chunks c)))
        (c\<lparr>ss_loading_finished := False, ss_media_chunks := take (nat n) (ss_media_chunks c), ss_sample_queue := q\<rparr>)"
      using assms(1) False by (auto simp: DiscardUpstreamMediaChunks_def Let_def w p and_then_Inr)
    moreover then have "\<exists>ev. c' = c\<lparr>ss_loading_finished := False, ss_media_chunks := take (nat n) (ss_media_chunks c),
        ss_sample_queue := q, ss_events := ev\<rparr>"
      by (cases c) (auto simp: notifications notify_def)
    moreover have "ss_media_chunks c' = take (nat n) (ss_media_chunks c)" using calculation(2) by (simp add: notifications)
    ultimately show ?thesis using False by (metis not_le)
  qed
qed

section \<open>Chunk operations\<close>

lemma DoChunkOperation_eq:
  assumes "cs_get_chunk_operation ops (ss_media_chunks c)
      (if ss_pending_reset_position_us c \<noteq> kNoResetPending then ss_pending_reset_position_us c else ss_downstream_position_us c)
      (SetQueueSize (narrow32 (int (length (ss_media_chunks c)))) (SetEndOfStream False (ss_current_loadable_holder c)))
      (ss_chunk_source c) = (h', s')"
  shows "DoChunkOperation ops c = c\<lparr>ss_current_loadable_holder := h', ss_chunk_source := s', ss_loading_finished := co_end_of_stream h'\<rparr>"
  using assms by (simp add: DoChunkOperation_def)

text \<open>The holder after an operation: unchanged, empty, or with a new chunk of its own.\<close>

lemma DoChunkOperation_ok:
  assumes ok: "source_ok ops used" and d: "c' = DoChunkOperation ops c"
    and base: "base_inv used c"
  shows "\<exists>h s lf. c' = c\<lparr>ss_current_loadable_holder := h, ss_chunk_source := s, ss_loading_finished := lf\<rparr> \<and>
    base_inv used c' \<and> used (ss_chunk_source c) \<subseteq> used s \<and> 0 \<le> co_queue_size h \<and> co_queue_size h < 2 ^ 31 \<and> co_queue_size h \<le> int (length (ss_media_chunks c)) \<and>
    (ss_media_chunks c \<noteq> [] \<longrightarrow> 1 \<le> co_queue_size h) \<and>
    (co_chunk h = co_chunk (ss_current_loadable_holder c) \<and> co_owned h = co_owned (ss_current_loadable_holder c) \<or>
     co_chunk h = None \<or>
     (\<exists>ck. co_chunk h = Some ck \<and> co_owned h \<and> ck_address ck \<notin> used (ss_chunk_source c)))"
proof -
  define hq where "hq = SetQueueSize (narrow32 (int (length (ss_media_chunks c)))) (SetEndOfStream False (ss_current_loadable_holder c))"
  define pos where "pos = (if ss_pending_reset_position_us c \<noteq> kNoResetPending then ss_pending_reset_position_us c else ss_downstream_position_us c)"
  obtain h' s' where g: "cs_get_chunk_operation ops (ss_media_chunks c) pos hq (ss_chunk_source c) = (h', s')"
    by (metis surj_pair)
  have c': "c' = c\<lparr>ss_current_loadable_holder := h', ss_chunk_source := s', ss_loading_finished := co_end_of_stream h'\<rparr>"
    using DoChunkOperation_eq [of ops c h' s'] g unfolding d hq_def pos_def by blast
  have hq: "co_chunk hq = co_chunk (ss_current_loadable_holder c)" "co_owned hq = co_owned (ss_current_loadable_holder c)"
    by (simp_all add: hq_def SetQueueSize_def SetEndOfStream_def)
  have law: "used (ss_chunk_source c) \<subseteq> used s'" "0 \<le> co_queue_size h'" "co_queue_size h' < 2 ^ 31" "co_queue_size h' \<le> int (length (ss_media_chunks c))"
      "ss_media_chunks c \<noteq> [] \<longrightarrow> 1 \<le> co_queue_size h'"
      "co_chunk h' = co_chunk hq \<and> co_owned h' = co_owned hq \<or> co_chunk h' = None \<or> new_chunk used (ss_chunk_source c) s' h'"
    using ok [unfolded source_ok_def, THEN conjunct1, rule_format, OF g] by auto
  have "known_chunks used c'"
    using base law(1,6) hq unfolding base_inv_def known_chunks_def c' by (auto simp: new_chunk_def)
  then have "base_inv used c'" using base by (simp add: base_inv_def c')
  then show ?thesis using c' law hq unfolding new_chunk_def
    by (intro exI [of _ h'] exI [of _ s'] exI [of _ "co_end_of_stream h'"]) auto
qed

section \<open>Starting a load\<close>

lemma StartLoading_accepts:
  assumes "loader_wf K t" "\<not> lt_loading t"
  shows "\<exists>t'. StartLoading True posted l () t = (True, t') \<and> loader_wf K t' \<and> lt_current_loadable t' = Some l"
  using assms by (auto simp: StartLoading_def loader_wf_def)

lemma MaybeStartLoading_ok:
  assumes base: "base_inv used c" and idle: "idle_inv c" and starts: "env_thread_starts env"
    and run: "MaybeStartLoading env c = Inr c'"
  shows "enabled_inv used c'"
proof (cases "co_chunk (ss_current_loadable_holder c)")
  case None
  then show ?thesis using base idle run by (simp add: MaybeStartLoading_def enabled_inv_def)
next
  case (Some ck)
  obtain t where t: "ss_loader c = Some t" "loader_wf (ss_canceled c) t" "\<not> lt_loading t"
    using base idle by (auto simp: base_inv_def idle_inv_def is_loading_def)
  obtain t' where st: "StartLoading True (env_posted env) (ck_address ck) () t = (True, t')" "loader_wf (ss_canceled c) t'"
      "lt_current_loadable t' = Some (ck_address ck)" using StartLoading_accepts [OF t(2,3)] by blast
  have own: "co_owned (ss_current_loadable_holder c)" "ck_address ck \<notin> ss_canceled c"
    and err: "ss_current_loadable_error_reason c = NO_ERROR" and q: "queue_shape c"
    using idle Some by (auto simp: idle_inv_def)
  show ?thesis
  proof (cases "IsMediaChunk ck")
    case True
    define m where "m = BaseMediaChunk_Init (ss_sample_queue c) ck"
    have m: "ck_address m = ck_address ck" "ck_end_time_us m = ck_end_time_us ck" by (simp_all add: m_def BaseMediaChunk_Init_def)
    have fields: "ss_media_chunks c' = ss_media_chunks c @ [m]" "ss_pending_reset_position_us c' = kNoResetPending"
        "ss_current_loadable_holder c' = (ss_current_loadable_holder c)\<lparr>co_owned := False\<rparr>" "ss_loader c' = Some t'"
        "ss_state c' = ss_state c" "ss_enabled_track_count c' = ss_enabled_track_count c" "ss_disable_posted c' = ss_disable_posted c"
        "ss_load_control c' = ss_load_control c" "ss_loader_address c' = ss_loader_address c" "ss_chunk_source c' = ss_chunk_source c"
        "ss_canceled c' = ss_canceled c" "ss_current_loadable_error_reason c' = ss_current_loadable_error_reason c"
      using run Some True own(1) t(1) st(1) starts
      by (auto simp: MaybeStartLoading_def TakeChunk_def ss_start_loading_def notifications m_def
          IsPendingReset_def Let_def BaseMediaChunk_Init_def split: if_splits)
    have "attached ck c'" using True Some fields m by (simp add: attached_def)
    moreover have "queue_shape c'" using fields by (simp add: queue_shape_def IsPendingReset_def)
    ultimately have "loading_inv c'" unfolding loading_inv_def using fields st own(2) err by auto
    moreover have "base_inv used c'" using base Some fields st(2) m by (auto simp: base_inv_def known_chunks_def)
    ultimately show ?thesis by (simp add: enabled_inv_def)
  next
    case False
    have fields: "c' = (NotifyLoadStarted ck (-1) (-1) (c\<lparr>ss_current_load_start_time := env_now env\<rparr>))\<lparr>ss_loader := Some t'\<rparr>"
      using run Some False t(1) st(1) starts
      by (simp add: MaybeStartLoading_def ss_start_loading_def notifications Let_def)
    have "attached ck c'" using False Some own(1) by (simp add: attached_def fields notifications)
    moreover have "queue_shape c'" using q by (simp add: fields notifications queue_shape_def IsPendingReset_def)
    ultimately have "loading_inv c'" unfolding loading_inv_def using st(3) own(2) err
      by (auto simp: fields notifications)
    moreover have "base_inv used c'" using base st(2) by (simp add: base_inv_def known_chunks_def fields notifications)
    ultimately show ?thesis by (simp add: enabled_inv_def)
  qed
qed

lemma start_attached_ok:
  assumes base: "base_inv used c" and idle: "\<not> is_loading c" "ss_current_loadable_error_reason c = NO_ERROR" "queue_shape c"
    and att: "attached ck c" "ck_address ck \<notin> ss_canceled c" and starts: "env_thread_starts env"
    and run: "ss_start_loading env b c = Inr c'" and same: "ck_address b = ck_address ck"
  shows "enabled_inv used c'"
proof -
  obtain t where t: "ss_loader c = Some t" "loader_wf (ss_canceled c) t" "\<not> lt_loading t"
    using base idle(1) by (auto simp: base_inv_def is_loading_def)
  obtain t' where st: "StartLoading True (env_posted env) (ck_address ck) () t = (True, t')" "loader_wf (ss_canceled c) t'"
      "lt_current_loadable t' = Some (ck_address ck)" using StartLoading_accepts [OF t(2,3)] by blast
  have c': "c' = c\<lparr>ss_loader := Some t'\<rparr>" using run t(1) st(1) starts same by (simp add: ss_start_loading_def)
  have "base_inv used c'" using base st(2) by (simp add: base_inv_def known_chunks_def c')
  moreover have "loading_inv c'" unfolding loading_inv_def using idle(2,3) att st(3)
    by (auto simp: c' attached_def queue_shape_def IsPendingReset_def)
  ultimately show ?thesis by (simp add: enabled_inv_def)
qed

text \<open>After a chunk operation and the discard it asks for, an idle source is idle.\<close>

lemma operation_discard_ok:
  assumes ok: "source_ok ops used" and base: "base_inv used c" and c1: "c1 = DoChunkOperation ops c"
    and q: "queue_shape c"
    and run: "DiscardUpstreamMediaChunks (co_queue_size (ss_current_loadable_holder c1)) c1 = Inr (d, c2)"
  shows "base_inv used c2 \<and> queue_shape c2 \<and> is_loading c2 = is_loading c \<and> ss_canceled c2 = ss_canceled c \<and>
    ss_current_loadable_error_reason c2 = ss_current_loadable_error_reason c \<and> ss_load_control c2 = ss_load_control c \<and>
    ss_loader c2 = ss_loader c \<and>
    (co_chunk (ss_current_loadable_holder c2) = co_chunk (ss_current_loadable_holder c) \<and>
       co_owned (ss_current_loadable_holder c2) = co_owned (ss_current_loadable_holder c) \<or>
     co_chunk (ss_current_loadable_holder c2) = None \<or>
     (\<exists>ck. co_chunk (ss_current_loadable_holder c2) = Some ck \<and> co_owned (ss_current_loadable_holder c2) \<and>
        ck_address ck \<notin> used (ss_chunk_source c)))"
proof -
  obtain h s lf where h: "c1 = c\<lparr>ss_current_loadable_holder := h, ss_chunk_source := s, ss_loading_finished := lf\<rparr>"
      "base_inv used c1" "0 \<le> co_queue_size h" "co_queue_size h < 2 ^ 31"
      "ss_media_chunks c \<noteq> [] \<longrightarrow> 1 \<le> co_queue_size h"
      "co_chunk h = co_chunk (ss_current_loadable_holder c) \<and> co_owned h = co_owned (ss_current_loadable_holder c) \<or>
       co_chunk h = None \<or> (\<exists>ck. co_chunk h = Some ck \<and> co_owned h \<and> ck_address ck \<notin> used (ss_chunk_source c))"
    using DoChunkOperation_ok [OF ok c1 base] by blast
  obtain qu ev lf2 where c2: "c2 = c1\<lparr>ss_loading_finished := lf2,
      ss_media_chunks := take (nat (co_queue_size h)) (ss_media_chunks c1), ss_sample_queue := qu, ss_events := ev\<rparr>"
    using Discard_spec [OF run] h(1,3,4) by auto
  have ne: "take (nat (co_queue_size h)) (ss_media_chunks c) = [] \<longleftrightarrow> ss_media_chunks c = []" using h(5) by auto
  have "base_inv used c2" using h(2) by (auto simp: base_inv_def known_chunks_def c2 h(1) dest: in_set_takeD)
  moreover have "queue_shape c2" using q ne by (simp add: queue_shape_def IsPendingReset_def c2 h(1))
  ultimately show ?thesis using h(6) by (auto simp: c2 h(1) is_loading_def)
qed

lemma not_canceled_new: "base_inv used c \<Longrightarrow> a \<notin> used (ss_chunk_source c) \<Longrightarrow> a \<notin> ss_canceled c"
  by (auto simp: base_inv_def known_chunks_def)

lemma Resume_init_ok:
  assumes ok: "source_ok ops used" and base: "base_inv used c" and att: "attached b c" "ck_address b \<notin> ss_canceled c"
    and i: "\<not> is_loading c" "ss_current_loadable_error_reason c = NO_ERROR" "queue_shape c"
    and starts: "env_thread_starts env" and init: "\<not> IsMediaChunk b"
    and d: "DiscardUpstreamMediaChunks (co_queue_size (ss_current_loadable_holder (DoChunkOperation ops c))) (DoChunkOperation ops c) = Inr (x, c2)"
    and same: "map_option ck_address (co_chunk (ss_current_loadable_holder c2)) = Some (ck_address b)"
    and run: "ss_start_loading env b c2 = Inr c'"
  shows "enabled_inv used c'"
proof -
  note o = operation_discard_ok [OF ok base refl i(3) d]
  have "ck_address b \<in> used (ss_chunk_source c)" using base att(1) by (simp add: base_inv_def known_chunks_def attached_def)
  then have "attached b c2" using o same att(1) init by (auto simp: attached_def)
  then show ?thesis using o i att(2) by (intro start_attached_ok [OF _ _ _ _ _ _ starts run refl]) auto
qed

lemma Resume_media_ok:
  assumes ok: "source_ok ops used" and base: "base_inv used c" and att: "attached b c" "ck_address b \<notin> ss_canceled c"
    and i: "\<not> is_loading c" "ss_current_loadable_error_reason c = NO_ERROR" "queue_shape c"
    and starts: "env_thread_starts env" and media: "IsMediaChunk b"
    and first: "ck_address b \<noteq> ck_address (hd (ss_media_chunks c))"
    and c2_def: "c2 = (let c1 = DoChunkOperation ops (c\<lparr>ss_media_chunks := butlast (ss_media_chunks c)\<rparr>)
                       in c1\<lparr>ss_media_chunks := ss_media_chunks c1 @ [last (ss_media_chunks c)]\<rparr>)"
  shows "map_option ck_address (co_chunk (ss_current_loadable_holder c2)) = Some (ck_address b) \<Longrightarrow>
      ss_start_loading env b c2 = Inr c' \<Longrightarrow> enabled_inv used c'"
    and "map_option ck_address (co_chunk (ss_current_loadable_holder c2)) \<noteq> Some (ck_address b) \<Longrightarrow>
      DiscardUpstreamMediaChunks (co_queue_size (ss_current_loadable_holder c2)) (NotifyLoadCanceled n c2) = Inr (x, c3) \<Longrightarrow>
      MaybeStartLoading env (ClearCurrentLoadableException c3) = Inr c' \<Longrightarrow> enabled_inv used c'"
proof -
  let ?q = "butlast (ss_media_chunks c)" and ?r = "last (ss_media_chunks c)"
  have ne: "ss_media_chunks c \<noteq> []" "ck_address ?r = ck_address b" using att media by (auto simp: attached_def)
  then have q: "?q \<noteq> []" using first by (cases "ss_media_chunks c" rule: rev_cases) auto
  have np: "\<not> IsPendingReset c" using i(3) ne by (simp add: queue_shape_def)
  have base1: "base_inv used (c\<lparr>ss_media_chunks := ?q\<rparr>)"
    using base by (auto simp: base_inv_def known_chunks_def dest: in_set_butlastD)
  obtain h s lf where h: "c2 = c\<lparr>ss_current_loadable_holder := h, ss_chunk_source := s, ss_loading_finished := lf\<rparr>"
      "base_inv used (c\<lparr>ss_media_chunks := ?q, ss_current_loadable_holder := h, ss_chunk_source := s, ss_loading_finished := lf\<rparr>)"
      "used (ss_chunk_source c) \<subseteq> used s" "1 \<le> co_queue_size h" "co_queue_size h < 2 ^ 31" "co_queue_size h \<le> int (length ?q)"
      "co_chunk h = co_chunk (ss_current_loadable_holder c) \<and> co_owned h = co_owned (ss_current_loadable_holder c) \<or>
       co_chunk h = None \<or> (\<exists>ck. co_chunk h = Some ck \<and> co_owned h \<and> ck_address ck \<notin> used (ss_chunk_source c))"
    using DoChunkOperation_ok [OF ok refl base1] ne(1) q unfolding c2_def Let_def by (cases c) auto
  have rb: "0 \<le> ck_end_time_us ?r" "ck_address ?r \<in> used (ss_chunk_source c)"
    using base last_in_set [OF ne(1)] by (auto simp: base_inv_def known_chunks_def)
  have base2: "base_inv used c2" using base h(2,3) rb by (auto simp: base_inv_def known_chunks_def h(1))
  have bu: "ck_address b \<in> used (ss_chunk_source c)" using rb(2) ne(2) by simp
  have same: "\<not> is_loading c2" "queue_shape c2" "ss_canceled c2 = ss_canceled c" "ss_current_loadable_error_reason c2 = NO_ERROR"
    using i by (simp_all add: h(1) is_loading_def queue_shape_def IsPendingReset_def)
  show "enabled_inv used c'" if "map_option ck_address (co_chunk (ss_current_loadable_holder c2)) = Some (ck_address b)"
      "ss_start_loading env b c2 = Inr c'"
  proof -
    have "attached b c2" using that(1) h(7) att(1) bu media by (auto simp: attached_def h(1))
    then show ?thesis using start_attached_ok [OF base2 same(1,4,2) _ _ starts that(2) refl] att(2) same(3) by simp
  qed
  show "enabled_inv used c'" if changed: "map_option ck_address (co_chunk (ss_current_loadable_holder c2)) \<noteq> Some (ck_address b)"
      and dis: "DiscardUpstreamMediaChunks (co_queue_size (ss_current_loadable_holder c2)) (NotifyLoadCanceled n c2) = Inr (x, c3)"
      and run: "MaybeStartLoading env (ClearCurrentLoadableException c3) = Inr c'"
  proof -
    let ?k = "co_queue_size h"
    obtain qu ev lf2 where c3: "c3 = (NotifyLoadCanceled n c2)\<lparr>ss_loading_finished := lf2,
        ss_media_chunks := take (nat ?k) (ss_media_chunks c2), ss_sample_queue := qu, ss_events := ev\<rparr>"
      using Discard_spec [OF dis] h(1,4,5) by (auto simp: notifications)
    let ?c = "ClearCurrentLoadableException c3"
    have "base_inv used ?c" using base2
      by (auto simp: base_inv_def known_chunks_def c3 notifications ClearCurrentLoadableException_def dest: in_set_takeD)
    moreover have "queue_shape ?c" using np ne(1) h(4)
      by (auto simp: queue_shape_def IsPendingReset_def c3 notifications ClearCurrentLoadableException_def h(1))
    then have "idle_inv ?c" using same(1) changed h(7) att(1) not_canceled_new [OF base]
      by (auto simp: idle_inv_def is_loading_def c3 notifications ClearCurrentLoadableException_def h(1) attached_def)
    ultimately show ?thesis using MaybeStartLoading_ok [OF _ _ starts run] by blast
  qed
qed

lemma ResumeFromBackOff_ok:
  assumes ok: "source_ok ops used" and base: "base_inv used c" and off: "backed_off_inv c"
    and starts: "env_thread_starts env"
    and run: "ResumeFromBackOff ops env c = Inr c'"
  shows "enabled_inv used c'"
proof -
  define c1 where "c1 = c\<lparr>ss_current_loadable_error_reason := NO_ERROR\<rparr>"
  obtain b where b: "attached b c" "ck_address b \<notin> ss_canceled c" using off by (auto simp: backed_off_inv_def)
  have base1: "base_inv used c1" using base by (simp add: c1_def base_inv_def known_chunks_def)
  have i: "\<not> is_loading c1" "ss_current_loadable_error_reason c1 = NO_ERROR" "queue_shape c1" "attached b c1"
      "ck_address b \<notin> ss_canceled c1"
    using off b
    by (simp_all add: c1_def backed_off_inv_def is_loading_def queue_shape_def IsPendingReset_def attached_def)
      (auto split: if_splits)
  have hb: "co_chunk (ss_current_loadable_holder c1) = Some b" using i(4) by (simp add: attached_def)
  note init = Resume_init_ok [OF ok base1 i(4,5,1,2,3) starts]
  note media = Resume_media_ok [OF ok base1 i(4,5,1,2,3) starts _ _ refl]
  show ?thesis
  proof (cases "IsMediaChunk b")
    case False
    then have own: "co_owned (ss_current_loadable_holder c1)" using i(4) by (simp add: attached_def)
    show ?thesis using run False own init [OF False]
      unfolding ResumeFromBackOff_def Let_def c1_def [symmetric] hb option.case
      by (auto simp: and_then_Inr split: if_splits)
  next
    case True
    show ?thesis using run True start_attached_ok [OF base1 i(1,2,3,4,5) starts] media [OF True]
      unfolding ResumeFromBackOff_def Let_def c1_def [symmetric] hb option.case
      by (auto simp: and_then_Inr split: if_splits)
  qed
qed

lemma GetNextLoadPositionUs_ok:
  assumes "base_inv used c" "queue_shape c \<or> IsPendingReset c"
  shows "\<exists>p. GetNextLoadPositionUs c = Inr p \<and> -1 \<le> p"
proof -
  have "0 \<le> ck_end_time_us (last (ss_media_chunks c))" if "ss_media_chunks c \<noteq> []"
    using assms(1) last_in_set [OF that] by (auto simp: base_inv_def known_chunks_def)
  moreover have "IsPendingReset c \<Longrightarrow> 0 \<le> ss_pending_reset_position_us c"
    using assms(1) by (auto simp: base_inv_def IsPendingReset_def)
  ultimately show ?thesis using assms(2) by (fastforce simp: GetNextLoadPositionUs_def queue_shape_def)
qed

lemma load_control_update_ok:
  assumes "base_inv used c" "-1 \<le> p" "Update (ss_load_control c) a (ss_loader_address c) pos p l = Inr (nl, lc)"
  shows "base_inv used (c\<lparr>ss_load_control := lc\<rparr>)"
proof -
  have r: "control_reach (ss_load_control c)" "ss_loader_address c \<in> set (lc_loaders (ss_load_control c))"
    using assms(1) by (auto simp: base_inv_def)
  have "control_reach lc" using reach_update [OF r assms(2,3)] .
  moreover have "lc_loaders lc = lc_loaders (ss_load_control c)"
    using Update_spec [OF control_reach_inv [OF r(1)] r(2) assms(2) refl, of a pos l] assms(3) by auto
  ultimately show ?thesis using assms(1) by (simp add: base_inv_def known_chunks_def)
qed

lemma inv_load_control [simp]:
  "idle_inv (c\<lparr>ss_load_control := lc\<rparr>) = idle_inv c" "backed_off_inv (c\<lparr>ss_load_control := lc\<rparr>) = backed_off_inv c"
  "loading_inv (c\<lparr>ss_load_control := lc\<rparr>) = loading_inv c"
  by (simp_all add: idle_inv_def backed_off_inv_def loading_inv_def is_loading_def queue_shape_def attached_def IsPendingReset_def)

lemma ss_is_loading_eq: "base_inv used c \<Longrightarrow> ss_is_loading c = Inr (is_loading c)"
  by (auto simp: base_inv_def ss_is_loading_def is_loading_def IsLoading_def)

lemma loading_inv_loading: "base_inv used c \<Longrightarrow> loading_inv c \<Longrightarrow> is_loading c"
  by (auto simp: base_inv_def loading_inv_def is_loading_def loader_wf_def)

lemma evaluated_ok:
  assumes ok: "source_ok ops used" and base: "base_inv used c" and idle: "idle_inv c" and p: "-1 \<le> p"
    and c1: "c1 = DoChunkOperation ops (c\<lparr>ss_last_performed_buffer_operation := now\<rparr>)"
    and run: "and_then (DiscardUpstreamMediaChunks (co_queue_size (ss_current_loadable_holder c1)) c1) (\<lambda>(chunks_discarded, c2).
       if co_chunk (ss_current_loadable_holder c2) = None then Inr (-1, c2)
       else if chunks_discarded then and_then (GetNextLoadPositionUs c2) (\<lambda>p. Inr (p, c2)) else Inr (p, c2)) = Inr (p', c2)"
  shows "base_inv used c2 \<and> idle_inv c2 \<and> -1 \<le> p'"
proof -
  let ?c = "c\<lparr>ss_last_performed_buffer_operation := now\<rparr>"
  have base': "base_inv used ?c" using base by (simp add: base_inv_def known_chunks_def)
  have q: "queue_shape ?c" using idle by (simp add: idle_inv_def queue_shape_def IsPendingReset_def)
  obtain d where d: "DiscardUpstreamMediaChunks (co_queue_size (ss_current_loadable_holder c1)) c1 = Inr (d, c2)"
      and rest: "p' = -1 \<or> GetNextLoadPositionUs c2 = Inr p' \<or> p' = p"
    using run by (auto simp: and_then_Inr split: if_splits)
  note o = operation_discard_ok [OF ok base' c1 q d]
  have "idle_inv c2" using o idle not_canceled_new [OF base] by (auto simp: idle_inv_def is_loading_def)
  moreover have "-1 \<le> p'" using rest p GetNextLoadPositionUs_ok [of used c2] o by auto
  ultimately show ?thesis using o by blast
qed

lemma UpdateLoadControl_ok:
  assumes ok: "source_ok ops used" and inv: "enabled_inv used c" and starts: "env_thread_starts env"
    and run: "UpdateLoadControl ops env c = Inr c'"
  shows "enabled_inv used c'"
proof -
  have base: "base_inv used c" using inv by (simp add: enabled_inv_def)
  have shape: "queue_shape c \<or> IsPendingReset c"
    using inv by (auto simp: enabled_inv_def idle_inv_def backed_off_inv_def loading_inv_def split: if_splits)
  obtain p where p: "GetNextLoadPositionUs c = Inr p" "-1 \<le> p" using GetNextLoadPositionUs_ok [OF base shape] by blast
  let ?off = "ss_current_loadable_error_reason c \<noteq> NO_ERROR"
  let ?op = "\<not> (is_loading c \<or> ?off) \<and> (co_chunk (ss_current_loadable_holder c) = None \<and> p \<noteq> -1 \<or>
      env_now env - ss_last_performed_buffer_operation c > 2000000)"
  let ?c1 = "DoChunkOperation ops (c\<lparr>ss_last_performed_buffer_operation := env_now env\<rparr>)"
  obtain p2 c2 nl lc where
    stage: "(if ?op then and_then (DiscardUpstreamMediaChunks (co_queue_size (ss_current_loadable_holder ?c1)) ?c1) (\<lambda>(chunks_discarded, c2).
       if co_chunk (ss_current_loadable_holder c2) = None then Inr (-1, c2)
       else if chunks_discarded then and_then (GetNextLoadPositionUs c2) (\<lambda>p. Inr (p, c2)) else Inr (p, c2)) else Inr (p, c)) = Inr (p2, c2)"
    and up: "Update (ss_load_control c2) (fst (ss_sample_queue c2)) (ss_loader_address c2) (ss_downstream_position_us c2) p2
       (is_loading c \<or> ?off) = Inr (nl, lc)"
    and final: "(if ?off then (if env_now env - ss_current_loadable_error_timestamp (c2\<lparr>ss_load_control := lc\<rparr>) \<ge>
           GetRetryDelayMillis (ss_current_loadable_error_count (c2\<lparr>ss_load_control := lc\<rparr>))
         then ResumeFromBackOff ops env (c2\<lparr>ss_load_control := lc\<rparr>) else Inr (c2\<lparr>ss_load_control := lc\<rparr>))
       else and_then (ss_is_loading (c2\<lparr>ss_load_control := lc\<rparr>)) (\<lambda>l. if \<not> l \<and> nl then MaybeStartLoading env (c2\<lparr>ss_load_control := lc\<rparr>)
         else Inr (c2\<lparr>ss_load_control := lc\<rparr>))) = Inr c'"
    using run unfolding UpdateLoadControl_def p(1) ss_is_loading_eq [OF base] and_then_simps Let_def
    unfolding and_then_Inr [of _ "case_prod f" for f] split_paired_Ex prod.case by (elim exE conjE) (rule that)
  let ?c3 = "c2\<lparr>ss_load_control := lc\<rparr>"
  have st: "base_inv used c2 \<and> -1 \<le> p2 \<and> (if idle_inv c then idle_inv c2 else c2 = c)"
  proof (cases "idle_inv c \<and> ?op")
    case True
    then show ?thesis using evaluated_ok [OF ok base _ p(2) refl, of "env_now env"] stage by (simp only: if_True simp_thms)
  next
    case False
    then have "\<not> ?op" using inv loading_inv_loading [OF base] by (auto simp: enabled_inv_def backed_off_inv_def)
    then have "c2 = c" "p2 = p" using stage by (simp_all only: if_False sum.inject prod.inject)
    then show ?thesis using base p(2) by simp
  qed
  have base3: "base_inv used ?c3" using load_control_update_ok [OF _ _ up] st by blast
  show ?thesis
  proof (cases "idle_inv c")
    case True
    then have idle: "idle_inv ?c3" using st by simp
    have "\<not> ?off" using True by (simp add: idle_inv_def)
    then show ?thesis using final MaybeStartLoading_ok [OF base3 idle starts] base3 idle
      by (auto simp: ss_is_loading_eq [OF base3] enabled_inv_def split: if_splits)
  next
    case False
    then have c2: "c2 = c" and "backed_off_inv c \<or> loading_inv c" using st inv by (auto simp: enabled_inv_def)
    then consider "backed_off_inv ?c3" ?off | "loading_inv ?c3" "\<not> ?off" "is_loading ?c3"
      using loading_inv_loading [OF base3] by (metis backed_off_inv_def inv_load_control(2,3) loading_inv_def)
    then show ?thesis
    proof cases
      case 1
      then show ?thesis using final ResumeFromBackOff_ok [OF ok base3 1(1) starts] base3
        by (auto simp: enabled_inv_def split: if_splits)
    next
      case 2
      then show ?thesis using final base3 by (auto simp: ss_is_loading_eq [OF base3] enabled_inv_def split: if_splits)
    qed
  qed
qed

section \<open>Restarting\<close>

lemma RestartFrom_ok:
  assumes ok: "source_ok ops used" and base: "base_inv used c" and pos: "0 \<le> pos"
    and load: "is_loading c \<Longrightarrow> loading_inv c" and starts: "env_thread_starts env"
    and run: "RestartFrom ops env pos c = Inr c'"
  shows "enabled_inv used c'"
proof -
  let ?c1 = "c\<lparr>ss_pending_reset_position_us := pos, ss_loading_finished := False\<rparr>"
  have np: "pos \<noteq> kNoResetPending" using pos by (simp add: kNoResetPending_def)
  have base1: "base_inv used ?c1" using base pos by (auto simp: base_inv_def known_chunks_def)
  have l1: "is_loading ?c1 = is_loading c" by (simp add: is_loading_def)
  show ?thesis
  proof (cases "is_loading c")
    case True
    obtain ck t where t: "attached ck c" "ss_loader c = Some t" "lt_current_loadable t = Some (ck_address ck)" "lt_loading t"
      using load [OF True] True by (auto simp: loading_inv_def is_loading_def)
    have c': "c' = ?c1\<lparr>ss_canceled := insert (ck_address ck) (ss_canceled c)\<rparr>"
      using run True t
      by (simp add: RestartFrom_def Let_def ss_is_loading_eq [OF base1] l1 ss_cancel_loading_def CancelLoading_def)
    have "ck_address ck \<in> used (ss_chunk_source c)" using base t(1) by (simp add: base_inv_def known_chunks_def attached_def)
    then have "base_inv used c'" using base1 by (auto simp: base_inv_def known_chunks_def c')
    moreover have "loading_inv c'" using load [OF True] t np
      by (auto simp: loading_inv_def c' attached_def IsPendingReset_def)
    ultimately show ?thesis by (simp add: enabled_inv_def)
  next
    case False
    let ?c2 = "ClearCurrentLoadable (?c1\<lparr>ss_sample_queue := TrackOutput_Clear (ss_sample_queue ?c1), ss_media_chunks := []\<rparr>)"
    have run2: "UpdateLoadControl ops env ?c2 = Inr c'"
      using run False by (simp add: RestartFrom_def Let_def ss_is_loading_eq [OF base1] l1)
    have "base_inv used ?c2" using base1
      by (simp add: base_inv_def known_chunks_def ClearCurrentLoadable_def ClearCurrentLoadableException_def SetChunk_def)
    moreover have "idle_inv ?c2" using False np
      by (simp add: idle_inv_def is_loading_def queue_shape_def IsPendingReset_def ClearCurrentLoadable_def
          ClearCurrentLoadableException_def SetChunk_def)
    ultimately show ?thesis using UpdateLoadControl_ok [OF ok _ starts run2] by (simp add: enabled_inv_def)
  qed
qed

lemma enabled_not_loading: "enabled_inv used c \<Longrightarrow> is_loading c \<Longrightarrow> loading_inv c"
  by (auto simp: enabled_inv_def idle_inv_def backed_off_inv_def)

text \<open>
  The part of the state that reading samples leaves alone; beside it the invariant looks only at the
  queue of chunks.
\<close>

definition core :: "('s, 'f) chunk_sample_source \<Rightarrow> _" where
  "core c = ((ss_state c, ss_enabled_track_count c, ss_disable_posted c, ss_loader c, ss_load_control c, ss_loader_address c),
     (ss_pending_reset_position_us c, ss_canceled c, ss_current_loadable_holder c, ss_current_loadable_error_reason c))"

lemma core_updates [simp]:
  "core (c\<lparr>ss_sample_queue := x1\<rparr>) = core c" "core (c\<lparr>ss_media_chunks := x2\<rparr>) = core c"
  "core (c\<lparr>ss_chunk_source := x3\<rparr>) = core c" "core (c\<lparr>ss_downstream_position_us := x4\<rparr>) = core c"
  "core (c\<lparr>ss_last_seek_position_us := x4\<rparr>) = core c" "core (c\<lparr>ss_pending_discontinuity := x5\<rparr>) = core c"
  "core (c\<lparr>ss_downstream_media_format := x6\<rparr>) = core c" "core (c\<lparr>ss_downstream_format := x7\<rparr>) = core c"
  "core (c\<lparr>ss_events := x8\<rparr>) = core c" "core (c\<lparr>ss_loading_finished := x5\<rparr>) = core c"
  "core (notify e c) = core c"
  by (simp_all add: core_def)

lemma enabled_frame:
  assumes inv: "enabled_inv used c" and eq: "core c' = core c"
    and src: "used (ss_chunk_source c) \<subseteq> used (ss_chunk_source c')"
    and q: "ss_media_chunks c' = [] \<longleftrightarrow> ss_media_chunks c = []" "set (ss_media_chunks c') \<subseteq> set (ss_media_chunks c)"
      "ss_media_chunks c \<noteq> [] \<Longrightarrow> last (ss_media_chunks c') = last (ss_media_chunks c)"
  shows "enabled_inv used c'"
proof -
  note e = eq [unfolded core_def prod.inject]
  have "known_chunks used c'" if "known_chunks used c" using that e src q(2) unfolding known_chunks_def by auto
  then have "base_inv used c'" using inv e by (simp add: enabled_inv_def base_inv_def)
  moreover have at: "attached ck c' = attached ck c" for ck using e q by (auto simp: attached_def)
  moreover have sh: "queue_shape c' = queue_shape c" "is_loading c' = is_loading c" "IsPendingReset c' = IsPendingReset c"
    using e q(1) by (simp_all add: queue_shape_def is_loading_def IsPendingReset_def)
  have "idle_inv c' = idle_inv c" "backed_off_inv c' = backed_off_inv c" using e sh at
    by (simp_all add: idle_inv_def backed_off_inv_def)
  moreover have "loading_inv c' = loading_inv c" using e unfolding loading_inv_def at sh by simp
  ultimately show ?thesis using inv by (simp add: enabled_inv_def)
qed

lemma pop_played_keeps:
  "pop_played r cs = [] \<longleftrightarrow> cs = []" "set (pop_played r cs) \<subseteq> set cs" "cs \<noteq> [] \<Longrightarrow> last (pop_played r cs) = last cs"
  by (induction r cs rule: pop_played.induct) auto

lemmas source_laws = source_ok_def [THEN iffD1, THEN conjunct2]

lemma note_format_fields [simp]:
  "ss_sample_queue (note_format k c) = ss_sample_queue c" "ss_chunk_source (note_format k c) = ss_chunk_source c"
  "ss_media_chunks (note_format k c) = ss_media_chunks c" "core (note_format k c) = core c"
  "ss_loading_finished (note_format k c) = ss_loading_finished c"
  "ss_last_seek_position_us (note_format k c) = ss_last_seek_position_us c"
  "ss_playback_rate (note_format k c) = ss_playback_rate c"
  by (simp_all add: note_format_def notifications split: option.splits) (simp_all add: notify_def)

lemma finish_read_frame:
  "finish_read hs fh h c = Some (Inr (r, fh', h', c')) \<Longrightarrow> \<exists>q. c' = c\<lparr>ss_sample_queue := q\<rparr>"
proof -
  assume "finish_read hs fh h c = Some (Inr (r, fh', h', c'))"
  then have "c' = c\<lparr>ss_sample_queue := ss_sample_queue c\<rparr> \<or> (\<exists>q. c' = c\<lparr>ss_sample_queue := q\<rparr>)"
    by (simp add: finish_read_def read_sample_def Let_def and_then_opt_Inr split: if_splits) blast+
  then show ?thesis by blast
qed

lemma read_from_chunk_frame:
  assumes "read_from_chunk env hs fh h k c = Some (Inr (r, fh', h', c'))"
  shows "core c' = core c \<and> ss_chunk_source c' = ss_chunk_source c \<and> ss_media_chunks c' = ss_media_chunks c"
proof -
  have "finish_read hs fh h (c\<lparr>ss_downstream_media_format := None\<rparr>) = Some (Inr (r, fh', h', c')) \<or>
      finish_read hs fh h c = Some (Inr (r, fh', h', c')) \<or> (\<exists>m. c' = c\<lparr>ss_downstream_media_format := m\<rparr>)"
    using assms by (auto simp: read_from_chunk_def split: if_splits option.splits)
  then show ?thesis using finish_read_frame by force
qed

lemma ReadData_cases:
  assumes "ChunkSampleSource_ReadData env pos fh h c = Some (Inr (r, fh', h', c'))" "\<not> ss_pending_discontinuity c" "\<not> IsPendingReset c"
  obtains empty q k ks where "IsEmpty (ss_sample_queue c) = Some (Inr (empty, q))"
    "(if empty then ss_media_chunks c else pop_played (TrackOutput_GetReadIndex q) (ss_media_chunks c)) = k # ks"
    "read_from_chunk env (\<not> empty) fh h k (note_format k
       (c\<lparr>ss_downstream_position_us := pos, ss_sample_queue := q, ss_media_chunks := k # ks\<rparr>)) = Some (Inr (r, fh', h', c'))"
proof -
  obtain empty q where e: "IsEmpty (ss_sample_queue c) = Some (Inr (empty, q))"
    using assms by (auto simp: ChunkSampleSource_ReadData_def and_then_opt_Inr)
  let ?ch = "if empty then ss_media_chunks c else pop_played (TrackOutput_GetReadIndex q) (ss_media_chunks c)"
  obtain k ks where k: "?ch = k # ks"
    using assms e by (cases ?ch) (simp_all add: ChunkSampleSource_ReadData_def Let_def)
  show thesis
    by (rule that [OF e k]) (use assms e k in \<open>simp add: ChunkSampleSource_ReadData_def Let_def\<close>)
qed

lemma ReadData_frame:
  assumes "ChunkSampleSource_ReadData env pos fh h c = Some (Inr (r, fh', h', c'))"
  shows "core c' = core c \<and> ss_chunk_source c' = ss_chunk_source c \<and>
    (ss_media_chunks c' = ss_media_chunks c \<or> (\<exists>i. ss_media_chunks c' = pop_played i (ss_media_chunks c)))"
proof (cases "ss_pending_discontinuity c \<or> IsPendingReset c")
  case True
  then show ?thesis using assms by (auto simp: ChunkSampleSource_ReadData_def)
next
  case False
  then obtain empty q k ks where e: "(if empty then ss_media_chunks c else pop_played (TrackOutput_GetReadIndex q) (ss_media_chunks c)) = k # ks"
    "read_from_chunk env (\<not> empty) fh h k (note_format k
       (c\<lparr>ss_downstream_position_us := pos, ss_sample_queue := q, ss_media_chunks := k # ks\<rparr>)) = Some (Inr (r, fh', h', c'))"
    using ReadData_cases [OF assms] by metis
  have "ss_media_chunks c' = k # ks \<and> core c' = core c \<and> ss_chunk_source c' = ss_chunk_source c"
    using read_from_chunk_frame [OF e(2)] by simp
  then show ?thesis using e(1) by (metis (full_types))
qed

section \<open>The reader's calls on an enabled source\<close>

lemma enabled_pop:
  assumes "enabled_inv used c" "core c' = core c" "ss_chunk_source c' = ss_chunk_source c"
    and "ss_media_chunks c' = ss_media_chunks c \<or> (\<exists>i. ss_media_chunks c' = pop_played i (ss_media_chunks c))"
  shows "enabled_inv used c'"
proof (rule enabled_frame [OF assms(1,2)])
  show "(ss_media_chunks c' = []) = (ss_media_chunks c = [])" using assms(4) pop_played_keeps(1) by metis
  show "set (ss_media_chunks c') \<subseteq> set (ss_media_chunks c)" using assms(4) pop_played_keeps(2) by force
  show "ss_media_chunks c \<noteq> [] \<Longrightarrow> last (ss_media_chunks c') = last (ss_media_chunks c)"
    using assms(4) pop_played_keeps(3) by metis
qed (simp add: assms(3))

lemma ReadData_ok:
  "enabled_inv used c \<Longrightarrow> ChunkSampleSource_ReadData env pos fh h c = Some (Inr (r, fh', h', c')) \<Longrightarrow> enabled_inv used c'"
  using ReadData_frame enabled_pop by metis

lemma ContinueBuffering_ok:
  assumes ok: "source_ok ops used" and inv: "enabled_inv used c" and starts: "env_thread_starts env"
    and run: "ChunkSampleSource_ContinueBuffering ops env pos c = Some (Inr (b, c'))"
  shows "enabled_inv used c'"
proof -
  let ?c = "c\<lparr>ss_downstream_position_us := pos, ss_chunk_source := cs_continue_buffering ops pos (ss_chunk_source c)\<rparr>"
  have "used (ss_chunk_source c) \<subseteq> used (cs_continue_buffering ops pos (ss_chunk_source c))"
    using source_laws [OF ok] by blast
  then have inv': "enabled_inv used ?c" using inv by (intro enabled_frame [OF inv]) auto
  obtain c1 where c1: "UpdateLoadControl ops env ?c = Inr c1" "c' = c1 \<or> (\<exists>q. c' = c1\<lparr>ss_sample_queue := q\<rparr>)"
    using run by (auto simp: ChunkSampleSource_ContinueBuffering_def and_then_opt_Inr split: if_splits)
  have "enabled_inv used c1" by (rule UpdateLoadControl_ok [OF ok inv' starts c1(1)])
  then show ?thesis by (rule enabled_pop) (use c1(2) in auto)
qed

lemma SeekToUs_ok:
  assumes ok: "source_ok ops used" and inv: "enabled_inv used c" and starts: "env_thread_starts env" and pos: "0 \<le> pos"
    and run: "ChunkSampleSource_SeekToUs ops env pos c = Some (Inr c')"
  shows "enabled_inv used c'"
proof -
  let ?c = "c\<lparr>ss_downstream_position_us := pos, ss_last_seek_position_us := pos\<rparr>"
  have inv': "enabled_inv used (?c\<lparr>ss_sample_queue := q\<rparr>)" for q by (rule enabled_pop [OF inv]) simp_all
  show ?thesis
  proof (cases "(if IsPendingReset c then ss_pending_reset_position_us c else ss_downstream_position_us c) = pos")
    case True
    then have "c' = ?c" using run unfolding ChunkSampleSource_SeekToUs_def Let_def by simp
    then show ?thesis using inv' [of "ss_sample_queue c"] by simp
  next
    case False
    obtain inside c2 c3 where c2: "(if IsPendingReset ?c then Some (Inr (False, ?c))
            else Some (and_then (TrackOutput_SkipToKeyframeBefore pos (ss_sample_queue ?c)) (\<lambda>(inside, q).
                   Inr (inside, ?c\<lparr>ss_sample_queue := q\<rparr>)))) = Some (Inr (inside, c2))"
        and c3: "(if inside then and_then_opt (IsEmpty (ss_sample_queue c2)) (\<lambda>(empty, q).
                     Some (Inr (c2\<lparr>ss_sample_queue := q,
                       ss_media_chunks := (if \<not> empty then pop_played (TrackOutput_GetReadIndex q) (ss_media_chunks c2)
                                           else ss_media_chunks c2)\<rparr>)))
              else Some (RestartFrom ops env pos c2)) = Some (Inr c3)" "c' = c3\<lparr>ss_pending_discontinuity := True\<rparr>"
        using run False unfolding ChunkSampleSource_SeekToUs_def Let_def if_not_P [OF False]
        unfolding and_then_opt_Inr split_paired_Ex prod.case by (elim exE conjE) (simp only: option.inject sum.inject that)
    have "\<exists>q. c2 = ?c\<lparr>ss_sample_queue := q\<rparr>"
    proof (cases "IsPendingReset ?c")
      case True
      then have "c2 = ?c" using c2 by simp
      also have "\<dots> = ?c\<lparr>ss_sample_queue := ss_sample_queue c\<rparr>" by simp
      finally show ?thesis by blast
    next
      case False
      then show ?thesis using c2 by (auto simp: and_then_Inr)
    qed
    then obtain q where q: "c2 = ?c\<lparr>ss_sample_queue := q\<rparr>" by blast
    show ?thesis
    proof (cases inside)
      case True
      then obtain empty q' where "IsEmpty (ss_sample_queue c2) = Some (Inr (empty, q'))"
        using c3(1) by (auto simp: and_then_opt_Inr)
      then have "c' = c2\<lparr>ss_sample_queue := q', ss_media_chunks := (if \<not> empty then pop_played (TrackOutput_GetReadIndex q') (ss_media_chunks c2)
          else ss_media_chunks c2), ss_pending_discontinuity := True\<rparr>" using c3 True by simp
      then show ?thesis by (intro enabled_pop [OF inv]) (auto simp: q)
    next
      case False
      then have r: "RestartFrom ops env pos (?c\<lparr>ss_sample_queue := q\<rparr>) = Inr c3" using c3(1) q by simp
      have "base_inv used (?c\<lparr>ss_sample_queue := q\<rparr>)" using inv' by (simp add: enabled_inv_def)
      then have "enabled_inv used c3" using RestartFrom_ok [OF ok _ pos _ starts r] enabled_not_loading [OF inv'] by blast
      then show ?thesis by (rule enabled_pop) (simp_all add: c3(2))
    qed
  qed
qed

section \<open>All states\<close>

definition disabling_inv :: "('s \<Rightarrow> nat set) \<Rightarrow> ('s, 'f) chunk_sample_source \<Rightarrow> bool" where
  "disabling_inv used c \<longleftrightarrow> ss_enabled_track_count c = 1 \<and> control_reach (ss_load_control c) \<and>
     ss_loader_address c \<in> set (lc_loaders (ss_load_control c)) \<and> known_chunks used c \<and>
     (ss_pending_reset_position_us c = kNoResetPending \<or> 0 \<le> ss_pending_reset_position_us c) \<and>
     (\<exists>t. ss_loader c = Some t \<and> loader_wf (ss_canceled c) t \<and>
        (if lt_loading t
         then \<not> ss_disable_posted c \<and> co_chunk (ss_current_loadable_holder c) \<noteq> None \<and>
              (\<forall>l. lt_current_loadable t = Some l \<longrightarrow> l \<in> ss_canceled c)
         else ss_disable_posted c))"

definition inactive_inv :: "('s \<Rightarrow> nat set) \<Rightarrow> ('s, 'f) chunk_sample_source \<Rightarrow> bool" where
  "inactive_inv used c \<longleftrightarrow> ss_enabled_track_count c = 0 \<and> control_reach (ss_load_control c) \<and>
     ss_loader_address c \<notin> set (lc_loaders (ss_load_control c)) \<and> known_chunks used c \<and> \<not> ss_disable_posted c \<and>
     ss_media_chunks c = [] \<and> co_chunk (ss_current_loadable_holder c) = None \<and>
     ss_current_loadable_error_reason c = NO_ERROR \<and>
     (ss_pending_reset_position_us c = kNoResetPending \<or> 0 \<le> ss_pending_reset_position_us c) \<and>
     (if ss_state c = STATE_PREPARED then \<exists>t. ss_loader c = Some t \<and> loader_wf (ss_canceled c) t \<and> \<not> lt_loading t else ss_loader c = None)"

definition source_inv :: "('s \<Rightarrow> nat set) \<Rightarrow> ('s, 'f) chunk_sample_source \<Rightarrow> bool" where
  "source_inv used c \<longleftrightarrow>
     (case ss_state c of
        STATE_ENABLED \<Rightarrow> enabled_inv used c
      | STATE_DISABLING \<Rightarrow> disabling_inv used c
      | _ \<Rightarrow> inactive_inv used c)"

lemma enabled_state: "enabled_inv used c \<Longrightarrow> ss_state c = STATE_ENABLED"
  by (simp add: enabled_inv_def base_inv_def)

lemma enabled_source: "enabled_inv used c \<Longrightarrow> source_inv used c"
  by (simp add: source_inv_def enabled_state)

lemma Enable_ok:
  assumes ok: "source_ok ops used" and inv: "inactive_inv used c" and st: "ss_state c = STATE_PREPARED" and pos: "0 \<le> pos"
    and starts: "env_thread_starts env" and b: "0 \<le> ss_buffer_size_contribution c"
      "lc_target_buffer_size (ss_load_control c) + ss_buffer_size_contribution c < 2 ^ 31"
    and run: "ChunkSampleSource_Enable ops env criteria pos c = Inr c'"
  shows "enabled_inv used c'"
proof -
  let ?lc = "Register (ss_load_control c) (ss_loader_address c) (ss_buffer_size_contribution c)"
  have "control_reach ?lc" using inv b by (intro reach_register) (simp_all add: inactive_inv_def)
  moreover have "ss_loader_address c \<in> set (lc_loaders ?lc)"
    by (simp add: Register_def set_insert_def set_insort_key)
  moreover have "used (ss_chunk_source c) \<subseteq> used (cs_enable ops criteria (ss_chunk_source c))" using source_laws [OF ok] by blast
  ultimately show ?thesis using inv st pos
    by (intro RestartFrom_ok [OF ok _ pos _ starts run [unfolded ChunkSampleSource_Enable_def]])
      (auto simp: base_inv_def inactive_inv_def known_chunks_def is_loading_def)
qed

lemma Disable_ok:
  assumes inv: "enabled_inv used c" and run: "ChunkSampleSource_Disable cb c = Inr c'"
  shows "ss_state c' = STATE_DISABLING \<and> disabling_inv used c'"
proof -
  let ?c = "c\<lparr>ss_state := STATE_DISABLING, ss_disable_done_callback := (cb \<or> ss_disable_done_callback c)\<rparr>"
  have base: "base_inv used c" using inv by (simp add: enabled_inv_def)
  obtain t where t: "ss_loader c = Some t" "loader_wf (ss_canceled c) t" using base by (auto simp: base_inv_def)
  show ?thesis
  proof (cases "lt_loading t")
    case True
    then have l: "loading_inv c" using inv t(1) by (intro enabled_not_loading [OF inv]) (simp add: is_loading_def)
    obtain ck where ck: "attached ck c" "lt_current_loadable t = Some (ck_address ck)" using l t(1) by (auto simp: loading_inv_def)
    have c': "c' = ?c\<lparr>ss_canceled := insert (ck_address ck) (ss_canceled c)\<rparr>"
      using run True t(1) ck(2)
      by (simp add: ChunkSampleSource_Disable_def Let_def ss_is_loading_def IsLoading_def ss_cancel_loading_def CancelLoading_def)
    show ?thesis using base t True ck
      by (auto simp: c' disabling_inv_def base_inv_def known_chunks_def attached_def)
  next
    case False
    then have c': "c' = ?c\<lparr>ss_disable_posted := True\<rparr>"
      using run t(1) by (simp add: ChunkSampleSource_Disable_def Let_def ss_is_loading_def IsLoading_def)
    show ?thesis using base t False by (auto simp: c' disabling_inv_def base_inv_def known_chunks_def)
  qed
qed

lemma DisableAndClear_ok:
  assumes ok: "source_ok ops used" and lc: "control_reach (ss_load_control c)" "ss_loader_address c \<in> set (lc_loaders (ss_load_control c))"
    and known: "known_chunks used c" and cnt: "ss_enabled_track_count c = 1" "\<not> ss_disable_posted c"
    and t: "ss_loader c = Some t" "loader_wf (ss_canceled c) t" "\<not> lt_loading t"
    and pend: "ss_pending_reset_position_us c = kNoResetPending \<or> 0 \<le> ss_pending_reset_position_us c"
    and run: "DisableAndClear ops c = Inr c'"
  shows "ss_state c' = STATE_PREPARED \<and> inactive_inv used c'"
proof -
  obtain lc' where u: "Unregister (ss_load_control c) (ss_loader_address c) = Inr lc'"
    using run by (auto simp: DisableAndClear_def and_then_Inr)
  have r: "control_reach lc'" by (rule reach_unregister [OF lc u])
  have l: "ss_loader_address c \<notin> set (lc_loaders lc')"
    using unregister_inv [OF control_reach_inv [OF lc(1)] lc(2)] u by auto
  have "used (ss_chunk_source c) \<subseteq> used (cs_disable ops (ss_media_chunks c) (ss_chunk_source c))" using source_laws [OF ok] by blast
  then have "ss_canceled c \<subseteq> used (cs_disable ops (ss_media_chunks c) (ss_chunk_source c))"
    using known by (auto simp: known_chunks_def)
  then show ?thesis using run u r l cnt t pend
    by (auto simp: DisableAndClear_def Let_def inactive_inv_def known_chunks_def ClearCurrentLoadable_def
        ClearCurrentLoadableException_def SetChunk_def split: if_splits)
qed

section \<open>The loader's callback\<close>

lemma DoneLoad_ok:
  assumes "DoneLoad canceled t = Inr ((cb, l, out), t')"
  shows "loader_wf K t' \<and> \<not> lt_loading t' \<and> lt_current_loadable t = Some l \<and>
    out = (if l \<in> canceled then LOAD_CANCELED else lt_loadable_outcome t)"
  using assms by (auto simp: DoneLoad_def loader_wf_def split: option.splits)

lemma loader_done_enabled:
  assumes ok: "source_ok ops used" and inv: "enabled_inv used c" and load: "is_loading c" and starts: "env_thread_starts env"
    and d: "DoneLoad (ss_canceled c) (the (ss_loader c)) = Inr ((cb, l, out), t')"
    and run: "LoadComplete ops env out (c\<lparr>ss_loader := Some t'\<rparr>) = Inr c'"
  shows "enabled_inv used c'"
proof -
  let ?c = "c\<lparr>ss_loader := Some t'\<rparr>"
  have base: "base_inv used c" using inv by (simp add: enabled_inv_def)
  obtain ck t where ck: "attached ck c" "ss_loader c = Some t" "lt_current_loadable t = Some (ck_address ck)"
      "if ck_address ck \<in> ss_canceled c then IsPendingReset c else queue_shape c" and err: "ss_current_loadable_error_reason c = NO_ERROR"
    using enabled_not_loading [OF inv load] by (auto simp: loading_inv_def)
  have done_facts: "loader_wf (ss_canceled c) t'" "\<not> lt_loading t'" "lt_current_loadable t = Some l"
      "out = (if l \<in> ss_canceled c then LOAD_CANCELED else lt_loadable_outcome t)"
    using DoneLoad_ok [OF d, of "ss_canceled c"] ck(2) by auto
  have l: "l = ck_address ck" using done_facts ck by simp
  have hk: "co_chunk (ss_current_loadable_holder c) = Some ck" using ck(1) by (simp add: attached_def)
  have base': "base_inv used ?c" using base done_facts by (simp add: base_inv_def known_chunks_def)
  have src: "used (ss_chunk_source c) \<subseteq> used (cs_on_chunk_load_completed ops x (ss_chunk_source c))"
      "used (ss_chunk_source c) \<subseteq> used (cs_on_chunk_load_error ops x e (ss_chunk_source c))" for x e
    using source_laws [OF ok] by blast+
  show ?thesis
  proof (cases out)
    case LOAD_COMPLETE
    then have q: "queue_shape c" using done_facts l ck(4) by (auto split: if_splits)
    define c2 where "c2 = ClearCurrentLoadable (if IsMediaChunk ck
        then NotifyLoadCompleted (env_bytes_loaded env (ck_address ck)) ck (ck_start_time_us ck) (ck_end_time_us ck) (env_now env)
               (env_now env - ss_current_load_start_time c) (?c\<lparr>ss_chunk_source := cs_on_chunk_load_completed ops (Some ck) (ss_chunk_source c)\<rparr>)
        else NotifyLoadCompleted (env_bytes_loaded env (ck_address ck)) ck (-1) (-1) (env_now env)
               (env_now env - ss_current_load_start_time c) (?c\<lparr>ss_chunk_source := cs_on_chunk_load_completed ops (Some ck) (ss_chunk_source c)\<rparr>))"
    have run2: "UpdateLoadControl ops env c2 = Inr c'"
      using run LOAD_COMPLETE hk by (simp add: LoadComplete_def OnLoadCompleted_def Let_def c2_def)
    have f: "ss_state c2 = ss_state c" "ss_enabled_track_count c2 = ss_enabled_track_count c" "ss_disable_posted c2 = ss_disable_posted c"
        "ss_loader c2 = Some t'" "ss_load_control c2 = ss_load_control c" "ss_loader_address c2 = ss_loader_address c"
        "ss_pending_reset_position_us c2 = ss_pending_reset_position_us c" "ss_canceled c2 = ss_canceled c"
        "ss_chunk_source c2 = cs_on_chunk_load_completed ops (Some ck) (ss_chunk_source c)" "ss_media_chunks c2 = ss_media_chunks c"
        "co_chunk (ss_current_loadable_holder c2) = None" "ss_current_loadable_error_reason c2 = NO_ERROR"
      by (simp_all add: c2_def ClearCurrentLoadable_def ClearCurrentLoadableException_def SetChunk_def notifications)
    have "base_inv used c2" using base done_facts src(1) [of "Some ck"] by (auto simp: base_inv_def known_chunks_def f)
    moreover have "idle_inv c2" using q done_facts by (simp add: idle_inv_def is_loading_def queue_shape_def IsPendingReset_def f)
    ultimately show ?thesis using UpdateLoadControl_ok [OF ok _ starts run2] by (simp add: enabled_inv_def)
  next
    case LOAD_ERROR
    then have q: "queue_shape c" and nin: "ck_address ck \<notin> ss_canceled c" using done_facts l ck(4) by (auto split: if_splits)
    define c1 where "c1 = NotifyLoadError GENERIC_ERROR (?c\<lparr>ss_current_loadable_error_reason := GENERIC_ERROR,
        ss_current_loadable_error_count := ss_current_loadable_error_count c + 1, ss_current_loadable_error_timestamp := env_now env\<rparr>)"
    define c2 where "c2 = c1\<lparr>ss_chunk_source := cs_on_chunk_load_error ops (Some ck) GENERIC_ERROR (ss_chunk_source c)\<rparr>"
    have run2: "UpdateLoadControl ops env c2 = Inr c'"
      using run LOAD_ERROR hk by (simp add: LoadComplete_def OnLoadError_def Let_def c1_def c2_def notifications)
    have f: "ss_state c2 = ss_state c" "ss_enabled_track_count c2 = ss_enabled_track_count c" "ss_disable_posted c2 = ss_disable_posted c"
        "ss_loader c2 = Some t'" "ss_load_control c2 = ss_load_control c" "ss_loader_address c2 = ss_loader_address c"
        "ss_pending_reset_position_us c2 = ss_pending_reset_position_us c" "ss_canceled c2 = ss_canceled c"
        "ss_chunk_source c2 = cs_on_chunk_load_error ops (Some ck) GENERIC_ERROR (ss_chunk_source c)" "ss_media_chunks c2 = ss_media_chunks c"
        "ss_current_loadable_holder c2 = ss_current_loadable_holder c" "ss_current_loadable_error_reason c2 = GENERIC_ERROR"
      by (simp_all add: c1_def c2_def notifications)
    have "base_inv used c2" using base done_facts src(2) [of "Some ck" GENERIC_ERROR] by (auto simp: base_inv_def known_chunks_def f)
    moreover have "attached ck c2" using ck(1) by (simp add: attached_def f)
    then have "backed_off_inv c2" using q nin done_facts
      by (auto simp: backed_off_inv_def is_loading_def queue_shape_def IsPendingReset_def f)
    ultimately show ?thesis using UpdateLoadControl_ok [OF ok _ starts run2] by (simp add: enabled_inv_def)
  next
    case LOAD_CANCELED
    then have "l \<in> ss_canceled c"
      using done_facts(3,4) ck(2) base by (cases "l \<in> ss_canceled c") (auto simp: base_inv_def loader_wf_def)
    then have pend: "IsPendingReset c" using ck(4) l by simp
    define c1 where "c1 = ClearCurrentLoadable (NotifyLoadCanceled (env_bytes_loaded env (ck_address ck)) ?c)"
    have f: "ss_state c1 = ss_state c" "ss_pending_reset_position_us c1 = ss_pending_reset_position_us c" "\<not> is_loading c1"
      using done_facts
      by (simp_all add: c1_def ClearCurrentLoadable_def ClearCurrentLoadableException_def notifications is_loading_def)
    have run2: "RestartFrom ops env (ss_pending_reset_position_us c) c1 = Inr c'"
      using run LOAD_CANCELED hk f(1,2) base
      by (simp add: LoadComplete_def OnLoadCanceled_def Let_def c1_def [symmetric] base_inv_def)
    have "base_inv used c1" using base'
      by (simp add: base_inv_def known_chunks_def c1_def ClearCurrentLoadable_def ClearCurrentLoadableException_def SetChunk_def notifications)
    moreover have "0 \<le> ss_pending_reset_position_us c" using base pend by (auto simp: base_inv_def IsPendingReset_def)
    ultimately show ?thesis using RestartFrom_ok [OF ok _ _ _ starts run2] f(3) by blast
  qed
qed

lemma loader_done_disabling:
  assumes ok: "source_ok ops used" and inv: "disabling_inv used c" "ss_state c = STATE_DISABLING"
    and t: "ss_loader c = Some t" "lt_loading t" and d: "DoneLoad (ss_canceled c) t = Inr ((cb, l, out), t')"
    and run: "LoadComplete ops env out (c\<lparr>ss_loader := Some t'\<rparr>) = Inr c'"
  shows "ss_state c' = STATE_PREPARED \<and> inactive_inv used c'"
proof -
  note done_facts = DoneLoad_ok [OF d]
  have i: "\<not> ss_disable_posted c" "l \<in> ss_canceled c" "known_chunks used c" "ss_enabled_track_count c = 1"
      "control_reach (ss_load_control c)" "ss_loader_address c \<in> set (lc_loaders (ss_load_control c))"
      "ss_pending_reset_position_us c = kNoResetPending \<or> 0 \<le> ss_pending_reset_position_us c"
    using inv t done_facts by (auto simp: disabling_inv_def)
  obtain ck where ck: "co_chunk (ss_current_loadable_holder c) = Some ck" using inv t by (auto simp: disabling_inv_def)
  define c1 where "c1 = ClearCurrentLoadable (NotifyLoadCanceled (env_bytes_loaded env (ck_address ck)) (c\<lparr>ss_loader := Some t'\<rparr>))"
  have f: "ss_load_control c1 = ss_load_control c" "ss_loader_address c1 = ss_loader_address c" "ss_canceled c1 = ss_canceled c"
      "ss_enabled_track_count c1 = 1" "\<not> ss_disable_posted c1" "ss_loader c1 = Some t'" "ss_state c1 = STATE_DISABLING"
      "ss_pending_reset_position_us c1 = ss_pending_reset_position_us c" "known_chunks used c1"
    using i inv(2)
    by (simp_all add: c1_def ClearCurrentLoadable_def ClearCurrentLoadableException_def notifications known_chunks_def SetChunk_def)
  have run2: "DisableAndClear ops c1 = Inr c'"
    using run done_facts i(2) ck f(7) by (simp add: LoadComplete_def OnLoadCanceled_def Let_def c1_def [symmetric])
  show ?thesis by (rule DisableAndClear_ok [OF ok _ _ f(9,4,5,6) _ _ _ run2]) (use f i done_facts in auto)
qed

section \<open>Every interleaving\<close>

text \<open>
  The steps: the reader's calls in the order the interface documents, the task that \<open>Disable\<close> posts,
  the loader's callback, the loading thread (which runs the posted load and writes samples), and the
  other users of the load control and the allocator.
\<close>

inductive source_step ::
  "'s chunk_source_ops \<Rightarrow> ('s, 'f) chunk_sample_source \<Rightarrow> ('s, 'f) chunk_sample_source \<Rightarrow> bool" for ops where
  step_register: "ss_state c = STATE_IDLE \<Longrightarrow> source_step ops c (ChunkSampleSource_Register c)"
| step_prepare: "ss_state c \<in> {STATE_INITIALIZED, STATE_PREPARED} \<Longrightarrow> ChunkSampleSource_Prepare ops c = (b, c') \<Longrightarrow> source_step ops c c'"
| step_enable: "ss_state c = STATE_PREPARED \<Longrightarrow> 0 \<le> pos \<Longrightarrow> 0 \<le> ss_buffer_size_contribution c \<Longrightarrow>
    lc_target_buffer_size (ss_load_control c) + ss_buffer_size_contribution c < 2 ^ 31 \<Longrightarrow> env_thread_starts env \<Longrightarrow>
    ChunkSampleSource_Enable ops (env :: ('f, unit) source_env) criteria pos c = Inr c' \<Longrightarrow> source_step ops c c'"
| step_disable: "ss_state c = STATE_ENABLED \<Longrightarrow> ChunkSampleSource_Disable cb c = Inr c' \<Longrightarrow> source_step ops c c'"
| step_posted: "ss_disable_posted c \<Longrightarrow> Posted_DisableAndClear ops c = Inr c' \<Longrightarrow> source_step ops c c'"
| step_continue: "ss_state c = STATE_ENABLED \<Longrightarrow> env_thread_starts env \<Longrightarrow>
    ChunkSampleSource_ContinueBuffering ops (env :: ('f, unit) source_env) pos c = Some (Inr (b, c')) \<Longrightarrow> source_step ops c c'"
| step_read: "ss_state c = STATE_ENABLED \<Longrightarrow>
    ChunkSampleSource_ReadData (env :: ('f, unit) source_env) pos fh h c = Some (Inr (r, fh', h', c')) \<Longrightarrow> source_step ops c c'"
| step_discontinuity: "ReadDiscontinuity c = (p, c') \<Longrightarrow> source_step ops c c'"
| step_seek: "ss_state c = STATE_ENABLED \<Longrightarrow> 0 \<le> pos \<Longrightarrow> env_thread_starts env \<Longrightarrow>
    ChunkSampleSource_SeekToUs ops (env :: ('f, unit) source_env) pos c = Some (Inr c') \<Longrightarrow> source_step ops c c'"
| step_done: "ss_loader c = Some t \<Longrightarrow> lt_task t = Some Done_Load \<Longrightarrow> env_thread_starts env \<Longrightarrow>
    loader_done ops (env :: ('f, unit) source_env) c = Inr c' \<Longrightarrow> source_step ops c c'"
| step_run_begin: "ss_loader c = Some t \<Longrightarrow> lt_task t = Some Run_Load \<Longrightarrow> RunLoad_begin (ss_canceled c) t = Inr t' \<Longrightarrow>
    source_step ops c (c\<lparr>ss_loader := Some t'\<rparr>)"
| step_run_end: "ss_loader c = Some t \<Longrightarrow> lt_task t = Some In_Load \<Longrightarrow> RunLoad_end (ss_canceled c) res t = Inr t' \<Longrightarrow>
    source_step ops c (c\<lparr>ss_loader := Some t'\<rparr>)"
| step_samples: "source_step ops c (c\<lparr>ss_sample_queue := q\<rparr>)"
| step_others: "control_reach lc \<Longrightarrow>
    ss_loader_address c \<in> set (lc_loaders lc) \<longleftrightarrow> ss_loader_address c \<in> set (lc_loaders (ss_load_control c)) \<Longrightarrow>
    source_step ops c (c\<lparr>ss_load_control := lc\<rparr>)"

inductive source_reach :: "'s chunk_source_ops \<Rightarrow> ('s, 'f) chunk_sample_source \<Rightarrow> bool" for ops where
  source_new: "control_reach lc \<Longrightarrow> addr \<notin> set (lc_loaders lc) \<Longrightarrow>
    source_reach ops (ChunkSampleSource_new s lc a rate contribution listener retries addr)"
| source_next: "source_reach ops c \<Longrightarrow> source_step ops c c' \<Longrightarrow> source_reach ops c'"

lemma source_inv_enabled: "source_inv used c \<Longrightarrow> ss_state c = STATE_ENABLED \<Longrightarrow> enabled_inv used c"
  by (simp add: source_inv_def)

lemma loader_thread_step_wf:
  assumes "loader_wf K t" "RunLoad_begin K t = Inr t' \<or> RunLoad_end K res t = Inr t'"
  shows "loader_wf K t' \<and> lt_loading t' = lt_loading t \<and> lt_current_loadable t' = lt_current_loadable t"
  using assms by (auto simp: RunLoad_begin_def RunLoad_end_def loader_wf_def split: option.splits if_splits)

lemma source_inv_loader:
  assumes "source_inv used c" "ss_loader c = Some t" "loader_wf (ss_canceled c) t'" "lt_loading t' = lt_loading t"
    "lt_current_loadable t' = lt_current_loadable t"
  shows "source_inv used (c\<lparr>ss_loader := Some t'\<rparr>)"
proof -
  let ?c = "c\<lparr>ss_loader := Some t'\<rparr>"
  have "known_chunks used ?c = known_chunks used c" "attached k ?c = attached k c" "queue_shape ?c = queue_shape c"
      "is_loading ?c = is_loading c" "IsPendingReset ?c = IsPendingReset c" for k
    using assms(2,4) by (simp_all add: known_chunks_def attached_def queue_shape_def is_loading_def IsPendingReset_def)
  then show ?thesis using assms
    by (cases "ss_state c")
      (auto simp: source_inv_def enabled_inv_def base_inv_def idle_inv_def backed_off_inv_def loading_inv_def disabling_inv_def inactive_inv_def)
qed

lemma source_inv_frame:
  assumes "source_inv used c" "core c' = core c" "ss_chunk_source c' = ss_chunk_source c" "ss_media_chunks c' = ss_media_chunks c"
  shows "source_inv used c'"
proof (cases "ss_state c = STATE_ENABLED")
  case True
  then have "enabled_inv used c'" using assms by (intro enabled_pop [OF source_inv_enabled]) auto
  then show ?thesis by (rule enabled_source)
next
  case False
  note e = assms(2) [unfolded core_def prod.inject]
  have k: "known_chunks used c' = known_chunks used c" using e assms(3,4) by (simp add: known_chunks_def)
  have "disabling_inv used c' = disabling_inv used c" "inactive_inv used c' = inactive_inv used c"
    using e assms(4) by (simp_all add: disabling_inv_def inactive_inv_def k)
  then show ?thesis using assms(1) False e by (cases "ss_state c") (simp_all add: source_inv_def)
qed

lemma source_inv_control:
  assumes "source_inv used c" "control_reach lc"
    "ss_loader_address c \<in> set (lc_loaders lc) \<longleftrightarrow> ss_loader_address c \<in> set (lc_loaders (ss_load_control c))"
  shows "source_inv used (c\<lparr>ss_load_control := lc\<rparr>)"
proof -
  let ?c = "c\<lparr>ss_load_control := lc\<rparr>"
  have k: "known_chunks used ?c = known_chunks used c" by (simp add: known_chunks_def)
  have "enabled_inv used c \<Longrightarrow> enabled_inv used ?c" "inactive_inv used c \<Longrightarrow> inactive_inv used ?c"
    using assms(2,3) by (simp_all add: enabled_inv_def base_inv_def inactive_inv_def k)
  moreover have "disabling_inv used c \<Longrightarrow> disabling_inv used ?c"
    using assms(2,3) unfolding disabling_inv_def k by (simp cong del: if_weak_cong)
  ultimately show ?thesis using assms(1) by (cases "ss_state c") (simp_all add: source_inv_def)
qed

lemma posted_ok:
  assumes ok: "source_ok ops used" and inv: "source_inv used c" and posted: "ss_disable_posted c"
    and run: "Posted_DisableAndClear ops c = Inr c'"
  shows "source_inv used c'"
proof -
  have d: "disabling_inv used c" using inv posted
    by (cases "ss_state c") (auto simp: source_inv_def enabled_inv_def base_inv_def inactive_inv_def)
  then obtain t where t: "ss_loader c = Some t" "loader_wf (ss_canceled c) t" "\<not> lt_loading t"
    using posted by (auto simp: disabling_inv_def split: if_splits)
  have "ss_state c' = STATE_PREPARED \<and> inactive_inv used c'"
    by (rule DisableAndClear_ok [OF ok _ _ _ _ _ _ _ _ _ run [unfolded Posted_DisableAndClear_def], of t])
      (use d t in \<open>simp_all add: disabling_inv_def known_chunks_def\<close>)
  then show ?thesis by (simp add: source_inv_def)
qed

lemma done_ok:
  assumes ok: "source_ok ops used" and inv: "source_inv used c" and t: "ss_loader c = Some t" "lt_task t = Some Done_Load"
    and starts: "env_thread_starts env" and run: "loader_done ops env c = Inr c'"
  shows "source_inv used c'"
proof -
  obtain cb l out t' where d: "DoneLoad (ss_canceled c) t = Inr ((cb, l, out), t')"
      and lc: "LoadComplete ops env out (c\<lparr>ss_loader := Some t'\<rparr>) = Inr c'"
    using run t(1) by (auto simp: loader_done_def and_then_Inr)
  have wf: "ss_state c = STATE_ENABLED \<or> ss_state c = STATE_DISABLING \<and> disabling_inv used c" "lt_loading t"
    using inv t
    by (cases "ss_state c";
        auto simp: source_inv_def enabled_inv_def base_inv_def inactive_inv_def disabling_inv_def loader_wf_def)+
  show ?thesis
  proof (cases "ss_state c = STATE_ENABLED")
    case True
    have "is_loading c" using t wf by (simp add: is_loading_def)
    then show ?thesis
      using loader_done_enabled [OF ok source_inv_enabled [OF inv True] _ starts _ lc] d t(1) by (auto intro: enabled_source)
  next
    case False
    then show ?thesis using loader_done_disabling [OF ok _ _ t(1) wf(2) d lc] wf(1) by (auto simp: source_inv_def)
  qed
qed

lemma prepare_ok:
  assumes ok: "source_ok ops used" and inv: "source_inv used c" and st: "ss_state c \<in> {STATE_INITIALIZED, STATE_PREPARED}"
    and run: "ChunkSampleSource_Prepare ops c = (b, c')"
  shows "source_inv used c'"
proof (cases "ss_state c = STATE_PREPARED")
  case True
  then show ?thesis using run inv by (simp add: ChunkSampleSource_Prepare_def)
next
  case False
  have "used (ss_chunk_source c) \<subseteq> used (snd (cs_prepare ops (ss_chunk_source c)))" using source_laws [OF ok] by simp
  then show ?thesis using run inv st False
    by (cases "cs_prepare ops (ss_chunk_source c)")
      (auto simp: ChunkSampleSource_Prepare_def source_inv_def inactive_inv_def known_chunks_def loader_wf_def LoaderThread_new_def
        split: if_splits)
qed

lemma source_step_inv:
  assumes step: "source_step ops c c'" and ok: "source_ok ops used" and inv: "source_inv used c"
  shows "source_inv used c'"
  using step
proof cases
  case step_register
  then show ?thesis using inv by (simp add: ChunkSampleSource_Register_def source_inv_def inactive_inv_def known_chunks_def)
next
  case step_prepare
  then show ?thesis using prepare_ok [OF ok inv] by blast
next
  case (step_enable pos env criteria)
  then show ?thesis using inv by (intro enabled_source Enable_ok [OF ok _ step_enable(1,2,5,3,4,6)]) (simp add: source_inv_def)
next
  case step_disable
  then show ?thesis using Disable_ok [OF source_inv_enabled [OF inv]] by (auto simp: source_inv_def)
next
  case step_posted
  then show ?thesis by (rule posted_ok [OF ok inv])
next
  case step_continue
  then show ?thesis using ContinueBuffering_ok [OF ok source_inv_enabled [OF inv]] enabled_source by blast
next
  case step_read
  then show ?thesis using ReadData_ok [OF source_inv_enabled [OF inv]] enabled_source by blast
next
  case step_discontinuity
  then show ?thesis using inv by (intro source_inv_frame [OF inv]) (auto simp: ReadDiscontinuity_def split: if_splits)
next
  case step_seek
  then show ?thesis using SeekToUs_ok [OF ok source_inv_enabled [OF inv]] enabled_source by blast
next
  case step_done
  then show ?thesis using done_ok [OF ok inv] by blast
next
  case (step_run_begin t t')
  have "loader_wf (ss_canceled c) t" using inv step_run_begin(2,3)
    by (cases "ss_state c") (auto simp: source_inv_def enabled_inv_def base_inv_def inactive_inv_def disabling_inv_def split: if_splits)
  then show ?thesis using source_inv_loader [OF inv step_run_begin(2)] loader_thread_step_wf step_run_begin by metis
next
  case (step_run_end t res t')
  have "loader_wf (ss_canceled c) t" using inv step_run_end(2,3)
    by (cases "ss_state c") (auto simp: source_inv_def enabled_inv_def base_inv_def inactive_inv_def disabling_inv_def split: if_splits)
  then show ?thesis using source_inv_loader [OF inv step_run_end(2)] loader_thread_step_wf step_run_end by metis
next
  case step_samples
  then show ?thesis using inv by (intro source_inv_frame [OF inv]) simp_all
next
  case step_others
  then show ?thesis using source_inv_control [OF inv] by simp
qed

lemma source_reach_inv: "source_reach ops c \<Longrightarrow> source_ok ops used \<Longrightarrow> source_inv used c"
proof (induction rule: source_reach.induct)
  case source_new
  then show ?case
    by (simp add: ChunkSampleSource_new_def source_inv_def inactive_inv_def known_chunks_def ChunkOperationHolder_new_def)
next
  case source_next
  then show ?case using source_step_inv by blast
qed

end
