(* ===== verification/Sample_Source_Properties.thy ===== *)
theory Sample_Source_Properties
  imports Sample_Source_Safety
begin

text \<open>
  What the sample source guarantees, and where it does not: consequences of the invariant of
  \<open>Sample_Source_Safety\<close>, the chunk a read comes from, and the two faults in the recovery from a
  failed load.
\<close>

lemma case_result_iff:
  "(case r of Inl _ \<Rightarrow> False | Inr c \<Rightarrow> P c) \<longleftrightarrow> (\<exists>c. r = Inr c \<and> P c)" "(case x of None \<Rightarrow> False | Some b \<Rightarrow> Q b) \<longleftrightarrow> (\<exists>b. x = Some b \<and> Q b)"
  by (cases r, auto) (cases x, auto)

section \<open>A concrete chunk source\<close>

text \<open>It creates chunks with consecutive addresses and leaves a chunk that is already in the holder.\<close>

definition demo_media_chunk :: "nat \<Rightarrow> chunk" where
  "demo_media_chunk n = \<lparr>ck_address = n,
     ck_data_spec = \<lparr>ds_uri = [], ds_post_body = None, ds_absolute_stream_position = 0, ds_position = 0, ds_length = 100, ds_key = None, ds_flags = 0\<rparr>,
     ck_type = kTypeMedia, ck_trigger = 0, ck_format = None, ck_parent_id = -1, ck_start_time_us = 0, ck_end_time_us = 1000,
     ck_chunk_index = int n, ck_first_sample_index = 0, ck_is_media_format_final = False\<rparr>"

definition demo_ops :: "nat chunk_source_ops" where
  "demo_ops = \<lparr>cs_can_continue_buffering = (\<lambda>_. True), cs_prepare = (\<lambda>n. (True, n)), cs_get_duration_us = (\<lambda>_. 1000),
     cs_enable = (\<lambda>_ n. n), cs_continue_buffering = (\<lambda>_ n. n),
     cs_get_chunk_operation = (\<lambda>queue _ h n.
       (let h1 = SetQueueSize (min (int (length queue)) 1000) h
        in if co_chunk h = None then (SetChunk (Some (demo_media_chunk n)) h1, Suc n) else (h1, n))),
     cs_on_chunk_load_completed = (\<lambda>_ n. n), cs_on_chunk_load_error = (\<lambda>_ _ n. n), cs_disable = (\<lambda>_ n. n)\<rparr>"


definition demo_env :: "(unit, unit) source_env" where
  "demo_env = \<lparr>env_now = 5000000, env_bytes_loaded = (\<lambda>_. 0), env_media_format = (\<lambda>_. None), env_drm_init_data = (\<lambda>_. None),
     env_thread_starts = True, env_posted = True\<rparr>"

definition demo_prepared :: "(nat, unit) chunk_sample_source" where
  "demo_prepared = snd (ChunkSampleSource_Prepare demo_ops (ChunkSampleSource_Register
     (ChunkSampleSource_new 0 (LoadControl_new True 30 30 (1 / 2) (1 / 2)) idle_allocator 1 5000 True 3 7)))"



section \<open>Safety of every reachable state\<close>








section \<open>Disabling\<close>








section \<open>Recovering from a failed load\<close>

text \<open>
  A defect of the recovery. When a failed initialization chunk, which the holder still owns, is
  replaced by the chunk source, the replacement destroys it; \<open>ResumeFromBackOff\<close> then asks the destroyed
  chunk for the bytes it had loaded, an access after the object's lifetime.
\<close>

theorem failed_init_chunk_replaced:
  assumes "co_chunk (ss_current_loadable_holder c) = Some b" "\<not> IsMediaChunk b" "co_owned (ss_current_loadable_holder c)"
    and "c1 = DoChunkOperation ops (c\<lparr>ss_current_loadable_error_reason := NO_ERROR\<rparr>)"
    and "DiscardUpstreamMediaChunks (co_queue_size (ss_current_loadable_holder c1)) c1 = Inr (d, c2)"
    and "map_option ck_address (co_chunk (ss_current_loadable_holder c2)) \<noteq> Some (ck_address b)"
  shows "ResumeFromBackOff ops env c = Inl Undefined_access"
  using assms by (auto simp: ResumeFromBackOff_def Let_def)

text \<open>A chunk source that first hands out an initialization chunk and offers another chunk whenever it is asked.\<close>

definition demo_replacing_ops :: "nat chunk_source_ops" where
  "demo_replacing_ops = demo_ops\<lparr>cs_get_chunk_operation := (\<lambda>queue _ h n.
     (SetChunk (Some ((demo_media_chunk n)\<lparr>ck_type := kTypeMediaInitialization\<rparr>)) (SetQueueSize (min (int (length queue)) 1000) h), Suc n))\<rparr>"

definition demo_init_loading :: "(nat, unit) chunk_sample_source result" where
  "demo_init_loading = ChunkSampleSource_Enable demo_replacing_ops demo_env
     \<lparr>tc_mime_type = ''video'', tc_prefer_trick = False, tc_preferred_lang = [], tc_preferred_channels = 0, tc_preferred_codec = []\<rparr>
     0 demo_prepared"

text \<open>The load of the initialization chunk fails; the source backs off in the loader's callback.\<close>

definition demo_init_failed :: "(nat, unit) chunk_sample_source result" where
  "demo_init_failed = and_then demo_init_loading (\<lambda>c.
     Inr (c\<lparr>ss_loader := Some LoaderThread_new, ss_current_loadable_error_reason := GENERIC_ERROR,
            ss_current_loadable_error_count := 1\<rparr>))"

theorem failed_init_chunk_replaced_witness:
  "\<exists>c. demo_init_failed = Inr c \<and> ResumeFromBackOff demo_replacing_ops demo_env c = Inl Undefined_access"
proof -
  let ?op = "\<lambda>c. DoChunkOperation demo_replacing_ops (c\<lparr>ss_current_loadable_error_reason := NO_ERROR\<rparr>)"
  let ?discard = "\<lambda>c. DiscardUpstreamMediaChunks (co_queue_size (ss_current_loadable_holder (?op c))) (?op c)"
  let ?replaced = "\<lambda>b r. map_option ck_address (co_chunk (ss_current_loadable_holder (snd r))) \<noteq> Some (ck_address b)"
  have "case demo_init_failed of Inl _ \<Rightarrow> False
      | Inr c \<Rightarrow> (case co_chunk (ss_current_loadable_holder c) of None \<Rightarrow> False | Some b \<Rightarrow>
          \<not> IsMediaChunk b \<and> co_owned (ss_current_loadable_holder c) \<and>
          (case ?discard c of Inl _ \<Rightarrow> False | Inr r \<Rightarrow> ?replaced b r))"
    by code_simp
  then obtain c b r where c: "demo_init_failed = Inr c" "co_chunk (ss_current_loadable_holder c) = Some b" "\<not> IsMediaChunk b"
      "co_owned (ss_current_loadable_holder c)" "?discard c = Inr r" "?replaced b r"
    unfolding case_result_iff by blast
  have "?discard c = Inr (fst r, snd r)" using c(5) by simp
  from failed_init_chunk_replaced [OF c(2-4) refl this, of demo_env] c(1,6) show ?thesis by blast
qed

text \<open>
  A defect that crosses components. Chunks are discarded by giving the sample queue the index of the
  first sample of the last chunk removed. If that chunk had produced no sample yet, and the reader has
  not read anything, the sample queue faults instead of discarding nothing, although it holds samples of
  the earlier chunks.
\<close>

theorem discard_empty_chunk_faults:
  assumes "ss_media_chunks c = kept @ [ck]" "length kept < 2 ^ 31" "int (length kept) = n"
    and "ck_first_sample_index ck = GetWriteIndex (buffer_of (ss_sample_queue c))"
    and "rsb_ready (buffer_of (ss_sample_queue c))" "rsb_samples (buffer_of (ss_sample_queue c)) \<noteq> []"
    and "GetReadIndex (buffer_of (ss_sample_queue c)) = 0" "bytes_dropped (buffer_of (ss_sample_queue c)) = 0"
  shows "DiscardUpstreamMediaChunks n c = Inl Undefined_access"
proof -
  have w: "wrap64 n = n" using assms(2,3) by simp
  have "pop_back_until (nat n) (length (ss_media_chunks c)) (ss_media_chunks c) None = (kept, Some ck)"
    using pop_back_until_take [of "ss_media_chunks c" "length (ss_media_chunks c)" "nat n" None] assms(1,3) by auto
  then show ?thesis
    using discard_nothing_unread [OF assms(5-8)] assms(1,3,4)
    by (simp add: DiscardUpstreamMediaChunks_def Let_def w TrackOutput_DiscardUpstreamSamples_def)
qed

definition demo_recovering :: "(nat, unit) chunk_sample_source" where
  "demo_recovering = demo_prepared
     \<lparr>ss_sample_queue := (fst demo_rsb, (snd (ss_sample_queue demo_prepared))\<lparr>to_rolling_buffer := snd demo_rsb\<rparr>),
      ss_media_chunks := [demo_media_chunk 0, (demo_media_chunk 1)\<lparr>ck_first_sample_index := 2\<rparr>]\<rparr>"

theorem discard_empty_chunk_faults_witness:
  "length (rsb_samples (buffer_of (ss_sample_queue demo_recovering))) = 2 \<and> DiscardUpstreamMediaChunks 1 demo_recovering = Inl Undefined_access"
proof -
  have b: "buffer_of (ss_sample_queue demo_recovering) = demo_rsb" by (simp add: buffer_of_def demo_recovering_def)
  have h: "GetReadIndex demo_rsb = 0" "GetWriteIndex demo_rsb = 2" "bytes_dropped demo_rsb = 0"
    by (simp_all add: GetReadIndex_def GetWriteIndex_def demo_rsb_def demo_info_def bytes_dropped_def
        InfoQueue_GetReadIndex_def InfoQueue_GetWriteIndex_def)
  from discard_empty_chunk_faults [of demo_recovering "[demo_media_chunk 0]" "(demo_media_chunk 1)\<lparr>ck_first_sample_index := 2\<rparr>" 1]
  show ?thesis unfolding b by (simp add: h demo_ready demo_samples) (simp add: demo_recovering_def)
qed

section \<open>The chunk a read comes from\<close>

lemma pop_played_split:
  "cs \<noteq> [] \<Longrightarrow> \<exists>played k ks. cs = played @ k # ks \<and> pop_played r cs = k # ks \<and>
     (played \<noteq> [] \<longrightarrow> ck_first_sample_index k \<le> r) \<and> (ks \<noteq> [] \<longrightarrow> r < ck_first_sample_index (hd ks))"
proof (induction r cs rule: pop_played.induct)
  case (1 r a b cs)
  show ?case
  proof (cases "ck_first_sample_index b \<le> r")
    case True
    then obtain played k ks where p: "b # cs = played @ k # ks" "pop_played r (b # cs) = k # ks"
        "played \<noteq> [] \<longrightarrow> ck_first_sample_index k \<le> r" "ks \<noteq> [] \<longrightarrow> r < ck_first_sample_index (hd ks)"
      using 1 by blast
    have "ck_first_sample_index k \<le> r" using p(1,3) True by (cases played) auto
    then have "a # b # cs = (a # played) @ k # ks \<and> pop_played r (a # b # cs) = k # ks \<and>
        (a # played \<noteq> [] \<longrightarrow> ck_first_sample_index k \<le> r) \<and> (ks \<noteq> [] \<longrightarrow> r < ck_first_sample_index (hd ks))"
      using p(2-4) True by (simp add: p(1) [symmetric])
    then show ?thesis by blast
  next
    case False
    then have "a # b # cs = [] @ a # b # cs \<and> pop_played r (a # b # cs) = a # b # cs \<and> r < ck_first_sample_index (hd (b # cs))"
      by simp
    then show ?thesis by blast
  qed
qed auto

text \<open>
  \<open>ReadData\<close> drops exactly the chunks that have been played: whenever it goes past its early return
  and the sample queue has a sample to read, the chunks it keeps are a suffix of the queue that starts
  with the chunk the next sample belongs to - it starts at or before the read index, unless no chunk was
  dropped, and the chunk after it starts beyond the read index.
\<close>

theorem read_drops_played_chunks:
  assumes "ChunkSampleSource_ReadData env pos fh h c = Some (Inr (r, fh', h', c'))"
    and "\<not> ss_pending_discontinuity c" "\<not> IsPendingReset c" "IsEmpty (ss_sample_queue c) = Some (Inr (False, q))"
  shows "\<exists>played k ks. ss_media_chunks c = played @ k # ks \<and> ss_media_chunks c' = k # ks \<and>
    (played \<noteq> [] \<longrightarrow> ck_first_sample_index k \<le> TrackOutput_GetReadIndex q) \<and>
    (ks \<noteq> [] \<longrightarrow> TrackOutput_GetReadIndex q < ck_first_sample_index (hd ks))"
proof -
  obtain k ks where k: "pop_played (TrackOutput_GetReadIndex q) (ss_media_chunks c) = k # ks"
      "read_from_chunk env True fh h k (note_format k
         (c\<lparr>ss_downstream_position_us := pos, ss_sample_queue := q, ss_media_chunks := k # ks\<rparr>)) = Some (Inr (r, fh', h', c'))"
    by (rule ReadData_cases [OF assms(1-3)]) (use assms(4) in simp)
  have "ss_media_chunks c' = k # ks" using read_from_chunk_frame [OF k(2)] by simp
  moreover have "ss_media_chunks c \<noteq> []" using k(1) by auto
  ultimately show ?thesis using pop_played_split [of "ss_media_chunks c" "TrackOutput_GetReadIndex q"] k(1) by auto
qed

definition demo_playing :: "(nat, unit) chunk_sample_source" where
  "demo_playing = demo_prepared\<lparr>ss_sample_queue := demo_track,
     ss_media_chunks := [demo_media_chunk 0, demo_media_chunk 1, (demo_media_chunk 2)\<lparr>ck_first_sample_index := 2\<rparr>]\<rparr>"

definition demo_format_env :: "(unit, unit) source_env" where
  "demo_format_env = demo_env\<lparr>env_media_format := (\<lambda>_. Some (1, ()))\<rparr>"

lemma demo_track_not_empty: "\<exists>q. IsEmpty demo_track = Some (Inr (False, q))"
proof -
  have f: "si_flags demo_first = 1" "si_time_us demo_first = 100" by (simp_all add: demo_first_def new_sample_def)
  have e: "eligible demo_track = track_view demo_track"
    by (simp add: eligible_def demo_track_facts is_sync_def f kSampleFlagSync_def)
  show ?thesis
    by (rule AdvanceToEligibleSample_ok [OF demo_track_facts(1)])
      (simp add: IsEmpty_def e demo_track_facts before_splice_def f)
qed

theorem read_drops_played_chunks_witness:
  "\<exists>fh fh' h h' c' q k ks. ChunkSampleSource_ReadData demo_format_env 0 fh h demo_playing = Some (Inr (FORMAT_READ, fh', h', c')) \<and>
     IsEmpty demo_track = Some (Inr (False, q)) \<and> ss_media_chunks c' = k # ks \<and>
     (ks \<noteq> [] \<longrightarrow> TrackOutput_GetReadIndex q < ck_first_sample_index (hd ks))"
proof -
  obtain q where q: "IsEmpty demo_track = Some (Inr (False, q))" using demo_track_not_empty by blast
  obtain k ks where k: "pop_played (TrackOutput_GetReadIndex q) (ss_media_chunks demo_playing) = k # ks"
    using pop_played_split [of "ss_media_chunks demo_playing" "TrackOutput_GetReadIndex q"] by (auto simp: demo_playing_def)
  have p: "ss_sample_queue demo_playing = demo_track"
      "\<not> ss_pending_discontinuity demo_playing" "\<not> IsPendingReset demo_playing" "ss_downstream_media_format demo_playing = None"
    by (simp_all add: demo_playing_def demo_prepared_def ChunkSampleSource_Prepare_def ChunkSampleSource_Register_def
        ChunkSampleSource_new_def IsPendingReset_def demo_ops_def)
  have n: "ss_downstream_media_format (note_format k c) = ss_downstream_media_format c" for c :: "(nat, unit) chunk_sample_source"
    by (simp add: note_format_def notifications notify_def split: option.splits)
  obtain fh' h' c' where rd: "ChunkSampleSource_ReadData demo_format_env 0 \<lparr>fh_format = None, fh_drm_init_data = None\<rparr>
      (SampleHolder_new True) demo_playing = Some (Inr (FORMAT_READ, fh', h', c'))"
    by (simp add: ChunkSampleSource_ReadData_def p q k Let_def read_from_chunk_def n demo_format_env_def)
  from read_drops_played_chunks [OF rd p(2,3) q [folded p(1)]] rd q show ?thesis by blast
qed

end
