(* ===== verification/Dash_Source_Properties.thy ===== *)
theory Dash_Source_Properties
  imports Dash_Chunk_Source Sample_Source_Properties
begin

text \<open>
  Correctness of the DASH chunk source: the contract the sample source relies on, the chunk it starts
  with, the continuity of the chunks it hands out, its map of periods under refreshes, and the defects
  found on the way.
\<close>

section \<open>A running example\<close>

text \<open>
  A static presentation with one period of two segments, enabled, and one whose second period has no
  video; the adaptive evaluator with an estimate of 1 Mbit/s.
\<close>

definition demo_evaluate :: evaluator where
  "demo_evaluate = AdaptiveEvaluator_Evaluate AdaptiveEvaluator_default 1000000"

definition video_set :: adaptation_set where
  "video_set = demo_set False VIDEO [timeline_rep 10 (demo_elems 180000)]"

definition demo_source :: "presentation \<Rightarrow> unit dash_chunk_source" where
  "demo_source manifest = DashChunkSource_new None (0, manifest) VIDEO 0 False False 1 False"

definition demo_enabled :: "presentation \<Rightarrow> unit dash_chunk_source" where
  "demo_enabled manifest = projr (DashChunkSource_Enable (=) 0 video_criteria (demo_source manifest))"



definition demo_chunk :: "string \<Rightarrow> int \<Rightarrow> int \<Rightarrow> int \<Rightarrow> chunk" where
  "demo_chunk uri trigger n start = MediaChunk_new 7 (DataSpec_new uri 0 (-1) ''k'') trigger (demo_format ''v1'' 500000) start (start + 2000000) n False 0"



definition answered :: "'a result option \<Rightarrow> bool" where
  "answered r \<longleftrightarrow> (case r of Some (Inr x) \<Rightarrow> True | _ \<Rightarrow> False)"

lemma answeredD: "answered r \<Longrightarrow> r = Some (Inr (projr (the r)))"
  by (auto simp: answered_def split: option.splits sum.splits)






section \<open>The contract of the sample source\<close>

text \<open>
  The answer of an operation: the queue is not extended and not emptied, and the holder's chunk is left,
  removed or replaced by the chunk with the given address.
\<close>

definition operation_answer :: "chunk list \<Rightarrow> nat \<Rightarrow> chunk_operation_holder \<Rightarrow> chunk_operation_holder \<Rightarrow> bool" where
  "operation_answer queue address out out' \<longleftrightarrow>
     0 \<le> co_queue_size out' \<and> co_queue_size out' \<le> int (length queue) \<and> (queue \<noteq> [] \<longrightarrow> 1 \<le> co_queue_size out') \<and>
     (co_chunk out' = co_chunk out \<and> co_owned out' = co_owned out \<or> co_chunk out' = None \<or>
      (\<exists>ck. co_chunk out' = Some ck \<and> co_owned out' \<and> ck_address ck = address))"

definition asked :: "chunk list \<Rightarrow> chunk_operation_holder \<Rightarrow> bool" where
  "asked queue out \<longleftrightarrow> length queue < 2 ^ 31 \<and> co_queue_size out = int (length queue)"

lemma answer_none:
  assumes "asked queue out"
  shows "operation_answer queue a out (SetChunk None out)" "operation_answer queue a out (SetChunk None (SetEndOfStream True out))"
  using assms by (auto simp: operation_answer_def asked_def SetChunk_def SetEndOfStream_def Suc_le_eq)

lemma evaluation_queue_length: "evaluation_queue cs = Inr ms \<Longrightarrow> length ms = length cs"
  by (induction cs arbitrary: ms) (auto simp: and_then_Inr split: option.splits)

lemma choice_answer:
  assumes "asked queue out"
  shows "choose_first_period bounds pos out s = Inr (Answer out', s') \<Longrightarrow> operation_answer queue a out out'"
    and "choose_next_period bounds previous pos out s = Inr (Answer out', s') \<Longrightarrow> operation_answer queue a out out'"
  using answer_none [OF assms]
  by (auto simp: choose_first_period_def choose_next_period_def choose_following_def and_then_Inr Let_def
      split: prod.splits option.splits if_splits)

lemma NewInitializationChunk_address: "NewInitializationChunk i x rep m t a = Some (Inr c) \<Longrightarrow> ck_address c = a"
  by (auto simp: NewInitializationChunk_def and_then_opt_Inr InitializationChunk_new_def split: option.splits)

lemma NewMediaChunk_fields:
  assumes "NewMediaChunk ph rh mf n t a s = Some (Inr (c, s'))"
  obtains start_time end_time u uri where "GetSegmentStartTime rh n = Inr start_time" "GetSegmentEndTime rh n = Inr end_time"
    "Holder_GetSegmentUri rh n = Inr (Some u)" "GetUriString u = Some (Inr uri)"
    "c = MediaChunk_new a (DataSpec_new uri (ru_start u) (ru_length u) (rep_cache_key (rh_representation rh)))
       (if MimeTypeIsRawText (fmt_mime_type (rep_format (rh_representation rh))) then kTriggerInitial else t)
       (rep_format (rh_representation rh)) start_time end_time n
       (MimeTypeIsRawText (fmt_mime_type (rep_format (rh_representation rh))) \<or> mf \<noteq> None) (ph_local_index ph)"
proof -
  obtain start_time end_time su where t: "GetSegmentStartTime rh n = Inr start_time" "GetSegmentEndTime rh n = Inr end_time"
      "Holder_GetSegmentUri rh n = Inr su"
    using assms by (auto simp: NewMediaChunk_def Let_def and_then_opt_Inr)
  obtain u where u: "su = Some u" using assms t by (cases su) (simp_all add: NewMediaChunk_def Let_def)
  obtain uri where uri: "GetUriString u = Some (Inr uri)" using assms t u by (auto simp: NewMediaChunk_def Let_def and_then_opt_Inr)
  show thesis
    by (rule that [OF t(1,2) t(3) [unfolded u] uri])
      (use assms t u uri in \<open>auto simp: NewMediaChunk_def Let_def split: if_splits\<close>)
qed

lemma NewMediaChunk_address: "NewMediaChunk ph rh mf n t a s = Some (Inr (c, s')) \<Longrightarrow> ck_address c = a"
  by (erule NewMediaChunk_fields) (simp add: MediaChunk_new_def)

lemma produce_chunk_address: "produce_chunk queue ph new pos a rh s = Some (Inr (c, s')) \<Longrightarrow> ck_address c = a"
  by (auto simp: produce_chunk_def Let_def and_then_opt_Inr NewInitializationChunk_address NewMediaChunk_address split: if_splits)

text \<open>The two halves of an operation that does not stop at once.\<close>

definition chosen_period ::
  "int \<Rightarrow> chunk list \<Rightarrow> int \<Rightarrow> chunk_operation_holder \<Rightarrow> 'f dash_chunk_source \<Rightarrow> ('f period_choice \<times> 'f dash_chunk_source) result" where
  "chosen_period now queue pos out s =
     (let bounds = GetCurrentBounds now (the (dc_available_range s))
      in if queue = [] then choose_first_period bounds pos out s else choose_next_period bounds (last queue) pos out s)"

lemma operation_cases:
  assumes "DashChunkSource_GetChunkOperation evaluate now a queue pos out s = Some (Inr (out', s'))"
  obtains (fatal) "dc_fatal_error s" "out' = SetChunk None out" "s' = s"
  | (answer) "\<not> dc_fatal_error s" "chosen_period now queue pos out s = Inr (Answer out', s')"
  | (chosen) ph new position s1 where "\<not> dc_fatal_error s" "chosen_period now queue pos out s = Inr (Chosen ph new position, s1)"
      "operate_on_period evaluate queue ph new position a out s1 = Some (Inr (out', s'))"
proof (cases "dc_fatal_error s")
  case True
  then have "out' = SetChunk None out" "s' = s" using assms by (simp_all add: DashChunkSource_GetChunkOperation_def)
  with True show thesis by (rule fatal)
next
  case False
  then obtain r where r: "dc_available_range s = Some r"
    using assms by (cases "dc_available_range s") (simp_all add: DashChunkSource_GetChunkOperation_def)
  let ?next = "\<lambda>(choice, s1). case choice of Answer out' \<Rightarrow> Some (Inr (out', s1))
      | Chosen ph new position \<Rightarrow> operate_on_period evaluate queue ph new position a out s1"
  have "and_then_opt (Some (chosen_period now queue pos out s)) ?next = Some (Inr (out', s'))"
    using assms False unfolding DashChunkSource_GetChunkOperation_def chosen_period_def Let_def r option.sel option.case
    by (simp split del: if_split)
  then obtain p where p: "chosen_period now queue pos out s = Inr p" "?next p = Some (Inr (out', s'))"
    unfolding and_then_opt_Inr option.inject by blast
  obtain choice s1 where "p = (choice, s1)" by fastforce
  note c = p(1) [unfolded this] and rest = p(2) [unfolded this prod.case]
  show thesis
  proof (cases choice)
    case (Answer o1)
    then show thesis using c rest False answer by simp
  next
    case (Chosen ph new position)
    then show thesis using c rest False chosen by simp
  qed
qed

context format_evaluator
begin

lemma evaluated_queue_size:
  assumes "evaluate_formats evaluate queue pos ph s = Inr s1" "length queue < 2 ^ 31"
  shows "0 \<le> fe_queue_size (dc_evaluation s1) \<and> fe_queue_size (dc_evaluation s1) \<le> int (length queue) \<and>
    (queue \<noteq> [] \<longrightarrow> 1 \<le> fe_queue_size (dc_evaluation s1))"
proof -
  let ?ev = "(dc_evaluation s)\<lparr>fe_queue_size := narrow32 (int (length queue))\<rparr>"
  have n: "narrow32 (int (length queue)) = int (length queue)" using assms(2) by (simp add: in_int32_def)
  obtain ev where s1: "s1 = s\<lparr>dc_evaluation := ev\<rparr>"
      and ev: "ev = ?ev \<or> (\<exists>q formats. evaluation_queue queue = Inr q \<and> evaluate q pos formats (dc_playback_rate s) ?ev = Inr ev)"
    using assms(1) by (auto simp: evaluate_formats_def Let_def and_then_Inr split: if_splits)
  show ?thesis
  proof (cases "ev = ?ev")
    case True
    then show ?thesis using n by (auto simp: s1 Suc_le_eq)
  next
    case False
    then obtain q formats where q: "evaluation_queue queue = Inr q" "evaluate q pos formats (dc_playback_rate s) ?ev = Inr ev"
      using ev by blast
    have "length q = length queue" by (rule evaluation_queue_length [OF q(1)])
    then show ?thesis using evaluate_queue [OF q(2)] evaluate_retains [OF q(2)] n by (auto simp: s1 Suc_le_eq)
  qed
qed

lemma operate_on_period_answer:
  assumes "operate_on_period evaluate queue ph new pos a out s = Some (Inr (out', s'))" "asked queue out"
  shows "operation_answer queue a out out'"
proof -
  obtain s1 where s1: "evaluate_formats evaluate queue pos ph s = Inr s1"
    using assms(1) by (auto simp: operate_on_period_def and_then_opt_Inr)
  note size = evaluated_queue_size [OF s1]
  have "out' = SetChunk None (SetQueueSize (fe_queue_size (dc_evaluation s1)) out) \<or>
      out' = SetQueueSize (fe_queue_size (dc_evaluation s1)) out \<or>
      (\<exists>c. ck_address c = a \<and> out' = SetChunk (Some c) (SetQueueSize (fe_queue_size (dc_evaluation s1)) out))"
    using assms(1) s1
    by (auto simp: operate_on_period_def Let_def and_then_opt_Inr split: option.splits if_splits dest: produce_chunk_address)
  then show ?thesis using size assms(2) by (auto simp: operation_answer_def asked_def SetChunk_def SetQueueSize_def)
qed

lemma operation_answers:
  assumes "DashChunkSource_GetChunkOperation evaluate now a queue pos out s = Some (Inr (out', s'))" "asked queue out"
  shows "operation_answer queue a out out'"
  using assms(1)
proof (cases rule: operation_cases)
  case fatal
  then show ?thesis using answer_none(1) [OF assms(2)] by simp
next
  case answer
  then show ?thesis using choice_answer [OF assms(2)]
    by (cases "queue = []"; cases "GetCurrentBounds now (the (dc_available_range s))") (auto simp: chosen_period_def Let_def)
next
  case (chosen ph new position s1)
  then show ?thesis using operate_on_period_answer [OF _ assms(2)] by blast
qed

end



section \<open>Where playback starts\<close>




section \<open>The map of periods\<close>














lemma BehindLiveWindowError_simps [simp]:
  "dc_period_holders (BehindLiveWindowError s) = dc_period_holders s"
  "dc_next_period_holder_index (BehindLiveWindowError s) = dc_next_period_holder_index s"
  "dc_current_manifest (BehindLiveWindowError s) = dc_current_manifest s"
  "dc_fatal_error (BehindLiveWindowError s) = dc_fatal_error s"
  "dc_playback_rate (BehindLiveWindowError s) = dc_playback_rate s"
  by (simp_all add: BehindLiveWindowError_def source_note_def)



















section \<open>Positions and continuity\<close>




















section \<open>Falling behind\<close>




text \<open>
  A defect: when the period being played has ended and every later period of the manifest is without
  representations for the track, the search for the next period advances to the end of the map and reads
  the entry there before it compares with the end.
\<close>

theorem trailing_empty_period_faults:
  assumes "\<not> dc_fatal_error s" "dc_available_range s = Some r" "\<not> dc_live s" "\<not> dc_dynamic s" "queue \<noteq> []"
    and "map_of (dc_period_holders s) (ck_parent_id (last queue)) = Some h" "\<not> ph_index_is_unbounded h"
    and "ck_parent_id (last queue) \<noteq> ph_local_index (snd (last (dc_period_holders s)))"
    and "holder_of_previous (last queue) h = Inr rh" "IsForward (dc_playback_rate s)"
    and "IsBeyondLastSegment rh (GetNextChunkIndex (last queue)) = Inr True"
    and "\<forall>(k, g) \<in> set (periods_after (ck_parent_id (last queue)) (dc_period_holders s)). ph_representation_holders g = []"
  shows "DashChunkSource_GetChunkOperation evaluate now a queue pos out s = Some (Inl Undefined_access)"
proof -
  have m: "MoveToNextPeriod xs = Inl Undefined_access" if "\<forall>(k, g) \<in> set xs. ph_representation_holders g = []" for xs :: "(int \<times> 'a period_holder) list"
    using that by (induction xs rule: MoveToNextPeriod.induct) auto
  have "dc_period_holders s \<noteq> []" using assms(6) by auto
  then have "choose_next_period (GetCurrentBounds now r) (last queue) pos out s = Inl Undefined_access"
    using assms m [OF assms(12)] by (simp add: choose_next_period_def Let_def choose_following_def beyond_previous_def dc_dynamic_def)
  then show ?thesis using assms by (simp add: DashChunkSource_GetChunkOperation_def Let_def)
qed

definition two_periods :: presentation where
  "two_periods = demo_presentation\<lparr>mpd_periods := [\<lparr>pd_id = ''p'', pd_start_ms = 5000, pd_supplemental_properties = [], pd_adaptation_sets = [video_set]\<rparr>,
     \<lparr>pd_id = ''q'', pd_start_ms = 9000, pd_supplemental_properties = [], pd_adaptation_sets = []\<rparr>]\<rparr>"

theorem trailing_empty_period_faults_witness:
  "DashChunkSource_GetChunkOperation demo_evaluate 0 8 [demo_chunk ''http://h/seg-11.mp4'' 3 11 7000000] 5000000 ChunkOperationHolder_new
     (demo_enabled two_periods) = Some (Inl Undefined_access)"
proof -
  let ?s = "demo_enabled two_periods" and ?q = "[demo_chunk ''http://h/seg-11.mp4'' 3 11 7000000]"
  let ?h = "snd (hd (dc_period_holders ?s))"
  let ?rh = "projr (holder_of_previous (last ?q) ?h)"
  have "map fst (dc_period_holders ?s) = [0, 1]" "ck_parent_id (last ?q) = 0" by code_simp+
  then have l: "map_of (dc_period_holders ?s) (ck_parent_id (last ?q)) = Some ?h" by (auto simp: map_eq_Cons_conv)
  have a: "answered (Some (holder_of_previous (last ?q) ?h))" by code_simp
  from answeredD [OF this] have rh: "holder_of_previous (last ?q) ?h = Inr ?rh" by simp
  have h: "\<not> dc_fatal_error ?s" "dc_available_range ?s = Some (the (dc_available_range ?s))" "\<not> dc_live ?s" "\<not> dc_dynamic ?s" "?q \<noteq> []"
      "\<not> ph_index_is_unbounded ?h" "ck_parent_id (last ?q) \<noteq> ph_local_index (snd (last (dc_period_holders ?s)))"
      "IsForward (dc_playback_rate ?s)" "IsBeyondLastSegment ?rh (GetNextChunkIndex (last ?q)) = Inr True"
      "\<forall>(k, g) \<in> set (periods_after (ck_parent_id (last ?q)) (dc_period_holders ?s)). ph_representation_holders g = []"
    by code_simp+
  from trailing_empty_period_faults [OF h(1-5) l h(6,7) rh h(8-10)] show ?thesis .
qed

end
