(* ===== verification/Xml_Attributes.thy ===== *)
theory Xml_Attributes
  imports Presentation
begin

text \<open>
  What the manifest parser reads of a document (\<open>mpd/dash_manifest_representation_parser.cc\<close>, the
  utility functions at its end, and \<open>Util::ParseXsDuration\<close> of \<open>util/util.cc\<close>): the current node of the
  XML reader, the text of an element, and attributes as strings, integers, ranges, frame rates and
  durations.

  libxml2 is not part of the program. Its reader is the sequence of the nodes it delivers, each start
  tag, end tag, text and so on once, with the depth, the qualified and the local name and the
  attributes that the calls of the parser return there; an end tag has the attributes of its element.
  The sequence ends where \<open>xmlTextReaderRead\<close> stops returning 1. \<open>errno\<close> is kept as whether it is
  \<open>ERANGE\<close>. \<open>base::Time::FromUTCString\<close> of the vendored Chromium library is an argument.
\<close>

section \<open>The reader\<close>

record xml_node =
  nd_qname :: string
  nd_name :: string
  nd_depth :: int
  nd_is_text :: bool
  nd_content :: string
  nd_attributes :: "(string \<times> string) list"

record xml_reader =
  rd_current :: xml_node
  rd_rest :: "xml_node list"
  rd_erange :: bool

fun xmlTextReaderRead :: "xml_reader \<Rightarrow> xml_reader option" where
  "xmlTextReaderRead r = (case rd_rest r of [] \<Rightarrow> None | n # ns \<Rightarrow> Some (r\<lparr>rd_current := n, rd_rest := ns\<rparr>))"

definition reader_depth :: "xml_reader \<Rightarrow> int" where
  "reader_depth r = nd_depth (rd_current r)"

definition CurrentNodeNameEquals :: "xml_reader \<Rightarrow> string \<Rightarrow> bool" where
  "CurrentNodeNameEquals r name \<longleftrightarrow> nd_qname (rd_current r) = name"

definition NodeNameEquals :: "xml_reader \<Rightarrow> string \<Rightarrow> bool" where
  "NodeNameEquals r name \<longleftrightarrow> nd_name (rd_current r) = name"

text \<open>The text of an element: the loop reads on until it has left the element.\<close>

fun next_text :: "int \<Rightarrow> string \<Rightarrow> bool \<Rightarrow> xml_node \<Rightarrow> xml_node list \<Rightarrow> string \<times> xml_reader" where
  "next_text parent_depth text erange current [] =
     (text, \<lparr>rd_current = current, rd_rest = [], rd_erange = erange\<rparr>)"
| "next_text parent_depth text erange current (n # ns) =
     (let text' = (if nd_depth n = parent_depth + 1 \<and> nd_is_text n then text @ nd_content n else text)
      in if nd_depth n > parent_depth then next_text parent_depth text' erange n ns
         else (text', \<lparr>rd_current = n, rd_rest = ns, rd_erange = erange\<rparr>))"

definition NextText :: "xml_reader \<Rightarrow> string \<times> xml_reader" where
  "NextText r = next_text (reader_depth r) [] (rd_erange r) (rd_current r) (rd_rest r)"

section \<open>Strings and integers\<close>

definition GetAttributeValue :: "string \<Rightarrow> string \<Rightarrow> xml_reader \<Rightarrow> string" where
  "GetAttributeValue name default_value r =
     (case map_of (nd_attributes (rd_current r)) name of Some v \<Rightarrow> v | None \<Rightarrow> default_value)"

definition ParseString :: "string \<Rightarrow> string \<Rightarrow> xml_reader \<Rightarrow> string" where
  "ParseString name default_value r =
     (case map_of (nd_attributes (rd_current r)) name of Some v \<Rightarrow> v | None \<Rightarrow> default_value)"

definition is_space :: "char \<Rightarrow> bool" where
  "is_space c \<longleftrightarrow> c \<in> set [CHR 0x20, CHR 0x09, CHR 0x0A, CHR 0x0B, CHR 0x0C, CHR 0x0D]"

definition is_decimal :: "char \<Rightarrow> bool" where
  "is_decimal c \<longleftrightarrow> 48 \<le> (of_char c :: nat) \<and> (of_char c :: nat) \<le> 57"

definition decimal_value :: "string \<Rightarrow> int" where
  "decimal_value ds = foldl (\<lambda>a c. 10 * a + (of_char c - 48)) 0 ds"

fun read_sign :: "string \<Rightarrow> bool \<times> string" where
  "read_sign [] = (False, [])"
| "read_sign (c # cs) = (if c = CHR ''-'' then (True, cs) else if c = CHR ''+'' then (False, cs) else (False, c # cs))"

text \<open>
  \<open>strtol\<close> and \<open>strtoll\<close> with base 10: the value, clamped to 64 bits, whether \<open>errno\<close> is set to \<open>ERANGE\<close>, and
  the rest of the text. Without a digit the value is 0, the rest is the whole text and \<open>errno\<close> is left
  alone.
\<close>

definition strtoll :: "string \<Rightarrow> int \<times> bool \<times> string" where
  "strtoll text =
     (let (negative, s) = read_sign (dropWhile is_space text); ds = takeWhile is_decimal s; rest = dropWhile is_decimal s;
          v = (if negative then - decimal_value ds else decimal_value ds)
      in if ds = [] then (0, False, text)
         else if v > 2 ^ 63 - 1 then (2 ^ 63 - 1, True, rest)
         else if v < - (2 ^ 63) then (- (2 ^ 63), True, rest)
         else (v, False, rest))"

text \<open>The text versions return the value, nothing on failure, and the new \<open>errno\<close>.\<close>

definition ParseLong_text :: "string \<Rightarrow> int option \<times> bool" where
  "ParseLong_text str = (let (v, erange, _) = strtoll str in (if erange then None else Some v, erange))"

definition ParseInt_text :: "string \<Rightarrow> int option \<times> bool" where
  "ParseInt_text str = (let (v, erange) = ParseLong_text str in (map_option narrow32 v, erange))"

definition ParseLong :: "string \<Rightarrow> int \<Rightarrow> xml_reader \<Rightarrow> int option \<times> xml_reader" where
  "ParseLong name default_value r =
     (let str = GetAttributeValue name [] r
      in if str = [] then (Some default_value, r)
         else (let (v, erange) = ParseLong_text str in (v, r\<lparr>rd_erange := erange\<rparr>)))"

definition ParseInt :: "string \<Rightarrow> int \<Rightarrow> xml_reader \<Rightarrow> int option \<times> xml_reader" where
  "ParseInt name default_value r =
     (let str = GetAttributeValue name [] r
      in if str = [] then (Some default_value, r)
         else (let (v, erange) = ParseInt_text str in (v, r\<lparr>rd_erange := erange\<rparr>)))"

text \<open>
  A byte range \<open>first-last\<close>. The function does not reset \<open>errno\<close> before it reads it.
\<close>

definition ParseRange :: "string \<Rightarrow> xml_reader \<Rightarrow> (int \<times> int) option \<times> xml_reader" where
  "ParseRange range_str r =
     (let (index_start, erange, rest) = strtoll range_str; r1 = r\<lparr>rd_erange := rd_erange r \<or> erange\<rparr>
      in if index_start < 0 \<or> rest = [] \<or> hd rest \<noteq> CHR ''-'' then (None, r1)
         else if rd_erange r1 then (None, r1)
         else (let (index_end, erange', rest') = strtoll (tl rest); r2 = r1\<lparr>rd_erange := rd_erange r1 \<or> erange'\<rparr>
               in if index_end < 0 \<or> rest' \<noteq> [] then (None, r2)
                  else if rd_erange r2 then (None, r2)
                  else if index_end < index_start then (None, r2)
                  else (Some (index_start, narrow64 (index_end - index_start + 1)), r2)))"

text \<open>
  A frame rate \<open>numerator\<close> or \<open>numerator/denominator\<close>. A missing denominator is 1; an empty one after the
  slash is read as 0.
\<close>

definition frame_rate_parts :: "string \<Rightarrow> string \<times> string" where
  "frame_rate_parts attr =
     (case dropWhile (\<lambda>c. c \<noteq> CHR ''/'') attr of
        [] \<Rightarrow> (attr, ''1'')
      | _ # rest \<Rightarrow> (takeWhile (\<lambda>c. c \<noteq> CHR ''/'') attr, takeWhile (\<lambda>c. c \<noteq> CHR ''/'') rest))"

definition ParseFrameRate :: "ieee \<Rightarrow> xml_reader \<Rightarrow> ieee option \<times> xml_reader" where
  "ParseFrameRate default_value r =
     (let attr = GetAttributeValue ''frameRate'' [] r
      in if attr = [] then (Some default_value, r)
         else (let (numerator, denominator) = frame_rate_parts attr; (n, e1) = ParseInt_text numerator
               in case n of
                    None \<Rightarrow> (None, r\<lparr>rd_erange := e1\<rparr>)
                  | Some n' \<Rightarrow>
                      (let (d, e2) = ParseInt_text denominator
                       in (map_option (ieee_divide n') d, r\<lparr>rd_erange := e2\<rparr>))))"

section \<open>Durations\<close>

text \<open>
  \<open>sscanf\<close> with \<open>%lf\<close>: a decimal or hexadecimal number with an optional fraction and exponent, an infinity or
  no number. The result is the nearest double and the rest of the text.
\<close>

definition hex_digit_value :: "char \<Rightarrow> int option" where
  "hex_digit_value c =
     (let n = of_char c :: int
      in if 48 \<le> n \<and> n \<le> 57 then Some (n - 48) else if 97 \<le> n \<and> n \<le> 102 then Some (n - 87)
         else if 65 \<le> n \<and> n \<le> 70 then Some (n - 55) else None)"

definition digit_of :: "int \<Rightarrow> char \<Rightarrow> int option" where
  "digit_of base c = (case hex_digit_value c of Some d \<Rightarrow> if d < base then Some d else None | None \<Rightarrow> None)"

definition is_digit_of :: "int \<Rightarrow> char \<Rightarrow> bool" where
  "is_digit_of base c \<longleftrightarrow> digit_of base c \<noteq> None"

definition number_value :: "int \<Rightarrow> string \<Rightarrow> int" where
  "number_value base ds = foldl (\<lambda>a c. base * a + the (digit_of base c)) 0 ds"

definition to_lower :: "char \<Rightarrow> char" where
  "to_lower c = (let n = of_char c :: nat in if 65 \<le> n \<and> n \<le> 90 then char_of (n + 32) else c)"

definition starts_with_word :: "string \<Rightarrow> string \<Rightarrow> bool" where
  "starts_with_word word s \<longleftrightarrow> map to_lower (take (length word) s) = word"

definition scan_exponent :: "char \<Rightarrow> string \<Rightarrow> (int \<times> string) option" where
  "scan_exponent mark s =
     (case s of
        [] \<Rightarrow> Some (0, [])
      | c # cs \<Rightarrow>
          if to_lower c \<noteq> mark then Some (0, s)
          else (let (negative, t) = read_sign cs; ds = takeWhile is_decimal t
                in if ds = [] then None
                   else Some (if negative then - decimal_value ds else decimal_value ds, dropWhile is_decimal t)))"

definition scan_number :: "int \<Rightarrow> string \<Rightarrow> (rat \<times> string) option" where
  "scan_number base s =
     (let ints = takeWhile (is_digit_of base) s; r1 = dropWhile (is_digit_of base) s;
          (frac, r2) = (case r1 of
                          [] \<Rightarrow> ([], r1)
                        | c # cs \<Rightarrow> if c = CHR ''.'' then (takeWhile (is_digit_of base) cs, dropWhile (is_digit_of base) cs) else ([], r1));
          mantissa = of_int (number_value base (ints @ frac)) / of_int base ^ length frac
      in if ints = [] \<and> frac = [] then None
         else (case scan_exponent (if base = 16 then CHR ''p'' else CHR ''e'') r2 of
                 None \<Rightarrow> None
               | Some (e, r3) \<Rightarrow>
                   (let radix = (if base = 16 then 2 else 10)
                    in Some (if 0 \<le> e then mantissa * radix ^ nat e else mantissa / radix ^ nat (- e), r3))))"

fun negate :: "bool \<Rightarrow> ieee \<Rightarrow> ieee" where
  "negate b (Finite x) = Finite (if b then - x else x)"
| "negate b (Infinite s) = Infinite (b \<noteq> s)"
| "negate b Not_A_Number = Not_A_Number"

definition scan_double :: "string \<Rightarrow> (ieee \<times> string) option" where
  "scan_double text =
     (let (negative, s) = read_sign (dropWhile is_space text)
      in map_option (\<lambda>(v, rest). (negate negative v, rest))
           (if starts_with_word ''nan'' s then Some (Not_A_Number, drop 3 s)
            else if starts_with_word ''inf'' s
            then (if starts_with_word ''infinity'' s then Some (Infinite False, drop 8 s)
                  else if starts_with_word ''infi'' s then None else Some (Infinite False, drop 3 s))
            else map_option (\<lambda>(v, rest). (Finite (double v), rest))
                   (if starts_with_word ''0x'' s then scan_number 16 (drop 2 s) else scan_number 10 s)))"

text \<open>The pattern the function builds: literal characters and numbers.\<close>

datatype scan_item = Literal char | Number

fun scan_pattern :: "scan_item list \<Rightarrow> string \<Rightarrow> ieee list" where
  "scan_pattern [] s = []"
| "scan_pattern (Literal c # is) s = (case s of [] \<Rightarrow> [] | d # ds \<Rightarrow> if d = c then scan_pattern is ds else [])"
| "scan_pattern (Number # is) s = (case scan_double s of None \<Rightarrow> [] | Some (v, rest) \<Rightarrow> v # scan_pattern is rest)"

text \<open>
  The components a text has, in the order of the pattern, with their lengths in seconds as \<open>float\<close>s. An
  \<open>M\<close> before the \<open>T\<close> is a month, one after it a minute.
\<close>

definition duration_units :: "string \<Rightarrow> (char \<times> rat) list \<times> (char \<times> rat) list" where
  "duration_units value =
     (let has = (\<lambda>c. c \<in> set value); date = takeWhile (\<lambda>c. c \<noteq> CHR ''T'') value; time = dropWhile (\<lambda>c. c \<noteq> CHR ''T'') value
      in ((if has CHR ''Y'' then [(CHR ''Y'', fp_round 24 31556926)] else []) @
          (if CHR ''M'' \<in> set date then [(CHR ''M'', fp_round 24 2629743.83)] else []) @
          (if has CHR ''D'' then [(CHR ''D'', fp_round 24 86400)] else []),
          (if has CHR ''H'' then [(CHR ''H'', fp_round 24 3600)] else []) @
          (if CHR ''M'' \<in> set time then [(CHR ''M'', fp_round 24 60)] else []) @
          (if has CHR ''S'' then [(CHR ''S'', fp_round 24 1)] else [])))"

definition duration_pattern :: "(char \<times> rat) list \<times> (char \<times> rat) list \<Rightarrow> scan_item list" where
  "duration_pattern units =
     [Literal CHR ''P''] @ concat (map (\<lambda>(c, _). [Number, Literal c]) (fst units)) @
     (if snd units \<noteq> [] then [Literal CHR ''T''] else []) @ concat (map (\<lambda>(c, _). [Number, Literal c]) (snd units))"

text \<open>The sum in milliseconds; a value an \<open>int64_t\<close> cannot hold is undefined.\<close>

fun add_components :: "ieee list \<Rightarrow> rat list \<Rightarrow> int \<Rightarrow> int result" where
  "add_components (Finite v # vs) (m # ms) milliseconds =
     (let total = fp_trunc (double (double (of_int milliseconds) + double (double (v * m) * 1000)))
      in if - (2 ^ 63) \<le> total \<and> total < 2 ^ 63 then add_components vs ms total else Inl Undefined_access)"
| "add_components (_ # vs) (m # ms) milliseconds = Inl Undefined_access"
| "add_components _ _ milliseconds = Inr milliseconds"

definition ParseXsDuration :: "string \<Rightarrow> int result" where
  "ParseXsDuration value =
     (if value = [] \<or> hd value \<noteq> CHR ''P'' then Inr (-1)
      else (let units = duration_units value; multipliers = map snd (fst units @ snd units);
                v = scan_pattern (duration_pattern units) value
            in if multipliers = [] then Inr (-1)
               else if length v \<noteq> length multipliers then Inr (-1)
               else add_components v multipliers 0))"

definition ParseDuration :: "string \<Rightarrow> int \<Rightarrow> xml_reader \<Rightarrow> int result" where
  "ParseDuration name default_value r =
     (case map_of (nd_attributes (rd_current r)) name of Some v \<Rightarrow> ParseXsDuration v | None \<Rightarrow> Inr default_value)"

definition ParseDateTime :: "(string \<Rightarrow> int) \<Rightarrow> string \<Rightarrow> int \<Rightarrow> xml_reader \<Rightarrow> int" where
  "ParseDateTime parse_xs_date_time name default_value r =
     (case map_of (nd_attributes (rd_current r)) name of Some v \<Rightarrow> parse_xs_date_time v | None \<Rightarrow> default_value)"

end
