(* ===== verification/Mpd_Parser.thy ===== *)
theory Mpd_Parser
  imports Xml_Attributes Mime_Types
begin

text \<open>
  The manifest parser (\<open>mpd/dash_manifest_representation_parser.cc\<close>): one function per element, each reading
  on until the reader has left its element.

  A function returns nothing (\<open>None\<close>) when its loop does not end, a fault, \<open>Inr None\<close> for a null result, or
  its value and the reader after it. \<open>LOG(FATAL)\<close> is \<open>Check_failed\<close>; \<open>NOTREACHED\<close> and \<open>DCHECK\<close> are not part of
  the program; log messages are left out. A segment base is passed by value, so an element that replaces
  its parent's segment base after a representation has used it is not visible here. A cast of a segment base to a class it is
  not is \<open>Undefined_access\<close>.
\<close>

section \<open>Reading on\<close>

type_synonym 'a parsed = "('a \<times> xml_reader) option result option"

definition parse_ok :: "'a \<Rightarrow> xml_reader \<Rightarrow> 'a parsed" where
  "parse_ok x r = Some (Inr (Some (x, r)))"

definition parse_null :: "'a parsed" where
  "parse_null = Some (Inr None)"

definition bind_parsed :: "'a parsed \<Rightarrow> ('a \<Rightarrow> xml_reader \<Rightarrow> 'b parsed) \<Rightarrow> 'b parsed" where
  "bind_parsed p f =
     (case p of
        None \<Rightarrow> None
      | Some (Inl e) \<Rightarrow> Some (Inl e)
      | Some (Inr None) \<Rightarrow> Some (Inr None)
      | Some (Inr (Some (x, r))) \<Rightarrow> f x r)"

text \<open>An attribute whose failure makes the function return null, a call that may fault, and one that may not end.\<close>

definition attribute :: "'a option \<times> xml_reader \<Rightarrow> ('a \<Rightarrow> xml_reader \<Rightarrow> 'b parsed) \<Rightarrow> 'b parsed" where
  "attribute p f = (case p of (None, _) \<Rightarrow> parse_null | (Some x, r) \<Rightarrow> f x r)"

definition checked :: "'a result \<Rightarrow> ('a \<Rightarrow> 'b parsed) \<Rightarrow> 'b parsed" where
  "checked x f = (case x of Inl e \<Rightarrow> Some (Inl e) | Inr y \<Rightarrow> f y)"

definition returned :: "'a result option \<Rightarrow> ('a \<Rightarrow> 'b parsed) \<Rightarrow> 'b parsed" where
  "returned x f = (case x of None \<Rightarrow> None | Some y \<Rightarrow> checked y f)"

text \<open>
  The loop that every function has: it reads a node, handles it, and ends after the first node that is not
  deeper than the element, or at the end of the document. The depth is that of the node read, whatever
  the handler has read beyond it.
\<close>

partial_function (option) each_node :: "('s \<Rightarrow> xml_reader \<Rightarrow> 's parsed) \<Rightarrow> int \<Rightarrow> 's \<Rightarrow> xml_reader \<Rightarrow> 's parsed" where
  "each_node handle parent_depth st r =
     (case xmlTextReaderRead r of
        None \<Rightarrow> Some (Inr (Some (st, r)))
      | Some r1 \<Rightarrow>
          Option.bind (handle st r1) (\<lambda>x.
            case x of
              Inl e \<Rightarrow> Some (Inl e)
            | Inr y \<Rightarrow>
                (case y of
                   None \<Rightarrow> Some (Inr None)
                 | Some p \<Rightarrow>
                     if reader_depth r1 > parent_depth then each_node handle parent_depth (fst p) (snd p)
                     else Some (Inr (Some p)))))"

declare each_node.simps [code]

section \<open>Descriptors, base addresses and content types\<close>

text \<open>The \<open>id\<close> attribute is assigned to the scheme.\<close>

definition ParseDescriptorType :: "xml_reader \<Rightarrow> descriptor_type" where
  "ParseDescriptorType r =
     (let attributes = map_of (nd_attributes (rd_current r));
          scheme_id = (case attributes ''schemeIdUri'' of Some v \<Rightarrow> v | None \<Rightarrow> []);
          val = (case attributes ''value'' of Some v \<Rightarrow> v | None \<Rightarrow> [])
      in \<lparr>dt_scheme_id_uri = (case attributes ''id'' of Some v \<Rightarrow> v | None \<Rightarrow> scheme_id), dt_value = val, dt_id = []\<rparr>)"

definition ParseBaseUrl :: "string \<Rightarrow> xml_reader \<Rightarrow> string parsed" where
  "ParseBaseUrl parent_base_url r =
     (let (base_url, r1) = NextText r in returned (Resolve parent_base_url base_url) (\<lambda>u. parse_ok u r1))"

definition ParseContentType :: "xml_reader \<Rightarrow> adaptation_type" where
  "ParseContentType r =
     (let content_type = GetAttributeValue ''contentType'' [] r
      in if content_type = ''audio'' then AUDIO else if content_type = ''video'' then VIDEO
         else if content_type = ''text'' then TEXT else UNKNOWN)"

definition GetContentType :: "representation \<Rightarrow> adaptation_type" where
  "GetContentType rep =
     (let mime_type = fmt_mime_type (rep_format rep); codecs = fmt_codecs (rep_format rep)
      in if mime_type = [] then UNKNOWN
         else if IsVideo mime_type then VIDEO
         else if IsAudio mime_type then AUDIO
         else if IsText mime_type then TEXT
         else if mime_type = ''application/mp4'' \<and> (codecs = ''stpp'' \<or> codecs = ''wvtt'') then TEXT
         else UNKNOWN)"

definition CheckLanguageConsistency :: "string \<Rightarrow> string \<Rightarrow> string" where
  "CheckLanguageConsistency firstLanguage secondLanguage =
     (if firstLanguage = [] then secondLanguage else firstLanguage)"

definition CheckContentTypeConsistency :: "adaptation_type \<Rightarrow> adaptation_type \<Rightarrow> adaptation_type" where
  "CheckContentTypeConsistency firstType secondType = (if firstType = UNKNOWN then secondType else firstType)"

definition kChannelScheme :: string where
  "kChannelScheme = ''urn:mpeg:dash:23003:3:audio_channel_configuration:2011''"

definition ParseAudioChannelConfiguration :: "xml_reader \<Rightarrow> int \<times> xml_reader" where
  "ParseAudioChannelConfiguration r =
     (if ParseString ''schemeIdUri'' [] r = kChannelScheme
      then (case ParseInt ''value'' (-1) r of (Some n, r1) \<Rightarrow> (n, r1) | (None, r1) \<Rightarrow> (-1, r1))
      else (-1, r))"

section \<open>Content protection\<close>

text \<open>
  The local name of a node never contains a colon unless its prefix is undeclared, so the comparison with
  \<open>cenc:pssh\<close> only succeeds then. The UUID is never set.
\<close>

record protection_state =
  ps_seen_pssh_element :: bool
  ps_data :: "scheme_init_data option"

definition protection_node :: "(string \<Rightarrow> byte list) \<Rightarrow> protection_state \<Rightarrow> xml_reader \<Rightarrow> protection_state parsed" where
  "protection_node base64_decode st r =
     (if NodeNameEquals r ''cenc:pssh''
      then (let (base_64, r1) = NextText r
            in parse_ok (st\<lparr>ps_seen_pssh_element := True,
                  ps_data := Some \<lparr>sid_mime_type = ''video/mp4'', sid_data = base64_decode base_64\<rparr>\<rparr>) r1)
      else parse_ok st r)"

definition ParseContentProtection :: "(string \<Rightarrow> byte list) \<Rightarrow> xml_reader \<Rightarrow> content_protection option parsed" where
  "ParseContentProtection base64_decode r =
     (let scheme_id_uri = GetAttributeValue ''schemeIdUri'' [] r; uuid = Uuid_empty
      in bind_parsed (each_node (protection_node base64_decode) (reader_depth r) \<lparr>ps_seen_pssh_element = False, ps_data = None\<rparr> r) (\<lambda>st r1.
           parse_ok (if ps_seen_pssh_element st \<and> uuid_is_empty uuid then None
                     else Some \<lparr>cp_scheme_uri_id = scheme_id_uri, cp_uuid = uuid, cp_data = ps_data st\<rparr>) r1))"

section \<open>Segments\<close>

definition ParseRangedUrl :: "string \<Rightarrow> string \<Rightarrow> string \<Rightarrow> xml_reader \<Rightarrow> ranged_uri parsed" where
  "ParseRangedUrl base_url url_attribute range_attribute r =
     (let urlText = GetAttributeValue url_attribute [] r; range_text = GetAttributeValue range_attribute [] r
      in attribute (if range_text = [] then (Some (0, -1), r) else ParseRange range_text r) (\<lambda>(range_start, range_length) r1.
           parse_ok (RangedUri_new base_url urlText range_start range_length) r1))"

definition ParseInitialization :: "string \<Rightarrow> xml_reader \<Rightarrow> ranged_uri parsed" where
  "ParseInitialization base_url r = ParseRangedUrl base_url ''sourceURL'' ''range'' r"

definition ParseSegmentUrl :: "string \<Rightarrow> xml_reader \<Rightarrow> ranged_uri parsed" where
  "ParseSegmentUrl base_url r = ParseRangedUrl base_url ''media'' ''mediaRange'' r"

definition ParseUrlTemplate :: "string \<Rightarrow> url_template option \<Rightarrow> xml_reader \<Rightarrow> url_template option result" where
  "ParseUrlTemplate name default_value r =
     (let valueString = GetAttributeValue name [] r
      in if valueString \<noteq> [] then and_then (Compile valueString) (\<lambda>t. Inr (Some t)) else Inr default_value)"

text \<open>The segments of one \<open>S\<close> element: \<open>count\<close> of them from \<open>elapsed_time\<close> on.\<close>

fun timeline_run :: "nat \<Rightarrow> int \<Rightarrow> int \<Rightarrow> segment_timeline_element list \<times> int" where
  "timeline_run 0 elapsed_time duration = ([], elapsed_time)"
| "timeline_run (Suc n) elapsed_time duration =
     (let (elems, e) = timeline_run n (narrow64 (elapsed_time + duration)) duration
      in (\<lparr>ste_start_time = elapsed_time, ste_duration = duration\<rparr> # elems, e))"

record timeline_state =
  tl_elements :: "segment_timeline_element list"
  tl_elapsed_time :: int

definition timeline_node :: "timeline_state \<Rightarrow> xml_reader \<Rightarrow> timeline_state parsed" where
  "timeline_node st r =
     (if NodeNameEquals r ''S''
      then attribute (ParseLong ''t'' (tl_elapsed_time st) r) (\<lambda>elapsed_time r1.
           attribute (ParseLong ''d'' (-1) r1) (\<lambda>duration r2.
           attribute (ParseInt ''r'' 0 r2) (\<lambda>r_value r3.
             (let (elems, elapsed) = timeline_run (nat (narrow32 (1 + r_value))) elapsed_time duration
              in parse_ok \<lparr>tl_elements = tl_elements st @ elems, tl_elapsed_time = elapsed\<rparr> r3))))
      else parse_ok st r)"

definition ParseSegmentTimeline :: "xml_reader \<Rightarrow> segment_timeline_element list parsed" where
  "ParseSegmentTimeline r =
     bind_parsed (each_node timeline_node (reader_depth r) \<lparr>tl_elements = [], tl_elapsed_time = 0\<rparr> r) (\<lambda>st r1.
       parse_ok (tl_elements st) r1)"

definition segment_base_node :: "string \<Rightarrow> ranged_uri option \<Rightarrow> xml_reader \<Rightarrow> ranged_uri option parsed" where
  "segment_base_node base_url initialization r =
     (if NodeNameEquals r ''Initialization''
      then bind_parsed (ParseInitialization base_url r) (\<lambda>u r1. parse_ok (Some u) r1)
      else parse_ok initialization r)"

definition ParseSegmentBase :: "string \<Rightarrow> single_segment_base option \<Rightarrow> xml_reader \<Rightarrow> single_segment_base parsed" where
  "ParseSegmentBase base_url parent r =
     attribute (ParseLong ''timescale'' (case parent of Some p \<Rightarrow> sb_timescale p | None \<Rightarrow> 1) r) (\<lambda>timescale r1.
     attribute (ParseLong ''presentationTimeOffset'' (case parent of Some p \<Rightarrow> sb_presentation_time_offset p | None \<Rightarrow> 0) r1)
       (\<lambda>presentation_time_offset r2.
     (let index_range_text = GetAttributeValue ''indexRange'' [] r2
      in attribute (if index_range_text = []
                    then (Some (case parent of Some p \<Rightarrow> (ss_index_start p, ss_index_length p) | None \<Rightarrow> (0, -1)), r2)
                    else ParseRange index_range_text r2) (\<lambda>(index_start, index_length) r3.
         bind_parsed (each_node (segment_base_node base_url) (reader_depth r3)
                        (case parent of Some p \<Rightarrow> GetInitializationUri p | None \<Rightarrow> None) r3) (\<lambda>initialization r4.
           parse_ok \<lparr>sb_base_url = base_url, sb_initialization = initialization, sb_timescale = timescale,
                     sb_presentation_time_offset = presentation_time_offset,
                     ss_index_start = index_start, ss_index_length = index_length\<rparr> r4)))))"

text \<open>The attributes a segment list and a segment template share.\<close>

definition multi_attributes ::
  "multi_segment_base option \<Rightarrow> xml_reader \<Rightarrow> (int \<times> int \<times> int \<times> int) parsed" where
  "multi_attributes parent r =
     attribute (ParseLong ''timescale'' (case parent of Some p \<Rightarrow> sb_timescale p | None \<Rightarrow> 1) r) (\<lambda>timescale r1.
     attribute (ParseLong ''presentationTimeOffset'' (case parent of Some p \<Rightarrow> sb_presentation_time_offset p | None \<Rightarrow> 0) r1)
       (\<lambda>presentation_time_offset r2.
     attribute (ParseLong ''duration'' (case parent of Some p \<Rightarrow> ms_duration p | None \<Rightarrow> -1) r2) (\<lambda>duration r3.
     attribute (ParseInt ''startNumber'' (case parent of Some p \<Rightarrow> ms_start_number p | None \<Rightarrow> 1) r3) (\<lambda>start_number r4.
       parse_ok (timescale, presentation_time_offset, duration, start_number) r4))))"

record multi_state =
  mu_initialization :: "ranged_uri option"
  mu_timeline :: "segment_timeline_element list option"
  mu_segments :: "ranged_uri list option"

definition multi_state_new :: multi_state where
  "multi_state_new = \<lparr>mu_initialization = None, mu_timeline = None, mu_segments = None\<rparr>"

definition template_node :: "string \<Rightarrow> multi_state \<Rightarrow> xml_reader \<Rightarrow> multi_state parsed" where
  "template_node base_url st r =
     (if NodeNameEquals r ''Initialization''
      then bind_parsed (ParseInitialization base_url r) (\<lambda>u r1. parse_ok (st\<lparr>mu_initialization := Some u\<rparr>) r1)
      else if NodeNameEquals r ''SegmentTimeline''
      then bind_parsed (ParseSegmentTimeline r) (\<lambda>elems r1. parse_ok (st\<lparr>mu_timeline := Some elems\<rparr>) r1)
      else parse_ok st r)"

definition list_node :: "string \<Rightarrow> multi_state \<Rightarrow> xml_reader \<Rightarrow> multi_state parsed" where
  "list_node base_url st r =
     (if NodeNameEquals r ''Initialization'' \<or> NodeNameEquals r ''SegmentTimeline'' then template_node base_url st r
      else if NodeNameEquals r ''SegmentURL''
      then bind_parsed (ParseSegmentUrl base_url r) (\<lambda>u r1.
             parse_ok (st\<lparr>mu_segments := Some ((case mu_segments st of None \<Rightarrow> [] | Some us \<Rightarrow> us) @ [u])\<rparr>) r1)
      else parse_ok st r)"

text \<open>An element without an initialization inherits that of its parent.\<close>

definition multi_base_of ::
  "string \<Rightarrow> multi_segment option \<Rightarrow> int \<times> int \<times> int \<times> int \<Rightarrow> multi_state \<Rightarrow> multi_segment_base" where
  "multi_base_of base_url parent attributes st =
     (case attributes of (timescale, presentation_time_offset, duration, start_number) \<Rightarrow>
        \<lparr>sb_base_url = base_url,
         sb_initialization =
           (case (mu_initialization st, parent) of
              (None, Some p) \<Rightarrow> GetInitializationUri (multi_base p)
            | (u, _) \<Rightarrow> u),
         sb_timescale = timescale, sb_presentation_time_offset = presentation_time_offset,
         ms_start_number = start_number, ms_duration = duration, ms_segment_timeline = mu_timeline st\<rparr>)"

definition ParseSegmentList :: "string \<Rightarrow> multi_segment option \<Rightarrow> xml_reader \<Rightarrow> multi_segment parsed" where
  "ParseSegmentList base_url parent r =
     bind_parsed (multi_attributes (map_option multi_base parent) r) (\<lambda>attributes r1.
     bind_parsed (each_node (list_node base_url) (reader_depth r1) multi_state_new r1) (\<lambda>st r2.
       parse_ok (SegmentList_new (multi_base_of base_url parent attributes st) (mu_segments st) parent) r2))"

fun media_template_of :: "multi_segment option \<Rightarrow> url_template option" where
  "media_template_of (Some (Segment_Template b i m p)) = m"
| "media_template_of _ = None"

fun initialization_template_of :: "multi_segment option \<Rightarrow> url_template option" where
  "initialization_template_of (Some (Segment_Template b i m p)) = i"
| "initialization_template_of _ = None"

definition ParseSegmentTemplate :: "string \<Rightarrow> multi_segment option \<Rightarrow> xml_reader \<Rightarrow> multi_segment parsed" where
  "ParseSegmentTemplate base_url parent r =
     bind_parsed (multi_attributes (map_option multi_base parent) r) (\<lambda>attributes r1.
     checked (ParseUrlTemplate ''media'' (media_template_of parent) r1) (\<lambda>media_template.
     checked (ParseUrlTemplate ''initialization'' (initialization_template_of parent) r1) (\<lambda>initialization_template.
     bind_parsed (each_node (template_node base_url) (reader_depth r1) multi_state_new r1) (\<lambda>st r2.
       parse_ok (Segment_Template (multi_base_of base_url parent attributes st) initialization_template media_template parent) r2))))"

text \<open>The casts of the enclosing element's segment base.\<close>

fun as_single :: "segment_base_ref option \<Rightarrow> single_segment_base option result" where
  "as_single None = Inr None"
| "as_single (Some (Single_Base b)) = Inr (Some b)"
| "as_single (Some (Multi_Base s)) = Inl Undefined_access"

fun as_list :: "segment_base_ref option \<Rightarrow> multi_segment option result" where
  "as_list None = Inr None"
| "as_list (Some (Multi_Base (Segment_List b m p))) = Inr (Some (Segment_List b m p))"
| "as_list (Some _) = Inl Undefined_access"

fun as_template :: "segment_base_ref option \<Rightarrow> multi_segment option result" where
  "as_template None = Inr None"
| "as_template (Some (Multi_Base (Segment_Template b i m p))) = Inr (Some (Segment_Template b i m p))"
| "as_template (Some _) = Inl Undefined_access"

text \<open>The three kinds of segment base, as a period, an adaptation set and a representation handle them.\<close>

definition is_segment_element :: "xml_reader \<Rightarrow> bool" where
  "is_segment_element r \<longleftrightarrow>
     NodeNameEquals r ''SegmentBase'' \<or> NodeNameEquals r ''SegmentList'' \<or> NodeNameEquals r ''SegmentTemplate''"

definition parse_segment_element :: "string \<Rightarrow> segment_base_ref option \<Rightarrow> xml_reader \<Rightarrow> segment_base_ref parsed" where
  "parse_segment_element base_url parent r =
     (if NodeNameEquals r ''SegmentBase''
      then checked (as_single parent) (\<lambda>p. bind_parsed (ParseSegmentBase base_url p r) (\<lambda>b r1. parse_ok (Single_Base b) r1))
      else if NodeNameEquals r ''SegmentList''
      then checked (as_list parent) (\<lambda>p. bind_parsed (ParseSegmentList base_url p r) (\<lambda>s r1. parse_ok (Multi_Base s) r1))
      else checked (as_template parent) (\<lambda>p. bind_parsed (ParseSegmentTemplate base_url p r) (\<lambda>s r1. parse_ok (Multi_Base s) r1)))"

section \<open>Representations\<close>

text \<open>What a representation inherits from its adaptation set.\<close>

record inherited =
  in_mime_type :: string
  in_codecs :: string
  in_width :: int
  in_height :: int
  in_frame_rate :: ieee
  in_max_playout_rate :: int
  in_audio_channels :: int
  in_audio_sampling_rate :: int
  in_language :: string

definition BuildFormat ::
  "string \<Rightarrow> string \<Rightarrow> int \<Rightarrow> int \<Rightarrow> ieee \<Rightarrow> int \<Rightarrow> int \<Rightarrow> int \<Rightarrow> int \<Rightarrow> string \<Rightarrow> string \<Rightarrow> format" where
  "BuildFormat fid mime_type width height frame_rate max_playout_rate audio_channels audio_sampling_rate bandwidth language codecs =
     \<lparr>fmt_id = fid, fmt_mime_type = mime_type, fmt_width = width, fmt_height = height, fmt_frame_rate = to_single frame_rate,
      fmt_max_playout_rate = max_playout_rate, fmt_audio_channels = audio_channels,
      fmt_audio_sampling_rate = audio_sampling_rate, fmt_bitrate = bandwidth, fmt_language = language,
      fmt_codecs = (if IsAudio mime_type \<and> codecs = ''eac3'' then ''ec-3'' else codecs)\<rparr>"

record representation_state =
  rs_base_url_override :: string
  rs_seen_first_base_Url :: bool
  rs_supplemental_properties :: "descriptor_type list"
  rs_essential_properties :: "descriptor_type list"
  rs_audio_channels :: int
  rs_segment_base :: "segment_base_ref option"
  rs_builder :: content_protections_builder

text \<open>A protection of the representation is added to those of the adaptation set.\<close>

definition representation_node :: "(string \<Rightarrow> byte list) \<Rightarrow> representation_state \<Rightarrow> xml_reader \<Rightarrow> representation_state parsed" where
  "representation_node base64_decode st r =
     (if NodeNameEquals r ''BaseURL''
      then (if rs_seen_first_base_Url st then parse_ok st r
            else bind_parsed (ParseBaseUrl (rs_base_url_override st) r) (\<lambda>u r1.
                   parse_ok (st\<lparr>rs_base_url_override := u, rs_seen_first_base_Url := True\<rparr>) r1))
      else if CurrentNodeNameEquals r ''SupplementalProperty''
      then parse_ok (st\<lparr>rs_supplemental_properties := rs_supplemental_properties st @ [ParseDescriptorType r]\<rparr>) r
      else if CurrentNodeNameEquals r ''EssentialProperty''
      then parse_ok (st\<lparr>rs_essential_properties := rs_essential_properties st @ [ParseDescriptorType r]\<rparr>) r
      else if NodeNameEquals r ''AudioChannelConfiguration''
      then (let (n, r1) = ParseAudioChannelConfiguration r in parse_ok (st\<lparr>rs_audio_channels := n\<rparr>) r1)
      else if is_segment_element r
      then bind_parsed (parse_segment_element (rs_base_url_override st) (rs_segment_base st) r) (\<lambda>sb r1.
             parse_ok (st\<lparr>rs_segment_base := Some sb\<rparr>) r1)
      else if NodeNameEquals r ''ContentProtection''
      then bind_parsed (ParseContentProtection base64_decode r) (\<lambda>protection r1.
             parse_ok (case protection of
                         None \<Rightarrow> st
                       | Some cp \<Rightarrow> st\<lparr>rs_builder := fst (AddAdaptationSetProtection (rs_builder st) cp)\<rparr>) r1)
      else parse_ok st r)"

definition ParseRepresentation ::
  "(string \<Rightarrow> byte list) \<Rightarrow> string \<Rightarrow> string \<Rightarrow> inherited \<Rightarrow> segment_base_ref option \<Rightarrow> content_protections_builder \<Rightarrow> xml_reader \<Rightarrow>
   (representation \<times> content_protections_builder) parsed" where
  "ParseRepresentation base64_decode content_id base_url i segment_base builder r =
     (let rid = GetAttributeValue ''id'' [] r
      in attribute (ParseInt ''bandwidth'' (-1) r) (\<lambda>bandwidth r1.
     (let mime_type = GetAttributeValue ''mimeType'' (in_mime_type i) r1; codecs = GetAttributeValue ''codecs'' (in_codecs i) r1
      in attribute (ParseInt ''width'' (in_width i) r1) (\<lambda>width r2.
         attribute (ParseInt ''height'' (in_height i) r2) (\<lambda>height r3.
         attribute (ParseFrameRate (to_single (in_frame_rate i)) r3) (\<lambda>frame_rate r4.
         attribute (ParseInt ''maxPlayoutRate'' (in_max_playout_rate i) r4) (\<lambda>max_playout_rate r5.
         attribute (ParseInt ''audioSamplingRate'' (in_audio_sampling_rate i) r5) (\<lambda>audio_sampling_rate r6.
         bind_parsed (each_node (representation_node base64_decode) (reader_depth r6)
             \<lparr>rs_base_url_override = base_url, rs_seen_first_base_Url = False, rs_supplemental_properties = [],
              rs_essential_properties = [], rs_audio_channels = in_audio_channels i, rs_segment_base = segment_base,
              rs_builder = builder\<rparr> r6) (\<lambda>st r7.
           (let f = BuildFormat rid mime_type width height frame_rate max_playout_rate (rs_audio_channels st)
                      audio_sampling_rate bandwidth (in_language i) codecs;
                sb = (case rs_segment_base st of Some b \<Rightarrow> b | None \<Rightarrow> Single_Base (SingleSegmentBase_new (rs_base_url_override st)))
            in checked (Representation_NewInstance content_id (-1) f sb [] (Some (rs_supplemental_properties st))
                          (Some (rs_essential_properties st))) (\<lambda>rep.
                 parse_ok (rep, rs_builder st) r7)))))))))))"

section \<open>Adaptation sets\<close>

record set_state =
  st_base_url_override :: string
  st_seen_first_base_Url :: bool
  st_supplemental_properties :: "descriptor_type list"
  st_essential_properties :: "descriptor_type list"
  st_builder :: content_protections_builder
  st_language :: string
  st_content_type :: adaptation_type
  st_representations :: "representation list"
  st_audio_channels :: int
  st_segment_base :: "segment_base_ref option"

definition set_representation ::
  "(string \<Rightarrow> byte list) \<Rightarrow> string \<Rightarrow> inherited \<Rightarrow> set_state \<Rightarrow> xml_reader \<Rightarrow> set_state parsed" where
  "set_representation base64_decode content_id i st r =
     bind_parsed (ParseRepresentation base64_decode content_id (st_base_url_override st)
         (i\<lparr>in_audio_channels := st_audio_channels st, in_language := st_language st\<rparr>) (st_segment_base st) (st_builder st) r)
       (\<lambda>(rep, builder) r1.
         checked (EndRepresentation builder) (\<lambda>(builder', _).
           parse_ok (st\<lparr>st_builder := builder',
               st_content_type := CheckContentTypeConsistency (st_content_type st) (GetContentType rep),
               st_representations := st_representations st @ [rep]\<rparr>) r1))"

definition set_node ::
  "(string \<Rightarrow> byte list) \<Rightarrow> string \<Rightarrow> inherited \<Rightarrow> set_state \<Rightarrow> xml_reader \<Rightarrow> set_state parsed" where
  "set_node base64_decode content_id i st r =
     (if NodeNameEquals r ''BaseURL''
      then (if st_seen_first_base_Url st then parse_ok st r
            else bind_parsed (ParseBaseUrl (st_base_url_override st) r) (\<lambda>u r1.
                   parse_ok (st\<lparr>st_base_url_override := u, st_seen_first_base_Url := True\<rparr>) r1))
      else if CurrentNodeNameEquals r ''SupplementalProperty''
      then parse_ok (st\<lparr>st_supplemental_properties := st_supplemental_properties st @ [ParseDescriptorType r]\<rparr>) r
      else if CurrentNodeNameEquals r ''EssentialProperty''
      then parse_ok (st\<lparr>st_essential_properties := st_essential_properties st @ [ParseDescriptorType r]\<rparr>) r
      else if NodeNameEquals r ''ContentProtection''
      then bind_parsed (ParseContentProtection base64_decode r) (\<lambda>protection r1.
             parse_ok (case protection of
                         None \<Rightarrow> st
                       | Some cp \<Rightarrow> st\<lparr>st_builder := fst (AddAdaptationSetProtection (st_builder st) cp)\<rparr>) r1)
      else if NodeNameEquals r ''ContentComponent''
      then parse_ok (st\<lparr>st_language := CheckLanguageConsistency (st_language st) (GetAttributeValue ''lang'' [] r),
                        st_content_type := CheckContentTypeConsistency (st_content_type st) (ParseContentType r)\<rparr>) r
      else if NodeNameEquals r ''Representation'' then set_representation base64_decode content_id i st r
      else if NodeNameEquals r ''AudioChannelConfiguration''
      then (let (n, r1) = ParseAudioChannelConfiguration r in parse_ok (st\<lparr>st_audio_channels := n\<rparr>) r1)
      else if is_segment_element r
      then bind_parsed (parse_segment_element (st_base_url_override st) (st_segment_base st) r) (\<lambda>sb r1.
             parse_ok (st\<lparr>st_segment_base := Some sb\<rparr>) r1)
      else parse_ok st r)"

definition ParseAdaptationSet ::
  "(string \<Rightarrow> byte list) \<Rightarrow> string \<Rightarrow> string \<Rightarrow> segment_base_ref option \<Rightarrow> xml_reader \<Rightarrow> adaptation_set parsed" where
  "ParseAdaptationSet base64_decode content_id base_url segment_base r =
     attribute (ParseInt ''id'' (-1) r) (\<lambda>sid r1.
     (let content_type = ParseContentType r1; mime_type = GetAttributeValue ''mimeType'' [] r1; codecs = GetAttributeValue ''codecs'' [] r1
      in attribute (ParseInt ''width'' (-1) r1) (\<lambda>width r2.
         attribute (ParseInt ''height'' (-1) r2) (\<lambda>height r3.
         attribute (ParseFrameRate (Finite (-1)) r3) (\<lambda>frame_rate r4.
         attribute (ParseInt ''maxPlayoutRate'' 1 r4) (\<lambda>max_playout_rate r5.
         attribute (ParseInt ''audioSamplingRate'' (-1) r5) (\<lambda>audio_sampling_rate r6.
         (let i = \<lparr>in_mime_type = mime_type, in_codecs = codecs, in_width = width, in_height = height, in_frame_rate = frame_rate,
                   in_max_playout_rate = max_playout_rate, in_audio_channels = -1,
                   in_audio_sampling_rate = audio_sampling_rate, in_language = []\<rparr>
          in bind_parsed (each_node (set_node base64_decode content_id i) (reader_depth r6)
               \<lparr>st_base_url_override = base_url, st_seen_first_base_Url = False, st_supplemental_properties = [],
                st_essential_properties = [], st_builder = ContentProtectionsBuilder_new,
                st_language = GetAttributeValue ''lang'' [] r6, st_content_type = content_type, st_representations = [],
                st_audio_channels = -1, st_segment_base = segment_base\<rparr> r6) (\<lambda>st r7.
             parse_ok \<lparr>as_id = sid, as_type = st_content_type st, as_representations = st_representations st,
                       as_content_protections = (case Build (st_builder st) of None \<Rightarrow> [] | Some l \<Rightarrow> l),
                       as_supplemental_properties = st_supplemental_properties st,
                       as_essential_properties = st_essential_properties st\<rparr> r7)))))))))"

section \<open>Periods and the presentation\<close>

record period_state =
  pe_base_url_override :: string
  pe_seen_first_base_url :: bool
  pe_segment_base :: "segment_base_ref option"
  pe_adaptation_sets :: "adaptation_set list"
  pe_supplemental_properties :: "descriptor_type list"

definition period_node :: "(string \<Rightarrow> byte list) \<Rightarrow> string \<Rightarrow> period_state \<Rightarrow> xml_reader \<Rightarrow> period_state parsed" where
  "period_node base64_decode content_id st r =
     (if NodeNameEquals r ''BaseURL''
      then (if pe_seen_first_base_url st then parse_ok st r
            else bind_parsed (ParseBaseUrl (pe_base_url_override st) r) (\<lambda>u r1.
                   parse_ok (st\<lparr>pe_base_url_override := u, pe_seen_first_base_url := True\<rparr>) r1))
      else if CurrentNodeNameEquals r ''SupplementalProperty''
      then parse_ok (st\<lparr>pe_supplemental_properties := pe_supplemental_properties st @ [ParseDescriptorType r]\<rparr>) r
      else if NodeNameEquals r ''AdaptationSet''
      then bind_parsed (ParseAdaptationSet base64_decode content_id (pe_base_url_override st) (pe_segment_base st) r) (\<lambda>a r1.
             parse_ok (st\<lparr>pe_adaptation_sets := pe_adaptation_sets st @ [a]\<rparr>) r1)
      else if is_segment_element r
      then bind_parsed (parse_segment_element (pe_base_url_override st) None r) (\<lambda>sb r1.
             parse_ok (st\<lparr>pe_segment_base := Some sb\<rparr>) r1)
      else parse_ok st r)"

text \<open>The period and its duration. The start is stored in an unsigned integer.\<close>

definition ParsePeriod :: "(string \<Rightarrow> byte list) \<Rightarrow> string \<Rightarrow> string \<Rightarrow> int \<Rightarrow> xml_reader \<Rightarrow> (period \<times> int) parsed" where
  "ParsePeriod base64_decode content_id base_url default_start_ms r =
     checked (ParseDuration ''start'' default_start_ms r) (\<lambda>start_ms.
     checked (ParseDuration ''duration'' (-1) r) (\<lambda>duration_ms.
     bind_parsed (each_node (period_node base64_decode content_id) (reader_depth r)
         \<lparr>pe_base_url_override = base_url, pe_seen_first_base_url = False, pe_segment_base = None, pe_adaptation_sets = [],
          pe_supplemental_properties = []\<rparr> r) (\<lambda>st r1.
       parse_ok (\<lparr>pd_id = GetAttributeValue ''id'' [] r, pd_start_ms = wrap64 start_ms,
                  pd_supplemental_properties = pe_supplemental_properties st,
                  pd_adaptation_sets = pe_adaptation_sets st\<rparr>, duration_ms) r1)))"

record mpd_state =
  mp_base_url_override :: string
  mp_seen_first_base_Url :: bool
  mp_supplemental_properties :: "descriptor_type list"
  mp_essential_properties :: "descriptor_type list"
  mp_utc_timing :: "descriptor_type option"
  mp_location :: string
  mp_periods :: "period list"
  mp_next_period_start_ms :: int
  mp_seen_early_access_period :: bool

text \<open>A period that cannot be parsed ends the program, and so does one without a start in a static presentation.\<close>

definition add_period :: "bool \<Rightarrow> mpd_state \<Rightarrow> period \<times> int \<Rightarrow> mpd_state result" where
  "add_period dynamic st p =
     (if pd_start_ms (fst p) = wrap64 (-1)
      then (if dynamic then Inr (st\<lparr>mp_seen_early_access_period := True\<rparr>) else Inl Check_failed)
      else Inr (st\<lparr>mp_next_period_start_ms := (if snd p = -1 then -1 else narrow64 (pd_start_ms (fst p) + snd p)),
                   mp_periods := mp_periods st @ [fst p]\<rparr>))"

definition mpd_node :: "(string \<Rightarrow> byte list) \<Rightarrow> string \<Rightarrow> bool \<Rightarrow> mpd_state \<Rightarrow> xml_reader \<Rightarrow> mpd_state parsed" where
  "mpd_node base64_decode content_id dynamic st r =
     (if CurrentNodeNameEquals r ''BaseURL''
      then (if mp_seen_first_base_Url st then parse_ok st r
            else bind_parsed (ParseBaseUrl (mp_base_url_override st) r) (\<lambda>u r1.
                   parse_ok (st\<lparr>mp_base_url_override := u, mp_seen_first_base_Url := True\<rparr>) r1))
      else if CurrentNodeNameEquals r ''SupplementalProperty''
      then parse_ok (st\<lparr>mp_supplemental_properties := mp_supplemental_properties st @ [ParseDescriptorType r]\<rparr>) r
      else if CurrentNodeNameEquals r ''EssentialProperty''
      then parse_ok (st\<lparr>mp_essential_properties := mp_essential_properties st @ [ParseDescriptorType r]\<rparr>) r
      else if CurrentNodeNameEquals r ''UTCTiming''
      then parse_ok (st\<lparr>mp_utc_timing := Some (ParseDescriptorType r)\<rparr>) r
      else if CurrentNodeNameEquals r ''Location''
      then (let (t, r1) = NextText r in parse_ok (st\<lparr>mp_location := t\<rparr>) r1)
      else if CurrentNodeNameEquals r ''Period'' \<and> \<not> mp_seen_early_access_period st
      then (case ParsePeriod base64_decode content_id (mp_base_url_override st) (mp_next_period_start_ms st) r of
              Some (Inr None) \<Rightarrow> Some (Inl Check_failed)
            | p \<Rightarrow> bind_parsed p (\<lambda>x r1. checked (add_period dynamic st x) (\<lambda>st'. parse_ok st' r1)))
      else parse_ok st r)"

definition ParseMediaPresentationDescription ::
  "(string \<Rightarrow> byte list) \<Rightarrow> (string \<Rightarrow> int) \<Rightarrow> string \<Rightarrow> string \<Rightarrow> xml_reader \<Rightarrow> presentation parsed" where
  "ParseMediaPresentationDescription base64_decode parse_xs_date_time content_id base_url r =
     (let availability_start_time = ParseDateTime parse_xs_date_time ''availabilityStartTime'' (-1) r;
          dynamic = (map_of (nd_attributes (rd_current r)) ''type'' = Some ''dynamic'')
      in checked (ParseDuration ''mediaPresentationDuration'' (-1) r) (\<lambda>duration_ms.
         checked (ParseDuration ''minBufferTime'' (-1) r) (\<lambda>min_buffer_time_ms.
         checked (if dynamic then ParseDuration ''minimumUpdatePeriod'' (-1) r else Inr (-1)) (\<lambda>min_update_time_ms.
         checked (if dynamic then ParseDuration ''timeShiftBufferDepth'' (-1) r else Inr (-1)) (\<lambda>time_shift_buffer_depth_ms.
         bind_parsed (each_node (mpd_node base64_decode content_id dynamic) (reader_depth r)
             \<lparr>mp_base_url_override = base_url, mp_seen_first_base_Url = False, mp_supplemental_properties = [],
              mp_essential_properties = [], mp_utc_timing = None, mp_location = [], mp_periods = [],
              mp_next_period_start_ms = (if dynamic then -1 else 0), mp_seen_early_access_period = False\<rparr> r) (\<lambda>st r1.
           (let duration = (if duration_ms = -1 \<and> mp_next_period_start_ms st \<noteq> -1 then mp_next_period_start_ms st else duration_ms)
            in if duration_ms = -1 \<and> mp_next_period_start_ms st = -1 \<and> \<not> dynamic then parse_null
               else if mp_periods st = [] then parse_null
               else parse_ok \<lparr>mpd_availability_start_time = availability_start_time, mpd_duration = duration,
                      mpd_min_buffer_time = min_buffer_time_ms, mpd_dynamic = dynamic,
                      mpd_min_update_period = min_update_time_ms, mpd_time_shift_buffer_depth = time_shift_buffer_depth_ms,
                      mpd_utc_timing = mp_utc_timing st, mpd_location = mp_location st,
                      mpd_supplemental_properties = mp_supplemental_properties st,
                      mpd_essential_properties = mp_essential_properties st, mpd_periods = mp_periods st\<rparr> r1)))))))"

text \<open>\<open>read_xml\<close> gives the nodes libxml2 delivers for a document at an address.\<close>

definition MPD_Parse ::
  "(string \<Rightarrow> string \<Rightarrow> xml_node list) \<Rightarrow> (string \<Rightarrow> byte list) \<Rightarrow> (string \<Rightarrow> int) \<Rightarrow> string \<Rightarrow> bool \<Rightarrow> string \<Rightarrow> string \<Rightarrow>
   presentation option result option" where
  "MPD_Parse read_xml base64_decode parse_xs_date_time content_id erange connection_url xml =
     (case read_xml connection_url xml of
        [] \<Rightarrow> Some (Inr None)
      | n # ns \<Rightarrow>
          (let r = \<lparr>rd_current = n, rd_rest = ns, rd_erange = erange\<rparr>
           in if CurrentNodeNameEquals r ''MPD''
              then map_option (\<lambda>x. and_then x (\<lambda>y. Inr (map_option fst y)))
                     (ParseMediaPresentationDescription base64_decode parse_xs_date_time content_id connection_url r)
              else Some (Inr None)))"

end
