(* ===== verification/Track_Renderer.thy ===== *)
theory Track_Renderer
  imports Chunk_Sample_Source
begin

text \<open>
  Track renderers (\<open>track_renderer.cc\<close>, \<open>sample_source_track_renderer.cc\<close>): the life cycle of a track on top of
  the reader of a sample source. The reader (\<open>sample_source_reader.h\<close>) is a record of operations on a state
  \<open>'w\<close>, since the sources of a player share their load control and their allocator; \<open>chunk_reader\<close> is the
  reader the program uses. An operation returns nothing when it does not end, a fault, or its result and
  the new state. The state checks of \<open>TrackRenderer\<close> are \<open>DCHECK\<close>s, so they are not branches of the model.
\<close>

section \<open>The reader\<close>

record ('w, 'f, 'd) reader_ops =
  ro_prepare :: "int \<Rightarrow> 'w \<Rightarrow> (bool \<times> 'w) result option"
  ro_get_duration_us :: "'w \<Rightarrow> int"
  ro_enable :: "track_criteria \<Rightarrow> int \<Rightarrow> 'w \<Rightarrow> 'w result option"
  ro_continue_buffering :: "int \<Rightarrow> 'w \<Rightarrow> (bool \<times> 'w) result option"
  ro_read_discontinuity :: "'w \<Rightarrow> int \<times> 'w"
  ro_read_data :: "int \<Rightarrow> ('f, 'd) media_format_holder \<Rightarrow> sample_holder \<Rightarrow> 'w \<Rightarrow>
     (read_result \<times> ('f, 'd) media_format_holder \<times> sample_holder \<times> 'w) result option"
  ro_seek_to_us :: "int \<Rightarrow> 'w \<Rightarrow> 'w result option"
  ro_get_buffered_position_us :: "'w \<Rightarrow> int"
  ro_can_continue_buffering :: "'w \<Rightarrow> bool"
  ro_disable :: "bool \<Rightarrow> 'w \<Rightarrow> 'w result option"
  ro_release :: "'w \<Rightarrow> 'w result option"

definition chunk_reader ::
  "'s chunk_source_ops \<Rightarrow> ('f, 'd) source_env \<Rightarrow> (('s, 'f) chunk_sample_source, 'f, 'd) reader_ops" where
  "chunk_reader ops env =
     \<lparr>ro_prepare = (\<lambda>position_us c. Some (Inr (ChunkSampleSource_Prepare ops c))),
      ro_get_duration_us = ChunkSampleSource_GetDurationUs ops,
      ro_enable = (\<lambda>criteria position_us c. Some (ChunkSampleSource_Enable ops env criteria position_us c)),
      ro_continue_buffering = ChunkSampleSource_ContinueBuffering ops env,
      ro_read_discontinuity = ReadDiscontinuity,
      ro_read_data = ChunkSampleSource_ReadData env,
      ro_seek_to_us = ChunkSampleSource_SeekToUs ops env,
      ro_get_buffered_position_us = GetBufferedPositionUs,
      ro_can_continue_buffering = ChunkSampleSource_CanContinueBuffering ops,
      ro_disable = (\<lambda>has_callback c. Some (ChunkSampleSource_Disable has_callback c)),
      ro_release = (\<lambda>c. Some (ChunkSampleSource_Release c))\<rparr>"

section \<open>The renderer\<close>

datatype renderer_state = RELEASED | UNPREPARED | PREPARED | ENABLED | STARTED

definition kMatchLongestUs :: int where "kMatchLongestUs = -2"

text \<open>The callback of a disable in progress is of type \<open>'c\<close>; its owner runs it.\<close>

record 'c track_renderer =
  tr_state :: renderer_state
  tr_disable_done_callback :: "'c option"
  tr_source_is_enabled :: bool
  tr_source_is_ready :: bool
  tr_duration_us :: int

definition TrackRenderer_new :: "'c track_renderer" where
  "TrackRenderer_new =
     \<lparr>tr_state = UNPREPARED, tr_disable_done_callback = None, tr_source_is_enabled = False,
      tr_source_is_ready = False, tr_duration_us = 0\<rparr>"

definition DoPrepare ::
  "('w, 'f, 'd) reader_ops \<Rightarrow> int \<Rightarrow> 'c track_renderer \<times> 'w \<Rightarrow> (bool \<times> 'c track_renderer \<times> 'w) result option" where
  "DoPrepare rd position_us s =
     (case s of (r, w) \<Rightarrow>
        and_then_opt (ro_prepare rd position_us w) (\<lambda>(ok, w1).
          if \<not> ok then Some (Inr (False, r, w1))
          else (let duration_us = ro_get_duration_us rd w1
                in Some (Inr (True, r\<lparr>tr_duration_us := (if duration_us = kMatchLongestUs then kUnknownTimeUs else duration_us)\<rparr>, w1)))))"

definition Renderer_Prepare ::
  "('w, 'f, 'd) reader_ops \<Rightarrow> int \<Rightarrow> 'c track_renderer \<times> 'w \<Rightarrow> (bool \<times> 'c track_renderer \<times> 'w) result option" where
  "Renderer_Prepare rd position_us s =
     and_then_opt (DoPrepare rd position_us s) (\<lambda>(ok, r, w).
       Some (Inr (ok, r\<lparr>tr_state := (if ok then PREPARED else UNPREPARED)\<rparr>, w)))"

definition OnDiscontinuity :: "int \<Rightarrow> bool" where
  "OnDiscontinuity position_us = True"

definition OnEnabled ::
  "('w, 'f, 'd) reader_ops \<Rightarrow> track_criteria \<Rightarrow> int \<Rightarrow> 'c track_renderer \<times> 'w \<Rightarrow> (bool \<times> 'c track_renderer \<times> 'w) result option" where
  "OnEnabled rd criteria position_us s =
     (case s of (r, w) \<Rightarrow>
        and_then_opt (ro_enable rd criteria position_us w) (\<lambda>w1.
          Some (Inr (OnDiscontinuity position_us, r\<lparr>tr_source_is_enabled := True\<rparr>, w1))))"

definition Renderer_Enable ::
  "('w, 'f, 'd) reader_ops \<Rightarrow> track_criteria option \<Rightarrow> int \<Rightarrow> 'c track_renderer \<times> 'w \<Rightarrow>
   (bool \<times> 'c track_renderer \<times> 'w) result option" where
  "Renderer_Enable rd criteria position_us s =
     (case criteria of
        None \<Rightarrow> Some (Inl Check_failed)
      | Some tc \<Rightarrow> OnEnabled rd tc position_us ((fst s)\<lparr>tr_state := ENABLED\<rparr>, snd s))"

definition Renderer_Start :: "'c track_renderer \<Rightarrow> 'c track_renderer" where
  "Renderer_Start r = r\<lparr>tr_state := STARTED\<rparr>"

definition Renderer_Stop :: "'c track_renderer \<Rightarrow> 'c track_renderer" where
  "Renderer_Stop r = r\<lparr>tr_state := ENABLED\<rparr>"

definition OnDisabled ::
  "('w, 'f, 'd) reader_ops \<Rightarrow> 'c option \<Rightarrow> 'c track_renderer \<times> 'w \<Rightarrow> ('c track_renderer \<times> 'w) result option" where
  "OnDisabled rd disable_done_callback s =
     (case s of (r, w) \<Rightarrow>
        and_then_opt (ro_disable rd True w) (\<lambda>w1.
          Some (Inr (r\<lparr>tr_disable_done_callback :=
                         (case disable_done_callback of Some cb \<Rightarrow> Some cb | None \<Rightarrow> tr_disable_done_callback r),
                       tr_source_is_enabled := False\<rparr>, w1))))"

definition Renderer_Disable ::
  "('w, 'f, 'd) reader_ops \<Rightarrow> 'c option \<Rightarrow> 'c track_renderer \<times> 'w \<Rightarrow> ('c track_renderer \<times> 'w) result option" where
  "Renderer_Disable rd disable_done_callback s =
     OnDisabled rd disable_done_callback ((fst s)\<lparr>tr_state := PREPARED\<rparr>, snd s)"

text \<open>\<open>DisableDone\<close> runs the callback, if there is one, and then resets it.\<close>

definition DisableDone :: "'c track_renderer \<Rightarrow> 'c option \<times> 'c track_renderer" where
  "DisableDone r = (tr_disable_done_callback r, r\<lparr>tr_disable_done_callback := None\<rparr>)"

definition Renderer_Release ::
  "('w, 'f, 'd) reader_ops \<Rightarrow> 'c track_renderer \<times> 'w \<Rightarrow> ('c track_renderer \<times> 'w) result option" where
  "Renderer_Release rd s =
     and_then_opt (ro_release rd (snd s)) (\<lambda>w1. Some (Inr ((fst s)\<lparr>tr_state := RELEASED\<rparr>, w1)))"

text \<open>The second result is \<open>error_occurred\<close>: it is set to what \<open>OnDiscontinuity\<close> returns.\<close>

definition CheckForDiscontinuity :: "('w, 'f, 'd) reader_ops \<Rightarrow> int \<Rightarrow> 'w \<Rightarrow> int \<times> bool \<times> 'w" where
  "CheckForDiscontinuity rd position_us w =
     (case ro_read_discontinuity rd w of (discontinuity_position_us, w1) \<Rightarrow>
        if discontinuity_position_us \<noteq> NO_DISCONTINUITY
        then (discontinuity_position_us, OnDiscontinuity discontinuity_position_us, w1)
        else (position_us, False, w1))"

definition Renderer_SeekTo ::
  "('w, 'f, 'd) reader_ops \<Rightarrow> int \<Rightarrow> 'c track_renderer \<times> 'w \<Rightarrow> (bool \<times> 'c track_renderer \<times> 'w) result option" where
  "Renderer_SeekTo rd position_us s =
     (case s of (r, w) \<Rightarrow>
        and_then_opt (ro_seek_to_us rd position_us w) (\<lambda>w1.
          (let (_, error_occurred, w2) = CheckForDiscontinuity rd position_us w1
           in Some (Inr (\<not> error_occurred, r, w2)))))"

definition Renderer_Buffer ::
  "('w, 'f, 'd) reader_ops \<Rightarrow> int \<Rightarrow> 'c track_renderer \<times> 'w \<Rightarrow> ('c track_renderer \<times> 'w) result option" where
  "Renderer_Buffer rd position_us s =
     (case s of (r, w) \<Rightarrow>
        and_then_opt (ro_continue_buffering rd position_us w) (\<lambda>(ready, w1).
          Some (Inr (r\<lparr>tr_source_is_ready := ready\<rparr>, w1))))"

definition Renderer_ReadFrame ::
  "('w, 'f, 'd) reader_ops \<Rightarrow> int \<Rightarrow> ('f, 'd) media_format_holder \<Rightarrow> sample_holder \<Rightarrow> 'c track_renderer \<times> 'w \<Rightarrow>
   (read_result \<times> bool \<times> ('f, 'd) media_format_holder \<times> sample_holder \<times> 'w) result option" where
  "Renderer_ReadFrame rd position_us fh h s =
     (case s of (r, w) \<Rightarrow>
        (let (position, error_occurred, w1) = CheckForDiscontinuity rd position_us w
         in if error_occurred then Some (Inr (NOTHING_READ, True, fh, h, w1))
            else if tr_source_is_ready r
            then and_then_opt (ro_read_data rd position fh h w1) (\<lambda>(res, fh', h', w2). Some (Inr (res, False, fh', h', w2)))
            else Some (Inr (NOTHING_READ, False, fh, h, w1))))"

definition Renderer_GetBufferedPositionUs :: "('w, 'f, 'd) reader_ops \<Rightarrow> 'w \<Rightarrow> int" where
  "Renderer_GetBufferedPositionUs rd w = ro_get_buffered_position_us rd w"

definition Renderer_GetDurationUs :: "'c track_renderer \<Rightarrow> int" where
  "Renderer_GetDurationUs r = tr_duration_us r"

definition Renderer_CanContinueBuffering :: "('w, 'f, 'd) reader_ops \<Rightarrow> 'w \<Rightarrow> bool" where
  "Renderer_CanContinueBuffering rd w = ro_can_continue_buffering rd w"

section \<open>The life cycle\<close>

text \<open>
  The calls of an owner that keeps to the documented states. A renderer whose source is still being
  disabled is \<open>PREPARED\<close> already.
\<close>

inductive renderer_step :: "('w, 'f, 'd) reader_ops \<Rightarrow> 'c track_renderer \<times> 'w \<Rightarrow> 'c track_renderer \<times> 'w \<Rightarrow> bool" for rd where
  step_prepare: "tr_state (fst s) = UNPREPARED \<Longrightarrow> Renderer_Prepare rd position_us s = Some (Inr (ok, s')) \<Longrightarrow> renderer_step rd s s'"
| step_enable: "tr_state (fst s) = PREPARED \<Longrightarrow> Renderer_Enable rd criteria position_us s = Some (Inr (ok, s')) \<Longrightarrow> renderer_step rd s s'"
| step_start: "tr_state (fst s) = ENABLED \<Longrightarrow> renderer_step rd s (Renderer_Start (fst s), snd s)"
| step_stop: "tr_state (fst s) = STARTED \<Longrightarrow> renderer_step rd s (Renderer_Stop (fst s), snd s)"
| step_seek: "tr_state (fst s) = ENABLED \<Longrightarrow> Renderer_SeekTo rd position_us s = Some (Inr (ok, s')) \<Longrightarrow> renderer_step rd s s'"
| step_buffer: "tr_state (fst s) \<in> {ENABLED, STARTED} \<Longrightarrow> Renderer_Buffer rd position_us s = Some (Inr s') \<Longrightarrow> renderer_step rd s s'"
| step_read: "tr_state (fst s) \<in> {ENABLED, STARTED} \<Longrightarrow>
     Renderer_ReadFrame rd position_us fh h s = Some (Inr (res, err, fh', h', w')) \<Longrightarrow> renderer_step rd s (fst s, w')"
| step_disable: "tr_state (fst s) = ENABLED \<Longrightarrow> Renderer_Disable rd callback s = Some (Inr s') \<Longrightarrow> renderer_step rd s s'"
| step_disable_done: "DisableDone (fst s) = (cb, r') \<Longrightarrow> renderer_step rd s (r', snd s)"
| step_release: "tr_state (fst s) \<in> {UNPREPARED, PREPARED} \<Longrightarrow> Renderer_Release rd s = Some (Inr s') \<Longrightarrow> renderer_step rd s s'"
| step_source: "renderer_step rd s (fst s, w')"

inductive_cases renderer_stepE: "renderer_step rd s s'"

lemmas renderer_defs = Renderer_Prepare_def DoPrepare_def Renderer_Enable_def OnEnabled_def Renderer_Start_def Renderer_Stop_def
  Renderer_Buffer_def Renderer_Disable_def OnDisabled_def DisableDone_def Renderer_Release_def

lemma SeekTo_Inr:
  assumes "Renderer_SeekTo rd position_us s = Some (Inr (ok, s'))"
  obtains w1 where "ro_seek_to_us rd position_us (snd s) = Some (Inr w1)" "fst s' = fst s"
    "CheckForDiscontinuity rd position_us w1 = (fst (CheckForDiscontinuity rd position_us w1), \<not> ok, snd s')"
  using assms by (auto simp: Renderer_SeekTo_def and_then_opt_Inr case_prod_unfold prod_eq_iff Let_def)

text \<open>The source of a renderer is enabled exactly while the renderer is.\<close>

definition renderer_ok :: "'c track_renderer \<Rightarrow> bool" where
  "renderer_ok r \<longleftrightarrow> (tr_source_is_enabled r \<longleftrightarrow> tr_state r \<in> {ENABLED, STARTED})"

lemma renderer_step_ok: "renderer_step rd s s' \<Longrightarrow> renderer_ok (fst s) \<Longrightarrow> renderer_ok (fst s')"
  by (erule renderer_stepE)
    (auto simp: renderer_ok_def renderer_defs and_then_opt_Inr Let_def split: prod.splits option.splits if_splits elim!: SeekTo_Inr)

text \<open>
  In every sequence of calls that keeps to the documented states, interleaved with whatever the source
  does, the source of a renderer is enabled exactly while the renderer is enabled or started, and a
  released renderer stays released.
\<close>

theorem renderer_reachable_safe:
  assumes "(renderer_step rd)\<^sup>*\<^sup>* (TrackRenderer_new, w) s"
  shows "renderer_ok (fst s) \<and> (tr_state (fst s) = RELEASED \<longrightarrow> (\<forall>s'. (renderer_step rd)\<^sup>*\<^sup>* s s' \<longrightarrow> tr_state (fst s') = RELEASED))"
proof -
  have "renderer_ok (fst s)" using assms
  proof (induction rule: rtranclp_induct)
    case (step y z)
    then show ?case using renderer_step_ok by blast
  qed (simp add: renderer_ok_def TrackRenderer_new_def)
  moreover have "tr_state (fst s') = RELEASED" if "(renderer_step rd)\<^sup>*\<^sup>* s s'" "tr_state (fst s) = RELEASED" for s'
    using that
  proof (induction rule: rtranclp_induct)
    case (step y z)
    then have "tr_state (fst y) = RELEASED" by blast
    with step(2) show ?case by (auto elim!: renderer_stepE simp: DisableDone_def)
  qed simp
  ultimately show ?thesis by blast
qed

section \<open>Seeking\<close>

text \<open>A reader that reports a discontinuity once.\<close>

locale discontinuity_reader =
  fixes rd :: "('w, 'f, 'd) reader_ops"
  assumes read_once: "ro_read_discontinuity rd w = (p, w1) \<Longrightarrow> ro_read_discontinuity rd w1 = (NO_DISCONTINUITY, w1)"
begin

lemma check_once: "CheckForDiscontinuity rd p w = (q, e, w1) \<Longrightarrow> CheckForDiscontinuity rd p' w1 = (p', False, w1)"
  using read_once by (auto simp: CheckForDiscontinuity_def split: prod.splits if_splits)

lemma read_after_seek:
  assumes "Renderer_SeekTo rd p s = Some (Inr (ok, r, w))" "tr_source_is_ready r"
  shows "Renderer_ReadFrame rd q fh h (r, w) =
    and_then_opt (ro_read_data rd q fh h w) (\<lambda>(res, fh', h', w2). Some (Inr (res, False, fh', h', w2)))"
proof -
  obtain w0 where "CheckForDiscontinuity rd p w0 = (fst (CheckForDiscontinuity rd p w0), \<not> ok, w)"
    using assms(1) by (auto elim!: SeekTo_Inr)
  from check_once [OF this] assms(2) show ?thesis by (simp add: Renderer_ReadFrame_def)
qed

end

interpretation chunk_discontinuity: discontinuity_reader "chunk_reader ops env" for ops env
  by unfold_locales (auto simp: chunk_reader_def ReadDiscontinuity_def split: if_splits)

text \<open>Loading leaves the position of the last seek alone.\<close>

named_theorems last_seek_frame

lemma last_seek_notify [last_seek_frame]: "ss_last_seek_position_us (notify e c) = ss_last_seek_position_us c"
  by (simp add: notify_def)

lemma last_seek_start [last_seek_frame]: "ss_start_loading env ck c = Inr c' \<Longrightarrow> ss_last_seek_position_us c' = ss_last_seek_position_us c"
  by (auto simp: ss_start_loading_def split: option.splits)

lemma last_seek_operation [last_seek_frame]: "ss_last_seek_position_us (DoChunkOperation ops c) = ss_last_seek_position_us c"
  by (simp add: DoChunkOperation_def Let_def split: prod.splits)

lemma last_seek_clear [last_seek_frame]:
  "ss_last_seek_position_us (ClearCurrentLoadableException c) = ss_last_seek_position_us c"
  "ss_last_seek_position_us (ClearCurrentLoadable c) = ss_last_seek_position_us c"
  by (simp_all add: ClearCurrentLoadable_def ClearCurrentLoadableException_def)

lemma last_seek_discard:
  "DiscardUpstreamMediaChunks n c = Inr (b, c') \<Longrightarrow> ss_last_seek_position_us c' = ss_last_seek_position_us c"
  by (auto simp: DiscardUpstreamMediaChunks_def NotifyUpstreamDiscarded_def last_seek_frame and_then_Inr Let_def
      split: if_splits prod.splits option.splits)

lemma last_seek_maybe_start: "MaybeStartLoading env c = Inr c' \<Longrightarrow> ss_last_seek_position_us c' = ss_last_seek_position_us c"
  by (auto simp: MaybeStartLoading_def NotifyLoadStarted_def last_seek_notify Let_def split: if_splits prod.splits option.splits
      dest!: last_seek_start)

lemma last_seek_resume: "ResumeFromBackOff ops env c = Inr c' \<Longrightarrow> ss_last_seek_position_us c' = ss_last_seek_position_us c"
  unfolding ResumeFromBackOff_def Let_def NotifyLoadCanceled_def
  by (auto simp: and_then_Inr last_seek_frame split: if_splits option.splits prod.splits
      dest!: last_seek_start last_seek_maybe_start last_seek_discard)

lemma last_seek_update:
  assumes run: "UpdateLoadControl ops env c = Inr c'"
  shows "ss_last_seek_position_us c' = ss_last_seek_position_us c"
proof -
  obtain p where p: "GetNextLoadPositionUs c = Inr p"
    using run by (cases "GetNextLoadPositionUs c") (simp_all only: UpdateLoadControl_def and_then_simps sum.distinct)
  obtain loading where l: "ss_is_loading c = Inr loading"
    using run by (cases "ss_is_loading c") (simp_all only: UpdateLoadControl_def p and_then_simps sum.distinct)
  let ?off = "ss_current_loadable_error_reason c \<noteq> NO_ERROR"
  let ?c1 = "DoChunkOperation ops (c\<lparr>ss_last_performed_buffer_operation := env_now env\<rparr>)"
  obtain p2 c2 nl lc where
    stage: "(if \<not> (loading \<or> ?off) \<and> (co_chunk (ss_current_loadable_holder c) = None \<and> p \<noteq> -1 \<or>
          env_now env - ss_last_performed_buffer_operation c > 2000000)
       then and_then (DiscardUpstreamMediaChunks (co_queue_size (ss_current_loadable_holder ?c1)) ?c1) (\<lambda>(chunks_discarded, c2).
         if co_chunk (ss_current_loadable_holder c2) = None then Inr (-1, c2)
         else if chunks_discarded then and_then (GetNextLoadPositionUs c2) (\<lambda>p. Inr (p, c2)) else Inr (p, c2)) else Inr (p, c)) = Inr (p2, c2)"
    and final: "(if ?off then (if env_now env - ss_current_loadable_error_timestamp (c2\<lparr>ss_load_control := lc\<rparr>) \<ge>
           GetRetryDelayMillis (ss_current_loadable_error_count (c2\<lparr>ss_load_control := lc\<rparr>))
         then ResumeFromBackOff ops env (c2\<lparr>ss_load_control := lc\<rparr>) else Inr (c2\<lparr>ss_load_control := lc\<rparr>))
       else and_then (ss_is_loading (c2\<lparr>ss_load_control := lc\<rparr>)) (\<lambda>l. if \<not> l \<and> nl then MaybeStartLoading env (c2\<lparr>ss_load_control := lc\<rparr>)
         else Inr (c2\<lparr>ss_load_control := lc\<rparr>))) = Inr c'"
    using run unfolding UpdateLoadControl_def p l and_then_simps Let_def
    unfolding and_then_Inr [of _ "case_prod f" for f] split_paired_Ex prod.case by (elim exE conjE) (rule that)
  have "ss_last_seek_position_us c2 = ss_last_seek_position_us c"
    using stage by (auto simp: and_then_Inr last_seek_frame split: if_splits dest!: last_seek_discard)
  then show ?thesis using final
    by (auto simp: and_then_Inr split: if_splits dest!: last_seek_resume last_seek_maybe_start)
qed

lemma last_seek_restart: "RestartFrom ops env p c = Inr c' \<Longrightarrow> ss_last_seek_position_us c' = ss_last_seek_position_us c"
  unfolding RestartFrom_def ss_cancel_loading_def
  by (auto simp: and_then_Inr last_seek_frame Let_def split: if_splits option.splits dest!: last_seek_update)

lemma seek_discontinuity:
  assumes "ChunkSampleSource_SeekToUs ops env p c = Some (Inr c')" "\<not> ss_pending_discontinuity c"
  shows "ss_last_seek_position_us c' = p"
    "ss_pending_discontinuity c' \<longleftrightarrow> (if IsPendingReset c then ss_pending_reset_position_us c else ss_downstream_position_us c) \<noteq> p"
  using assms unfolding ChunkSampleSource_SeekToUs_def Let_def
  by (auto simp: and_then_opt_Inr and_then_Inr split: if_splits prod.splits dest!: last_seek_restart)

text \<open>
  Seeking through the renderer. The source's seek succeeds and the next read goes to the source, yet
  \<open>SeekTo\<close> returns true only when the source was at the position already: \<open>OnDiscontinuity\<close> returns true for
  success, and its result is taken for the error flag.
\<close>

theorem seek_reported_as_error:
  assumes "ChunkSampleSource_SeekToUs ops env p c = Some (Inr c')" "\<not> ss_pending_discontinuity c" "p \<noteq> NO_DISCONTINUITY"
    and "tr_source_is_ready r"
  defines "moves \<equiv> (if IsPendingReset c then ss_pending_reset_position_us c else ss_downstream_position_us c) \<noteq> p"
  shows "Renderer_SeekTo (chunk_reader ops env) p (r, c) = Some (Inr (\<not> moves, r, c'\<lparr>ss_pending_discontinuity := False\<rparr>)) \<and>
    Renderer_ReadFrame (chunk_reader ops env) q fh h (r, c'\<lparr>ss_pending_discontinuity := False\<rparr>) =
      and_then_opt (ChunkSampleSource_ReadData env q fh h (c'\<lparr>ss_pending_discontinuity := False\<rparr>))
        (\<lambda>(res, fh', h', c2). Some (Inr (res, False, fh', h', c2)))"
proof -
  have "Renderer_SeekTo (chunk_reader ops env) p (r, c) = Some (Inr (\<not> moves, r, c'\<lparr>ss_pending_discontinuity := False\<rparr>))"
    using seek_discontinuity [OF assms(1,2)] assms(1,3)
    by (auto simp: Renderer_SeekTo_def CheckForDiscontinuity_def OnDiscontinuity_def chunk_reader_def ReadDiscontinuity_def moves_def)
  then show ?thesis using chunk_discontinuity.read_after_seek [of ops env] assms(4) by (fastforce simp: chunk_reader_def)
qed

end
