(* ===== verification/Media_Format.thy ===== *)
theory Media_Format
  imports Time_Scaling Content_Protections
begin

text \<open>
  The format of a track's samples (\<open>media_format.cc\<close>) and the initialization data of protected content
  (\<open>drm/drm_init_data.cc\<close>). Initialization data is \<open>None\<close> for a null pointer; the length is kept beside it as in
  the source. The channel layout and the sample format are the numbers of their enumerations.
\<close>

section \<open>Media formats\<close>

definition kNoValue :: int where "kNoValue = -1"
definition kOffsetSampleRelative :: int where "kOffsetSampleRelative = 2 ^ 63 - 1"
definition kChannelLayoutUnsupported :: int where "kChannelLayoutUnsupported = 1"
definition kSampleFormatUnknown :: int where "kSampleFormatUnknown = 0"

definition kVideoCodecH264 :: string where "kVideoCodecH264 = ''h264''"
definition kAudioCodecAAC :: string where "kAudioCodecAAC = ''aac''"
definition kAudioCodecAC3 :: string where "kAudioCodecAC3 = ''ac3''"
definition kAudioCodecEAC3 :: string where "kAudioCodecEAC3 = ''ec-3''"

record media_format =
  mf_track_id :: string
  mf_mime_type :: string
  mf_codecs :: string
  mf_bitrate :: int
  mf_max_input_size :: int
  mf_duration_us :: int
  mf_width :: int
  mf_height :: int
  mf_rotation_degrees :: int
  mf_pixel_width_height_ratio :: ieee
  mf_channel_count :: int
  mf_sample_rate :: int
  mf_language :: string
  mf_subsample_offset_us :: int
  mf_initialization_data :: "byte list option"
  mf_initialization_data_len :: int
  mf_adaptive :: bool
  mf_pcm_encoding :: int
  mf_encoder_delay :: int
  mf_encoder_padding :: int
  mf_channel_layout :: int
  mf_sample_format :: int

text \<open>The values the factories share.\<close>

definition CreateFormatForMimeType :: "string \<Rightarrow> string \<Rightarrow> int \<Rightarrow> int \<Rightarrow> media_format" where
  "CreateFormatForMimeType track_id mime_type bitrate duration_us =
     \<lparr>mf_track_id = track_id, mf_mime_type = mime_type, mf_codecs = [], mf_bitrate = bitrate, mf_max_input_size = kNoValue,
      mf_duration_us = duration_us, mf_width = kNoValue, mf_height = kNoValue, mf_rotation_degrees = kNoValue,
      mf_pixel_width_height_ratio = Finite (of_int kNoValue), mf_channel_count = kNoValue, mf_sample_rate = kNoValue,
      mf_language = [], mf_subsample_offset_us = kOffsetSampleRelative, mf_initialization_data = None,
      mf_initialization_data_len = 0, mf_adaptive = False, mf_pcm_encoding = kNoValue, mf_encoder_delay = kNoValue,
      mf_encoder_padding = kNoValue, mf_channel_layout = kChannelLayoutUnsupported, mf_sample_format = kSampleFormatUnknown\<rparr>"

definition CreateVideoFormat ::
  "string \<Rightarrow> string \<Rightarrow> string \<Rightarrow> int \<Rightarrow> int \<Rightarrow> int \<Rightarrow> int \<Rightarrow> int \<Rightarrow> byte list option \<Rightarrow> int \<Rightarrow> int \<Rightarrow> ieee \<Rightarrow> media_format" where
  "CreateVideoFormat track_id mime_type codecs bitrate max_input_size duration_us width height data len rotation_degrees ratio =
     (CreateFormatForMimeType track_id mime_type bitrate duration_us)
       \<lparr>mf_codecs := codecs, mf_max_input_size := max_input_size, mf_width := width, mf_height := height,
        mf_rotation_degrees := rotation_degrees, mf_pixel_width_height_ratio := ratio,
        mf_initialization_data := data, mf_initialization_data_len := len\<rparr>"

definition CreateAudioFormat ::
  "string \<Rightarrow> string \<Rightarrow> string \<Rightarrow> int \<Rightarrow> int \<Rightarrow> int \<Rightarrow> int \<Rightarrow> int \<Rightarrow> byte list option \<Rightarrow> int \<Rightarrow> string \<Rightarrow> int \<Rightarrow> int \<Rightarrow> int \<Rightarrow>
   media_format" where
  "CreateAudioFormat track_id mime_type codecs bitrate max_input_size duration_us channel_count sample_rate data len language
       pcm_encoding channel_layout sample_format =
     (CreateFormatForMimeType track_id mime_type bitrate duration_us)
       \<lparr>mf_codecs := codecs, mf_max_input_size := max_input_size, mf_channel_count := channel_count,
        mf_sample_rate := sample_rate, mf_language := language, mf_initialization_data := data,
        mf_initialization_data_len := len, mf_pcm_encoding := pcm_encoding, mf_channel_layout := channel_layout,
        mf_sample_format := sample_format\<rparr>"

definition CreateTextFormat :: "string \<Rightarrow> string \<Rightarrow> int \<Rightarrow> int \<Rightarrow> string \<Rightarrow> int \<Rightarrow> media_format" where
  "CreateTextFormat track_id mime_type bitrate duration_us language subsample_offset_us =
     (CreateFormatForMimeType track_id mime_type bitrate duration_us)
       \<lparr>mf_language := language, mf_subsample_offset_us := subsample_offset_us\<rparr>"

definition CreateImageFormat :: "string \<Rightarrow> string \<Rightarrow> int \<Rightarrow> int \<Rightarrow> byte list option \<Rightarrow> int \<Rightarrow> string \<Rightarrow> media_format" where
  "CreateImageFormat track_id mime_type bitrate duration_us data len language =
     (CreateFormatForMimeType track_id mime_type bitrate duration_us)
       \<lparr>mf_language := language, mf_initialization_data := data, mf_initialization_data_len := len\<rparr>"

text \<open>The copy drops the channel layout and the sample format.\<close>

definition CopyWithSubsampleOffsetUs :: "int \<Rightarrow> media_format \<Rightarrow> media_format" where
  "CopyWithSubsampleOffsetUs subsample_offset_us f =
     f\<lparr>mf_subsample_offset_us := subsample_offset_us, mf_channel_layout := kChannelLayoutUnsupported,
       mf_sample_format := kSampleFormatUnknown\<rparr>"

definition CopyAsAdaptive :: "string \<Rightarrow> media_format \<Rightarrow> media_format" where
  "CopyAsAdaptive track_id f =
     (CreateFormatForMimeType track_id (mf_mime_type f) kNoValue (mf_duration_us f))
       \<lparr>mf_codecs := mf_codecs f, mf_adaptive := True\<rparr>"

text \<open>Equality of floating-point values: what is not a number equals nothing.\<close>

fun ieee_eq :: "ieee \<Rightarrow> ieee \<Rightarrow> bool" where
  "ieee_eq (Finite x) (Finite y) \<longleftrightarrow> x = y"
| "ieee_eq (Infinite s) (Infinite t) \<longleftrightarrow> s = t"
| "ieee_eq _ _ \<longleftrightarrow> False"

text \<open>
  The comparison of the formats. The data is compared with \<open>memcmp\<close>, which may only be given a null pointer
  when the length is 0 and reads as many bytes as the length says.
\<close>

definition same_members :: "media_format \<Rightarrow> media_format \<Rightarrow> bool" where
  "same_members f g \<longleftrightarrow>
     mf_track_id f = mf_track_id g \<and> mf_mime_type f = mf_mime_type g \<and> mf_codecs f = mf_codecs g \<and>
     mf_bitrate f = mf_bitrate g \<and> mf_max_input_size f = mf_max_input_size g \<and> mf_duration_us f = mf_duration_us g \<and>
     mf_width f = mf_width g \<and> mf_height f = mf_height g \<and> mf_rotation_degrees f = mf_rotation_degrees g \<and>
     ieee_eq (mf_pixel_width_height_ratio f) (mf_pixel_width_height_ratio g) \<and>
     mf_channel_count f = mf_channel_count g \<and> mf_sample_rate f = mf_sample_rate g \<and>
     mf_subsample_offset_us f = mf_subsample_offset_us g \<and>
     mf_initialization_data_len f = mf_initialization_data_len g \<and> mf_adaptive f = mf_adaptive g \<and>
     mf_pcm_encoding f = mf_pcm_encoding g \<and> mf_encoder_delay f = mf_encoder_delay g \<and>
     mf_encoder_padding f = mf_encoder_padding g \<and> mf_language f = mf_language g \<and>
     mf_channel_layout f = mf_channel_layout g \<and> mf_sample_format f = mf_sample_format g"

definition MediaFormat_eq :: "media_format \<Rightarrow> media_format \<Rightarrow> bool result" where
  "MediaFormat_eq f g =
     (if \<not> same_members f g then Inr False
      else (case (mf_initialization_data f, mf_initialization_data g) of
              (None, None) \<Rightarrow> Inr True
            | (Some a, Some b) \<Rightarrow>
                (let n = nat (mf_initialization_data_len f)
                 in if n \<le> length a \<and> n \<le> length b then Inr (take n a = take n b) else Inl Undefined_access)
            | _ \<Rightarrow> if mf_initialization_data_len f = 0 then Inr True else Inl Undefined_access))"

text \<open>A format as its factories make it: the length is that of the data, 0 without data, and the ratio is a number.\<close>

definition media_format_ok :: "media_format \<Rightarrow> bool" where
  "media_format_ok f \<longleftrightarrow>
     mf_initialization_data_len f = (case mf_initialization_data f of None \<Rightarrow> 0 | Some d \<Rightarrow> int (length d)) \<and>
     mf_pixel_width_height_ratio f \<noteq> Not_A_Number"

section \<open>Initialization data of protected content\<close>

datatype drm_init_data = Mapped_Init_Data "(uuid \<times> scheme_init_data option) list" | Universal_Init_Data "scheme_init_data option"

fun DrmInitData_Get :: "uuid \<Rightarrow> drm_init_data \<Rightarrow> scheme_init_data option" where
  "DrmInitData_Get scheme_uuid (Mapped_Init_Data scheme_data) =
     (case map_of scheme_data scheme_uuid of None \<Rightarrow> None | Some d \<Rightarrow> d)"
| "DrmInitData_Get scheme_uuid (Universal_Init_Data data) = data"

fun MappedDrmInitData_Put :: "uuid \<Rightarrow> scheme_init_data option \<Rightarrow> drm_init_data \<Rightarrow> drm_init_data" where
  "MappedDrmInitData_Put scheme_uuid d (Mapped_Init_Data scheme_data) =
     Mapped_Init_Data ((scheme_uuid, d) # filter (\<lambda>(u, _). u \<noteq> scheme_uuid) scheme_data)"
| "MappedDrmInitData_Put scheme_uuid d (Universal_Init_Data data) = Universal_Init_Data data"

section \<open>Properties\<close>

lemma ieee_eq_iff: "ieee_eq x y \<longleftrightarrow> x = y \<and> x \<noteq> Not_A_Number"
  by (cases x; cases y) auto

text \<open>
  Comparing two formats is equality: it never faults, and it holds exactly for formats with the same
  members and the same data, except that empty data and no data compare equal.
\<close>

theorem media_format_eq_correct:
  assumes "media_format_ok f" "media_format_ok g"
  shows "MediaFormat_eq f g = Inr (f\<lparr>mf_initialization_data := None\<rparr> = g\<lparr>mf_initialization_data := None\<rparr> \<and>
    (case mf_initialization_data f of None \<Rightarrow> [] | Some d \<Rightarrow> d) = (case mf_initialization_data g of None \<Rightarrow> [] | Some d \<Rightarrow> d))"
proof -
  have "same_members f g \<longleftrightarrow> f\<lparr>mf_initialization_data := None\<rparr> = g\<lparr>mf_initialization_data := None\<rparr>"
    using assms by (cases f; cases g) (auto simp: same_members_def media_format_ok_def ieee_eq_iff)
  moreover have "mf_initialization_data_len f = mf_initialization_data_len g" if "same_members f g"
    using that by (simp add: same_members_def)
  ultimately show ?thesis using assms
    by (auto simp: MediaFormat_eq_def media_format_ok_def split: option.splits)
qed

text \<open>What is put for a scheme is found for that scheme, and other schemes are as before.\<close>

theorem init_data_put_get:
  "DrmInitData_Get u (MappedDrmInitData_Put v d (Mapped_Init_Data m)) =
     (if u = v then d else DrmInitData_Get u (Mapped_Init_Data m))"
proof -
  have "map_of (filter (\<lambda>(u, _). u \<noteq> v) m) u = map_of m u" if "u \<noteq> v"
    using that by (induction m) auto
  then show ?thesis by auto
qed

end
