(* ===== verification/Drm_Session_Manager.thy ===== *)
theory Drm_Session_Manager
  imports Ndash_Prelude "HOL-Library.List_Lexorder" "HOL-Library.Char_ord"
begin

text \<open>
  The DRM session manager (\<open>drm/drm_session_manager.cc\<close>): requests for licenses are posted to a worker thread,
  and a consumer that needs a license joins the request. The functions of the content decryption module
  are the callbacks of the player; they act on a state \<open>'m\<close> of their own. A status other than success is
  \<open>None\<close> or \<open>False\<close>. A context is never removed or replaced, so it is named by its PSSH.

  \<open>Run\<close> calls the module without the lock and then publishes the result under it, so it is two steps; \<open>Join\<close>
  looks, waits, and looks again. \<open>drm_step\<close> interleaves the threads.
\<close>

section \<open>State\<close>

record 'm cdm_callbacks =
  cdm_open_session :: "('m \<Rightarrow> string option \<times> 'm) option"
  cdm_fetch_license :: "(string \<Rightarrow> string \<Rightarrow> 'm \<Rightarrow> bool \<times> 'm) option"
  cdm_close_session :: "(string \<Rightarrow> 'm \<Rightarrow> bool \<times> 'm) option"

record cdm_session_context =
  cx_cdm_session_id :: string
  cx_signaled :: bool

text \<open>\<open>dm_running\<close> is the request whose result the worker has not published yet.\<close>

record drm_session_manager =
  dm_pssh_sessions :: "(string \<times> cdm_session_context) list"
  dm_worker_queue :: "string list"
  dm_running :: "(string \<times> string) option"

definition DrmSessionManager_new :: drm_session_manager where
  "DrmSessionManager_new = \<lparr>dm_pssh_sessions = [], dm_worker_queue = [], dm_running = None\<rparr>"

section \<open>Operations\<close>

definition DrmSessionManager_Request ::
  "'m cdm_callbacks option \<Rightarrow> string \<Rightarrow> drm_session_manager \<Rightarrow> drm_session_manager" where
  "DrmSessionManager_Request callbacks pssh m =
     (case callbacks of
        None \<Rightarrow> m
      | Some cb \<Rightarrow>
          if cdm_open_session cb = None \<or> cdm_fetch_license cb = None then m
          else if map_of (dm_pssh_sessions m) pssh \<noteq> None then m
          else m\<lparr>dm_pssh_sessions := (pssh, \<lparr>cx_cdm_session_id = [], cx_signaled = False\<rparr>) # dm_pssh_sessions m,
                 dm_worker_queue := dm_worker_queue m @ [pssh]\<rparr>)"

text \<open>
  The first look of \<open>Join\<close>: \<open>Some True\<close> when a license is there, nothing when the consumer has to wait. Without
  a request there is no event to wait for.
\<close>

definition Join_look :: "string \<Rightarrow> drm_session_manager \<Rightarrow> bool option result" where
  "Join_look pssh m =
     (case map_of (dm_pssh_sessions m) pssh of
        None \<Rightarrow> Inl Undefined_access
      | Some ctx \<Rightarrow> if cx_cdm_session_id ctx \<noteq> [] then Inr (Some True) else Inr None)"

definition Join_may_continue :: "string \<Rightarrow> drm_session_manager \<Rightarrow> bool" where
  "Join_may_continue pssh m \<longleftrightarrow> (case map_of (dm_pssh_sessions m) pssh of None \<Rightarrow> False | Some ctx \<Rightarrow> cx_signaled ctx)"

definition Join_result :: "string \<Rightarrow> drm_session_manager \<Rightarrow> bool" where
  "Join_result pssh m = (case map_of (dm_pssh_sessions m) pssh of None \<Rightarrow> False | Some ctx \<Rightarrow> cx_cdm_session_id ctx \<noteq> [])"

text \<open>The calls of \<open>Run\<close>: the session, which is empty when opening it or fetching the license failed.\<close>

definition Run_cdm :: "'m cdm_callbacks \<Rightarrow> string \<Rightarrow> 'm \<Rightarrow> (string \<times> 'm) result" where
  "Run_cdm cb pssh cdm =
     (case cdm_open_session cb of
        None \<Rightarrow> Inl Undefined_access
      | Some open_session \<Rightarrow>
          (case open_session cdm of
             (None, cdm1) \<Rightarrow> Inr ([], cdm1)
           | (Some session_id, cdm1) \<Rightarrow>
               (case cdm_fetch_license cb of
                  None \<Rightarrow> Inl Undefined_access
                | Some fetch_license \<Rightarrow>
                    (case fetch_license session_id pssh cdm1 of
                       (True, cdm2) \<Rightarrow> Inr (session_id, cdm2)
                     | (False, cdm2) \<Rightarrow>
                         (case cdm_close_session cb of
                            None \<Rightarrow> Inl Undefined_access
                          | Some close_session \<Rightarrow> Inr ([], snd (close_session session_id cdm2)))))))"

definition Run_begin ::
  "'m cdm_callbacks \<Rightarrow> drm_session_manager \<times> 'm \<Rightarrow> (drm_session_manager \<times> 'm) result option" where
  "Run_begin cb s =
     (case s of (m, cdm) \<Rightarrow>
        (case (dm_running m, dm_worker_queue m) of
           (None, pssh # queue) \<Rightarrow>
             Some (and_then (Run_cdm cb pssh cdm) (\<lambda>(session_id, cdm').
               Inr (m\<lparr>dm_worker_queue := queue, dm_running := Some (pssh, session_id)\<rparr>, cdm')))
         | _ \<Rightarrow> None))"

definition Run_publish :: "drm_session_manager \<Rightarrow> drm_session_manager" where
  "Run_publish m =
     (case dm_running m of
        None \<Rightarrow> m
      | Some (pssh, session_id) \<Rightarrow>
          m\<lparr>dm_pssh_sessions := map (\<lambda>(p, ctx). if p = pssh
               then (p, ctx\<lparr>cx_cdm_session_id := session_id, cx_signaled := True\<rparr>) else (p, ctx)) (dm_pssh_sessions m),
            dm_running := None\<rparr>)"

text \<open>The destructor closes the session of every context, in the order of the keys.\<close>

fun close_sessions :: "(string \<Rightarrow> 'm \<Rightarrow> bool \<times> 'm) \<Rightarrow> (string \<times> cdm_session_context) list \<Rightarrow> 'm \<Rightarrow> 'm" where
  "close_sessions close_session [] cdm = cdm"
| "close_sessions close_session ((_, ctx) # cs) cdm = close_sessions close_session cs (snd (close_session (cx_cdm_session_id ctx) cdm))"

definition DrmSessionManager_delete :: "'m cdm_callbacks \<Rightarrow> drm_session_manager \<Rightarrow> 'm \<Rightarrow> 'm result" where
  "DrmSessionManager_delete cb m cdm =
     (case cdm_close_session cb of
        None \<Rightarrow> (if dm_pssh_sessions m = [] then Inr cdm else Inl Undefined_access)
      | Some close_session \<Rightarrow> Inr (close_sessions close_session (sort_key fst (dm_pssh_sessions m)) cdm))"

section \<open>Interleavings\<close>

inductive drm_step :: "'m cdm_callbacks \<Rightarrow> drm_session_manager \<times> 'm \<Rightarrow> drm_session_manager \<times> 'm \<Rightarrow> bool" for cb where
  drm_request: "drm_step cb (m, cdm) (DrmSessionManager_Request (Some cb) pssh m, cdm)"
| drm_run: "Run_begin cb s = Some (Inr s') \<Longrightarrow> drm_step cb s s'"
| drm_publish: "drm_step cb (m, cdm) (Run_publish m, cdm)"
| drm_player: "drm_step cb (m, cdm) (m, cdm')"

inductive_cases drm_stepE: "drm_step cb s s'"

definition drm_reachable :: "'m cdm_callbacks \<Rightarrow> drm_session_manager \<times> 'm \<Rightarrow> bool" where
  "drm_reachable cb s \<longleftrightarrow> (\<exists>cdm. (drm_step cb)\<^sup>*\<^sup>* (DrmSessionManager_new, cdm) s)"

text \<open>The requests whose result is not known yet.\<close>

definition outstanding :: "drm_session_manager \<Rightarrow> string list" where
  "outstanding m = (case dm_running m of None \<Rightarrow> [] | Some (pssh, _) \<Rightarrow> [pssh]) @ dm_worker_queue m"

definition unanswered :: "drm_session_manager \<Rightarrow> string list" where
  "unanswered m = map fst (filter (\<lambda>x. \<not> cx_signaled (snd x)) (dm_pssh_sessions m))"

definition drm_ok :: "drm_session_manager \<Rightarrow> bool" where
  "drm_ok m \<longleftrightarrow>
     distinct (map fst (dm_pssh_sessions m)) \<and> distinct (outstanding m) \<and> set (outstanding m) = set (unanswered m) \<and>
     (\<forall>x \<in> set (dm_pssh_sessions m). \<not> cx_signaled (snd x) \<longrightarrow> cx_cdm_session_id (snd x) = [])"

lemma drm_ok_new: "drm_ok DrmSessionManager_new"
  by (simp add: drm_ok_def DrmSessionManager_new_def outstanding_def unanswered_def)

lemma unanswered_subset: "set (unanswered m) \<subseteq> fst ` set (dm_pssh_sessions m)"
  by (auto simp: unanswered_def)

lemma drm_ok_request:
  assumes "drm_ok m"
  shows "drm_ok (DrmSessionManager_Request callbacks pssh m)"
proof (cases "DrmSessionManager_Request callbacks pssh m = m")
  case False
  let ?m = "m\<lparr>dm_pssh_sessions := (pssh, \<lparr>cx_cdm_session_id = [], cx_signaled = False\<rparr>) # dm_pssh_sessions m,
      dm_worker_queue := dm_worker_queue m @ [pssh]\<rparr>"
  have new: "pssh \<notin> fst ` set (dm_pssh_sessions m)" "DrmSessionManager_Request callbacks pssh m = ?m"
    using False by (auto simp: DrmSessionManager_Request_def map_of_eq_None_iff split: option.splits if_splits)
  moreover have "outstanding ?m = outstanding m @ [pssh]" "unanswered ?m = pssh # unanswered m"
    by (simp_all add: outstanding_def unanswered_def)
  ultimately show ?thesis using assms unanswered_subset [of m] by (auto simp: drm_ok_def)
qed (use assms in simp)

lemma Run_begin_fields:
  assumes "Run_begin cb s = Some (Inr s')"
  shows "outstanding (fst s') = outstanding (fst s) \<and> dm_pssh_sessions (fst s') = dm_pssh_sessions (fst s)"
  using assms by (cases s; cases s') (auto simp: Run_begin_def outstanding_def and_then_Inr split: option.splits list.splits)

lemma drm_ok_run: "drm_ok (fst s) \<Longrightarrow> Run_begin cb s = Some (Inr s') \<Longrightarrow> drm_ok (fst s')"
  using Run_begin_fields [of cb s s'] by (simp add: drm_ok_def unanswered_def)

definition mark_published :: "string \<Rightarrow> string \<Rightarrow> string \<times> cdm_session_context \<Rightarrow> string \<times> cdm_session_context" where
  "mark_published pssh session_id x =
     (if fst x = pssh then (fst x, (snd x)\<lparr>cx_cdm_session_id := session_id, cx_signaled := True\<rparr>) else x)"

lemma Run_publish_mark:
  "dm_running m = Some (pssh, session_id) \<Longrightarrow>
   Run_publish m = m\<lparr>dm_pssh_sessions := map (mark_published pssh session_id) (dm_pssh_sessions m), dm_running := None\<rparr>"
  by (simp add: Run_publish_def mark_published_def case_prod_unfold if_distrib prod_eq_iff cong: if_cong)

lemma unanswered_mark:
  "map fst (filter (\<lambda>x. \<not> cx_signaled (snd x)) (map (mark_published pssh session_id) xs)) =
   filter (\<lambda>p. p \<noteq> pssh) (map fst (filter (\<lambda>x. \<not> cx_signaled (snd x)) xs))"
  by (induction xs) (auto simp: mark_published_def)

lemma drm_ok_publish:
  assumes "drm_ok m"
  shows "drm_ok (Run_publish m)"
proof (cases "dm_running m")
  case (Some r)
  then obtain pssh sid where r: "dm_running m = Some (pssh, sid)" by (cases r) auto
  let ?m = "Run_publish m"
  have "unanswered ?m = filter (\<lambda>p. p \<noteq> pssh) (unanswered m)" "outstanding m = pssh # outstanding ?m"
    using r unanswered_mark by (simp_all add: Run_publish_mark unanswered_def outstanding_def)
  moreover have "map fst (dm_pssh_sessions ?m) = map fst (dm_pssh_sessions m)"
    using r by (simp add: Run_publish_mark mark_published_def)
  moreover have "\<forall>x \<in> set (dm_pssh_sessions ?m). \<not> cx_signaled (snd x) \<longrightarrow> cx_cdm_session_id (snd x) = []"
    using r assms by (auto simp: Run_publish_mark mark_published_def drm_ok_def)
  ultimately show ?thesis using assms by (auto simp: drm_ok_def)
qed (use assms in \<open>simp add: Run_publish_def\<close>)

lemma drm_step_ok: "drm_step cb s s' \<Longrightarrow> drm_ok (fst s) \<Longrightarrow> drm_ok (fst s')"
  by (erule drm_stepE) (auto simp: drm_ok_request drm_ok_publish intro: drm_ok_run)

lemma drm_reachable_ok: "drm_reachable cb s \<Longrightarrow> drm_ok (fst s)"
proof -
  assume "drm_reachable cb s"
  then obtain cdm where "(drm_step cb)\<^sup>*\<^sup>* (DrmSessionManager_new, cdm) s" by (auto simp: drm_reachable_def)
  then show ?thesis
  proof (induction rule: rtranclp_induct)
    case base
    show ?case using drm_ok_new by simp
  next
    case (step y z)
    then show ?case using drm_step_ok by blast
  qed
qed

section \<open>Properties\<close>

text \<open>
  In every interleaving each PSSH has at most one request that is queued or running, a request that has
  been answered is not made again, and a consumer waits only for a request that the worker still has.
\<close>

theorem one_request_per_pssh:
  assumes "drm_reachable cb s"
  shows "distinct (map fst (dm_pssh_sessions (fst s))) \<and> distinct (outstanding (fst s)) \<and>
    (\<forall>pssh. Join_look pssh (fst s) = Inr None \<longrightarrow> Join_may_continue pssh (fst s) \<or> pssh \<in> set (outstanding (fst s)))"
proof -
  let ?m = "fst s"
  have ok: "drm_ok ?m" using drm_reachable_ok [OF assms] .
  have "Join_may_continue pssh ?m \<or> pssh \<in> set (outstanding ?m)" if waits: "Join_look pssh ?m = Inr None" for pssh
  proof -
    obtain ctx where ctx: "map_of (dm_pssh_sessions ?m) pssh = Some ctx"
      using waits by (auto simp: Join_look_def split: option.splits)
    then have "(pssh, ctx) \<in> set (dm_pssh_sessions ?m)" by (rule map_of_SomeD)
    then have "\<not> cx_signaled ctx \<Longrightarrow> pssh \<in> set (unanswered ?m)" by (force simp: unanswered_def)
    then show ?thesis using ctx ok by (auto simp: Join_may_continue_def drm_ok_def)
  qed
  then show ?thesis using ok by (simp add: drm_ok_def)
qed

end
