(* ===== verification/Time_Delta.thy ===== *)
theory Time_Delta
  imports Ndash_Prelude
begin

text \<open>
  Time differences (\<open>base::TimeDelta\<close> of the bundled base library), in microseconds. Sums and products saturate;
  the conversion to milliseconds rounds towards zero and keeps the largest value.
\<close>

definition saturate :: "int \<Rightarrow> int" where
  "saturate x = (if x > 2 ^ 63 - 1 then 2 ^ 63 - 1 else if x < - (2 ^ 63) then - (2 ^ 63 - 1) else x)"

definition FromMilliseconds :: "int \<Rightarrow> int" where
  "FromMilliseconds ms =
     (if ms > (2 ^ 63 - 1) div 1000 then 2 ^ 63 - 1 else if ms < - ((2 ^ 63 - 1) div 1000) then - (2 ^ 63 - 1) else ms * 1000)"

definition InMilliseconds :: "int \<Rightarrow> int" where
  "InMilliseconds us = (if us = 2 ^ 63 - 1 then us else us sdiv 1000)"

end
