(* ===== verification/Dash_Thread.thy ===== *)
theory Dash_Thread
  imports Track_Renderer Media_Format Drm_Session_Manager Time_Delta
begin

text \<open>
  The player (\<open>dash_thread.cc\<close>): it owns the tracks and runs their renderers, hands samples to the client in
  fragments (\<open>CopyFrame\<close>), seeks, and changes the playback rate by disabling and enabling the tracks.

  All functions here run on the player's own thread; the client's calls are posted to it and wait. The
  readers of the tracks, the license manager and the decoder are the operations \<open>player_ops\<close> on a state \<open>'w\<close>.
  A track is named by its position in the list of tracks. Reports to the quality-of-experience manager,
  whose methods are empty, and log messages with their counters are left out. Times are in microseconds
  unless their name says otherwise. Callbacks and posted tasks are kept as data; \<open>player_step\<close> runs them.
\<close>

section \<open>State\<close>

datatype player_state = PLAYER_IDLE | PLAYER_PREPARING | PLAYER_BUFFERING | PLAYER_READY | PLAYER_ENDED

datatype frame_type = DASH_FRAME_TYPE_VIDEO | DASH_FRAME_TYPE_AUDIO | DASH_FRAME_TYPE_CC

text \<open>The callbacks the player gives to a renderer it disables.\<close>

datatype disable_callback = Unload_Disabled nat | Rate_Enable_Tracks playback_rate nat

datatype player_task = Update_Task bool | Delayed_Update_Task | Notify_Unload_Task

record 'w player_ops =
  po_reader :: "nat \<Rightarrow> ('w, media_format, drm_init_data) reader_ops"
  po_get_adjusted_seek :: "nat \<Rightarrow> int \<Rightarrow> 'w \<Rightarrow> int result"
  po_join :: "byte list \<Rightarrow> 'w \<Rightarrow> bool \<times> 'w"
  po_get_media_time_ms :: "('w \<Rightarrow> int \<times> 'w) option"
  po_decoder_flush :: "('w \<Rightarrow> 'w) option"
  po_start_load :: "'w \<Rightarrow> 'w"
  po_make_sources :: "'w \<Rightarrow> 'w"

record track_context =
  tk_frame_type :: frame_type
  tk_has_sample :: bool
  tk_is_eos :: bool
  tk_format_holder :: "(media_format, drm_init_data) media_format_holder"
  tk_sample_holder :: sample_holder
  tk_upstream_format :: "media_format option"
  tk_check_pssh :: bool
  tk_renderer :: "disable_callback track_renderer"
  tk_track_criteria :: track_criteria

record dash_thread =
  dt_state :: player_state
  dt_decoder_position :: int
  dt_reader_position :: int
  dt_seek_position :: int
  dt_buffered_position :: int
  dt_current_track :: "nat option"
  dt_sample_holder_consumed :: int
  dt_duration :: int
  dt_initial_time :: int
  dt_pending_disable :: "nat list"
  dt_is_eos :: bool
  dt_manifest :: "presentation option"
  dt_playback_rate :: playback_rate
  dt_media_time_ready :: bool
  dt_decoder_media_time_last_call :: int
  dt_decoder_media_time_last_value_ms :: int
  dt_media_time_last_value_ms :: int
  dt_tracks :: "track_context list"
  dt_sample_offset_ms :: int
  dt_tasks :: "player_task list"
  dt_unload_signaled :: bool
  dt_codec_signaled :: bool
  dt_rate_signaled :: bool

definition TrackContext_new :: "frame_type \<Rightarrow> track_criteria \<Rightarrow> track_context" where
  "TrackContext_new frame_type criteria =
     \<lparr>tk_frame_type = frame_type, tk_has_sample = False, tk_is_eos = False,
      tk_format_holder = \<lparr>fh_format = None, fh_drm_init_data = None\<rparr>, tk_sample_holder = SampleHolder_new True,
      tk_upstream_format = None, tk_check_pssh = True, tk_renderer = TrackRenderer_new, tk_track_criteria = criteria\<rparr>"

definition DashThread_new :: dash_thread where
  "DashThread_new =
     \<lparr>dt_state = PLAYER_IDLE, dt_decoder_position = 0, dt_reader_position = 0, dt_seek_position = 0, dt_buffered_position = 0,
      dt_current_track = None, dt_sample_holder_consumed = 0, dt_duration = 0, dt_initial_time = 0, dt_pending_disable = [],
      dt_is_eos = False, dt_manifest = None, dt_playback_rate = 1, dt_media_time_ready = False,
      dt_decoder_media_time_last_call = 0, dt_decoder_media_time_last_value_ms = 0, dt_media_time_last_value_ms = 0,
      dt_tracks = [], dt_sample_offset_ms = -1, dt_tasks = [], dt_unload_signaled = False, dt_codec_signaled = False,
      dt_rate_signaled = False\<rparr>"

definition active :: "track_context \<Rightarrow> bool" where
  "active t \<longleftrightarrow> tr_state (tk_renderer t) = STARTED \<or> tr_state (tk_renderer t) = ENABLED"

definition update_track :: "nat \<Rightarrow> (track_context \<Rightarrow> track_context) \<Rightarrow> dash_thread \<Rightarrow> dash_thread" where
  "update_track i f d = (if i < length (dt_tracks d) then d\<lparr>dt_tracks := (dt_tracks d)[i := f (dt_tracks d ! i)]\<rparr> else d)"

definition SetState :: "player_state \<Rightarrow> dash_thread \<Rightarrow> dash_thread" where
  "SetState new_state d =
     (let d1 = d\<lparr>dt_state := new_state\<rparr> in if new_state = PLAYER_ENDED then d1\<lparr>dt_codec_signaled := True\<rparr> else d1)"

section \<open>Codecs\<close>

definition HaveCodecs :: "dash_thread \<Rightarrow> bool" where
  "HaveCodecs d \<longleftrightarrow>
     (\<exists>t \<in> set (dt_tracks d). tk_frame_type t = DASH_FRAME_TYPE_AUDIO \<and> tk_upstream_format t \<noteq> None) \<and>
     (\<exists>t \<in> set (dt_tracks d). tk_frame_type t = DASH_FRAME_TYPE_VIDEO \<and> tk_upstream_format t \<noteq> None)"

definition FormatGiven :: "nat \<Rightarrow> media_format \<Rightarrow> dash_thread \<Rightarrow> dash_thread" where
  "FormatGiven i f d =
     (let d1 = update_track i (\<lambda>t. t\<lparr>tk_upstream_format := Some f\<rparr>) d
      in if HaveCodecs d1 then d1\<lparr>dt_codec_signaled := True\<rparr> else d1)"

datatype video_codec = DASH_VIDEO_UNSUPPORTED | DASH_VIDEO_H264

record video_codec_settings =
  vc_video_codec :: video_codec
  vc_width :: int
  vc_height :: int

fun GetVideoCodecSettings_loop :: "track_context list \<Rightarrow> video_codec_settings option result" where
  "GetVideoCodecSettings_loop [] = Inr None"
| "GetVideoCodecSettings_loop (t # ts) =
     (if tk_frame_type t = DASH_FRAME_TYPE_VIDEO
      then (case tk_upstream_format t of
              None \<Rightarrow> Inl Check_failed
            | Some f \<Rightarrow>
                Inr (Some \<lparr>vc_video_codec = (if mf_codecs f = kVideoCodecH264 then DASH_VIDEO_H264 else DASH_VIDEO_UNSUPPORTED),
                           vc_width = mf_width f, vc_height = mf_height f\<rparr>))
      else GetVideoCodecSettings_loop ts)"

definition GetVideoCodecSettingsImpl :: "dash_thread \<Rightarrow> video_codec_settings option result" where
  "GetVideoCodecSettingsImpl d = GetVideoCodecSettings_loop (dt_tracks d)"

datatype audio_codec = DASH_AUDIO_UNSUPPORTED | DASH_AUDIO_AAC | DASH_AUDIO_AC3 | DASH_AUDIO_EAC3

record audio_codec_settings =
  ac_audio_codec :: audio_codec
  ac_num_channels :: int
  ac_channel_layout :: int
  ac_sample_format :: int
  ac_bps :: int
  ac_sample_rate :: int
  ac_bitrate :: int
  ac_blockalign :: int

definition audio_settings_of :: "media_format \<Rightarrow> audio_codec_settings" where
  "audio_settings_of f =
     \<lparr>ac_audio_codec = (if mf_codecs f = kAudioCodecAAC then DASH_AUDIO_AAC else if mf_codecs f = kAudioCodecAC3 then DASH_AUDIO_AC3
                        else if mf_codecs f = kAudioCodecEAC3 then DASH_AUDIO_EAC3 else DASH_AUDIO_UNSUPPORTED),
      ac_num_channels = mf_channel_count f, ac_channel_layout = mf_channel_layout f, ac_sample_format = mf_sample_format f,
      ac_bps = 0, ac_sample_rate = mf_sample_rate f, ac_bitrate = mf_bitrate f, ac_blockalign = 0\<rparr>"

fun GetAudioCodecSettings_loop :: "track_context list \<Rightarrow> audio_codec_settings option result" where
  "GetAudioCodecSettings_loop [] = Inr None"
| "GetAudioCodecSettings_loop (t # ts) =
     (if tk_frame_type t = DASH_FRAME_TYPE_AUDIO
      then (case tk_upstream_format t of None \<Rightarrow> Inl Check_failed | Some f \<Rightarrow> Inr (Some (audio_settings_of f)))
      else GetAudioCodecSettings_loop ts)"

definition GetAudioCodecSettingsImpl :: "dash_thread \<Rightarrow> audio_codec_settings option result" where
  "GetAudioCodecSettingsImpl d = GetAudioCodecSettings_loop (dt_tracks d)"

section \<open>Times\<close>

text \<open>The first period's start, less the presentation time offset of its first representation.\<close>

definition GetAdaptationSet :: "period \<Rightarrow> int \<Rightarrow> adaptation_set result" where
  "GetAdaptationSet p index = vector_at (pd_adaptation_sets p) index"

definition first_period_offset :: "period \<Rightarrow> int result" where
  "first_period_offset p =
     (let audio = GetAdaptationSetIndex p AUDIO
      in and_then (GetAdaptationSet p (if audio \<ge> 0 then audio else GetAdaptationSetIndex p VIDEO)) (\<lambda>a.
         and_then (if NumRepresentations a > 0
                   then and_then (GetRepresentation a 0) (\<lambda>rep. Inr (rep_presentation_timeoffset_us rep)) else Inr 0) (\<lambda>pto_us.
           Inr (narrow64 (pd_start_ms p) - InMilliseconds pto_us))))"

definition GetSampleOffsetMs :: "dash_thread \<Rightarrow> (int \<times> dash_thread) result" where
  "GetSampleOffsetMs d =
     (if dt_sample_offset_ms d \<noteq> -1 then Inr (dt_sample_offset_ms d, d)
      else (case dt_manifest d of
              None \<Rightarrow> Inl Undefined_access
            | Some m \<Rightarrow>
                and_then (if GetPeriodCount m > 0 then and_then (GetPeriod m 0) first_period_offset else Inr 0) (\<lambda>offset.
                  Inr (offset, d\<lparr>dt_sample_offset_ms := offset\<rparr>))))"

definition UpdateMediaTime :: "'w player_ops \<Rightarrow> int \<Rightarrow> dash_thread \<times> 'w \<Rightarrow> (dash_thread \<times> 'w) result" where
  "UpdateMediaTime ops now s =
     (case s of (d, w) \<Rightarrow>
        (case po_get_media_time_ms ops of
           None \<Rightarrow> Inr (d, w)
         | Some get_media_time_ms \<Rightarrow>
             if now < dt_decoder_media_time_last_call d + 1000000 then Inr (d, w)
             else (let (new_ms, w1) = get_media_time_ms w
                   in if new_ms = -1 then Inr (d, w1)
                      else (let d1 = d\<lparr>dt_decoder_media_time_last_value_ms := new_ms, dt_decoder_media_time_last_call := now\<rparr>
                            in if dt_decoder_media_time_last_value_ms d = new_ms then Inr (d1, w1)
                               else and_then (GetSampleOffsetMs d1) (\<lambda>(offset, d2).
                                 (let media_time_ms = new_ms + offset
                                  in Inr (d2\<lparr>dt_media_time_last_value_ms := media_time_ms, dt_media_time_ready := True,
                                            dt_decoder_position := FromMilliseconds media_time_ms\<rparr>, w1)))))))"

section \<open>Reading samples\<close>

text \<open>How the buffered position of the player follows from that of a track just read.\<close>

definition note_buffered :: "int \<Rightarrow> int \<Rightarrow> int \<Rightarrow> int" where
  "note_buffered renderer_duration_us renderer_buffered_position_us buffered_position =
     (if buffered_position = 0 then 0
      else if renderer_buffered_position_us = kUnknownTimeUs then 0
      else if renderer_buffered_position_us = kEndOfTrackUs \<or>
              renderer_duration_us \<noteq> kUnknownTimeUs \<and> renderer_duration_us \<noteq> kMatchLongestUs \<and>
              renderer_buffered_position_us \<ge> renderer_duration_us
      then buffered_position
      else min buffered_position renderer_buffered_position_us)"

definition DashThread_ReadFrame ::
  "('w, media_format, drm_init_data) reader_ops \<Rightarrow> int \<Rightarrow> track_context \<Rightarrow> int \<Rightarrow> 'w \<Rightarrow>
   (read_result \<times> bool \<times> track_context \<times> int \<times> 'w) result option" where
  "DashThread_ReadFrame rd reader_position t buffered_position w =
     (if \<not> active t then Some (Inr (NOTHING_READ, False, t, buffered_position, w))
      else and_then_opt (Renderer_ReadFrame rd reader_position (tk_format_holder t) (tk_sample_holder t) (tk_renderer t, w))
        (\<lambda>(result, error_occurred, fh, h, w1).
          Some (Inr (result, error_occurred, t\<lparr>tk_format_holder := fh, tk_sample_holder := h\<rparr>,
                     note_buffered (Renderer_GetDurationUs (tk_renderer t)) (Renderer_GetBufferedPositionUs rd w1) buffered_position, w1))))"

text \<open>
  What the loop over the attempts does with a result: \<open>None\<close> leaves the loop, otherwise the number of the next
  attempt. A sample that is only to be decoded does not count as an attempt.
\<close>

definition after_read :: "bool \<Rightarrow> int \<Rightarrow> read_result \<Rightarrow> bool \<Rightarrow> track_context \<Rightarrow> int option \<times> track_context" where
  "after_read trick i result error_occurred t =
     (case result of
        FORMAT_READ \<Rightarrow> (Some (i + 1), t\<lparr>tk_check_pssh := True\<rparr>)
      | END_OF_STREAM \<Rightarrow> (None, t\<lparr>tk_is_eos := True\<rparr>)
      | NOTHING_READ \<Rightarrow> (None, t)
      | SAMPLE_READ \<Rightarrow>
          if error_occurred \<or> sh_written_size (tk_sample_holder t) = 0
          then (Some (i + 1), t\<lparr>tk_sample_holder := ClearData (tk_sample_holder t)\<rparr>)
          else if IsDecodeOnly (tk_sample_holder t) \<and> (tk_frame_type t \<noteq> DASH_FRAME_TYPE_VIDEO \<or> trick)
          then (if \<not> IsSyncFrame (tk_sample_holder t) then (None, t)
                else (Some i, t\<lparr>tk_sample_holder := ClearData (tk_sample_holder t)\<rparr>))
          else (None, t\<lparr>tk_has_sample := True\<rparr>))"

definition kMaxReadAttempts :: int where "kMaxReadAttempts = 5"

partial_function (option) read_attempts ::
  "('w, media_format, drm_init_data) reader_ops \<Rightarrow> bool \<Rightarrow> int \<Rightarrow> int \<Rightarrow> track_context \<Rightarrow> int \<Rightarrow> 'w \<Rightarrow>
   (track_context \<times> int \<times> 'w) result option" where
  "read_attempts rd trick reader_position i t buffered_position w =
     (if i \<ge> kMaxReadAttempts then Some (Inr (t, buffered_position, w))
      else Option.bind (DashThread_ReadFrame rd reader_position t buffered_position w) (\<lambda>x.
        case x of
          Inl e \<Rightarrow> Some (Inl e)
        | Inr y \<Rightarrow>
            (case y of (result, error_occurred, t1, bp, w1) \<Rightarrow>
               (case after_read trick i result error_occurred t1 of (next, t2) \<Rightarrow>
                  (case next of
                     None \<Rightarrow> Some (Inr (t2, bp, w1))
                   | Some j \<Rightarrow> read_attempts rd trick reader_position j t2 bp w1)))))"

declare read_attempts.simps [code]

text \<open>The loop over the tracks; the first result is \<open>all_eos\<close>.\<close>

fun fill_loop ::
  "(nat \<Rightarrow> ('w, media_format, drm_init_data) reader_ops) \<Rightarrow> bool \<Rightarrow> int \<Rightarrow> nat \<Rightarrow> track_context list \<Rightarrow> bool \<Rightarrow> int \<Rightarrow> 'w \<Rightarrow>
   (bool \<times> track_context list \<times> int \<times> 'w) result option" where
  "fill_loop readers trick reader_position i [] all_eos bp w = Some (Inr (all_eos, [], bp, w))"
| "fill_loop readers trick reader_position i (t # ts) all_eos bp w =
     and_then_opt
       (if tk_is_eos t \<or> \<not> active t then Some (Inr (all_eos, t, bp, w))
        else if tk_has_sample t then Some (Inr (False, t, bp, w))
        else and_then_opt (read_attempts (readers i) trick reader_position 0 (t\<lparr>tk_sample_holder := ClearData (tk_sample_holder t)\<rparr>) bp w)
               (\<lambda>(t1, bp1, w1). Some (Inr (False, t1, bp1, w1))))
       (\<lambda>(all_eos1, t1, bp1, w1).
          and_then_opt (fill_loop readers trick reader_position (Suc i) ts all_eos1 bp1 w1) (\<lambda>(all_eos2, ts2, bp2, w2).
            Some (Inr (all_eos2, t1 # ts2, bp2, w2))))"

definition FillTrackSampleHolders ::
  "'w player_ops \<Rightarrow> dash_thread \<times> 'w \<Rightarrow> (bool \<times> dash_thread \<times> 'w) result option" where
  "FillTrackSampleHolders ops s =
     (case s of (d, w) \<Rightarrow>
        and_then_opt (fill_loop (po_reader ops) (Format_Evaluators.IsTrick (dt_playback_rate d)) (dt_reader_position d) 0 (dt_tracks d) True
                        (dt_buffered_position d) w) (\<lambda>(all_eos, ts, bp, w1).
          Some (Inr (\<not> all_eos, d\<lparr>dt_tracks := ts, dt_buffered_position := bp\<rparr>, w1))))"

section \<open>Choosing the next sample\<close>

text \<open>How far a sample may be ahead of the decoder: five seconds at normal speed, computed in \<open>float\<close>.\<close>

definition max_pr_buffer :: "playback_rate \<Rightarrow> int" where
  "max_pr_buffer rate = saturate (fp_trunc (fp_round 24 (5000000 * rate)))"

definition near_enough :: "playback_rate \<Rightarrow> int \<Rightarrow> int \<Rightarrow> bool" where
  "near_enough rate decoder_position sample_time =
     (let diff = saturate (sample_time - decoder_position)
      in if IsForward rate then diff \<le> max_pr_buffer rate else diff \<ge> max_pr_buffer rate)"

definition consider_track ::
  "dash_thread \<Rightarrow> nat \<Rightarrow> track_context \<Rightarrow> (nat \<times> int) option \<times> nat option \<Rightarrow> (nat \<times> int) option \<times> nat option" where
  "consider_track d i t acc =
     (case acc of (selected, media_time_track) \<Rightarrow>
        if tk_is_eos t \<or> \<not> tk_has_sample t then acc
        else (let media = (if tk_frame_type t = DASH_FRAME_TYPE_AUDIO then Some i
                           else if tk_frame_type t = DASH_FRAME_TYPE_VIDEO \<and> media_time_track = None then Some i
                           else media_time_track);
                  sample_time = sh_time_us (tk_sample_holder t);
                  selected_time = (case selected of None \<Rightarrow> 0 | Some (_, time) \<Rightarrow> time);
                  is_best_by_time = (if IsForward (dt_playback_rate d) then sample_time < selected_time else sample_time > selected_time)
              in if tk_frame_type t = DASH_FRAME_TYPE_CC \<and> \<not> dt_media_time_ready d then (selected, media)
                 else if (selected = None \<or> is_best_by_time) \<and>
                         (\<not> dt_media_time_ready d \<or> near_enough (dt_playback_rate d) (dt_decoder_position d) sample_time)
                 then (Some (i, sample_time), media)
                 else (selected, media)))"

fun select_loop ::
  "dash_thread \<Rightarrow> nat \<Rightarrow> track_context list \<Rightarrow> (nat \<times> int) option \<times> nat option \<Rightarrow> (nat \<times> int) option \<times> nat option" where
  "select_loop d i [] acc = acc"
| "select_loop d i (t # ts) acc = select_loop d (Suc i) ts (consider_track d i t acc)"

definition GetNextSampleTrack :: "dash_thread \<Rightarrow> nat option \<times> dash_thread" where
  "GetNextSampleTrack d =
     (case select_loop d 0 (dt_tracks d) (None, None) of
        (None, _) \<Rightarrow> (None, d)
      | (Some (i, sample_time), media) \<Rightarrow>
          (let d1 = d\<lparr>dt_buffered_position := (if dt_duration d = 0 then 2 ^ 63 - 1 else dt_duration d)\<rparr>
           in (Some i, if media = Some i then d1\<lparr>dt_reader_position := sample_time\<rparr> else d1)))"

section \<open>Delivering frames\<close>

definition DASH_FRAME_INFO_FLAG_FIRST_FRAGMENT :: int where "DASH_FRAME_INFO_FLAG_FIRST_FRAGMENT = 1"
definition DASH_FRAME_INFO_FLAG_LAST_FRAGMENT :: int where "DASH_FRAME_INFO_FLAG_LAST_FRAGMENT = 2"

record frame_info =
  fi_type :: "frame_type option"
  fi_flags :: int
  fi_pts :: int
  fi_duration :: int
  fi_frame_len :: int
  fi_key_id :: string
  fi_iv :: "byte list"
  fi_clear_bytes :: "int list"
  fi_enc_bytes :: "int list"
  fi_width :: int
  fi_height :: int

definition frame_info_zero :: frame_info where
  "frame_info_zero =
     \<lparr>fi_type = None, fi_flags = 0, fi_pts = 0, fi_duration = 0, fi_frame_len = 0, fi_key_id = [], fi_iv = [],
      fi_clear_bytes = [], fi_enc_bytes = [], fi_width = 0, fi_height = 0\<rparr>"

text \<open>A license is needed for an encrypted sample after every change of format.\<close>

definition MaybeCheckPssh :: "'w player_ops \<Rightarrow> track_context \<times> 'w \<Rightarrow> (bool \<times> track_context \<times> 'w) result" where
  "MaybeCheckPssh ops s =
     (case s of (t, w) \<Rightarrow>
        if \<not> tk_has_sample t \<or> \<not> IsEncrypted (tk_sample_holder t) \<or> \<not> tk_check_pssh t then Inr (True, t, w)
        else (case fh_drm_init_data (tk_format_holder t) of
                None \<Rightarrow> Inl Undefined_access
              | Some init_data \<Rightarrow>
                  (case DrmInitData_Get Uuid_empty init_data of
                     None \<Rightarrow> Inl Undefined_access
                   | Some scheme \<Rightarrow>
                       (case po_join ops (sid_data scheme) w of
                          (False, w1) \<Rightarrow> Inr (False, t, w1)
                        | (True, w1) \<Rightarrow> Inr (True, t\<lparr>tk_check_pssh := False\<rparr>, w1)))))"

definition PopulateFrameInfoCrypto :: "frame_info \<Rightarrow> sample_holder \<Rightarrow> frame_info result" where
  "PopulateFrameInfoCrypto fi h =
     (if \<not> IsEncrypted h then Inr fi
      else (let c = sh_crypto_info h; n = length (num_bytes_of_clear_data c)
            in if length (num_bytes_of_encrypted_data c) < n then Inl Undefined_access
               else Inr (fi\<lparr>fi_iv := crypto_iv c, fi_key_id := crypto_key c, fi_clear_bytes := num_bytes_of_clear_data c,
                            fi_enc_bytes := take n (num_bytes_of_encrypted_data c)\<rparr>)))"

text \<open>
  The start of a sample. A number as first result is returned at once; otherwise a fragment of the current
  sample follows.
\<close>

definition begin_sample ::
  "'w player_ops \<Rightarrow> dash_thread \<times> 'w \<Rightarrow> (int option \<times> frame_info \<times> dash_thread \<times> 'w) result option" where
  "begin_sample ops s =
     and_then_opt (FillTrackSampleHolders ops s) (\<lambda>(more, d, w).
       if \<not> more then Some (Inr (Some 0, frame_info_zero, SetState PLAYER_ENDED (d\<lparr>dt_is_eos := True\<rparr>), w))
       else (case GetNextSampleTrack d of
               (None, d1) \<Rightarrow> Some (Inr (Some (-1), frame_info_zero, d1\<lparr>dt_current_track := None\<rparr>, w))
             | (Some i, d1) \<Rightarrow>
                 (let d2 = d1\<lparr>dt_current_track := Some i\<rparr>; t = dt_tracks d2 ! i
                  in Some (and_then (MaybeCheckPssh ops (t, w)) (\<lambda>(ok, t1, w1).
                       (let d3 = d2\<lparr>dt_tracks := (dt_tracks d2)[i := t1]\<rparr>
                        in if \<not> ok then Inr (Some 0, frame_info_zero, d3, w1)
                           else and_then (PopulateFrameInfoCrypto
                                  (frame_info_zero\<lparr>fi_flags := fi_flags frame_info_zero OR DASH_FRAME_INFO_FLAG_FIRST_FRAGMENT\<rparr>)
                                  (tk_sample_holder t1)) (\<lambda>fi. Inr (None, fi, d3, w1))))))))"

text \<open>The bytes from the position reached on, as many as fit.\<close>

definition PtsFromUs :: "int \<Rightarrow> int" where
  "PtsFromUs us = ScaleLargeTimestamp us 90 1000"

definition copy_bytes :: "sample_holder \<Rightarrow> int \<Rightarrow> int \<Rightarrow> byte list result" where
  "copy_bytes h offset n =
     (if n < 0 \<or> offset < 0 then Inl Undefined_access
      else if n = 0 then Inr []
      else (case sh_buffer h of
              None \<Rightarrow> Inl Undefined_access
            | Some b \<Rightarrow> if offset + n \<le> int (length b) then Inr (take (nat n) (drop (nat offset) b)) else Inl Undefined_access))"

definition copy_fragment :: "int \<Rightarrow> frame_info \<Rightarrow> dash_thread \<Rightarrow> (int \<times> byte list \<times> frame_info \<times> dash_thread) result" where
  "copy_fragment buffer_len fi d =
     (case dt_current_track d of
        None \<Rightarrow> Inl Undefined_access
      | Some i \<Rightarrow>
          (let t = dt_tracks d ! i; h = tk_sample_holder t;
               sample_remaining = sh_written_size h - dt_sample_holder_consumed d;
               num_to_write = min buffer_len sample_remaining
           in and_then (copy_bytes h (dt_sample_holder_consumed d) num_to_write) (\<lambda>bytes.
              (case fh_format (tk_format_holder t) of
                 None \<Rightarrow> Inl Undefined_access
               | Some f \<Rightarrow>
                   and_then (GetSampleOffsetMs (d\<lparr>dt_sample_holder_consumed := dt_sample_holder_consumed d + num_to_write\<rparr>)) (\<lambda>(offset_ms, d1).
                     (let fi1 = fi\<lparr>fi_type := Some (tk_frame_type t), fi_width := wrap64 (mf_width f), fi_height := wrap64 (mf_height f),
                                   fi_pts := PtsFromUs (sh_time_us h - offset_ms * 1000),
                                   fi_duration := PtsFromUs (sh_duration_us h), fi_frame_len := sh_written_size h\<rparr>
                      in if num_to_write = sample_remaining
                         then Inr (num_to_write, bytes, fi1\<lparr>fi_flags := fi_flags fi1 OR DASH_FRAME_INFO_FLAG_LAST_FRAGMENT\<rparr>,
                                d1\<lparr>dt_sample_holder_consumed := 0, dt_current_track := None,
                                   dt_tracks := (dt_tracks d1)[i := t\<lparr>tk_has_sample := False, tk_sample_holder := ClearData h\<rparr>]\<rparr>)
                         else Inr (num_to_write, bytes, fi1, d1)))))))"

definition CopyFrameImpl ::
  "'w player_ops \<Rightarrow> int \<Rightarrow> dash_thread \<times> 'w \<Rightarrow> (int \<times> byte list \<times> frame_info \<times> dash_thread \<times> 'w) result option" where
  "CopyFrameImpl ops buffer_len s =
     (case s of (d, w) \<Rightarrow>
        if dt_state d \<noteq> PLAYER_BUFFERING then Some (Inr (-1, [], frame_info_zero, d, w))
        else and_then_opt
          (if dt_current_track d = None then begin_sample ops (d, w) else Some (Inr (None, frame_info_zero, d, w)))
          (\<lambda>(early, fi, d1, w1).
             case early of
               Some r \<Rightarrow> Some (Inr (r, [], fi, d1, w1))
             | None \<Rightarrow> Some (and_then (copy_fragment buffer_len fi d1) (\<lambda>(n, bytes, fi1, d2). Inr (n, bytes, fi1, d2, w1)))))"

text \<open>The client's call: it never sees \<open>-1\<close>.\<close>

definition CopyFrame ::
  "'w player_ops \<Rightarrow> int \<Rightarrow> dash_thread \<times> 'w \<Rightarrow> (int \<times> byte list \<times> frame_info \<times> dash_thread \<times> 'w) result option" where
  "CopyFrame ops buffer_len s =
     and_then_opt (CopyFrameImpl ops buffer_len s) (\<lambda>(ret, rest). Some (Inr (if ret = -1 then 0 else ret, rest)))"

section \<open>Loops over the tracks\<close>

fun each_track ::
  "(nat \<Rightarrow> track_context \<times> 'w \<Rightarrow> (track_context \<times> 'w) result option) \<Rightarrow> nat \<Rightarrow> track_context list \<Rightarrow> 'w \<Rightarrow>
   (track_context list \<times> 'w) result option" where
  "each_track f i [] w = Some (Inr ([], w))"
| "each_track f i (t # ts) w =
     and_then_opt (f i (t, w)) (\<lambda>(t1, w1).
     and_then_opt (each_track f (Suc i) ts w1) (\<lambda>(ts2, w2). Some (Inr (t1 # ts2, w2))))"

definition for_tracks ::
  "(nat \<Rightarrow> track_context \<times> 'w \<Rightarrow> (track_context \<times> 'w) result option) \<Rightarrow> dash_thread \<times> 'w \<Rightarrow> (dash_thread \<times> 'w) result option" where
  "for_tracks f s =
     (case s of (d, w) \<Rightarrow>
        and_then_opt (each_track f 0 (dt_tracks d) w) (\<lambda>(ts, w1). Some (Inr (d\<lparr>dt_tracks := ts\<rparr>, w1))))"

text \<open>A call of a renderer's operation on the renderer of a track.\<close>

definition on_renderer ::
  "(disable_callback track_renderer \<times> 'w \<Rightarrow> (disable_callback track_renderer \<times> 'w) result option) \<Rightarrow>
   track_context \<times> 'w \<Rightarrow> (track_context \<times> 'w) result option" where
  "on_renderer f s =
     (case s of (t, w) \<Rightarrow> and_then_opt (f (tk_renderer t, w)) (\<lambda>(r, w1). Some (Inr (t\<lparr>tk_renderer := r\<rparr>, w1))))"

definition stop_if_started :: "track_context \<Rightarrow> track_context" where
  "stop_if_started t =
     (if tr_state (tk_renderer t) = STARTED then t\<lparr>tk_renderer := Renderer_Stop (tk_renderer t)\<rparr> else t)"

definition enabled_tracks :: "track_context list \<Rightarrow> nat list" where
  "enabled_tracks ts = filter (\<lambda>i. tr_state (tk_renderer (ts ! i)) = ENABLED) [0..<length ts]"

text \<open>Stops all tracks and disables those that are enabled then.\<close>

definition stop_and_collect :: "dash_thread \<Rightarrow> dash_thread" where
  "stop_and_collect d =
     (let ts = map stop_if_started (dt_tracks d) in d\<lparr>dt_tracks := ts, dt_pending_disable := enabled_tracks ts\<rparr>)"

definition disable_pending ::
  "'w player_ops \<Rightarrow> (nat \<Rightarrow> disable_callback) \<Rightarrow> dash_thread \<times> 'w \<Rightarrow> (dash_thread \<times> 'w) result option" where
  "disable_pending ops callback s =
     for_tracks (\<lambda>i. if i \<in> set (dt_pending_disable (fst s)) then on_renderer (Renderer_Disable (po_reader ops i) (Some (callback i)))
                     else (\<lambda>s. Some (Inr s))) s"

section \<open>Updating\<close>

definition Player_Update ::
  "'w player_ops \<Rightarrow> int \<Rightarrow> bool \<Rightarrow> dash_thread \<times> 'w \<Rightarrow> (dash_thread \<times> 'w) result option" where
  "Player_Update ops now allow_schedule s =
     and_then_opt (Some (UpdateMediaTime ops now s)) (\<lambda>(d, w).
       let schedule = (\<lambda>d. if allow_schedule then d\<lparr>dt_tasks := dt_tasks d @ [Delayed_Update_Task]\<rparr> else d)
       in case dt_state d of
            PLAYER_IDLE \<Rightarrow> Some (Inr (SetState PLAYER_PREPARING d, po_start_load ops w))
          | PLAYER_BUFFERING \<Rightarrow>
              and_then_opt (for_tracks (\<lambda>i (t, w). if active t
                  then on_renderer (Renderer_Buffer (po_reader ops i) (dt_reader_position d)) (t, w) else Some (Inr (t, w))) (d, w)) (\<lambda>(d1, w1).
                Some (Inr (schedule d1, w1)))
          | PLAYER_READY \<Rightarrow> Some (Inr (schedule d, w))
          | _ \<Rightarrow> Some (Inr (d, w)))"

section \<open>Loading and unloading\<close>

definition Load_begin :: "int \<Rightarrow> dash_thread \<Rightarrow> dash_thread" where
  "Load_begin initial_time_sec d =
     d\<lparr>dt_initial_time := initial_time_sec * 1000000, dt_tasks := dt_tasks d @ [Update_Task False]\<rparr>"

definition video_track_criteria :: track_criteria where
  "video_track_criteria =
     \<lparr>tc_mime_type = ''video/*'', tc_prefer_trick = False, tc_preferred_lang = [], tc_preferred_channels = 0, tc_preferred_codec = []\<rparr>"

definition new_tracks :: "track_context list" where
  "new_tracks =
     [TrackContext_new DASH_FRAME_TYPE_VIDEO video_track_criteria,
      TrackContext_new DASH_FRAME_TYPE_AUDIO
        (video_track_criteria\<lparr>tc_mime_type := ''audio/*'', tc_preferred_codec := kAudioCodecEAC3\<rparr>),
      TrackContext_new DASH_FRAME_TYPE_CC (video_track_criteria\<lparr>tc_mime_type := ''application/x-rawcc''\<rparr>)]"

text \<open>Preparing, enabling and starting the tracks; the first result is false when a track fails, and the rest is left.\<close>

definition start_track ::
  "('w, media_format, drm_init_data) reader_ops \<Rightarrow> int \<Rightarrow> track_context \<times> 'w \<Rightarrow> (bool \<times> track_context \<times> 'w) result option" where
  "start_track rd initial_time s =
     (case s of (t, w) \<Rightarrow>
        and_then_opt (Renderer_Prepare rd initial_time (tk_renderer t, w)) (\<lambda>(ok, r1, w1).
          if \<not> ok then Some (Inr (False, t\<lparr>tk_renderer := r1\<rparr>, w1))
          else and_then_opt (Renderer_Enable rd (Some (tk_track_criteria t)) initial_time (r1, w1)) (\<lambda>(ok2, r2, w2).
            if \<not> ok2 then Some (Inr (False, t\<lparr>tk_renderer := r2\<rparr>, w2))
            else Some (Inr (True, t\<lparr>tk_renderer := Renderer_Start r2\<rparr>, w2)))))"

fun start_loop ::
  "(nat \<Rightarrow> ('w, media_format, drm_init_data) reader_ops) \<Rightarrow> int \<Rightarrow> nat \<Rightarrow> track_context list \<Rightarrow> 'w \<Rightarrow>
   (bool \<times> track_context list \<times> 'w) result option" where
  "start_loop readers initial_time i [] w = Some (Inr (True, [], w))"
| "start_loop readers initial_time i (t # ts) w =
     and_then_opt (start_track (readers i) initial_time (t, w)) (\<lambda>(ok, t1, w1).
       if \<not> ok then Some (Inr (False, t1 # ts, w1))
       else and_then_opt (start_loop readers initial_time (Suc i) ts w1) (\<lambda>(ok2, ts2, w2). Some (Inr (ok2, t1 # ts2, w2))))"

definition OnManifestRefreshed ::
  "'w player_ops \<Rightarrow> int \<Rightarrow> presentation \<Rightarrow> dash_thread \<times> 'w \<Rightarrow> (dash_thread \<times> 'w) result option" where
  "OnManifestRefreshed ops now manifest s =
     (case s of (d0, w) \<Rightarrow>
        (let d = d0\<lparr>dt_manifest := Some manifest\<rparr>
         in if dt_state d \<noteq> PLAYER_PREPARING then Some (Inr (d, w))
            else and_then_opt (start_loop (po_reader ops) (dt_initial_time d) 0 (dt_tracks d @ new_tracks) (po_make_sources ops w)) (\<lambda>(ok, ts, w1).
              if \<not> ok then Some (Inr (SetState PLAYER_ENDED (d\<lparr>dt_tracks := ts\<rparr>), w1))
              else Player_Update ops now True ((SetState PLAYER_BUFFERING (d\<lparr>dt_tracks := ts\<rparr>))
                     \<lparr>dt_duration := FromMilliseconds (mpd_duration manifest)\<rparr>, w1))))"

definition OnManifestError :: "dash_thread \<Rightarrow> dash_thread" where
  "OnManifestError d = (if dt_state d = PLAYER_PREPARING then SetState PLAYER_ENDED d else d)"

definition UnloadImpl :: "'w player_ops \<Rightarrow> dash_thread \<times> 'w \<Rightarrow> (dash_thread \<times> 'w) result option" where
  "UnloadImpl ops s =
     (case s of (d, w) \<Rightarrow>
        (let d1 = stop_and_collect (SetState PLAYER_ENDED d)
         in if dt_pending_disable d1 = [] then Some (Inr (d1\<lparr>dt_unload_signaled := True\<rparr>, w))
            else disable_pending ops Unload_Disabled (d1, w)))"

definition UnloadImplDisabled :: "'w player_ops \<Rightarrow> nat \<Rightarrow> dash_thread \<times> 'w \<Rightarrow> (dash_thread \<times> 'w) result option" where
  "UnloadImplDisabled ops i s =
     (case s of (d, w) \<Rightarrow>
        (let d1 = d\<lparr>dt_pending_disable := removeAll i (dt_pending_disable d)\<rparr>
         in if dt_pending_disable d1 \<noteq> [] then Some (Inr (d1, w))
            else and_then_opt (for_tracks (\<lambda>i (t, w). if tr_state (tk_renderer t) \<noteq> RELEASED
                then on_renderer (Renderer_Release (po_reader ops i)) (t, w) else Some (Inr (t, w))) (d1, w)) (\<lambda>(d2, w2).
              Some (Inr (d2\<lparr>dt_tasks := dt_tasks d2 @ [Notify_Unload_Task]\<rparr>, w2)))))"

section \<open>Seeking\<close>

fun adjusted_seek :: "'w player_ops \<Rightarrow> nat \<Rightarrow> track_context list \<Rightarrow> int \<Rightarrow> 'w \<Rightarrow> int result" where
  "adjusted_seek ops i [] seek_time w = Inr seek_time"
| "adjusted_seek ops i (t # ts) seek_time w =
     (if tk_frame_type t = DASH_FRAME_TYPE_VIDEO then po_get_adjusted_seek ops i seek_time w
      else adjusted_seek ops (Suc i) ts seek_time w)"

definition kMinimumSeekDistance :: int where "kMinimumSeekDistance = 2000000"

definition seek_track ::
  "('w, media_format, drm_init_data) reader_ops \<Rightarrow> int \<Rightarrow> track_context \<times> 'w \<Rightarrow> (track_context \<times> 'w) result option" where
  "seek_track rd position s =
     (let t = stop_if_started (fst s)
      in if tr_state (tk_renderer t) = ENABLED
         then and_then_opt (Renderer_SeekTo rd position (tk_renderer t, snd s)) (\<lambda>(_, r, w1).
                Some (Inr (t\<lparr>tk_renderer := Renderer_Start r\<rparr>, w1)))
         else Some (Inr (t, snd s)))"

text \<open>A sample that has been read but not delivered is dropped.\<close>

definition drop_sample :: "track_context \<Rightarrow> track_context" where
  "drop_sample t = t\<lparr>tk_sample_holder := ClearData (tk_sample_holder t), tk_has_sample := False\<rparr>"

definition SeekImpl :: "'w player_ops \<Rightarrow> int \<Rightarrow> dash_thread \<times> 'w \<Rightarrow> (int \<times> dash_thread \<times> 'w) result option" where
  "SeekImpl ops time_ms s =
     (case s of (d0, w) \<Rightarrow>
        and_then_opt (Some (GetSampleOffsetMs d0)) (\<lambda>(offset_ms, d).
        and_then_opt (Some (adjusted_seek ops 0 (dt_tracks d) (FromMilliseconds (time_ms + offset_ms)) w)) (\<lambda>seek_time.
          if \<bar>saturate (seek_time - dt_decoder_position d)\<bar> < kMinimumSeekDistance \<and> time_ms \<noteq> 0 then Some (Inr (-1, d, w))
          else if Format_Evaluators.IsTrick (dt_playback_rate d) then Some (Inr (-1, d, w))
          else (let d1 = d\<lparr>dt_decoder_position := seek_time, dt_reader_position := seek_time, dt_seek_position := seek_time,
                           dt_media_time_last_value_ms := seek_time, dt_decoder_media_time_last_value_ms := 0\<rparr>
                in if dt_state d1 \<noteq> PLAYER_BUFFERING then Some (Inr (0, d1\<lparr>dt_initial_time := seek_time\<rparr>, w))
                   else and_then_opt
                     (for_tracks (\<lambda>i. seek_track (po_reader ops i) (dt_reader_position d1))
                        (d1, case po_decoder_flush ops of Some flush \<Rightarrow> flush w | None \<Rightarrow> w)) (\<lambda>(d2, w2).
                     Some (Inr (0, d2\<lparr>dt_current_track := None, dt_sample_holder_consumed := 0,
                                      dt_tracks := map drop_sample (dt_tracks d2), dt_media_time_ready := False,
                                      dt_tasks := dt_tasks d2 @ [Update_Task False]\<rparr>, w2)))))))"

section \<open>Changing the rate\<close>

definition SetPlaybackRateDisableTracks ::
  "'w player_ops \<Rightarrow> playback_rate \<Rightarrow> dash_thread \<times> 'w \<Rightarrow> (dash_thread \<times> 'w) result option" where
  "SetPlaybackRateDisableTracks ops new_rate s =
     (case s of (d, w) \<Rightarrow>
        if dt_playback_rate d = new_rate then Some (Inr (d\<lparr>dt_rate_signaled := True\<rparr>, w))
        else (let d1 = stop_and_collect (SetState PLAYER_READY d)
              in if dt_pending_disable d1 = [] then Some (Inr (d1\<lparr>dt_rate_signaled := True\<rparr>, w))
                 else disable_pending ops (Rate_Enable_Tracks new_rate) (d1, w)))"

definition enable_for_rate ::
  "('w, media_format, drm_init_data) reader_ops \<Rightarrow> playback_rate \<Rightarrow> int \<Rightarrow> track_context \<times> 'w \<Rightarrow> (track_context \<times> 'w) result option" where
  "enable_for_rate rd rate position s =
     (case s of (t, w) \<Rightarrow>
        if tk_frame_type t = DASH_FRAME_TYPE_VIDEO \<or> IsNormal rate
        then (let criteria = (tk_track_criteria t)\<lparr>tc_prefer_trick := Format_Evaluators.IsTrick rate\<rparr>
              in and_then_opt (Renderer_Enable rd (Some criteria) position (tk_renderer t, w)) (\<lambda>(_, r, w1).
                   Some (Inr (drop_sample (t\<lparr>tk_track_criteria := criteria, tk_renderer := Renderer_Start r\<rparr>), w1))))
        else Some (Inr (t, w)))"

definition SetPlaybackRateEnableTracks ::
  "'w player_ops \<Rightarrow> int \<Rightarrow> playback_rate \<Rightarrow> nat \<Rightarrow> dash_thread \<times> 'w \<Rightarrow> (dash_thread \<times> 'w) result option" where
  "SetPlaybackRateEnableTracks ops now new_rate i s =
     (case s of (d, w) \<Rightarrow>
        (let d1 = d\<lparr>dt_pending_disable := removeAll i (dt_pending_disable d)\<rparr>
         in if dt_pending_disable d1 \<noteq> [] then Some (Inr (d1, w))
            else (case po_decoder_flush ops of
                    None \<Rightarrow> Some (Inl Undefined_access)
                  | Some flush \<Rightarrow>
                      and_then_opt (for_tracks (\<lambda>i. enable_for_rate (po_reader ops i) new_rate (dt_decoder_position d1))
                          ((SetState PLAYER_BUFFERING d1)\<lparr>dt_is_eos := False, dt_playback_rate := new_rate\<rparr>, flush w)) (\<lambda>(d2, w2).
                        Player_Update ops now False (d2\<lparr>dt_media_time_ready := False, dt_sample_holder_consumed := 0, dt_current_track := None,
                                                 dt_rate_signaled := True\<rparr>, w2)))))"

section \<open>Questions of the client\<close>

definition GetFirstTimeMsImpl :: "dash_thread \<Rightarrow> (int \<times> dash_thread) result" where
  "GetFirstTimeMsImpl d = GetSampleOffsetMs d"

definition GetDurationMsImpl :: "dash_thread \<Rightarrow> int" where
  "GetDurationMsImpl d = InMilliseconds (dt_duration d)"

text \<open>The numbers of video, audio and caption streams, and the result.\<close>

definition GetStreamCountsImpl :: "(int \<times> int \<times> int) \<times> int" where
  "GetStreamCountsImpl = ((1, 1, 0), 1)"

text \<open>The answer of \<open>Load\<close> once its waiter was signaled or its time has passed.\<close>

definition Load_result :: "dash_thread \<Rightarrow> bool" where
  "Load_result d = HaveCodecs d"

section \<open>Tasks and callbacks\<close>

definition run_disable_callback ::
  "'w player_ops \<Rightarrow> int \<Rightarrow> disable_callback \<Rightarrow> dash_thread \<times> 'w \<Rightarrow> (dash_thread \<times> 'w) result option" where
  "run_disable_callback ops now callback s =
     (case callback of
        Unload_Disabled i \<Rightarrow> UnloadImplDisabled ops i s
      | Rate_Enable_Tracks new_rate i \<Rightarrow> SetPlaybackRateEnableTracks ops now new_rate i s)"

text \<open>The source of a track reports that it is disabled: the callback runs and is reset then.\<close>

definition track_disabled :: "'w player_ops \<Rightarrow> int \<Rightarrow> nat \<Rightarrow> dash_thread \<times> 'w \<Rightarrow> (dash_thread \<times> 'w) result option" where
  "track_disabled ops now i s =
     (case fst (DisableDone (tk_renderer (dt_tracks (fst s) ! i))) of
        None \<Rightarrow> Some (Inr s)
      | Some callback \<Rightarrow>
          and_then_opt (run_disable_callback ops now callback s) (\<lambda>(d, w).
            Some (Inr (update_track i (\<lambda>t. t\<lparr>tk_renderer := snd (DisableDone (tk_renderer t))\<rparr>) d, w))))"

fun run_task :: "'w player_ops \<Rightarrow> int \<Rightarrow> player_task \<Rightarrow> dash_thread \<times> 'w \<Rightarrow> (dash_thread \<times> 'w) result option" where
  "run_task ops now (Update_Task allow_schedule) s = Player_Update ops now allow_schedule s"
| "run_task ops now Delayed_Update_Task s = Player_Update ops now True s"
| "run_task ops now Notify_Unload_Task s = Some (Inr ((fst s)\<lparr>dt_unload_signaled := True\<rparr>, snd s))"

text \<open>What the client's thread does once it has been woken by the end of the unloading.\<close>

definition Unload_finish :: "dash_thread \<Rightarrow> dash_thread" where
  "Unload_finish d = d\<lparr>dt_tracks := [], dt_manifest := None, dt_unload_signaled := False\<rparr>"

end
