(* ===== verification/Dash_Thread_Properties.thy ===== *)
theory Dash_Thread_Properties
  imports Dash_Thread
begin

text \<open>
  Correctness of the player: the sample it hands out next, the fragments a sample is delivered in, its
  invariant over all calls, tasks and callbacks, what a change of rate does, and the defects found on the
  way.
\<close>

section \<open>The next sample\<close>

definition selectable :: "dash_thread \<Rightarrow> track_context \<Rightarrow> bool" where
  "selectable d t \<longleftrightarrow>
     \<not> tk_is_eos t \<and> tk_has_sample t \<and> (tk_frame_type t = DASH_FRAME_TYPE_CC \<longrightarrow> dt_media_time_ready d) \<and>
     (dt_media_time_ready d \<longrightarrow> near_enough (dt_playback_rate d) (dt_decoder_position d) (sh_time_us (tk_sample_holder t)))"

definition sample_time :: "track_context \<Rightarrow> int" where
  "sample_time t = sh_time_us (tk_sample_holder t)"

text \<open>Whether a time comes first in the direction of playback.\<close>

definition earlier :: "dash_thread \<Rightarrow> int \<Rightarrow> int \<Rightarrow> bool" where
  "earlier d a b \<longleftrightarrow> (if IsForward (dt_playback_rate d) then a < b else a > b)"

lemma fst_consider_track:
  "fst (consider_track d i t (selected, media)) =
     (if selectable d t \<and> (case selected of None \<Rightarrow> True | Some (_, time) \<Rightarrow> earlier d (sample_time t) time)
      then Some (i, sample_time t) else selected)"
  by (auto simp: consider_track_def selectable_def earlier_def sample_time_def Let_def split: option.splits)

text \<open>The selection after a prefix of the tracks: the first of those with the earliest time.\<close>

definition best_of :: "dash_thread \<Rightarrow> track_context list \<Rightarrow> (nat \<times> int) option \<Rightarrow> bool" where
  "best_of d ts selected \<longleftrightarrow>
     (case selected of
        None \<Rightarrow> \<forall>t \<in> set ts. \<not> selectable d t
      | Some (i, time) \<Rightarrow>
          i < length ts \<and> selectable d (ts ! i) \<and> time = sample_time (ts ! i) \<and>
          (\<forall>j < length ts. selectable d (ts ! j) \<longrightarrow> \<not> earlier d (sample_time (ts ! j)) time \<and>
             (j < i \<longrightarrow> sample_time (ts ! j) \<noteq> time)))"

lemma best_of_snoc:
  assumes "best_of d ts selected"
  shows "best_of d (ts @ [t]) (fst (consider_track d (length ts) t (selected, media)))"
proof (cases selected)
  case None
  then show ?thesis using assms by (auto simp: best_of_def fst_consider_track nth_append less_Suc_eq earlier_def)
next
  case (Some s)
  obtain i time where s: "s = (i, time)" by (cases s)
  show ?thesis
    using assms Some s
    by (auto simp: best_of_def fst_consider_track nth_append less_Suc_eq earlier_def split: if_splits)
qed

lemma select_loop_best:
  "best_of d pre (fst acc) \<Longrightarrow> best_of d (pre @ ts) (fst (select_loop d (length pre) ts acc))"
proof (induction ts arbitrary: pre acc)
  case (Cons t ts)
  obtain selected media where acc: "acc = (selected, media)" by (cases acc)
  have "best_of d (pre @ [t]) (fst (consider_track d (length pre) t acc))"
    using best_of_snoc Cons.prems acc by simp
  from Cons.IH [OF this] show ?case by simp
qed simp

lemma GetNextSampleTrack_best: "best_of d (dt_tracks d) (fst (select_loop d 0 (dt_tracks d) (None, None)))"
  using select_loop_best [of d "[]" "(None, None)" "dt_tracks d"] by (simp add: best_of_def)

lemma next_track_valid:
  "GetNextSampleTrack d = (Some i, d') \<Longrightarrow> i < length (dt_tracks d) \<and> selectable d (dt_tracks d ! i)"
  using GetNextSampleTrack_best [of d]
  by (auto simp: GetNextSampleTrack_def best_of_def Let_def split: prod.splits option.splits)

text \<open>
  The specification of the choice: a sample may be delivered when its track has not ended, text waits for
  the media time, and with a known media time the sample is no farther ahead of the decoder than five
  seconds times the rate, a product in single precision.
\<close>

definition ahead_limit :: "dash_thread \<Rightarrow> rat" where
  "ahead_limit d = fp_round 24 (5000000 * dt_playback_rate d)"

definition candidate :: "dash_thread \<Rightarrow> track_context \<Rightarrow> bool" where
  "candidate d t \<longleftrightarrow>
     \<not> tk_is_eos t \<and> tk_has_sample t \<and> (tk_frame_type t = DASH_FRAME_TYPE_CC \<longrightarrow> dt_media_time_ready d) \<and>
     (dt_media_time_ready d \<longrightarrow>
        (if dt_playback_rate d \<ge> 0 then of_int (sample_time t - dt_decoder_position d) \<le> ahead_limit d
         else of_int (sample_time t - dt_decoder_position d) \<ge> ahead_limit d))"

text \<open>The track that defines the media time: the audio track, without one the video track, among those with a sample.\<close>

definition with_sample :: "dash_thread \<Rightarrow> frame_type \<Rightarrow> nat list" where
  "with_sample d ty = filter (\<lambda>i. \<not> tk_is_eos (dt_tracks d ! i) \<and> tk_has_sample (dt_tracks d ! i) \<and> tk_frame_type (dt_tracks d ! i) = ty)
     [0..<length (dt_tracks d)]"

definition media_time_track :: "dash_thread \<Rightarrow> nat option" where
  "media_time_track d =
     (if with_sample d DASH_FRAME_TYPE_AUDIO \<noteq> [] then Some (last (with_sample d DASH_FRAME_TYPE_AUDIO))
      else if with_sample d DASH_FRAME_TYPE_VIDEO \<noteq> [] then Some (hd (with_sample d DASH_FRAME_TYPE_VIDEO)) else None)"

lemma ahead_limit_bounds:
  assumes "\<bar>dt_playback_rate d\<bar> \<le> 1024"
  shows "\<bar>ahead_limit d\<bar> \<le> 5120000000" "0 \<le> dt_playback_rate d \<Longrightarrow> 0 \<le> ahead_limit d" "dt_playback_rate d \<le> 0 \<Longrightarrow> ahead_limit d \<le> 0"
proof -
  have top: "fp_round 24 5120000000 = 5120000000" "fp_round 24 (- 5120000000) = - 5120000000" by code_simp+
  have "5000000 * dt_playback_rate d \<le> 5120000000" "- 5120000000 \<le> 5000000 * dt_playback_rate d" using assms by simp_all
  then show "\<bar>ahead_limit d\<bar> \<le> 5120000000"
    using fp_round_mono [of "5000000 * dt_playback_rate d" 5120000000 24] fp_round_mono [of "- 5120000000" "5000000 * dt_playback_rate d" 24]
    unfolding ahead_limit_def top by simp
  show "0 \<le> ahead_limit d" if "0 \<le> dt_playback_rate d" using that unfolding ahead_limit_def by (intro fp_round_nonneg) simp_all
  show "ahead_limit d \<le> 0" if "dt_playback_rate d \<le> 0"
    using that fp_round_mono [of "5000000 * dt_playback_rate d" 0 24] by (simp add: ahead_limit_def fp_round_def [of _ 0])
qed

lemma saturate_compare:
  assumes "- (2 ^ 62) \<le> m" "m \<le> 2 ^ 62"
  shows "saturate x \<le> m \<longleftrightarrow> x \<le> m" "saturate x \<ge> m \<longleftrightarrow> x \<ge> m" "saturate m = m"
  using assms by (auto simp: saturate_def)

lemma candidate_selectable:
  assumes "\<bar>dt_playback_rate d\<bar> \<le> 1024"
  shows "selectable d t = candidate d t"
proof -
  let ?L = "ahead_limit d" and ?x = "sample_time t - dt_decoder_position d"
  note L = ahead_limit_bounds [OF assms]
  have "\<bar>fp_trunc ?L\<bar> \<le> 5120000000"
  proof (cases "0 \<le> ?L")
    case True
    then have "0 \<le> \<lfloor>?L\<rfloor>" "\<lfloor>?L\<rfloor> \<le> 5120000000" using L(1) by (simp_all add: floor_le_iff)
    then show ?thesis using True by (simp add: fp_trunc_def)
  next
    case False
    then have "0 \<le> \<lfloor>- ?L\<rfloor>" "\<lfloor>- ?L\<rfloor> \<le> 5120000000" using L(1) by (simp_all add: floor_le_iff)
    then show ?thesis using False by (simp add: fp_trunc_def)
  qed
  then have range: "- (2 ^ 62) \<le> fp_trunc ?L" "fp_trunc ?L \<le> 2 ^ 62" by simp_all
  have fwd: "?x \<le> fp_trunc ?L \<longleftrightarrow> of_int ?x \<le> ?L" if "0 \<le> dt_playback_rate d"
    using L(2) [OF that] by (simp add: fp_trunc_def le_floor_iff)
  have bwd: "?x \<ge> fp_trunc ?L \<longleftrightarrow> of_int ?x \<ge> ?L" if "\<not> 0 \<le> dt_playback_rate d"
  proof (cases "?L = 0")
    case False
    then have "\<not> 0 \<le> ?L" using L(3) that by simp
    then have "?x \<ge> fp_trunc ?L \<longleftrightarrow> - ?x \<le> \<lfloor>- ?L\<rfloor>" by (simp add: fp_trunc_def) linarith
    also have "\<dots> \<longleftrightarrow> of_int (- ?x) \<le> - ?L" by (simp only: le_floor_iff)
    also have "\<dots> \<longleftrightarrow> of_int ?x \<ge> ?L" by (simp only: of_int_minus neg_le_iff_le)
    finally show ?thesis .
  qed (simp add: fp_trunc_def)
  have near: "near_enough (dt_playback_rate d) (dt_decoder_position d) (sh_time_us (tk_sample_holder t)) =
      (if dt_playback_rate d \<ge> 0 then ?x \<le> fp_trunc ?L else ?x \<ge> fp_trunc ?L)"
    using saturate_compare [OF range]
    by (simp add: near_enough_def max_pr_buffer_def ahead_limit_def IsForward_def sample_time_def Let_def)
  show ?thesis using fwd bwd unfolding selectable_def candidate_def near by auto
qed

lemma snd_consider_track:
  "snd (consider_track d i t acc) =
     (if tk_is_eos t \<or> \<not> tk_has_sample t then snd acc
      else if tk_frame_type t = DASH_FRAME_TYPE_AUDIO then Some i
      else if tk_frame_type t = DASH_FRAME_TYPE_VIDEO \<and> snd acc = None then Some i else snd acc)"
  by (auto simp: consider_track_def Let_def split: prod.splits)

lemma select_loop_snoc: "select_loop d k (ts @ [t]) acc = consider_track d (k + length ts) t (select_loop d k ts acc)"
  by (induction ts arbitrary: k acc) simp_all

lemma with_sample_snoc:
  "with_sample (d\<lparr>dt_tracks := ts @ [t]\<rparr>) ty = with_sample (d\<lparr>dt_tracks := ts\<rparr>) ty @
     (if \<not> tk_is_eos t \<and> tk_has_sample t \<and> tk_frame_type t = ty then [length ts] else [])"
  by (auto simp: with_sample_def nth_append intro!: filter_cong)

lemma select_loop_media: "snd (select_loop d 0 ts (None, None)) = media_time_track (d\<lparr>dt_tracks := ts\<rparr>)"
proof (induction ts rule: rev_induct)
  case Nil
  show ?case by (simp add: media_time_track_def with_sample_def)
next
  case (snoc t ts)
  let ?d = "d\<lparr>dt_tracks := ts\<rparr>"
  have "media_time_track ?d = None \<longleftrightarrow> with_sample ?d DASH_FRAME_TYPE_AUDIO = [] \<and> with_sample ?d DASH_FRAME_TYPE_VIDEO = []"
    by (simp add: media_time_track_def)
  then show ?case
    unfolding select_loop_snoc snd_consider_track snoc
    by (cases "tk_frame_type t") (auto simp: media_time_track_def with_sample_snoc)
qed

text \<open>
  C17. The next sample. The player picks a track exactly when some track has a sample that may be delivered
  now (\<open>candidate\<close>). The track picked has the earliest such sample in the direction of playback, and of
  several with the same time it is the first. When the track picked is the one that defines the media
  time, the reader position becomes the time of its sample, otherwise it stays; the buffered position
  starts again from the duration, or from the greatest time when that is unknown; nothing else changes, and nothing at
  all when no track is picked. Rates are up to 1024 in either direction.
\<close>

theorem next_sample_track_best:
  assumes "\<bar>dt_playback_rate d\<bar> \<le> 1024"
  shows "case GetNextSampleTrack d of
     (None, d') \<Rightarrow> d' = d \<and> (\<forall>t \<in> set (dt_tracks d). \<not> candidate d t)
   | (Some i, d') \<Rightarrow> i < length (dt_tracks d) \<and> candidate d (dt_tracks d ! i) \<and>
       (\<forall>j < length (dt_tracks d). candidate d (dt_tracks d ! j) \<longrightarrow>
          \<not> earlier d (sample_time (dt_tracks d ! j)) (sample_time (dt_tracks d ! i)) \<and>
          (j < i \<longrightarrow> sample_time (dt_tracks d ! j) \<noteq> sample_time (dt_tracks d ! i))) \<and>
       d' = d\<lparr>dt_buffered_position := (if dt_duration d = 0 then 2 ^ 63 - 1 else dt_duration d),
              dt_reader_position := (if media_time_track d = Some i then sample_time (dt_tracks d ! i) else dt_reader_position d)\<rparr>"
proof (cases "select_loop d 0 (dt_tracks d) (None, None)")
  case (Pair selected media)
  have media: "media = media_time_track d" using select_loop_media [of d "dt_tracks d"] Pair by simp
  have best: "best_of d (dt_tracks d) selected" using GetNextSampleTrack_best [of d] Pair by simp
  show ?thesis
  proof (cases selected)
    case None
    then show ?thesis using best Pair candidate_selectable [OF assms] by (simp add: GetNextSampleTrack_def best_of_def)
  next
    case (Some s)
    obtain i time where s: "s = (i, time)" by (cases s)
    have d': "GetNextSampleTrack d = (Some i, d\<lparr>dt_buffered_position := (if dt_duration d = 0 then 2 ^ 63 - 1 else dt_duration d),
        dt_reader_position := (if media_time_track d = Some i then time else dt_reader_position d)\<rparr>)"
      using Pair Some s media by (simp add: GetNextSampleTrack_def Let_def)
    show ?thesis using best unfolding d' Some s best_of_def candidate_selectable [OF assms] by clarsimp
  qed
qed

definition demo_track :: "frame_type \<Rightarrow> int \<Rightarrow> byte list \<Rightarrow> track_context" where
  "demo_track frame_type time bytes =
     (TrackContext_new frame_type video_track_criteria)
       \<lparr>tk_has_sample := True, tk_renderer := TrackRenderer_new\<lparr>tr_state := STARTED, tr_source_is_enabled := True\<rparr>,
        tk_format_holder := \<lparr>fh_format = Some (CreateFormatForMimeType ''t'' ''video/mp4'' 0 0), fh_drm_init_data = None\<rparr>,
        tk_sample_holder := (SampleHolder_new True)\<lparr>sh_buffer := Some bytes, sh_buffer_len := int (length bytes),
           sh_written_size := int (length bytes), sh_time_us := time\<rparr>\<rparr>"

definition demo_player :: dash_thread where
  "demo_player =
     DashThread_new\<lparr>dt_state := PLAYER_BUFFERING, dt_sample_offset_ms := 0,
       dt_tracks := [demo_track DASH_FRAME_TYPE_VIDEO 40 [1, 2, 3, 4, 5], demo_track DASH_FRAME_TYPE_AUDIO 20 [6]]\<rparr>"

theorem next_sample_track_best_witness:
  "fst (GetNextSampleTrack demo_player) = Some 1 \<and> dt_reader_position (snd (GetNextSampleTrack demo_player)) = 20 \<and>
   \<not> earlier demo_player (sample_time (dt_tracks demo_player ! 0)) (sample_time (dt_tracks demo_player ! 1))"
proof -
  have "fst (GetNextSampleTrack demo_player) = Some 1" "candidate demo_player (dt_tracks demo_player ! 0)"
    "length (dt_tracks demo_player) = 2" "media_time_track demo_player = Some 1" "sample_time (dt_tracks demo_player ! 1) = 20"
    "\<bar>dt_playback_rate demo_player\<bar> \<le> 1024" by code_simp+
  then show ?thesis using next_sample_track_best [of demo_player] by (auto split: prod.splits)
qed

section \<open>Fragments\<close>

text \<open>
  The offset between sample times and the client's times: it is stored once it has been computed from the
  manifest, and known when one of the two is there.
\<close>

definition offset_known :: "dash_thread \<Rightarrow> bool" where
  "offset_known d \<longleftrightarrow> (\<exists>r. GetSampleOffsetMs d = Inr r)"

definition sample_offset :: "dash_thread \<Rightarrow> int" where
  "sample_offset d = (case GetSampleOffsetMs d of Inr (offset, _) \<Rightarrow> offset | Inl _ \<Rightarrow> 0)"

lemma GetSampleOffsetMs_known:
  assumes "offset_known d"
  shows "GetSampleOffsetMs d = Inr (sample_offset d, d\<lparr>dt_sample_offset_ms := sample_offset d\<rparr>)"
  using assms by (cases "dt_sample_offset_ms d = -1") (auto simp: offset_known_def sample_offset_def GetSampleOffsetMs_def and_then_Inr split: option.splits)

lemma sample_offset_cong:
  assumes "dt_sample_offset_ms d' = dt_sample_offset_ms d" "dt_manifest d' = dt_manifest d"
  shows "sample_offset d' = sample_offset d" "offset_known d' = offset_known d"
  using assms by (auto simp: sample_offset_def offset_known_def GetSampleOffsetMs_def and_then_def split: option.splits sum.splits)

lemma sample_offset_stored:
  assumes "offset_known d"
  shows "sample_offset (d\<lparr>dt_sample_offset_ms := sample_offset d\<rparr>) = sample_offset d" "offset_known (d\<lparr>dt_sample_offset_ms := sample_offset d\<rparr>)"
  using assms
  by (cases "dt_sample_offset_ms d = -1"; auto simp: sample_offset_def offset_known_def GetSampleOffsetMs_def and_then_def split: option.splits sum.splits)+

text \<open>A sample is being delivered: its track, and a format for the frame information.\<close>

definition delivering :: "dash_thread \<Rightarrow> nat \<Rightarrow> bool" where
  "delivering d i \<longleftrightarrow>
     dt_state d = PLAYER_BUFFERING \<and> dt_current_track d = Some i \<and> i < length (dt_tracks d) \<and>
     holder_inv (tk_sample_holder (dt_tracks d ! i)) \<and> fh_format (tk_format_holder (dt_tracks d ! i)) \<noteq> None \<and>
     0 \<le> dt_sample_holder_consumed d \<and> dt_sample_holder_consumed d < sh_written_size (tk_sample_holder (dt_tracks d ! i)) \<and>
     offset_known d"

definition current_bytes :: "dash_thread \<Rightarrow> nat \<Rightarrow> byte list" where
  "current_bytes d i = drop (nat (dt_sample_holder_consumed d)) (holder_data (tk_sample_holder (dt_tracks d ! i)))"

text \<open>What the information of every fragment says about the sample.\<close>

definition describes_sample :: "int \<Rightarrow> track_context \<Rightarrow> frame_info \<Rightarrow> bool" where
  "describes_sample offset_ms t fi \<longleftrightarrow>
     fi_type fi = Some (tk_frame_type t) \<and> fi_frame_len fi = sh_written_size (tk_sample_holder t) \<and>
     fi_pts fi = PtsFromUs (sh_time_us (tk_sample_holder t) - offset_ms * 1000) \<and>
     fi_duration fi = PtsFromUs (sh_duration_us (tk_sample_holder t))"

text \<open>The part of the information that only the first fragment has: key, initialization vector and subsamples.\<close>

definition same_crypto :: "frame_info \<Rightarrow> frame_info \<Rightarrow> bool" where
  "same_crypto fi fi' \<longleftrightarrow> fi_key_id fi' = fi_key_id fi \<and> fi_iv fi' = fi_iv fi \<and> fi_clear_bytes fi' = fi_clear_bytes fi \<and>
     fi_enc_bytes fi' = fi_enc_bytes fi"

lemma length_current_bytes:
  assumes "delivering d i"
  shows "int (length (current_bytes d i)) = sh_written_size (tk_sample_holder (dt_tracks d ! i)) - dt_sample_holder_consumed d"
  using assms by (auto simp: delivering_def current_bytes_def holder_inv_def holder_data_def split: option.splits)

lemma copy_bytes_current:
  assumes "delivering d i" "0 < n" "n \<le> int (length (current_bytes d i))"
  shows "copy_bytes (tk_sample_holder (dt_tracks d ! i)) (dt_sample_holder_consumed d) n = Inr (take (nat n) (current_bytes d i))"
proof -
  let ?h = "tk_sample_holder (dt_tracks d ! i)" and ?c = "dt_sample_holder_consumed d"
  obtain b where b: "sh_buffer ?h = Some b" using assms(1) by (auto simp: delivering_def holder_inv_def split: option.splits)
  have bounds: "0 \<le> ?c" "?c + n \<le> sh_written_size ?h" "sh_written_size ?h \<le> int (length b)"
    using assms length_current_bytes [OF assms(1)] b by (auto simp: delivering_def holder_inv_def)
  have "take (nat n) (drop (nat ?c) (take (nat (sh_written_size ?h)) b)) = take (nat n) (drop (nat ?c) b)"
    using bounds assms(2) by (simp add: drop_take min_def)
  then show ?thesis using bounds assms(2) b by (simp add: copy_bytes_def current_bytes_def holder_data_def)
qed

lemma offset_after_copy:
  assumes "delivering d i"
  shows "GetSampleOffsetMs (d\<lparr>dt_sample_holder_consumed := c\<rparr>) =
    Inr (sample_offset d, d\<lparr>dt_sample_holder_consumed := c, dt_sample_offset_ms := sample_offset d\<rparr>)"
  using GetSampleOffsetMs_known [of "d\<lparr>dt_sample_holder_consumed := c\<rparr>"] sample_offset_cong [of "d\<lparr>dt_sample_holder_consumed := c\<rparr>" d] assms
  by (simp add: delivering_def)

lemma copy_fragment_part:
  assumes "delivering d i" "0 < n" "n < int (length (current_bytes d i))"
  shows "\<exists>fi'. copy_fragment n fi d = Inr (n, take (nat n) (current_bytes d i), fi',
      d\<lparr>dt_sample_holder_consumed := dt_sample_holder_consumed d + n, dt_sample_offset_ms := sample_offset d\<rparr>) \<and>
    fi_flags fi' = fi_flags fi \<and> describes_sample (sample_offset d) (dt_tracks d ! i) fi' \<and> same_crypto fi fi'"
  using assms copy_bytes_current [OF assms(1,2)] length_current_bytes [OF assms(1)] offset_after_copy [OF assms(1)]
  by (auto simp: copy_fragment_def Let_def delivering_def describes_sample_def same_crypto_def)

definition delivered :: "dash_thread \<Rightarrow> nat \<Rightarrow> dash_thread" where
  "delivered d i =
     d\<lparr>dt_sample_holder_consumed := 0, dt_current_track := None, dt_sample_offset_ms := sample_offset d,
       dt_tracks := (dt_tracks d)[i := (dt_tracks d ! i)\<lparr>tk_has_sample := False,
         tk_sample_holder := ClearData (tk_sample_holder (dt_tracks d ! i))\<rparr>]\<rparr>"

lemma copy_fragment_last:
  assumes "delivering d i" "int (length (current_bytes d i)) \<le> n"
  shows "\<exists>fi'. copy_fragment n fi d = Inr (int (length (current_bytes d i)), current_bytes d i, fi', delivered d i) \<and>
    fi_flags fi' = fi_flags fi OR DASH_FRAME_INFO_FLAG_LAST_FRAGMENT \<and>
    describes_sample (sample_offset d) (dt_tracks d ! i) fi' \<and> same_crypto fi fi'"
proof -
  have "0 < int (length (current_bytes d i))" using length_current_bytes [OF assms(1)] assms(1) by (simp add: delivering_def)
  then show ?thesis
    using assms copy_bytes_current [OF assms(1), of "int (length (current_bytes d i))"] length_current_bytes [OF assms(1)]
      offset_after_copy [OF assms(1)]
    by (auto simp: copy_fragment_def Let_def delivering_def delivered_def min_absorb2 describes_sample_def same_crypto_def)
qed

lemma CopyFrame_delivering:
  assumes "delivering d i" "copy_fragment n frame_info_zero d = Inr (k, bytes, fi, d')" "0 \<le> k"
  shows "CopyFrame ops n (d, w) = Some (Inr (k, bytes, fi, d', w))"
  using assms by (simp add: CopyFrame_def CopyFrameImpl_def delivering_def)

lemma delivering_step:
  assumes "delivering d i" "0 < n" "n < int (length (current_bytes d i))"
    and "d' = d\<lparr>dt_sample_holder_consumed := dt_sample_holder_consumed d + n, dt_sample_offset_ms := sample_offset d\<rparr>"
  shows "delivering d' i" "current_bytes d' i = drop (nat n) (current_bytes d i)" "delivered d' i = delivered d i"
    "sample_offset d' = sample_offset d" "dt_tracks d' = dt_tracks d"
proof -
  have o: "sample_offset d' = sample_offset d" "offset_known d'"
    using sample_offset_stored [of d] sample_offset_cong [of d' "d\<lparr>dt_sample_offset_ms := sample_offset d\<rparr>"] assms(1)
    by (simp_all add: assms(4) delivering_def)
  show "delivering d' i" using assms o(2) length_current_bytes [OF assms(1)] by (simp add: delivering_def)
  show "current_bytes d' i = drop (nat n) (current_bytes d i)"
    using assms by (simp add: current_bytes_def delivering_def nat_add_distrib add.commute)
  show "delivered d' i = delivered d i" using o(1) by (simp add: delivered_def assms(4))
  show "sample_offset d' = sample_offset d" "dt_tracks d' = dt_tracks d" using o(1) by (simp_all add: assms(4))
qed

text \<open>Calls with buffers of the given sizes: the bytes together, and the information of each call.\<close>

fun copy_frames :: "'w player_ops \<Rightarrow> int list \<Rightarrow> dash_thread \<times> 'w \<Rightarrow> (byte list \<times> frame_info list \<times> dash_thread \<times> 'w) result option" where
  "copy_frames ops [] s = Some (Inr ([], [], s))"
| "copy_frames ops (n # ns) s =
     and_then_opt (CopyFrame ops n s) (\<lambda>(_, bytes, fi, s1).
     and_then_opt (copy_frames ops ns s1) (\<lambda>(rest, fis, s2). Some (Inr (bytes @ rest, fi # fis, s2))))"

text \<open>The calls that continue a sample.\<close>

lemma fragments_continue:
  assumes "delivering d i" "\<forall>n \<in> set ns. 0 < n" "ns \<noteq> []"
    and "sum_list (butlast ns) < int (length (current_bytes d i))" "int (length (current_bytes d i)) \<le> sum_list ns"
  shows "\<exists>fis. copy_frames ops ns (d, w) = Some (Inr (current_bytes d i, fis, delivered d i, w)) \<and> length fis = length ns \<and>
    (\<forall>fi \<in> set (butlast fis). fi_flags fi = 0) \<and> fi_flags (last fis) = DASH_FRAME_INFO_FLAG_LAST_FRAGMENT \<and>
    (\<forall>fi \<in> set fis. describes_sample (sample_offset d) (dt_tracks d ! i) fi)"
  using assms
proof (induction ns arbitrary: d)
  case (Cons n ns)
  let ?b = "current_bytes d i"
  show ?case
  proof (cases "ns = []")
    case True
    then have "int (length ?b) \<le> n" using Cons.prems by simp
    from copy_fragment_last [OF Cons.prems(1) this, of frame_info_zero] obtain fi where
      fi: "copy_fragment n frame_info_zero d = Inr (int (length ?b), ?b, fi, delivered d i)"
        "fi_flags fi = fi_flags frame_info_zero OR DASH_FRAME_INFO_FLAG_LAST_FRAGMENT"
        "describes_sample (sample_offset d) (dt_tracks d ! i) fi" by blast
    then show ?thesis using True CopyFrame_delivering [OF Cons.prems(1) fi(1), of ops w]
      by (simp add: frame_info_zero_def)
  next
    case False
    have "0 \<le> sum_list (butlast ns)" by (rule sum_list_nonneg) (use Cons.prems(2) in_set_butlastD in fastforce)
    then have n: "0 < n" "n < int (length ?b)" using Cons.prems(2,4) False by auto
    define d' where "d' = d\<lparr>dt_sample_holder_consumed := dt_sample_holder_consumed d + n, dt_sample_offset_ms := sample_offset d\<rparr>"
    from copy_fragment_part [OF Cons.prems(1) n, of frame_info_zero] obtain fi where
      fi: "copy_fragment n frame_info_zero d = Inr (n, take (nat n) ?b, fi, d')"
        "fi_flags fi = fi_flags frame_info_zero" "describes_sample (sample_offset d) (dt_tracks d ! i) fi" unfolding d'_def by blast
    note d = delivering_step [OF Cons.prems(1) n d'_def]
    have "sum_list (butlast ns) < int (length (current_bytes d' i))" "int (length (current_bytes d' i)) \<le> sum_list ns"
      using Cons.prems False n unfolding d(2) by auto
    then obtain fis where fis: "copy_frames ops ns (d', w) = Some (Inr (drop (nat n) ?b, fis, delivered d i, w))"
        "length fis = length ns" "\<forall>fi \<in> set (butlast fis). fi_flags fi = 0" "fi_flags (last fis) = DASH_FRAME_INFO_FLAG_LAST_FRAGMENT"
        "\<forall>fi \<in> set fis. describes_sample (sample_offset d) (dt_tracks d ! i) fi"
      using Cons.IH [OF d(1)] Cons.prems(2) False d(2-5) by auto
    have "CopyFrame ops n (d, w) = Some (Inr (n, take (nat n) ?b, fi, d', w))"
      by (rule CopyFrame_delivering [OF Cons.prems(1) fi(1)]) (use n in simp)
    moreover have "fis \<noteq> []" using fis(2) False by auto
    ultimately show ?thesis using fis fi by (simp add: frame_info_zero_def)
  qed
qed simp

lemma GetNextSampleTrack_keeps:
  "GetNextSampleTrack d = (x, d') \<Longrightarrow> dt_tracks d' = dt_tracks d \<and> dt_state d' = dt_state d \<and>
     dt_sample_holder_consumed d' = dt_sample_holder_consumed d \<and> dt_sample_offset_ms d' = dt_sample_offset_ms d \<and>
     dt_manifest d' = dt_manifest d"
  by (auto simp: GetNextSampleTrack_def Let_def split: prod.splits option.splits if_splits)

lemma Fill_keeps:
  "FillTrackSampleHolders ops (d, w) = Some (Inr (b, d', w')) \<Longrightarrow> dt_state d' = dt_state d \<and> dt_current_track d' = dt_current_track d \<and>
     dt_sample_holder_consumed d' = dt_sample_holder_consumed d \<and> dt_sample_offset_ms d' = dt_sample_offset_ms d \<and>
     dt_manifest d' = dt_manifest d"
  by (auto simp: FillTrackSampleHolders_def and_then_opt_Inr)

text \<open>A sample that can be delivered: it has bytes, its track has a format, and its subsample lists fit together.\<close>

definition deliverable :: "track_context \<Rightarrow> bool" where
  "deliverable t \<longleftrightarrow> holder_inv (tk_sample_holder t) \<and> 0 < sh_written_size (tk_sample_holder t) \<and> fh_format (tk_format_holder t) \<noteq> None \<and>
     length (num_bytes_of_clear_data (sh_crypto_info (tk_sample_holder t))) \<le> length (num_bytes_of_encrypted_data (sh_crypto_info (tk_sample_holder t)))"

definition carries_crypto :: "sample_holder \<Rightarrow> frame_info \<Rightarrow> bool" where
  "carries_crypto h fi \<longleftrightarrow>
     (if IsEncrypted h
      then fi_key_id fi = crypto_key (sh_crypto_info h) \<and> fi_iv fi = crypto_iv (sh_crypto_info h) \<and>
           fi_clear_bytes fi = num_bytes_of_clear_data (sh_crypto_info h) \<and>
           fi_enc_bytes fi = take (length (num_bytes_of_clear_data (sh_crypto_info h))) (num_bytes_of_encrypted_data (sh_crypto_info h))
      else fi_key_id fi = [] \<and> fi_iv fi = [] \<and> fi_clear_bytes fi = [] \<and> fi_enc_bytes fi = [])"

lemma begin_sample_granted:
  assumes "FillTrackSampleHolders ops s = Some (Inr (True, d1, w1))" "GetNextSampleTrack d1 = (Some i, d2)"
    and "MaybeCheckPssh ops (dt_tracks d1 ! i, w1) = Inr (True, t, w2)" "deliverable t"
  shows "\<exists>fi. begin_sample ops s = Some (Inr (None, fi, d2\<lparr>dt_current_track := Some i, dt_tracks := (dt_tracks d1)[i := t]\<rparr>, w2)) \<and>
    fi_flags fi = DASH_FRAME_INFO_FLAG_FIRST_FRAGMENT \<and> carries_crypto (tk_sample_holder t) fi"
  using assms GetNextSampleTrack_keeps [OF assms(2)]
  by (auto simp: begin_sample_def Let_def PopulateFrameInfoCrypto_def deliverable_def carries_crypto_def frame_info_zero_def)

text \<open>
  C18. A sample arrives whole, from the call that begins it. When no sample is current, the tracks are filled, one is
  picked and its license, if it needs one, is granted (\<open>MaybeCheckPssh\<close>), then whatever sizes the client's buffers have, the
  fragments of the calls until the sample is used up are its bytes in order. The first fragment
  carries the flag of a first one and the key, initialization vector and subsamples of an encrypted
  sample, the last one the flag of a last one, the others none; each carries the type of the track and the length, the time
  (less the sample offset) and the duration of the sample. Afterwards no sample is current, and the track is ready for its next sample.
\<close>

theorem fragments_make_sample:
  assumes "dt_state d = PLAYER_BUFFERING" "dt_current_track d = None" "dt_sample_holder_consumed d = 0" "offset_known d"
    and "FillTrackSampleHolders ops (d, w) = Some (Inr (True, d1, w1))" "GetNextSampleTrack d1 = (Some i, d2)"
    and "MaybeCheckPssh ops (dt_tracks d1 ! i, w1) = Inr (True, t, w2)" "deliverable t"
    and "\<forall>n \<in> set ns. 0 < n" "ns \<noteq> []"
    and "sum_list (butlast ns) < sh_written_size (tk_sample_holder t)" "sh_written_size (tk_sample_holder t) \<le> sum_list ns"
  shows "\<exists>fis d'. copy_frames ops ns (d, w) = Some (Inr (holder_data (tk_sample_holder t), fis, d', w2)) \<and> length fis = length ns \<and>
    (\<forall>k < length fis. fi_flags (fis ! k) = (if k = 0 then DASH_FRAME_INFO_FLAG_FIRST_FRAGMENT else 0) OR
       (if k = length fis - 1 then DASH_FRAME_INFO_FLAG_LAST_FRAGMENT else 0)) \<and>
    carries_crypto (tk_sample_holder t) (hd fis) \<and> (\<forall>fi \<in> set fis. describes_sample (sample_offset d) t fi) \<and>
    dt_current_track d' = None \<and> dt_sample_holder_consumed d' = 0 \<and>
    dt_tracks d' = (dt_tracks d1)[i := t\<lparr>tk_has_sample := False, tk_sample_holder := ClearData (tk_sample_holder t)\<rparr>]"
proof -
  define d3 where "d3 = d2\<lparr>dt_current_track := Some i, dt_tracks := (dt_tracks d1)[i := t]\<rparr>"
  obtain fi0 where fi0: "begin_sample ops (d, w) = Some (Inr (None, fi0, d3, w2))" "fi_flags fi0 = DASH_FRAME_INFO_FLAG_FIRST_FRAGMENT"
      "carries_crypto (tk_sample_holder t) fi0"
    using begin_sample_granted [OF assms(5-8)] unfolding d3_def by blast
  have i: "i < length (dt_tracks d1)" using next_track_valid [OF assms(6)] by simp
  note k = Fill_keeps [OF assms(5)] GetNextSampleTrack_keeps [OF assms(6)]
  have off: "sample_offset d3 = sample_offset d" "offset_known d3"
    using sample_offset_cong [of d3 d] k assms(4) by (simp_all add: d3_def)
  have del: "delivering d3 i" using i k assms(1,3,8) off(2) by (simp add: delivering_def d3_def deliverable_def)
  have tr: "dt_tracks d3 ! i = t" using i by (simp add: d3_def)
  have b: "current_bytes d3 i = holder_data (tk_sample_holder t)" using k assms(3) tr by (simp add: current_bytes_def d3_def)
  have len: "int (length (holder_data (tk_sample_holder t))) = sh_written_size (tk_sample_holder t)"
    using length_current_bytes [OF del] b tr k assms(3) by (simp add: d3_def)
  have first: "CopyFrame ops n (d, w) = Some (Inr (m, bytes, fi, d', w2))"
    if "copy_fragment n fi0 d3 = Inr (m, bytes, fi, d')" "0 \<le> m" for n m bytes fi d'
    using that assms(1,2) fi0(1) by (simp add: CopyFrame_def CopyFrameImpl_def)
  have final: "dt_tracks (delivered d3 i) = (dt_tracks d1)[i := t\<lparr>tk_has_sample := False, tk_sample_holder := ClearData (tk_sample_holder t)\<rparr>]"
      "dt_current_track (delivered d3 i) = None" "dt_sample_holder_consumed (delivered d3 i) = 0"
    using tr by (simp_all add: delivered_def d3_def)
  have crypto: "carries_crypto (tk_sample_holder t) fi" if "same_crypto fi0 fi" for fi
    using that fi0(3) by (simp add: same_crypto_def carries_crypto_def)
  obtain n ns' where ns: "ns = n # ns'" using assms(10) by (cases ns) auto
  show ?thesis
  proof (cases "ns' = []")
    case True
    have "int (length (current_bytes d3 i)) \<le> n" using assms(12) b len True ns by simp
    from copy_fragment_last [OF del this, of fi0] obtain fi where
      fi: "copy_fragment n fi0 d3 = Inr (int (length (current_bytes d3 i)), current_bytes d3 i, fi, delivered d3 i)"
        "fi_flags fi = fi_flags fi0 OR DASH_FRAME_INFO_FLAG_LAST_FRAGMENT" "describes_sample (sample_offset d3) t fi" "same_crypto fi0 fi"
      unfolding tr by blast
    show ?thesis
      using first [OF fi(1)] fi(2,3) fi0(2) final crypto [OF fi(4)] off(1) ns True b
      by (intro exI [of _ "[fi]"] exI [of _ "delivered d3 i"]) simp
  next
    case False
    have "0 \<le> sum_list (butlast ns')" by (rule sum_list_nonneg) (use assms(9) ns in_set_butlastD in fastforce)
    then have n: "0 < n" "n < int (length (current_bytes d3 i))" using assms(9,11) False ns len b by auto
    define d4 where "d4 = d3\<lparr>dt_sample_holder_consumed := dt_sample_holder_consumed d3 + n, dt_sample_offset_ms := sample_offset d3\<rparr>"
    from copy_fragment_part [OF del n, of fi0] obtain fi where
      fi: "copy_fragment n fi0 d3 = Inr (n, take (nat n) (current_bytes d3 i), fi, d4)" "fi_flags fi = fi_flags fi0"
        "describes_sample (sample_offset d3) t fi" "same_crypto fi0 fi"
      unfolding d4_def tr by blast
    note d4 = delivering_step [OF del n d4_def]
    have sums: "sum_list (butlast ns') < int (length (current_bytes d4 i))" "int (length (current_bytes d4 i)) \<le> sum_list ns'"
      using assms(11,12) False ns n len unfolding d4(2) b by auto
    obtain fis where fis: "copy_frames ops ns' (d4, w2) = Some (Inr (current_bytes d4 i, fis, delivered d3 i, w2))" "length fis = length ns'"
        "\<forall>fi \<in> set (butlast fis). fi_flags fi = 0" "fi_flags (last fis) = DASH_FRAME_INFO_FLAG_LAST_FRAGMENT"
        "\<forall>fi \<in> set fis. describes_sample (sample_offset d3) t fi"
      using fragments_continue [OF d4(1) _ False sums, of ops w2] assms(9) ns tr d4(3-5) by auto
    have ne: "fis \<noteq> []" using fis(2) False by auto
    have "fi_flags (fis ! k) = (if k = length fis - 1 then DASH_FRAME_INFO_FLAG_LAST_FRAGMENT else 0)" if "k < length fis" for k
    proof (cases "k = length fis - 1")
      case True
      then show ?thesis using fis(4) ne by (simp add: last_conv_nth)
    next
      case False
      then have "k < length (butlast fis)" "fis ! k = butlast fis ! k" using that by (simp_all add: nth_butlast)
      then show ?thesis using False fis(3) nth_mem [of k "butlast fis"] by simp
    qed
    then have flags: "fi_flags ((fi # fis) ! k) = (if k = 0 then DASH_FRAME_INFO_FLAG_FIRST_FRAGMENT else 0) OR
        (if k = length (fi # fis) - 1 then DASH_FRAME_INFO_FLAG_LAST_FRAGMENT else 0)" if "k < length (fi # fis)" for k
      using that fi(2) fi0(2) ne by (cases k) auto
    have "copy_frames ops ns (d, w) = Some (Inr (holder_data (tk_sample_holder t), fi # fis, delivered d3 i, w2))"
      using first [OF fi(1)] n(1) fis(1) d4(2) b ns by simp
    then show ?thesis
      using fis(2,5) fi(3) final crypto [OF fi(4)] off(1) ns flags
      by (intro exI [of _ "fi # fis"] exI [of _ "delivered d3 i"]) simp
  qed
qed

text \<open>A player without sources behind its tracks, whose license manager refuses everything.\<close>

definition idle_reader :: "('w, media_format, drm_init_data) reader_ops" where
  "idle_reader =
     \<lparr>ro_prepare = (\<lambda>_ w. Some (Inr (True, w))), ro_get_duration_us = (\<lambda>_. kUnknownTimeUs), ro_enable = (\<lambda>_ _ w. Some (Inr w)),
      ro_continue_buffering = (\<lambda>_ w. Some (Inr (False, w))), ro_read_discontinuity = (\<lambda>w. (NO_DISCONTINUITY, w)),
      ro_read_data = (\<lambda>_ fh h w. Some (Inr (NOTHING_READ, fh, h, w))), ro_seek_to_us = (\<lambda>_ w. Some (Inr w)),
      ro_get_buffered_position_us = (\<lambda>_. kUnknownTimeUs), ro_can_continue_buffering = (\<lambda>_. True),
      ro_disable = (\<lambda>_ w. Some (Inr w)), ro_release = (\<lambda>w. Some (Inr w))\<rparr>"

definition idle_ops :: "unit player_ops" where
  "idle_ops =
     \<lparr>po_reader = (\<lambda>_. idle_reader), po_get_adjusted_seek = (\<lambda>_ time _. Inr time), po_join = (\<lambda>_ w. (False, w)),
      po_get_media_time_ms = Some (\<lambda>w. (-1, w)), po_decoder_flush = Some (\<lambda>w. w), po_start_load = (\<lambda>w. w), po_make_sources = (\<lambda>w. w)\<rparr>"

definition video_player :: dash_thread where
  "video_player = demo_player\<lparr>dt_tracks := [demo_track DASH_FRAME_TYPE_VIDEO 40 [1, 2, 3, 4, 5]]\<rparr>"

theorem fragments_make_sample_witness:
  "\<exists>fis d'. copy_frames idle_ops [2, 2, 9] (video_player, ()) = Some (Inr ([1, 2, 3, 4, 5], fis, d', ())) \<and>
     fi_flags (fis ! 0) = 1 \<and> fi_flags (fis ! 1) = 0 \<and> fi_flags (fis ! 2) = 2"
proof -
  let ?t = "dt_tracks video_player ! 0"
  have fill: "FillTrackSampleHolders idle_ops (video_player, ()) = Some (Inr (True, video_player, ()))" by code_simp
  have "fst (GetNextSampleTrack video_player) = Some 0" by code_simp
  then obtain d2 where picked: "GetNextSampleTrack video_player = (Some 0, d2)" by (cases "GetNextSampleTrack video_player") auto
  have check: "MaybeCheckPssh idle_ops (dt_tracks video_player ! 0, ()) = Inr (True, ?t, ())" by code_simp
  have h: "dt_state video_player = PLAYER_BUFFERING" "dt_current_track video_player = None" "dt_sample_holder_consumed video_player = 0"
    "deliverable ?t" "holder_data (tk_sample_holder ?t) = [1, 2, 3, 4, 5]" "sh_written_size (tk_sample_holder ?t) = 5" by code_simp+
  have "offset_known video_player" by (simp add: offset_known_def GetSampleOffsetMs_def video_player_def demo_player_def)
  from fragments_make_sample [OF h(1-3) this fill picked check h(4), of "[2, 2, 9]"] obtain fis d' where
    "copy_frames idle_ops [2, 2, 9] (video_player, ()) = Some (Inr ([1, 2, 3, 4, 5], fis, d', ()))" "length fis = 3"
    "\<forall>k < length fis. fi_flags (fis ! k) = (if k = 0 then DASH_FRAME_INFO_FLAG_FIRST_FRAGMENT else 0) OR
       (if k = length fis - 1 then DASH_FRAME_INFO_FLAG_LAST_FRAGMENT else 0)"
    unfolding h(5,6) by auto
  then show ?thesis
    by (intro exI [of _ fis] exI [of _ d']) (simp add: DASH_FRAME_INFO_FLAG_FIRST_FRAGMENT_def DASH_FRAME_INFO_FLAG_LAST_FRAGMENT_def)
qed

section \<open>Samples without a license\<close>

lemma begin_sample_refused:
  assumes "FillTrackSampleHolders ops s = Some (Inr (True, d, w))" "GetNextSampleTrack d = (Some i, d1)"
    and "MaybeCheckPssh ops (dt_tracks d1 ! i, w) = Inr (False, t, w1)"
  shows "begin_sample ops s = Some (Inr (Some 0, frame_info_zero,
    d1\<lparr>dt_current_track := Some i, dt_tracks := (dt_tracks d1)[i := t]\<rparr>, w1))"
  using assms by (simp add: begin_sample_def Let_def)

lemma refused_encrypted:
  assumes "MaybeCheckPssh ops (t, w) = Inr (False, t', w')"
  shows "t' = t \<and> IsEncrypted (tk_sample_holder t) \<and> tk_has_sample t"
  using assms by (auto simp: MaybeCheckPssh_def split: if_splits option.splits prod.splits bool.splits)

text \<open>
  C38. A defect: a sample without a license is not dropped. When the license manager refuses the license
  of the next sample the call returns nothing, but the sample stays the current one, and a current sample
  is not checked again: the next call delivers the encrypted bytes as a last fragment, without the flag of
  a first one and without key identifier and initialization vector.
\<close>

theorem unlicensed_sample_delivered:
  assumes "dt_state d = PLAYER_BUFFERING" "dt_current_track d = None"
    and "FillTrackSampleHolders ops (d, w) = Some (Inr (True, d1, w1))" "dt_state d1 = PLAYER_BUFFERING"
    and "GetNextSampleTrack d1 = (Some i, d2)" "MaybeCheckPssh ops (dt_tracks d2 ! i, w1) = Inr (False, t, w2)"
    and "holder_inv (tk_sample_holder t)" "fh_format (tk_format_holder t) \<noteq> None"
    and "dt_sample_holder_consumed d1 = 0" "dt_sample_offset_ms d1 \<noteq> -1"
    and "0 < sh_written_size (tk_sample_holder t)" "sh_written_size (tk_sample_holder t) \<le> n"
  shows "\<exists>d3. CopyFrame ops n (d, w) = Some (Inr (0, [], frame_info_zero, d3, w2)) \<and>
    (\<exists>fi d4. CopyFrame ops n (d3, w2) = Some (Inr (sh_written_size (tk_sample_holder t), holder_data (tk_sample_holder t), fi, d4, w2)) \<and>
       IsEncrypted (tk_sample_holder t) \<and> fi_flags fi = DASH_FRAME_INFO_FLAG_LAST_FRAGMENT \<and> fi_key_id fi = [] \<and> fi_iv fi = [])"
proof -
  let ?d3 = "d2\<lparr>dt_current_track := Some i, dt_tracks := (dt_tracks d2)[i := t]\<rparr>"
  have first: "CopyFrame ops n (d, w) = Some (Inr (0, [], frame_info_zero, ?d3, w2))"
    using assms(1,2) begin_sample_refused [OF assms(3,5,6)] by (simp add: CopyFrame_def CopyFrameImpl_def)
  have keeps: "dt_tracks d2 = dt_tracks d1" "dt_state d2 = dt_state d1" "dt_sample_holder_consumed d2 = 0" "dt_sample_offset_ms d2 \<noteq> -1"
    using GetNextSampleTrack_keeps [OF assms(5)] assms(9,10) by simp_all
  have i: "i < length (dt_tracks d2)" using next_track_valid [OF assms(5)] keeps(1) by simp
  have del: "delivering ?d3 i" using i keeps assms by (simp add: delivering_def offset_known_def GetSampleOffsetMs_def)
  have b: "current_bytes ?d3 i = holder_data (tk_sample_holder t)" using i keeps by (simp add: current_bytes_def)
  have len: "int (length (holder_data (tk_sample_holder t))) = sh_written_size (tk_sample_holder t)"
    using length_current_bytes [OF del] i keeps b by simp
  from copy_fragment_last [OF del, of n frame_info_zero] obtain fi where
    fi: "copy_fragment n frame_info_zero ?d3 = Inr (sh_written_size (tk_sample_holder t), holder_data (tk_sample_holder t), fi, delivered ?d3 i)"
      "fi_flags fi = fi_flags frame_info_zero OR DASH_FRAME_INFO_FLAG_LAST_FRAGMENT" "fi_key_id fi = fi_key_id frame_info_zero"
      "fi_iv fi = fi_iv frame_info_zero"
    using assms(12) unfolding b len same_crypto_def by auto
  have "CopyFrame ops n (?d3, w2) = Some (Inr (sh_written_size (tk_sample_holder t), holder_data (tk_sample_holder t), fi, delivered ?d3 i, w2))"
    using CopyFrame_delivering [OF del fi(1)] assms(11) by simp
  moreover have "IsEncrypted (tk_sample_holder t)" using refused_encrypted [OF assms(6)] by simp
  ultimately show ?thesis using first fi(2-4) by (auto simp: frame_info_zero_def)
qed

definition protected_player :: dash_thread where
  "protected_player =
     (let t = demo_track DASH_FRAME_TYPE_VIDEO 0 [7, 8]
      in demo_player\<lparr>dt_tracks :=
           [t\<lparr>tk_sample_holder := (tk_sample_holder t)\<lparr>sh_flags := kSampleFlagEncrypted\<rparr>,
              tk_format_holder := (tk_format_holder t)
                \<lparr>fh_drm_init_data := Some (Universal_Init_Data (Some \<lparr>sid_mime_type = ''video/mp4'', sid_data = [9]\<rparr>))\<rparr>\<rparr>]\<rparr>)"

theorem unlicensed_sample_delivered_witness:
  "\<exists>d3. CopyFrame idle_ops 10 (protected_player, ()) = Some (Inr (0, [], frame_info_zero, d3, ())) \<and>
    (\<exists>fi d4. CopyFrame idle_ops 10 (d3, ()) = Some (Inr (2, [7, 8], fi, d4, ())) \<and> fi_key_id fi = [])"
proof -
  let ?t = "dt_tracks protected_player ! 0"
  have fill: "FillTrackSampleHolders idle_ops (protected_player, ()) = Some (Inr (True, protected_player, ()))" by code_simp
  have "fst (GetNextSampleTrack protected_player) = Some 0" by code_simp
  then obtain d2 where picked: "GetNextSampleTrack protected_player = (Some 0, d2)" by (cases "GetNextSampleTrack protected_player") auto
  have "MaybeCheckPssh idle_ops (?t, ()) = Inr (False, ?t, ())" by code_simp
  then have check: "MaybeCheckPssh idle_ops (dt_tracks d2 ! 0, ()) = Inr (False, ?t, ())"
    using GetNextSampleTrack_keeps [OF picked] by simp
  have h: "holder_data (tk_sample_holder ?t) = [7, 8]" "sh_written_size (tk_sample_holder ?t) = 2" "holder_inv (tk_sample_holder ?t)"
    "fh_format (tk_format_holder ?t) \<noteq> None" "dt_state protected_player = PLAYER_BUFFERING" "dt_current_track protected_player = None"
    "dt_sample_holder_consumed protected_player = 0" "dt_sample_offset_ms protected_player \<noteq> -1"
    by code_simp+
  show ?thesis using unlicensed_sample_delivered [OF h(5,6) fill h(5) picked check h(3,4,7,8), of 10] unfolding h(1,2) by auto
qed

section \<open>All calls, tasks and callbacks\<close>

inductive player_step :: "'w player_ops \<Rightarrow> dash_thread \<times> 'w \<Rightarrow> dash_thread \<times> 'w \<Rightarrow> bool" for ops where
  step_load: "player_step ops (d, w) (Load_begin sec d, w)"
| step_copy: "CopyFrame ops n s = Some (Inr (k, bytes, fi, s')) \<Longrightarrow> player_step ops s s'"
| step_seek: "SeekImpl ops ms s = Some (Inr (k, s')) \<Longrightarrow> player_step ops s s'"
| step_rate: "SetPlaybackRateDisableTracks ops rate s = Some (Inr s') \<Longrightarrow> player_step ops s s'"
| step_unload: "UnloadImpl ops s = Some (Inr s') \<Longrightarrow> player_step ops s s'"
| step_task: "dt_tasks d = pre @ task # post \<Longrightarrow> run_task ops now task (d\<lparr>dt_tasks := pre @ post\<rparr>, w) = Some (Inr s') \<Longrightarrow>
     player_step ops (d, w) s'"
| step_disabled: "i < length (dt_tracks (fst s)) \<Longrightarrow> track_disabled ops now i s = Some (Inr s') \<Longrightarrow> player_step ops s s'"
| step_format: "player_step ops (d, w) (FormatGiven i f d, w)"
| step_manifest: "OnManifestRefreshed ops now m s = Some (Inr s') \<Longrightarrow> player_step ops s s'"
| step_manifest_error: "player_step ops (d, w) (OnManifestError d, w)"
| step_world: "player_step ops (d, w) (d, w')"

inductive_cases player_stepE: "player_step ops s s'"

text \<open>What an operation on the renderers leaves alone of a track.\<close>

definition same_sample :: "track_context \<Rightarrow> track_context \<Rightarrow> bool" where
  "same_sample t t' \<longleftrightarrow>
     tk_has_sample t' = tk_has_sample t \<and> tk_is_eos t' = tk_is_eos t \<and> tk_sample_holder t' = tk_sample_holder t"

lemma same_sample_refl [simp]: "same_sample t t" by (simp add: same_sample_def)

lemma same_sample_trans: "same_sample a b \<Longrightarrow> same_sample b c \<Longrightarrow> same_sample a c" by (simp add: same_sample_def)

definition track_rel :: "(track_context \<Rightarrow> track_context \<Rightarrow> bool) \<Rightarrow>
    (nat \<Rightarrow> track_context \<times> 'w \<Rightarrow> (track_context \<times> 'w) result option) \<Rightarrow> bool" where
  "track_rel R f \<longleftrightarrow> (\<forall>i t w t' w'. f i (t, w) = Some (Inr (t', w')) \<longrightarrow> R t t')"

lemma track_relD: "track_rel R f \<Longrightarrow> f i (t, w) = Some (Inr (t', w')) \<Longrightarrow> R t t'"
  unfolding track_rel_def by blast

lemma each_track_rel: "track_rel R f \<Longrightarrow> each_track f i ts w = Some (Inr (ts', w')) \<Longrightarrow> list_all2 R ts ts'"
  by (induction ts arbitrary: i w ts' w') (auto simp: and_then_opt_Inr dest: track_relD)

lemma for_tracks_rel:
  assumes "track_rel R f" "for_tracks f (d, w) = Some (Inr (d', w'))"
  shows "\<exists>ts. d' = d\<lparr>dt_tracks := ts\<rparr> \<and> list_all2 R (dt_tracks d) ts"
proof -
  obtain ts where "each_track f 0 (dt_tracks d) w = Some (Inr (ts, w'))" "d' = d\<lparr>dt_tracks := ts\<rparr>"
    using assms(2) by (auto simp: for_tracks_def and_then_opt_Inr)
  then show ?thesis using each_track_rel [OF assms(1)] by blast
qed

lemma on_renderer_same: "on_renderer f (t, w) = Some (Inr (t', w')) \<Longrightarrow> same_sample t t'"
  by (auto simp: on_renderer_def and_then_opt_Inr same_sample_def)

lemma stop_if_started_same [simp]: "same_sample t (stop_if_started t)"
  by (simp add: stop_if_started_def same_sample_def)

text \<open>What an operation that only concerns the renderers leaves alone of the player.\<close>

definition same_delivery :: "dash_thread \<Rightarrow> dash_thread \<Rightarrow> bool" where
  "same_delivery d d' \<longleftrightarrow>
     dt_current_track d' = dt_current_track d \<and> dt_sample_holder_consumed d' = dt_sample_holder_consumed d \<and>
     list_all2 same_sample (dt_tracks d) (dt_tracks d')"

lemma list_all2_same_refl [simp]: "list_all2 same_sample ts ts" by (rule list_all2_refl) simp

lemma same_delivery_refl [simp]: "same_delivery d d" by (simp add: same_delivery_def)

lemma same_delivery_trans [trans]: "same_delivery a b \<Longrightarrow> same_delivery b c \<Longrightarrow> same_delivery a c"
  unfolding same_delivery_def using list_all2_trans [of same_sample same_sample same_sample] same_sample_trans by metis

lemma SetState_fields [simp]:
  "dt_current_track (SetState x d) = dt_current_track d" "dt_sample_holder_consumed (SetState x d) = dt_sample_holder_consumed d"
  "dt_tracks (SetState x d) = dt_tracks d" "dt_state (SetState x d) = x"
  by (simp_all add: SetState_def Let_def)

lemma GetSampleOffsetMs_fields:
  "GetSampleOffsetMs d = Inr (offset, d') \<Longrightarrow> \<exists>x. d' = d\<lparr>dt_sample_offset_ms := x\<rparr>"
  by (auto simp: GetSampleOffsetMs_def and_then_Inr split: if_splits option.splits intro: exI [of _ "dt_sample_offset_ms d"])

lemma UpdateMediaTime_same: "UpdateMediaTime ops now (d, w) = Inr (d', w') \<Longrightarrow> same_delivery d d' \<and> dt_state d' = dt_state d"
  by (auto simp: UpdateMediaTime_def and_then_Inr same_delivery_def Let_def split: option.splits if_splits prod.splits
      dest!: GetSampleOffsetMs_fields)

lemma for_tracks_same:
  "track_rel same_sample f \<Longrightarrow> for_tracks f (d, w) = Some (Inr (d', w')) \<Longrightarrow>
     same_delivery d d' \<and> dt_state d' = dt_state d \<and> dt_tasks d' = dt_tasks d"
  using for_tracks_rel [of same_sample f d w d' w'] by (auto simp: same_delivery_def)

lemma same_delivery_fields [simp]:
  "same_delivery d (d'\<lparr>dt_tasks := x\<rparr>) = same_delivery d d'" "same_delivery d (SetState st d') = same_delivery d d'"
  "same_delivery d (d'\<lparr>dt_unload_signaled := b\<rparr>) = same_delivery d d'" "same_delivery d (d'\<lparr>dt_rate_signaled := b\<rparr>) = same_delivery d d'"
  "same_delivery d (d'\<lparr>dt_pending_disable := p\<rparr>) = same_delivery d d'" "same_delivery (d\<lparr>dt_tasks := x\<rparr>) d' = same_delivery d d'"
  by (simp_all add: same_delivery_def)

lemma Player_Update_same:
  assumes "Player_Update ops now a s = Some (Inr s')"
  shows "same_delivery (fst s) (fst s')"
proof -
  obtain d w d' w' where s: "s = (d, w)" "s' = (d', w')" by (cases s, cases s')
  obtain d1 w1 where d1: "UpdateMediaTime ops now (d, w) = Inr (d1, w1)"
    using assms by (auto simp: Player_Update_def and_then_opt_Inr s)
  let ?f = "\<lambda>i (t, w). if active t then on_renderer (Renderer_Buffer (po_reader ops i) (dt_reader_position d1)) (t, w) else Some (Inr (t, w))"
  have "track_rel same_sample ?f" by (auto simp: track_rel_def dest: on_renderer_same)
  note loop = for_tracks_same [OF this]
  have "same_delivery d1 d'"
  proof (cases "dt_state d1")
    case PLAYER_BUFFERING
    then obtain d2 w2 where "for_tracks ?f (d1, w1) = Some (Inr (d2, w2))" "d' = (if a then d2\<lparr>dt_tasks := dt_tasks d2 @ [Delayed_Update_Task]\<rparr> else d2)"
      using assms by (auto simp: Player_Update_def and_then_opt_Inr s d1 Let_def)
    then show ?thesis using loop by (cases a) auto
  qed (use assms in \<open>auto simp: Player_Update_def s d1 Let_def\<close>)
  then show ?thesis using UpdateMediaTime_same [OF d1] same_delivery_trans s by auto
qed

lemma start_track_same: "start_track rd p (t, w) = Some (Inr (ok, t', w')) \<Longrightarrow> same_sample t t'"
  by (auto simp: start_track_def and_then_opt_Inr same_sample_def split: if_splits)

lemma start_loop_same: "start_loop readers p i ts w = Some (Inr (ok, ts', w')) \<Longrightarrow> list_all2 same_sample ts ts'"
proof (induction ts arbitrary: i w ok ts' w')
  case (Cons t ts)
  from Cons.prems obtain ok1 t1 w1 where t1: "start_track (readers i) p (t, w) = Some (Inr (ok1, t1, w1))"
      and rest: "(if \<not> ok1 then Some (Inr (False, t1 # ts, w1))
        else and_then_opt (start_loop readers p (Suc i) ts w1) (\<lambda>(ok2, ts2, w2). Some (Inr (ok2, t1 # ts2, w2)))) = Some (Inr (ok, ts', w'))"
    by (auto simp: and_then_opt_Inr)
  from rest show ?case using start_track_same [OF t1] by (auto simp: and_then_opt_Inr split: if_splits dest: Cons.IH)
qed simp

lemma disable_pending_same:
  "disable_pending ops cb (d, w) = Some (Inr (d', w')) \<Longrightarrow> same_delivery d d' \<and> dt_state d' = dt_state d \<and> dt_tasks d' = dt_tasks d"
  unfolding disable_pending_def
  by (rule for_tracks_same [rotated], assumption) (auto simp: track_rel_def split: if_splits dest: on_renderer_same)

lemma stop_and_collect_same: "same_delivery d (stop_and_collect d)"
  by (auto simp: stop_and_collect_def Let_def same_delivery_def list.rel_map intro!: list.rel_refl)

lemma UnloadImpl_same: "UnloadImpl ops s = Some (Inr s') \<Longrightarrow> same_delivery (fst s) (fst s')"
  using stop_and_collect_same [of "SetState PLAYER_ENDED (fst s)"]
  by (cases s; cases s') (auto simp: UnloadImpl_def Let_def same_delivery_def split: if_splits dest!: disable_pending_same
      intro: list_all2_trans [OF same_sample_trans])

text \<open>
  The delivery is left alone, possibly with further tracks; or it is started afresh. In both cases a track
  that has ended stays ended.
\<close>

definition extends :: "dash_thread \<Rightarrow> dash_thread \<Rightarrow> bool" where
  "extends d d' \<longleftrightarrow>
     dt_current_track d' = dt_current_track d \<and> dt_sample_holder_consumed d' = dt_sample_holder_consumed d \<and>
     length (dt_tracks d) \<le> length (dt_tracks d') \<and> (\<forall>i < length (dt_tracks d). same_sample (dt_tracks d ! i) (dt_tracks d' ! i))"

definition restarts :: "dash_thread \<Rightarrow> dash_thread \<Rightarrow> bool" where
  "restarts d d' \<longleftrightarrow>
     dt_current_track d' = None \<and> dt_sample_holder_consumed d' = 0 \<and>
     length (dt_tracks d) \<le> length (dt_tracks d') \<and> (\<forall>i < length (dt_tracks d). tk_is_eos (dt_tracks d' ! i) = tk_is_eos (dt_tracks d ! i))"

lemma same_delivery_extends: "same_delivery d d' \<Longrightarrow> extends d d'"
  by (auto simp: same_delivery_def extends_def list_all2_conv_all_nth)

lemma extends_trans [trans]: "extends a b \<Longrightarrow> extends b c \<Longrightarrow> extends a c"
  by (auto simp: extends_def intro: same_sample_trans)

lemma restarts_extends [trans]: "restarts a b \<Longrightarrow> extends b c \<Longrightarrow> restarts a c"
  by (auto simp: extends_def restarts_def same_sample_def)

lemma SetPlaybackRateDisableTracks_same: "SetPlaybackRateDisableTracks ops rate s = Some (Inr s') \<Longrightarrow> same_delivery (fst s) (fst s')"
  using stop_and_collect_same [of "SetState PLAYER_READY (fst s)"]
  by (cases s; cases s') (auto simp: SetPlaybackRateDisableTracks_def Let_def same_delivery_def split: if_splits dest!: disable_pending_same
      intro: list_all2_trans [OF same_sample_trans])

lemma FormatGiven_same: "same_delivery d (FormatGiven i f d)"
  by (auto simp: FormatGiven_def update_track_def same_delivery_def Let_def list_all2_conv_all_nth nth_list_update same_sample_def)

lemma update_renderer_same: "same_delivery d (update_track i (\<lambda>t. t\<lparr>tk_renderer := f t\<rparr>) d)"
  by (auto simp: update_track_def same_delivery_def list_all2_conv_all_nth nth_list_update same_sample_def)

lemma UnloadImplDisabled_same: 
  assumes "UnloadImplDisabled ops i s = Some (Inr s')"
  shows "same_delivery (fst s) (fst s')"
proof -
  obtain d w d' w' where s: "s = (d, w)" "s' = (d', w')" by (cases s, cases s')
  let ?d = "d\<lparr>dt_pending_disable := removeAll i (dt_pending_disable d)\<rparr>"
  let ?f = "\<lambda>i (t, w). if tr_state (tk_renderer t) \<noteq> RELEASED then on_renderer (Renderer_Release (po_reader ops i)) (t, w) else Some (Inr (t, w))"
  have rel: "track_rel same_sample ?f" by (auto simp: track_rel_def split: if_splits dest: on_renderer_same)
  show ?thesis
  proof (cases "removeAll i (dt_pending_disable d) = []")
    case True
    then obtain d2 where d2: "for_tracks ?f (?d, w) = Some (Inr (d2, w'))" "d' = d2\<lparr>dt_tasks := dt_tasks d2 @ [Notify_Unload_Task]\<rparr>"
      using assms by (auto simp: UnloadImplDisabled_def and_then_opt_Inr s Let_def)
    then have "same_delivery ?d d2" using for_tracks_same [OF rel] by blast
    then show ?thesis using d2 s by (simp add: same_delivery_def)
  qed (use assms in \<open>auto simp: UnloadImplDisabled_def s Let_def\<close>)
qed

lemma drop_sample_eos [simp]: "tk_is_eos (drop_sample t) = tk_is_eos t"
  by (simp add: drop_sample_def)

lemma enable_for_rate_eos: "track_rel (\<lambda>t t'. tk_is_eos t' = tk_is_eos t) (\<lambda>i. enable_for_rate (po_reader ops i) rate p)"
  by (auto simp: track_rel_def enable_for_rate_def and_then_opt_Inr Let_def split: if_splits)

lemma seek_track_eos: "track_rel (\<lambda>t t'. tk_is_eos t' = tk_is_eos t) (\<lambda>i. seek_track (po_reader ops i) p)"
  by (auto simp: track_rel_def seek_track_def stop_if_started_def and_then_opt_Inr Let_def split: if_splits)

lemma SetPlaybackRateEnableTracks_effect:
  assumes "SetPlaybackRateEnableTracks ops now rate i s = Some (Inr s')"
  shows "same_delivery (fst s) (fst s') \<or> restarts (fst s) (fst s')"
proof -
  obtain d w d' w' where s: "s = (d, w)" "s' = (d', w')" by (cases s, cases s')
  let ?d = "d\<lparr>dt_pending_disable := removeAll i (dt_pending_disable d)\<rparr>"
  let ?d1 = "(SetState PLAYER_BUFFERING ?d)\<lparr>dt_is_eos := False, dt_playback_rate := rate\<rparr>"
  show ?thesis
  proof (cases "removeAll i (dt_pending_disable d) = []")
    case True
    obtain flush where flush: "po_decoder_flush ops = Some flush"
      using assms True by (auto simp: SetPlaybackRateEnableTracks_def s Let_def split: option.splits)
    let ?go = "\<lambda>d2. d2\<lparr>dt_media_time_ready := False, dt_sample_holder_consumed := 0, dt_current_track := None, dt_rate_signaled := True\<rparr>"
    obtain d2 w2 where d2: "for_tracks (\<lambda>i. enable_for_rate (po_reader ops i) rate (dt_decoder_position ?d)) (?d1, flush w) = Some (Inr (d2, w2))"
        "Player_Update ops now False (?go d2, w2) = Some (Inr (d', w'))"
      using assms True flush by (auto simp: SetPlaybackRateEnableTracks_def s and_then_opt_Inr Let_def)
    have "restarts d (?go d2)" using for_tracks_rel [OF enable_for_rate_eos d2(1)]
      by (auto simp: restarts_def list_all2_conv_all_nth)
    also have "extends (?go d2) d'" using Player_Update_same [OF d2(2)] same_delivery_extends by simp
    finally show ?thesis using s by simp
  qed (use assms in \<open>auto simp: SetPlaybackRateEnableTracks_def s Let_def\<close>)
qed

lemma SeekImpl_effect:
  assumes "SeekImpl ops ms s = Some (Inr (k, s'))"
  shows "same_delivery (fst s) (fst s') \<or> restarts (fst s) (fst s')"
proof -
  obtain d0 w d' w' where s: "s = (d0, w)" "s' = (d', w')" by (cases s, cases s')
  obtain offset d where d: "GetSampleOffsetMs d0 = Inr (offset, d)" using assms by (auto simp: SeekImpl_def and_then_opt_Inr s)
  obtain x where x: "d = d0\<lparr>dt_sample_offset_ms := x\<rparr>" using GetSampleOffsetMs_fields [OF d] by blast
  obtain time where time: "adjusted_seek ops 0 (dt_tracks d) (FromMilliseconds (ms + offset)) w = Inr time"
    using assms by (auto simp: SeekImpl_def and_then_opt_Inr s d)
  let ?d1 = "d\<lparr>dt_decoder_position := time, dt_reader_position := time, dt_seek_position := time,
      dt_media_time_last_value_ms := time, dt_decoder_media_time_last_value_ms := 0\<rparr>"
  show ?thesis
  proof (cases "\<bar>saturate (time - dt_decoder_position d)\<bar> < kMinimumSeekDistance \<and> ms \<noteq> 0 \<or>
      Format_Evaluators.IsTrick (dt_playback_rate d) \<or> dt_state d \<noteq> PLAYER_BUFFERING")
    case True
    then have "d' = d \<or> d' = ?d1\<lparr>dt_initial_time := time\<rparr>" using assms
      by (auto simp: SeekImpl_def s d time Let_def split: if_splits)
    then show ?thesis using s x by (auto simp: same_delivery_def)
  next
    case False
    let ?w = "case po_decoder_flush ops of Some flush \<Rightarrow> flush w | None \<Rightarrow> w"
    obtain d2 w2 where d2: "for_tracks (\<lambda>i. seek_track (po_reader ops i) (dt_reader_position ?d1)) (?d1, ?w) = Some (Inr (d2, w2))"
        "d' = d2\<lparr>dt_current_track := None, dt_sample_holder_consumed := 0, dt_tracks := map drop_sample (dt_tracks d2),
           dt_media_time_ready := False, dt_tasks := dt_tasks d2 @ [Update_Task False]\<rparr>"
      using assms False by (auto simp: SeekImpl_def s d time and_then_opt_Inr Let_def split: if_splits)
    then have "restarts d0 d'" using for_tracks_rel [OF seek_track_eos d2(1)] x
      by (auto simp: restarts_def list_all2_conv_all_nth)
    then show ?thesis using s by simp
  qed
qed

lemma track_disabled_effect:
  assumes "track_disabled ops now i s = Some (Inr s')"
  shows "extends (fst s) (fst s') \<or> restarts (fst s) (fst s')"
proof (cases "fst (DisableDone (tk_renderer (dt_tracks (fst s) ! i)))")
  case None
  then show ?thesis using assms same_delivery_extends [OF same_delivery_refl] by (auto simp: track_disabled_def)
next
  case (Some cb)
  let ?f = "\<lambda>t. t\<lparr>tk_renderer := snd (DisableDone (tk_renderer t))\<rparr>"
  obtain d1 w1 where d1: "run_disable_callback ops now cb s = Some (Inr (d1, w1))" "s' = (update_track i ?f d1, w1)"
    using assms Some by (auto simp: track_disabled_def and_then_opt_Inr)
  have "same_delivery (fst s) d1 \<or> restarts (fst s) d1"
  proof (cases cb)
    case (Unload_Disabled j)
    then show ?thesis using UnloadImplDisabled_same [of ops j s "(d1, w1)"] d1(1) by (simp add: run_disable_callback_def)
  next
    case (Rate_Enable_Tracks rate j)
    then show ?thesis using SetPlaybackRateEnableTracks_effect [of ops now rate j s "(d1, w1)"] d1(1) by (simp add: run_disable_callback_def)
  qed
  moreover have "extends d1 (fst s')" using same_delivery_extends [OF update_renderer_same] d1(2) by simp
  ultimately show ?thesis using same_delivery_extends extends_trans restarts_extends by blast
qed

lemma OnManifestRefreshed_effect:
  assumes "OnManifestRefreshed ops now m s = Some (Inr s')"
  shows "extends (fst s) (fst s')"
proof -
  obtain d0 w d' w' where s: "s = (d0, w)" "s' = (d', w')" by (cases s, cases s')
  let ?d = "d0\<lparr>dt_manifest := Some m\<rparr>"
  show ?thesis
  proof (cases "dt_state d0 = PLAYER_PREPARING")
    case True
    obtain ok ts w1 where ts: "start_loop (po_reader ops) (dt_initial_time ?d) 0 (dt_tracks d0 @ new_tracks) (po_make_sources ops w) = Some (Inr (ok, ts, w1))"
      using assms True by (auto simp: OnManifestRefreshed_def s and_then_opt_Inr Let_def)
    have "list_all2 same_sample (dt_tracks d0 @ new_tracks) ts" by (rule start_loop_same [OF ts])
    then have ext: "extends d0 (?d\<lparr>dt_tracks := ts\<rparr>)"
      by (auto simp: extends_def list_all2_conv_all_nth nth_append) (metis (full_types) nth_append trans_less_add1)
    let ?d2 = "(SetState PLAYER_BUFFERING (?d\<lparr>dt_tracks := ts\<rparr>))\<lparr>dt_duration := FromMilliseconds (mpd_duration m)\<rparr>"
    have "d' = SetState PLAYER_ENDED (?d\<lparr>dt_tracks := ts\<rparr>) \<or> Player_Update ops now True (?d2, w1) = Some (Inr (d', w'))"
      using assms True ts by (auto simp: OnManifestRefreshed_def s Let_def split: if_splits)
    then show ?thesis
    proof
      assume "Player_Update ops now True (?d2, w1) = Some (Inr (d', w'))"
      from same_delivery_extends [OF Player_Update_same [OF this]] ext show ?thesis using s by (auto simp: extends_def intro: same_sample_trans)
    qed (use ext s in \<open>simp add: extends_def\<close>)
  qed (use assms s in \<open>auto simp: OnManifestRefreshed_def Let_def extends_def\<close>)
qed

section \<open>The invariant\<close>

text \<open>
  The current track is one of the tracks, it has not ended, and its sample has been read; what has been
  delivered of it is less than the whole.
\<close>

definition player_ok :: "dash_thread \<Rightarrow> bool" where
  "player_ok d \<longleftrightarrow>
     0 \<le> dt_sample_holder_consumed d \<and>
     (case dt_current_track d of
        None \<Rightarrow> dt_sample_holder_consumed d = 0
      | Some i \<Rightarrow>
          i < length (dt_tracks d) \<and> tk_has_sample (dt_tracks d ! i) \<and> \<not> tk_is_eos (dt_tracks d ! i) \<and>
          (dt_sample_holder_consumed d = 0 \<or> dt_sample_holder_consumed d < sh_written_size (tk_sample_holder (dt_tracks d ! i))))"

definition ended :: "dash_thread \<Rightarrow> nat \<Rightarrow> bool" where
  "ended d i \<longleftrightarrow> i < length (dt_tracks d) \<and> tk_is_eos (dt_tracks d ! i)"

lemma extends_ok: "extends d d' \<Longrightarrow> player_ok d \<Longrightarrow> player_ok d'" "extends d d' \<Longrightarrow> ended d i \<Longrightarrow> ended d' i"
  by (auto simp: extends_def player_ok_def ended_def same_sample_def split: option.splits)

lemma restarts_ok: "restarts d d' \<Longrightarrow> player_ok d'" "restarts d d' \<Longrightarrow> ended d i \<Longrightarrow> ended d' i"
  by (auto simp: restarts_def player_ok_def ended_def)

lemma fill_loop_eos:
  "fill_loop readers trick p i ts e bp w = Some (Inr (e', ts', bp', w')) \<Longrightarrow> list_all2 (\<lambda>t t'. tk_is_eos t \<longrightarrow> tk_is_eos t') ts ts'"
proof (induction ts arbitrary: i e bp w e' ts' bp' w')
  case (Cons t ts)
  from Cons.prems obtain e1 t1 bp1 w1 ts2 where
    "(if tk_is_eos t \<or> \<not> active t then Some (Inr (e, t, bp, w)) else if tk_has_sample t then Some (Inr (False, t, bp, w))
      else and_then_opt (read_attempts (readers i) trick p 0 (t\<lparr>tk_sample_holder := ClearData (tk_sample_holder t)\<rparr>) bp w)
        (\<lambda>(t1, bp1, w1). Some (Inr (False, t1, bp1, w1)))) = Some (Inr (e1, t1, bp1, w1))"
    "fill_loop readers trick p (Suc i) ts e1 bp1 w1 = Some (Inr (e', ts2, bp', w'))" "ts' = t1 # ts2"
    unfolding fill_loop.simps and_then_opt_Inr by (auto simp: and_then_opt_Inr)
  then show ?case using Cons.IH by (auto split: if_splits)
qed simp

lemma Fill_effect:
  assumes "FillTrackSampleHolders ops (d, w) = Some (Inr (again, d', w'))"
  shows "dt_current_track d' = dt_current_track d \<and> dt_sample_holder_consumed d' = dt_sample_holder_consumed d \<and> dt_state d' = dt_state d \<and>
    (\<forall>i. ended d i \<longrightarrow> ended d' i)"
proof -
  obtain e ts bp where "fill_loop (po_reader ops) (Format_Evaluators.IsTrick (dt_playback_rate d)) (dt_reader_position d) 0 (dt_tracks d) True
      (dt_buffered_position d) w = Some (Inr (e, ts, bp, w'))" "d' = d\<lparr>dt_tracks := ts, dt_buffered_position := bp\<rparr>"
    using assms by (auto simp: FillTrackSampleHolders_def and_then_opt_Inr)
  then show ?thesis using fill_loop_eos by (fastforce simp: ended_def list_all2_conv_all_nth)
qed

lemma MaybeCheckPssh_same: "MaybeCheckPssh ops (t, w) = Inr (ok, t', w') \<Longrightarrow> same_sample t t'"
  by (auto simp: MaybeCheckPssh_def same_sample_def split: if_splits option.splits prod.splits bool.splits)

lemma GetNextSampleTrack_current:
  "GetNextSampleTrack d = (x, d') \<Longrightarrow> dt_current_track d' = dt_current_track d"
  by (auto simp: GetNextSampleTrack_def Let_def split: prod.splits option.splits if_splits)

lemma begin_sample_ok:
  assumes "player_ok d" "dt_current_track d = None" "begin_sample ops (d, w) = Some (Inr (early, fi, d', w'))"
  shows "player_ok d' \<and> (\<forall>i. ended d i \<longrightarrow> ended d' i)"
proof -
  obtain again d1 w1 where fill: "FillTrackSampleHolders ops (d, w) = Some (Inr (again, d1, w1))"
    using assms(3) by (auto simp: begin_sample_def and_then_opt_Inr)
  note f = Fill_effect [OF fill]
  have c: "dt_sample_holder_consumed d1 = 0" "dt_current_track d1 = None" using f assms(1,2) by (simp_all add: player_ok_def)
  show ?thesis
  proof (cases "again \<and> fst (GetNextSampleTrack d1) \<noteq> None")
    case True
    then obtain i d2 where g: "GetNextSampleTrack d1 = (Some i, d2)" by (cases "GetNextSampleTrack d1") auto
    note k = GetNextSampleTrack_keeps [OF g] and v = next_track_valid [OF g]
    obtain ok t w2 where t: "MaybeCheckPssh ops (dt_tracks d2 ! i, w1) = Inr (ok, t, w2)"
        and d': "d' = d2\<lparr>dt_current_track := Some i, dt_tracks := (dt_tracks d2)[i := t]\<rparr>"
      using assms(3) True fill g by (auto simp: begin_sample_def Let_def and_then_Inr split: if_splits)
    have "same_sample (dt_tracks d1 ! i) t" using MaybeCheckPssh_same [OF t] k by simp
    then show ?thesis using f c k v unfolding d'
      by (auto simp: player_ok_def ended_def selectable_def same_sample_def nth_list_update)
  next
    case False
    then have "d' = SetState PLAYER_ENDED (d1\<lparr>dt_is_eos := True\<rparr>) \<or> (\<exists>d2. GetNextSampleTrack d1 = (None, d2) \<and> d' = d2\<lparr>dt_current_track := None\<rparr>)"
      using assms(3) fill by (auto simp: begin_sample_def split: if_splits prod.splits option.splits)
    then show ?thesis using f c GetNextSampleTrack_keeps by (fastforce simp: player_ok_def ended_def)
  qed
qed

lemma copy_fragment_ok:
  assumes "player_ok d" "copy_fragment n fi d = Inr (k, bytes, fi', d')"
  shows "player_ok d' \<and> (\<forall>i. ended d i \<longrightarrow> ended d' i)"
proof -
  obtain i where i: "dt_current_track d = Some i" using assms(2) by (auto simp: copy_fragment_def split: option.splits)
  let ?t = "dt_tracks d ! i" and ?c = "dt_sample_holder_consumed d"
  let ?h = "tk_sample_holder ?t"
  let ?k = "min n (sh_written_size ?h - ?c)"
  obtain bs where bs: "copy_bytes ?h ?c ?k = Inr bs" using assms(2) by (auto simp: copy_fragment_def i Let_def and_then_Inr)
  obtain f where f: "fh_format (tk_format_holder ?t) = Some f"
    using assms(2) bs by (cases "fh_format (tk_format_holder ?t)") (auto simp: copy_fragment_def i Let_def)
  obtain offset d1 where d1: "GetSampleOffsetMs (d\<lparr>dt_sample_holder_consumed := ?c + ?k\<rparr>) = Inr (offset, d1)"
    using assms(2) bs f by (auto simp: copy_fragment_def i Let_def and_then_Inr)
  have d': "d' = (if ?k = sh_written_size ?h - ?c
       then d1\<lparr>dt_sample_holder_consumed := 0, dt_current_track := None,
            dt_tracks := (dt_tracks d1)[i := ?t\<lparr>tk_has_sample := False, tk_sample_holder := ClearData ?h\<rparr>]\<rparr>
       else d1)"
    using assms(2) bs f d1 by (simp add: copy_fragment_def i Let_def split: if_splits)
  obtain x where x: "d1 = d\<lparr>dt_sample_holder_consumed := ?c + ?k, dt_sample_offset_ms := x\<rparr>"
    using GetSampleOffsetMs_fields [OF d1] by blast
  have "0 \<le> ?k" using bs by (auto simp: copy_bytes_def split: if_splits)
  then show ?thesis using assms(1) i unfolding d' x
    by (auto simp: player_ok_def ended_def nth_list_update min_def)
qed

lemma CopyFrame_ok:
  assumes "player_ok (fst s)" "CopyFrame ops n s = Some (Inr (k, bytes, fi, s'))"
  shows "player_ok (fst s') \<and> (\<forall>i. ended (fst s) i \<longrightarrow> ended (fst s') i)"
proof -
  obtain d w d' w' where s: "s = (d, w)" "s' = (d', w')" by (cases s, cases s')
  have ok: "player_ok d" using assms(1) s by simp
  obtain k' where impl: "CopyFrameImpl ops n (d, w) = Some (Inr (k', bytes, fi, d', w'))"
    using assms(2) by (auto simp: CopyFrame_def and_then_opt_Inr s)
  show ?thesis
  proof (cases "dt_state d = PLAYER_BUFFERING")
    case True
    obtain early fi1 d1 w1 where
      first: "(if dt_current_track d = None then begin_sample ops (d, w) else Some (Inr (None, frame_info_zero, d, w))) = Some (Inr (early, fi1, d1, w1))"
      and rest: "(case early of Some r \<Rightarrow> Some (Inr (r, [], fi1, d1, w1))
         | None \<Rightarrow> Some (and_then (copy_fragment n fi1 d1) (\<lambda>(n, bytes, fi1, d2). Inr (n, bytes, fi1, d2, w1)))) = Some (Inr (k', bytes, fi, d', w'))"
      using impl True by (auto simp: CopyFrameImpl_def and_then_opt_Inr)
    have d1: "player_ok d1 \<and> (\<forall>i. ended d i \<longrightarrow> ended d1 i)"
    proof (cases "dt_current_track d = None")
      case True
      then show ?thesis using first begin_sample_ok [OF ok True, of ops w early fi1 d1 w1] by simp
    qed (use first ok in auto)
    have "d' = d1 \<or> (\<exists>k bytes fi. copy_fragment n fi1 d1 = Inr (k, bytes, fi, d'))"
      using rest by (auto simp: and_then_Inr split: option.splits)
    then show ?thesis using d1 copy_fragment_ok s by auto
  qed (use impl ok s in \<open>auto simp: CopyFrameImpl_def\<close>)
qed

lemma player_step_ok:
  assumes "player_step ops s s'" "player_ok (fst s)"
  shows "player_ok (fst s') \<and> (\<forall>i. ended (fst s) i \<longrightarrow> ended (fst s') i)"
proof -
  have by_effect: "extends (fst s) (fst s') \<or> restarts (fst s) (fst s') \<Longrightarrow> ?thesis"
    using extends_ok restarts_ok assms(2) by blast
  from assms(1) show ?thesis
  proof cases
    case (step_load d w sec)
    then show ?thesis by (intro by_effect disjI1 same_delivery_extends) (simp add: Load_begin_def same_delivery_def)
  next
    case (step_copy n k bytes fi)
    then show ?thesis using CopyFrame_ok [OF assms(2)] by blast
  next
    case (step_task d pre task post now w)
    have "same_delivery (d\<lparr>dt_tasks := pre @ post\<rparr>) (fst s')"
      using step_task(3) Player_Update_same by (cases task) fastforce+
    then show ?thesis using step_task(1) by (intro by_effect disjI1 same_delivery_extends) simp
  next
    case (step_format d w i f)
    then show ?thesis using FormatGiven_same by (intro by_effect disjI1 same_delivery_extends) simp
  next
    case (step_manifest_error d w)
    then show ?thesis by (intro by_effect disjI1 same_delivery_extends) (simp add: OnManifestError_def)
  next
    case (step_world d w w')
    then show ?thesis by (intro by_effect disjI1 same_delivery_extends) simp
  next
    case (step_seek ms k)
    then show ?thesis using by_effect SeekImpl_effect [OF step_seek] same_delivery_extends by blast
  next
    case (step_rate rate)
    then show ?thesis using by_effect SetPlaybackRateDisableTracks_same [OF step_rate] same_delivery_extends by blast
  next
    case step_unload
    then show ?thesis using by_effect UnloadImpl_same [OF step_unload] same_delivery_extends by blast
  next
    case (step_disabled i now)
    then show ?thesis using by_effect track_disabled_effect [OF step_disabled(2)] by blast
  next
    case (step_manifest now m)
    then show ?thesis using by_effect OnManifestRefreshed_effect [OF step_manifest] by blast
  qed
qed

lemma player_steps_ok:
  assumes "(player_step ops)\<^sup>*\<^sup>* s s'" "player_ok (fst s)"
  shows "player_ok (fst s') \<and> (\<forall>i. ended (fst s) i \<longrightarrow> ended (fst s') i)"
  using assms
proof (induction rule: rtranclp_induct)
  case (step y z)
  then show ?case using player_step_ok by blast
qed simp

lemma player_ok_new: "player_ok DashThread_new"
  by (simp add: player_ok_def DashThread_new_def)


text \<open>
  C39. A defect: a track that has ended stays silent. No operation resets the flag of a track that has
  reached the end of its stream, neither a seek nor a change of the rate, so its samples are never
  delivered again: after rewinding to the start, playback goes on without video.
\<close>

theorem ended_track_silent:
  assumes "(player_step ops)\<^sup>*\<^sup>* (DashThread_new, w) (d, w')" "i < length (dt_tracks d)" "tk_is_eos (dt_tracks d ! i)"
    and "(player_step ops)\<^sup>*\<^sup>* (d, w') (d', w'')"
  shows "tk_is_eos (dt_tracks d' ! i) \<and> dt_current_track d' \<noteq> Some i"
proof -
  have ok: "player_ok d" using player_steps_ok [OF assms(1)] player_ok_new by simp
  have "ended d i" using assms(2,3) by (simp add: ended_def)
  then show ?thesis using player_steps_ok [OF assms(4)] ok by (auto simp: ended_def player_ok_def)
qed

text \<open>A run: all tracks of a presentation are at their end at once, and the client seeks to the start.\<close>

definition ended_reader :: "(unit, media_format, drm_init_data) reader_ops" where
  "ended_reader =
     idle_reader\<lparr>ro_continue_buffering := (\<lambda>_ w. Some (Inr (True, w))),
                 ro_read_data := (\<lambda>_ fh h w. Some (Inr (END_OF_STREAM, fh, h, w)))\<rparr>"

definition ended_ops :: "unit player_ops" where
  "ended_ops = idle_ops\<lparr>po_reader := (\<lambda>_. ended_reader)\<rparr>"

definition audio_presentation :: presentation where
  "audio_presentation =
     demo_presentation\<lparr>mpd_periods := [(demo_period 0)\<lparr>pd_adaptation_sets :=
       [\<lparr>as_id = 0, as_type = AUDIO, as_representations = [], as_content_protections = [], as_supplemental_properties = [],
         as_essential_properties = []\<rparr>]\<rparr>]\<rparr>"

definition outcome :: "'a \<Rightarrow> 'a result option \<Rightarrow> 'a" where
  "outcome x m = (case m of Some (Inr y) \<Rightarrow> y | _ \<Rightarrow> x)"

definition returns_value :: "'a result option \<Rightarrow> bool" where
  "returns_value m \<longleftrightarrow> (case m of Some (Inr y) \<Rightarrow> True | _ \<Rightarrow> False)"

lemma outcome_value: "returns_value m \<Longrightarrow> m = Some (Inr (outcome x m))"
  by (auto simp: returns_value_def outcome_def split: option.splits sum.splits)

definition run_loaded :: "dash_thread \<times> unit" where
  "run_loaded = (let d = Load_begin 0 DashThread_new
                 in outcome (d, ()) (run_task ended_ops 0 (Update_Task False) (d\<lparr>dt_tasks := []\<rparr>, ())))"

definition run_started :: "dash_thread \<times> unit" where
  "run_started = outcome run_loaded (OnManifestRefreshed ended_ops 0 audio_presentation run_loaded)"

definition run_ended :: "dash_thread \<times> unit" where
  "run_ended = snd (snd (snd (outcome (0, [], frame_info_zero, run_started) (CopyFrame ended_ops 10 run_started))))"

definition run_sought :: "dash_thread \<times> unit" where
  "run_sought = snd (outcome (0, run_ended) (SeekImpl ended_ops 0 run_ended))"

lemma run_reaches_end: "(player_step ended_ops)\<^sup>*\<^sup>* (DashThread_new, ()) run_ended"
proof -
  let ?d = "Load_begin 0 DashThread_new"
  have s1: "player_step ended_ops (DashThread_new, ()) (?d, ())" by (rule step_load)
  have s2: "player_step ended_ops (?d, ()) run_loaded"
  proof (rule step_task [where pre = "[]" and post = "[]" and task = "Update_Task False" and now = 0])
    show "dt_tasks ?d = [] @ Update_Task False # []" by code_simp
    have "returns_value (run_task ended_ops 0 (Update_Task False) (?d\<lparr>dt_tasks := []\<rparr>, ()))" by code_simp
    then show "run_task ended_ops 0 (Update_Task False) (?d\<lparr>dt_tasks := [] @ []\<rparr>, ()) = Some (Inr run_loaded)"
      unfolding run_loaded_def Let_def append_Nil by (rule outcome_value)
  qed
  have s3: "player_step ended_ops run_loaded run_started"
  proof (rule step_manifest)
    have "returns_value (OnManifestRefreshed ended_ops 0 audio_presentation run_loaded)" by code_simp
    then show "OnManifestRefreshed ended_ops 0 audio_presentation run_loaded = Some (Inr run_started)"
      unfolding run_started_def by (rule outcome_value)
  qed
  have s4: "player_step ended_ops run_started run_ended"
  proof (rule step_copy)
    let ?m = "CopyFrame ended_ops 10 run_started"
    let ?o = "outcome (0, [], frame_info_zero, run_started) ?m"
    have "returns_value ?m" by code_simp
    then have "?m = Some (Inr ?o)" by (rule outcome_value)
    then show "?m = Some (Inr (fst ?o, fst (snd ?o), fst (snd (snd ?o)), run_ended))" unfolding run_ended_def by simp
  qed
  note rtranclp.rtrancl_into_rtrancl [trans]
  have "(player_step ended_ops)\<^sup>*\<^sup>* (DashThread_new, ()) (?d, ())" using s1 by (rule r_into_rtranclp)
  also note s2 also note s3 also note s4
  finally show ?thesis .
qed


theorem ended_track_silent_witness:
  "tk_is_eos (dt_tracks (fst run_sought) ! 0) \<and> dt_current_track (fst run_sought) \<noteq> Some 0"
proof -
  have reach: "(player_step ended_ops)\<^sup>*\<^sup>* (DashThread_new, ()) (fst run_ended, snd run_ended)" by (simp only: prod.collapse run_reaches_end)
  have at_end: "0 < length (dt_tracks (fst run_ended))" "tk_is_eos (dt_tracks (fst run_ended) ! 0)" by code_simp+
  let ?m = "SeekImpl ended_ops 0 run_ended"
  have "returns_value ?m" by code_simp
  then have "?m = Some (Inr (outcome (0, run_ended) ?m))" by (rule outcome_value)
  then have "?m = Some (Inr (fst (outcome (0, run_ended) ?m), run_sought))" unfolding run_sought_def by simp
  then have "player_step ended_ops run_ended run_sought" by (rule step_seek)
  then have "(player_step ended_ops)\<^sup>*\<^sup>* (fst run_ended, snd run_ended) (fst run_sought, snd run_sought)"
    by (simp only: prod.collapse r_into_rtranclp)
  from ended_track_silent [OF reach at_end this] show ?thesis .
qed

section \<open>A rate set before loading\<close>

text \<open>No tracks, and a state that no event leaves.\<close>

definition stuck :: "dash_thread \<Rightarrow> bool" where
  "stuck d \<longleftrightarrow> dt_tracks d = [] \<and> (dt_state d = PLAYER_READY \<or> dt_state d = PLAYER_ENDED)"

lemma stuck_update:
  assumes "stuck (fst s)" "Player_Update ops now a s = Some (Inr s')"
  shows "stuck (fst s')"
proof -
  obtain d w where s: "s = (d, w)" by (cases s)
  obtain d1 w1 where d1: "UpdateMediaTime ops now (d, w) = Inr (d1, w1)" using assms(2) by (auto simp: Player_Update_def and_then_opt_Inr s)
  have "stuck d1" using UpdateMediaTime_same [OF d1] assms(1) s by (auto simp: stuck_def same_delivery_def)
  then show ?thesis using assms(2) by (auto simp: Player_Update_def s d1 stuck_def Let_def split: if_splits)
qed

lemma stuck_step:
  assumes "player_step ops s s'" "stuck (fst s)"
  shows "stuck (fst s')"
  using assms(1)
proof cases
  case (step_copy n k bytes fi)
  then show ?thesis using assms(2) by (cases s) (auto simp: CopyFrame_def CopyFrameImpl_def stuck_def and_then_opt_Inr)
next
  case (step_seek ms k)
  then show ?thesis using assms(2)
    by (cases s) (auto simp: SeekImpl_def stuck_def and_then_opt_Inr Let_def split: if_splits dest!: GetSampleOffsetMs_fields)
next
  case (step_task d pre task post now w)
  then show ?thesis using assms(2) stuck_update [of "(d\<lparr>dt_tasks := pre @ post\<rparr>, w)" ops now _ s']
    by (cases task) (auto simp: stuck_def)
next
  case (step_rate rate)
  then show ?thesis using assms(2)
    by (cases s) (auto simp: SetPlaybackRateDisableTracks_def stop_and_collect_def enabled_tracks_def stuck_def Let_def SetState_def split: if_splits)
next
  case (step_manifest now m)
  then show ?thesis using assms(2) by (cases s) (auto simp: OnManifestRefreshed_def stuck_def)
next
  case step_unload
  then show ?thesis using assms(2)
    by (cases s) (auto simp: UnloadImpl_def stop_and_collect_def enabled_tracks_def stuck_def Let_def SetState_def)
qed (use assms(2) in \<open>auto simp: stuck_def Load_begin_def FormatGiven_def update_track_def OnManifestError_def OnManifestRefreshed_def Let_def
    split: if_splits\<close>)

text \<open>
  A defect: setting a rate before loading makes the player useless. Without tracks to disable the call
  leaves the player in the ready state; from there neither the task that \<open>Load\<close> posts nor an arriving manifest
  does anything, so there will never be codecs, and \<open>Load\<close> fails whatever follows.
\<close>

theorem rate_before_load_stuck:
  assumes "rate \<noteq> 1" "SetPlaybackRateDisableTracks ops rate (DashThread_new, w) = Some (Inr s)" "(player_step ops)\<^sup>*\<^sup>* s s'"
  shows "\<not> HaveCodecs (fst s') \<and> dt_tracks (fst s') = [] \<and> dt_state (fst s') \<in> {PLAYER_READY, PLAYER_ENDED}"
proof -
  have start: "stuck (fst s)" using assms(1,2)
    by (auto simp: SetPlaybackRateDisableTracks_def DashThread_new_def stop_and_collect_def enabled_tracks_def stuck_def SetState_def Let_def)
  from assms(3) have "stuck (fst s')"
  proof (induction rule: rtranclp_induct)
    case (step y z)
    then show ?case using stuck_step by blast
  qed (rule start)
  then show ?thesis by (auto simp: stuck_def HaveCodecs_def)
qed

theorem rate_before_load_stuck_witness:
  "\<exists>d. SetPlaybackRateDisableTracks idle_ops 2 (DashThread_new, ()) = Some (Inr (d, ())) \<and> \<not> HaveCodecs (Load_begin 0 d)"
proof -
  let ?m = "SetPlaybackRateDisableTracks idle_ops 2 (DashThread_new, ())"
  let ?s = "outcome (DashThread_new, ()) ?m"
  have "returns_value ?m" by code_simp
  then have set: "?m = Some (Inr ?s)" by (rule outcome_value)
  obtain d where d: "?s = (d, ())" by (cases ?s) auto
  have "player_step idle_ops (d, ()) (Load_begin 0 d, ())" by (rule step_load)
  then have "(player_step idle_ops)\<^sup>*\<^sup>* ?s (Load_begin 0 d, ())" unfolding d by (rule r_into_rtranclp)
  from rate_before_load_stuck [OF _ set this] set d show ?thesis by auto
qed

section \<open>Changing the rate\<close>


















end
