(* ===== verification/Chunk_Output.thy ===== *)
theory Chunk_Output
  imports Chunks Media_Format
begin

text \<open>
  What a chunk does with the output of its extractor (\<open>chunk/chunk_extractor_wrapper.cc\<close>, the output methods of
  \<open>chunk/container_media_chunk.cc\<close> and \<open>chunk/initialization_chunk.cc\<close>), and the chunk that is one sample
  (\<open>chunk/single_sample_media_chunk.cc\<close>).

  An extractor writes to a \<open>track_sink\<close>: the wrapper passes every call on to the chunk it was initialized
  with, so the sink of an extractor is that of the chunk. A media chunk writes to its track output and shifts the times
  by its sample offset; sample data in an initialization chunk ends the process.
\<close>

section \<open>The wrapper\<close>

datatype extractor_call = Extractor_Init | Extractor_Seek

record extractor_wrapper =
  ew_output :: "nat option"
  ew_extractor_initialized :: bool
  ew_seen_track :: bool

definition ChunkExtractorWrapper_new :: extractor_wrapper where
  "ChunkExtractorWrapper_new = \<lparr>ew_output = None, ew_extractor_initialized = False, ew_seen_track = False\<rparr>"

text \<open>The output is named by the address of its chunk. The first result is the call the extractor receives.\<close>

definition ChunkExtractorWrapper_Init :: "nat \<Rightarrow> extractor_wrapper \<Rightarrow> extractor_call \<times> extractor_wrapper" where
  "ChunkExtractorWrapper_Init output w =
     (if \<not> ew_extractor_initialized w then (Extractor_Init, w\<lparr>ew_output := Some output, ew_extractor_initialized := True\<rparr>)
      else (Extractor_Seek, w\<lparr>ew_output := Some output\<rparr>))"

definition RegisterTrack :: "extractor_wrapper \<Rightarrow> extractor_wrapper result" where
  "RegisterTrack w = (if ew_seen_track w then Inl Check_failed else Inr (w\<lparr>ew_seen_track := True\<rparr>))"

definition DoneRegisteringTracks :: "extractor_wrapper \<Rightarrow> unit result" where
  "DoneRegisteringTracks w = (if ew_seen_track w then Inr () else Inl Check_failed)"

section \<open>Where samples go\<close>

text \<open>
  \<open>ts_write\<close> is \<open>WriteSampleDataFixThis\<close>: whether it succeeded and how many bytes were taken. \<open>ts_metadata\<close> is
  \<open>WriteSampleMetadata\<close>: the time, duration, flags, size and offset of a sample and, when it is encrypted, its key, its
  initialization vector and the sizes of its clear and encrypted parts.
\<close>

type_synonym sample_crypto = "string \<times> byte list \<times> int list \<times> int list"

record 'o track_sink =
  ts_write :: "byte list \<Rightarrow> 'o \<Rightarrow> (bool \<times> int \<times> 'o) result"
  ts_metadata :: "int \<Rightarrow> int \<Rightarrow> int \<Rightarrow> int \<Rightarrow> int \<Rightarrow> sample_crypto option \<Rightarrow> 'o \<Rightarrow> 'o result"

definition container_sink :: "int \<Rightarrow> 'f track_state track_sink" where
  "container_sink sample_offset =
     \<lparr>ts_write = (\<lambda>src s. and_then (WriteSampleDataFixThis src s) (\<lambda>(n, s'). Inr (True, n, s'))),
      ts_metadata = (\<lambda>time_us duration_us flags size offset crypto s.
        Inr (WriteSampleMetadata (time_us + sample_offset) duration_us flags size offset
               (map_option fst crypto) (map_option (\<lambda>(_, iv, _). iv) crypto)
               (map_option (\<lambda>(_, _, clear, _). clear) crypto) (map_option (\<lambda>(_, _, _, enc). enc) crypto) s))\<rparr>"

definition initialization_sink :: "'o track_sink" where
  "initialization_sink =
     \<lparr>ts_write = (\<lambda>src s. Inl Check_failed), ts_metadata = (\<lambda>time_us duration_us flags size offset crypto s. Inl Check_failed)\<rparr>"

section \<open>Formats\<close>

text \<open>The format, the protection and, of an initialization chunk, the segment index; \<open>cf_given\<close> is what the callback for formats, if there is one, was given.\<close>

record chunk_formats =
  cf_sample_offset :: int
  cf_media_format :: "media_format option"
  cf_drm_init_data :: "drm_init_data option"
  cf_has_callback :: bool
  cf_given :: "media_format option list"
  cf_seek_map :: "chunk_index option"

definition GetAdjustedMediaFormat :: "media_format option \<Rightarrow> int \<Rightarrow> media_format option" where
  "GetAdjustedMediaFormat format sample_offset =
     (case format of
        None \<Rightarrow> None
      | Some f \<Rightarrow>
          if sample_offset \<noteq> 0 \<and> mf_subsample_offset_us f \<noteq> kOffsetSampleRelative
          then Some (CopyWithSubsampleOffsetUs (mf_subsample_offset_us f + sample_offset) f)
          else Some f)"

definition give_to_callback :: "chunk_formats \<Rightarrow> chunk_formats" where
  "give_to_callback c = (if cf_has_callback c then c\<lparr>cf_given := cf_given c @ [cf_media_format c]\<rparr> else c)"

definition ContainerMediaChunk_GiveFormat :: "media_format option \<Rightarrow> chunk_formats \<Rightarrow> chunk_formats" where
  "ContainerMediaChunk_GiveFormat media_format c =
     give_to_callback (c\<lparr>cf_media_format := GetAdjustedMediaFormat media_format (cf_sample_offset c)\<rparr>)"

definition InitializationChunk_GiveFormat :: "media_format option \<Rightarrow> chunk_formats \<Rightarrow> chunk_formats" where
  "InitializationChunk_GiveFormat media_format c = give_to_callback (c\<lparr>cf_media_format := media_format\<rparr>)"

definition SetDrmInitData :: "drm_init_data option \<Rightarrow> chunk_formats \<Rightarrow> chunk_formats" where
  "SetDrmInitData drm_init_data c = c\<lparr>cf_drm_init_data := drm_init_data\<rparr>"

definition ContainerMediaChunk_GiveSeekMap :: "chunk_index \<Rightarrow> chunk_formats \<Rightarrow> chunk_formats" where
  "ContainerMediaChunk_GiveSeekMap seek_map c = c"

definition InitializationChunk_GiveSeekMap :: "chunk_index \<Rightarrow> chunk_formats \<Rightarrow> chunk_formats" where
  "InitializationChunk_GiveSeekMap seek_map c = c\<lparr>cf_seek_map := Some seek_map\<rparr>"

section \<open>The chunk that is one sample\<close>

text \<open>
  The output's \<open>WriteSampleData\<close> from an input is an operation on the environment here, with its result and the
  number of bytes it reports; in \<open>DefaultTrackOutput\<close> it is not implemented and ends the process.
\<close>

partial_function (option) single_sample_loop ::
  "('w \<Rightarrow> (bool \<times> int \<times> 'w) result) \<Rightarrow> ('w \<Rightarrow> bool) \<Rightarrow> int \<Rightarrow> int \<Rightarrow> 'w \<Rightarrow> (bool \<times> int \<times> 'w) result option" where
  "single_sample_loop write_data canceled result bytes_loaded w =
     (if result = RESULT_END_OF_INPUT then Some (Inr (False, bytes_loaded, w))
      else if canceled w then Some (Inr (True, bytes_loaded + result, w))
      else (case write_data w of
              Inl e \<Rightarrow> Some (Inl e)
            | Inr (ok, result', w') \<Rightarrow>
                if \<not> ok then Some (Inr (True, bytes_loaded + result, w'))
                else single_sample_loop write_data canceled result' (bytes_loaded + result) w'))"

text \<open>The result, \<open>bytes_loaded_\<close> afterwards and the environment.\<close>

definition SingleSampleMediaChunk_Load ::
  "'w load_env \<Rightarrow> ('w \<Rightarrow> (bool \<times> int \<times> 'w) result) \<Rightarrow> (int \<Rightarrow> int \<Rightarrow> int \<Rightarrow> int \<Rightarrow> int \<Rightarrow> 'w \<Rightarrow> 'w result) \<Rightarrow> chunk \<Rightarrow> int \<Rightarrow> 'w \<Rightarrow>
   (bool \<times> int \<times> 'w) result option" where
  "SingleSampleMediaChunk_Load e write_data write_metadata c bytes_loaded w =
     (case le_open e (GetRemainder (ck_data_spec c) bytes_loaded) w of (open_size, w1) \<Rightarrow>
        if open_size = RESULT_IO_ERROR then Some (Inr (False, bytes_loaded, le_close e w1))
        else and_then_opt (single_sample_loop write_data (le_canceled e) 0 bytes_loaded w1) (\<lambda>(failed, n, w2).
          if failed then Some (Inr (False, n, le_close e w2))
          else Some (and_then (write_metadata (ck_start_time_us c) (ck_end_time_us c - ck_start_time_us c) kSampleFlagSync n 0
                                 (le_close e w2)) (\<lambda>w3. Inr (True, n, w3)))))"

definition TrackOutput_WriteSampleData_input :: "'w \<Rightarrow> (bool \<times> int \<times> 'w) result" where
  "TrackOutput_WriteSampleData_input w = Inl Check_failed"

section \<open>Properties\<close>

text \<open>
  A sink keeps what it is given: \<open>held s p\<close> says that the bytes \<open>p\<close> were written last and belong to no sample yet.
  Writing appends a part of the bytes, not empty, while there is room; the metadata of a sample of all bytes that
  wait makes them a sample.
\<close>

locale sample_sink =
  fixes sink :: "'o track_sink" and ok :: "'o \<Rightarrow> bool" and room :: "'o \<Rightarrow> int" and held :: "'o \<Rightarrow> byte list \<Rightarrow> bool"
    and view :: "'o \<Rightarrow> ('s \<times> byte list) list" and describes :: "'s \<Rightarrow> int \<Rightarrow> int \<Rightarrow> int \<Rightarrow> sample_crypto option \<Rightarrow> bool"
  assumes held_Nil: "ok s \<Longrightarrow> held s []"
    and write_ok: "ok s \<Longrightarrow> held s p \<Longrightarrow> bs \<noteq> [] \<Longrightarrow> int (length bs) \<le> room s \<Longrightarrow>
      \<exists>n s'. ts_write sink bs s = Inr (True, int n, s') \<and> 0 < n \<and> n \<le> length bs \<and> ok s' \<and> room s' = room s - int n \<and>
        held s' (p @ take n bs) \<and> view s' = view s"
    and metadata_ok: "ok s \<Longrightarrow> held s p \<Longrightarrow>
      \<exists>s' x. ts_metadata sink t d fl (int (length p)) 0 cr s = Inr s' \<and> ok s' \<and> room s' = room s \<and> view s' = view s @ [(x, p)] \<and>
        describes x t d fl cr"

context sample_sink
begin

text \<open>A loop that writes what is left of some bytes until nothing is left, given by its equations: it ends, and all bytes are held.\<close>

lemma write_loop_ok:
  assumes empty: "\<And>w. loop [] w = Some (Inr (True, w))"
    and step: "\<And>src w n w'. src \<noteq> [] \<Longrightarrow> ts_write sink src w = Inr (True, int n, w') \<Longrightarrow> n \<le> length src \<Longrightarrow> loop src w = loop (drop n src) w'"
  shows "ok w \<Longrightarrow> held w p \<Longrightarrow> int (length src) \<le> room w \<Longrightarrow>
   \<exists>w'. loop src w = Some (Inr (True, w')) \<and> ok w' \<and> room w' = room w - int (length src) \<and> held w' (p @ src) \<and> view w' = view w"
proof (induction "length src" arbitrary: src w p rule: less_induct)
  case less
  show ?case
  proof (cases "src = []")
    case True
    then show ?thesis using less.prems empty by simp
  next
    case False
    then obtain n w1 where w1: "ts_write sink src w = Inr (True, int n, w1)" "0 < n" "n \<le> length src" "ok w1" "room w1 = room w - int n"
        "held w1 (p @ take n src)" "view w1 = view w"
      using write_ok [OF less.prems(1,2) False less.prems(3)] by blast
    have "length (drop n src) < length src" "int (length (drop n src)) \<le> room w1" using w1 less.prems(3) False by auto
    then obtain w2 where "loop (drop n src) w1 = Some (Inr (True, w2))" "ok w2" "room w2 = room w1 - int (length (drop n src))"
        "held w2 ((p @ take n src) @ drop n src)" "view w2 = view w1"
      using less.hyps [of "drop n src" w1 "p @ take n src"] w1(4,6) by blast
    then show ?thesis using w1 step [OF False w1(1,3)] by (auto simp: of_nat_diff)
  qed
qed

end

definition track_room :: "'f track_state \<Rightarrow> int" where
  "track_room s = 2 ^ 31 - 1 - bytes_written (buffer_of s)"

text \<open>The bytes lie at the end of the stream, after all samples.\<close>

definition track_held :: "'f track_state \<Rightarrow> byte list \<Rightarrow> bool" where
  "track_held s p \<longleftrightarrow>
     layout (bytes_dropped (buffer_of s)) (bytes_written (buffer_of s) - int (length p)) (rsb_samples (buffer_of s)) \<and>
     stream (buffer_of s) (bytes_written (buffer_of s) - int (length p)) (length p) = p"

definition track_describes :: "int \<Rightarrow> sample_info \<Rightarrow> int \<Rightarrow> int \<Rightarrow> int \<Rightarrow> sample_crypto option \<Rightarrow> bool" where
  "track_describes sample_offset x t d fl cr \<longleftrightarrow>
     si_time_us x = t + sample_offset \<and> si_duration_us x = d \<and> si_flags x = fl \<and>
     (si_key x, si_iv x, si_num_bytes_clear x, si_num_bytes_enc x) = (case cr of None \<Rightarrow> ([], [], [], []) | Some c \<Rightarrow> c)"

lemma track_write_ok:
  assumes "track_ready s" "track_held s p" "bs \<noteq> []" "int (length bs) \<le> track_room s"
  shows "\<exists>n s'. ts_write (container_sink off) bs s = Inr (True, int n, s') \<and> 0 < n \<and> n \<le> length bs \<and> track_ready s' \<and>
    track_room s' = track_room s - int n \<and> track_held s' (p @ take n bs) \<and> track_view s' = track_view s"
proof -
  let ?st = "buffer_of s"
  have ready: "rsb_ready ?st" and inv: "rsb_inv ?st" and ok: "rsb_ok ?st"
    using assms(1) by (simp_all add: track_ready_def rsb_ready_def rsb_ok_def)
  have space: "bytes_written ?st + int (length bs) < 2 ^ 31" using assms(4) by (simp add: track_room_def)
  have small: "int (length bs) < 2 ^ 31"
    using space rsb_inv_written [OF inv] rsb_inv_dropped [OF inv] by linarith
  obtain n st' where n: "AppendDataFixThis bs ?st = Inr (int n, st')" "n \<le> length bs" "appended ?st (take n bs) st'" "0 < n"
    by (rule AppendDataFixThis_ok [OF inv small]) (use assms(3) in auto)
  let ?s = "with_buffer st' (snd s)"
  have samples: "rsb_samples st' = rsb_samples ?st" and dw: "bytes_dropped st' = bytes_dropped ?st"
      "bytes_written st' = bytes_written ?st + int n" "stream st' (bytes_written ?st) n = take n bs"
    using n by (auto simp: appended_def rsb_samples_def)
  have lay: "layout (bytes_dropped ?st) (bytes_written ?st) (rsb_samples ?st)" using ok by (simp add: rsb_ok_def)
  have "payload st' x = payload ?st x" if "x \<in> set (rsb_samples ?st)" for x
    unfolding payload_def by (rule stream_cong) (use n(3) layout_member [OF lay that] in \<open>auto simp: appended_def\<close>)
  then have view: "track_view ?s = track_view s" by (simp add: track_view_def rsb_view_def samples)
  let ?pos = "bytes_written ?st - int (length p)"
  have held: "layout (bytes_dropped ?st) ?pos (rsb_samples ?st)" "stream ?st ?pos (length p) = p"
    using assms(2) by (simp_all add: track_held_def)
  have "stream st' ?pos (length p) = stream ?st ?pos (length p)"
    by (rule stream_cong) (use n(3) layout_le [OF held(1)] in \<open>auto simp: appended_def\<close>)
  then have "stream st' ?pos (length p + n) = p @ take n bs" unfolding stream_append using held(2) dw(3) by simp
  then have "track_held ?s (p @ take n bs)" using held(1) n(2) dw(1,2) samples by (simp add: track_held_def)
  moreover have "rsb_ready st'" using rsb_step_append [OF ready n(1) space] by simp
  ultimately show ?thesis using n view dw(2)
    by (auto simp: container_sink_def WriteSampleDataFixThis_def track_ready_def track_room_def)
qed

lemma track_metadata_ok:
  assumes "track_ready s" "track_held s p"
  shows "\<exists>s' x. ts_metadata (container_sink off) t d fl (int (length p)) 0 cr s = Inr s' \<and> track_ready s' \<and>
    track_room s' = track_room s \<and> track_view s' = track_view s @ [(x, p)] \<and> track_describes off x t d fl cr"
proof -
  let ?st = "buffer_of s" and ?pos = "bytes_written (buffer_of s) - int (length p)"
  have ok: "rsb_ok ?st" "bytes_written ?st < 2 ^ 31" and inv: "rsb_inv ?st"
    using assms(1) by (simp_all add: track_ready_def rsb_ready_def rsb_ok_def)
  have held: "layout (bytes_dropped ?st) ?pos (rsb_samples ?st)" "stream ?st ?pos (length p) = p"
    using assms(2) by (simp_all add: track_held_def)
  have pos: "0 \<le> ?pos" using layout_le [OF held(1)] rsb_inv_dropped [OF inv] by linarith
  have narrow: "signed_take_bit 63 ?pos = ?pos" "narrow32 (int (length p)) = int (length p)"
    using pos ok(2) by (simp_all add: signed_take_bit_int_eq_self in_int32_def)
  let ?key = "map_option fst cr" and ?iv = "map_option (\<lambda>(_, iv, _). iv) cr" and ?clear = "map_option (\<lambda>(_, _, clear, _). clear) cr"
    and ?enc = "map_option (\<lambda>(_, _, _, enc). enc) cr"
  note c = CommitSample_ok [OF ok(1) held(1), of "int (length p)" "t + off" d fl ?key ?iv ?clear ?enc]
  have "bytes_written (CommitSample (t + off) d fl ?pos (int (length p)) ?key ?iv ?clear ?enc ?st) = bytes_written ?st"
    by (simp add: CommitSample_def bytes_written_def)
  moreover have "track_describes off (new_sample (t + off) d fl ?pos (int (length p)) ?key ?iv ?clear ?enc) t d fl cr"
    by (auto simp: track_describes_def new_sample_def split: option.split)
  ultimately show ?thesis using c held(2) ok(2) narrow
    by (auto simp: container_sink_def WriteSampleMetadata_def track_ready_def rsb_ready_def track_view_def track_room_def
        GetWritePosition_def bytes_written_def)
qed

interpretation container_track: sample_sink "container_sink off" track_ready track_room track_held track_view "track_describes off" for off
proof (unfold_locales, goal_cases)
  case (1 s)
  then show ?case by (simp add: track_held_def track_ready_def rsb_ready_def rsb_ok_def stream_def)
next
  case (2 s p bs)
  then show ?case by (rule track_write_ok)
next
  case (3 s p t d fl cr)
  then show ?case by (rule track_metadata_ok)
qed

text \<open>
  A chunk that is one sample cannot be loaded into the track output: unless opening fails or the load is
  cancelled at once, the process ends.
\<close>

theorem single_sample_load_aborts:
  "SingleSampleMediaChunk_Load e TrackOutput_WriteSampleData_input md c n w =
     (case le_open e (GetRemainder (ck_data_spec c) n) w of (sz, w1) \<Rightarrow>
        if sz = RESULT_IO_ERROR \<or> le_canceled e w1 then Some (Inr (False, n, le_close e w1)) else Some (Inl Check_failed))"
  by (simp add: SingleSampleMediaChunk_Load_def TrackOutput_WriteSampleData_input_def single_sample_loop.simps [of _ _ 0]
      RESULT_END_OF_INPUT_def split: prod.split)

end
