(* ===== verification/Rawcc_Extractor.thy ===== *)
theory Rawcc_Extractor
  imports Chunk_Output Time_Delta
begin

text \<open>
  The extractor of captions (\<open>extractor/rawcc_parser_extractor.cc\<close>). It reads a RAWCC stream (a header, then packets of a
  time and a list of entries) from pieces of any size, and writes the entries in the format of the player, several to
  a sample. The input is what a call of its \<open>Read\<close> returns and the bytes it stored; the output is a \<open>track_sink\<close>. An index outside
  the buffer is \<open>Undefined_access\<close>. Times are in microseconds.
\<close>

section \<open>State\<close>

definition kRawCCHeaderSize :: nat where "kRawCCHeaderSize = 8"
definition kRawCCHeader :: int where "kRawCCHeader = 82 * 2 ^ 24 + 67 * 2 ^ 16 + 67 * 2 ^ 8 + 1"
definition kRawCCFlagsSize :: nat where "kRawCCFlagsSize = 3"
definition kRawCCPtsAndCountSizeV0 :: nat where "kRawCCPtsAndCountSizeV0 = 5"
definition kRawCCSampleSize :: nat where "kRawCCSampleSize = 3"
definition kSampleEntrySize :: nat where "kSampleEntrySize = 8"
definition kReadBufferSize :: nat where "kReadBufferSize = 4096"
definition kMaxEntriesPerSample :: nat where "kMaxEntriesPerSample = 120"

datatype parsing_state = PARSING_HEADER | PARSING_PTS_AND_COUNT | PARSING_ENTRIES

record rawcc_extractor =
  rc_state :: parsing_state
  rc_sample_offset :: int
  rc_trunc_start_pts :: "int option"
  rc_trunc_end_pts :: "int option"
  rc_buf :: "byte list"
  rc_write_pos :: nat
  rc_read_pos :: nat
  rc_version :: byte
  rc_pts :: int
  rc_sample_pts :: int
  rc_expected_count :: nat
  rc_sample_index :: nat
  rc_total_written :: nat
  rc_producing_to_queue :: bool

definition RawCC_Reset :: "rawcc_extractor \<Rightarrow> rawcc_extractor" where
  "RawCC_Reset c =
     c\<lparr>rc_total_written := 0, rc_expected_count := 0, rc_read_pos := 0, rc_write_pos := 0, rc_sample_index := 0,
       rc_producing_to_queue := True, rc_sample_pts := 0, rc_pts := 0, rc_version := 0, rc_state := PARSING_HEADER\<rparr>"

text \<open>The contents of a new buffer are not initialized; they are an argument.\<close>

definition RawCCParserExtractor_new :: "byte list \<Rightarrow> int \<Rightarrow> int option \<Rightarrow> int option \<Rightarrow> rawcc_extractor" where
  "RawCCParserExtractor_new buf sample_offset trunc_start_pts trunc_end_pts =
     RawCC_Reset \<lparr>rc_state = PARSING_HEADER, rc_sample_offset = sample_offset, rc_trunc_start_pts = trunc_start_pts,
       rc_trunc_end_pts = trunc_end_pts, rc_buf = buf, rc_write_pos = 0, rc_read_pos = 0, rc_version = 0, rc_pts = 0,
       rc_sample_pts = 0, rc_expected_count = 0, rc_sample_index = 0, rc_total_written = 0, rc_producing_to_queue = True\<rparr>"

text \<open>The extractor's one track is registered with the wrapper when the extractor is initialized.\<close>

definition RawCC_Init :: "extractor_wrapper \<Rightarrow> extractor_wrapper result" where
  "RawCC_Init w = RegisterTrack w"

definition available :: "rawcc_extractor \<Rightarrow> nat" where
  "available c = rc_write_pos c - rc_read_pos c"

section \<open>Reading the buffer\<close>

definition ReadByte :: "rawcc_extractor \<Rightarrow> (byte \<times> rawcc_extractor) result" where
  "ReadByte c =
     (if rc_read_pos c < length (rc_buf c) then Inr (rc_buf c ! rc_read_pos c, c\<lparr>rc_read_pos := rc_read_pos c + 1\<rparr>)
      else Inl Undefined_access)"

definition ReadInt :: "rawcc_extractor \<Rightarrow> (int \<times> rawcc_extractor) result" where
  "ReadInt c =
     and_then (ReadByte c) (\<lambda>(b0, c0). and_then (ReadByte c0) (\<lambda>(b1, c1). and_then (ReadByte c1) (\<lambda>(b2, c2).
     and_then (ReadByte c2) (\<lambda>(b3, c3). Inr (uint b0 * 2 ^ 24 + uint b1 * 2 ^ 16 + uint b2 * 2 ^ 8 + uint b3, c3)))))"

section \<open>Writing samples\<close>

text \<open>A count outside the bytes that remain makes the next source address leave the entry.\<close>

partial_function (option) WriteFully :: "'o track_sink \<Rightarrow> byte list \<Rightarrow> 'o \<Rightarrow> (bool \<times> 'o) result option" where
  "WriteFully sink src w =
     (if src = [] then Some (Inr (True, w))
      else (case ts_write sink src w of
              Inl e \<Rightarrow> Some (Inl e)
            | Inr (ok, n, w') \<Rightarrow>
                if \<not> ok then Some (Inr (False, w'))
                else if n < 0 \<or> n > int (length src) then Some (Inl Undefined_access)
                else WriteFully sink (drop (nat n) src) w'))"

definition pts_to_us :: "int \<Rightarrow> int" where
  "pts_to_us pts = ScaleLargeTimestamp pts 1000 45"

definition FlushSample :: "'o track_sink \<Rightarrow> rawcc_extractor \<times> 'o \<Rightarrow> (rawcc_extractor \<times> 'o) result" where
  "FlushSample sink s =
     (case s of (c, w) \<Rightarrow>
        if rc_total_written c > 0 \<and> rc_producing_to_queue c
        then and_then (ts_metadata sink (rc_sample_pts c) (pts_to_us (rc_pts c) - rc_sample_pts c) kSampleFlagSync
                         (int (rc_total_written c * kSampleEntrySize)) 0 None w) (\<lambda>w'. Inr (c\<lparr>rc_total_written := 0\<rparr>, w'))
        else Inr (c, w))"

text \<open>An unsigned number in network byte order.\<close>

definition int_bytes :: "int \<Rightarrow> byte list" where
  "int_bytes n = [word_of_int (n div 2 ^ 24), word_of_int (n div 2 ^ 16), word_of_int (n div 2 ^ 8), word_of_int n]"

text \<open>The entry the player receives.\<close>

definition entry_bytes :: "int \<Rightarrow> int \<Rightarrow> byte \<times> byte \<times> byte \<Rightarrow> byte list" where
  "entry_bytes sample_offset pts e =
     (case e of (flags, cc1, cc2) \<Rightarrow>
        (let entry_pts = (if sample_offset \<noteq> 0
                          then take_bit 32 (InMilliseconds (saturate (pts_to_us pts + sample_offset)) * 45) else pts)
         in int_bytes entry_pts @ [flags AND 3, cc1, cc2, if flags AND 4 \<noteq> 0 then 1 else 0]))"

section \<open>Parsing\<close>

text \<open>
  The three states; each falls through to the next. A first result that is a number is returned by \<open>Read\<close>.
\<close>

definition parse_header :: "rawcc_extractor \<Rightarrow> (int option \<times> rawcc_extractor) result" where
  "parse_header c =
     (if available c < kRawCCHeaderSize then Inr (Some RESULT_CONTINUE, c)
      else and_then (ReadInt c) (\<lambda>(hdr, c1).
        if hdr \<noteq> kRawCCHeader then Inr (Some RESULT_IO_ERROR, c1)
        else and_then (ReadByte c1) (\<lambda>(version, c2).
          if version \<noteq> 0 then Inr (Some RESULT_IO_ERROR, c2\<lparr>rc_version := version\<rparr>)
          else Inr (None, c2\<lparr>rc_version := version, rc_read_pos := rc_read_pos c2 + kRawCCFlagsSize,
                            rc_state := PARSING_PTS_AND_COUNT\<rparr>))))"

definition in_window :: "int option \<Rightarrow> int option \<Rightarrow> int \<Rightarrow> bool" where
  "in_window trunc_start trunc_end pts \<longleftrightarrow>
     \<not> (case trunc_start of None \<Rightarrow> False | Some t \<Rightarrow> pts_to_us pts < t) \<and>
     \<not> (case trunc_end of None \<Rightarrow> False | Some t \<Rightarrow> pts_to_us pts > t)"

definition parse_pts_and_count :: "rawcc_extractor \<Rightarrow> (int option \<times> rawcc_extractor) result" where
  "parse_pts_and_count c =
     (if available c < kRawCCPtsAndCountSizeV0 then Inr (Some RESULT_CONTINUE, c)
      else and_then (ReadInt c) (\<lambda>(pts, c1).
        and_then (ReadByte (c1\<lparr>rc_pts := pts,
                    rc_producing_to_queue := in_window (rc_trunc_start_pts c1) (rc_trunc_end_pts c1) pts,
                    rc_sample_pts := (if rc_total_written c1 = 0 then pts_to_us pts else rc_sample_pts c1)\<rparr>)) (\<lambda>(count, c2).
          Inr (None, c2\<lparr>rc_expected_count := unat count, rc_sample_index := 0, rc_state := PARSING_ENTRIES\<rparr>))))"

definition read_entry :: "rawcc_extractor \<Rightarrow> ((byte \<times> byte \<times> byte) \<times> rawcc_extractor) result" where
  "read_entry c =
     and_then (ReadByte c) (\<lambda>(flags, c1). and_then (ReadByte c1) (\<lambda>(cc1, c2). and_then (ReadByte c2) (\<lambda>(cc2, c3).
       Inr ((flags, cc1, cc2), c3))))"

text \<open>The loop over the entries; the number is that of the entries left, \<open>expected_count_\<close> less \<open>sample_index_\<close>.\<close>

fun entries_loop ::
  "'o track_sink \<Rightarrow> nat \<Rightarrow> rawcc_extractor \<times> 'o \<Rightarrow> (int option \<times> rawcc_extractor \<times> 'o) result option" where
  "entries_loop sink 0 s = Some (Inr (None, s))"
| "entries_loop sink (Suc n) s =
     (case s of (c, w) \<Rightarrow>
        if available c < kRawCCSampleSize then Some (Inr (Some RESULT_CONTINUE, c, w))
        else and_then_opt (Some (read_entry c)) (\<lambda>(e, c1).
          if \<not> rc_producing_to_queue c1 then entries_loop sink n (c1\<lparr>rc_sample_index := rc_sample_index c1 + 1\<rparr>, w)
          else and_then_opt (WriteFully sink (entry_bytes (rc_sample_offset c1) (rc_pts c1) e) w) (\<lambda>(ok, w1).
            if \<not> ok then Some (Inr (Some RESULT_IO_ERROR, c1, w1))
            else (let c2 = c1\<lparr>rc_sample_index := rc_sample_index c1 + 1, rc_total_written := rc_total_written c1 + 1\<rparr>
                  in and_then_opt
                       (Some (if rc_total_written c2 > kMaxEntriesPerSample then FlushSample sink (c2, w1) else Inr (c2, w1)))
                       (entries_loop sink n)))))"

definition parse_entries ::
  "'o track_sink \<Rightarrow> rawcc_extractor \<times> 'o \<Rightarrow> (int option \<times> rawcc_extractor \<times> 'o) result option" where
  "parse_entries sink s =
     and_then_opt (entries_loop sink (rc_expected_count (fst s) - rc_sample_index (fst s)) s) (\<lambda>(r, c, w).
       case r of
         Some _ \<Rightarrow> Some (Inr (r, c, w))
       | None \<Rightarrow> Some (Inr (None, c\<lparr>rc_expected_count := 0, rc_sample_index := 0, rc_state := PARSING_PTS_AND_COUNT\<rparr>, w)))"

text \<open>One round of the loop of \<open>Read\<close>.\<close>

definition parse_round ::
  "'o track_sink \<Rightarrow> rawcc_extractor \<times> 'o \<Rightarrow> (int option \<times> rawcc_extractor \<times> 'o) result option" where
  "parse_round sink s =
     (case s of (c, w) \<Rightarrow>
        and_then_opt (Some (if rc_state c = PARSING_HEADER then parse_header c else Inr (None, c))) (\<lambda>(r1, c1).
          case r1 of
            Some _ \<Rightarrow> Some (Inr (r1, c1, w))
          | None \<Rightarrow>
              and_then_opt (Some (if rc_state c1 = PARSING_PTS_AND_COUNT then parse_pts_and_count c1 else Inr (None, c1))) (\<lambda>(r2, c2).
                case r2 of Some _ \<Rightarrow> Some (Inr (r2, c2, w)) | None \<Rightarrow> parse_entries sink (c2, w))))"

partial_function (option) parse_loop ::
  "'o track_sink \<Rightarrow> rawcc_extractor \<times> 'o \<Rightarrow> (int \<times> rawcc_extractor \<times> 'o) result option" where
  "parse_loop sink s =
     (if rc_read_pos (fst s) < rc_write_pos (fst s)
      then Option.bind (parse_round sink s) (\<lambda>x.
        case x of
          Inl e \<Rightarrow> Some (Inl e)
        | Inr y \<Rightarrow> (case y of (r, s1) \<Rightarrow> (case r of Some v \<Rightarrow> Some (Inr (v, s1)) | None \<Rightarrow> parse_loop sink s1)))
      else Some (and_then (FlushSample sink s) (\<lambda>s1. Inr (RESULT_CONTINUE, s1))))"

text \<open>Data that was not consumed moves to the start of the buffer.\<close>

definition compact :: "rawcc_extractor \<Rightarrow> rawcc_extractor" where
  "compact c =
     (let n = available c
      in if n > 0 \<and> rc_read_pos c \<noteq> 0
         then c\<lparr>rc_buf := take n (drop (rc_read_pos c) (rc_buf c)) @ drop n (rc_buf c), rc_read_pos := 0, rc_write_pos := n\<rparr>
         else if n = 0 then c\<lparr>rc_read_pos := 0, rc_write_pos := 0\<rparr> else c)"

text \<open>\<open>result\<close> is what reading the input returned and \<open>piece\<close> the bytes it stored.\<close>

definition RawCC_Read ::
  "'o track_sink \<Rightarrow> int \<Rightarrow> byte list \<Rightarrow> rawcc_extractor \<times> 'o \<Rightarrow> (int \<times> rawcc_extractor \<times> 'o) result option" where
  "RawCC_Read sink result piece s =
     (case s of (c0, w) \<Rightarrow>
        (let c = compact c0
         in if result = 0 then Some (Inr (RESULT_CONTINUE, c, w))
            else if result = RESULT_END_OF_INPUT then Some (Inr (RESULT_END_OF_INPUT, RawCC_Reset c, w))
            else if result < 0 then Some (Inr (RESULT_IO_ERROR, c, w))
            else if rc_write_pos c + length piece > length (rc_buf c) \<or> int (length piece) \<noteq> result then Some (Inl Undefined_access)
            else parse_loop sink
                   (c\<lparr>rc_buf := take (rc_write_pos c) (rc_buf c) @ piece @ drop (rc_write_pos c + length piece) (rc_buf c),
                      rc_write_pos := rc_write_pos c + length piece\<rparr>, w)))"

definition RawCC_Seek :: "rawcc_extractor \<Rightarrow> rawcc_extractor" where
  "RawCC_Seek c = RawCC_Reset c"

end
