(* ===== verification/Rawcc_Properties.thy ===== *)
theory Rawcc_Properties
  imports Rawcc_Extractor
begin

text \<open>
  Correctness of the caption extractor: whatever the pieces in which a well-formed stream arrives, the samples in the
  track output hold the captions of the stream.
\<close>

section \<open>Streams\<close>

type_synonym rawcc_packet = "int \<times> (byte \<times> byte \<times> byte) list"

definition enc_entry :: "byte \<times> byte \<times> byte \<Rightarrow> byte list" where
  "enc_entry e = (case e of (flags, cc1, cc2) \<Rightarrow> [flags, cc1, cc2])"

definition enc_entries :: "(byte \<times> byte \<times> byte) list \<Rightarrow> byte list" where
  "enc_entries es = concat (map enc_entry es)"

definition enc_packet :: "rawcc_packet \<Rightarrow> byte list" where
  "enc_packet p = int_bytes (fst p) @ of_nat (length (snd p)) # enc_entries (snd p)"

definition enc_packets :: "rawcc_packet list \<Rightarrow> byte list" where
  "enc_packets ps = concat (map enc_packet ps)"

definition rawcc_stream :: "byte \<times> byte \<times> byte \<Rightarrow> rawcc_packet list \<Rightarrow> byte list" where
  "rawcc_stream fl ps = int_bytes kRawCCHeader @ 0 # enc_entry fl @ enc_packets ps"

definition packet_ok :: "rawcc_packet \<Rightarrow> bool" where
  "packet_ok p \<longleftrightarrow> 0 \<le> fst p \<and> fst p < 2 ^ 32 \<and> length (snd p) < 256"

text \<open>The captions of a packet, of which none are delivered outside the window.\<close>

definition entries_captions :: "int \<Rightarrow> bool \<Rightarrow> int \<Rightarrow> (byte \<times> byte \<times> byte) list \<Rightarrow> byte list" where
  "entries_captions off deliver pts es = (if deliver then concat (map (entry_bytes off pts) es) else [])"

definition captions :: "int \<Rightarrow> int option \<Rightarrow> int option \<Rightarrow> rawcc_packet list \<Rightarrow> byte list" where
  "captions off ts te ps = concat (map (\<lambda>p. entries_captions off (in_window ts te (fst p)) (fst p) (snd p)) ps)"

text \<open>
  Reading the bytes of a stream, as the load of a chunk does, until it is used up or something else than \<open>RESULT_CONTINUE\<close>
  is returned. Every \<open>Read\<close> asks its input for as much as fits behind the unread bytes of the buffer; the input
  answers with some of the remaining bytes, at most \<open>n\<close> for a number of its choice (zero included).
\<close>

fun rawcc_feed :: "'o track_sink \<Rightarrow> nat list \<Rightarrow> byte list \<Rightarrow> rawcc_extractor \<times> 'o \<Rightarrow> (int \<times> byte list \<times> rawcc_extractor \<times> 'o) result option" where
  "rawcc_feed sink [] bytes s = Some (Inr (RESULT_CONTINUE, bytes, s))"
| "rawcc_feed sink (n # ns) bytes s =
     (if bytes = [] then Some (Inr (RESULT_CONTINUE, [], s))
      else (let k = min n (min (kReadBufferSize - rc_write_pos (compact (fst s))) (length bytes))
            in and_then_opt (RawCC_Read sink (int k) (take k bytes) s) (\<lambda>(r, s1).
                 if r = RESULT_CONTINUE then rawcc_feed sink ns (drop k bytes) s1 else Some (Inr (r, drop k bytes, s1)))))"

lemma length_int_bytes [simp]: "length (int_bytes n) = 4"
  by (simp add: int_bytes_def)

lemma length_enc_entry [simp]: "length (enc_entry e) = 3"
  by (simp add: enc_entry_def split: prod.split)

lemma length_enc_entries [simp]: "length (enc_entries es) = 3 * length es"
  by (induction es) (simp_all add: enc_entries_def)

lemma length_enc_packet: "length (enc_packet p) = 5 + 3 * length (snd p)"
  by (simp add: enc_packet_def)

lemma length_entry_bytes [simp]: "length (entry_bytes off pts e) = 8"
  by (simp add: entry_bytes_def Let_def split: prod.split)

lemma length_entries_captions: "length (entries_captions off b pts es) = (if b then 8 * length es else 0)"
  by (induction es) (auto simp: entries_captions_def)

lemma entries_captions_append:
  "entries_captions off b pts (xs @ ys) = entries_captions off b pts xs @ entries_captions off b pts ys"
  by (simp add: entries_captions_def)

section \<open>The buffer\<close>

definition unread :: "rawcc_extractor \<Rightarrow> byte list" where
  "unread c = take (rc_write_pos c - rc_read_pos c) (drop (rc_read_pos c) (rc_buf c))"

definition pos_ok :: "rawcc_extractor \<Rightarrow> bool" where
  "pos_ok c \<longleftrightarrow> rc_read_pos c \<le> rc_write_pos c \<and> rc_write_pos c \<le> length (rc_buf c)"

definition consume :: "nat \<Rightarrow> rawcc_extractor \<Rightarrow> rawcc_extractor" where
  "consume k c = c\<lparr>rc_read_pos := rc_read_pos c + k\<rparr>"

lemma available_unread: "pos_ok c \<Longrightarrow> available c = length (unread c)"
  by (auto simp: available_def unread_def pos_ok_def)

lemma consume_ok:
  assumes "pos_ok c" "k \<le> length (unread c)"
  shows "pos_ok (consume k c)" "unread (consume k c) = drop k (unread c)"
  using assms by (auto simp: pos_ok_def consume_def unread_def drop_take add.commute)

lemma consume_consume [simp]: "consume j (consume k c) = consume (k + j) c"
  by (simp add: consume_def add.assoc)

lemma consume_0 [simp]: "consume 0 c = c"
  by (simp add: consume_def)

lemma pos_ok_frame [simp]:
  "pos_ok (c\<lparr>rc_sample_index := i\<rparr>) = pos_ok c" "pos_ok (c\<lparr>rc_total_written := i\<rparr>) = pos_ok c" "pos_ok (c\<lparr>rc_expected_count := i\<rparr>) = pos_ok c"
  "pos_ok (c\<lparr>rc_state := z\<rparr>) = pos_ok c" "pos_ok (c\<lparr>rc_pts := n\<rparr>) = pos_ok c" "pos_ok (c\<lparr>rc_sample_pts := n\<rparr>) = pos_ok c"
  "pos_ok (c\<lparr>rc_producing_to_queue := b\<rparr>) = pos_ok c" "pos_ok (c\<lparr>rc_version := v\<rparr>) = pos_ok c"
  by (simp_all add: pos_ok_def)

lemma unread_frame [simp]:
  "unread (c\<lparr>rc_sample_index := i\<rparr>) = unread c" "unread (c\<lparr>rc_total_written := i\<rparr>) = unread c" "unread (c\<lparr>rc_expected_count := i\<rparr>) = unread c"
  "unread (c\<lparr>rc_state := z\<rparr>) = unread c" "unread (c\<lparr>rc_pts := n\<rparr>) = unread c" "unread (c\<lparr>rc_sample_pts := n\<rparr>) = unread c"
  "unread (c\<lparr>rc_producing_to_queue := b\<rparr>) = unread c" "unread (c\<lparr>rc_version := v\<rparr>) = unread c"
  by (simp_all add: unread_def)

lemma ReadByte_ok:
  assumes "pos_ok c" "k < length (unread c)" "j = k + 1"
  shows "ReadByte (consume k c) = Inr (unread c ! k, consume j c)"
  using assms by (auto simp: ReadByte_def consume_def unread_def pos_ok_def)

lemma int_bytes_value:
  assumes "0 \<le> n" "n < 2 ^ 32"
  shows "n div 2 ^ 24 mod 256 * 2 ^ 24 + n div 2 ^ 16 mod 256 * 2 ^ 16 + n div 2 ^ 8 mod 256 * 2 ^ 8 + n mod 256 = (n::int)"
proof -
  let ?a = "n div 256" let ?b = "?a div 256" let ?c = "?b div 256"
  have div: "n div 2 ^ 8 = ?a" "n div 2 ^ 16 = ?b" "n div 2 ^ 24 = ?c" by (simp_all add: div_mult2_eq [symmetric])
  have "?c mod 256 = ?c" using assms by (simp add: div_mult2_eq [symmetric])
  moreover have "n = ?a * 256 + n mod 256" "?a = ?b * 256 + ?a mod 256" "?b = ?c * 256 + ?b mod 256" by simp_all
  moreover have "(2::int) ^ 24 = 16777216" "(2::int) ^ 16 = 65536" "(2::int) ^ 8 = 256" by simp_all
  ultimately show ?thesis unfolding div by (simp only:)
qed

lemma uint_byte: "uint (word_of_int n :: byte) = n mod 256"
  by (simp add: uint_word_of_int)

lemma ReadInt_ok:
  assumes "pos_ok c" "4 \<le> length (unread c)" "take 4 (unread c) = int_bytes n" "0 \<le> n" "n < 2 ^ 32"
  shows "ReadInt c = Inr (n, consume 4 c)"
proof -
  have bytes: "unread c ! 0 = word_of_int (n div 2 ^ 24)" "unread c ! 1 = word_of_int (n div 2 ^ 16)"
      "unread c ! 2 = word_of_int (n div 2 ^ 8)" "unread c ! 3 = word_of_int n"
    using arg_cong [OF assms(3), of "\<lambda>xs. xs ! 0"] arg_cong [OF assms(3), of "\<lambda>xs. xs ! 1"]
      arg_cong [OF assms(3), of "\<lambda>xs. xs ! 2"] arg_cong [OF assms(3), of "\<lambda>xs. xs ! 3"] by (simp_all add: int_bytes_def)
  have "ReadByte c = Inr (unread c ! 0, consume 1 c)" "ReadByte (consume 1 c) = Inr (unread c ! 1, consume 2 c)"
      "ReadByte (consume 2 c) = Inr (unread c ! 2, consume 3 c)" "ReadByte (consume 3 c) = Inr (unread c ! 3, consume 4 c)"
    using ReadByte_ok [OF assms(1), of 0 1] ReadByte_ok [OF assms(1), of 1 2] ReadByte_ok [OF assms(1), of 2 3]
      ReadByte_ok [OF assms(1), of 3 4] assms(2) by (simp_all del: length_greater_0_conv)
  then show ?thesis by (simp only: ReadInt_def and_then_simps prod.case bytes uint_byte int_bytes_value [OF assms(4,5)])
qed

lemma read_entry_ok:
  assumes "pos_ok c" "3 \<le> length (unread c)" "take 3 (unread c) = enc_entry e"
  shows "read_entry c = Inr (e, consume 3 c)"
proof -
  obtain f a b where e: "e = (f, a, b)" by (cases e)
  have bytes: "unread c ! 0 = f" "unread c ! 1 = a" "unread c ! 2 = b"
    using arg_cong [OF assms(3), of "\<lambda>xs. xs ! 0"] arg_cong [OF assms(3), of "\<lambda>xs. xs ! 1"]
      arg_cong [OF assms(3), of "\<lambda>xs. xs ! 2"] by (simp_all add: enc_entry_def e)
  moreover have "ReadByte c = Inr (unread c ! 0, consume 1 c)" "ReadByte (consume 1 c) = Inr (unread c ! 1, consume 2 c)"
      "ReadByte (consume 2 c) = Inr (unread c ! 2, consume 3 c)"
    using ReadByte_ok [OF assms(1), of 0 1] ReadByte_ok [OF assms(1), of 1 2] ReadByte_ok [OF assms(1), of 2 3] assms(2)
    by (simp_all del: length_greater_0_conv)
  ultimately show ?thesis by (simp only: read_entry_def and_then_simps prod.case bytes e)
qed

section \<open>Writing\<close>

definition sample_sized :: "byte list \<Rightarrow> bool" where
  "sample_sized bs \<longleftrightarrow> 0 < length bs \<and> length bs \<le> 8 * (kMaxEntriesPerSample + 1) \<and> 8 dvd length bs"

text \<open>
  From a view with the bytes \<open>p\<close> waiting to one with \<open>q\<close> waiting, by writing \<open>bs\<close>: nothing is lost, and the
  new samples have a proper size.
\<close>

definition emitted :: "('s \<times> byte list) list \<Rightarrow> byte list \<Rightarrow> ('s \<times> byte list) list \<Rightarrow> byte list \<Rightarrow> byte list \<Rightarrow> bool" where
  "emitted v p v' q bs \<longleftrightarrow> (\<exists>S. v' = v @ S \<and> concat (map snd S) @ q = p @ bs \<and> (\<forall>x \<in> set S. sample_sized (snd x)))"

lemma emitted_refl: "emitted v p v (p @ bs) bs"
  by (simp add: emitted_def)

lemma emitted_trans:
  assumes "emitted v p v1 q bs" "emitted v1 q v2 r cs"
  shows "emitted v p v2 r (bs @ cs)"
proof -
  obtain S T where "v1 = v @ S" "concat (map snd S) @ q = p @ bs" "\<forall>x \<in> set S. sample_sized (snd x)"
    and "v2 = v1 @ T" "concat (map snd T) @ r = q @ cs" "\<forall>x \<in> set T. sample_sized (snd x)"
    using assms unfolding emitted_def by blast
  moreover from this have "concat (map snd (S @ T)) @ r = p @ bs @ cs" by (metis append.assoc concat_append map_append)
  ultimately show ?thesis unfolding emitted_def by (intro exI [of _ "S @ T"]) auto
qed

text \<open>The bytes that wait are the entries that were counted.\<close>

definition counted :: "rawcc_extractor \<Rightarrow> byte list \<Rightarrow> bool" where
  "counted c p \<longleftrightarrow> length p = 8 * rc_total_written c \<and> rc_total_written c \<le> kMaxEntriesPerSample"

context sample_sink
begin

lemma WriteFully_ok:
  "ok w \<Longrightarrow> held w p \<Longrightarrow> int (length src) \<le> room w \<Longrightarrow>
   \<exists>w'. WriteFully sink src w = Some (Inr (True, w')) \<and> ok w' \<and> room w' = room w - int (length src) \<and> held w' (p @ src) \<and> view w' = view w"
  by (rule write_loop_ok) (simp_all add: WriteFully.simps)

lemma FlushSample_ok:
  assumes "ok w" "held w p" "length p = 8 * rc_total_written c" "rc_total_written c \<le> kMaxEntriesPerSample + 1"
  shows "\<exists>w' q. FlushSample sink (c, w) = Inr (c\<lparr>rc_total_written := if rc_producing_to_queue c then 0 else rc_total_written c\<rparr>, w') \<and>
    ok w' \<and> held w' q \<and> room w' = room w \<and> emitted (view w) p (view w') q [] \<and>
    (if rc_producing_to_queue c then q = [] else q = p)"
proof (cases "rc_total_written c > 0 \<and> rc_producing_to_queue c")
  case True
  obtain w' x where w': "ts_metadata sink (rc_sample_pts c) (pts_to_us (rc_pts c) - rc_sample_pts c) kSampleFlagSync (int (length p)) 0 None w = Inr w'"
      "ok w'" "room w' = room w" "view w' = view w @ [(x, p)]"
    using metadata_ok [OF assms(1,2)] by blast
  have "sample_sized p" using assms(3,4) True by (simp add: sample_sized_def)
  then have "emitted (view w) p (view w') [] []" using w'(4) by (auto simp: emitted_def)
  then show ?thesis using True w' assms(3) held_Nil [OF w'(2)]
    by (auto simp: FlushSample_def kSampleEntrySize_def mult.commute)
next
  case False
  have "c = c\<lparr>rc_total_written := if rc_producing_to_queue c then 0 else rc_total_written c\<rparr>" using False by (cases c) auto
  moreover have "rc_producing_to_queue c \<Longrightarrow> p = []" using False assms(3) by simp
  ultimately show ?thesis using False assms emitted_refl [of "view w" p "[]"] by (auto simp: FlushSample_def)
qed

lemma entry_step:
  assumes "ok w" "held w p" "counted c p" "rc_producing_to_queue c \<Longrightarrow> 8 \<le> room w"
    and "read_entry c = Inr (e, consume 3 c)" "\<not> available c < kRawCCSampleSize"
  shows "\<exists>c1 w1 q n1. c1 = (consume 3 c)\<lparr>rc_sample_index := rc_sample_index c + 1, rc_total_written := n1\<rparr> \<and>
    ok w1 \<and> held w1 q \<and> counted c1 q \<and> entries_loop sink (Suc m) (c, w) = entries_loop sink m (c1, w1) \<and>
    (let bs = entries_captions (rc_sample_offset c) (rc_producing_to_queue c) (rc_pts c) [e]
     in room w1 = room w - int (length bs) \<and> emitted (view w) p (view w1) q bs)"
proof (cases "rc_producing_to_queue c")
  case False
  let ?c = "(consume 3 c)\<lparr>rc_sample_index := rc_sample_index c + 1, rc_total_written := rc_total_written c\<rparr>"
  have "entries_loop sink (Suc m) (c, w) = entries_loop sink m (?c, w)"
    using False assms(5,6) by (simp add: consume_def)
  moreover have "counted ?c p" using assms(3) by (simp add: counted_def)
  ultimately show ?thesis using False assms(1,2) emitted_refl [of "view w" p "[]"]
    by (intro exI [of _ ?c] exI [of _ w] exI [of _ p] exI [of _ "rc_total_written c"]) (simp add: entries_captions_def)
next
  case True
  let ?bs = "entry_bytes (rc_sample_offset c) (rc_pts c) e"
  let ?c = "(consume 3 c)\<lparr>rc_sample_index := rc_sample_index c + 1, rc_total_written := rc_total_written c + 1\<rparr>"
  obtain w0 where w0: "WriteFully sink ?bs w = Some (Inr (True, w0))" "ok w0" "room w0 = room w - 8" "held w0 (p @ ?bs)" "view w0 = view w"
    using WriteFully_ok [OF assms(1,2), of ?bs] assms(4) True by auto
  have len: "length (p @ ?bs) = 8 * rc_total_written ?c" "rc_total_written ?c \<le> kMaxEntriesPerSample + 1"
    using assms(3) by (simp_all add: counted_def)
  have caps: "entries_captions (rc_sample_offset c) (rc_producing_to_queue c) (rc_pts c) [e] = ?bs"
    using True by (simp add: entries_captions_def)
  have step: "entries_loop sink (Suc m) (c, w) =
      and_then_opt (Some (if rc_total_written ?c > kMaxEntriesPerSample then FlushSample sink (?c, w0) else Inr (?c, w0))) (entries_loop sink m)"
    using True assms(5,6) w0(1) by (simp add: consume_def)
  show ?thesis
  proof (cases "rc_total_written ?c > kMaxEntriesPerSample")
    case True
    obtain w1 where w1: "FlushSample sink (?c, w0) = Inr (?c\<lparr>rc_total_written := 0\<rparr>, w1)" "ok w1" "room w1 = room w0"
        "emitted (view w0) (p @ ?bs) (view w1) [] []"
      using FlushSample_ok [OF w0(2,4) len] \<open>rc_producing_to_queue c\<close> by (auto simp: consume_def)
    have "emitted (view w) p (view w1) [] ?bs" using emitted_trans [OF emitted_refl w1(4)] w0(5) by simp
    moreover have "counted (?c\<lparr>rc_total_written := 0\<rparr>) []" by (simp add: counted_def)
    ultimately show ?thesis using True step w1(1-3) w0(3) held_Nil [OF w1(2)]
      by (intro exI [of _ "?c\<lparr>rc_total_written := 0\<rparr>"] exI [of _ w1] exI [of _ "[]"] exI [of _ 0]) (simp add: caps)
  next
    case False
    have "counted ?c (p @ ?bs)" using False len(1) by (simp add: counted_def)
    then show ?thesis using False step w0 emitted_refl [of "view w" p ?bs]
      by (intro exI [of _ ?c] exI [of _ w0] exI [of _ "p @ ?bs"] exI [of _ "rc_total_written c + 1"]) (simp add: caps)
  qed
qed

text \<open>
  The entries of a packet: as many as are there whole are read, and their captions are written.
\<close>

lemma entries_loop_ok:
  assumes "pos_ok c" "ok w" "held w p" "counted c p" "unread c @ later = enc_entries es @ rest"
    and "int (length (entries_captions (rc_sample_offset c) (rc_producing_to_queue c) (rc_pts c) es)) \<le> room w"
  shows "\<exists>r w' q k n. entries_loop sink (length es) (c, w) =
      Some (Inr (r, (consume (3 * k) c)\<lparr>rc_sample_index := rc_sample_index c + k, rc_total_written := n\<rparr>, w')) \<and> k \<le> length es \<and>
    3 * k \<le> length (unread c) \<and> ok w' \<and> held w' q \<and> length q = 8 * n \<and> n \<le> kMaxEntriesPerSample \<and>
    (let bs = entries_captions (rc_sample_offset c) (rc_producing_to_queue c) (rc_pts c) (take k es)
     in room w' = room w - int (length bs) \<and> emitted (view w) p (view w') q bs) \<and>
    (if k = length es then r = None else r = Some RESULT_CONTINUE \<and> length (unread c) < 3 * k + 3)"
  using assms
proof (induction es arbitrary: c w p)
  case Nil
  have "c = (consume 0 c)\<lparr>rc_sample_index := rc_sample_index c + 0, rc_total_written := rc_total_written c\<rparr>" by (simp add: consume_def)
  then show ?case using Nil.prems emitted_refl [of "view w" p "[]"]
    by (intro exI [of _ None] exI [of _ w] exI [of _ p] exI [of _ 0] exI [of _ "rc_total_written c"])
      (simp add: counted_def entries_captions_def)
next
  case (Cons e es)
  let ?b = "rc_producing_to_queue c" and ?off = "rc_sample_offset c" and ?pts = "rc_pts c"
  show ?case
  proof (cases "length (unread c) < 3")
    case True
    have "c = (consume 0 c)\<lparr>rc_sample_index := rc_sample_index c + 0, rc_total_written := rc_total_written c\<rparr>" by (simp add: consume_def)
    then show ?thesis using Cons.prems True emitted_refl [of "view w" p "[]"] available_unread [of c]
      by (intro exI [of _ "Some RESULT_CONTINUE"] exI [of _ w] exI [of _ p] exI [of _ 0] exI [of _ "rc_total_written c"])
        (simp add: counted_def entries_captions_def kRawCCSampleSize_def)
  next
    case False
    have u: "take 3 (unread c) = enc_entry e" "drop 3 (unread c) @ later = enc_entries es @ rest"
      using arg_cong [OF Cons.prems(5), of "take 3"] arg_cong [OF Cons.prems(5), of "drop 3"] False
      by (simp_all add: enc_entries_def)
    have rd: "read_entry c = Inr (e, consume 3 c)" using read_entry_ok [OF Cons.prems(1) _ u(1)] False by simp
    obtain c1 w1 q n1 where c1: "c1 = (consume 3 c)\<lparr>rc_sample_index := rc_sample_index c + 1, rc_total_written := n1\<rparr>"
      and ok1: "ok w1" "held w1 q" "counted c1 q"
      and step: "entries_loop sink (length (e # es)) (c, w) = entries_loop sink (length es) (c1, w1)"
      and em: "room w1 = room w - int (length (entries_captions ?off ?b ?pts [e]))" "emitted (view w) p (view w1) q (entries_captions ?off ?b ?pts [e])"
    proof -
      have "rc_producing_to_queue c \<Longrightarrow> 8 \<le> room w" using Cons.prems(6) by (simp add: length_entries_captions)
      moreover have "\<not> available c < kRawCCSampleSize" using False available_unread [OF Cons.prems(1)] by (simp add: kRawCCSampleSize_def)
      ultimately show thesis using entry_step [OF Cons.prems(2-4) _ rd, of "length es"] that unfolding Let_def by (metis length_Cons)
    qed
    have c1_ok: "pos_ok c1" "unread c1 = drop 3 (unread c)"
      using consume_ok [OF Cons.prems(1), of 3] False unfolding c1 by simp_all
    have fields: "rc_producing_to_queue c1 = ?b" "rc_sample_offset c1 = ?off" "rc_pts c1 = ?pts" "rc_sample_index c1 = rc_sample_index c + 1"
      by (simp_all add: c1 consume_def)
    have rest: "unread c1 @ later = enc_entries es @ rest" using u(2) by (simp add: c1_ok)
    have space: "int (length (entries_captions (rc_sample_offset c1) (rc_producing_to_queue c1) (rc_pts c1) es)) \<le> room w1"
      using Cons.prems(6) em(1) by (simp add: fields length_entries_captions split: if_splits)
    obtain r w' q' k n where IH: "entries_loop sink (length es) (c1, w1) =
        Some (Inr (r, (consume (3 * k) c1)\<lparr>rc_sample_index := rc_sample_index c + 1 + k, rc_total_written := n\<rparr>, w'))" "k \<le> length es"
      "3 * k \<le> length (drop 3 (unread c))" "ok w'" "held w' q'" "length q' = 8 * n" "n \<le> kMaxEntriesPerSample"
      "room w' = room w1 - int (length (entries_captions ?off ?b ?pts (take k es)))"
      "emitted (view w1) q (view w') q' (entries_captions ?off ?b ?pts (take k es))"
      "if k = length es then r = None else r = Some RESULT_CONTINUE \<and> length (drop 3 (unread c)) < 3 * k + 3"
      using Cons.IH [OF c1_ok(1) ok1 rest space] unfolding Let_def fields c1_ok(2) by (elim exE conjE) (rule that)
    have same: "(consume (3 * k) c1)\<lparr>rc_sample_index := rc_sample_index c + 1 + k, rc_total_written := n\<rparr> =
        (consume (3 * Suc k) c)\<lparr>rc_sample_index := rc_sample_index c + Suc k, rc_total_written := n\<rparr>"
      by (simp add: c1 consume_def)
    have caps: "entries_captions ?off ?b ?pts (take (Suc k) (e # es)) =
        entries_captions ?off ?b ?pts [e] @ entries_captions ?off ?b ?pts (take k es)"
      by (simp flip: entries_captions_append)
    note written = emitted_trans [OF em(2) IH(9), folded caps]
    have "room w' = room w - int (length (entries_captions ?off ?b ?pts (take (Suc k) (e # es))))"
      using IH(8) em(1) unfolding caps by simp
    then show ?thesis using IH(1-7,10) written False unfolding step same Let_def
      by (intro exI [of _ r] exI [of _ w'] exI [of _ q'] exI [of _ "Suc k"] exI [of _ n] conjI) (auto simp del: take_Suc_Cons)
  qed
qed

end

section \<open>Rounds of the parser\<close>

text \<open>
  What the extractor still has to read, \<open>bs\<close>, is the rest of a stream: the entries \<open>es\<close> of the packet in progress and
  the packets \<open>ps\<close> after it.
\<close>

definition parses ::
  "int \<Rightarrow> int option \<Rightarrow> int option \<Rightarrow> byte \<times> byte \<times> byte \<Rightarrow> rawcc_extractor \<Rightarrow> (byte \<times> byte \<times> byte) list \<Rightarrow> rawcc_packet list \<Rightarrow> byte list \<Rightarrow> bool" where
  "parses off ts te fl c es ps bs \<longleftrightarrow>
     rc_sample_offset c = off \<and> rc_trunc_start_pts c = ts \<and> rc_trunc_end_pts c = te \<and> list_all packet_ok ps \<and>
     (case rc_state c of
        PARSING_HEADER \<Rightarrow> es = [] \<and> rc_total_written c = 0 \<and> bs = rawcc_stream fl ps
      | PARSING_PTS_AND_COUNT \<Rightarrow> es = [] \<and> bs = enc_packets ps
      | PARSING_ENTRIES \<Rightarrow> rc_expected_count c = rc_sample_index c + length es \<and> bs = enc_entries es @ enc_packets ps)"

definition reading ::
  "int \<Rightarrow> int option \<Rightarrow> int option \<Rightarrow> byte \<times> byte \<times> byte \<Rightarrow> byte list \<Rightarrow> rawcc_extractor \<Rightarrow> byte list \<Rightarrow> (byte \<times> byte \<times> byte) list \<Rightarrow>
   rawcc_packet list \<Rightarrow> bool" where
  "reading off ts te fl later c p es ps \<longleftrightarrow>
     pos_ok c \<and> length (rc_buf c) = kReadBufferSize \<and> counted c p \<and> parses off ts te fl c es ps (unread c @ later)"

text \<open>The captions that are still to be written, and whether the last packet lies in the window.\<close>

definition future :: "rawcc_extractor \<Rightarrow> (byte \<times> byte \<times> byte) list \<Rightarrow> rawcc_packet list \<Rightarrow> byte list" where
  "future c es ps = entries_captions (rc_sample_offset c) (rc_producing_to_queue c) (rc_pts c) es @
     captions (rc_sample_offset c) (rc_trunc_start_pts c) (rc_trunc_end_pts c) ps"

definition ends_inside :: "rawcc_extractor \<Rightarrow> rawcc_packet list \<Rightarrow> bool" where
  "ends_inside c ps = (if ps = [] then rc_producing_to_queue c else in_window (rc_trunc_start_pts c) (rc_trunc_end_pts c) (fst (last ps)))"

lemma enc_packets_Cons: "enc_packets ((pts, es) # ps) = int_bytes pts @ of_nat (length es) # enc_entries es @ enc_packets ps"
  by (simp add: enc_packets_def enc_packet_def)

lemma captions_Cons: "captions off ts te ((pts, es) # ps) = entries_captions off (in_window ts te pts) pts es @ captions off ts te ps"
  by (simp add: captions_def)

lemma entries_captions_Nil [simp]: "entries_captions off b pts [] = []"
  by (simp add: entries_captions_def)

lemma header_stage:
  assumes "reading off ts te fl later c p es ps" "rc_state c = PARSING_HEADER" "\<not> length (unread c) < 8"
  shows "\<exists>c1. parse_header c = Inr (None, c1) \<and> rc_state c1 = PARSING_PTS_AND_COUNT \<and> reading off ts te fl later c1 p [] ps \<and>
    length (unread c1) < length (unread c) \<and> p = [] \<and> future c1 [] ps = future c es ps \<and> ends_inside c1 ps = ends_inside c ps"
proof -
  have c: "pos_ok c" "es = []" "rc_total_written c = 0" "unread c @ later = rawcc_stream fl ps" "p = []"
    using assms(1,2) by (auto simp: reading_def parses_def counted_def)
  have u: "take 4 (unread c) = int_bytes kRawCCHeader" "unread c ! 4 = 0" "drop 8 (unread c) @ later = enc_packets ps"
    using arg_cong [OF c(4), of "take 4"] arg_cong [OF c(4), of "\<lambda>xs. xs ! 4"] arg_cong [OF c(4), of "drop 8"] assms(3)
    by (simp_all add: rawcc_stream_def nth_append)
  have hdr: "ReadInt c = Inr (kRawCCHeader, consume 4 c)"
    by (rule ReadInt_ok [OF c(1) _ u(1)]) (use assms(3) in \<open>auto simp: kRawCCHeader_def\<close>)
  have version: "ReadByte (consume 4 c) = Inr (0, consume 5 c)" using ReadByte_ok [OF c(1), of 4 5] assms(3) u(2) by simp
  let ?c = "(consume 8 c)\<lparr>rc_version := 0, rc_state := PARSING_PTS_AND_COUNT\<rparr>"
  have "parse_header c = Inr (None, ?c)"
    using assms(3) available_unread [OF c(1)] hdr version
    by (simp add: parse_header_def kRawCCHeaderSize_def kRawCCFlagsSize_def consume_def)
  moreover have "pos_ok ?c" "unread ?c = drop 8 (unread c)" using consume_ok [OF c(1), of 8] assms(3) by simp_all
  ultimately show ?thesis using assms c u(3)
    by (intro exI [of _ ?c]) (auto simp: reading_def parses_def counted_def future_def ends_inside_def consume_def)
qed

lemma pts_stage:
  assumes "reading off ts te fl later c p es ps" "rc_state c = PARSING_PTS_AND_COUNT" "\<not> length (unread c) < 5"
  shows "\<exists>c1 es1 ps1. parse_pts_and_count c = Inr (None, c1) \<and> rc_state c1 = PARSING_ENTRIES \<and> reading off ts te fl later c1 p es1 ps1 \<and>
    length (unread c1) < length (unread c) \<and> future c1 es1 ps1 = future c es ps \<and> ends_inside c1 ps1 = ends_inside c ps"
proof -
  have c: "pos_ok c" "es = []" "unread c @ later = enc_packets ps" "list_all packet_ok ps"
    using assms(1,2) by (auto simp: reading_def parses_def)
  have "ps \<noteq> []" using c(3) assms(3) by (auto simp: enc_packets_def)
  then obtain pts es1 ps1 where ps: "ps = (pts, es1) # ps1" by (cases ps) auto
  have ok: "0 \<le> pts" "pts < 2 ^ 32" "length es1 < 256" "list_all packet_ok ps1" using c(4) by (simp_all add: ps packet_ok_def)
  note eq = c(3) [unfolded ps enc_packets_Cons]
  have u: "take 4 (unread c) = int_bytes pts" "unread c ! 4 = of_nat (length es1)" "drop 5 (unread c) @ later = enc_entries es1 @ enc_packets ps1"
    using arg_cong [OF eq, of "take 4"] arg_cong [OF eq, of "\<lambda>xs. xs ! 4"] arg_cong [OF eq, of "drop 5"] assms(3)
    by (simp_all add: nth_append)
  have "ReadInt c = Inr (pts, consume 4 c)" by (rule ReadInt_ok [OF c(1) _ u(1) ok(1,2)]) (use assms(3) in simp)
  moreover have "ReadByte (consume 4 c) = Inr (of_nat (length es1), consume 5 c)" using ReadByte_ok [OF c(1), of 4 5] assms(3) u(2) by simp
  then have "rc_read_pos c + 4 < length (rc_buf c)" "rc_buf c ! (rc_read_pos c + 4) = of_nat (length es1)"
    by (auto simp: ReadByte_def consume_def split: if_splits)
  moreover have count: "unat (of_nat (length es1) :: byte) = length es1" using ok(3) by (simp add: unat_of_nat)
  let ?c = "(consume 5 c)\<lparr>rc_pts := pts, rc_producing_to_queue := in_window ts te pts,
      rc_sample_pts := (if rc_total_written c = 0 then pts_to_us pts else rc_sample_pts c),
      rc_expected_count := length es1, rc_sample_index := 0, rc_state := PARSING_ENTRIES\<rparr>"
  have window: "rc_sample_offset c = off" "rc_trunc_start_pts c = ts" "rc_trunc_end_pts c = te" using assms(1) by (simp_all add: reading_def parses_def)
  ultimately have "parse_pts_and_count c = Inr (None, ?c)"
    using assms(3) available_unread [OF c(1)]
    by (simp add: parse_pts_and_count_def kRawCCPtsAndCountSizeV0_def consume_def ReadByte_def count)
  moreover have "pos_ok ?c" "unread ?c = drop 5 (unread c)" using consume_ok [OF c(1), of 5] assms(3) by simp_all
  moreover have "length (unread ?c) < length (unread c)" using calculation(3) assms(3) by simp
  ultimately show ?thesis using assms(1) c(2) u(3) ok(4) window
    by (intro exI [of _ ?c] exI [of _ es1] exI [of _ ps1])
      (auto simp: reading_def parses_def counted_def future_def ends_inside_def consume_def ps captions_Cons)
qed

context sample_sink
begin

lemma entries_stage:
  assumes "ok w" "held w p" "reading off ts te fl later c p es ps" "rc_state c = PARSING_ENTRIES"
    and "int (length (future c es ps)) \<le> room w"
  shows "\<exists>r c' w' q es' bs. parse_entries sink (c, w) = Some (Inr (r, c', w')) \<and> ok w' \<and> held w' q \<and> reading off ts te fl later c' q es' ps \<and>
    room w' = room w - int (length bs) \<and> emitted (view w) p (view w') q bs \<and> future c es ps = bs @ future c' es' ps \<and>
    ends_inside c' ps = ends_inside c ps \<and> length (unread c') + 3 * length es = length (unread c) + 3 * length es' \<and>
    (if es' = [] then r = None \<and> rc_state c' = PARSING_PTS_AND_COUNT
     else r = Some RESULT_CONTINUE \<and> rc_state c' = PARSING_ENTRIES \<and> length (unread c') < 3)"
proof -
  let ?caps = "entries_captions (rc_sample_offset c) (rc_producing_to_queue c) (rc_pts c)"
  have c: "pos_ok c" "counted c p" "unread c @ later = enc_entries es @ enc_packets ps" "rc_expected_count c = rc_sample_index c + length es"
      "list_all packet_ok ps" "length (rc_buf c) = kReadBufferSize"
    using assms(3,4) by (auto simp: reading_def parses_def)
  have space: "int (length (?caps es)) \<le> room w" using assms(5) by (simp add: future_def)
  obtain r w' q k n where e: "entries_loop sink (length es) (c, w) =
      Some (Inr (r, (consume (3 * k) c)\<lparr>rc_sample_index := rc_sample_index c + k, rc_total_written := n\<rparr>, w'))" "k \<le> length es"
    "3 * k \<le> length (unread c)" "ok w'" "held w' q" "length q = 8 * n" "n \<le> kMaxEntriesPerSample"
    "room w' = room w - int (length (?caps (take k es)))" "emitted (view w) p (view w') q (?caps (take k es))"
    "if k = length es then r = None else r = Some RESULT_CONTINUE \<and> length (unread c) < 3 * k + 3"
    using entries_loop_ok [OF c(1) assms(1,2) c(2,3) space] unfolding Let_def by (elim exE conjE) (rule that)
  let ?c = "(consume (3 * k) c)\<lparr>rc_sample_index := rc_sample_index c + k, rc_total_written := n\<rparr>"
  have pos: "pos_ok ?c" "unread ?c = drop (3 * k) (unread c)" using consume_ok [OF c(1) e(3)] by simp_all
  have "enc_entries es = enc_entries (take k es) @ enc_entries (drop k es)"
    unfolding enc_entries_def by (simp flip: concat_append map_append)
  moreover have "length (enc_entries (take k es)) = 3 * k" using e(2) by simp
  ultimately have rest: "drop (3 * k) (unread c) @ later = enc_entries (drop k es) @ enc_packets ps"
    using arg_cong [OF c(3), of "drop (3 * k)"] e(3) by simp
  have caps: "?caps es = ?caps (take k es) @ ?caps (drop k es)" by (simp flip: entries_captions_append)
  have run: "parse_entries sink (c, w) =
      Some (Inr (r, (if r = None then ?c\<lparr>rc_expected_count := 0, rc_sample_index := 0, rc_state := PARSING_PTS_AND_COUNT\<rparr> else ?c), w'))"
    using e(1) c(4) by (auto simp: parse_entries_def split: option.split)
  show ?thesis
  proof (cases "k = length es")
    case True
    let ?d = "?c\<lparr>rc_expected_count := 0, rc_sample_index := 0, rc_state := PARSING_PTS_AND_COUNT\<rparr>"
    have "reading off ts te fl later ?d q [] ps"
      using pos rest e(6,7) assms(3) True c(6) by (auto simp: reading_def parses_def counted_def consume_def enc_entries_def)
    moreover have "future c es ps = ?caps (take k es) @ future ?d [] ps" using True by (simp add: future_def consume_def)
    ultimately show ?thesis using run e(3-5,8-10) True pos(2)
      by - (rule exI [of _ r], rule exI [of _ ?d], rule exI [of _ w'], rule exI [of _ q],
          rule exI [of _ "[]"], rule exI [of _ "?caps (take k es)"], auto simp: ends_inside_def consume_def diff_mult_distrib2)
  next
    case False
    have "reading off ts te fl later ?c q (drop k es) ps"
      using pos rest e(2,6,7) assms(3,4) c(4,6) by (auto simp: reading_def parses_def counted_def consume_def)
    moreover have "future c es ps = ?caps (take k es) @ future ?c (drop k es) ps" using caps by (simp add: future_def consume_def)
    ultimately show ?thesis using run e(2-5,8-10) False pos(2) assms(4)
      by - (rule exI [of _ r], rule exI [of _ ?c], rule exI [of _ w'], rule exI [of _ q],
          rule exI [of _ "drop k es"], rule exI [of _ "?caps (take k es)"], auto simp: ends_inside_def consume_def diff_mult_distrib2)
  qed
qed

text \<open>
  One round: it reads what is there whole, or asks for more when less than a header is left. At the end of the stream
  only the empty rest is left.
\<close>

lemma parse_round_ok:
  assumes "ok w" "held w p" "reading off ts te fl later c p es ps" "int (length (future c es ps)) \<le> room w" "unread c \<noteq> []"
    and "rc_state c = PARSING_ENTRIES \<longrightarrow> es \<noteq> []"
  shows "\<exists>r c' w' q es' ps' bs. parse_round sink (c, w) = Some (Inr (r, c', w')) \<and> ok w' \<and> held w' q \<and>
    reading off ts te fl later c' q es' ps' \<and> room w' = room w - int (length bs) \<and> emitted (view w) p (view w') q bs \<and>
    future c es ps = bs @ future c' es' ps' \<and> ends_inside c' ps' = ends_inside c ps \<and> (rc_state c' = PARSING_ENTRIES \<longrightarrow> es' \<noteq> []) \<and>
    (if r = None then length (unread c') < length (unread c)
     else r = Some RESULT_CONTINUE \<and> length (unread c') < 8 \<and> (later = [] \<longrightarrow> es' = [] \<and> ps' = [] \<and> q = []))"
proof -
  have stop: ?thesis
    if "parse_round sink (c, w) = Some (Inr (Some RESULT_CONTINUE, c1, w))" "reading off ts te fl later c1 p es1 ps1" "future c es ps = future c1 es1 ps1"
      "ends_inside c1 ps1 = ends_inside c ps" "rc_state c1 \<noteq> PARSING_ENTRIES" "length (unread c1) < 8"
      "later = [] \<Longrightarrow> es1 = [] \<and> ps1 = [] \<and> p = []" for c1 es1 ps1
    using that assms(1,2) emitted_refl [of "view w" p "[]"]
    by - (rule exI [of _ "Some RESULT_CONTINUE"], rule exI [of _ c1], rule exI [of _ w], rule exI [of _ p],
          rule exI [of _ es1], rule exI [of _ ps1], rule exI [of _ "[]"], auto)
  have entries: ?thesis
    if at: "parse_round sink (c, w) = parse_entries sink (c1, w)" "reading off ts te fl later c1 p es1 ps1" "future c1 es1 ps1 = future c es ps"
      "ends_inside c1 ps1 = ends_inside c ps" "rc_state c1 = PARSING_ENTRIES" "length (unread c1) < length (unread c) \<or> es1 \<noteq> [] \<and> c1 = c"
    for c1 es1 ps1
  proof -
    have space: "int (length (future c1 es1 ps1)) \<le> room w" using assms(4) at(3) by simp
    obtain r c' w' q es' bs where e: "parse_entries sink (c1, w) = Some (Inr (r, c', w'))" "ok w'" "held w' q" "reading off ts te fl later c' q es' ps1"
      "room w' = room w - int (length bs)" "emitted (view w) p (view w') q bs" "future c1 es1 ps1 = bs @ future c' es' ps1"
      "ends_inside c' ps1 = ends_inside c1 ps1" "length (unread c') + 3 * length es1 = length (unread c1) + 3 * length es'"
      "if es' = [] then r = None \<and> rc_state c' = PARSING_PTS_AND_COUNT
       else r = Some RESULT_CONTINUE \<and> rc_state c' = PARSING_ENTRIES \<and> length (unread c') < 3"
      using entries_stage [OF assms(1,2) at(2,5) space] by (elim exE conjE) (rule that)
    have "length (unread c') < length (unread c)" if "es' = []" using that at(6) e(9) by (cases es1) auto
    moreover have "later \<noteq> []" if rest: "es' \<noteq> []"
    proof -
      have "unread c' @ later = enc_entries es' @ enc_packets ps1" "length (unread c') < 3"
        using e(4,10) rest by (simp_all add: reading_def parses_def)
      then have "3 * length es' \<le> length (unread c') + length later" by (metis le_add1 length_append length_enc_entries)
      then show ?thesis using rest \<open>length (unread c') < 3\<close> by (cases es') auto
    qed
    ultimately show ?thesis using e at(1,3,4)
      by - (rule exI [of _ r], rule exI [of _ c'], rule exI [of _ w'], rule exI [of _ q],
          rule exI [of _ es'], rule exI [of _ ps1], rule exI [of _ bs], auto split: if_splits)
  qed
  have pts: ?thesis
    if at: "parse_round sink (c, w) = and_then_opt (Some (parse_pts_and_count c1)) (\<lambda>(r2, c2).
          case r2 of Some _ \<Rightarrow> Some (Inr (r2, c2, w)) | None \<Rightarrow> parse_entries sink (c2, w))"
      "reading off ts te fl later c1 p [] ps" "future c1 [] ps = future c es ps" "ends_inside c1 ps = ends_inside c ps"
      "rc_state c1 = PARSING_PTS_AND_COUNT" "unread c1 = [] \<Longrightarrow> p = []" "length (unread c1) \<le> length (unread c)" for c1
  proof (cases "length (unread c1) < 5")
    case True
    have pos: "pos_ok c1" using at(2) by (simp add: reading_def)
    have "parse_pts_and_count c1 = Inr (Some RESULT_CONTINUE, c1)"
      using True available_unread [OF pos] by (simp add: parse_pts_and_count_def kRawCCPtsAndCountSizeV0_def)
    moreover have "ps = [] \<and> unread c1 = []" if "later = []"
    proof -
      have "unread c1 = enc_packets ps" using at(2,5) that by (simp add: reading_def parses_def)
      then show ?thesis using True by (cases ps) (auto simp: enc_packets_def enc_packet_def)
    qed
    ultimately show ?thesis using at True by (intro stop [of c1 "[]" ps]) auto
  next
    case False
    obtain c2 es1 ps1 where "parse_pts_and_count c1 = Inr (None, c2)" "rc_state c2 = PARSING_ENTRIES" "reading off ts te fl later c2 p es1 ps1"
        "length (unread c2) < length (unread c1)" "future c2 es1 ps1 = future c1 [] ps" "ends_inside c2 ps1 = ends_inside c1 ps"
      using pts_stage [OF at(2,5) False] by blast
    then show ?thesis using at by (intro entries [of c2 es1 ps1]) auto
  qed
  show ?thesis
  proof (cases "rc_state c")
    case PARSING_HEADER
    show ?thesis
    proof (cases "length (unread c) < 8")
      case True
      have pos: "pos_ok c" using assms(3) by (simp add: reading_def)
      have "parse_round sink (c, w) = Some (Inr (Some RESULT_CONTINUE, c, w))"
        using True PARSING_HEADER available_unread [OF pos] by (simp add: parse_round_def parse_header_def kRawCCHeaderSize_def)
      moreover have "unread c @ later = rawcc_stream fl ps" using assms(3) PARSING_HEADER by (simp add: reading_def parses_def)
      then have "8 \<le> length (unread c) + length later" unfolding length_append [symmetric] by (simp only:) (simp add: rawcc_stream_def)
      then have "later \<noteq> []" using True by auto
      ultimately show ?thesis using assms(3) PARSING_HEADER True by (intro stop [of c es ps]) auto
    next
      case False
      obtain c1 where "parse_header c = Inr (None, c1)" "rc_state c1 = PARSING_PTS_AND_COUNT" "reading off ts te fl later c1 p [] ps"
          "length (unread c1) < length (unread c)" "p = []" "future c1 [] ps = future c es ps" "ends_inside c1 ps = ends_inside c ps"
        using header_stage [OF assms(3) PARSING_HEADER False] by blast
      then show ?thesis using PARSING_HEADER by (intro pts [of c1]) (auto simp: parse_round_def)
    qed
  next
    case PARSING_PTS_AND_COUNT
    moreover have "es = []" using assms(3) PARSING_PTS_AND_COUNT by (simp add: reading_def parses_def)
    ultimately show ?thesis using assms(3,5) by (intro pts [of c]) (auto simp: parse_round_def)
  next
    case PARSING_ENTRIES
    then show ?thesis using assms(3,6) by (intro entries [of c es ps]) (auto simp: parse_round_def)
  qed
qed

end
section \<open>Reading pieces\<close>

lemma unread_fresh: "unread (c\<lparr>rc_buf := b, rc_read_pos := 0, rc_write_pos := n\<rparr>) = take n b"
  by (simp add: unread_def)

lemma compact_ok:
  assumes "pos_ok c"
  shows "\<exists>b i j. compact c = c\<lparr>rc_buf := b, rc_read_pos := i, rc_write_pos := j\<rparr> \<and> i = 0 \<and> j = length (unread c) \<and>
    length b = length (rc_buf c) \<and> take j b = unread c"
proof -
  let ?n = "length (unread c)"
  have n: "available c = ?n" "?n = rc_write_pos c - rc_read_pos c" "?n \<le> length (rc_buf c)"
    using assms available_unread [OF assms] by (auto simp: unread_def pos_ok_def)
  consider "?n = 0" | "0 < ?n" "rc_read_pos c = 0" | "0 < ?n" "rc_read_pos c \<noteq> 0" by blast
  then show ?thesis
  proof cases
    case 1
    then show ?thesis using n by (intro exI [of _ "rc_buf c"] exI [of _ 0]) (auto simp: compact_def Let_def)
  next
    case 2
    then have "compact c = c\<lparr>rc_buf := rc_buf c, rc_read_pos := 0, rc_write_pos := ?n\<rparr>"
      using n by (cases c) (auto simp: compact_def Let_def)
    moreover have "take ?n (rc_buf c) = unread c" using 2 n(2) by (simp add: unread_def)
    ultimately show ?thesis by blast
  next
    case 3
    let ?b = "take ?n (drop (rc_read_pos c) (rc_buf c)) @ drop ?n (rc_buf c)"
    have "compact c = c\<lparr>rc_buf := ?b, rc_read_pos := 0, rc_write_pos := ?n\<rparr>"
      using n(1) 3 by (simp add: compact_def Let_def)
    moreover have "take ?n (drop (rc_read_pos c) (rc_buf c)) = unread c" using n(2) by (simp add: unread_def)
    ultimately show ?thesis using n(3) by (intro exI [of _ ?b] exI [of _ 0] exI [of _ ?n]) simp
  qed
qed

context sample_sink
begin

text \<open>
  The loop of \<open>Read\<close> ends: what is left is less than a header. At the end of the stream everything has been
  read and, when its last packet lies in the window, belongs to a sample.
\<close>

lemma parse_loop_ok:
  "ok w \<Longrightarrow> held w p \<Longrightarrow> reading off ts te fl later c p es ps \<Longrightarrow> int (length (future c es ps)) \<le> room w \<Longrightarrow>
   (rc_state c = PARSING_ENTRIES \<longrightarrow> es \<noteq> []) \<Longrightarrow>
   \<exists>c' w' q es' ps' bs. parse_loop sink (c, w) = Some (Inr (RESULT_CONTINUE, c', w')) \<and> ok w' \<and> held w' q \<and>
    reading off ts te fl later c' q es' ps' \<and> room w' = room w - int (length bs) \<and> emitted (view w) p (view w') q bs \<and>
    future c es ps = bs @ future c' es' ps' \<and> ends_inside c' ps' = ends_inside c ps \<and> (rc_state c' = PARSING_ENTRIES \<longrightarrow> es' \<noteq> []) \<and>
    length (unread c') < 8 \<and> (later = [] \<longrightarrow> es' = [] \<and> ps' = [] \<and> (ends_inside c ps \<longrightarrow> q = []))"
proof (induction "length (unread c)" arbitrary: w p c es ps rule: less_induct)
  case less
  have pos: "pos_ok c" and len: "length p = 8 * rc_total_written c" "rc_total_written c \<le> kMaxEntriesPerSample + 1"
    using less.prems(3) by (auto simp: reading_def counted_def)
  show ?case
  proof (cases "unread c = []")
    case True
    let ?c = "c\<lparr>rc_total_written := if rc_producing_to_queue c then 0 else rc_total_written c\<rparr>"
    obtain w' q where f: "FlushSample sink (c, w) = Inr (?c, w')" "ok w'" "held w' q" "room w' = room w" "emitted (view w) p (view w') q []"
        "if rc_producing_to_queue c then q = [] else q = p"
      using FlushSample_ok [OF less.prems(1,2) len] by blast
    have "parse_loop sink (c, w) = Some (Inr (RESULT_CONTINUE, ?c, w'))"
      using True available_unread [OF pos] f(1) by (subst parse_loop.simps) (simp add: available_def)
    moreover have "reading off ts te fl later ?c q es ps" "future ?c es ps = future c es ps" "ends_inside ?c ps = ends_inside c ps"
      using less.prems(3) f(6) by (auto simp: reading_def counted_def parses_def future_def ends_inside_def split: parsing_state.splits)
    moreover have "es = [] \<and> ps = [] \<and> (ends_inside c ps \<longrightarrow> q = [])" if "later = []"
      using less.prems(3,5) True that f(6)
      by (cases "rc_state c"; cases es; cases ps)
        (auto simp: reading_def parses_def rawcc_stream_def enc_packets_def enc_packet_def enc_entries_def enc_entry_def int_bytes_def ends_inside_def
          split: prod.splits)
    ultimately show ?thesis using f True less.prems(5)
      by - (rule exI [of _ ?c], rule exI [of _ w'], rule exI [of _ q], rule exI [of _ es], rule exI [of _ ps], rule exI [of _ "[]"], simp)
  next
    case False
    obtain r c1 w1 q1 es1 ps1 bs1 where a: "parse_round sink (c, w) = Some (Inr (r, c1, w1))" "ok w1" "held w1 q1"
      "reading off ts te fl later c1 q1 es1 ps1" "room w1 = room w - int (length bs1)" "emitted (view w) p (view w1) q1 bs1"
      "future c es ps = bs1 @ future c1 es1 ps1" "ends_inside c1 ps1 = ends_inside c ps" "rc_state c1 = PARSING_ENTRIES \<longrightarrow> es1 \<noteq> []"
      "if r = None then length (unread c1) < length (unread c)
       else r = Some RESULT_CONTINUE \<and> length (unread c1) < 8 \<and> (later = [] \<longrightarrow> es1 = [] \<and> ps1 = [] \<and> q1 = [])"
      using parse_round_ok [OF less.prems(1-4) False less.prems(5)] by (elim exE conjE) (rule that)
    have go: "parse_loop sink (c, w) = (case r of Some v \<Rightarrow> Some (Inr (v, c1, w1)) | None \<Rightarrow> parse_loop sink (c1, w1))"
      using False available_unread [OF pos] a(1) by (subst parse_loop.simps) (auto simp: available_def)
    show ?thesis
    proof (cases r)
      case None
      have space: "int (length (future c1 es1 ps1)) \<le> room w1" using less.prems(4) a(5,7) by simp
      have shorter: "length (unread c1) < length (unread c)" using a(10) None by simp
      obtain c' w' q es' ps' bs where b: "parse_loop sink (c1, w1) = Some (Inr (RESULT_CONTINUE, c', w'))" "ok w'" "held w' q"
        "reading off ts te fl later c' q es' ps'" "room w' = room w1 - int (length bs)" "emitted (view w1) q1 (view w') q bs"
        "future c1 es1 ps1 = bs @ future c' es' ps'" "ends_inside c' ps' = ends_inside c1 ps1" "rc_state c' = PARSING_ENTRIES \<longrightarrow> es' \<noteq> []"
        "length (unread c') < 8" "later = [] \<longrightarrow> es' = [] \<and> ps' = [] \<and> (ends_inside c1 ps1 \<longrightarrow> q = [])"
        using less.hyps [OF shorter a(2,3,4) space a(9)] by (elim exE conjE) (rule that)
      show ?thesis using go None a(5,7,8) b emitted_trans [OF a(6) b(6)]
        by - (rule exI [of _ c'], rule exI [of _ w'], rule exI [of _ q], rule exI [of _ es'], rule exI [of _ ps'], rule exI [of _ "bs1 @ bs"], simp)
    next
      case (Some v)
      show ?thesis using go a Some
        by - (rule exI [of _ c1], rule exI [of _ w1], rule exI [of _ q1], rule exI [of _ es1], rule exI [of _ ps1], rule exI [of _ bs1], simp)
    qed
  qed
qed

lemma RawCC_Read_ok:
  assumes "ok w" "held w p" "reading off ts te fl (piece @ later) c p es ps" "int (length (future c es ps)) \<le> room w"
    and "rc_state c = PARSING_ENTRIES \<longrightarrow> es \<noteq> []" "piece \<noteq> []" "length (unread c) + length piece \<le> kReadBufferSize"
  shows "\<exists>c' w' q es' ps' bs. RawCC_Read sink (int (length piece)) piece (c, w) = Some (Inr (RESULT_CONTINUE, c', w')) \<and> ok w' \<and> held w' q \<and>
    reading off ts te fl later c' q es' ps' \<and> room w' = room w - int (length bs) \<and> emitted (view w) p (view w') q bs \<and>
    future c es ps = bs @ future c' es' ps' \<and> ends_inside c' ps' = ends_inside c ps \<and> (rc_state c' = PARSING_ENTRIES \<longrightarrow> es' \<noteq> []) \<and>
    length (unread c') < 8 \<and> (later = [] \<longrightarrow> es' = [] \<and> ps' = [] \<and> (ends_inside c ps \<longrightarrow> q = []))"
proof -
  have c: "pos_ok c" "length (rc_buf c) = kReadBufferSize" using assms(3) by (simp_all add: reading_def)
  obtain b j where b: "compact c = c\<lparr>rc_buf := b, rc_read_pos := 0, rc_write_pos := j\<rparr>" "j = length (unread c)"
      "length b = kReadBufferSize" "take j b = unread c"
    using compact_ok [OF c(1)] c(2) by auto
  let ?b = "take j b @ piece @ drop (j + length piece) b"
  let ?c = "c\<lparr>rc_buf := ?b, rc_read_pos := 0, rc_write_pos := j + length piece\<rparr>"
  have fits: "j + length piece \<le> kReadBufferSize" using assms(7) b(2) by simp
  have run: "RawCC_Read sink (int (length piece)) piece (c, w) = parse_loop sink (?c, w)"
    using assms(6) fits b(1,3) by (cases c) (simp add: RawCC_Read_def Let_def RESULT_END_OF_INPUT_def)
  have u: "pos_ok ?c" "unread ?c = unread c @ piece" "length ?b = kReadBufferSize"
    using fits b(3,4) b(2) [symmetric] by (simp_all add: pos_ok_def unread_fresh)
  have rd: "reading off ts te fl later ?c p es ps"
    using assms(3) u by (cases "rc_state c") (simp_all add: reading_def counted_def parses_def)
  have "future ?c es ps = future c es ps" "ends_inside ?c ps = ends_inside c ps" by (simp_all add: future_def ends_inside_def)
  then show ?thesis using parse_loop_ok [OF assms(1,2) rd] assms(4,5) run by simp
qed

lemma reading_compact:
  assumes "reading off ts te fl later c p es ps"
  shows "reading off ts te fl later (compact c) p es ps" "unread (compact c) = unread c" "rc_state (compact c) = rc_state c"
    "future (compact c) es ps = future c es ps" "ends_inside (compact c) ps = ends_inside c ps" "rc_write_pos (compact c) = length (unread c)"
proof -
  have c: "pos_ok c" using assms by (simp add: reading_def)
  obtain b j where b: "compact c = c\<lparr>rc_buf := b, rc_read_pos := 0, rc_write_pos := j\<rparr>" "j = length (unread c)"
      "length b = length (rc_buf c)" "take j b = unread c"
    using compact_ok [OF c] by auto
  then have u: "unread (compact c) = unread c" "pos_ok (compact c)"
    using c by (auto simp: unread_fresh pos_ok_def unread_def)
  show "reading off ts te fl later (compact c) p es ps"
    using assms u b(1,3) by (cases "rc_state c") (simp_all add: reading_def counted_def parses_def)
  show "unread (compact c) = unread c" "rc_state (compact c) = rc_state c" "future (compact c) es ps = future c es ps"
    "ends_inside (compact c) ps = ends_inside c ps" "rc_write_pos (compact c) = length (unread c)"
    using u(1) b(1,2) by (simp_all add: future_def ends_inside_def)
qed

lemma rawcc_feed_ok:
  "ok w \<Longrightarrow> held w p \<Longrightarrow> reading off ts te fl bytes c p es ps \<Longrightarrow> int (length (future c es ps)) \<le> room w \<Longrightarrow>
   (rc_state c = PARSING_ENTRIES \<longrightarrow> es \<noteq> []) \<Longrightarrow> length (unread c) < 8 \<Longrightarrow>
   (bytes = [] \<longrightarrow> es = [] \<and> ps = [] \<and> (ends_inside c ps \<longrightarrow> p = [])) \<Longrightarrow>
   \<exists>rest c' w' q bs more. rawcc_feed sink ns bytes (c, w) = Some (Inr (RESULT_CONTINUE, rest, c', w')) \<and> ok w' \<and>
     emitted (view w) p (view w') q bs \<and> future c es ps = bs @ more \<and> (rest = [] \<longrightarrow> more = [] \<and> (ends_inside c ps \<longrightarrow> q = [])) \<and>
     (length bytes \<le> length (filter (\<lambda>n. 0 < n) ns) \<longrightarrow> rest = [])"
proof (induction ns arbitrary: bytes w p c es ps)
  case Nil
  then show ?case using emitted_refl [of "view w" p "[]"]
    by (intro exI [of _ bytes] exI [of _ c] exI [of _ w] exI [of _ p] exI [of _ "[]"] exI [of _ "future c es ps"])
      (auto simp: future_def captions_def)
next
  case (Cons n ns)
  note rc = reading_compact [OF Cons.prems(3)]
  let ?k = "min n (min (kReadBufferSize - length (unread c)) (length bytes))"
  consider "bytes = []" | "bytes \<noteq> []" "n = 0" | "bytes \<noteq> []" "0 < n" by blast
  then show ?case
  proof cases
    case 1
    then show ?thesis using Cons.prems emitted_refl [of "view w" p "[]"]
      by (intro exI [of _ "[]"] exI [of _ c] exI [of _ w] exI [of _ p] exI [of _ "[]"] exI [of _ "[]"])
        (auto simp: future_def captions_def)
  next
    case 2
    have "rawcc_feed sink (n # ns) bytes (c, w) = rawcc_feed sink ns bytes (compact c, w)"
      using 2 by (simp add: RawCC_Read_def Let_def)
    then show ?thesis using Cons.IH [OF Cons.prems(1,2) rc(1)] Cons.prems(4-7) rc(2-5) 2 by simp
  next
    case 3
    have piece: "take ?k bytes \<noteq> []" "length (unread c) + length (take ?k bytes) \<le> kReadBufferSize" "length (take ?k bytes) = ?k" "0 < ?k"
      using 3 Cons.prems(6) by (auto simp: kReadBufferSize_def)
    have rd: "reading off ts te fl (take ?k bytes @ drop ?k bytes) c p es ps" using Cons.prems(3) by simp
    obtain c1 w1 q1 es1 ps1 bs1 where a: "RawCC_Read sink (int ?k) (take ?k bytes) (c, w) = Some (Inr (RESULT_CONTINUE, c1, w1))"
      "ok w1" "held w1 q1" "reading off ts te fl (drop ?k bytes) c1 q1 es1 ps1" "room w1 = room w - int (length bs1)"
      "emitted (view w) p (view w1) q1 bs1" "future c es ps = bs1 @ future c1 es1 ps1" "ends_inside c1 ps1 = ends_inside c ps"
      "rc_state c1 = PARSING_ENTRIES \<longrightarrow> es1 \<noteq> []" "length (unread c1) < 8"
      "drop ?k bytes = [] \<longrightarrow> es1 = [] \<and> ps1 = [] \<and> (ends_inside c ps \<longrightarrow> q1 = [])"
      using RawCC_Read_ok [OF Cons.prems(1,2) rd Cons.prems(4,5) piece(1,2)] unfolding piece(3) by (elim exE conjE) (rule that)
    have space: "int (length (future c1 es1 ps1)) \<le> room w1" using Cons.prems(4) a(5,7) by simp
    have last: "drop ?k bytes = [] \<longrightarrow> es1 = [] \<and> ps1 = [] \<and> (ends_inside c1 ps1 \<longrightarrow> q1 = [])" using a(8,11) by metis
    obtain rest c' w' q bs more where b: "rawcc_feed sink ns (drop ?k bytes) (c1, w1) = Some (Inr (RESULT_CONTINUE, rest, c', w'))" "ok w'"
        "emitted (view w1) q1 (view w') q bs" "future c1 es1 ps1 = bs @ more" "rest = [] \<longrightarrow> more = [] \<and> (ends_inside c1 ps1 \<longrightarrow> q = [])"
        "length (drop ?k bytes) \<le> length (filter (\<lambda>n. 0 < n) ns) \<longrightarrow> rest = []"
      using Cons.IH [OF a(2-4) space a(9,10) last] by blast
    have go: "rawcc_feed sink (n # ns) bytes (c, w) = Some (Inr (RESULT_CONTINUE, rest, c', w'))"
      using 3 a(1) b(1) rc(6) by (simp add: Let_def)
    have more: "length bytes \<le> length (filter (\<lambda>n. 0 < n) (n # ns)) \<longrightarrow> rest = []" using b(6) 3 piece(4) by simp
    show ?thesis
      using go b(2,4,5) emitted_trans [OF a(6) b(3)] a(7,8) more
      by - (rule exI [of _ rest], rule exI [of _ c'], rule exI [of _ w'], rule exI [of _ q], rule exI [of _ "bs1 @ bs"], rule exI [of _ more], simp)
  qed
qed

text \<open>The entry after 120 counted ones completes a sample, which so has 121 entries.\<close>

lemma sample_of_121:
  assumes "ok w" "held w p" "length p = 8 * 120" "rc_total_written c = 120" "rc_producing_to_queue c" "8 \<le> room w"
    and "read_entry c = Inr (e, consume 3 c)" "\<not> available c < kRawCCSampleSize"
  shows "\<exists>c1 w1 x bs. entries_loop sink (Suc m) (c, w) = entries_loop sink m (c1, w1) \<and> view w1 = view w @ [(x, bs)] \<and> length bs = 8 * 121"
proof -
  let ?bs = "entry_bytes (rc_sample_offset c) (rc_pts c) e"
  let ?c = "(consume 3 c)\<lparr>rc_sample_index := rc_sample_index c + 1, rc_total_written := 121\<rparr>"
  obtain w0 where w0: "WriteFully sink ?bs w = Some (Inr (True, w0))" "ok w0" "held w0 (p @ ?bs)" "view w0 = view w"
    using WriteFully_ok [OF assms(1,2), of ?bs] assms(6) by auto
  obtain w1 x where w1: "ts_metadata sink (rc_sample_pts c) (pts_to_us (rc_pts c) - rc_sample_pts c) kSampleFlagSync (int (length (p @ ?bs))) 0 None w0 = Inr w1"
      "view w1 = view w0 @ [(x, p @ ?bs)]"
    using metadata_ok [OF w0(2,3)] by blast
  have "FlushSample sink (?c, w0) = Inr (?c\<lparr>rc_total_written := 0\<rparr>, w1)"
    using w1(1) assms(3,5) by (simp add: FlushSample_def consume_def kSampleEntrySize_def)
  then have "entries_loop sink (Suc m) (c, w) = entries_loop sink m (?c\<lparr>rc_total_written := 0\<rparr>, w1)"
    using w0(1) assms(4,5,7,8) by (simp add: consume_def kMaxEntriesPerSample_def)
  then show ?thesis using w1(2) w0(4) assms(3) by (intro exI [of _ "?c\<lparr>rc_total_written := 0\<rparr>"] exI [of _ w1] exI [of _ x] exI [of _ "p @ ?bs"]) simp
qed

end

section \<open>Properties\<close>

text \<open>
  The header of the extractor promises samples of at most 120 entries; with 120 entries waiting, a further entry of a
  packet in the window makes a sample of 121.
\<close>

theorem caption_sample_of_121:
  assumes "track_ready s" "track_held s p" "length p = 8 * 120" "rc_total_written c = 120" "rc_producing_to_queue c" "8 \<le> track_room s"
    and "read_entry c = Inr (e, consume 3 c)" "\<not> available c < kRawCCSampleSize"
  shows "\<exists>c1 s1 x bs. entries_loop (container_sink o1) (Suc m) (c, s) = entries_loop (container_sink o1) m (c1, s1) \<and>
    track_view s1 = track_view s @ [(x, bs)] \<and> length bs = 8 * 121"
  by (rule container_track.sample_of_121 [OF assms])



end
