(* ===== verification/Mp4_Extractor.thy ===== *)
theory Mp4_Extractor
  imports Chunk_Output Drm_Session_Manager
begin

text \<open>
  The extractor of MP4 segments (\<open>extractor/stream_parser_extractor.cc\<close>): the functions through which the vendored MP4 parser
  reports formats, samples and protection. They translate what the parser found into formats and samples of the chunk
  that is being loaded, in reverse when the player plays backwards.

  The parser itself is a parameter: a function from bytes to its answer that runs these functions on the state. What it
  hands over are the records here. Channel layouts and sample formats are the numbers of their enumerations,
  which agree between the parser and the player.
\<close>

section \<open>What the parser hands over\<close>

record decrypt_config =
  dc_key_id :: string
  dc_iv :: "byte list"
  dc_subsamples :: "(int \<times> int) list"

definition is_encrypted :: "decrypt_config \<Rightarrow> bool" where
  "is_encrypted c \<longleftrightarrow> dc_key_id c \<noteq> [] \<and> dc_iv c \<noteq> []"

record stream_buffer =
  sb_data :: "byte list"
  sb_timestamp_us :: int
  sb_duration_us :: int
  sb_is_key_frame :: bool
  sb_end_of_stream :: bool
  sb_track_id :: int
  sb_decrypt_config :: "decrypt_config option"

record video_decoder_config =
  vd_is_valid :: bool
  vd_is_h264 :: bool
  vd_coded_width :: int
  vd_coded_height :: int
  vd_natural_width :: int
  vd_extra_data :: "byte list"

datatype parsed_audio_codec = Parsed_AAC | Parsed_AC3 | Parsed_EAC3 | Parsed_Other

record audio_decoder_config =
  ad_is_valid :: bool
  ad_codec :: parsed_audio_codec
  ad_channel_layout :: int
  ad_samples_per_second :: int
  ad_sample_format :: int
  ad_extra_data :: "byte list"

datatype track_config = Text_Track | Video_Track video_decoder_config | Audio_Track audio_decoder_config

record media_track =
  mt_id :: string
  mt_language :: string
  mt_config :: track_config

section \<open>State\<close>

record mp4_extractor =
  mx_track_map :: "int list"
  mx_tracks_registered :: bool
  mx_is_seeking :: bool
  mx_duration_us :: int
  mx_reverse_frames :: bool
  mx_reversed_buffers :: "stream_buffer list"

definition StreamParserExtractor_new :: "bool \<Rightarrow> mp4_extractor" where
  "StreamParserExtractor_new reverse_frames =
     \<lparr>mx_track_map = [], mx_tracks_registered = False, mx_is_seeking = False, mx_duration_us = 0, mx_reverse_frames = reverse_frames,
      mx_reversed_buffers = []\<rparr>"

section \<open>Operations\<close>

text \<open>The parser's answer decides; \<open>result\<close> is what reading the input returned and \<open>piece\<close> the bytes it stored.\<close>

definition StreamParserExtractor_Read ::
  "(byte list \<Rightarrow> 's \<Rightarrow> (bool \<times> 's) result option) \<Rightarrow> int \<Rightarrow> byte list \<Rightarrow> 's \<Rightarrow> (int \<times> 's) result option" where
  "StreamParserExtractor_Read parse result piece s =
     (if result > 0
      then and_then_opt (parse piece s) (\<lambda>(ok, s1). Some (Inr (if ok then RESULT_CONTINUE else RESULT_IO_ERROR, s1)))
      else if result = 0 then Some (Inr (RESULT_CONTINUE, s))
      else if result = RESULT_END_OF_INPUT then Some (Inr (RESULT_END_OF_INPUT, s))
      else Some (Inr (RESULT_IO_ERROR, s)))"

definition StreamParserExtractor_Seek :: "mp4_extractor \<Rightarrow> mp4_extractor" where
  "StreamParserExtractor_Seek x = x\<lparr>mx_is_seeking := True\<rparr>"

definition InitF :: "int \<Rightarrow> mp4_extractor \<Rightarrow> mp4_extractor" where
  "InitF duration_us x = x\<lparr>mx_duration_us := duration_us\<rparr>"

definition ChromiumSampleFormatToNDash :: "int \<Rightarrow> int" where
  "ChromiumSampleFormatToNDash f = (if 1 \<le> f \<and> f \<le> 8 then f else kSampleFormatUnknown)"

definition ChromiumChannelLayoutToNDash :: "int \<Rightarrow> int" where
  "ChromiumChannelLayoutToNDash l = (if l = 0 \<or> 2 \<le> l \<and> l \<le> 31 then l else kChannelLayoutUnsupported)"

definition copy_init_data :: "byte list \<Rightarrow> byte list option" where
  "copy_init_data d = (if d = [] then None else Some d)"

definition kVideoMP4 :: string where "kVideoMP4 = ''video/mp4''"
definition kAudioMP4 :: string where "kAudioMP4 = ''audio/mp4''"

text \<open>The ratio is a division of integers.\<close>

definition video_track_format :: "int \<Rightarrow> string \<Rightarrow> video_decoder_config \<Rightarrow> media_format result" where
  "video_track_format duration_us track_id vc =
     (if vd_coded_width vc = 0 then Inl Undefined_access
      else Inr (CreateVideoFormat track_id kVideoMP4 (if vd_is_h264 vc then kVideoCodecH264 else []) kNoValue kNoValue duration_us
             (vd_coded_width vc) (vd_coded_height vc) (copy_init_data (vd_extra_data vc)) (int (length (vd_extra_data vc))) 0
             (Finite (fp_round 24 (of_int (vd_natural_width vc sdiv vd_coded_width vc))))))"

definition audio_track_format :: "(int \<Rightarrow> int) \<Rightarrow> int \<Rightarrow> string \<Rightarrow> string \<Rightarrow> audio_decoder_config \<Rightarrow> media_format" where
  "audio_track_format channel_count duration_us track_id language ac =
     CreateAudioFormat track_id kAudioMP4
       (case ad_codec ac of Parsed_AAC \<Rightarrow> kAudioCodecAAC | Parsed_AC3 \<Rightarrow> kAudioCodecAC3 | Parsed_EAC3 \<Rightarrow> kAudioCodecEAC3 | Parsed_Other \<Rightarrow> [])
       kNoValue kNoValue duration_us (channel_count (ad_channel_layout ac)) (ad_samples_per_second ac) (copy_init_data (ad_extra_data ac))
       (int (length (ad_extra_data ac))) language kNoValue (ChromiumChannelLayoutToNDash (ad_channel_layout ac))
       (ChromiumSampleFormatToNDash (ad_sample_format ac))"

text \<open>The format of a track, \<open>None\<close> when it is ignored.\<close>

definition track_format :: "(int \<Rightarrow> int) \<Rightarrow> int \<Rightarrow> media_track \<Rightarrow> media_format option result" where
  "track_format channel_count duration_us t =
     (case mt_config t of
        Text_Track \<Rightarrow> Inr None
      | Video_Track vc \<Rightarrow>
          if vd_is_valid vc then and_then (video_track_format duration_us (mt_id t) vc) (\<lambda>f. Inr (Some f)) else Inr None
      | Audio_Track ac \<Rightarrow>
          if ad_is_valid ac then Inr (Some (audio_track_format channel_count duration_us (mt_id t) (mt_language t) ac)) else Inr None)"

text \<open>
  The loop over the tracks. Each is registered with the wrapper, which allows one, and a format is given to the chunk
  by \<open>give\<close>.
\<close>

fun register_tracks ::
  "(int \<Rightarrow> int) \<Rightarrow> (media_format option \<Rightarrow> 'c \<Rightarrow> 'c) \<Rightarrow> int \<Rightarrow> media_track list \<Rightarrow> mp4_extractor \<times> extractor_wrapper \<times> 'c \<Rightarrow>
   (mp4_extractor \<times> extractor_wrapper \<times> 'c) result" where
  "register_tracks channel_count give i [] s = Inr s"
| "register_tracks channel_count give i (t # ts) s =
     (case s of (x, w, c) \<Rightarrow>
        and_then (RegisterTrack w) (\<lambda>w1.
        and_then (track_format channel_count (mx_duration_us x) t) (\<lambda>f.
          register_tracks channel_count give (i + 1) ts
            (x\<lparr>mx_track_map := mx_track_map x @ [i]\<rparr>, w1, case f of None \<Rightarrow> c | Some _ \<Rightarrow> give f c))))"

definition NewConfigF ::
  "(int \<Rightarrow> int) \<Rightarrow> (media_format option \<Rightarrow> 'c \<Rightarrow> 'c) \<Rightarrow> media_track list \<Rightarrow> mp4_extractor \<times> extractor_wrapper \<times> 'c \<Rightarrow>
   (bool \<times> mp4_extractor \<times> extractor_wrapper \<times> 'c) result" where
  "NewConfigF channel_count give media_tracks s =
     (case s of (x, w, c) \<Rightarrow>
        if mx_is_seeking x then Inr (True, x\<lparr>mx_is_seeking := False\<rparr>, w, c)
        else if mx_tracks_registered x then Inr (False, x, w, c)
        else and_then (register_tracks channel_count give 0 media_tracks (x, w, c)) (\<lambda>(x1, w1, c1).
          and_then (DoneRegisteringTracks w1) (\<lambda>_. Inr (True, x1\<lparr>mx_tracks_registered := True\<rparr>, w1, c1))))"

text \<open>A count below 0 makes the source address leave the data; one beyond the rest ends the loop.\<close>

partial_function (option) write_buffer :: "'o track_sink \<Rightarrow> byte list \<Rightarrow> 'o \<Rightarrow> (bool \<times> 'o) result option" where
  "write_buffer sink src w =
     (if src = [] then Some (Inr (True, w))
      else (case ts_write sink src w of
              Inl e \<Rightarrow> Some (Inl e)
            | Inr (ok, n, w') \<Rightarrow>
                if \<not> ok then Some (Inr (False, w'))
                else if n < 0 then Some (Inl Undefined_access)
                else write_buffer sink (drop (nat n) src) w'))"

definition sample_flags :: "stream_buffer \<Rightarrow> int" where
  "sample_flags b = (if sb_is_key_frame b then kSampleFlagSync else 0)"

definition write_sample_metadata :: "'o track_sink \<Rightarrow> stream_buffer \<Rightarrow> 'o \<Rightarrow> 'o result" where
  "write_sample_metadata sink b w =
     (case sb_decrypt_config b of
        Some c \<Rightarrow>
          if is_encrypted c
          then ts_metadata sink (sb_timestamp_us b) (sb_duration_us b) (sample_flags b OR kSampleFlagEncrypted) (int (length (sb_data b))) 0
                 (Some (dc_key_id c, dc_iv c, map (narrow32 \<circ> fst) (dc_subsamples c), map (narrow32 \<circ> snd) (dc_subsamples c))) w
          else ts_metadata sink (sb_timestamp_us b) (sb_duration_us b) (sample_flags b) (int (length (sb_data b))) 0 None w
      | None \<Rightarrow> ts_metadata sink (sb_timestamp_us b) (sb_duration_us b) (sample_flags b) (int (length (sb_data b))) 0 None w)"

fun ProcessBuffers :: "'o track_sink \<Rightarrow> int list \<Rightarrow> stream_buffer list \<Rightarrow> 'o \<Rightarrow> 'o result option" where
  "ProcessBuffers sink track_map [] w = Some (Inr w)"
| "ProcessBuffers sink track_map (b # bs) w =
     (if sb_end_of_stream b then Some (Inr w)
      else if sb_track_id b \<notin> set track_map then ProcessBuffers sink track_map bs w
      else and_then_opt (write_buffer sink (sb_data b) w) (\<lambda>(ok, w1).
        if \<not> ok then ProcessBuffers sink track_map bs w1
        else and_then_opt (Some (write_sample_metadata sink b w1)) (ProcessBuffers sink track_map bs)))"

definition DumpBuffers :: "'o track_sink \<Rightarrow> stream_buffer list \<Rightarrow> mp4_extractor \<times> 'o \<Rightarrow> (mp4_extractor \<times> 'o) result option" where
  "DumpBuffers sink buffers s =
     (case s of (x, w) \<Rightarrow>
        if mx_reverse_frames x then Some (Inr (x\<lparr>mx_reversed_buffers := rev buffers @ mx_reversed_buffers x\<rparr>, w))
        else and_then_opt (ProcessBuffers sink (mx_track_map x) buffers w) (\<lambda>w1. Some (Inr (x, w1))))"

definition NewBuffersF ::
  "'o track_sink \<Rightarrow> stream_buffer list \<Rightarrow> stream_buffer list \<Rightarrow> bool \<Rightarrow> mp4_extractor \<times> 'o \<Rightarrow> (bool \<times> mp4_extractor \<times> 'o) result option" where
  "NewBuffersF sink audio video has_text s =
     (if \<not> mx_tracks_registered (fst s) then Some (Inr (False, s))
      else and_then_opt (DumpBuffers sink audio s) (\<lambda>s1. and_then_opt (DumpBuffers sink video s1) (\<lambda>s2. Some (Inr (\<not> has_text, s2)))))"

definition EndMediaSegmentF :: "'o track_sink \<Rightarrow> mp4_extractor \<times> 'o \<Rightarrow> (mp4_extractor \<times> 'o) result option" where
  "EndMediaSegmentF sink s =
     (case s of (x, w) \<Rightarrow>
        if mx_reverse_frames x \<and> mx_reversed_buffers x \<noteq> []
        then and_then_opt (ProcessBuffers sink (mx_track_map x) (mx_reversed_buffers x) w) (\<lambda>w1. Some (Inr (x\<lparr>mx_reversed_buffers := []\<rparr>, w1)))
        else Some (Inr (x, w)))"

text \<open>The license is requested at once, and the data becomes that of the chunk for every scheme.\<close>

definition EncryptedMediaInitDataF ::
  "'m cdm_callbacks option \<Rightarrow> bool \<Rightarrow> byte list \<Rightarrow> (byte list \<Rightarrow> string) \<Rightarrow> drm_session_manager \<times> chunk_formats \<Rightarrow> drm_session_manager \<times> chunk_formats" where
  "EncryptedMediaInitDataF callbacks is_cenc init_data chars s =
     (DrmSessionManager_Request callbacks (chars init_data) (fst s),
      SetDrmInitData (Some (Universal_Init_Data (Some
        \<lparr>sid_mime_type = (if is_cenc then ''video/mp4'' else ''application/x-unknown-drm''), sid_data = init_data\<rparr>))) (snd s))"

text \<open>A segment index the parser found, as the four lists of its entries; \<open>give\<close> is the chunk's \<open>GiveSeekMap\<close>.\<close>

definition ChunkIndex_new :: "int list \<Rightarrow> int list \<Rightarrow> int list \<Rightarrow> int list \<Rightarrow> chunk_index result" where
  "ChunkIndex_new sizes offsets durations_us times_us =
     (if times_us = [] then Inl Check_failed
      else Inr \<lparr>ci_sizes = sizes, ci_offsets = offsets, ci_durations_us = durations_us, ci_times_us = times_us\<rparr>)"

definition NewSIDX :: "(chunk_index \<Rightarrow> 'c \<Rightarrow> 'c) \<Rightarrow> int list \<Rightarrow> int list \<Rightarrow> int list \<Rightarrow> int list \<Rightarrow> 'c \<Rightarrow> 'c result" where
  "NewSIDX give sizes offsets durations_us times_us c =
     and_then (ChunkIndex_new sizes offsets durations_us times_us) (\<lambda>seek_map. Inr (give seek_map c))"

section \<open>Properties\<close>

text \<open>A buffer that becomes a sample of the track: its track is registered and it does not end the stream.\<close>

definition plain_buffer :: "int list \<Rightarrow> stream_buffer \<Rightarrow> bool" where
  "plain_buffer track_map b \<longleftrightarrow> \<not> sb_end_of_stream b \<and> sb_track_id b \<in> set track_map"

definition buffer_crypto :: "stream_buffer \<Rightarrow> sample_crypto option" where
  "buffer_crypto b =
     (case sb_decrypt_config b of
        None \<Rightarrow> None
      | Some c \<Rightarrow> if is_encrypted c
          then Some (dc_key_id c, dc_iv c, map (narrow32 \<circ> fst) (dc_subsamples c), map (narrow32 \<circ> snd) (dc_subsamples c)) else None)"

definition buffer_flags :: "stream_buffer \<Rightarrow> int" where
  "buffer_flags b = (if buffer_crypto b = None then sample_flags b else sample_flags b OR kSampleFlagEncrypted)"

definition bytes_of :: "stream_buffer list \<Rightarrow> int" where
  "bytes_of bs = int (sum_list (map (length \<circ> sb_data) bs))"

lemma bytes_of_simps [simp]: "bytes_of [] = 0" "bytes_of (b # bs) = int (length (sb_data b)) + bytes_of bs"
    "bytes_of (xs @ ys) = bytes_of xs + bytes_of ys" "bytes_of (rev xs) = bytes_of xs"
  by (simp_all add: bytes_of_def rev_map [symmetric] sum_list_rev)

lemma bytes_of_nonneg [simp]: "0 \<le> bytes_of bs"
  by (simp add: bytes_of_def)

lemma write_sample_metadata_eq:
  "write_sample_metadata sink b w =
   ts_metadata sink (sb_timestamp_us b) (sb_duration_us b) (buffer_flags b) (int (length (sb_data b))) 0 (buffer_crypto b) w"
  by (auto simp: write_sample_metadata_def buffer_flags_def buffer_crypto_def split: option.split)

text \<open>A sample of a sink that a buffer became.\<close>

definition sample_of :: "('s \<Rightarrow> int \<Rightarrow> int \<Rightarrow> int \<Rightarrow> sample_crypto option \<Rightarrow> bool) \<Rightarrow> stream_buffer \<Rightarrow> 's \<times> byte list \<Rightarrow> bool" where
  "sample_of describes b s \<longleftrightarrow>
     snd s = sb_data b \<and> describes (fst s) (sb_timestamp_us b) (sb_duration_us b) (buffer_flags b) (buffer_crypto b)"

text \<open>The reports of a parser during one segment: buffers, then the end of the segment.\<close>

fun report_buffers ::
  "'o track_sink \<Rightarrow> (stream_buffer list \<times> stream_buffer list) list \<Rightarrow> mp4_extractor \<times> 'o \<Rightarrow> (mp4_extractor \<times> 'o) result option" where
  "report_buffers sink [] s = EndMediaSegmentF sink s"
| "report_buffers sink ((audio, video) # calls) s =
     and_then_opt (NewBuffersF sink audio video False s) (\<lambda>(ok, s1). report_buffers sink calls s1)"

definition reported :: "(stream_buffer list \<times> stream_buffer list) list \<Rightarrow> stream_buffer list" where
  "reported calls = concat (map (\<lambda>(audio, video). audio @ video) calls)"

context sample_sink
begin

lemma write_buffer_ok:
  "ok w \<Longrightarrow> held w p \<Longrightarrow> int (length src) \<le> room w \<Longrightarrow>
   \<exists>w'. write_buffer sink src w = Some (Inr (True, w')) \<and> ok w' \<and> room w' = room w - int (length src) \<and> held w' (p @ src) \<and> view w' = view w"
  by (rule write_loop_ok) (simp_all add: write_buffer.simps)

lemma ProcessBuffers_ok:
  "ok w \<Longrightarrow> list_all (plain_buffer track_map) bs \<Longrightarrow> bytes_of bs \<le> room w \<Longrightarrow>
   \<exists>w' S. ProcessBuffers sink track_map bs w = Some (Inr w') \<and> ok w' \<and> room w' = room w - bytes_of bs \<and> view w' = view w @ S \<and>
     list_all2 (sample_of describes) bs S"
proof (induction bs arbitrary: w)
  case (Cons b bs)
  have small: "int (length (sb_data b)) \<le> room w" using Cons.prems(3) bytes_of_nonneg [of bs] unfolding bytes_of_simps by linarith
  obtain w1 where w1: "write_buffer sink (sb_data b) w = Some (Inr (True, w1))" "ok w1" "room w1 = room w - int (length (sb_data b))"
      "held w1 (sb_data b)" "view w1 = view w"
    using write_buffer_ok [OF Cons.prems(1) held_Nil [OF Cons.prems(1)] small] by auto
  obtain w2 x where w2: "write_sample_metadata sink b w1 = Inr w2" "ok w2" "room w2 = room w1" "view w2 = view w1 @ [(x, sb_data b)]"
      "describes x (sb_timestamp_us b) (sb_duration_us b) (buffer_flags b) (buffer_crypto b)"
    using metadata_ok [OF w1(2,4)] unfolding write_sample_metadata_eq by blast
  obtain w3 S where w3: "ProcessBuffers sink track_map bs w2 = Some (Inr w3)" "ok w3" "room w3 = room w2 - bytes_of bs" "view w3 = view w2 @ S"
      "list_all2 (sample_of describes) bs S"
    using Cons.IH [OF w2(2)] Cons.prems(2,3) w1(3) w2(3) by auto
  have "sample_of describes b (x, sb_data b)" using w2(5) by (simp add: sample_of_def)
  then show ?case using Cons.prems(2) w1 w2 w3
    by (intro exI [of _ w3] exI [of _ "(x, sb_data b) # S"]) (simp add: plain_buffer_def)
qed simp

lemma report_buffers_forward:
  "ok w \<Longrightarrow> list_all (plain_buffer (mx_track_map x)) (reported calls) \<Longrightarrow> bytes_of (reported calls) \<le> room w \<Longrightarrow> mx_tracks_registered x \<Longrightarrow>
   \<not> mx_reverse_frames x \<Longrightarrow>
   \<exists>w' S. report_buffers sink calls (x, w) = Some (Inr (x, w')) \<and> ok w' \<and> view w' = view w @ S \<and> list_all2 (sample_of describes) (reported calls) S"
proof (induction calls arbitrary: w)
  case Nil
  then show ?case by (simp add: EndMediaSegmentF_def reported_def)
next
  case (Cons call calls)
  obtain a v where call: "call = (a, v)" by (cases call)
  have plain: "list_all (plain_buffer (mx_track_map x)) a" "list_all (plain_buffer (mx_track_map x)) v"
      "list_all (plain_buffer (mx_track_map x)) (reported calls)" and size: "bytes_of a + bytes_of v + bytes_of (reported calls) \<le> room w"
    using Cons.prems(2,3) by (simp_all add: reported_def call)
  note pos = bytes_of_nonneg [of v] bytes_of_nonneg [of "reported calls"]
  obtain w1 S1 where w1: "ProcessBuffers sink (mx_track_map x) a w = Some (Inr w1)" "ok w1" "room w1 = room w - bytes_of a" "view w1 = view w @ S1"
      "list_all2 (sample_of describes) a S1"
    using ProcessBuffers_ok [OF Cons.prems(1) plain(1)] size pos by auto
  obtain w2 S2 where w2: "ProcessBuffers sink (mx_track_map x) v w1 = Some (Inr w2)" "ok w2" "room w2 = room w1 - bytes_of v" "view w2 = view w1 @ S2"
      "list_all2 (sample_of describes) v S2"
    using ProcessBuffers_ok [OF w1(2) plain(2)] size pos w1(3) by auto
  obtain w3 S3 where w3: "report_buffers sink calls (x, w2) = Some (Inr (x, w3))" "ok w3" "view w3 = view w2 @ S3"
      "list_all2 (sample_of describes) (reported calls) S3"
    using Cons.IH [OF w2(2) plain(3) _ Cons.prems(4,5)] size w1(3) w2(3) by auto
  have "list_all2 (sample_of describes) (reported (call # calls)) (S1 @ S2 @ S3)"
    using w1(5) w2(5) w3(4) by (simp add: reported_def call list_all2_appendI)
  then show ?case using Cons.prems(4,5) w1 w2 w3 by (auto simp: call NewBuffersF_def DumpBuffers_def)
qed

lemma report_buffers_reverse:
  "ok w \<Longrightarrow> list_all (plain_buffer (mx_track_map x)) (rev (reported calls) @ mx_reversed_buffers x) \<Longrightarrow>
   bytes_of (reported calls) + bytes_of (mx_reversed_buffers x) \<le> room w \<Longrightarrow> mx_tracks_registered x \<Longrightarrow> mx_reverse_frames x \<Longrightarrow>
   \<exists>w' S. report_buffers sink calls (x, w) = Some (Inr (x\<lparr>mx_reversed_buffers := []\<rparr>, w')) \<and> ok w' \<and> view w' = view w @ S \<and>
     list_all2 (sample_of describes) (rev (reported calls) @ mx_reversed_buffers x) S"
proof (induction calls arbitrary: x)
  case Nil
  show ?case
  proof (cases "mx_reversed_buffers x = []")
    case True
    then have "x\<lparr>mx_reversed_buffers := []\<rparr> = x" by (cases x) simp
    then show ?thesis using True Nil by (simp add: EndMediaSegmentF_def reported_def)
  next
    case False
    then show ?thesis using ProcessBuffers_ok [OF Nil(1), of "mx_track_map x" "mx_reversed_buffers x"] Nil
      by (auto simp: EndMediaSegmentF_def reported_def)
  qed
next
  case (Cons call calls)
  obtain a v where call: "call = (a, v)" by (cases call)
  let ?x = "x\<lparr>mx_reversed_buffers := rev v @ rev a @ mx_reversed_buffers x\<rparr>"
  have "report_buffers sink (call # calls) (x, w) = report_buffers sink calls (?x, w)"
    using Cons.prems(4,5) by (simp add: call NewBuffersF_def DumpBuffers_def)
  then show ?case using Cons.IH [of ?x] Cons.prems by (simp add: call reported_def algebra_simps)
qed

end

text \<open>
  C21. Every buffer becomes a sample. When the parser reports the buffers of a segment and then its end, each buffer of a
  registered track becomes one sample of the track output, with the buffer's bytes, time (shifted by the chunk's offset),
  duration, flags and encryption, in the order of the reports, or exactly reversed when frames are to be reversed.
\<close>

theorem mp4_buffers_become_samples:
  assumes "track_ready s" "mx_tracks_registered x" "mx_reversed_buffers x = []"
    and "list_all (plain_buffer (mx_track_map x)) (reported calls)" "bytes_of (reported calls) \<le> track_room s"
  shows "\<exists>s' S. report_buffers (container_sink off) calls (x, s) = Some (Inr (x, s')) \<and> track_ready s' \<and> track_view s' = track_view s @ S \<and>
    list_all2 (sample_of (track_describes off)) (if mx_reverse_frames x then rev (reported calls) else reported calls) S"
proof (cases "mx_reverse_frames x")
  case True
  have same: "x\<lparr>mx_reversed_buffers := []\<rparr> = x" using assms(3) by (cases x) simp
  show ?thesis using container_track.report_buffers_reverse [OF assms(1), of x calls off] assms True unfolding same by simp
next
  case False
  then show ?thesis using container_track.report_buffers_forward [OF assms(1,4,5,2), of off] by simp
qed

definition demo_buffer :: "byte list \<Rightarrow> int \<Rightarrow> stream_buffer" where
  "demo_buffer d t = \<lparr>sb_data = d, sb_timestamp_us = t, sb_duration_us = 40, sb_is_key_frame = True, sb_end_of_stream = False,
     sb_track_id = 0, sb_decrypt_config = Some \<lparr>dc_key_id = ''k'', dc_iv = [9], dc_subsamples = [(1, 1)]\<rparr>\<rparr>"

theorem mp4_buffers_become_samples_witness:
  "\<exists>s' S. report_buffers (container_sink 7) [([], [demo_buffer [1, 2] 0]), ([], [demo_buffer [3, 4] 40])]
      ((StreamParserExtractor_new True)\<lparr>mx_track_map := [0], mx_tracks_registered := True\<rparr>, demo_track) =
        Some (Inr ((StreamParserExtractor_new True)\<lparr>mx_track_map := [0], mx_tracks_registered := True\<rparr>, s')) \<and>
    track_view s' = track_view demo_track @ S \<and> map snd S = [[3, 4], [1, 2]] \<and> map (si_time_us \<circ> fst) S = [47, 7]"
proof -
  let ?x = "(StreamParserExtractor_new True)\<lparr>mx_track_map := [0], mx_tracks_registered := True\<rparr>"
  let ?calls = "[([], [demo_buffer [1, 2] 0]), ([], [demo_buffer [3, 4] 40])]"
  have x: "mx_tracks_registered ?x" "mx_reversed_buffers ?x = []" "mx_reverse_frames ?x" "mx_track_map ?x = [0]"
    by (simp_all add: StreamParserExtractor_new_def)
  have r: "reported ?calls = [demo_buffer [1, 2] 0, demo_buffer [3, 4] 40]" by (simp add: reported_def)
  have "list_all (plain_buffer (mx_track_map ?x)) (reported ?calls)" unfolding r x(4) by (simp add: plain_buffer_def demo_buffer_def)
  moreover have "bytes_of (reported ?calls) \<le> track_room demo_track"
    unfolding r by (simp add: demo_buffer_def track_room_def demo_track_def demo_rsb_def bytes_written_def)
  ultimately obtain s' S where "report_buffers (container_sink 7) ?calls (?x, demo_track) = Some (Inr (?x, s'))"
      "track_view s' = track_view demo_track @ S"
      "list_all2 (sample_of (track_describes 7)) [demo_buffer [3, 4] 40, demo_buffer [1, 2] 0] S"
    using mp4_buffers_become_samples [OF demo_track_facts(1) x(1,2), of ?calls 7] unfolding r by (auto simp: x(3))
  moreover from this(3) have "map snd S = [[3, 4], [1, 2]] \<and> map (si_time_us \<circ> fst) S = [47, 7]"
    by (auto simp: list_all2_Cons1 sample_of_def track_describes_def demo_buffer_def)
  ultimately show ?thesis by (intro exI [of _ s'] exI [of _ S] conjI) simp_all
qed

text \<open>
  A segment with two tracks ends the process: the wrapper allows one track to be registered, also for a parser that reports the audio
  and the video of a file.
\<close>

theorem second_track_aborts:
  assumes "\<not> mx_is_seeking x" "\<not> mx_tracks_registered x" "\<not> ew_seen_track w" "track_format cc (mx_duration_us x) t = Inr f"
  shows "NewConfigF cc give (t # t' # ts) (x, w, c) = Inl Check_failed"
  using assms by (simp add: NewConfigF_def RegisterTrack_def)

end
