(* ===== verification/Curl_Data_Source.thy ===== *)
theory Curl_Data_Source
  imports Chunks Xml_Attributes
begin

text \<open>
  Network transfers (\<open>upstream/curl_data_source.cc\<close>): the loading thread opens a request and reads the body; libcurl runs
  on a thread of its own and calls back with header lines and pieces of the body. The two threads share a bounded
  queue of buffers under a lock, with a condition variable for each direction.

  libcurl is not part of the program: whether it accepts an option, what it delivers and how a transfer ends are
  arguments, and the steps of its thread. Every operation is split at the points where its thread waits. A thread that waits for
  a condition variable has a flag that says whether it was woken. The measurements of times, which are only logged,
  are left out. Of the transferred bytes three sequences are kept along: those libcurl fed to the write callback, those put into the
  queue, and those that calls returned to the reader.
\<close>

section \<open>State\<close>

datatype http_data_source_error = HTTP_OK | HTTP_IO_ERROR | HTTP_CONTENT_TYPE_ERROR | HTTP_RESPONSE_CODE_ERROR

datatype curl_option =
    CURLOPT_NOSIGNAL | CURLOPT_ERRORBUFFER | CURLOPT_PROTOCOLS | CURLOPT_REDIR_PROTOCOLS | CURLOPT_AUTOREFERER
  | CURLOPT_FOLLOWLOCATION | CURLOPT_HTTPHEADER "string list" | CURLOPT_PRIVATE | CURLOPT_WRITEFUNCTION | CURLOPT_WRITEDATA
  | CURLOPT_HEADERFUNCTION | CURLOPT_HEADERDATA | CURLOPT_URL string | CURLOPT_POSTFIELDS string | CURLOPT_POSTFIELDSIZE nat
  | CURLOPT_RANGE string

datatype transfer_event = Transfer_Start | Bytes_Transferred nat | Transfer_End

text \<open>\<open>cd_easy\<close> are the options that were set on the handle, \<open>cd_heard\<close> the calls the listener received.\<close>

record curl_data_source =
  cd_use_global_lock :: bool
  cd_max_buffer_size :: nat
  cd_listener :: bool
  cd_heard :: "transfer_event list"
  cd_open :: bool
  cd_active :: bool
  cd_request_properties :: "(string \<times> string) list"
  cd_request_headers :: "string list option"
  cd_cancel :: bool
  cd_is_http :: bool
  cd_is_range_request :: bool
  cd_uri :: string
  cd_load_error :: bool
  cd_eof :: bool
  cd_headers_seen :: bool
  cd_end_of_headers :: bool
  cd_want_full_buffer :: bool
  cd_bytes_buffered :: nat
  cd_buffer_head_pos :: nat
  cd_buffers :: "byte list list"
  cd_curl_done :: bool
  cd_headers_done :: bool
  cd_tentative_length :: int
  cd_response_headers :: "(string \<times> string) list"
  cd_bytes_read :: nat
  cd_easy :: "curl_option list"
  cd_http_error :: http_data_source_error

definition CurlDataSource_new :: "bool \<Rightarrow> bool \<Rightarrow> nat \<Rightarrow> curl_data_source" where
  "CurlDataSource_new listener use_global_lock max_buffer_size =
     \<lparr>cd_use_global_lock = use_global_lock, cd_max_buffer_size = max_buffer_size, cd_listener = listener, cd_heard = [],
      cd_open = False, cd_active = False, cd_request_properties = [], cd_request_headers = None, cd_cancel = False,
      cd_is_http = False, cd_is_range_request = False, cd_uri = [], cd_load_error = False, cd_eof = False,
      cd_headers_seen = False, cd_end_of_headers = True, cd_want_full_buffer = False, cd_bytes_buffered = 0,
      cd_buffer_head_pos = 0, cd_buffers = [], cd_curl_done = False, cd_headers_done = False,
      cd_tentative_length = LENGTH_UNBOUNDED, cd_response_headers = [], cd_bytes_read = 0, cd_easy = [],
      cd_http_error = HTTP_OK\<rparr>"

text \<open>Where the threads are. A thread at a \<open>Waits\<close> is inside the wait of the operation that is named.\<close>

datatype loader_place =
    Loader_Ready | Open_Waits_Headers | Open_Waits_Done | Read_Waits nat | Read_All_Waits nat | Close_Waits

text \<open>\<open>Curl_Performing True\<close>: a callback has refused data, so libcurl is going to fail the transfer.\<close>

datatype curl_place = Curl_Idle | Curl_Posted | Curl_Performing bool | Body_Waits "byte list" | Drain_Waits

datatype loader_result = Opened int | Got int "byte list" | Got_All "byte list" | Closed

record curl_system =
  cs_source :: curl_data_source
  cs_loader :: loader_place
  cs_loader_woken :: bool
  cs_last :: "loader_result option"
  cs_curl :: curl_place
  cs_curl_woken :: bool
  cs_cancel_set :: bool
  cs_global_active :: bool
  cs_fed :: "byte list"
  cs_received :: "byte list"
  cs_delivered :: "byte list"

definition on_source :: "(curl_data_source \<Rightarrow> curl_data_source) \<Rightarrow> curl_system \<Rightarrow> curl_system" where
  "on_source f s = s\<lparr>cs_source := f (cs_source s)\<rparr>"

text \<open>Differences of \<open>size_t\<close>.\<close>

definition size_minus :: "nat \<Rightarrow> nat \<Rightarrow> nat" where
  "size_minus a b = (if b \<le> a then a - b else 2 ^ 64 + a - b)"

definition GetReadable :: "curl_data_source \<Rightarrow> nat" where
  "GetReadable d = size_minus (cd_bytes_buffered d) (cd_buffer_head_pos d)"

definition GetBufferFree :: "curl_data_source \<Rightarrow> nat" where
  "GetBufferFree d = size_minus (cd_max_buffer_size d) (cd_bytes_buffered d)"

text \<open>
  Only the loading thread waits for \<open>writer_\<close> and only libcurl's thread waits for \<open>reader_\<close>, so waking one and waking all are
  the same.
\<close>

definition signal_writer :: "curl_system \<Rightarrow> curl_system" where
  "signal_writer s = (case cs_loader s of Read_Waits _ \<Rightarrow> s\<lparr>cs_loader_woken := True\<rparr> | Read_All_Waits _ \<Rightarrow> s\<lparr>cs_loader_woken := True\<rparr> | _ \<Rightarrow> s)"

definition signal_reader :: "curl_system \<Rightarrow> curl_system" where
  "signal_reader s = (case cs_curl s of Body_Waits _ \<Rightarrow> s\<lparr>cs_curl_woken := True\<rparr> | Drain_Waits \<Rightarrow> s\<lparr>cs_curl_woken := True\<rparr> | _ \<Rightarrow> s)"

definition DataSourceError :: "http_data_source_error \<Rightarrow> curl_data_source \<Rightarrow> curl_data_source" where
  "DataSourceError http_error d = d\<lparr>cd_http_error := http_error\<rparr>"

definition cancel_requested :: "curl_system \<Rightarrow> bool" where
  "cancel_requested s \<longleftrightarrow> cd_cancel (cs_source s) \<and> cs_cancel_set s"

text \<open>What \<open>CheckCancel\<close> does when it returns true.\<close>

definition cancel_transfer :: "curl_system \<Rightarrow> curl_system" where
  "cancel_transfer s = signal_writer (signal_reader (on_source (\<lambda>d. d\<lparr>cd_load_error := True\<rparr>) s))"

section \<open>Request headers\<close>

text \<open>The properties are a map ordered by name: the entry of a name is replaced, or a new one put in its place.\<close>

fun put_property :: "string \<Rightarrow> string \<Rightarrow> (string \<times> string) list \<Rightarrow> (string \<times> string) list" where
  "put_property name v [] = [(name, v)]"
| "put_property name v ((k, x) # ps) =
     (if name = k then (name, v) # ps
      else if ord_class.lexordp (map of_char name :: nat list) (map of_char k) then (name, v) # (k, x) # ps
      else (k, x) # put_property name v ps)"

definition header_value :: "string \<Rightarrow> string \<Rightarrow> string" where
  "header_value name v = (if v = [] then name @ '';'' else name @ '': '' @ v)"

definition SetRequestProperty :: "string \<Rightarrow> string \<Rightarrow> curl_data_source \<Rightarrow> curl_data_source" where
  "SetRequestProperty name v d =
     d\<lparr>cd_request_properties := put_property name (header_value name v) (cd_request_properties d), cd_request_headers := None\<rparr>"

definition ClearRequestProperty :: "string \<Rightarrow> curl_data_source \<Rightarrow> curl_data_source" where
  "ClearRequestProperty name d =
     d\<lparr>cd_request_properties := filter (\<lambda>p. fst p \<noteq> name) (cd_request_properties d), cd_request_headers := None\<rparr>"

definition ClearAllRequestProperties :: "curl_data_source \<Rightarrow> curl_data_source" where
  "ClearAllRequestProperties d = d\<lparr>cd_request_properties := [], cd_request_headers := None\<rparr>"

text \<open>\<open>append_ok\<close> says whether \<open>curl_slist_append\<close> could add a header to the list so far.\<close>

fun append_headers :: "(string list \<Rightarrow> string \<Rightarrow> bool) \<Rightarrow> (string \<times> string) list \<Rightarrow> string list option \<Rightarrow> bool \<times> string list option" where
  "append_headers append_ok [] hs = (True, hs)"
| "append_headers append_ok ((k, h) # ps) hs =
     (let so_far = (case hs of None \<Rightarrow> [] | Some l \<Rightarrow> l)
      in if append_ok so_far h then append_headers append_ok ps (Some (so_far @ [h])) else (False, None))"

definition BuildRequestHeaders :: "(string list \<Rightarrow> string \<Rightarrow> bool) \<Rightarrow> curl_data_source \<Rightarrow> bool \<times> curl_data_source" where
  "BuildRequestHeaders append_ok d =
     (if cd_request_headers d \<noteq> None then (True, d)
      else (case append_headers append_ok (cd_request_properties d) None of (ok, hs) \<Rightarrow> (ok, d\<lparr>cd_request_headers := hs\<rparr>)))"

section \<open>Opening\<close>

definition SetCurlOption :: "(curl_option \<Rightarrow> bool) \<Rightarrow> curl_option \<Rightarrow> curl_data_source \<Rightarrow> bool \<times> curl_data_source" where
  "SetCurlOption setopt opt d = (if setopt opt then (True, d\<lparr>cd_easy := cd_easy d @ [opt]\<rparr>) else (False, d))"

text \<open>Options in the order they are set; the flag says whether to continue without the option.\<close>

fun set_options :: "(curl_option \<Rightarrow> bool) \<Rightarrow> (bool \<times> curl_option) list \<Rightarrow> curl_data_source \<Rightarrow> bool \<times> curl_data_source" where
  "set_options setopt [] d = (True, d)"
| "set_options setopt ((go_on, opt) # opts) d =
     (case SetCurlOption setopt opt d of (ok, d1) \<Rightarrow> if ok \<or> go_on then set_options setopt opts d1 else (False, d1))"

definition general_options :: "(bool \<times> curl_option) list" where
  "general_options =
     [(True, CURLOPT_NOSIGNAL), (True, CURLOPT_ERRORBUFFER), (False, CURLOPT_PROTOCOLS), (False, CURLOPT_REDIR_PROTOCOLS),
      (True, CURLOPT_AUTOREFERER), (True, CURLOPT_FOLLOWLOCATION)]"

definition callback_options :: "(bool \<times> curl_option) list" where
  "callback_options =
     [(False, CURLOPT_PRIVATE), (False, CURLOPT_WRITEFUNCTION), (False, CURLOPT_WRITEDATA), (False, CURLOPT_HEADERFUNCTION),
      (False, CURLOPT_HEADERDATA)]"

definition post_options :: "data_spec \<Rightarrow> (bool \<times> curl_option) list" where
  "post_options spec =
     (case ds_post_body spec of
        None \<Rightarrow> []
      | Some b \<Rightarrow> [(False, CURLOPT_POSTFIELDS b), (False, CURLOPT_POSTFIELDSIZE (length b))])"

definition to_string :: "int \<Rightarrow> string" where
  "to_string i = (if i < 0 then ''-'' @ decimal (nat (- i)) else decimal (nat i))"

definition range_request :: "data_spec \<Rightarrow> string" where
  "range_request spec =
     to_string (ds_position spec) @ ''-'' @
     (if ds_length spec \<noteq> LENGTH_UNBOUNDED then to_string (ds_position spec + ds_length spec - 1) else [])"

definition set_range :: "(curl_option \<Rightarrow> bool) \<Rightarrow> data_spec \<Rightarrow> curl_data_source \<Rightarrow> curl_data_source" where
  "set_range setopt spec d =
     (if \<not> (ds_position spec = 0 \<and> ds_length spec = LENGTH_UNBOUNDED)
      then (snd (SetCurlOption setopt (CURLOPT_RANGE (range_request spec)) d))\<lparr>cd_is_range_request := True\<rparr>
      else d\<lparr>cd_is_range_request := False\<rparr>)"

definition or_fail :: "bool \<times> curl_data_source \<Rightarrow> (curl_data_source \<Rightarrow> bool \<times> curl_data_source) \<Rightarrow> bool \<times> curl_data_source" where
  "or_fail r f = (case r of (ok, d) \<Rightarrow> if ok then f d else (False, DataSourceError HTTP_IO_ERROR d))"

text \<open>The part of \<open>Open\<close> that prepares the request, from the options to the cancellation flag.\<close>

definition prepare_request ::
  "(curl_option \<Rightarrow> bool) \<Rightarrow> (string list \<Rightarrow> string \<Rightarrow> bool) \<Rightarrow> data_spec \<Rightarrow> bool \<Rightarrow> curl_data_source \<Rightarrow> bool \<times> curl_data_source" where
  "prepare_request setopt append_ok spec cancel d =
     or_fail (set_options setopt general_options d) (\<lambda>d1.
     or_fail (BuildRequestHeaders append_ok d1) (\<lambda>d2.
     or_fail (set_options setopt ((False, CURLOPT_HTTPHEADER (case cd_request_headers d2 of None \<Rightarrow> [] | Some hs \<Rightarrow> hs)) # callback_options) d2) (\<lambda>d3.
     or_fail (set_options setopt ((False, CURLOPT_URL (ds_uri spec)) # post_options spec) (d3\<lparr>cd_uri := ds_uri spec\<rparr>)) (\<lambda>d4.
       (True, (set_range setopt spec d4)\<lparr>cd_is_http := starts_with_word ''http:'' (ds_uri spec) \<or> starts_with_word ''https:'' (ds_uri spec),
                cd_cancel := cancel\<rparr>)))))"

definition loader_returns :: "loader_result \<Rightarrow> curl_system \<Rightarrow> curl_system" where
  "loader_returns r s = s\<lparr>cs_loader := Loader_Ready, cs_last := Some r\<rparr>"

text \<open>\<open>Open\<close> waits while another source holds the global lock, so it runs when the lock is free.\<close>

definition Open_begin ::
  "(curl_option \<Rightarrow> bool) \<Rightarrow> (string list \<Rightarrow> string \<Rightarrow> bool) \<Rightarrow> data_spec \<Rightarrow> bool \<Rightarrow> curl_system \<Rightarrow> curl_system" where
  "Open_begin setopt append_ok spec cancel s =
     (if cd_open (cs_source s) then loader_returns (Opened RESULT_IO_ERROR) (on_source (DataSourceError HTTP_IO_ERROR) s)
      else (let s1 = s\<lparr>cs_global_active := cs_global_active s \<or> cd_use_global_lock (cs_source s)\<rparr>
            in case prepare_request setopt append_ok spec cancel ((cs_source s1)\<lparr>cd_open := True\<rparr>) of
                 (False, d) \<Rightarrow> loader_returns (Opened RESULT_IO_ERROR) (s1\<lparr>cs_source := d\<rparr>)
               | (True, d) \<Rightarrow>
                   (let s2 = s1\<lparr>cs_source := d\<rparr>
                    in if cancel_requested s2
                       then loader_returns (Opened RESULT_IO_ERROR) (on_source (DataSourceError HTTP_IO_ERROR) (cancel_transfer s2))
                       else s2\<lparr>cs_source := d\<lparr>cd_active := True\<rparr>, cs_curl := Curl_Posted, cs_loader := Open_Waits_Headers, cs_last := None\<rparr>)))"

text \<open>After \<open>headers_done_\<close> was signalled.\<close>

definition Open_headers_done :: "curl_system \<Rightarrow> curl_system" where
  "Open_headers_done s =
     (if cancel_requested s then (cancel_transfer s)\<lparr>cs_loader := Open_Waits_Done\<rparr>
      else if cd_load_error (cs_source s) then loader_returns (Opened RESULT_IO_ERROR) s
      else loader_returns (Opened (cd_tentative_length (cs_source s))) s)"

definition Open_canceled :: "curl_system \<Rightarrow> curl_system" where
  "Open_canceled s = loader_returns (Opened RESULT_IO_ERROR) (on_source (DataSourceError HTTP_IO_ERROR) s)"

section \<open>Response headers\<close>

definition trim_leading :: "string \<Rightarrow> string" where
  "trim_leading s = dropWhile is_whitespace s"

definition trim_trailing :: "string \<Rightarrow> string" where
  "trim_trailing s = rev (dropWhile is_whitespace (rev s))"

text \<open>A line of the response; false when the transfer has failed already. The headers are kept in the order they arrive.\<close>

definition ProcessResponseHeader :: "string \<Rightarrow> curl_data_source \<Rightarrow> bool \<times> curl_data_source" where
  "ProcessResponseHeader header_line d =
     (if cd_load_error d then (False, d)
      else if StartsWith header_line ''HTTP/''
      then (True, d\<lparr>cd_end_of_headers := False, cd_headers_seen := True, cd_response_headers := []\<rparr>)
      else if header_line = [] then (True, d\<lparr>cd_end_of_headers := True\<rparr>)
      else if CHR '':'' \<notin> set header_line then (True, d)
      else (let key = takeWhile (\<lambda>c. c \<noteq> CHR '':'') header_line; v = drop (length key + 1) header_line
            in (True, d\<lparr>cd_response_headers := cd_response_headers d @ [(trim_trailing key, trim_leading v)]\<rparr>)))"

definition listen :: "transfer_event \<Rightarrow> curl_data_source \<Rightarrow> curl_data_source" where
  "listen e d = (if cd_listener d then d\<lparr>cd_heard := cd_heard d @ [e]\<rparr> else d)"

text \<open>\<open>content_length\<close> and \<open>code\<close> are what libcurl reports, \<open>None\<close> when it does not.\<close>

definition GetResponseCode :: "int option \<Rightarrow> curl_data_source \<Rightarrow> int" where
  "GetResponseCode code d = (if \<not> cd_active d then 0 else case code of None \<Rightarrow> 0 | Some c \<Rightarrow> c)"

definition ProcessHeadersComplete :: "int option \<Rightarrow> int option \<Rightarrow> curl_data_source \<Rightarrow> bool \<times> curl_data_source" where
  "ProcessHeadersComplete content_length code d =
     (let d1 = d\<lparr>cd_tentative_length := (case content_length of None \<Rightarrow> LENGTH_UNBOUNDED | Some n \<Rightarrow> if n > 0 then n else LENGTH_UNBOUNDED)\<rparr>;
          response_code = GetResponseCode code d1
      in if cd_is_http d1 \<and> (response_code < 200 \<or> response_code > 299) then (False, d1\<lparr>cd_http_error := HTTP_RESPONSE_CODE_ERROR\<rparr>)
         else if cd_is_http d1 \<and> response_code = 200 \<and> cd_is_range_request d1 then (False, d1\<lparr>cd_http_error := HTTP_CONTENT_TYPE_ERROR\<rparr>)
         else (True, (listen Transfer_Start d1)\<lparr>cd_headers_done := True\<rparr>))"

section \<open>The transfer\<close>

definition enqueue :: "byte list \<Rightarrow> curl_system \<Rightarrow> curl_system" where
  "enqueue piece s =
     (on_source (\<lambda>d. d\<lparr>cd_buffers := cd_buffers d @ [piece], cd_bytes_buffered := cd_bytes_buffered d + length piece\<rparr>) s)
       \<lparr>cs_received := cs_received s @ piece\<rparr>"

text \<open>
  The loop of \<open>ProcessBodyData\<close>, over the bytes that are not in the queue yet, until all are there, the transfer failed or
  there is no room. It is resumed after a wait, with \<open>buffer_was_empty\<close> false.
\<close>

function process_body :: "byte list \<Rightarrow> bool \<Rightarrow> curl_system \<Rightarrow> curl_system" where
  "process_body unread buffer_was_empty s =
     (let d = cs_source s
      in if unread = []
         then (if buffer_was_empty \<and> cd_buffers d \<noteq> [] \<and> \<not> cd_want_full_buffer d then signal_writer s else s)\<lparr>cs_curl := Curl_Performing False\<rparr>
         else if cd_load_error d then s\<lparr>cs_curl := Curl_Performing True\<rparr>
         else if GetBufferFree d > 0
         then (let write_size = min (length unread) (GetBufferFree d)
               in process_body (drop write_size unread) buffer_was_empty (enqueue (take write_size unread) s))
         else (if buffer_was_empty \<or> cd_want_full_buffer d then signal_writer s else s)
                \<lparr>cs_curl := Body_Waits unread, cs_curl_woken := False\<rparr>)"
  by pat_completeness auto
termination
  by (relation "measure (\<lambda>(unread, _, _). length unread)") auto

declare process_body.simps [simp del]

definition ProcessBodyData :: "byte list \<Rightarrow> curl_system \<Rightarrow> curl_system" where
  "ProcessBodyData buffer s =
     (if buffer = [] then s\<lparr>cs_curl := Curl_Performing False\<rparr>
      else (let s1 = (on_source (listen (Bytes_Transferred (length buffer))) s)\<lparr>cs_fed := cs_fed s @ buffer\<rparr>
            in process_body buffer (cd_buffers (cs_source s1) = []) s1))"

definition CurlWriteCallback :: "int option \<Rightarrow> int option \<Rightarrow> byte list \<Rightarrow> curl_system \<Rightarrow> curl_system" where
  "CurlWriteCallback content_length code buffer s =
     (if cancel_requested s then (cancel_transfer s)\<lparr>cs_curl := Curl_Performing True\<rparr>
      else if cd_headers_done (cs_source s) then ProcessBodyData buffer s
      else (case ProcessHeadersComplete content_length code (cs_source s) of
              (False, d) \<Rightarrow> s\<lparr>cs_source := d, cs_curl := Curl_Performing True\<rparr>
            | (True, d) \<Rightarrow> ProcessBodyData buffer (s\<lparr>cs_source := d\<rparr>)))"

definition CurlHeaderCallback :: "string \<Rightarrow> curl_system \<Rightarrow> curl_system" where
  "CurlHeaderCallback header s =
     (if cancel_requested s then (cancel_transfer s)\<lparr>cs_curl := Curl_Performing True\<rparr>
      else (case ProcessResponseHeader (TrimString header) (cs_source s) of
              (ok, d) \<Rightarrow> s\<lparr>cs_source := d, cs_curl := Curl_Performing (\<not> ok)\<rparr>))"

text \<open>The end of \<open>CurlPerform\<close>, once nothing is left to be read or the transfer failed.\<close>

definition perform_done :: "curl_system \<Rightarrow> curl_system" where
  "perform_done s = (signal_writer (on_source (\<lambda>d. d\<lparr>cd_headers_done := True, cd_curl_done := True\<rparr>) s))\<lparr>cs_curl := Curl_Idle\<rparr>"

definition drain :: "curl_system \<Rightarrow> curl_system" where
  "drain s =
     (if cd_buffers (cs_source s) \<noteq> [] \<and> \<not> cd_load_error (cs_source s) then s\<lparr>cs_curl := Drain_Waits, cs_curl_woken := False\<rparr>
      else perform_done s)"

text \<open>\<open>ok\<close>: \<open>curl_easy_perform\<close> returned \<open>CURLE_OK\<close>.\<close>

definition CurlPerform_result :: "bool \<Rightarrow> curl_system \<Rightarrow> curl_system" where
  "CurlPerform_result ok s =
     (let s1 = on_source (\<lambda>d. if cd_headers_done d then listen Transfer_End d else d\<lparr>cd_tentative_length := 0\<rparr>) s
      in if \<not> ok then perform_done (on_source (\<lambda>d. d\<lparr>cd_load_error := True\<rparr>) s1)
         else drain (signal_writer (on_source (\<lambda>d. d\<lparr>cd_eof := True\<rparr>) s1)))"

section \<open>Reading\<close>

text \<open>
  The loop that copies: how much is still wanted, the position in the first buffer, the count of buffered bytes and the
  buffers. The result says whether a buffer was released.
\<close>

fun copy_out :: "nat \<Rightarrow> nat \<Rightarrow> nat \<Rightarrow> byte list list \<Rightarrow> (byte list \<times> bool \<times> nat \<times> nat \<times> byte list list) result" where
  "copy_out n pos cnt [] = (if n = 0 then Inr ([], False, pos, cnt, []) else Inl Undefined_access)"
| "copy_out n pos cnt (b # bs) =
     (if n = 0 then Inr ([], False, pos, cnt, b # bs)
      else if pos > length b then Inl Undefined_access
      else (let k = min n (length b - pos)
            in if pos + k = length b
               then and_then (copy_out (n - k) 0 (size_minus cnt (length b)) bs) (\<lambda>(out, _, r). Inr (take k (drop pos b) @ out, True, r))
               else Inr (take k (drop pos b), False, pos + k, cnt, b # bs)))"

text \<open>\<open>Read\<close> under the lock, also when it is resumed after a wait.\<close>

definition read_locked :: "nat \<Rightarrow> curl_system \<Rightarrow> curl_system result" where
  "read_locked read_length s =
     (let d = cs_source s
      in if \<not> cd_load_error d \<and> \<not> cd_eof d \<and> cd_buffers d = [] then Inr (s\<lparr>cs_loader := Read_Waits read_length, cs_loader_woken := False, cs_last := None\<rparr>)
         else if cd_load_error d then Inr (loader_returns (Got RESULT_IO_ERROR []) s)
         else if cd_buffers d = [] \<and> cd_eof d then Inr (loader_returns (Got RESULT_END_OF_INPUT []) s)
         else and_then (copy_out (min read_length (GetReadable d)) (cd_buffer_head_pos d) (cd_bytes_buffered d) (cd_buffers d))
                (\<lambda>(out, released, pos, cnt, bufs).
                  (let s1 = on_source (\<lambda>d. d\<lparr>cd_buffer_head_pos := pos, cd_bytes_buffered := cnt, cd_buffers := bufs,
                                              cd_bytes_read := cd_bytes_read d + length out\<rparr>) s;
                       s2 = (if released then signal_reader s1 else s1)
                   in Inr (loader_returns (Got (int (length out)) out) (s2\<lparr>cs_delivered := cs_delivered s2 @ out\<rparr>)))))"

definition CurlDataSource_Read :: "nat \<Rightarrow> curl_system \<Rightarrow> curl_system result" where
  "CurlDataSource_Read read_length s =
     (if read_length = 0 then Inr (loader_returns (Got 0 []) s) else read_locked (min read_length (2 ^ 63 - 1)) s)"

text \<open>\<open>ReadAllToString\<close> under the lock. Its buffers are appended whole.\<close>

definition read_all_locked :: "nat \<Rightarrow> curl_system \<Rightarrow> curl_system" where
  "read_all_locked max_length s =
     (let d = cs_source s
      in if cd_bytes_buffered d < max_length \<and> \<not> cd_eof d \<and> \<not> cd_load_error d
         then s\<lparr>cs_loader := Read_All_Waits max_length, cs_loader_woken := False, cs_last := None\<rparr>
         else if cd_load_error d \<or> \<not> cd_eof d then loader_returns (Got_All []) s
         else (let out = concat (cd_buffers d);
                   s1 = on_source (\<lambda>d. d\<lparr>cd_buffers := [], cd_bytes_read := cd_bytes_read d + cd_bytes_buffered d,
                                           cd_buffer_head_pos := 0, cd_bytes_buffered := 0\<rparr>) s
               in loader_returns (Got_All out) (signal_reader (s1\<lparr>cs_delivered := cs_delivered s1 @ out\<rparr>))))"

definition ReadAllToString :: "nat \<Rightarrow> curl_system \<Rightarrow> curl_system" where
  "ReadAllToString max_length0 s =
     (let d = cs_source s; max_length = (if max_length0 = 0 then cd_max_buffer_size d else max_length0)
      in if max_length > cd_max_buffer_size d \<or> \<not> cd_active d then loader_returns (Got_All []) s
         else read_all_locked max_length (on_source (\<lambda>d. d\<lparr>cd_want_full_buffer := True\<rparr>) s))"

section \<open>Closing\<close>

definition reset_request :: "curl_data_source \<Rightarrow> curl_data_source" where
  "reset_request d =
     d\<lparr>cd_open := False, cd_active := False, cd_cancel := False, cd_is_http := False, cd_is_range_request := False, cd_uri := [],
       cd_easy := [], cd_load_error := False, cd_eof := False, cd_headers_seen := False, cd_end_of_headers := True,
       cd_want_full_buffer := False, cd_bytes_buffered := 0, cd_buffer_head_pos := 0, cd_buffers := [], cd_curl_done := False,
       cd_headers_done := False, cd_tentative_length := LENGTH_UNBOUNDED, cd_response_headers := [], cd_bytes_read := 0,
       cd_http_error := HTTP_OK\<rparr>"

definition Close_finish :: "curl_system \<Rightarrow> curl_system" where
  "Close_finish s =
     loader_returns Closed
       ((on_source reset_request s)\<lparr>cs_global_active := cs_global_active s \<and> \<not> (cd_open (cs_source s) \<and> cd_use_global_lock (cs_source s)),
                                    cs_fed := [], cs_received := [], cs_delivered := []\<rparr>)"

definition Close_begin :: "curl_system \<Rightarrow> curl_system" where
  "Close_begin s =
     (if cd_active (cs_source s)
      then (signal_reader (on_source (\<lambda>d. d\<lparr>cd_load_error := True\<rparr>) s))\<lparr>cs_loader := Close_Waits, cs_last := None\<rparr>
      else Close_finish s)"

end
