(* ===== verification/Curl_Properties.thy ===== *)
theory Curl_Properties
  imports Curl_Data_Source
begin

text \<open>
  The transfers of \<open>Curl_Data_Source\<close> as a step relation over the calls of the loading thread, libcurl's thread and the
  threads around them, its invariant in every interleaving, and what it says about what is read.
\<close>

section \<open>Steps\<close>

definition curl_start :: "bool \<Rightarrow> bool \<Rightarrow> nat \<Rightarrow> curl_system" where
  "curl_start listener use_global_lock max_buffer_size =
     \<lparr>cs_source = CurlDataSource_new listener use_global_lock max_buffer_size, cs_loader = Loader_Ready, cs_loader_woken = False,
      cs_last = None, cs_curl = Curl_Idle, cs_curl_woken = False, cs_cancel_set = False, cs_global_active = False,
      cs_fed = [], cs_received = [], cs_delivered = []\<rparr>"

text \<open>
  \<open>spurious\<close> says whether a wait may end without having been woken. The cancellation flag is set by another thread, and may be
  another one while none is in use. Other sources change the global lock while this one does not hold it.
\<close>

inductive curl_step :: "bool \<Rightarrow> curl_system \<Rightarrow> curl_system \<Rightarrow> bool" for spurious where
  properties_changed: "cs_loader s = Loader_Ready \<Longrightarrow> f \<in> {SetRequestProperty name v, ClearRequestProperty name, ClearAllRequestProperties} \<Longrightarrow>
    curl_step spurious s (on_source f s)"
| open_called: "cs_loader s = Loader_Ready \<Longrightarrow>
    cd_open (cs_source s) \<or> \<not> cd_use_global_lock (cs_source s) \<or> \<not> cs_global_active s \<Longrightarrow>
    curl_step spurious s (Open_begin setopt append_ok spec cancel s)"
| headers_arrived: "cs_loader s = Open_Waits_Headers \<Longrightarrow> cd_headers_done (cs_source s) \<Longrightarrow> curl_step spurious s (Open_headers_done s)"
| canceled: "cs_loader s = Open_Waits_Done \<Longrightarrow> cd_curl_done (cs_source s) \<Longrightarrow> curl_step spurious s (Open_canceled s)"
| read_called: "cs_loader s = Loader_Ready \<Longrightarrow> CurlDataSource_Read n s = Inr s' \<Longrightarrow> curl_step spurious s s'"
| read_woken: "cs_loader s = Read_Waits n \<Longrightarrow> cs_loader_woken s \<or> spurious \<Longrightarrow> read_locked n s = Inr s' \<Longrightarrow> curl_step spurious s s'"
| read_all_called: "cs_loader s = Loader_Ready \<Longrightarrow> cd_bytes_read (cs_source s) = 0 \<Longrightarrow> curl_step spurious s (ReadAllToString n s)"
| read_all_woken: "cs_loader s = Read_All_Waits n \<Longrightarrow> cs_loader_woken s \<or> spurious \<Longrightarrow> curl_step spurious s (read_all_locked n s)"
| close_called: "cs_loader s = Loader_Ready \<Longrightarrow> curl_step spurious s (Close_begin s)"
| close_done: "cs_loader s = Close_Waits \<Longrightarrow> cd_curl_done (cs_source s) \<Longrightarrow> curl_step spurious s (Close_finish s)"
| perform: "cs_curl s = Curl_Posted \<Longrightarrow> curl_step spurious s (s\<lparr>cs_curl := Curl_Performing False\<rparr>)"
| header: "cs_curl s = Curl_Performing False \<Longrightarrow> curl_step spurious s (CurlHeaderCallback line s)"
| body: "cs_curl s = Curl_Performing False \<Longrightarrow> curl_step spurious s (CurlWriteCallback content_length code bytes s)"
| performed: "cs_curl s = Curl_Performing refused \<Longrightarrow> ok \<longrightarrow> \<not> refused \<Longrightarrow> curl_step spurious s (CurlPerform_result ok s)"
| body_woken: "cs_curl s = Body_Waits unread \<Longrightarrow> cs_curl_woken s \<or> spurious \<Longrightarrow> curl_step spurious s (process_body unread False s)"
| drain_woken: "cs_curl s = Drain_Waits \<Longrightarrow> cs_curl_woken s \<or> spurious \<Longrightarrow> curl_step spurious s (drain s)"
| flag: "b \<or> \<not> cd_cancel (cs_source s) \<Longrightarrow> curl_step spurious s (s\<lparr>cs_cancel_set := b\<rparr>)"
| other_sources: "\<not> (cd_open (cs_source s) \<and> cd_use_global_lock (cs_source s)) \<Longrightarrow> curl_step spurious s (s\<lparr>cs_global_active := b\<rparr>)"

definition curl_reachable :: "bool \<Rightarrow> bool \<Rightarrow> bool \<Rightarrow> nat \<Rightarrow> curl_system \<Rightarrow> bool" where
  "curl_reachable spurious listener use_global_lock max_buffer_size s \<longleftrightarrow>
     (curl_step spurious)\<^sup>*\<^sup>* (curl_start listener use_global_lock max_buffer_size) s"

section \<open>The queue\<close>

text \<open>The position lies in the first buffer.\<close>

definition head_ok :: "nat \<Rightarrow> byte list list \<Rightarrow> bool" where
  "head_ok pos bufs \<longleftrightarrow> [] \<notin> set bufs \<and> (case bufs of [] \<Rightarrow> pos = 0 | b # _ \<Rightarrow> pos < length b)"

lemma head_ok_le: "head_ok pos bufs \<Longrightarrow> pos \<le> length (concat bufs)"
  by (auto simp: head_ok_def split: list.splits)

lemma copy_out_ok:
  "head_ok pos bufs \<Longrightarrow> n \<le> length (concat bufs) - pos \<Longrightarrow>
   \<exists>rel pos' bufs'. copy_out n pos (length (concat bufs)) bufs =
       Inr (take n (drop pos (concat bufs)), rel, pos', length (concat bufs'), bufs') \<and>
     drop pos' (concat bufs') = drop (pos + n) (concat bufs) \<and> head_ok pos' bufs' \<and> pos' \<le> pos + n \<and>
     length (concat bufs') \<le> length (concat bufs)"
proof (induction bufs arbitrary: pos n)
  case Nil
  then show ?case by (auto simp: head_ok_def)
next
  case (Cons b bs)
  have pos: "pos < length b" "head_ok 0 bs" using Cons.prems(1) by (auto simp: head_ok_def split: list.split)
  show ?case
  proof (cases "n < length b - pos")
    case True
    then show ?thesis using Cons.prems(1) by (cases "n = 0") (auto simp: head_ok_def)
  next
    case False
    let ?k = "length b - pos"
    have "n - ?k \<le> length (concat bs) - 0" using Cons.prems(2) False by simp
    from Cons.IH [OF pos(2) this] obtain rel pos' bufs' where r:
      "copy_out (n - ?k) 0 (length (concat bs)) bs = Inr (take (n - ?k) (concat bs), rel, pos', length (concat bufs'), bufs')"
      "drop pos' (concat bufs') = drop (n - ?k) (concat bs)" "head_ok pos' bufs'" "pos' \<le> n - ?k" "length (concat bufs') \<le> length (concat bs)"
      by auto
    have "copy_out n pos (length (concat (b # bs))) (b # bs) =
        Inr (drop pos b @ take (n - ?k) (concat bs), True, pos', length (concat bufs'), bufs')"
      using r(1) pos(1) False by (simp add: Let_def size_minus_def min_absorb2)
    then show ?thesis using r pos(1) False by (auto simp del: copy_out.simps simp: add.commute)
  qed
qed

text \<open>What was received is what was delivered and what is still in the queue, which does not exceed its bound.\<close>

definition queue_ok :: "curl_system \<Rightarrow> bool" where
  "queue_ok s \<longleftrightarrow>
     (let d = cs_source s
      in head_ok (cd_buffer_head_pos d) (cd_buffers d) \<and> cd_bytes_buffered d = length (concat (cd_buffers d)) \<and>
         cd_bytes_buffered d \<le> cd_max_buffer_size d \<and> cs_received s = cs_delivered s @ drop (cd_buffer_head_pos d) (concat (cd_buffers d)) \<and>
         cd_bytes_read d = length (cs_delivered s) \<and> cd_buffer_head_pos d \<le> cd_bytes_read d)"

text \<open>Only these members matter for it.\<close>

definition queue_part :: "curl_data_source \<Rightarrow> _" where
  "queue_part d = (cd_buffer_head_pos d, cd_buffers d, cd_bytes_buffered d, cd_max_buffer_size d, cd_bytes_read d)"

lemma queue_ok_source [simp]: "queue_part d = queue_part (cs_source s) \<Longrightarrow> queue_ok (s\<lparr>cs_source := d\<rparr>) = queue_ok s"
  by (simp add: queue_ok_def queue_part_def Let_def)

lemma queue_ok_on_source [simp]: "queue_part (f (cs_source s)) = queue_part (cs_source s) \<Longrightarrow> queue_ok (on_source f s) = queue_ok s"
  by (simp add: on_source_def)

section \<open>The invariant\<close>

text \<open>Where the bytes are while libcurl's thread is at work, and when that thread is at work.\<close>

definition flow_ok :: "curl_system \<Rightarrow> bool" where
  "flow_ok s \<longleftrightarrow>
     (let d = cs_source s
      in (\<exists>u. cs_fed s = cs_received s @ u) \<and>
         (cs_curl s = Curl_Posted \<or> cs_curl s = Curl_Performing False \<longrightarrow> cs_fed s = cs_received s) \<and>
         (\<forall>u. cs_curl s = Body_Waits u \<longrightarrow> cs_fed s = cs_received s @ u) \<and>
         (cd_eof d \<longrightarrow> cs_fed s = cs_received s \<and> (cs_curl s = Drain_Waits \<or> cs_curl s = Curl_Idle)) \<and>
         (cd_active d \<longrightarrow> cd_open d \<and> (cd_curl_done d \<longleftrightarrow> cs_curl s = Curl_Idle)) \<and>
         (\<not> cd_active d \<longrightarrow> cs_curl s = Curl_Idle \<and> \<not> cd_curl_done d \<and> \<not> cd_eof d \<and> cs_fed s = []))"

text \<open>Who waits for libcurl's thread to finish has made sure that it does not wait itself.\<close>

fun place_waits :: "curl_place \<Rightarrow> bool" where
  "place_waits (Body_Waits u) = True"
| "place_waits Drain_Waits = True"
| "place_waits _ = False"

definition waiting_ok :: "curl_system \<Rightarrow> bool" where
  "waiting_ok s \<longleftrightarrow>
     (cs_loader s = Close_Waits \<or> cs_loader s = Open_Waits_Done \<longrightarrow>
        cd_active (cs_source s) \<and> cd_load_error (cs_source s) \<and> (place_waits (cs_curl s) \<longrightarrow> cs_curl_woken s)) \<and>
     (cs_loader s = Open_Waits_Headers \<longrightarrow> cd_active (cs_source s)) \<and>
     (\<forall>n. cs_loader s = Read_All_Waits n \<longrightarrow> cd_bytes_read (cs_source s) = 0)"

text \<open>The end of the input is reported when all is read, and the body is returned whole or not at all.\<close>

fun last_ok :: "loader_result option \<Rightarrow> bool \<Rightarrow> byte list list \<Rightarrow> byte list \<Rightarrow> bool" where
  "last_ok (Some (Got r out)) eof buffers delivered \<longleftrightarrow> (r = RESULT_END_OF_INPUT \<longrightarrow> eof \<and> buffers = [])"
| "last_ok (Some (Got_All out)) eof buffers delivered \<longleftrightarrow> (out \<noteq> [] \<longrightarrow> eof \<and> buffers = [] \<and> delivered = out)"
| "last_ok _ eof buffers delivered \<longleftrightarrow> True"

lemma last_ok_before_eof: "last_ok l False b d \<Longrightarrow> last_ok l e b' d'"
  by (cases "(l, False, b, d)" rule: last_ok.cases) auto

definition result_ok :: "curl_system \<Rightarrow> bool" where
  "result_ok s \<longleftrightarrow> last_ok (cs_last s) (cd_eof (cs_source s)) (cd_buffers (cs_source s)) (cs_delivered s)"

definition lock_ok :: "curl_system \<Rightarrow> bool" where
  "lock_ok s \<longleftrightarrow> (cd_open (cs_source s) \<and> cd_use_global_lock (cs_source s) \<longrightarrow> cs_global_active s)"

definition transfer_ok :: "curl_system \<Rightarrow> bool" where
  "transfer_ok s \<longleftrightarrow> queue_ok s \<and> flow_ok s \<and> waiting_ok s \<and> result_ok s \<and> lock_ok s"

lemmas transfer_defs = transfer_ok_def flow_ok_def waiting_ok_def result_ok_def lock_ok_def Let_def

section \<open>What operations leave alone\<close>

lemma on_source_simps [simp]:
  "cs_source (on_source f s) = f (cs_source s)" "cs_loader (on_source f s) = cs_loader s" "cs_loader_woken (on_source f s) = cs_loader_woken s"
  "cs_last (on_source f s) = cs_last s" "cs_curl (on_source f s) = cs_curl s" "cs_curl_woken (on_source f s) = cs_curl_woken s"
  "cs_cancel_set (on_source f s) = cs_cancel_set s" "cs_global_active (on_source f s) = cs_global_active s"
  "cs_fed (on_source f s) = cs_fed s" "cs_received (on_source f s) = cs_received s" "cs_delivered (on_source f s) = cs_delivered s"
  by (simp_all add: on_source_def)

lemma signal_writer_simps [simp]:
  "cs_source (signal_writer s) = cs_source s" "cs_loader (signal_writer s) = cs_loader s" "cs_last (signal_writer s) = cs_last s"
  "cs_curl (signal_writer s) = cs_curl s" "cs_curl_woken (signal_writer s) = cs_curl_woken s" "cs_cancel_set (signal_writer s) = cs_cancel_set s"
  "cs_global_active (signal_writer s) = cs_global_active s" "cs_fed (signal_writer s) = cs_fed s"
  "cs_received (signal_writer s) = cs_received s" "cs_delivered (signal_writer s) = cs_delivered s"
  by (simp_all add: signal_writer_def split: loader_place.split)

lemma signal_reader_simps [simp]:
  "cs_source (signal_reader s) = cs_source s" "cs_loader (signal_reader s) = cs_loader s" "cs_last (signal_reader s) = cs_last s"
  "cs_loader_woken (signal_reader s) = cs_loader_woken s" "cs_curl (signal_reader s) = cs_curl s" "cs_cancel_set (signal_reader s) = cs_cancel_set s"
  "cs_global_active (signal_reader s) = cs_global_active s" "cs_fed (signal_reader s) = cs_fed s"
  "cs_received (signal_reader s) = cs_received s" "cs_delivered (signal_reader s) = cs_delivered s"
  "cs_curl_woken (signal_reader s) \<longleftrightarrow> place_waits (cs_curl s) \<or> cs_curl_woken s"
  by (simp_all add: signal_reader_def split: curl_place.split)

definition transfer_fields :: "curl_data_source \<Rightarrow> _" where
  "transfer_fields d =
     (cd_use_global_lock d, cd_max_buffer_size d, cd_open d, cd_active d, cd_load_error d, cd_eof d, cd_bytes_buffered d,
      cd_buffer_head_pos d, cd_buffers d, cd_curl_done d, cd_bytes_read d)"

lemma transfer_fields_updates [simp]:
  "transfer_fields (d\<lparr>cd_easy := opts\<rparr>) = transfer_fields d" "transfer_fields (d\<lparr>cd_uri := uri\<rparr>) = transfer_fields d"
  "transfer_fields (d\<lparr>cd_is_range_request := b\<rparr>) = transfer_fields d" "transfer_fields (d\<lparr>cd_is_http := b, cd_cancel := b'\<rparr>) = transfer_fields d"
  "transfer_fields (d\<lparr>cd_http_error := e\<rparr>) = transfer_fields d" "transfer_fields (d\<lparr>cd_request_headers := hs\<rparr>) = transfer_fields d"
  by (simp_all add: transfer_fields_def)

lemma set_options_fields [simp]: "transfer_fields (snd (set_options setopt opts d)) = transfer_fields d"
  by (induction setopt opts d rule: set_options.induct) (simp_all add: SetCurlOption_def split del: if_split split: if_splits)

lemma or_fail_fields:
  assumes "transfer_fields (snd r) = x" "\<And>d. transfer_fields d = x \<Longrightarrow> transfer_fields (snd (f d)) = x"
  shows "transfer_fields (snd (or_fail r f)) = x"
  using assms by (cases r) (simp add: or_fail_def DataSourceError_def)

lemma prepare_request_fields: "transfer_fields (snd (prepare_request setopt append_ok spec cancel d)) = transfer_fields d"
  unfolding prepare_request_def
  by (intro or_fail_fields) (simp_all add: BuildRequestHeaders_def set_range_def SetCurlOption_def split: prod.split)

section \<open>The invariant is kept\<close>

lemma queue_ok_enqueue:
  assumes "queue_ok s" "piece \<noteq> []" "length piece \<le> GetBufferFree (cs_source s)"
  shows "queue_ok (enqueue piece s)"
proof -
  let ?d = "cs_source s"
  have q: "head_ok (cd_buffer_head_pos ?d) (cd_buffers ?d)" "cd_bytes_buffered ?d = length (concat (cd_buffers ?d))"
      "cd_bytes_buffered ?d \<le> cd_max_buffer_size ?d" "cs_received s = cs_delivered s @ drop (cd_buffer_head_pos ?d) (concat (cd_buffers ?d))"
      "cd_bytes_read ?d = length (cs_delivered s)" "cd_buffer_head_pos ?d \<le> cd_bytes_read ?d"
    using assms(1) by (simp_all add: queue_ok_def Let_def)
  have "head_ok (cd_buffer_head_pos ?d) (cd_buffers ?d @ [piece])"
    using q(1) assms(2) by (cases "cd_buffers ?d") (auto simp: head_ok_def)
  moreover have "cd_bytes_buffered ?d + length piece \<le> cd_max_buffer_size ?d"
    using q(3) assms(3) by (simp add: GetBufferFree_def size_minus_def)
  ultimately show ?thesis using q head_ok_le [OF q(1)] by (simp add: queue_ok_def enqueue_def Let_def)
qed

text \<open>A thread in the loop of \<open>ProcessBodyData\<close> is like one that waited there and was woken.\<close>

definition in_body :: "byte list \<Rightarrow> curl_system \<Rightarrow> curl_system" where
  "in_body unread s = s\<lparr>cs_curl := Body_Waits unread, cs_curl_woken := True\<rparr>"

lemma in_body_fields [simp]:
  "cs_source (in_body u s) = cs_source s" "cs_loader (in_body u s) = cs_loader s" "cs_last (in_body u s) = cs_last s"
  "cs_curl (in_body u s) = Body_Waits u" "cs_curl_woken (in_body u s)" "cs_global_active (in_body u s) = cs_global_active s"
  "cs_fed (in_body u s) = cs_fed s" "cs_received (in_body u s) = cs_received s" "cs_delivered (in_body u s) = cs_delivered s"
  by (simp_all add: in_body_def)

lemma queue_ok_simps [simp]:
  "queue_ok (in_body u s) = queue_ok s" "queue_ok (signal_writer s) = queue_ok s" "queue_ok (signal_reader s) = queue_ok s"
  "queue_ok (s\<lparr>cs_curl := p\<rparr>) = queue_ok s" "queue_ok (s\<lparr>cs_curl_woken := b\<rparr>) = queue_ok s" "queue_ok (s\<lparr>cs_loader := q\<rparr>) = queue_ok s"
  "queue_ok (s\<lparr>cs_loader_woken := b\<rparr>) = queue_ok s" "queue_ok (s\<lparr>cs_last := r\<rparr>) = queue_ok s" "queue_ok (s\<lparr>cs_fed := f\<rparr>) = queue_ok s"
  "queue_ok (s\<lparr>cs_cancel_set := b\<rparr>) = queue_ok s" "queue_ok (s\<lparr>cs_global_active := b\<rparr>) = queue_ok s"
  by (simp_all add: queue_ok_def)

lemma transfer_ok_signal_writer [simp]: "transfer_ok (signal_writer s) \<longleftrightarrow> transfer_ok s"
  by (simp add: transfer_defs)

lemma enqueue_fields [simp]:
  "cs_loader (enqueue p s) = cs_loader s" "cs_last (enqueue p s) = cs_last s" "cs_curl (enqueue p s) = cs_curl s"
  "cs_curl_woken (enqueue p s) = cs_curl_woken s" "cs_global_active (enqueue p s) = cs_global_active s" "cs_fed (enqueue p s) = cs_fed s"
  "cs_received (enqueue p s) = cs_received s @ p" "cs_delivered (enqueue p s) = cs_delivered s"
  "cd_load_error (cs_source (enqueue p s)) = cd_load_error (cs_source s)" "cd_eof (cs_source (enqueue p s)) = cd_eof (cs_source s)"
  "cd_active (cs_source (enqueue p s)) = cd_active (cs_source s)" "cd_open (cs_source (enqueue p s)) = cd_open (cs_source s)"
  "cd_curl_done (cs_source (enqueue p s)) = cd_curl_done (cs_source s)" "cd_bytes_read (cs_source (enqueue p s)) = cd_bytes_read (cs_source s)"
  "cd_use_global_lock (cs_source (enqueue p s)) = cd_use_global_lock (cs_source s)"
  by (simp_all add: enqueue_def)

lemma in_body_enqueue:
  assumes "transfer_ok (in_body u s)" "0 < n" "n \<le> length u" "n \<le> GetBufferFree (cs_source s)"
  shows "transfer_ok (in_body (drop n u) (enqueue (take n u) s))"
proof -
  have "queue_ok s" using assms(1) by (simp add: transfer_ok_def)
  then have "queue_ok (enqueue (take n u) s)" using assms(2-4) by (intro queue_ok_enqueue) auto
  then have "queue_ok (in_body (drop n u) (enqueue (take n u) s))" by simp
  moreover have "flow_ok (in_body (drop n u) (enqueue (take n u) s))"
    using assms(1) by (simp add: transfer_ok_def flow_ok_def Let_def) (metis append_take_drop_id)
  moreover have "result_ok (in_body (drop n u) (enqueue (take n u) s))"
    using assms(1) by (simp add: transfer_ok_def flow_ok_def result_ok_def Let_def) (metis last_ok_before_eof)
  ultimately show ?thesis using assms(1) by (simp add: transfer_ok_def waiting_ok_def lock_ok_def)
qed

lemma leave_body:
  assumes "transfer_ok (in_body u s)" "refused \<or> u = []"
  shows "transfer_ok (s\<lparr>cs_curl := Curl_Performing refused\<rparr>)"
  using assms by (auto simp: transfer_defs Let_def)

lemma wait_in_body:
  assumes "transfer_ok (in_body u s)" "\<not> cd_load_error (cs_source s)"
  shows "transfer_ok (s\<lparr>cs_curl := Body_Waits u, cs_curl_woken := False\<rparr>)"
  using assms by (auto simp: transfer_defs Let_def)

lemma signal_writer_update:
  "(signal_writer s)\<lparr>cs_curl := p\<rparr> = signal_writer (s\<lparr>cs_curl := p\<rparr>)" "(signal_writer s)\<lparr>cs_curl_woken := b\<rparr> = signal_writer (s\<lparr>cs_curl_woken := b\<rparr>)"
  by (simp_all add: signal_writer_def split: loader_place.split)

lemma process_body_ok: "transfer_ok (in_body u s) \<Longrightarrow> transfer_ok (process_body u e s)"
proof (induction u e s rule: process_body.induct)
  case (1 u e s)
  let ?d = "cs_source s"
  consider (all_there) "u = []" | (failed) "u \<noteq> []" "cd_load_error ?d" | (room) "u \<noteq> []" "\<not> cd_load_error ?d" "GetBufferFree ?d > 0"
    | (full) "u \<noteq> []" "\<not> cd_load_error ?d" "GetBufferFree ?d = 0" by blast
  then show ?case
  proof cases
    case room
    let ?n = "min (length u) (GetBufferFree ?d)"
    have "transfer_ok (process_body (drop ?n u) e (enqueue (take ?n u) s))"
      using room by (intro 1(1) in_body_enqueue 1(2)) auto
    then show ?thesis using room by (simp add: process_body.simps [of u] Let_def)
  next
    case full
    then show ?thesis using wait_in_body [OF 1(2)] by (simp add: process_body.simps [of u] Let_def signal_writer_update)
  qed (use leave_body [OF 1(2)] in \<open>simp_all add: process_body.simps [of u] process_body.simps [of Nil] Let_def signal_writer_update\<close>)
qed

text \<open>Members that do not matter for a transfer.\<close>

lemma transfer_ok_source:
  assumes "transfer_fields d = transfer_fields (cs_source s)"
  shows "transfer_ok (s\<lparr>cs_source := d\<rparr>) \<longleftrightarrow> transfer_ok s"
  using assms by (simp add: transfer_defs queue_part_def transfer_fields_def Let_def)

lemma transfer_ok_on_source: "transfer_fields (f (cs_source s)) = transfer_fields (cs_source s) \<Longrightarrow> transfer_ok (on_source f s) \<longleftrightarrow> transfer_ok s"
  unfolding on_source_def by (rule transfer_ok_source)

lemma transfer_ok_listen [simp]: "transfer_fields (listen e d) = transfer_fields d"
  by (simp add: listen_def transfer_fields_def)

lemma loader_returns_fields [simp]:
  "cs_source (loader_returns r s) = cs_source s" "cs_loader (loader_returns r s) = Loader_Ready" "cs_last (loader_returns r s) = Some r"
  "cs_curl (loader_returns r s) = cs_curl s" "cs_curl_woken (loader_returns r s) = cs_curl_woken s"
  "cs_global_active (loader_returns r s) = cs_global_active s" "cs_fed (loader_returns r s) = cs_fed s"
  "cs_received (loader_returns r s) = cs_received s" "cs_delivered (loader_returns r s) = cs_delivered s"
  "queue_ok (loader_returns r s) = queue_ok s"
  by (simp_all add: loader_returns_def)

lemma loader_returns_ok:
  assumes "transfer_ok s" "result_ok (loader_returns r s)"
  shows "transfer_ok (loader_returns r s)"
  using assms by (simp add: transfer_defs)

lemma returns_Opened [simp]: "result_ok (loader_returns (Opened n) s)" "result_ok (loader_returns Closed s)"
  by (simp_all add: result_ok_def)

lemma cancel_transfer_fields [simp]:
  "cs_loader (cancel_transfer s) = cs_loader s" "cs_last (cancel_transfer s) = cs_last s" "cs_curl (cancel_transfer s) = cs_curl s"
  "cs_curl_woken (cancel_transfer s) \<longleftrightarrow> place_waits (cs_curl s) \<or> cs_curl_woken s" "cs_source (cancel_transfer s) = (cs_source s)\<lparr>cd_load_error := True\<rparr>"
  by (simp_all add: cancel_transfer_def)

lemma transfer_ok_fail: "transfer_ok s \<Longrightarrow> transfer_ok (on_source (\<lambda>d. d\<lparr>cd_load_error := True\<rparr>) s)"
  by (simp add: transfer_defs queue_part_def Let_def)

lemma transfer_ok_signal_reader: "transfer_ok s \<Longrightarrow> transfer_ok (signal_reader s)"
  by (simp add: transfer_defs)

lemma transfer_ok_cancel: "transfer_ok s \<Longrightarrow> transfer_ok (cancel_transfer s)"
  by (simp add: cancel_transfer_def transfer_ok_fail transfer_ok_signal_reader)

lemma Open_begin_ok:
  assumes ok: "transfer_ok s" and free: "cd_open (cs_source s) \<or> \<not> cd_use_global_lock (cs_source s) \<or> \<not> cs_global_active s"
  shows "transfer_ok (Open_begin setopt append_ok spec cancel s)"
proof (cases "cd_open (cs_source s)")
  case True
  then show ?thesis using ok by (simp add: Open_begin_def loader_returns_ok transfer_ok_on_source DataSourceError_def)
next
  case False
  let ?d = "(cs_source s)\<lparr>cd_open := True\<rparr>" and ?s = "s\<lparr>cs_global_active := cs_global_active s \<or> cd_use_global_lock (cs_source s)\<rparr>"
  obtain prepared d where p: "prepare_request setopt append_ok spec cancel ?d = (prepared, d)" by fastforce
  then have fields: "transfer_fields d = transfer_fields ?d" using prepare_request_fields [of setopt append_ok spec cancel ?d] by simp
  have "transfer_ok (?s\<lparr>cs_source := ?d\<rparr>)" using ok False by (auto simp: transfer_defs queue_part_def Let_def)
  moreover have "transfer_ok (?s\<lparr>cs_source := d\<rparr>) \<longleftrightarrow> transfer_ok (?s\<lparr>cs_source := ?d\<rparr>)"
    using transfer_ok_source [of d "?s\<lparr>cs_source := ?d\<rparr>"] fields by simp
  ultimately have opened: "transfer_ok (?s\<lparr>cs_source := d\<rparr>)" by simp
  let ?t = "?s\<lparr>cs_source := d\<lparr>cd_active := True\<rparr>, cs_curl := Curl_Posted, cs_loader := Open_Waits_Headers, cs_last := None\<rparr>"
  have idle: "\<not> cd_active d" "cd_open d" "cs_fed s = []" "cs_received s = []" "\<not> cd_eof d" "\<not> cd_curl_done d"
    using ok False fields by (auto simp: transfer_fields_def transfer_ok_def flow_ok_def Let_def)
  moreover have "queue_ok ?t = queue_ok (?s\<lparr>cs_source := d\<rparr>)" by (simp add: queue_ok_def)
  ultimately have "transfer_ok ?t" using opened by (simp add: transfer_defs)
  then show ?thesis using False p opened
    by (cases prepared) (simp_all add: Open_begin_def Let_def loader_returns_ok transfer_ok_on_source DataSourceError_def transfer_ok_cancel)
qed

lemma Open_headers_done_ok:
  assumes "transfer_ok s" "cs_loader s = Open_Waits_Headers"
  shows "transfer_ok (Open_headers_done s)"
proof -
  have "cd_active (cs_source s)" using assms by (simp add: transfer_ok_def waiting_ok_def)
  then have "transfer_ok ((cancel_transfer s)\<lparr>cs_loader := Open_Waits_Done\<rparr>)"
    using transfer_ok_cancel [OF assms(1)] by (simp add: transfer_defs)
  then show ?thesis using assms by (simp add: Open_headers_done_def loader_returns_ok)
qed

lemma Open_canceled_ok: "transfer_ok s \<Longrightarrow> transfer_ok (Open_canceled s)"
  by (simp add: Open_canceled_def loader_returns_ok transfer_ok_on_source DataSourceError_def)

lemma read_locked_ok:
  assumes ok: "transfer_ok s"
  shows "\<exists>s'. read_locked n s = Inr s' \<and> transfer_ok s'"
proof -
  let ?d = "cs_source s"
  consider (wait) "\<not> cd_load_error ?d" "\<not> cd_eof ?d" "cd_buffers ?d = []" | (failed) "cd_load_error ?d"
    | (finished) "\<not> cd_load_error ?d" "cd_eof ?d" "cd_buffers ?d = []" | (data) "\<not> cd_load_error ?d" "cd_buffers ?d \<noteq> []" by blast
  then show ?thesis
  proof cases
    case wait
    then show ?thesis using ok by (simp add: read_locked_def transfer_defs)
  next
    case failed
    then show ?thesis using ok by (simp add: read_locked_def loader_returns_ok result_ok_def RESULT_IO_ERROR_def RESULT_END_OF_INPUT_def)
  next
    case finished
    then show ?thesis using ok by (simp add: read_locked_def loader_returns_ok result_ok_def)
  next
    case data
    let ?pos = "cd_buffer_head_pos ?d" and ?c = "concat (cd_buffers ?d)"
    let ?n = "min n (GetReadable ?d)"
    have q: "head_ok ?pos (cd_buffers ?d)" "cd_bytes_buffered ?d = length ?c" "cd_bytes_buffered ?d \<le> cd_max_buffer_size ?d"
        "cs_received s = cs_delivered s @ drop ?pos ?c" "cd_bytes_read ?d = length (cs_delivered s)" "?pos \<le> cd_bytes_read ?d"
      using ok by (simp_all add: transfer_ok_def queue_ok_def Let_def)
    have "?n \<le> length ?c - ?pos" using q(2) head_ok_le [OF q(1)] by (simp add: GetReadable_def size_minus_def)
    from copy_out_ok [OF q(1) this] obtain rel pos' bufs' where c:
      "copy_out ?n ?pos (length ?c) (cd_buffers ?d) = Inr (take ?n (drop ?pos ?c), rel, pos', length (concat bufs'), bufs')"
      "drop pos' (concat bufs') = drop (?pos + ?n) ?c" "head_ok pos' bufs'" "pos' \<le> ?pos + ?n" "length (concat bufs') \<le> length ?c" by blast
    let ?out = "take ?n (drop ?pos ?c)"
    let ?s1 = "on_source (\<lambda>d. d\<lparr>cd_buffer_head_pos := pos', cd_bytes_buffered := length (concat bufs'), cd_buffers := bufs',
        cd_bytes_read := cd_bytes_read d + length ?out\<rparr>) s"
    let ?s = "(if rel then signal_reader ?s1 else ?s1)\<lparr>cs_delivered := cs_delivered s @ ?out\<rparr>"
    have len: "length ?out = ?n" using \<open>?n \<le> length ?c - ?pos\<close> by simp
    have "drop ?pos ?c = ?out @ drop pos' (concat bufs')" unfolding c(2) by (metis append_take_drop_id drop_drop add.commute)
    then have "queue_ok ?s" using c(3-5) q len by (simp add: queue_ok_def Let_def)
    then have "transfer_ok (loader_returns (Got (int (length ?out)) ?out) ?s)"
      using ok by (simp add: transfer_defs RESULT_END_OF_INPUT_def)
    moreover have "read_locked n s = Inr (loader_returns (Got (int (length ?out)) ?out) ?s)"
      using data c(1) q(2) by (simp add: read_locked_def Let_def)
    ultimately show ?thesis by blast
  qed
qed

lemma Read_ok: "transfer_ok s \<Longrightarrow> \<exists>s'. CurlDataSource_Read n s = Inr s' \<and> transfer_ok s'"
  by (simp add: CurlDataSource_Read_def read_locked_ok loader_returns_ok result_ok_def RESULT_END_OF_INPUT_def)

lemma read_all_locked_ok:
  assumes ok: "transfer_ok s" and unread: "cd_bytes_read (cs_source s) = 0"
  shows "transfer_ok (read_all_locked n s)"
proof -
  let ?d = "cs_source s"
  let ?out = "concat (cd_buffers ?d)"
  let ?s1 = "on_source (\<lambda>d. d\<lparr>cd_buffers := [], cd_bytes_read := cd_bytes_read d + cd_bytes_buffered d, cd_buffer_head_pos := 0,
      cd_bytes_buffered := 0\<rparr>) s"
  let ?s = "loader_returns (Got_All ?out) (signal_reader (?s1\<lparr>cs_delivered := cs_delivered ?s1 @ ?out\<rparr>))"
  have q: "cs_delivered s = []" "cd_buffer_head_pos ?d = 0" "cd_bytes_buffered ?d = length ?out" "cs_received s = ?out"
    using ok unread by (simp_all add: transfer_ok_def queue_ok_def Let_def)
  then have "queue_ok ?s" using unread by (simp add: queue_ok_def Let_def head_ok_def)
  then have done_ok: "transfer_ok ?s" if "cd_eof ?d" using ok that q(1) by (clarsimp simp: transfer_defs)
  have "transfer_ok (s\<lparr>cs_loader := Read_All_Waits n, cs_loader_woken := False, cs_last := None\<rparr>)"
    using ok unread by (simp add: transfer_defs)
  moreover have "transfer_ok (loader_returns (Got_All []) s)" using ok by (simp add: loader_returns_ok result_ok_def)
  ultimately show ?thesis using done_ok by (simp add: read_all_locked_def Let_def)
qed

lemma ReadAllToString_ok:
  assumes "transfer_ok s" "cd_bytes_read (cs_source s) = 0"
  shows "transfer_ok (ReadAllToString n s)"
proof -
  let ?s = "on_source (\<lambda>d. d\<lparr>cd_want_full_buffer := True\<rparr>) s"
  have "transfer_ok ?s" using assms(1) by (simp add: transfer_ok_on_source transfer_fields_def)
  then have "transfer_ok (read_all_locked k ?s)" for k using assms(2) by (intro read_all_locked_ok) simp_all
  then show ?thesis using assms(1) by (simp add: ReadAllToString_def Let_def loader_returns_ok result_ok_def)
qed

lemma Close_finish_ok:
  assumes "transfer_ok s" "cs_curl s = Curl_Idle"
  shows "transfer_ok (Close_finish s)"
  using assms by (simp add: Close_finish_def transfer_defs queue_ok_def reset_request_def head_ok_def)

lemma Close_begin_ok:
  assumes "transfer_ok s"
  shows "transfer_ok (Close_begin s)"
proof (cases "cd_active (cs_source s)")
  case True
  then show ?thesis using transfer_ok_signal_reader [OF transfer_ok_fail [OF assms]] by (simp add: Close_begin_def transfer_defs)
next
  case False
  then have "cs_curl s = Curl_Idle" using assms by (simp add: transfer_ok_def flow_ok_def Let_def)
  then show ?thesis using False assms by (simp add: Close_begin_def Close_finish_ok)
qed

lemma performing_active:
  assumes "transfer_ok s" "cs_curl s \<noteq> Curl_Idle"
  shows "cd_active (cs_source s)" "cd_open (cs_source s)" "\<not> cd_curl_done (cs_source s)"
  using assms by (auto simp: transfer_ok_def flow_ok_def Let_def)

lemma refuse_ok: "transfer_ok s \<Longrightarrow> cs_curl s = Curl_Performing r \<Longrightarrow> transfer_ok (s\<lparr>cs_curl := Curl_Performing True\<rparr>)"
  by (clarsimp simp: transfer_defs)

lemma ProcessHeadersComplete_fields: "transfer_fields (snd (ProcessHeadersComplete len code d)) = transfer_fields d"
  by (simp add: ProcessHeadersComplete_def Let_def transfer_fields_def listen_def)

lemma ProcessResponseHeader_fields: "transfer_fields (snd (ProcessResponseHeader line d)) = transfer_fields d"
  by (simp add: ProcessResponseHeader_def Let_def transfer_fields_def)

lemma CurlHeaderCallback_ok:
  assumes ok: "transfer_ok s" and at: "cs_curl s = Curl_Performing False"
  shows "transfer_ok (CurlHeaderCallback line s)"
proof -
  obtain taken d where p: "ProcessResponseHeader (TrimString line) (cs_source s) = (taken, d)" by fastforce
  have "transfer_ok (s\<lparr>cs_source := d\<rparr>)" using ok p ProcessResponseHeader_fields [of "TrimString line" "cs_source s"] by (simp add: transfer_ok_source)
  then have "transfer_ok (s\<lparr>cs_source := d, cs_curl := Curl_Performing (\<not> taken)\<rparr>)"
    using refuse_ok [of "s\<lparr>cs_source := d\<rparr>" False] at by (cases taken) (clarsimp simp: transfer_defs)+
  moreover have "transfer_ok ((cancel_transfer s)\<lparr>cs_curl := Curl_Performing True\<rparr>)"
    using transfer_ok_cancel [OF ok] at by (intro refuse_ok [of _ False]) simp_all
  ultimately show ?thesis using p by (simp add: CurlHeaderCallback_def)
qed

lemma ProcessBodyData_ok:
  assumes ok: "transfer_ok s" and at: "cs_curl s = Curl_Performing False"
  shows "transfer_ok (ProcessBodyData buffer s)"
proof (cases "buffer = []")
  case True
  then show ?thesis using ok at by (clarsimp simp: ProcessBodyData_def transfer_defs)
next
  case False
  let ?s = "(on_source (listen (Bytes_Transferred (length buffer))) s)\<lparr>cs_fed := cs_fed s @ buffer\<rparr>"
  let ?t = "on_source (listen (Bytes_Transferred (length buffer))) s"
  have heard: "transfer_ok ?t" using ok by (simp add: transfer_ok_on_source)
  then have "transfer_ok (in_body buffer ?s)" using at performing_active [OF heard] by (clarsimp simp: transfer_defs)
  then show ?thesis using False by (simp add: ProcessBodyData_def Let_def process_body_ok)
qed

lemma CurlWriteCallback_ok:
  assumes ok: "transfer_ok s" and at: "cs_curl s = Curl_Performing False"
  shows "transfer_ok (CurlWriteCallback len code buffer s)"
proof -
  obtain fine d where p: "ProcessHeadersComplete len code (cs_source s) = (fine, d)" by fastforce
  have "transfer_ok (s\<lparr>cs_source := d\<rparr>)" using ok p ProcessHeadersComplete_fields [of len code "cs_source s"] by (simp add: transfer_ok_source)
  then have "transfer_ok (ProcessBodyData buffer (s\<lparr>cs_source := d\<rparr>))" "transfer_ok (s\<lparr>cs_source := d, cs_curl := Curl_Performing True\<rparr>)"
    using at refuse_ok [of "s\<lparr>cs_source := d\<rparr>" False] by (simp_all add: ProcessBodyData_ok)
  moreover have "transfer_ok ((cancel_transfer s)\<lparr>cs_curl := Curl_Performing True\<rparr>)"
    using transfer_ok_cancel [OF ok] at by (intro refuse_ok [of _ False]) simp_all
  ultimately show ?thesis using p at ok by (cases fine) (simp_all add: CurlWriteCallback_def ProcessBodyData_ok)
qed

lemma perform_done_ok:
  assumes "transfer_ok s" "cs_curl s \<noteq> Curl_Idle"
  shows "transfer_ok (perform_done s)"
proof -
  let ?s = "on_source (\<lambda>d. d\<lparr>cd_headers_done := True, cd_curl_done := True\<rparr>) s"
  have "transfer_ok (?s\<lparr>cs_curl := Curl_Idle\<rparr>)"
    using assms performing_active [OF assms] by (clarsimp simp: transfer_defs queue_part_def)
  then show ?thesis by (simp add: perform_done_def signal_writer_update)
qed

text \<open>Also for a thread that has not waited yet.\<close>

definition at_drain :: "curl_system \<Rightarrow> curl_system" where
  "at_drain s = s\<lparr>cs_curl := Drain_Waits, cs_curl_woken := True\<rparr>"

lemma drain_ok:
  assumes "transfer_ok (at_drain s)"
  shows "transfer_ok (drain s)"
proof -
  have "transfer_ok (s\<lparr>cs_curl := Drain_Waits, cs_curl_woken := False\<rparr>)" if "\<not> cd_load_error (cs_source s)"
    using assms that by (clarsimp simp: transfer_defs at_drain_def)
  moreover have "transfer_ok (perform_done s) \<longleftrightarrow> transfer_ok (perform_done (at_drain s))"
    by (simp add: perform_done_def signal_writer_update at_drain_def transfer_defs on_source_def queue_ok_def)
  ultimately show ?thesis using perform_done_ok [OF assms] by (simp add: drain_def at_drain_def)
qed

lemma CurlPerform_result_ok:
  assumes ok: "transfer_ok s" and at: "cs_curl s = Curl_Performing refused" "fine \<longrightarrow> \<not> refused"
  shows "transfer_ok (CurlPerform_result fine s)"
proof -
  let ?s = "on_source (\<lambda>d. if cd_headers_done d then listen Transfer_End d else d\<lparr>cd_tentative_length := 0\<rparr>) s"
  have ok1: "transfer_ok ?s" using ok by (subst transfer_ok_on_source) (simp_all add: transfer_fields_def listen_def)
  have "transfer_ok (perform_done (on_source (\<lambda>d. d\<lparr>cd_load_error := True\<rparr>) ?s))"
    using transfer_ok_fail [OF ok1] at(1) by (intro perform_done_ok) simp_all
  moreover have "transfer_ok (drain (signal_writer (on_source (\<lambda>d. d\<lparr>cd_eof := True\<rparr>) ?s)))" if "fine"
  proof (rule drain_ok)
    let ?t = "on_source (\<lambda>d. d\<lparr>cd_eof := True\<rparr>) ?s"
    have "\<not> cd_eof (cs_source ?s)" using ok1 at(1) by (simp add: transfer_ok_def flow_ok_def Let_def)
    then have "last_ok (cs_last s) True (cd_buffers (cs_source ?s)) (cs_delivered s)"
      using ok1 last_ok_before_eof by (simp add: transfer_ok_def result_ok_def) blast
    then have "transfer_ok (at_drain ?t)"
      using ok1 at that performing_active [OF ok1] by (clarsimp simp: transfer_defs queue_part_def at_drain_def)
    then show "transfer_ok (at_drain (signal_writer ?t))" by (simp add: at_drain_def signal_writer_update)
  qed
  ultimately show ?thesis by (simp add: CurlPerform_result_def Let_def)
qed

lemma curl_step_ok: "curl_step spurious s t \<Longrightarrow> transfer_ok s \<Longrightarrow> transfer_ok t"
proof (induction rule: curl_step.induct)
  case (properties_changed s f name v)
  then show ?case
    by (auto simp: transfer_ok_on_source transfer_fields_def SetRequestProperty_def ClearRequestProperty_def ClearAllRequestProperties_def)
next
  case (read_called s n s')
  then show ?case using Read_ok [of s n] by auto
next
  case (read_woken s n s')
  then show ?case using read_locked_ok [of s n] by auto
next
  case (read_all_woken s n)
  then show ?case by (intro read_all_locked_ok) (simp_all add: transfer_ok_def waiting_ok_def)
next
  case (close_done s)
  then show ?case by (intro Close_finish_ok) (auto simp: transfer_ok_def flow_ok_def waiting_ok_def Let_def)
next
  case (perform s)
  then show ?case by (clarsimp simp: transfer_defs)
next
  case (body_woken s unread)
  then show ?case by (intro process_body_ok) (clarsimp simp: transfer_defs in_body_def)
next
  case (drain_woken s)
  then show ?case by (intro drain_ok) (clarsimp simp: transfer_defs at_drain_def)
next
  case (flag b s)
  then show ?case by (simp add: transfer_defs)
next
  case (other_sources s b)
  then show ?case by (clarsimp simp: transfer_defs)
qed (simp_all add: Open_begin_ok Open_headers_done_ok Open_canceled_ok ReadAllToString_ok Close_begin_ok CurlHeaderCallback_ok
      CurlWriteCallback_ok CurlPerform_result_ok)

lemma curl_reachable_ok: "curl_reachable spurious listener lock m s \<Longrightarrow> transfer_ok s"
  unfolding curl_reachable_def
proof (induction rule: rtranclp_induct)
  case base
  then show ?case by (simp add: curl_start_def CurlDataSource_new_def transfer_defs queue_ok_def head_ok_def)
qed (rule curl_step_ok)

section \<open>Properties\<close>

text \<open>
  C8. A transfer delivers the body. In every interleaving of the calls of the loading thread with libcurl's callbacks,
  cancellations and waits that end early, what was read is a beginning of the body in order, the queue stays within its bound,
  the end of the input is reported only when the whole body was read, reading the body to a string gives the whole
  body or nothing, reading never goes beyond a buffer, and an open source holds the global lock.
\<close>

theorem transfer_reachable_safe:
  assumes "curl_reachable spurious listener lock m s"
  shows "(\<exists>u. cs_fed s = cs_delivered s @ u) \<and> length (concat (cd_buffers (cs_source s))) \<le> cd_max_buffer_size (cs_source s) \<and>
    (\<forall>out. cs_last s = Some (Got RESULT_END_OF_INPUT out) \<longrightarrow> cs_delivered s = cs_fed s) \<and>
    (\<forall>out. cs_last s = Some (Got_All out) \<longrightarrow> out = [] \<or> out = cs_fed s) \<and>
    (\<exists>s'. CurlDataSource_Read n s = Inr s') \<and>
    (cd_open (cs_source s) \<and> cd_use_global_lock (cs_source s) \<longrightarrow> cs_global_active s)"
proof -
  let ?d = "cs_source s"
  have ok: "transfer_ok s" by (rule curl_reachable_ok [OF assms])
  have q: "cd_bytes_buffered ?d = length (concat (cd_buffers ?d))" "cd_bytes_buffered ?d \<le> cd_max_buffer_size ?d"
      "cs_received s = cs_delivered s @ drop (cd_buffer_head_pos ?d) (concat (cd_buffers ?d))"
    using ok by (simp_all add: transfer_ok_def queue_ok_def Let_def)
  have f: "\<exists>u. cs_fed s = cs_received s @ u" "cd_eof ?d \<Longrightarrow> cs_fed s = cs_received s"
    using ok by (auto simp: transfer_ok_def flow_ok_def Let_def)
  have r: "last_ok (cs_last s) (cd_eof ?d) (cd_buffers ?d) (cs_delivered s)" and l: "lock_ok s"
    using ok by (simp_all add: transfer_ok_def result_ok_def)
  have "\<exists>u. cs_fed s = cs_delivered s @ u" using f(1) q(3) by auto
  moreover have "cs_delivered s = cs_fed s" if "cs_last s = Some (Got RESULT_END_OF_INPUT out)" for out
    using r q(3) f(2) that by simp
  moreover have "out = [] \<or> out = cs_fed s" if "cs_last s = Some (Got_All out)" for out
    using r q(3) f(2) that by auto
  moreover have "\<exists>s'. CurlDataSource_Read n s = Inr s'" using Read_ok [OF ok] by blast
  ultimately show ?thesis using q(1,2) l by (simp add: lock_ok_def)
qed

text \<open>
  Closing completes. A thread that closes a source never waits in vain: libcurl's thread can go on and finish, and then the source is
  closed.
\<close>

theorem closing_completes:
  assumes reach: "curl_reachable spurious listener lock m s" and at: "cs_loader s = Close_Waits"
  shows "\<exists>t. (curl_step spurious)\<^sup>*\<^sup>* s t \<and> cs_last t = Some Closed"
proof -
  have close: "\<exists>t'. (curl_step spurious)\<^sup>*\<^sup>* t t' \<and> cs_last t' = Some Closed" if "cs_loader t = Close_Waits" "cd_curl_done (cs_source t)" for t
    using curl_step.close_done [OF that, of spurious] by (intro exI [of _ "Close_finish t"]) (auto simp: Close_finish_def)
  have fail: "\<exists>t'. (curl_step spurious)\<^sup>*\<^sup>* t t' \<and> cs_last t' = Some Closed" if "cs_loader t = Close_Waits" "cs_curl t = Curl_Performing r" for t r
  proof -
    have "curl_step spurious t (CurlPerform_result False t)" by (rule curl_step.performed [OF that(2)]) simp
    moreover have "cs_loader (CurlPerform_result False t) = Close_Waits" "cd_curl_done (cs_source (CurlPerform_result False t))"
      using that by (simp_all add: CurlPerform_result_def perform_done_def Let_def)
    ultimately show ?thesis using close by (meson converse_rtranclp_into_rtranclp)
  qed
  have ok: "cd_active (cs_source s)" "cd_load_error (cs_source s)" "place_waits (cs_curl s) \<longrightarrow> cs_curl_woken s"
      "cs_curl s = Curl_Idle \<Longrightarrow> cd_curl_done (cs_source s)"
    using curl_reachable_ok [OF reach] at by (auto simp: transfer_ok_def waiting_ok_def flow_ok_def Let_def)
  show ?thesis
  proof (cases "cs_curl s")
    case Curl_Idle
    then show ?thesis using close [OF at] ok(4) by blast
  next
    case Curl_Posted
    let ?t = "s\<lparr>cs_curl := Curl_Performing False\<rparr>"
    have "curl_step spurious s ?t" by (rule curl_step.perform [OF Curl_Posted])
    then show ?thesis using fail [of ?t False] at by (auto intro: converse_rtranclp_into_rtranclp)
  next
    case (Curl_Performing r)
    then show ?thesis using fail [OF at] by blast
  next
    case (Body_Waits u)
    have "curl_step spurious s (process_body u False s)" using ok(3) Body_Waits by (intro curl_step.body_woken) simp_all
    moreover have "cs_curl (process_body u False s) = Curl_Performing (u \<noteq> [])" "cs_loader (process_body u False s) = Close_Waits"
      using ok(2) at by (simp_all add: process_body.simps [of u] Let_def)
    ultimately show ?thesis using fail by (meson converse_rtranclp_into_rtranclp)
  next
    case Drain_Waits
    have "curl_step spurious s (drain s)" using ok(3) Drain_Waits by (intro curl_step.drain_woken) simp_all
    moreover have "cs_loader (drain s) = Close_Waits" "cd_curl_done (cs_source (drain s))"
      using ok(2) at by (simp_all add: drain_def perform_done_def)
    ultimately show ?thesis using close by (meson converse_rtranclp_into_rtranclp)
  qed
qed

subsection \<open>A wait that never ends\<close>

text \<open>
  A run with a queue of two bytes. libcurl brings three bytes and waits for room; the reader takes the two that are
  there and waits for more; libcurl's thread goes on and adds the third byte without waking the reader, because its call
  has woken the reader once before it waited, and in its next call it waits for room again, as the queue was not empty.
\<close>

definition stall_spec :: data_spec where
  "stall_spec = \<lparr>ds_uri = [], ds_post_body = None, ds_absolute_stream_position = 0, ds_position = 0, ds_length = LENGTH_UNBOUNDED,
     ds_key = None, ds_flags = 0\<rparr>"

definition stall_source :: "bool \<Rightarrow> byte list list \<Rightarrow> nat \<Rightarrow> nat \<Rightarrow> curl_data_source" where
  "stall_source headers_done buffers buffered read =
     (CurlDataSource_new False False 2)\<lparr>cd_open := True, cd_active := True, cd_bytes_buffered := buffered, cd_buffers := buffers,
       cd_headers_done := headers_done, cd_bytes_read := read,
       cd_easy := map snd (general_options @ (False, CURLOPT_HTTPHEADER []) # callback_options @ [(False, CURLOPT_URL [])])\<rparr>"

definition stall_state ::
  "curl_data_source \<Rightarrow> loader_place \<Rightarrow> loader_result option \<Rightarrow> curl_place \<Rightarrow> bool \<Rightarrow> byte list \<Rightarrow> byte list \<Rightarrow> byte list \<Rightarrow> curl_system" where
  "stall_state d l r c woken fed received delivered =
     \<lparr>cs_source = d, cs_loader = l, cs_loader_woken = False, cs_last = r, cs_curl = c, cs_curl_woken = woken, cs_cancel_set = False,
      cs_global_active = False, cs_fed = fed, cs_received = received, cs_delivered = delivered\<rparr>"

definition stall_end :: curl_system where
  "stall_end = stall_state (stall_source True [[3], [4]] 2 2) (Read_Waits 2) None (Body_Waits [5]) False [1, 2, 3, 4, 5] [1, 2, 3, 4] [1, 2]"

lemmas stall_defs = stall_state_def stall_source_def CurlDataSource_new_def on_source_def Let_def GetBufferFree_def GetReadable_def size_minus_def
  signal_writer_def signal_reader_def enqueue_def cancel_requested_def loader_returns_def

lemma stall_steps:
  "Open_begin (\<lambda>_. True) (\<lambda>_ _. True) stall_spec False (curl_start False False 2) =
     stall_state (stall_source False [] 0 0) Open_Waits_Headers None Curl_Posted False [] [] []"
  "CurlWriteCallback None None [1, 2, 3] (stall_state (stall_source False [] 0 0) Open_Waits_Headers None (Curl_Performing False) False [] [] []) =
     stall_state (stall_source True [[1, 2]] 2 0) Open_Waits_Headers None (Body_Waits [3]) False [1, 2, 3] [1, 2] []"
  "Open_headers_done (stall_state (stall_source True [[1, 2]] 2 0) Open_Waits_Headers None (Body_Waits [3]) False [1, 2, 3] [1, 2] []) =
     stall_state (stall_source True [[1, 2]] 2 0) Loader_Ready (Some (Opened LENGTH_UNBOUNDED)) (Body_Waits [3]) False [1, 2, 3] [1, 2] []"
  "CurlDataSource_Read 2 (stall_state (stall_source True [[1, 2]] 2 0) Loader_Ready (Some (Opened LENGTH_UNBOUNDED)) (Body_Waits [3]) False [1, 2, 3] [1, 2] []) =
     Inr (stall_state (stall_source True [] 0 2) Loader_Ready (Some (Got 2 [1, 2])) (Body_Waits [3]) True [1, 2, 3] [1, 2] [1, 2])"
  "CurlDataSource_Read 2 (stall_state (stall_source True [] 0 2) Loader_Ready (Some (Got 2 [1, 2])) (Body_Waits [3]) True [1, 2, 3] [1, 2] [1, 2]) =
     Inr (stall_state (stall_source True [] 0 2) (Read_Waits 2) None (Body_Waits [3]) True [1, 2, 3] [1, 2] [1, 2])"
  "process_body [3] False (stall_state (stall_source True [] 0 2) (Read_Waits 2) None (Body_Waits [3]) True [1, 2, 3] [1, 2] [1, 2]) =
     stall_state (stall_source True [[3]] 1 2) (Read_Waits 2) None (Curl_Performing False) True [1, 2, 3] [1, 2, 3] [1, 2]"
  "CurlWriteCallback None None [4, 5] (stall_state (stall_source True [[3]] 1 2) (Read_Waits 2) None (Curl_Performing False) True [1, 2, 3] [1, 2, 3] [1, 2]) =
     stall_end"
  by (simp_all add: stall_defs stall_end_def stall_spec_def Open_begin_def prepare_request_def or_fail_def general_options_def callback_options_def
      post_options_def set_range_def SetCurlOption_def BuildRequestHeaders_def curl_start_def starts_with_word_def CurlWriteCallback_def
      ProcessHeadersComplete_def listen_def ProcessBodyData_def process_body.simps Open_headers_done_def CurlDataSource_Read_def read_locked_def)

lemma stall_reachable: "curl_reachable False False False 2 stall_end"
proof -
  let ?s = "curl_start False False 2" and ?s1 = "stall_state (stall_source False [] 0 0) Open_Waits_Headers None Curl_Posted False [] [] []"
    and ?s2 = "stall_state (stall_source False [] 0 0) Open_Waits_Headers None (Curl_Performing False) False [] [] []"
    and ?s3 = "stall_state (stall_source True [[1, 2]] 2 0) Open_Waits_Headers None (Body_Waits [3]) False [1, 2, 3] [1, 2] []"
    and ?s4 = "stall_state (stall_source True [[1, 2]] 2 0) Loader_Ready (Some (Opened LENGTH_UNBOUNDED)) (Body_Waits [3]) False [1, 2, 3] [1, 2] []"
    and ?s5 = "stall_state (stall_source True [] 0 2) Loader_Ready (Some (Got 2 [1, 2])) (Body_Waits [3]) True [1, 2, 3] [1, 2] [1, 2]"
    and ?s6 = "stall_state (stall_source True [] 0 2) (Read_Waits 2) None (Body_Waits [3]) True [1, 2, 3] [1, 2] [1, 2]"
    and ?s7 = "stall_state (stall_source True [[3]] 1 2) (Read_Waits 2) None (Curl_Performing False) True [1, 2, 3] [1, 2, 3] [1, 2]"
  note at = stall_state_def stall_source_def CurlDataSource_new_def curl_start_def
  have "curl_step False ?s ?s1" unfolding stall_steps(1) [symmetric] by (rule curl_step.open_called) (simp_all add: at)
  moreover have "curl_step False ?s1 ?s2" using curl_step.perform [of ?s1 False] by (simp add: stall_state_def)
  moreover have "curl_step False ?s2 ?s3" unfolding stall_steps(2) [symmetric] by (rule curl_step.body) (simp add: at)
  moreover have "curl_step False ?s3 ?s4" unfolding stall_steps(3) [symmetric] by (rule curl_step.headers_arrived) (simp_all add: at)
  moreover have "curl_step False ?s4 ?s5" by (rule curl_step.read_called [OF _ stall_steps(4)]) (simp add: at)
  moreover have "curl_step False ?s5 ?s6" by (rule curl_step.read_called [OF _ stall_steps(5)]) (simp add: at)
  moreover have "curl_step False ?s6 ?s7" unfolding stall_steps(6) [symmetric] by (rule curl_step.body_woken) (simp_all add: at)
  moreover have "curl_step False ?s7 stall_end" unfolding stall_steps(7) [symmetric] by (rule curl_step.body) (simp add: at)
  ultimately show ?thesis unfolding curl_reachable_def by (meson rtranclp.rtrancl_into_rtrancl rtranclp.rtrancl_refl)
qed

text \<open>Both threads wait and neither was woken.\<close>

definition stalled :: "curl_system \<Rightarrow> bool" where
  "stalled s \<longleftrightarrow> (\<exists>n u. cs_loader s = Read_Waits n \<and> cs_curl s = Body_Waits u) \<and> \<not> cs_loader_woken s \<and> \<not> cs_curl_woken s"

lemma stalled_step: "curl_step False s t \<Longrightarrow> stalled s \<Longrightarrow> stalled t \<and> cs_source t = cs_source s \<and> cs_loader t = cs_loader s"
  by (induction rule: curl_step.induct) (auto simp: stalled_def)

lemma stalled_steps: "(curl_step False)\<^sup>*\<^sup>* s t \<Longrightarrow> stalled s \<Longrightarrow> stalled t \<and> cs_source t = cs_source s \<and> cs_loader t = cs_loader s"
  by (induction rule: rtranclp_induct) (auto dest: stalled_step)

text \<open>
  C40. A transfer can stall for good. There is an interleaving, without errors and with a server that goes on sending, after
  which the reader waits for data although data is in the queue, and nothing that can happen afterwards (not even a
  cancellation) lets it go on, because libcurl's thread waits for the reader.
\<close>

theorem lost_wakeup_stalls:
  "\<exists>s. curl_reachable False False False 2 s \<and> cs_loader s = Read_Waits 2 \<and> cd_buffers (cs_source s) = [[3], [4]] \<and>
     \<not> cd_load_error (cs_source s) \<and> {t. (curl_step False)\<^sup>*\<^sup>* s t} \<subseteq> {t. cs_loader t = Read_Waits 2 \<and> cs_source t = cs_source s}"
proof (intro exI conjI)
  have "stalled stall_end" by (simp add: stalled_def stall_end_def stall_state_def)
  then show "{t. (curl_step False)\<^sup>*\<^sup>* stall_end t} \<subseteq> {t. cs_loader t = Read_Waits 2 \<and> cs_source t = cs_source stall_end}"
    using stalled_steps by (fastforce simp: stall_end_def stall_state_def)
qed (rule stall_reachable, simp_all add: stall_end_def stall_state_def stall_source_def CurlDataSource_new_def)

theorem transfer_reachable_safe_witness:
  "(\<exists>u. cs_fed stall_end = cs_delivered stall_end @ u) \<and> length (concat (cd_buffers (cs_source stall_end))) \<le> cd_max_buffer_size (cs_source stall_end) \<and>
   (\<exists>s'. CurlDataSource_Read 4 stall_end = Inr s') \<and> cs_delivered stall_end = [1, 2] \<and> cs_fed stall_end = [1, 2, 3, 4, 5]"
  using transfer_reachable_safe [OF stall_reachable, of 4] by (simp add: stall_end_def stall_state_def)

text \<open>An error response without a body is taken for a success: the status is only looked at when data arrives.\<close>

theorem empty_error_response_accepted:
  assumes "\<not> cd_headers_done (cs_source s)" "\<not> cd_load_error (cs_source s)" "cd_buffers (cs_source s) = []" "\<not> cancel_requested s"
  shows "cs_last (Open_headers_done (CurlPerform_result True s)) = Some (Opened 0) \<and>
    cd_http_error (cs_source (Open_headers_done (CurlPerform_result True s))) = cd_http_error (cs_source s)"
  using assms by (auto simp: CurlPerform_result_def drain_def perform_done_def Open_headers_done_def cancel_requested_def)

end
