(* ===== verification/License_Fetcher.thy ===== *)
theory License_Fetcher
  imports Chunks
begin

text \<open>
  The exchange of a key message for a license (\<open>drm/license_fetcher.cc\<close>), over an HTTP source whose operations are the
  record \<open>http_ops\<close>. \<open>fetch_lock_\<close> is held for a whole \<open>Fetch\<close>; the address and the token are read together under
  \<open>attributes_lock_\<close>.
\<close>

record 'h http_ops =
  ho_set_request_property :: "string \<Rightarrow> string \<Rightarrow> 'h \<Rightarrow> 'h"
  ho_open :: "data_spec \<Rightarrow> 'h \<Rightarrow> int \<times> 'h"
  ho_read_all_to_string :: "nat \<Rightarrow> 'h \<Rightarrow> string \<times> 'h"
  ho_close :: "'h \<Rightarrow> 'h"

record 'h license_fetcher =
  lf_license_uri :: string
  lf_auth_token :: string
  lf_data_source :: 'h

definition kBufSize :: nat where
  "kBufSize = 8192"

definition LicenseFetcher_new :: "'h http_ops \<Rightarrow> 'h \<Rightarrow> string \<Rightarrow> 'h license_fetcher" where
  "LicenseFetcher_new o1 data_source user_agent =
     (let h = ho_set_request_property o1 ''Content-Type'' ''text/xml;charset=utf=8'' data_source
      in \<lparr>lf_license_uri = [], lf_auth_token = [],
          lf_data_source = (if user_agent \<noteq> [] then ho_set_request_property o1 ''User-Agent'' user_agent h else h)\<rparr>)"

definition UpdateLicenseUri :: "string \<Rightarrow> 'h license_fetcher \<Rightarrow> 'h license_fetcher" where
  "UpdateLicenseUri license_uri f = f\<lparr>lf_license_uri := license_uri\<rparr>"

definition UpdateAuthToken :: "string \<Rightarrow> 'h license_fetcher \<Rightarrow> 'h license_fetcher" where
  "UpdateAuthToken auth_token f = f\<lparr>lf_auth_token := auth_token\<rparr>"

definition license_spec :: "string \<Rightarrow> string \<Rightarrow> data_spec" where
  "license_spec license_uri key_message =
     \<lparr>ds_uri = license_uri, ds_post_body = Some key_message, ds_absolute_stream_position = 0, ds_position = 0,
      ds_length = LENGTH_UNBOUNDED, ds_key = None, ds_flags = 0\<rparr>"

text \<open>\<open>out_license\<close> is the string of the caller, which is kept when the request cannot be opened.\<close>

definition Fetch :: "'h http_ops \<Rightarrow> string \<Rightarrow> string \<Rightarrow> 'h license_fetcher \<Rightarrow> bool \<times> string \<times> 'h license_fetcher" where
  "Fetch o1 key_message out_license f =
     (let h = ho_set_request_property o1 ''Authorization'' (lf_auth_token f) (lf_data_source f)
      in case ho_open o1 (license_spec (lf_license_uri f) key_message) h of (r, h1) \<Rightarrow>
           (let open_ok = (r \<noteq> RESULT_IO_ERROR)
            in case (if open_ok then ho_read_all_to_string o1 kBufSize h1 else (out_license, h1)) of (license, h2) \<Rightarrow>
                 (open_ok \<and> license \<noteq> [], license, f\<lparr>lf_data_source := ho_close o1 h2\<rparr>)))"

text \<open>The source is closed again whatever the outcome, when its operation for closing does that.\<close>

lemma Fetch_closes:
  assumes "\<And>h. \<not> is_open (ho_close o1 h)"
  shows "\<not> is_open (lf_data_source (snd (snd (Fetch o1 msg out f))))"
  using assms by (simp add: Fetch_def Let_def split: prod.split)

text \<open>A license comes from an answer to the key message that was sent with the current token to the current address.\<close>

lemma Fetch_license:
  assumes "Fetch o1 msg out f = (True, license, f')"
  obtains r h1 h2 where "ho_open o1 (license_spec (lf_license_uri f) msg)
      (ho_set_request_property o1 ''Authorization'' (lf_auth_token f) (lf_data_source f)) = (r, h1)" "r \<noteq> RESULT_IO_ERROR"
    "ho_read_all_to_string o1 kBufSize h1 = (license, h2)" "license \<noteq> []"
  using assms by (auto simp: Fetch_def Let_def split: prod.splits if_splits)

end
