(* ===== verification/Spec2Isabelle.thy ===== *)
theory Spec2Isabelle
  imports Dash_Source_Properties Mpd_Parser_Properties Dash_Thread_Properties Rawcc_Properties Mp4_Extractor
    Curl_Properties License_Fetcher
begin

text \<open>
  A verification library for libndash, the core of an adaptive streaming player (\<open>src/ndash/src\<close>): it downloads
  and parses DASH manifests, chooses and downloads segments, extracts samples from them and hands the
  samples to a decoder. The theories model the program's own logic operation by operation and prove what
  makes each component correct.

  \<^bold>\<open>The program and how its parts interact.\<close>
  A manifest fetcher loads the document on a loader thread and has the parser turn it into a presentation.
  For every track a sample source asks the DASH chunk source for the next chunk; the chunk source keeps a
  holder per period, which keeps a holder per representation with the segment index in use, and has a
  format evaluator choose the representation. The sample source loads the chunk on a loader thread when
  the load control, shared by all tracks, permits it. The chunk's extractor writes samples into the track
  output, a rolling buffer on blocks of a shared allocator, from which the sample source reads them. A
  bandwidth meter observes the transfers and informs the evaluator. The player owns the tracks: a renderer
  per track runs the track's sample source, and the player picks the next sample among the tracks and hands
  it to the client in fragments, once the license manager has the license of protected content.

  \<^bold>\<open>The theories, from the bottom up, with the sources they model.\<close>

  \<^item> \<open>Ndash_Prelude\<close>: machine integers, faults, arrays, shared lemmas.
  \<^item> \<open>Sample_Holder\<close> (\<open>sample_holder.cc\<close>, \<open>crypto_info.cc\<close>), \<open>Info_Queue\<close> (\<open>extractor/info_queue.cc\<close>),
    \<open>Default_Allocator\<close> (\<open>upstream/default_allocator.cc\<close>), \<open>Rolling_Sample_Buffer\<close>
    (\<open>extractor/rolling_sample_buffer.cc\<close>) with its correctness in \<open>Sample_Stream\<close> and \<open>Sample_Buffer_Contract\<close>,
    \<open>Default_Track_Output\<close> (\<open>extractor/default_track_output.cc\<close>). The ring of metadata refines a list of
    samples; a sample that is committed is read back with its bytes; blocks are neither leaked nor used
    after release, in every sequence of operations; splicing and key frame positioning.
  \<^item> \<open>Time_Scaling\<close> (\<open>util/util.cc\<close>, with the rounding of \<open>double\<close> and \<open>float\<close>), \<open>Time_Delta\<close> (time differences of the
    bundled base library), \<open>Uri_Util\<close> (\<open>util/uri_util.cc\<close>),
    \<open>Ranged_Uri\<close>, \<open>Url_Template\<close>, \<open>Segment_Base\<close>, \<open>Segment_Index\<close>, \<open>Content_Protections\<close>, \<open>Presentation\<close> (\<open>mpd/\<close>),
    \<open>Uuid\<close>, \<open>Mime_Types\<close> (\<open>util/\<close>). Resolution of references, merging of ranges, templates, the search for the
    segment that contains a time, protections of several levels, durations of periods.
  \<^item> \<open>Xml_Attributes\<close>, \<open>Mpd_Parser\<close>, \<open>Mpd_Parser_Properties\<close> (\<open>mpd/dash_manifest_representation_parser.cc\<close>, \<open>ParseXsDuration\<close> of
    \<open>util/util.cc\<close>). The parser returns on every document without base addresses; every presentation it
    accepts is well formed; timelines, ranges and durations are read as what they stand for.
  \<^item> \<open>Sliding_Median\<close>, \<open>Bandwidth_Meter\<close>, \<open>Format_Evaluators\<close> (\<open>util/sliding_median.cc\<close>,
    \<open>upstream/default_bandwidth_meter.cc\<close>, \<open>chunk/*_evaluator.cc\<close>, \<open>playback_rate.cc\<close>). The median against its
    definition, the choice of the best format the bandwidth allows.
  \<^item> \<open>Representation_Holder\<close>, \<open>Period_Holder\<close>, \<open>Time_Range\<close>, \<open>Manifest_Fetcher\<close>, \<open>Dash_Chunk_Source\<close>,
    \<open>Dash_Source_Properties\<close> (\<open>dash/\<close>, \<open>time_range.cc\<close>, \<open>manifest_fetcher.cc\<close>). Segment numbers survive a refresh of
    the manifest, the first chunk contains the position, chunks follow each other, periods are numbered
    consecutively in every reachable state.
  \<^item> \<open>Load_Control\<close>, \<open>Loader_Thread\<close>, \<open>Chunks\<close>, \<open>Chunk_Sample_Source\<close>, \<open>Sample_Source_Safety\<close>,
    \<open>Sample_Source_Properties\<close> (\<open>load_control.cc\<close>, \<open>upstream/loader_thread.cc\<close>, \<open>chunk/\<close>). The sample source is a
    step relation over the reader's calls, the loader's callbacks and the loading thread; its invariant
    holds in every interleaving, disabling finishes, loads are called back, the load control permits
    only the loader that is furthest behind.
  \<^item> \<open>Chunk_Output\<close> (\<open>chunk/chunk_extractor_wrapper.cc\<close>, the output methods of \<open>chunk/container_media_chunk.cc\<close> and
    \<open>chunk/initialization_chunk.cc\<close>, \<open>chunk/single_sample_media_chunk.cc\<close>), \<open>Rawcc_Extractor\<close> and \<open>Rawcc_Properties\<close>
    (\<open>extractor/rawcc_parser_extractor.cc\<close>), \<open>Mp4_Extractor\<close> (\<open>extractor/stream_parser_extractor.cc\<close>). However the captions of
    a stream are cut into pieces they arrive in samples of the track output; every buffer the MP4 parser
    reports becomes one sample, in reverse order when playing backwards.
  \<^item> \<open>Curl_Data_Source\<close> and \<open>Curl_Properties\<close> (\<open>upstream/curl_data_source.cc\<close>), \<open>License_Fetcher\<close> (\<open>drm/license_fetcher.cc\<close>). The
    reading thread and libcurl's thread as a step relation over a bounded queue: what is read is the body in
    order in every interleaving, closing completes, and an interleaving in which both wait for good.
  \<^item> \<open>Media_Format\<close> (\<open>media_format.cc\<close>, \<open>drm/drm_init_data.cc\<close>), \<open>Drm_Session_Manager\<close> (\<open>drm/drm_session_manager.cc\<close>),
    \<open>Track_Renderer\<close> (\<open>track_renderer.cc\<close>, \<open>sample_source_track_renderer.cc\<close>), \<open>Dash_Thread\<close> and
    \<open>Dash_Thread_Properties\<close> (\<open>dash_thread.cc\<close>). One license request per PSSH in every interleaving, the life
    cycle of a renderer, the invariant of the player over its client's calls, tasks and callbacks, the
    choice of the next sample, fragments that make up samples, rate changes that complete.

  \<^bold>\<open>Interfaces.\<close>
  The contracts between components are locales, each interpreted on the model: \<open>sample_fifo\<close> (info queue),
  \<open>block_allocator\<close> (default allocator), \<open>payload_queue\<close> and \<open>peekable_queue\<close> (rolling buffer), \<open>segment_index\<close> (the
  index of a representation), \<open>averager\<close> (sliding median), \<open>format_evaluator\<close> (the three evaluators),
  \<open>sample_sink\<close> (the output of an extractor, on the track output of a media chunk), \<open>discontinuity_reader\<close> (the reader
  of a sample source).

  \<^bold>\<open>Conventions.\<close>
  Signed integers are \<open>int\<close>; conversions to a narrower type and unsigned wrap-around are written out
  (\<open>narrow32\<close>, \<open>narrow64\<close>, \<open>wrap64\<close>). A \<open>double\<close> is a rational with its rounding written out, or an element of \<open>ieee\<close>
  where infinities matter. Bytes are \<open>8 word\<close>. A failed \<open>CHECK\<close> or \<open>LOG(FATAL)\<close> is \<open>Inl Check_failed\<close>, an access C++
  leaves undefined \<open>Inl Undefined_access\<close>; a \<open>DCHECK\<close> is a hypothesis where a theorem needs it. Threads are
  interleavings: each operation holds its lock as a whole, and the steps of a relation are the points
  where threads can alternate. Addresses of objects that are compared are numbers that are not reused.

  \<^bold>\<open>Loops.\<close>
  Loops are structural recursions or functions with a termination proof. Some may not end and are
  \<open>partial_function\<close>s whose \<open>None\<close> is not returning: the removal of dot segments (which indeed does not end on
  some addresses), the loop of the parser over the nodes of an element (which always ends, by
  \<open>parser_returns\<close>), the player's attempts to read a sample (samples that are only decoded do not count), the
  extractors' loops that write a sample in parts (they end on the track output, by \<open>write_loop_ok\<close>), and loops over data
  the environment delivers. No fuel is used.

  \<^bold>\<open>Parameters.\<close>
  Code outside the repository's own sources is an argument: the XML reader, Base64 and the parser of UTC times,
  the data source behind a load (the pieces it delivers), clocks, the extractor behind the load of a chunk, the
  vendored MP4 parser (the reports it makes to the extractor), libcurl (its
  acceptance of options, its callbacks and the result of a transfer), the decoder and
  the decryption module of the client. The player acts on its sources through \<open>player_ops\<close>, operations on a state
  they share; \<open>chunk_reader\<close> is the reader on the model of the sample source.
  Theorems with hypotheses on them have witnesses with concrete functions.

  \<^bold>\<open>Not modelled.\<close>
  Quality reports (\<open>qoe/\<close>, whose methods are empty) and the C interface (\<open>ndash.cc\<close>, which only passes calls on).
  \<open>segment_parser.cc\<close> is a program that tries the MP4 parser. Of the player, the methods that only report or log and
  the posting of a client's call to its thread. The vendored Chromium sources, the MP4 parser among them, the sample player, mocks and
  unit tests are not part of the library.
\<close>

end
